(* ===== verification/Prelude.thy ===== *)
theory Prelude
  imports Main "HOL-Library.Word" "HOL-Library.List_Lexorder" "HOL-Library.Char_ord"
begin

text \<open>
  Shared ground of the NucleusDB development: machine types, byte strings, results,
  the ordered map (\<^verbatim>\<open>BTreeMap\<close>) the components keep their state in, decimal
  rendering, and the generic lemmas on lists and words the component proofs use.

  Conventions. A Rust \<^verbatim>\<open>u8\<close> inside a byte string is a HOL \<^typ>\<open>char\<close> (an eight bit
  value), so a \<^verbatim>\<open>Vec<u8>\<close> and the UTF-8 contents of a \<^verbatim>\<open>String\<close> are both a
  \<^typ>\<open>string\<close>; the order on keys is the bytewise lexicographic one, as in Rust.
  A \<^verbatim>\<open>u64\<close> is a 64 bit word.  A \<^verbatim>\<open>usize\<close> that counts elements of a collection is a
  \<^typ>\<open>nat\<close>: a collection never has more than \<^verbatim>\<open>isize::MAX\<close> elements, so such a count
  does not wrap.  A \<^verbatim>\<open>Result<T, E>\<close> is a sum with the error on the left.
\<close>

named_theorems bytes_simps \<open>rendering of numbers and bytes as text\<close>

type_synonym u8 = "8 word"
type_synonym u16 = "16 word"
type_synonym u32 = "32 word"
type_synonym u64 = "64 word"
type_synonym bytes = string
type_synonym node_hash = bytes

abbreviation Ok :: "'a \<Rightarrow> 'e + 'a" where
  "Ok \<equiv> Inr"

abbreviation Err :: "'e \<Rightarrow> 'e + 'a" where
  "Err \<equiv> Inl"

abbreviation is_ok :: "'e + 'a \<Rightarrow> bool" where
  "is_ok r \<equiv> \<not> isl r"

section \<open>Ordered maps\<close>

text \<open>
  \<^verbatim>\<open>std::collections::BTreeMap\<close>: an association list with strictly increasing keys.
  Iteration visits the keys in order.
\<close>

type_synonym ('k, 'v) btree_map = "('k \<times> 'v) list"

definition bt_wf :: "('k::linorder, 'v) btree_map \<Rightarrow> bool" where
  "bt_wf m \<longleftrightarrow> sorted_wrt (<) (map fst m)"

definition bt_get :: "('k, 'v) btree_map \<Rightarrow> 'k \<Rightarrow> 'v option" where
  "bt_get m k = map_of m k"

fun bt_insert :: "'k::linorder \<Rightarrow> 'v \<Rightarrow> ('k, 'v) btree_map \<Rightarrow> ('k, 'v) btree_map" where
  "bt_insert k v [] = [(k, v)]"
| "bt_insert k v ((k', v') # m) =
     (if k < k' then (k, v) # (k', v') # m
      else if k = k' then (k, v) # m
      else (k', v') # bt_insert k v m)"

fun bt_remove :: "'k \<Rightarrow> ('k, 'v) btree_map \<Rightarrow> ('k, 'v) btree_map" where
  "bt_remove k [] = []"
| "bt_remove k ((k', v') # m) = (if k = k' then m else (k', v') # bt_remove k m)"

definition bt_keys :: "('k, 'v) btree_map \<Rightarrow> 'k list" where
  "bt_keys m = map fst m"

definition bt_contains :: "('k, 'v) btree_map \<Rightarrow> 'k \<Rightarrow> bool" where
  "bt_contains m k \<longleftrightarrow> bt_get m k \<noteq> None"

text \<open>\<^verbatim>\<open>BTreeSet\<close> is the ordered map to the unit type; only its keys are kept here.\<close>

fun bs_insert :: "'k::linorder \<Rightarrow> 'k list \<Rightarrow> 'k list" where
  "bs_insert k [] = [k]"
| "bs_insert k (k' # s) =
     (if k < k' then k # k' # s else if k = k' then k' # s else k' # bs_insert k s)"

lemma set_bt_insert_keys [simp]:
  "set (map fst (bt_insert k v m)) = insert k (set (map fst m))"
  by (induction m rule: bt_insert.induct) auto

lemma fst_set_bt_insert [simp]: "fst ` set (bt_insert k v m) = insert k (fst ` set m)"
  using set_bt_insert_keys [of k v m] by simp

lemma bt_insert_not_Nil [simp]: "bt_insert k v m \<noteq> []"
  by (cases "(k, v, m)" rule: bt_insert.cases) simp_all

lemma bt_get_Nil [simp]: "bt_get [] k = None"
  by (simp add: bt_get_def)

lemma bt_get_insert [simp]: "bt_get (bt_insert k v m) = (bt_get m)(k \<mapsto> v)"
  by (rule ext, induction m rule: bt_insert.induct) (auto simp: bt_get_def)

lemma bt_wf_Nil [simp, intro!]: "bt_wf []"
  by (simp add: bt_wf_def)

lemma bt_wf_Cons:
  "bt_wf ((k, v) # m) \<longleftrightarrow> (\<forall>k' \<in> fst ` set m. k < k') \<and> bt_wf m"
  by (auto simp: bt_wf_def)

lemma bt_wf_insert [simp, intro]: "bt_wf m \<Longrightarrow> bt_wf (bt_insert k v m)"
proof (induction m rule: bt_insert.induct)
  case (2 k v k' v' m)
  then show ?case by (auto simp: bt_wf_Cons)
qed (simp add: bt_wf_def)

lemma set_bt_remove_subset: "set (bt_remove k m) \<subseteq> set m"
  by (induction m rule: bt_remove.induct) auto

lemma bt_wf_remove [simp, intro]: "bt_wf m \<Longrightarrow> bt_wf (bt_remove k m)"
proof (induction m rule: bt_remove.induct)
  case (2 k k' v' m)
  then show ?case
    using set_bt_remove_subset [of k m] by (auto simp: bt_wf_Cons)
qed simp

lemma bt_get_remove [simp]: "bt_wf m \<Longrightarrow> bt_get (bt_remove k m) = (bt_get m)(k := None)"
proof (induction m rule: bt_remove.induct)
  case (2 k k' v' m)
  have "k' = k \<Longrightarrow> map_of m k = None"
    using 2(2) by (auto simp: bt_wf_Cons map_of_eq_None_iff)
  then show ?case
    using 2 by (auto simp: bt_wf_Cons bt_get_def fun_eq_iff)
qed (simp add: fun_eq_iff)

lemma dom_bt_get [simp]: "dom (bt_get m) = set (bt_keys m)"
proof -
  have "bt_get m = map_of m" by (rule ext) (simp add: bt_get_def)
  then show ?thesis by (simp add: bt_keys_def dom_map_of_conv_image_fst)
qed

lemma bt_contains_iff [simp]: "bt_contains m k \<longleftrightarrow> k \<in> set (bt_keys m)"
  by (metis bt_contains_def domD domIff dom_bt_get option.distinct(1))

lemma bt_get_iff_mem: "bt_wf m \<Longrightarrow> bt_get m k = Some v \<longleftrightarrow> (k, v) \<in> set m"
  by (simp add: bt_get_def bt_wf_def strict_sorted_iff map_of_eq_Some_iff)

lemma bt_sorted_keys: "bt_wf m \<Longrightarrow> sorted_wrt (<) (bt_keys m)"
  by (simp add: bt_wf_def bt_keys_def)

lemma set_bs_insert [simp]: "set (bs_insert k s) = insert k (set s)"
  by (induction s rule: bs_insert.induct) auto

lemma sorted_bs_insert [simp, intro]:
  "sorted_wrt (<) s \<Longrightarrow> sorted_wrt (<) (bs_insert k s)"
  by (induction s rule: bs_insert.induct) auto

text \<open>
  The contract of an ordered map, as the components use it: what a lookup returns after
  an insertion or a removal, and iteration in increasing key order.
\<close>

locale ordered_map =
  fixes mt :: "'m"
    and get :: "'m \<Rightarrow> 'k::linorder \<Rightarrow> 'v option"
    and ins :: "'k \<Rightarrow> 'v \<Rightarrow> 'm \<Rightarrow> 'm"
    and del :: "'k \<Rightarrow> 'm \<Rightarrow> 'm"
    and keys :: "'m \<Rightarrow> 'k list"
    and inv :: "'m \<Rightarrow> bool"
  assumes get_mt: "get mt k = None"
    and get_ins: "inv m \<Longrightarrow> get (ins k v m) = (get m)(k \<mapsto> v)"
    and get_del: "inv m \<Longrightarrow> get (del k m) = (get m)(k := None)"
    and keys_dom: "inv m \<Longrightarrow> set (keys m) = dom (get m)"
    and keys_sorted: "inv m \<Longrightarrow> sorted_wrt (<) (keys m)"
    and inv_mt: "inv mt"
    and inv_ins: "inv m \<Longrightarrow> inv (ins k v m)"
    and inv_del: "inv m \<Longrightarrow> inv (del k m)"
begin

lemma distinct_keys: "inv m \<Longrightarrow> distinct (keys m)"
  using keys_sorted [of m] by (simp add: strict_sorted_iff)

lemma keys_determined:
  assumes "inv m" "inv m'" "dom (get m) = dom (get m')"
  shows "keys m = keys m'"
  using assms keys_sorted keys_dom by (metis strict_sorted_equal)

lemma length_keys: "inv m \<Longrightarrow> length (keys m) = card (dom (get m))"
  using distinct_keys keys_dom by (metis distinct_card)

lemma length_keys_ins:
  assumes "inv m"
  shows "length (keys (ins k v m)) =
    (if k \<in> set (keys m) then length (keys m) else Suc (length (keys m)))"
proof -
  have "finite (dom (get m))"
    using assms keys_dom by (metis List.finite_set)
  then show ?thesis
    using assms by (simp add: length_keys inv_ins get_ins keys_dom insert_absorb)
qed

lemma length_keys_del:
  assumes "inv m"
  shows "length (keys (del k m)) =
    (if k \<in> set (keys m) then length (keys m) - 1 else length (keys m))"
proof -
  have "finite (dom (get m))"
    using assms keys_dom by (metis List.finite_set)
  then show ?thesis
    using assms by (simp add: length_keys inv_del get_del keys_dom)
qed

lemma get_ins_other: "inv m \<Longrightarrow> k' \<noteq> k \<Longrightarrow> get (ins k v m) k' = get m k'"
  by (simp add: get_ins)

end

interpretation bt: ordered_map "[]" bt_get bt_insert bt_remove bt_keys bt_wf
  by unfold_locales (simp_all add: bt_sorted_keys)

lemma length_bt_keys [simp]: "length (bt_keys m) = length m"
  by (simp add: bt_keys_def)

lemma bt_eq_map_keys: "bt_wf m \<Longrightarrow> m = map (\<lambda>k. (k, the (bt_get m k))) (bt_keys m)"
  using bt_get_iff_mem [of m] by (force simp: bt_keys_def intro!: map_idI [symmetric])

lemma bt_ext:
  assumes "bt_wf m" "bt_wf m'" "bt_get m = bt_get m'"
  shows "m = m'"
proof -
  have "bt_keys m = bt_keys m'"
    by (rule bt.keys_determined [OF assms(1,2)]) (simp only: assms(3))
  then show ?thesis
    by (metis assms bt_eq_map_keys)
qed

section \<open>Decimal rendering\<close>

text \<open>\<^verbatim>\<open>u64::to_string\<close> and the \<^verbatim>\<open>{}\<close> of \<^verbatim>\<open>format!\<close> on unsigned integers.\<close>

definition digit_char :: "nat \<Rightarrow> char" where
  "digit_char d = char_of (48 + d)"

fun dec :: "nat \<Rightarrow> string" where
  "dec n = (if n < 10 then [digit_char n] else dec (n div 10) @ [digit_char (n mod 10)])"

declare dec.simps [simp del]

definition undec :: "string \<Rightarrow> nat" where
  "undec s = foldl (\<lambda>a c. 10 * a + (of_char c - 48)) 0 s"

lemma of_char_digit: "d < 10 \<Longrightarrow> of_char (digit_char d) = 48 + d"
  by (simp add: digit_char_def)

lemma undec_dec [bytes_simps]: "undec (dec n) = n"
proof (induction n rule: dec.induct)
  case (1 n)
  show ?case
  proof (cases "n < 10")
    case True
    then show ?thesis by (subst dec.simps) (simp add: undec_def of_char_digit)
  next
    case False
    then have "undec (dec n) = 10 * undec (dec (n div 10)) + n mod 10"
      by (subst dec.simps) (simp add: undec_def of_char_digit)
    with 1 False show ?thesis by simp
  qed
qed

lemma inj_dec: "inj dec"
  by (metis injI undec_dec)

lemma dec_eq_iff [simp]: "dec m = dec n \<longleftrightarrow> m = n"
  using inj_dec by (auto dest: injD)

lemma dec_not_Nil [simp]: "dec n \<noteq> []"
  by (subst dec.simps) simp

definition is_digit :: "char \<Rightarrow> bool" where
  "is_digit c \<longleftrightarrow> 48 \<le> (of_char c :: nat) \<and> (of_char c :: nat) \<le> 57"

lemma dec_digits: "c \<in> set (dec n) \<Longrightarrow> is_digit c"
proof (induction n rule: dec.induct)
  case (1 n)
  then show ?case
    by (subst (asm) dec.simps) (auto simp: is_digit_def of_char_digit split: if_splits)
qed

text \<open>Text followed by a separator that does not occur in it splits in one way only.\<close>

lemma append_sep_inject:
  assumes "c \<notin> set xs" "c \<notin> set ys" "xs @ c # us = ys @ c # vs"
  shows "xs = ys \<and> us = vs"
  using assms
proof (induction xs arbitrary: ys)
  case Nil
  then show ?case by (cases ys) auto
next
  case (Cons x xs)
  then show ?case by (cases ys) auto
qed

lemma singletonE:
  assumes "xs \<noteq> []" "length xs < 2"
  obtains x where "xs = [x]"
  using assms by (cases xs) auto

section \<open>Words\<close>

lemma unat_eq_64: "unat (x :: u64) = unat y \<longleftrightarrow> x = y"
  by (simp add: word_unat_eq_iff)

lemma unat_of_nat_64: "n < 2 ^ 64 \<Longrightarrow> unat (of_nat n :: u64) = n"
  by (simp add: unat_of_nat take_bit_nat_eq_self)

end
