(* ===== verification/Hex.thy ===== *)
theory Hex
  imports Prelude
begin

text \<open>
  \<^verbatim>\<open>src/util.rs\<close>, \<^verbatim>\<open>src/hash.rs\<close> and \<^verbatim>\<open>src/security_utils.rs\<close>: lower case hexadecimal
  rendering, its two parsers, domain separated digests and the constant time comparison.
  Nibble arithmetic is done on eight bit words, as in the source.
\<close>

unbundle bit_operations_syntax

definition u8_of :: "char \<Rightarrow> u8" where
  "u8_of c = of_nat (of_char c)"

definition char_of_u8 :: "u8 \<Rightarrow> char" where
  "char_of_u8 w = char_of (unat w)"

text \<open>\<^verbatim>\<open>format!("{b:02x}")\<close>.\<close>

definition hex_digit :: "nat \<Rightarrow> char" where
  "hex_digit d = (if d < 10 then char_of (48 + d) else char_of (87 + d))"

definition hex_byte :: "char \<Rightarrow> string" where
  "hex_byte c = [hex_digit (of_char c div 16), hex_digit (of_char c mod 16)]"

definition hex_encode :: "bytes \<Rightarrow> string" where
  "hex_encode bs = concat (map hex_byte bs)"

definition hex_nibble :: "char \<Rightarrow> u8 option" where
  "hex_nibble b =
     (if CHR ''0'' \<le> b \<and> b \<le> CHR ''9'' then Some (u8_of b - u8_of CHR ''0'')
      else if CHR ''a'' \<le> b \<and> b \<le> CHR ''f'' then Some (u8_of b - u8_of CHR ''a'' + 10)
      else if CHR ''A'' \<le> b \<and> b \<le> CHR ''F'' then Some (u8_of b - u8_of CHR ''A'' + 10)
      else None)"

text \<open>The loop over \<^verbatim>\<open>chunks_exact(2)\<close>: it stops at the first bad nibble.\<close>

fun hex_pairs :: "string \<Rightarrow> bytes option" where
  "hex_pairs (a # b # rest) =
     (case hex_nibble a of
        None \<Rightarrow> None
      | Some hi \<Rightarrow>
          (case hex_nibble b of
             None \<Rightarrow> None
           | Some lo \<Rightarrow>
               map_option ((#) (char_of_u8 (push_bit 4 hi OR lo))) (hex_pairs rest)))"
| "hex_pairs _ = Some []"

definition strip_0x :: "string \<Rightarrow> string" where
  "strip_0x s = (if take 2 s = ''0x'' then drop 2 s else s)"

definition hex_decode :: "string \<Rightarrow> string + bytes" where
  "hex_decode hex =
     (let s = strip_0x hex in
      if odd (length s) then Err ''hex input must have even length''
      else (case hex_pairs s of
              None \<Rightarrow> Err (''invalid hex in '' @ hex)
            | Some out \<Rightarrow> Ok out))"

definition hex_decode_32 :: "string \<Rightarrow> string + bytes" where
  "hex_decode_32 hex =
     (let s = strip_0x hex in
      if length s \<noteq> 64 then
        Err (''expected 32-byte hex (64 chars), got '' @ dec (length s))
      else (case hex_pairs s of
              None \<Rightarrow> Err (''invalid hex in '' @ hex)
            | Some out \<Rightarrow> Ok out))"

text \<open>The \<^verbatim>\<open>decode_hex_exact::<N>\<close> of the verifiers: exactly \<open>n\<close> bytes, no prefix.\<close>

definition decode_hex_exact :: "nat \<Rightarrow> string \<Rightarrow> bytes option" where
  "decode_hex_exact n s = (if length s \<noteq> n * 2 then None else hex_pairs s)"

definition digest_bytes :: "(bytes \<Rightarrow> node_hash) \<Rightarrow> string \<Rightarrow> bytes \<Rightarrow> node_hash" where
  "digest_bytes H domain payload = H (domain @ CHR 0x00 # payload)"

definition domain_hash_32 :: "(bytes \<Rightarrow> node_hash) \<Rightarrow> bytes \<Rightarrow> bytes \<Rightarrow> node_hash" where
  "domain_hash_32 H domain data = H (domain @ CHR 0x00 # data)"

text \<open>\<^verbatim>\<open>ct_eq_32\<close>: or-ing the differences of 32 bytes, without an early exit.\<close>

definition ct_eq_32 :: "bytes \<Rightarrow> bytes \<Rightarrow> bool" where
  "ct_eq_32 a b =
     (fold (\<lambda>i diff. diff OR (u8_of (a ! i) XOR u8_of (b ! i))) [0..<32] (0 :: u8) = 0)"

datatype HashAlgorithm = Sha256 | Sha512

definition hash_algorithm_from_field :: "string option \<Rightarrow> HashAlgorithm" where
  "hash_algorithm_from_field field =
     (if field = Some ''sha512'' then Sha512 else Sha256)"

fun hash_algorithm_as_str :: "HashAlgorithm \<Rightarrow> string" where
  "hash_algorithm_as_str Sha256 = ''sha256''"
| "hash_algorithm_as_str Sha512 = ''sha512''"

fun hash_bytes ::
  "(bytes \<Rightarrow> bytes) \<Rightarrow> (bytes \<Rightarrow> bytes) \<Rightarrow> HashAlgorithm \<Rightarrow> bytes \<Rightarrow> bytes" where
  "hash_bytes sha256 sha512 Sha256 data = sha256 data"
| "hash_bytes sha256 sha512 Sha512 data = sha512 data"

definition hash_hex ::
  "(bytes \<Rightarrow> bytes) \<Rightarrow> (bytes \<Rightarrow> bytes) \<Rightarrow> HashAlgorithm \<Rightarrow> bytes \<Rightarrow> string" where
  "hash_hex sha256 sha512 algo data = hex_encode (hash_bytes sha256 sha512 algo data)"

section \<open>Round trip\<close>

lemma nibble_cases: "d < (16::nat) \<Longrightarrow> d \<in> {0,1,2,3,4,5,6,7,8,9,10,11,12,13,14,15}"
  by simp arith

lemma hex_nibble_digit: "d < 16 \<Longrightarrow> hex_nibble (hex_digit d) = Some (of_nat d)"
  by (drule nibble_cases)
     (auto simp: hex_nibble_def hex_digit_def u8_of_def less_eq_char_def)

lemma push_drop_or_take: "push_bit 4 (n div 16) OR n mod 16 = (n :: nat)"
proof -
  have "push_bit 4 (drop_bit 4 n) OR take_bit 4 n = n"
    by (rule bit_eqI) (auto simp: bit_simps)
  then show ?thesis by (simp add: drop_bit_eq_div take_bit_eq_mod)
qed

lemma hex_byte_roundtrip: "char_of_u8 (push_bit 4 (of_nat (of_char c div 16)) OR of_nat (of_char c mod 16)) = c"
proof -
  have "(push_bit 4 (of_nat (of_char c div 16)) OR of_nat (of_char c mod 16) :: u8)
    = of_nat (push_bit 4 (of_char c div 16) OR of_char c mod 16)"
    by (simp add: of_nat_or_eq of_nat_push_bit)
  also have "push_bit 4 (of_char c div 16) OR of_char c mod 16 = (of_char c :: nat)"
    by (rule push_drop_or_take)
  finally show ?thesis by (simp add: char_of_u8_def unat_of_nat)
qed

lemma hex_pairs_encode [bytes_simps]: "hex_pairs (hex_encode bs) = Some bs"
proof (induction bs)
  case (Cons b bs)
  have "of_char b div 16 < (16::nat)"
    using nat_of_char_less_256 [of b] by (simp add: less_mult_imp_div_less)
  with Cons show ?case
    by (simp add: hex_encode_def hex_byte_def hex_nibble_digit hex_byte_roundtrip)
qed (simp add: hex_encode_def)

lemma length_hex_encode [simp]: "length (hex_encode bs) = 2 * length bs"
  by (induction bs) (simp_all add: hex_encode_def hex_byte_def)

lemma hex_encode_inject [simp]: "hex_encode as = hex_encode bs \<longleftrightarrow> as = bs"
  by (metis hex_pairs_encode option.inject)

definition is_hex_char :: "char \<Rightarrow> bool" where
  "is_hex_char c \<longleftrightarrow>
     of_char c \<in> {48..57::nat} \<or> of_char c \<in> {97..102::nat}"

lemma hex_digit_is_hex: "d < 16 \<Longrightarrow> is_hex_char (hex_digit d)"
  by (auto simp: hex_digit_def is_hex_char_def)

lemma hex_encode_chars: "c \<in> set (hex_encode bs) \<Longrightarrow> is_hex_char c"
proof (induction bs)
  case (Cons b bs)
  have "of_char b div 16 < (16::nat)"
    using nat_of_char_less_256 [of b] by (simp add: less_mult_imp_div_less)
  with Cons show ?case
    using hex_digit_is_hex by (auto simp: hex_encode_def hex_byte_def)
qed (simp add: hex_encode_def)

lemma strip_0x_hex_encode [bytes_simps]: "strip_0x (hex_encode bs) = hex_encode bs"
proof -
  have "CHR ''x'' \<notin> set (take 2 (hex_encode bs))"
    by (auto dest!: in_set_takeD hex_encode_chars simp: is_hex_char_def)
  then show ?thesis by (auto simp: strip_0x_def)
qed

lemma hex_decode_encode: "hex_decode (hex_encode bs) = Ok bs"
  by (simp add: hex_decode_def bytes_simps)

lemma hex_decode_32_encode: "length bs = 32 \<Longrightarrow> hex_decode_32 (hex_encode bs) = Ok bs"
  by (simp add: hex_decode_32_def bytes_simps)

lemma decode_hex_exact_encode [bytes_simps]:
  "length bs = n \<Longrightarrow> decode_hex_exact n (hex_encode bs) = Some bs"
  by (simp add: decode_hex_exact_def bytes_simps)

lemma hex_pairs_length: "hex_pairs s = Some bs \<Longrightarrow> length bs = length s div 2"
  by (induction s arbitrary: bs rule: hex_pairs.induct) (auto split: option.splits)

lemma decode_hex_exact_length: "decode_hex_exact n s = Some bs \<Longrightarrow> length bs = n"
  by (auto simp: decode_hex_exact_def dest: hex_pairs_length split: if_splits)

section \<open>Comparison and domain separation\<close>

lemma inj_u8_of: "u8_of a = u8_of b \<longleftrightarrow> a = b"
proof
  assume "u8_of a = u8_of b"
  then have "unat (u8_of a) = unat (u8_of b)" by simp
  then show "a = b" by (simp add: u8_of_def unat_of_nat)
qed simp

lemma or_fold_zero:
  "(fold (\<lambda>i d. d OR g i) xs x :: u8) = 0 \<longleftrightarrow> x = 0 \<and> (\<forall>i \<in> set xs. g i = 0)"
  by (induction xs arbitrary: x) (auto simp: or_eq_0_iff)

lemma xor_zero_iff: "(a XOR b :: u8) = 0 \<longleftrightarrow> a = b"
  by (metis xor.assoc xor.left_neutral xor.right_neutral xor_self_eq)

lemma ct_eq_32_correct: "length a = 32 \<Longrightarrow> length b = 32 \<Longrightarrow> ct_eq_32 a b \<longleftrightarrow> a = b"
  by (auto simp: ct_eq_32_def or_fold_zero xor_zero_iff inj_u8_of intro: nth_equalityI)

lemma domain_hash_input_inject:
  assumes "CHR 0x00 \<notin> set d" "CHR 0x00 \<notin> set d'"
    "d @ CHR 0x00 # x = d' @ CHR 0x00 # x'"
  shows "d = d' \<and> x = x'"
  using append_sep_inject [OF assms] .

lemma hash_algorithm_roundtrip: "hash_algorithm_from_field (Some (hash_algorithm_as_str a)) = a"
  by (cases a) (simp_all add: hash_algorithm_from_field_def)

end
