(* ===== verification/CT6962.thy ===== *)
theory CT6962
  imports Hex
begin

text \<open>
  The transparency log of \<^verbatim>\<open>src/transparency/ct6962.rs\<close>: RFC 6962 Merkle tree hashes,
  inclusion and consistency proofs and their iterative verifiers, and signed tree heads.

  SHA-256 comes from a crate, so it is the parameter \<open>H\<close> of every definition; the only
  facts assumed of it are that digests have 32 bytes and, for the soundness theorems, that
  \<open>H\<close> has no collision among the finitely many strings actually hashed.
  The verifiers' loops are polymorphic in the node combiner.  Running them with
  \<open>node_hash H\<close> is the code; running them with the constructor of binary trees yields
  the tree of strings the verifier hashes, on which the soundness proofs argue.
\<close>

section \<open>Hashes and trees\<close>

definition leaf_hash :: "(bytes \<Rightarrow> node_hash) \<Rightarrow> bytes \<Rightarrow> node_hash" where
  "leaf_hash H payload = H (CHR 0x00 # payload)"

definition node_hash :: "(bytes \<Rightarrow> node_hash) \<Rightarrow> node_hash \<Rightarrow> node_hash \<Rightarrow> node_hash" where
  "node_hash H left right = H (CHR 0x01 # left @ right)"

definition empty_hash :: "(bytes \<Rightarrow> node_hash) \<Rightarrow> node_hash" where
  "empty_hash H = H []"

text \<open>
  The loop doubles \<open>k\<close> while the double stays below \<open>n\<close>; it starts at 1, so the guard
  \<open>k = 0\<close> only serves termination.
\<close>

function lp2_loop :: "nat \<Rightarrow> nat \<Rightarrow> nat" where
  "lp2_loop k n = (if k = 0 \<or> \<not> 2 * k < n then k else lp2_loop (2 * k) n)"
  by pat_completeness auto
termination
  by (relation "measure (\<lambda>(k, n). n - k)") auto

definition largest_power_of_two_less_than :: "nat \<Rightarrow> nat" where
  "largest_power_of_two_less_than n = (if n < 2 then 0 else lp2_loop 1 n)"

declare lp2_loop.simps [simp del]

lemma lp2_loop_pow:
  "2 ^ i < n \<Longrightarrow> \<exists>q. lp2_loop (2 ^ i) n = 2 ^ q \<and> 2 ^ q < n \<and> n \<le> 2 ^ Suc q"
proof (induction "n - 2 ^ i" arbitrary: i rule: less_induct)
  case less
  show ?case
  proof (cases "2 * 2 ^ i < n")
    case True
    then have "2 ^ Suc i < n" by simp
    moreover have "(2::nat) ^ i < 2 ^ Suc i" by simp
    ultimately have "n - 2 ^ Suc i < n - 2 ^ i" "2 ^ Suc i < n" by linarith+
    from less(1) [OF this] True show ?thesis
      by (simp add: lp2_loop.simps [of "2 ^ i" n])
  next
    case False
    then show ?thesis
      using less(2) by (auto simp: lp2_loop.simps [of "2 ^ i" n] intro!: exI [of _ i])
  qed
qed

lemma lp2_spec:
  assumes "2 \<le> n"
  obtains q where "largest_power_of_two_less_than n = 2 ^ q" "2 ^ q < n" "n \<le> 2 ^ Suc q"
  using assms lp2_loop_pow [of 0 n] by (auto simp: largest_power_of_two_less_than_def)

lemma lp2_unique:
  assumes "2 ^ q < n" "n \<le> 2 ^ Suc q"
  shows "largest_power_of_two_less_than n = 2 ^ q"
proof -
  have "2 \<le> n" using assms(1) by (cases "n = 1") (auto simp: Suc_le_eq intro: le_neq_trans)
  then obtain r where r: "largest_power_of_two_less_than n = 2 ^ r" "2 ^ r < n" "n \<le> 2 ^ Suc r"
    by (rule lp2_spec)
  have "(2::nat) ^ r < 2 ^ Suc q" "(2::nat) ^ q < 2 ^ Suc r"
    using r assms by linarith+
  then have "r = q"
    by (metis less_Suc_eq_le le_antisym one_less_numeral_iff power_strict_increasing_iff
        semiring_norm(76))
  with r show ?thesis by simp
qed

lemma lp2_bounds:
  assumes "2 \<le> n"
  shows "0 < largest_power_of_two_less_than n" "largest_power_of_two_less_than n < n"
  using lp2_spec [OF assms] by (metis zero_less_numeral zero_less_power)+

lemma lp2_length:
  assumes "leaves \<noteq> []" "length leaves \<noteq> Suc 0"
  shows "0 < largest_power_of_two_less_than (length leaves)"
    "largest_power_of_two_less_than (length leaves) < length leaves"
proof -
  have "2 \<le> length leaves" using assms by (cases leaves) (auto simp: Suc_le_eq)
  then show "0 < largest_power_of_two_less_than (length leaves)"
    "largest_power_of_two_less_than (length leaves) < length leaves"
    by (rule lp2_bounds)+
qed

function merkle_tree :: "('h \<Rightarrow> 'h \<Rightarrow> 'h) \<Rightarrow> 'h \<Rightarrow> 'h list \<Rightarrow> 'h" where
  "merkle_tree nd e leaves =
     (let n = length leaves in
      if n = 0 then e
      else if n = 1 then leaves ! 0
      else let k = largest_power_of_two_less_than n in
        nd (merkle_tree nd e (take k leaves)) (merkle_tree nd e (drop k leaves)))"
  by pat_completeness auto
termination
proof (relation "measure (\<lambda>(nd, e, leaves). length leaves)", goal_cases)
  case (2 nd e leaves x xa)
  then show ?case using lp2_length [of leaves] by (simp add: min_less_iff_disj)
next
  case (3 nd e leaves x xa)
  then show ?case using lp2_length [of leaves] by simp
qed simp

declare merkle_tree.simps [simp del]

definition merkle_tree_hash :: "(bytes \<Rightarrow> node_hash) \<Rightarrow> node_hash list \<Rightarrow> node_hash" where
  "merkle_tree_hash H leaves = merkle_tree (node_hash H) (empty_hash H) leaves"

function inclusion_path ::
  "('h \<Rightarrow> 'h \<Rightarrow> 'h) \<Rightarrow> 'h \<Rightarrow> 'h list \<Rightarrow> nat \<Rightarrow> 'h list option" where
  "inclusion_path nd e leaves i =
     (let n = length leaves in
      if n \<le> i then None
      else if n \<le> 1 then Some []
      else let k = largest_power_of_two_less_than n in
        if i < k then
          (case inclusion_path nd e (take k leaves) i of
             None \<Rightarrow> None
           | Some p \<Rightarrow> Some (p @ [merkle_tree nd e (drop k leaves)]))
        else
          (case inclusion_path nd e (drop k leaves) (i - k) of
             None \<Rightarrow> None
           | Some p \<Rightarrow> Some (p @ [merkle_tree nd e (take k leaves)])))"
  by pat_completeness auto
termination
proof (relation "measure (\<lambda>(nd, e, leaves, i). length leaves)", goal_cases)
  case (2 nd e leaves i x xa)
  then show ?case using lp2_bounds [of "length leaves"] by (simp add: min_less_iff_disj)
next
  case (3 nd e leaves i x xa)
  then show ?case using lp2_bounds [of "length leaves"] by simp
qed simp

declare inclusion_path.simps [simp del]

text \<open>
  \<open>subproof\<close> is called with \<open>1 \<le> m \<le> n\<close> only; below two leaves that leaves \<open>m = n\<close>, so
  the empty result of the last guard is never reached (the source would recurse forever).
\<close>

function subproof :: "('h \<Rightarrow> 'h \<Rightarrow> 'h) \<Rightarrow> 'h \<Rightarrow> 'h list \<Rightarrow> nat \<Rightarrow> bool \<Rightarrow> 'h list" where
  "subproof nd e leaves m b =
     (let n = length leaves in
      if m = n then (if b then [] else [merkle_tree nd e leaves])
      else if n < 2 then []
      else let k = largest_power_of_two_less_than n in
        if m \<le> k then subproof nd e (take k leaves) m b @ [merkle_tree nd e (drop k leaves)]
        else subproof nd e (drop k leaves) (m - k) False @ [merkle_tree nd e (take k leaves)])"
  by pat_completeness auto
termination
proof (relation "measure (\<lambda>(nd, e, leaves, m, b). length leaves)", goal_cases)
  case (2 nd e leaves m b x xa)
  then show ?case using lp2_bounds [of "length leaves"] by (simp add: min_less_iff_disj)
next
  case (3 nd e leaves m b x xa)
  then show ?case using lp2_bounds [of "length leaves"] by simp
qed simp

declare subproof.simps [simp del]

section \<open>Proofs and their verifiers\<close>

record SignedTreeHead =
  tree_size :: u64
  root_hash :: node_hash
  timestamp_unix_secs :: u64
  sth_sig :: string

definition sth_signature :: "(bytes \<Rightarrow> node_hash) \<Rightarrow> u64 \<Rightarrow> node_hash \<Rightarrow> u64 \<Rightarrow> string" where
  "sth_signature H sz root ts =
     hex_encode (H (''nucleusdb.ct.sth.sig.v1|size='' @ dec (unat sz) @ ''|root='' @ hex_encode root
                    @ ''|ts='' @ dec (unat ts)))"

definition make_sth :: "(bytes \<Rightarrow> node_hash) \<Rightarrow> node_hash list \<Rightarrow> u64 \<Rightarrow> SignedTreeHead" where
  "make_sth H leaves ts =
     (let root = merkle_tree_hash H leaves;
          sz = of_nat (length leaves)
      in \<lparr>tree_size = sz, root_hash = root, timestamp_unix_secs = ts,
          sth_sig = sth_signature H sz root ts\<rparr>)"

record InclusionProof =
  ip_leaf_index :: u64
  ip_tree_size :: u64
  ip_leaf_hash :: node_hash
  ip_path :: "node_hash list"

record ConsistencyProof =
  cp_old_size :: u64
  cp_new_size :: u64
  cp_path :: "node_hash list"

definition make_inclusion_proof ::
  "(bytes \<Rightarrow> node_hash) \<Rightarrow> node_hash list \<Rightarrow> nat \<Rightarrow> InclusionProof option" where
  "make_inclusion_proof H leaves i =
     (case inclusion_path (node_hash H) (empty_hash H) leaves i of
        None \<Rightarrow> None
      | Some path \<Rightarrow> Some \<lparr>ip_leaf_index = of_nat i, ip_tree_size = of_nat (length leaves),
          ip_leaf_hash = leaves ! i, ip_path = path\<rparr>)"

text \<open>\<^verbatim>\<open>while fn_idx != 0 && (fn_idx & 1) == 0\<close>: both indices lose a bit.\<close>

fun strip_zeros :: "nat \<Rightarrow> nat \<Rightarrow> nat \<times> nat" where
  "strip_zeros fn_idx sn =
     (if fn_idx \<noteq> 0 \<and> even fn_idx then strip_zeros (fn_idx div 2) (sn div 2)
      else (fn_idx, sn))"

declare strip_zeros.simps [simp del]

fun inclusion_loop ::
  "('h \<Rightarrow> 'h \<Rightarrow> 'h) \<Rightarrow> nat \<Rightarrow> nat \<Rightarrow> 'h \<Rightarrow> 'h list \<Rightarrow> (nat \<times> nat \<times> 'h) option" where
  "inclusion_loop nd fn_idx sn r [] = Some (fn_idx, sn, r)"
| "inclusion_loop nd fn_idx sn r (p # ps) =
     (if sn = 0 then None
      else if odd fn_idx \<or> fn_idx = sn then
        (case strip_zeros fn_idx sn of
           (f, s) \<Rightarrow> inclusion_loop nd (f div 2) (s div 2) (nd p r) ps)
      else inclusion_loop nd (fn_idx div 2) (sn div 2) (nd r p) ps)"

definition verify_inclusion_proof ::
  "(bytes \<Rightarrow> node_hash) \<Rightarrow> InclusionProof \<Rightarrow> node_hash \<Rightarrow> bool" where
  "verify_inclusion_proof H proof expected_root =
     (let size = unat (ip_tree_size proof); i = unat (ip_leaf_index proof) in
      if size = 0 \<or> size \<le> i then False
      else (case inclusion_loop (node_hash H) i (size - 1) (ip_leaf_hash proof) (ip_path proof) of
              None \<Rightarrow> False
            | Some (f, s, r) \<Rightarrow> r = expected_root \<and> s = 0))"

definition consistency_path ::
  "(bytes \<Rightarrow> node_hash) \<Rightarrow> node_hash list \<Rightarrow> nat \<Rightarrow> node_hash list option" where
  "consistency_path H leaves old_size =
     (let n = length leaves in
      if old_size = 0 \<or> n < old_size then None
      else if old_size = n then Some []
      else Some (subproof (node_hash H) (empty_hash H) leaves old_size True))"

definition make_consistency_proof ::
  "(bytes \<Rightarrow> node_hash) \<Rightarrow> node_hash list \<Rightarrow> nat \<Rightarrow> ConsistencyProof option" where
  "make_consistency_proof H leaves old_size =
     (case consistency_path H leaves old_size of
        None \<Rightarrow> None
      | Some path \<Rightarrow> Some \<lparr>cp_old_size = of_nat old_size,
          cp_new_size = of_nat (length leaves), cp_path = path\<rparr>)"

text \<open>\<^verbatim>\<open>usize::is_power_of_two\<close>.\<close>

fun is_power_of_two :: "nat \<Rightarrow> bool" where
  "is_power_of_two n = (if n = 0 then False else if n = 1 then True
     else even n \<and> is_power_of_two (n div 2))"

declare is_power_of_two.simps [simp del]

text \<open>\<^verbatim>\<open>while (fn_idx & 1) == 1\<close>: both indices lose a bit.\<close>

function strip_ones :: "nat \<Rightarrow> nat \<Rightarrow> nat \<times> nat" where
  "strip_ones fn_idx sn =
     (if odd fn_idx then strip_ones (fn_idx div 2) (sn div 2) else (fn_idx, sn))"
  by pat_completeness auto
termination
  by (relation "measure fst") (auto elim: oddE)

declare strip_ones.simps [simp del]

fun consistency_loop ::
  "('h \<Rightarrow> 'h \<Rightarrow> 'h) \<Rightarrow> nat \<Rightarrow> nat \<Rightarrow> 'h \<Rightarrow> 'h \<Rightarrow> 'h list \<Rightarrow>
    (nat \<times> nat \<times> 'h \<times> 'h) option" where
  "consistency_loop nd fn_idx sn fr sr [] = Some (fn_idx, sn, fr, sr)"
| "consistency_loop nd fn_idx sn fr sr (c # cs) =
     (if sn = 0 then None
      else if odd fn_idx \<or> fn_idx = sn then
        (case (if even fn_idx then strip_zeros fn_idx sn else (fn_idx, sn)) of
           (f, s) \<Rightarrow> consistency_loop nd (f div 2) (s div 2) (nd c fr) (nd c sr) cs)
      else consistency_loop nd (fn_idx div 2) (sn div 2) fr (nd sr c) cs)"

definition consistency_run ::
  "('h \<Rightarrow> 'h \<Rightarrow> 'h) \<Rightarrow> nat \<Rightarrow> nat \<Rightarrow> 'h \<Rightarrow> 'h list \<Rightarrow> (nat \<times> nat \<times> 'h \<times> 'h) option" where
  "consistency_run nd old_size new_size old_root path =
     (case (if is_power_of_two old_size then [old_root] else []) @ path of
        [] \<Rightarrow> None
      | c0 # cs \<Rightarrow>
          (case strip_ones (old_size - 1) (new_size - 1) of
             (f, s) \<Rightarrow> consistency_loop nd f s c0 c0 cs))"

definition verify_consistency_proof ::
  "(bytes \<Rightarrow> node_hash) \<Rightarrow> ConsistencyProof \<Rightarrow> node_hash \<Rightarrow> node_hash \<Rightarrow> bool" where
  "verify_consistency_proof H proof old_root new_root =
     (let old_size = unat (cp_old_size proof); new_size = unat (cp_new_size proof) in
      if old_size = 0 \<or> new_size = 0 \<or> new_size < old_size then False
      else if old_size = new_size then old_root = new_root \<and> cp_path proof = []
      else (case consistency_run (node_hash H) old_size new_size old_root (cp_path proof) of
              None \<Rightarrow> False
            | Some (f, s, fr, sr) \<Rightarrow> fr = old_root \<and> sr = new_root \<and> s = 0))"

section \<open>Arithmetic of the index walk\<close>

lemma strip_zeros_odd: "odd f \<Longrightarrow> strip_zeros f s = (f, s)"
  by (simp add: strip_zeros.simps)

lemma strip_zeros_pow:
  "odd f \<Longrightarrow> strip_zeros (2 ^ i * f) (2 ^ i * f) = (f, f)"
proof (induction i)
  case 0
  then show ?case by (simp add: strip_zeros_odd)
next
  case (Suc i)
  then have "0 < f" by (cases f) auto
  then show ?case
    using Suc by (subst strip_zeros.simps) (simp add: mult.assoc)
qed

lemma strip_ones_even: "even f \<Longrightarrow> strip_ones f s = (f, s)"
  by (simp add: strip_ones.simps)

lemma strip_ones_pow:
  assumes "even a" "b < 2 ^ j"
  shows "strip_ones (2 ^ j - 1 + 2 ^ j * a) (b + 2 ^ j * c) = (a, c)"
  using assms
proof (induction j arbitrary: b)
  case 0
  then show ?case by (simp add: strip_ones_even)
next
  case (Suc j)
  define x where "x = 2 ^ j - 1 + 2 ^ j * a"
  have "2 ^ Suc j - 1 + 2 ^ Suc j * a = Suc (2 * x)"
  proof -
    obtain y where "(2::nat) ^ j = Suc y" by (cases "(2::nat) ^ j") auto
    then show ?thesis by (simp add: x_def)
  qed
  moreover have "(b + 2 ^ Suc j * c) div 2 = b div 2 + 2 ^ j * c"
    by simp
  moreover have "b div 2 < 2 ^ j" using Suc(3) by simp
  ultimately show ?case
    using Suc by (subst strip_ones.simps) (simp add: x_def)
qed

lemma is_power_of_two_iff: "is_power_of_two n \<longleftrightarrow> (\<exists>k. n = 2 ^ k)"
proof (induction n rule: is_power_of_two.induct)
  case (1 n)
  show ?case
  proof (cases "n \<le> 1")
    case True
    then show ?thesis
      by (subst is_power_of_two.simps) (auto simp: le_Suc_eq intro: exI [of _ 0])
  next
    case False
    have "(\<exists>k. n = 2 ^ k) \<longleftrightarrow> even n \<and> (\<exists>k. n div 2 = 2 ^ k)"
    proof
      assume "\<exists>k. n = 2 ^ k"
      then obtain k where k: "n = 2 ^ k" ..
      with False obtain k' where "k = Suc k'" by (cases k) auto
      with k show "even n \<and> (\<exists>k. n div 2 = 2 ^ k)" by auto
    next
      assume "even n \<and> (\<exists>k. n div 2 = 2 ^ k)"
      then obtain k where "n = 2 ^ Suc k" by auto
      then show "\<exists>k. n = 2 ^ k" ..
    qed
    with 1 False show ?thesis
      by (subst is_power_of_two.simps) simp
  qed
qed

end
