(* ===== verification/CT6962_Walk.thy ===== *)
theory CT6962_Walk
  imports CT6962
begin

text \<open>
  The verifiers of \<^verbatim>\<open>ct6962.rs\<close> walk two indices (the leaf's and the last leaf's) up the
  tree bit by bit.  This theory shows that the walk computes what the recursive definition
  of the tree prescribes, for an arbitrary node combiner, and that it accepts audit paths
  of exactly the right length.  \<open>incl_root\<close> and \<open>cons_roots\<close> are the recursive
  reference: they fold the siblings, given from the root downwards.
\<close>

section \<open>Recursive reference for inclusion\<close>

fun incl_root :: "('h \<Rightarrow> 'h \<Rightarrow> 'h) \<Rightarrow> nat \<Rightarrow> nat \<Rightarrow> 'h \<Rightarrow> 'h list \<Rightarrow> 'h" where
  "incl_root nd m n r [] = r"
| "incl_root nd m n r (p # ps) =
     (let k = largest_power_of_two_less_than n in
      if m < k then nd (incl_root nd m k r ps) p
      else nd p (incl_root nd (m - k) (n - k) r ps))"

function incl_len :: "nat \<Rightarrow> nat \<Rightarrow> nat" where
  "incl_len m n =
     (if n < 2 then 0
      else let k = largest_power_of_two_less_than n in
        Suc (if m < k then incl_len m k else incl_len (m - k) (n - k)))"
  by pat_completeness auto
termination
  by (relation "measure snd") (auto simp: lp2_bounds)

declare incl_len.simps [simp del]

lemma lp2_pow [simp]: "largest_power_of_two_less_than (2 ^ Suc j) = 2 ^ j"
  by (rule lp2_unique) auto

lemma incl_len_pow: "m < 2 ^ j \<Longrightarrow> incl_len m (2 ^ j) = j"
proof (induction j arbitrary: m)
  case 0
  then show ?case by (simp add: incl_len.simps)
next
  case (Suc j)
  have "\<not> (2::nat) ^ Suc j < 2"
    by (simp add: not_less)
  then show ?case
    using Suc by (subst incl_len.simps) (simp del: power_Suc add: Let_def, simp add: less_diff_conv2)
qed

lemma inclusion_loop_append:
  "inclusion_loop nd f s r (xs @ ys) =
     (case inclusion_loop nd f s r xs of
        None \<Rightarrow> None
      | Some (f', s', r') \<Rightarrow> inclusion_loop nd f' s' r' ys)"
  by (induction nd f s r xs rule: inclusion_loop.induct) (auto split: prod.splits)

text \<open>Inside a complete subtree that ends before the last leaf.\<close>

lemma inclusion_loop_complete:
  assumes "m < 2 ^ j" "b < 2 ^ j" "a < c" "length ps = j"
  shows "inclusion_loop nd (m + 2 ^ j * a) (b + 2 ^ j * c) r (rev ps)
    = Some (a, c, incl_root nd m (2 ^ j) r ps)"
  using assms
proof (induction j arbitrary: m b a c ps)
  case 0
  then show ?case by simp
next
  case (Suc j)
  obtain p qs where ps: "ps = p # qs" "length qs = j"
    using Suc.prems(4) by (cases ps) auto
  define bit where "bit = b div 2 ^ j"
  have bit: "bit \<le> 1" "b mod 2 ^ j + 2 ^ j * (2 * c + bit) = b + 2 ^ Suc j * c"
    using Suc.prems(2) by (simp_all add: bit_def algebra_simps less_mult_imp_div_less
        flip: less_Suc_eq_le)
  have bm: "b mod 2 ^ j < 2 ^ j" by simp
  show ?case
  proof (cases "m < 2 ^ j")
    case True
    have "inclusion_loop nd (m + 2 ^ j * (2 * a)) (b mod 2 ^ j + 2 ^ j * (2 * c + bit)) r (rev qs)
      = Some (2 * a, 2 * c + bit, incl_root nd m (2 ^ j) r qs)"
      using Suc.IH [OF True bm _ ps(2), of "2 * a" "2 * c + bit"] Suc.prems(3) by simp
    then have "inclusion_loop nd (m + 2 ^ Suc j * a) (b + 2 ^ Suc j * c) r (rev qs)
      = Some (2 * a, 2 * c + bit, incl_root nd m (2 ^ j) r qs)"
      by (simp only: bit(2)) (simp add: algebra_simps)
    with True Suc.prems(3) bit(1) show ?thesis
      by (simp add: ps inclusion_loop_append lp2_pow [simplified])
  next
    case False
    have "m - 2 ^ j < 2 ^ j" using Suc.prems(1) False by simp
    then have "inclusion_loop nd (m - 2 ^ j + 2 ^ j * (2 * a + 1))
        (b mod 2 ^ j + 2 ^ j * (2 * c + bit)) r (rev qs)
      = Some (2 * a + 1, 2 * c + bit, incl_root nd (m - 2 ^ j) (2 ^ j) r qs)"
      using Suc.IH [OF _ bm _ ps(2), of "m - 2 ^ j" "2 * a + 1" "2 * c + bit"] Suc.prems(3)
      by simp
    moreover have "m - 2 ^ j + 2 ^ j * (2 * a + 1) = m + 2 ^ Suc j * a"
      using False by (simp add: algebra_simps)
    ultimately have "inclusion_loop nd (m + 2 ^ Suc j * a) (b + 2 ^ Suc j * c) r (rev qs)
      = Some (2 * a + 1, 2 * c + bit, incl_root nd (m - 2 ^ j) (2 ^ j) r qs)"
      by (simp only: bit(2))
    with False Suc.prems(3) bit(1) show ?thesis
      by (simp add: ps inclusion_loop_append lp2_pow [simplified] strip_zeros_odd Let_def)
  qed
qed

lemma pow_less_imp_exp_less: "(2::nat) ^ q < n \<Longrightarrow> n \<le> 2 ^ p \<Longrightarrow> q < p"
  by (metis less_le_trans one_less_numeral_iff power_strict_increasing_iff semiring_norm(76))

text \<open>On the right spine, which contains the last leaf.\<close>

lemma inclusion_loop_spine:
  assumes "m < n" "n \<le> 2 ^ p" "length ps = incl_len m n"
  shows "\<exists>s \<le> p. inclusion_loop nd (m + 2 ^ p * a) (n - 1 + 2 ^ p * a) r (rev ps)
    = Some (2 ^ s * a, 2 ^ s * a, incl_root nd m n r ps)"
  using assms
proof (induction ps arbitrary: m n p a)
  case Nil
  then have "n = 1" by (cases "n < 2") (auto simp: incl_len.simps Let_def)
  with Nil show ?case by (auto intro: exI [of _ p])
next
  case (Cons x ps)
  then have n2: "2 \<le> n" by (cases "n < 2") (auto simp: incl_len.simps)
  obtain q where q: "largest_power_of_two_less_than n = 2 ^ q" "2 ^ q < n" "n \<le> 2 ^ Suc q"
    using lp2_spec [OF n2] .
  have "q < p" using pow_less_imp_exp_less q(2) Cons.prems(2) by blast
  then obtain t where t: "p = Suc (q + t)" using less_imp_Suc_add by blast
  have len: "length ps = (if m < 2 ^ q then incl_len m (2 ^ q) else incl_len (m - 2 ^ q) (n - 2 ^ q))"
    using Cons.prems(3) n2 q(1) by (simp add: incl_len.simps [of m n] Let_def)
  show ?case
  proof (cases "m < 2 ^ q")
    case True
    have "inclusion_loop nd (m + 2 ^ q * (2 ^ Suc t * a)) (n - 1 - 2 ^ q + 2 ^ q * Suc (2 ^ Suc t * a)) r (rev ps)
      = Some (2 ^ Suc t * a, Suc (2 ^ Suc t * a), incl_root nd m (2 ^ q) r ps)"
      using True q(2,3) len by (intro inclusion_loop_complete) (auto simp: incl_len_pow)
    moreover have "n - 1 - 2 ^ q + 2 ^ q * Suc (2 ^ Suc t * a) = n - 1 + 2 ^ p * a"
      "m + 2 ^ q * (2 ^ Suc t * a) = m + 2 ^ p * a"
      using q(2) by (simp_all add: t power_add algebra_simps)
    ultimately have "inclusion_loop nd (m + 2 ^ p * a) (n - 1 + 2 ^ p * a) r (rev ps)
      = Some (2 ^ Suc t * a, Suc (2 ^ Suc t * a), incl_root nd m (2 ^ q) r ps)"
      by (simp only:)
    then show ?thesis
      using True by (intro exI [of _ t]) (simp add: t inclusion_loop_append q(1))
  next
    case False
    have "m - 2 ^ q < n - 2 ^ q" "n - 2 ^ q \<le> 2 ^ q"
      using False q Cons.prems(1) by auto
    from Cons.IH [OF this, of "Suc (2 ^ Suc t * a)"] len False
    obtain s where "s \<le> q" and s: "inclusion_loop nd (m - 2 ^ q + 2 ^ q * Suc (2 ^ Suc t * a))
        (n - 2 ^ q - 1 + 2 ^ q * Suc (2 ^ Suc t * a)) r (rev ps)
      = Some (2 ^ s * Suc (2 ^ Suc t * a), 2 ^ s * Suc (2 ^ Suc t * a),
          incl_root nd (m - 2 ^ q) (n - 2 ^ q) r ps)"
      by auto
    moreover have "n - 2 ^ q - 1 + 2 ^ q * Suc (2 ^ Suc t * a) = n - 1 + 2 ^ p * a"
      "m - 2 ^ q + 2 ^ q * Suc (2 ^ Suc t * a) = m + 2 ^ p * a"
      using q(2) False by (simp_all add: t power_add algebra_simps)
    ultimately have "inclusion_loop nd (m + 2 ^ p * a) (n - 1 + 2 ^ p * a) r (rev ps)
      = Some (2 ^ s * Suc (2 ^ Suc t * a), 2 ^ s * Suc (2 ^ Suc t * a),
          incl_root nd (m - 2 ^ q) (n - 2 ^ q) r ps)"
      by (simp only:)
    moreover have "strip_zeros (2 ^ s * Suc (2 ^ Suc t * a)) (2 ^ s * Suc (2 ^ Suc t * a))
      = (Suc (2 ^ Suc t * a), Suc (2 ^ Suc t * a))"
      by (rule strip_zeros_pow) simp
    ultimately show ?thesis
      using False by (intro exI [of _ t]) (simp add: t inclusion_loop_append q(1) Let_def)
  qed
qed

lemma inclusion_loop_exact:
  assumes "m < n" "length ps = incl_len m n"
  shows "inclusion_loop nd m (n - 1) r (rev ps) = Some (0, 0, incl_root nd m n r ps)"
  using inclusion_loop_spine [OF assms(1) _ assms(2), of n nd 0 r] by (auto simp: less_imp_le)

text \<open>The walk ends with a used-up index exactly on audit paths of the right length.\<close>

lemma inclusion_loop_accepts:
  assumes "m < n"
  shows "inclusion_loop nd m (n - 1) r path = Some (f, 0, r') \<longleftrightarrow>
    length path = incl_len m n \<and> f = 0 \<and> r' = incl_root nd m n r (rev path)"
proof (cases "length path" "incl_len m n" rule: linorder_cases)
  case less
  define ext where "ext = replicate (incl_len m n - length path) r"
  from less obtain y ys where y: "ext = y # ys"
    by (cases ext) (auto simp: ext_def)
  have "inclusion_loop nd m (n - 1) r (path @ ext) \<noteq> None"
    using inclusion_loop_exact [OF assms, of "rev (path @ ext)" nd r] less
    by (simp add: ext_def)
  then show ?thesis
    using less by (auto simp: inclusion_loop_append y)
next
  case equal
  then show ?thesis
    using inclusion_loop_exact [OF assms, of "rev path" nd r] by auto
next
  case greater
  define xs where "xs = take (incl_len m n) path"
  from greater obtain y ys where y: "path = xs @ y # ys"
    unfolding xs_def by (metis append_take_drop_id drop_eq_Nil leD list.exhaust)
  have "inclusion_loop nd m (n - 1) r xs = Some (0, 0, incl_root nd m n r (rev xs))"
    using inclusion_loop_exact [OF assms, of "rev xs" nd r] greater by (simp add: xs_def)
  then show ?thesis
    using greater by (simp add: y inclusion_loop_append)
qed

lemma merkle_tree_split:
  assumes "2 \<le> length leaves"
  shows "merkle_tree nd e leaves =
    nd (merkle_tree nd e (take (largest_power_of_two_less_than (length leaves)) leaves))
       (merkle_tree nd e (drop (largest_power_of_two_less_than (length leaves)) leaves))"
  using assms by (subst merkle_tree.simps) (auto simp: Let_def)

lemma merkle_tree_single [simp]: "merkle_tree nd e [x] = x"
  by (simp add: merkle_tree.simps)

lemma merkle_tree_Nil [simp]: "merkle_tree nd e [] = e"
  by (simp add: merkle_tree.simps)

lemma inclusion_path_correct:
  assumes "i < length leaves"
  obtains path where "inclusion_path nd e leaves i = Some path"
    "length path = incl_len i (length leaves)"
    "incl_root nd i (length leaves) (leaves ! i) (rev path) = merkle_tree nd e leaves"
proof -
  have "\<exists>path. inclusion_path nd e leaves i = Some path \<and>
    length path = incl_len i (length leaves) \<and>
    incl_root nd i (length leaves) (leaves ! i) (rev path) = merkle_tree nd e leaves"
    using assms
  proof (induction nd e leaves i rule: inclusion_path.induct)
    case (1 nd e leaves i)
    let ?n = "length leaves" and ?k = "largest_power_of_two_less_than (length leaves)"
    show ?case
    proof (cases "?n < 2")
      case True
      with "1.prems" obtain x where "leaves = [x]" "i = 0"
        by (cases leaves) auto
      then show ?thesis
        by (simp add: inclusion_path.simps [of nd e "[x]"] incl_len.simps)
    next
      case False
      then have kn: "0 < ?k" "?k < ?n" using lp2_bounds [of ?n] by auto
      show ?thesis
      proof (cases "i < ?k")
        case True
        from "1.IH"(1) [OF refl _ _ refl True] False "1.prems" kn True
        obtain p where "inclusion_path nd e (take ?k leaves) i = Some p"
          "length p = incl_len i ?k"
          "incl_root nd i ?k (leaves ! i) (rev p) = merkle_tree nd e (take ?k leaves)"
          by auto
        then show ?thesis
          using False "1.prems" True
          by (simp add: inclusion_path.simps [of nd e leaves i] incl_len.simps [of i ?n]
              merkle_tree_split Let_def)
      next
        case iF: False
        then have "i - ?k < ?n - ?k" using "1.prems" by simp
        with "1.IH"(2) [OF refl _ _ refl iF] False "1.prems" kn iF
        obtain p where "inclusion_path nd e (drop ?k leaves) (i - ?k) = Some p"
          "length p = incl_len (i - ?k) (?n - ?k)"
          "incl_root nd (i - ?k) (?n - ?k) (leaves ! i) (rev p) = merkle_tree nd e (drop ?k leaves)"
          by auto
        then show ?thesis
          using False "1.prems" iF
          by (simp add: inclusion_path.simps [of nd e leaves i] incl_len.simps [of i ?n]
              merkle_tree_split Let_def)
      qed
    qed
  qed
  with that show thesis by blast
qed

section \<open>Recursive reference for consistency\<close>

text \<open>
  The first component follows the old tree (the first \<open>m\<close> leaves), the second the new one.
  Both start from the seed, the hash of the complete subtree that ends the old tree.
\<close>

fun cons_roots :: "('h \<Rightarrow> 'h \<Rightarrow> 'h) \<Rightarrow> nat \<Rightarrow> nat \<Rightarrow> 'h \<Rightarrow> 'h list \<Rightarrow> 'h \<times> 'h" where
  "cons_roots nd m n seed [] = (seed, seed)"
| "cons_roots nd m n seed (p # ps) =
     (let k = largest_power_of_two_less_than n in
      if m \<le> k then (case cons_roots nd m k seed ps of (fr, sr) \<Rightarrow> (fr, nd sr p))
      else (case cons_roots nd (m - k) (n - k) seed ps of (fr, sr) \<Rightarrow> (nd p fr, nd p sr)))"

function cons_len :: "nat \<Rightarrow> nat \<Rightarrow> nat" where
  "cons_len m n =
     (if m = n \<or> n < 2 then 0
      else let k = largest_power_of_two_less_than n in
        Suc (if m \<le> k then cons_len m k else cons_len (m - k) (n - k)))"
  by pat_completeness auto
termination
  by (relation "measure snd") (auto simp: lp2_bounds)

declare cons_len.simps [simp del]

lemma consistency_loop_append:
  "consistency_loop nd f s fr sr (xs @ ys) =
     (case consistency_loop nd f s fr sr xs of
        None \<Rightarrow> None
      | Some (f', s', fr', sr') \<Rightarrow> consistency_loop nd f' s' fr' sr' ys)"
  by (induction nd f s fr sr xs rule: consistency_loop.induct) (auto split: prod.splits)

lemma consistency_loop_complete:
  assumes "0 < m" "m \<le> 2 ^ j" "b < 2 ^ j" "a < c" "m = 2 ^ j \<Longrightarrow> even a"
    "length ps = cons_len m (2 ^ j)"
    "strip_ones (m - 1 + 2 ^ j * a) (b + 2 ^ j * c) = (f0, s0)"
  shows "consistency_loop nd f0 s0 seed seed (rev ps)
    = Some (a, c, cons_roots nd m (2 ^ j) seed ps)"
  using assms
proof (induction j arbitrary: m b a c ps)
  case 0
  then have "m = 1" by simp
  with 0 show ?case by (simp add: cons_len.simps strip_ones_even)
next
  case (Suc j)
  show ?case
  proof (cases "m = 2 ^ Suc j")
    case True
    then have "ps = []" using Suc.prems(6) by (simp add: cons_len.simps)
    moreover have "strip_ones (m - 1 + 2 ^ Suc j * a) (b + 2 ^ Suc j * c) = (a, c)"
      unfolding True by (rule strip_ones_pow [OF Suc.prems(5) [OF True] Suc.prems(3)])
    ultimately show ?thesis using Suc.prems(7) by simp
  next
    case mF: False
    have two: "\<not> (2::nat) ^ Suc j < 2" by (simp add: not_less)
    obtain p qs where ps: "ps = p # qs"
      "length qs = (if m \<le> 2 ^ j then cons_len m (2 ^ j) else cons_len (m - 2 ^ j) (2 ^ j))"
      using Suc.prems(6) mF two
      by (cases ps) (auto simp: cons_len.simps [of m "2 ^ Suc j"] Let_def simp del: power_Suc, simp)
    define bit where "bit = b div 2 ^ j"
    have bit: "bit \<le> 1" "b mod 2 ^ j + 2 ^ j * (2 * c + bit) = b + 2 ^ Suc j * c"
      using Suc.prems(3) by (simp_all add: bit_def algebra_simps less_mult_imp_div_less
          flip: less_Suc_eq_le)
    have bm: "b mod 2 ^ j < 2 ^ j" by simp
    show ?thesis
    proof (cases "m \<le> 2 ^ j")
      case True
      have "m - 1 + 2 ^ Suc j * a = m - 1 + 2 ^ j * (2 * a)" by simp
      then have "consistency_loop nd f0 s0 seed seed (rev qs)
        = Some (2 * a, 2 * c + bit, cons_roots nd m (2 ^ j) seed qs)"
        using Suc.IH [OF Suc.prems(1) True bm, of "2 * a" "2 * c + bit" qs]
          Suc.prems(4,7) ps(2) True by (simp only: bit(2)) simp
      with True Suc.prems(4) bit(1) show ?thesis
        by (simp add: ps consistency_loop_append lp2_pow [simplified] Let_def split: prod.splits)
    next
      case False
      have "0 < m - 2 ^ j" "m - 2 ^ j \<le> 2 ^ j" "m - 2 ^ j \<noteq> 2 ^ j"
        using False Suc.prems(2) mF by auto
      moreover have "m - 1 + 2 ^ Suc j * a = m - 2 ^ j - 1 + 2 ^ j * (2 * a + 1)"
        using False by (simp add: algebra_simps)
      ultimately have "consistency_loop nd f0 s0 seed seed (rev qs)
        = Some (2 * a + 1, 2 * c + bit, cons_roots nd (m - 2 ^ j) (2 ^ j) seed qs)"
        using Suc.IH [of "m - 2 ^ j" "b mod 2 ^ j" "2 * a + 1" "2 * c + bit" qs]
          bm Suc.prems(4,7) ps(2) False by (simp only: bit(2)) simp
      with False Suc.prems(4) bit(1) show ?thesis
        by (simp add: ps consistency_loop_append lp2_pow [simplified] Let_def split: prod.splits)
    qed
  qed
qed

lemma consistency_loop_spine:
  assumes "0 < m" "m < n" "n \<le> 2 ^ p" "length ps = cons_len m n"
    "strip_ones (m - 1 + 2 ^ p * a) (n - 1 + 2 ^ p * a) = (f0, s0)"
  shows "\<exists>s \<le> p. consistency_loop nd f0 s0 seed seed (rev ps)
    = Some (2 ^ s * a, 2 ^ s * a, cons_roots nd m n seed ps)"
  using assms
proof (induction ps arbitrary: m n p a)
  case Nil
  then have "n < 2" by (auto simp: cons_len.simps Let_def split: if_splits)
  with Nil.prems(1,2) show ?case by simp
next
  case (Cons x ps)
  then have n2: "2 \<le> n" by linarith
  obtain q where q: "largest_power_of_two_less_than n = 2 ^ q" "2 ^ q < n" "n \<le> 2 ^ Suc q"
    using lp2_spec [OF n2] .
  have "q < p" using pow_less_imp_exp_less q(2) Cons.prems(3) by blast
  then obtain t where t: "p = Suc (q + t)" using less_imp_Suc_add by blast
  have len: "length ps = (if m \<le> 2 ^ q then cons_len m (2 ^ q) else cons_len (m - 2 ^ q) (n - 2 ^ q))"
    using Cons.prems(2,4) n2 q(1) by (simp add: cons_len.simps [of m n] Let_def)
  show ?case
  proof (cases "m \<le> 2 ^ q")
    case True
    have "n - 1 - 2 ^ q + 2 ^ q * Suc (2 ^ Suc t * a) = n - 1 + 2 ^ p * a"
      "m - 1 + 2 ^ q * (2 ^ Suc t * a) = m - 1 + 2 ^ p * a"
      using q(2) by (simp_all add: t power_add algebra_simps)
    then have "strip_ones (m - 1 + 2 ^ q * (2 ^ Suc t * a))
        (n - 1 - 2 ^ q + 2 ^ q * Suc (2 ^ Suc t * a)) = (f0, s0)"
      using Cons.prems(5) by (simp only:)
    moreover have "n - 1 - 2 ^ q < 2 ^ q" using q(2,3) by simp
    ultimately have "consistency_loop nd f0 s0 seed seed (rev ps)
      = Some (2 ^ Suc t * a, Suc (2 ^ Suc t * a), cons_roots nd m (2 ^ q) seed ps)"
      using len True
      by (intro consistency_loop_complete [where b = "n - 1 - 2 ^ q"] Cons.prems(1)) auto
    then show ?thesis
      using True by (intro exI [of _ t])
        (simp add: t consistency_loop_append q(1) Let_def split: prod.splits)
  next
    case False
    have "n - 2 ^ q - 1 + 2 ^ q * Suc (2 ^ Suc t * a) = n - 1 + 2 ^ p * a"
      "m - 2 ^ q - 1 + 2 ^ q * Suc (2 ^ Suc t * a) = m - 1 + 2 ^ p * a"
      using q(2) False by (simp_all add: t power_add algebra_simps)
    then have "strip_ones (m - 2 ^ q - 1 + 2 ^ q * Suc (2 ^ Suc t * a))
        (n - 2 ^ q - 1 + 2 ^ q * Suc (2 ^ Suc t * a)) = (f0, s0)"
      using Cons.prems(5) by (simp only:)
    moreover have "0 < m - 2 ^ q" "m - 2 ^ q < n - 2 ^ q" "n - 2 ^ q \<le> 2 ^ q"
      using False q Cons.prems(2) by auto
    ultimately obtain s where "consistency_loop nd f0 s0 seed seed (rev ps)
      = Some (2 ^ s * Suc (2 ^ Suc t * a), 2 ^ s * Suc (2 ^ Suc t * a),
          cons_roots nd (m - 2 ^ q) (n - 2 ^ q) seed ps)"
      using Cons.IH len False by metis
    moreover have "strip_zeros (2 ^ s * Suc (2 ^ Suc t * a)) (2 ^ s * Suc (2 ^ Suc t * a))
      = (Suc (2 ^ Suc t * a), Suc (2 ^ Suc t * a))"
      by (rule strip_zeros_pow) simp
    ultimately show ?thesis
      using False by (intro exI [of _ t])
        (cases s; simp add: t consistency_loop_append q(1) Let_def split: prod.splits)
  qed
qed

lemma consistency_loop_exact:
  assumes "0 < m" "m < n" "length ps = cons_len m n" "strip_ones (m - 1) (n - 1) = (f0, s0)"
  shows "consistency_loop nd f0 s0 seed seed (rev ps) = Some (0, 0, cons_roots nd m n seed ps)"
  using consistency_loop_spine [OF assms(1,2) _ assms(3), of n 0 f0 s0 nd seed] assms(4)
  by (auto simp: less_imp_le)

lemma consistency_loop_accepts:
  assumes "0 < m" "m < n" "strip_ones (m - 1) (n - 1) = (f0, s0)"
  shows "consistency_loop nd f0 s0 seed seed path = Some (f, 0, fr, sr) \<longleftrightarrow>
    length path = cons_len m n \<and> f = 0 \<and> (fr, sr) = cons_roots nd m n seed (rev path)"
proof (cases "length path" "cons_len m n" rule: linorder_cases)
  case less
  define ext where "ext = replicate (cons_len m n - length path) seed"
  from less obtain y ys where y: "ext = y # ys"
    by (cases ext) (auto simp: ext_def)
  have "consistency_loop nd f0 s0 seed seed (path @ ext) \<noteq> None"
    using consistency_loop_exact [OF assms(1,2) _ assms(3), of "rev (path @ ext)" nd seed] less
    by (simp add: ext_def)
  then show ?thesis
    using less by (auto simp: consistency_loop_append y)
next
  case equal
  then show ?thesis
    using consistency_loop_exact [OF assms(1,2) _ assms(3), of "rev path" nd seed] by auto
next
  case greater
  define xs where "xs = take (cons_len m n) path"
  from greater obtain y ys where y: "path = xs @ y # ys"
    unfolding xs_def by (metis append_take_drop_id drop_eq_Nil leD list.exhaust)
  have "consistency_loop nd f0 s0 seed seed xs = Some (0, 0, cons_roots nd m n seed (rev xs))"
    using consistency_loop_exact [OF assms(1,2) _ assms(3), of "rev xs" nd seed] greater
    by (simp add: xs_def)
  then show ?thesis
    using greater by (cases "cons_roots nd m n seed (rev xs)") (simp add: y consistency_loop_append)
qed

lemma not_power_of_two_between: "2 ^ q < m \<Longrightarrow> m < 2 ^ Suc q \<Longrightarrow> \<not> is_power_of_two m"
  by (auto simp: is_power_of_two_iff simp del: power_Suc)

lemma merkle_tree_take:
  assumes "2 \<le> length leaves" "largest_power_of_two_less_than (length leaves) < m" "m \<le> length leaves"
  shows "merkle_tree nd e (take m leaves) =
    nd (merkle_tree nd e (take (largest_power_of_two_less_than (length leaves)) leaves))
       (merkle_tree nd e (take (m - largest_power_of_two_less_than (length leaves))
          (drop (largest_power_of_two_less_than (length leaves)) leaves)))"
proof -
  obtain q where q: "largest_power_of_two_less_than (length leaves) = 2 ^ q"
    "2 ^ q < length leaves" "length leaves \<le> 2 ^ Suc q"
    using lp2_spec [OF assms(1)] .
  have "largest_power_of_two_less_than m = 2 ^ q"
    using q assms(2,3) by (intro lp2_unique) auto
  moreover have "2 \<le> m" using assms(2) q(1) by (cases "m = 1") auto
  ultimately show ?thesis
    using assms(2,3) q(1) merkle_tree_split [of "take m leaves" nd e]
    by (simp add: min_absorb2 min.absorb1 take_drop)
qed

lemma subproof_correct:
  assumes "0 < m" "m \<le> length leaves" "b \<Longrightarrow> m = length leaves \<Longrightarrow> is_power_of_two m"
  shows "\<exists>seed path. subproof nd e leaves m b =
      (if b \<and> is_power_of_two m then [] else [seed]) @ path \<and>
    length path = cons_len m (length leaves) \<and>
    cons_roots nd m (length leaves) seed (rev path) =
      (merkle_tree nd e (take m leaves), merkle_tree nd e leaves) \<and>
    (b \<and> is_power_of_two m \<longrightarrow> seed = merkle_tree nd e (take m leaves))"
  using assms
proof (induction nd e leaves m b rule: subproof.induct)
  case (1 nd e leaves m b)
  let ?n = "length leaves" and ?k = "largest_power_of_two_less_than (length leaves)"
  show ?case
  proof (cases "m = ?n")
    case True
    with 1 show ?thesis
      by (auto simp: subproof.simps [of nd e leaves "length leaves"] cons_len.simps)
  next
    case mn: False
    then have n2: "\<not> ?n < 2" using "1.prems" by linarith
    then have "2 \<le> ?n" by simp
    then obtain q where q: "?k = 2 ^ q" "2 ^ q < ?n" "?n \<le> 2 ^ Suc q"
      by (rule lp2_spec)
    show ?thesis
    proof (cases "m \<le> ?k")
      case True
      have "is_power_of_two ?k" using q(1) by (auto simp: is_power_of_two_iff)
      with "1.IH"(1) [OF refl mn n2 refl True] "1.prems" True q
      obtain seed path where
        "subproof nd e (take ?k leaves) m b = (if b \<and> is_power_of_two m then [] else [seed]) @ path"
        "length path = cons_len m ?k"
        "cons_roots nd m ?k seed (rev path) =
          (merkle_tree nd e (take m leaves), merkle_tree nd e (take ?k leaves))"
        "b \<and> is_power_of_two m \<longrightarrow> seed = merkle_tree nd e (take m leaves)"
        by (auto simp: min_absorb1 min_absorb2)
      then show ?thesis
        using True mn n2 merkle_tree_split [of leaves nd e]
        by (intro exI [of _ seed] exI [of _ "path @ [merkle_tree nd e (drop ?k leaves)]"])
           (simp add: subproof.simps [of nd e leaves m b] cons_len.simps [of m ?n] Let_def)
    next
      case mk: False
      have "m - ?k \<le> ?n - ?k" "0 < m - ?k" "m - ?k \<noteq> ?n - ?k"
        using "1.prems"(2) mk mn by auto
      with "1.IH"(2) [OF refl mn n2 refl mk]
      obtain seed path where
        "subproof nd e (drop ?k leaves) (m - ?k) False = seed # path"
        "length path = cons_len (m - ?k) (?n - ?k)"
        "cons_roots nd (m - ?k) (?n - ?k) seed (rev path) =
          (merkle_tree nd e (take (m - ?k) (drop ?k leaves)), merkle_tree nd e (drop ?k leaves))"
        by auto
      moreover have "\<not> is_power_of_two m"
        using mk mn q "1.prems"(2) by (intro not_power_of_two_between [of q]) auto
      moreover have "merkle_tree nd e (take m leaves) =
        nd (merkle_tree nd e (take ?k leaves)) (merkle_tree nd e (take (m - ?k) (drop ?k leaves)))"
        using mk n2 "1.prems"(2) by (intro merkle_tree_take) auto
      moreover have "merkle_tree nd e leaves =
        nd (merkle_tree nd e (take ?k leaves)) (merkle_tree nd e (drop ?k leaves))"
        using n2 by (intro merkle_tree_split) simp
      ultimately show ?thesis
        using mk mn n2
        by (intro exI [of _ seed] exI [of _ "path @ [merkle_tree nd e (take ?k leaves)]"])
           (simp add: subproof.simps [of nd e leaves m b] cons_len.simps [of m ?n] Let_def)
    qed
  qed
qed

end
