(* ===== verification/CT6962_Proofs.thy ===== *)
theory CT6962_Proofs
  imports CT6962_Walk
begin

text \<open>
  Completeness and soundness of the audit proofs.  Completeness: a proof the log makes is
  accepted against its own tree head.  Soundness: an accepted proof, of whatever origin,
  tells the truth about the tree, provided \<open>H\<close> has no collision among the strings that
  the tree construction and the verifier hash.  Those strings are computed: the verifier's
  loop is run over binary trees of digests (\<open>htree\<close>) instead of digests.
\<close>

section \<open>Trees of digests\<close>

datatype htree = HLeaf node_hash | HNode htree htree

primrec htree_root :: "(bytes \<Rightarrow> node_hash) \<Rightarrow> htree \<Rightarrow> node_hash" where
  "htree_root H (HLeaf x) = x"
| "htree_root H (HNode l r) = node_hash H (htree_root H l) (htree_root H r)"

text \<open>The strings hashed while the root is computed.\<close>

primrec htree_inputs :: "(bytes \<Rightarrow> node_hash) \<Rightarrow> htree \<Rightarrow> bytes list" where
  "htree_inputs H (HLeaf x) = []"
| "htree_inputs H (HNode l r) =
     (CHR 0x01 # htree_root H l @ htree_root H r) # htree_inputs H l @ htree_inputs H r"

primrec htree_leaves :: "htree \<Rightarrow> node_hash list" where
  "htree_leaves (HLeaf x) = [x]"
| "htree_leaves (HNode l r) = htree_leaves l @ htree_leaves r"

definition mth_tree :: "node_hash list \<Rightarrow> htree" where
  "mth_tree leaves = merkle_tree HNode (HLeaf []) (map HLeaf leaves)"

definition merkle_inputs :: "(bytes \<Rightarrow> node_hash) \<Rightarrow> node_hash list \<Rightarrow> bytes list" where
  "merkle_inputs H leaves = htree_inputs H (mth_tree leaves)"

definition inclusion_inputs :: "(bytes \<Rightarrow> node_hash) \<Rightarrow> InclusionProof \<Rightarrow> bytes list" where
  "inclusion_inputs H proof =
     (case inclusion_loop HNode (unat (ip_leaf_index proof)) (unat (ip_tree_size proof) - 1)
             (HLeaf (ip_leaf_hash proof)) (map HLeaf (ip_path proof)) of
        None \<Rightarrow> []
      | Some (f, s, t) \<Rightarrow> htree_inputs H t)"

definition consistency_inputs ::
  "(bytes \<Rightarrow> node_hash) \<Rightarrow> ConsistencyProof \<Rightarrow> node_hash \<Rightarrow> bytes list" where
  "consistency_inputs H proof old_root =
     (case consistency_run HNode (unat (cp_old_size proof)) (unat (cp_new_size proof))
             (HLeaf old_root) (map HLeaf (cp_path proof)) of
        None \<Rightarrow> []
      | Some (f, s, fr, sr) \<Rightarrow> htree_inputs H sr)"

text \<open>What the digest type \<^verbatim>\<open>[u8; 32]\<close> guarantees.\<close>

definition digest32 :: "(bytes \<Rightarrow> node_hash) \<Rightarrow> bool" where
  "digest32 H \<longleftrightarrow> (\<forall>x. length (H x) = 32)"

definition all32 :: "node_hash list \<Rightarrow> bool" where
  "all32 xs \<longleftrightarrow> list_all (\<lambda>x. length x = 32) xs"

section \<open>Homomorphisms\<close>

lemma merkle_tree_hom:
  assumes hom: "\<And>x y. g (nd x y) = nd' (g x) (g y)"
  shows "xs \<noteq> [] \<Longrightarrow> g (merkle_tree nd e xs) = merkle_tree nd' e' (map g xs)"
proof (induction "length xs" arbitrary: xs rule: less_induct)
  case less
  show ?case
  proof (cases "length xs < 2")
    case True
    with less.prems obtain x where "xs = [x]" by (auto elim: singletonE)
    then show ?thesis by simp
  next
    case False
    let ?k = "largest_power_of_two_less_than (length xs)"
    have k: "0 < ?k" "?k < length xs" using lp2_bounds False by auto
    then have "g (merkle_tree nd e (take ?k xs)) = merkle_tree nd' e' (map g (take ?k xs))"
      "g (merkle_tree nd e (drop ?k xs)) = merkle_tree nd' e' (map g (drop ?k xs))"
      using less.prems by (auto intro!: less.hyps)
    then show ?thesis
      using False merkle_tree_split [of xs nd e] merkle_tree_split [of "map g xs" nd' e']
      by (simp add: hom take_map drop_map)
  qed
qed

lemma incl_root_hom:
  assumes hom: "\<And>x y. g (nd x y) = nd' (g x) (g y)"
  shows "incl_root nd' m n (g r) (map g ps) = g (incl_root nd m n r ps)"
  by (induction ps arbitrary: m n) (simp_all add: Let_def hom)

lemma cons_roots_hom:
  assumes hom: "\<And>x y. g (nd x y) = nd' (g x) (g y)"
  shows "cons_roots nd' m n (g seed) (map g ps) = map_prod g g (cons_roots nd m n seed ps)"
  by (induction ps arbitrary: m n) (simp_all add: Let_def hom split: prod.splits)

lemma htree_root_mth_tree:
  "leaves \<noteq> [] \<Longrightarrow> htree_root H (mth_tree leaves) = merkle_tree_hash H leaves"
  using merkle_tree_hom [of "htree_root H" HNode "node_hash H" "map HLeaf leaves" "HLeaf []"
      "empty_hash H"]
  by (simp add: mth_tree_def merkle_tree_hash_def comp_def)

lemma mth_tree_single [simp]: "mth_tree [x] = HLeaf x"
  by (simp add: mth_tree_def)

lemma mth_tree_split:
  "2 \<le> length leaves \<Longrightarrow>
   mth_tree leaves =
     HNode (mth_tree (take (largest_power_of_two_less_than (length leaves)) leaves))
           (mth_tree (drop (largest_power_of_two_less_than (length leaves)) leaves))"
  using merkle_tree_split [of "map HLeaf leaves" HNode "HLeaf []"]
  by (simp add: mth_tree_def take_map drop_map)

lemma htree_leaves_mth_tree: "leaves \<noteq> [] \<Longrightarrow> htree_leaves (mth_tree leaves) = leaves"
proof (induction "length leaves" arbitrary: leaves rule: less_induct)
  case less
  show ?case
  proof (cases "length leaves < 2")
    case True
    with less.prems obtain x where "leaves = [x]" by (auto elim: singletonE)
    then show ?thesis by simp
  next
    case False
    let ?k = "largest_power_of_two_less_than (length leaves)"
    have "0 < ?k" "?k < length leaves" using lp2_bounds False by auto
    then have "htree_leaves (mth_tree (take ?k leaves)) = take ?k leaves"
      "htree_leaves (mth_tree (drop ?k leaves)) = drop ?k leaves"
      using less.prems by (auto intro!: less.hyps)
    then show ?thesis
      using False by (simp add: mth_tree_split)
  qed
qed

section \<open>Binding\<close>

text \<open>
  \<open>t\<close> is cut off from \<open>t'\<close>: its leaves sit where \<open>t'\<close> has subtrees.  \<open>agrees\<close> adds that
  each leaf is the digest of that subtree.
\<close>

fun cut_of :: "htree \<Rightarrow> htree \<Rightarrow> bool" where
  "cut_of (HLeaf x) t = True"
| "cut_of (HNode l r) (HNode l' r') = (cut_of l l' \<and> cut_of r r')"
| "cut_of (HNode l r) (HLeaf x) = False"

fun agrees :: "(bytes \<Rightarrow> node_hash) \<Rightarrow> htree \<Rightarrow> htree \<Rightarrow> bool" where
  "agrees H (HLeaf x) t = (x = htree_root H t)"
| "agrees H (HNode l r) (HNode l' r') = (agrees H l l' \<and> agrees H r r')"
| "agrees H (HNode l r) (HLeaf x) = False"

lemma length_htree_root:
  "digest32 H \<Longrightarrow> all32 (htree_leaves t) \<Longrightarrow> length (htree_root H t) = 32"
  by (cases t) (simp_all add: digest32_def all32_def node_hash_def)

lemma equal_roots_agree:
  assumes "digest32 H" "cut_of t t'" "htree_root H t = htree_root H t'"
    "all32 (htree_leaves t)" "all32 (htree_leaves t')"
    "inj_on H (set (htree_inputs H t) \<union> set (htree_inputs H t'))"
  shows "agrees H t t'"
  using assms(2-)
proof (induction t t' rule: cut_of.induct)
  case (2 l r l' r')
  have len: "length (htree_root H l) = 32" "length (htree_root H l') = 32"
    using 2(5,6) by (auto intro!: length_htree_root assms(1) simp: all32_def)
  have "CHR 0x01 # htree_root H l @ htree_root H r = CHR 0x01 # htree_root H l' @ htree_root H r'"
    by (rule inj_onD [OF 2(7)]) (use 2(4) in \<open>simp_all add: node_hash_def\<close>)
  then have "htree_root H l = htree_root H l'" "htree_root H r = htree_root H r'"
    using len by auto
  moreover have "inj_on H (set (htree_inputs H l) \<union> set (htree_inputs H l'))"
    "inj_on H (set (htree_inputs H r) \<union> set (htree_inputs H r'))"
    using 2(7) by (auto intro: inj_on_subset)
  ultimately show ?case
    using 2 by (simp add: all32_def)
qed simp_all

lemma agrees_leaf_tree: "agrees H t t' \<Longrightarrow> htree_root H t = htree_root H t'"
  by (induction H t t' rule: agrees.induct) auto

text \<open>Same leaf count, same shape: equal heads then mean equal leaves.\<close>

lemma mth_tree_cut: "length xs = length ys \<Longrightarrow> xs \<noteq> [] \<Longrightarrow> cut_of (mth_tree xs) (mth_tree ys)"
proof (induction "length xs" arbitrary: xs ys rule: less_induct)
  case less
  show ?case
  proof (cases "length xs < 2")
    case True
    with less.prems obtain x where "xs = [x]" by (auto elim: singletonE)
    then show ?thesis by simp
  next
    case False
    let ?k = "largest_power_of_two_less_than (length xs)"
    have "0 < ?k" "?k < length xs" using lp2_bounds False by auto
    then have "cut_of (mth_tree (take ?k xs)) (mth_tree (take ?k ys))"
      "cut_of (mth_tree (drop ?k xs)) (mth_tree (drop ?k ys))"
      using less.prems by (auto intro!: less.hyps)
    then show ?thesis
      using False less.prems by (simp add: mth_tree_split)
  qed
qed

lemma agrees_mth_trees:
  "length xs = length ys \<Longrightarrow> xs \<noteq> [] \<Longrightarrow> agrees H (mth_tree xs) (mth_tree ys) \<Longrightarrow> xs = ys"
proof (induction "length xs" arbitrary: xs ys rule: less_induct)
  case less
  show ?case
  proof (cases "length xs < 2")
    case True
    with less.prems obtain x y where "xs = [x]" "ys = [y]"
      by (metis length_0_conv singletonE)
    with less.prems show ?thesis by simp
  next
    case False
    let ?k = "largest_power_of_two_less_than (length xs)"
    have k: "0 < ?k" "?k < length xs" using lp2_bounds False by auto
    have ag: "agrees H (mth_tree (take ?k xs)) (mth_tree (take ?k ys))"
      "agrees H (mth_tree (drop ?k xs)) (mth_tree (drop ?k ys))"
      using less.prems False by (simp_all add: mth_tree_split)
    have "take ?k xs = take ?k ys"
      by (rule less.hyps) (use k less.prems ag in auto)
    moreover have "drop ?k xs = drop ?k ys"
      by (rule less.hyps) (use k less.prems ag in auto)
    ultimately show ?thesis by (metis append_take_drop_id)
  qed
qed

lemma merkle_tree_hash_binding:
  assumes "digest32 H" "all32 xs" "all32 ys" "length xs = length ys"
    "merkle_tree_hash H xs = merkle_tree_hash H ys"
    "inj_on H (set (merkle_inputs H xs) \<union> set (merkle_inputs H ys))"
  shows "xs = ys"
proof (cases "xs = []")
  case False
  with assms(4) have "ys \<noteq> []" by auto
  have "agrees H (mth_tree xs) (mth_tree ys)"
    using assms False \<open>ys \<noteq> []\<close>
    by (intro equal_roots_agree mth_tree_cut)
       (simp_all add: htree_root_mth_tree htree_leaves_mth_tree merkle_inputs_def)
  then show ?thesis by (rule agrees_mth_trees [OF assms(4) False])
qed (use assms(4) in simp)

section \<open>Inclusion\<close>

lemma inclusion_cut:
  assumes "m < length leaves" "length ps = incl_len m (length leaves)"
  shows "cut_of (incl_root HNode m (length leaves) (HLeaf r) (map HLeaf ps)) (mth_tree leaves)"
  using assms
proof (induction ps arbitrary: m leaves)
  case (Cons p ps)
  then have n2: "2 \<le> length leaves"
    by (cases "length leaves < 2") (auto simp: incl_len.simps)
  let ?k = "largest_power_of_two_less_than (length leaves)"
  have k: "?k < length leaves" using lp2_bounds n2 by auto
  show ?case
  proof (cases "m < ?k")
    case True
    with Cons.IH [of m "take ?k leaves"] Cons.prems n2 k show ?thesis
      by (simp add: mth_tree_split incl_len.simps [of m "length leaves"] Let_def)
  next
    case False
    then have "m - ?k < length leaves - ?k" using Cons.prems(1) by simp
    with False Cons.IH [of "m - ?k" "drop ?k leaves"] Cons.prems n2 k show ?thesis
      by (simp add: mth_tree_split incl_len.simps [of m "length leaves"] Let_def)
  qed
qed simp

lemma inclusion_agrees_leaf:
  assumes "m < length leaves" "length ps = incl_len m (length leaves)"
    "agrees H (incl_root HNode m (length leaves) (HLeaf r) (map HLeaf ps)) (mth_tree leaves)"
  shows "r = leaves ! m"
  using assms
proof (induction ps arbitrary: m leaves)
  case Nil
  then have "length leaves < 2"
    by (cases "length leaves < 2") (auto simp: incl_len.simps Let_def)
  moreover have "leaves \<noteq> []" using Nil.prems(1) by auto
  ultimately obtain x where "leaves = [x]" by (auto elim: singletonE)
  with Nil.prems show ?case by simp
next
  case (Cons p ps)
  then have n2: "2 \<le> length leaves"
    by (cases "length leaves < 2") (auto simp: incl_len.simps)
  let ?k = "largest_power_of_two_less_than (length leaves)"
  have k: "?k < length leaves" using lp2_bounds n2 by auto
  show ?case
  proof (cases "m < ?k")
    case True
    with Cons.IH [of m "take ?k leaves"] Cons.prems n2 k show ?thesis
      by (simp add: mth_tree_split incl_len.simps [of m "length leaves"] Let_def)
  next
    case False
    then have "m - ?k < length leaves - ?k" using Cons.prems(1) by simp
    with False Cons.IH [of "m - ?k" "drop ?k leaves"] Cons.prems n2 k show ?thesis
      by (simp add: mth_tree_split incl_len.simps [of m "length leaves"] Let_def)
  qed
qed

lemma htree_leaves_incl_root:
  "set (htree_leaves (incl_root HNode m n (HLeaf r) (map HLeaf ps))) \<subseteq> insert r (set ps)"
  by (induction ps arbitrary: m n) (auto simp: Let_def)

text \<open>An accepted inclusion proof folds to the expected root, and its length is right.\<close>

lemma verify_inclusion_iff:
  assumes "i < n" "unat (ip_leaf_index proof) = i" "unat (ip_tree_size proof) = n"
  shows "verify_inclusion_proof H proof root \<longleftrightarrow>
    length (ip_path proof) = incl_len i n \<and>
    incl_root (node_hash H) i n (ip_leaf_hash proof) (rev (ip_path proof)) = root"
proof -
  have "verify_inclusion_proof H proof root \<longleftrightarrow>
    (\<exists>f. inclusion_loop (node_hash H) i (n - 1) (ip_leaf_hash proof) (ip_path proof)
      = Some (f, 0, root))"
    using assms by (auto simp: verify_inclusion_proof_def split: option.splits prod.splits)
  then show ?thesis
    by (auto simp only: inclusion_loop_accepts [OF assms(1)])
qed

lemma inclusion_proof_complete:
  assumes "i < length leaves" "length leaves < 2 ^ 64"
  shows "\<exists>proof. make_inclusion_proof H leaves i = Some proof \<and>
    verify_inclusion_proof H proof (merkle_tree_hash H leaves)"
proof -
  obtain path where path:
    "inclusion_path (node_hash H) (empty_hash H) leaves i = Some path"
    "length path = incl_len i (length leaves)"
    "incl_root (node_hash H) i (length leaves) (leaves ! i) (rev path) =
       merkle_tree (node_hash H) (empty_hash H) leaves"
    by (rule inclusion_path_correct [OF assms(1)])
  let ?proof = "\<lparr>ip_leaf_index = of_nat i, ip_tree_size = of_nat (length leaves),
    ip_leaf_hash = leaves ! i, ip_path = path\<rparr>"
  have "verify_inclusion_proof H ?proof (merkle_tree_hash H leaves)"
    using assms path
    by (subst verify_inclusion_iff [OF assms(1)])
       (simp_all add: unat_of_nat_64 merkle_tree_hash_def)
  then show ?thesis
    using path(1) by (auto simp: make_inclusion_proof_def)
qed

lemma inclusion_proof_sound:
  assumes "verify_inclusion_proof H proof (merkle_tree_hash H leaves)"
    "unat (ip_tree_size proof) = length leaves"
    "digest32 H" "all32 leaves" "all32 (ip_leaf_hash proof # ip_path proof)"
    "inj_on H (set (merkle_inputs H leaves) \<union> set (inclusion_inputs H proof))"
  shows "unat (ip_leaf_index proof) < length leaves \<and>
    ip_leaf_hash proof = leaves ! unat (ip_leaf_index proof)"
proof -
  let ?i = "unat (ip_leaf_index proof)"
  let ?t = "incl_root HNode ?i (length leaves) (HLeaf (ip_leaf_hash proof))
    (map HLeaf (rev (ip_path proof)))"
  have i: "?i < length leaves"
    using assms(1,2) by (auto simp: verify_inclusion_proof_def Let_def split: if_splits)
  then have ne: "leaves \<noteq> []" by auto
  have acc: "length (ip_path proof) = incl_len ?i (length leaves)"
    "incl_root (node_hash H) ?i (length leaves) (ip_leaf_hash proof) (rev (ip_path proof)) =
       merkle_tree_hash H leaves"
    using assms(1,2) i by (simp_all add: verify_inclusion_iff)
  have run: "inclusion_loop HNode ?i (length leaves - 1) (HLeaf (ip_leaf_hash proof))
      (map HLeaf (ip_path proof)) = Some (0, 0, ?t)"
    using acc(1) inclusion_loop_accepts [OF i, of HNode "HLeaf (ip_leaf_hash proof)"
        "map HLeaf (ip_path proof)" 0 ?t] by (simp add: rev_map)
  then have inputs: "inclusion_inputs H proof = htree_inputs H ?t"
    using assms(2) by (simp add: inclusion_inputs_def)
  have "htree_root H ?t = htree_root H (mth_tree leaves)"
    using acc(2) i incl_root_hom [of "htree_root H" HNode "node_hash H" ?i "length leaves"
        "HLeaf (ip_leaf_hash proof)" "map HLeaf (rev (ip_path proof))"]
    by (simp add: htree_root_mth_tree [OF ne] comp_def)
  moreover have "all32 (htree_leaves ?t)"
    using assms(5) htree_leaves_incl_root [of ?i "length leaves" "ip_leaf_hash proof"
        "rev (ip_path proof)"]
    by (auto simp: all32_def list_all_iff)
  moreover have "all32 (htree_leaves (mth_tree leaves))"
    using assms(4) i by (subst htree_leaves_mth_tree) auto
  ultimately have "agrees H ?t (mth_tree leaves)"
    using assms(3,6) inputs acc(1) i
    by (intro equal_roots_agree inclusion_cut) (simp_all add: merkle_inputs_def Un_commute)
  then show ?thesis
    using i acc(1) inclusion_agrees_leaf [of ?i leaves "rev (ip_path proof)" H] by simp
qed

section \<open>Consistency\<close>

lemma cons_len_pos_cases:
  assumes "length (p # ps) = cons_len m (length leaves)"
  shows "m \<noteq> length leaves" "2 \<le> length leaves"
    "length ps = (let k = largest_power_of_two_less_than (length leaves) in
       if m \<le> k then cons_len m k else cons_len (m - k) (length leaves - k))"
  using assms
  by (cases "m = length leaves \<or> length leaves < 2";
      simp add: cons_len.simps [of m "length leaves"] Let_def)+

lemma consistency_cut:
  assumes "m \<le> length leaves" "length ps = cons_len m (length leaves)"
  shows "cut_of (snd (cons_roots HNode m (length leaves) (HLeaf seed) (map HLeaf ps))) (mth_tree leaves)"
  using assms
proof (induction ps arbitrary: m leaves)
  case (Cons p ps)
  note c = cons_len_pos_cases [OF Cons.prems(2)]
  let ?k = "largest_power_of_two_less_than (length leaves)"
  have k: "?k < length leaves" using lp2_bounds c(2) by auto
  show ?case
  proof (cases "m \<le> ?k")
    case True
    with Cons.IH [of m "take ?k leaves"] c k show ?thesis
      by (simp add: mth_tree_split Let_def case_prod_beta)
  next
    case False
    with Cons.IH [of "m - ?k" "drop ?k leaves"] Cons.prems(1) c k show ?thesis
      by (simp add: mth_tree_split Let_def case_prod_beta)
  qed
qed simp

lemma consistency_agrees_old:
  assumes "0 < m" "m \<le> length leaves" "length ps = cons_len m (length leaves)"
    "agrees H (snd (cons_roots HNode m (length leaves) (HLeaf seed) (map HLeaf ps))) (mth_tree leaves)"
  shows "htree_root H (fst (cons_roots HNode m (length leaves) (HLeaf seed) (map HLeaf ps)))
    = htree_root H (mth_tree (take m leaves))"
  using assms
proof (induction ps arbitrary: m leaves)
  case Nil
  then have "m = length leaves"
    by (cases "m = length leaves \<or> length leaves < 2") (auto simp: cons_len.simps Let_def)
  with Nil.prems(4) show ?case by simp
next
  case (Cons p ps)
  note c = cons_len_pos_cases [OF Cons.prems(3)]
  let ?k = "largest_power_of_two_less_than (length leaves)"
  have k: "0 < ?k" "?k < length leaves" using lp2_bounds c(2) by auto
  show ?case
  proof (cases "m \<le> ?k")
    case True
    with Cons.IH [of m "take ?k leaves"] Cons.prems c k show ?thesis
      by (simp add: mth_tree_split min_absorb1 Let_def case_prod_beta)
  next
    case False
    have "mth_tree (take m leaves) = HNode (mth_tree (take ?k leaves))
      (mth_tree (take (m - ?k) (drop ?k leaves)))"
      using merkle_tree_take [of "map HLeaf leaves" m HNode "HLeaf []"] c(2) False Cons.prems(2)
      by (simp add: mth_tree_def take_map drop_map)
    with False Cons.IH [of "m - ?k" "drop ?k leaves"] Cons.prems c k show ?thesis
      by (simp add: mth_tree_split Let_def case_prod_beta)
  qed
qed

lemma htree_leaves_cons_roots:
  "set (htree_leaves (snd (cons_roots HNode m n (HLeaf seed) (map HLeaf ps)))) \<subseteq> insert seed (set ps)"
  by (induction ps arbitrary: m n) (auto simp: Let_def case_prod_beta)

lemma consistency_run_accepts:
  assumes "0 < m" "m < n"
  shows "consistency_run nd m n old path = Some (f, 0, fr, sr) \<longleftrightarrow>
    (\<exists>seed rest. (if is_power_of_two m then [old] else []) @ path = seed # rest \<and>
       length rest = cons_len m n \<and> f = 0 \<and> (fr, sr) = cons_roots nd m n seed (rev rest))"
proof -
  obtain f0 s0 where st: "strip_ones (m - 1) (n - 1) = (f0, s0)" by fastforce
  show ?thesis
    by (auto simp: consistency_run_def st consistency_loop_accepts [OF assms st] simp del: One_nat_def
        split: list.splits)
qed

lemma verify_consistency_iff:
  assumes "0 < m" "m < n" "unat (cp_old_size proof) = m" "unat (cp_new_size proof) = n"
  shows "verify_consistency_proof H proof old_root new_root \<longleftrightarrow>
    (\<exists>seed rest. (if is_power_of_two m then [old_root] else []) @ cp_path proof = seed # rest \<and>
       length rest = cons_len m n \<and>
       cons_roots (node_hash H) m n seed (rev rest) = (old_root, new_root))"
proof -
  have "verify_consistency_proof H proof old_root new_root \<longleftrightarrow>
    (\<exists>f. consistency_run (node_hash H) m n old_root (cp_path proof) = Some (f, 0, old_root, new_root))"
    using assms by (auto simp: verify_consistency_proof_def split: option.splits prod.splits)
  then show ?thesis
    by (auto simp only: consistency_run_accepts [OF assms(1,2)]) metis+
qed

lemma consistency_proof_complete:
  assumes "0 < m" "m \<le> length leaves" "length leaves < 2 ^ 64"
  shows "\<exists>proof. make_consistency_proof H leaves m = Some proof \<and>
    verify_consistency_proof H proof
      (merkle_tree_hash H (take m leaves)) (merkle_tree_hash H leaves)"
proof (cases "m = length leaves")
  case True
  with assms show ?thesis
    by (simp add: make_consistency_proof_def consistency_path_def verify_consistency_proof_def
        unat_of_nat_64 Let_def)
next
  case False
  then have m: "m < length leaves" using assms(2) by simp
  let ?path = "subproof (node_hash H) (empty_hash H) leaves m True"
  let ?proof = "\<lparr>cp_old_size = of_nat m, cp_new_size = of_nat (length leaves), cp_path = ?path\<rparr>"
  obtain seed path where sp: "?path = (if is_power_of_two m then [] else [seed]) @ path"
    "length path = cons_len m (length leaves)"
    "cons_roots (node_hash H) m (length leaves) seed (rev path) =
       (merkle_tree_hash H (take m leaves), merkle_tree_hash H leaves)"
    "is_power_of_two m \<longrightarrow> seed = merkle_tree_hash H (take m leaves)"
    using subproof_correct [of m leaves True "node_hash H" "empty_hash H"] assms(1,2) False
    by (auto simp: merkle_tree_hash_def)
  then have "(if is_power_of_two m then [merkle_tree_hash H (take m leaves)] else []) @ ?path
    = seed # path"
    by auto
  then have "verify_consistency_proof H ?proof
      (merkle_tree_hash H (take m leaves)) (merkle_tree_hash H leaves)"
    using sp(2,3) assms m
    by (subst verify_consistency_iff [OF assms(1) m]) (auto simp: unat_of_nat_64)
  moreover have "make_consistency_proof H leaves m = Some ?proof"
    using assms(1) m by (simp add: make_consistency_proof_def consistency_path_def Let_def)
  ultimately show ?thesis by blast
qed

text \<open>
  The old root an accepted proof was checked against is the head of the new tree's prefix.
\<close>

lemma accepted_old_root:
  assumes ver: "verify_consistency_proof H proof old_root (merkle_tree_hash H new)"
    and sizes: "unat (cp_old_size proof) = m" "unat (cp_new_size proof) = length new"
    and m: "0 < m" "m < length new"
    and wf: "digest32 H" "length old_root = 32" "all32 new" "all32 (cp_path proof)"
    and inj: "inj_on H (set (merkle_inputs H new) \<union> set (consistency_inputs H proof old_root))"
  shows "old_root = merkle_tree_hash H (take m new)"
proof -
  let ?n = "length new"
  have ne: "new \<noteq> []" "take m new \<noteq> []" using m by auto
  obtain seed rest where run:
    "(if is_power_of_two m then [old_root] else []) @ cp_path proof = seed # rest"
    "length rest = cons_len m ?n"
    "cons_roots (node_hash H) m ?n seed (rev rest) = (old_root, merkle_tree_hash H new)"
    using ver unfolding verify_consistency_iff [OF m sizes] by blast
  let ?t = "cons_roots HNode m ?n (HLeaf seed) (map HLeaf (rev rest))"
  have roots: "htree_root H (fst ?t) = old_root" "htree_root H (snd ?t) = htree_root H (mth_tree new)"
    using run(3) cons_roots_hom [of "htree_root H" HNode "node_hash H" m ?n "HLeaf seed"
        "map HLeaf (rev rest)"]
    by (simp_all add: comp_def htree_root_mth_tree [OF ne(1)] map_prod_def case_prod_beta)
  have "consistency_run HNode m ?n (HLeaf old_root) (map HLeaf (cp_path proof))
    = Some (0, 0, fst ?t, snd ?t)"
    using run(1,2) by (subst consistency_run_accepts [OF m])
      (auto simp: rev_map map_eq_Cons_conv Cons_eq_map_conv split: if_splits)
  then have inputs: "consistency_inputs H proof old_root = htree_inputs H (snd ?t)"
    using sizes by (simp add: consistency_inputs_def case_prod_beta)
  have "all32 (seed # rest)"
    using wf(2,4) run(1) by (auto simp: all32_def Cons_eq_append_conv split: if_splits)
  then have "all32 (htree_leaves (snd ?t))"
    using htree_leaves_cons_roots [of m ?n seed "rev rest"] by (auto simp: all32_def list_all_iff)
  then have "agrees H (snd ?t) (mth_tree new)"
    using wf(1,3) roots(2) inputs run(2) m(2) ne(1) inj
    by (intro equal_roots_agree consistency_cut)
       (auto simp: merkle_inputs_def htree_leaves_mth_tree elim!: inj_on_subset)
  from consistency_agrees_old [OF m(1) less_imp_le [OF m(2)] _ this] run(2) roots(1)
  show ?thesis by (simp add: htree_root_mth_tree [OF ne(2)])
qed

lemma length_merkle_tree_hash:
  "digest32 H \<Longrightarrow> all32 leaves \<Longrightarrow> leaves \<noteq> [] \<Longrightarrow> length (merkle_tree_hash H leaves) = 32"
  by (metis htree_leaves_mth_tree htree_root_mth_tree length_htree_root)

lemma consistency_proof_sound:
  assumes ver: "verify_consistency_proof H proof (merkle_tree_hash H old) (merkle_tree_hash H new)"
    and sizes: "unat (cp_old_size proof) = length old" "unat (cp_new_size proof) = length new"
    and wf: "digest32 H" "all32 old" "all32 new" "all32 (cp_path proof)"
    and inj: "inj_on H (set (merkle_inputs H old) \<union> set (merkle_inputs H new) \<union>
      set (merkle_inputs H (take (length old) new)) \<union>
      set (consistency_inputs H proof (merkle_tree_hash H old)))"
  shows "length old \<le> length new \<and> old = take (length old) new"
proof -
  let ?m = "length old" and ?n = "length new"
  have mn: "0 < ?m" "?m \<le> ?n"
    using ver sizes by (auto simp: verify_consistency_proof_def Let_def split: if_splits)
  have "merkle_tree_hash H old = merkle_tree_hash H (take ?m new)"
  proof (cases "?m = ?n")
    case True
    then show ?thesis
      using ver sizes mn(1) by (simp add: verify_consistency_proof_def Let_def split: if_splits)
  next
    case False
    have "length (merkle_tree_hash H old) = 32"
      using wf(1,2) mn(1) by (intro length_merkle_tree_hash) auto
    then show ?thesis
      using False mn wf sizes inj
      by (intro accepted_old_root [OF ver]) (auto elim!: inj_on_subset)
  qed
  moreover have "inj_on H (set (merkle_inputs H old) \<union> set (merkle_inputs H (take ?m new)))"
    using inj by (rule inj_on_subset) auto
  moreover have "all32 (take ?m new)"
    using wf(3) by (auto simp: all32_def list_all_iff dest: in_set_takeD)
  ultimately have "old = take ?m new"
    using wf mn by (intro merkle_tree_hash_binding) auto
  with mn show ?thesis by simp
qed

end
