(* ===== verification/Rust_Text.thy ===== *)
theory Rust_Text
  imports Prelude
begin

text \<open>
  The parts of Rust's text library the components use, on UTF-8 byte strings: white space
  trimming, prefixes and suffixes, ASCII case folding, UTF-8 validation, and reading and
  printing of 64 bit integers.
\<close>

section \<open>White space\<close>

abbreviation code :: "char \<Rightarrow> nat" where
  "code c \<equiv> of_char c"

text \<open>
  The length in bytes of a leading code point with the Unicode property White\_Space, 0
  if there is none; the second function reads the same code points from the end of a
  reversed string.
\<close>

fun ws_prefix :: "bytes \<Rightarrow> nat" where
  "ws_prefix [] = 0"
| "ws_prefix (a # s) =
     (if code a \<in> {9..13} \<or> code a = 32 then 1
      else (case s of
        [] \<Rightarrow> 0
      | b # s' \<Rightarrow>
          if code a = 0xC2 \<and> (code b = 0x85 \<or> code b = 0xA0) then 2
          else (case s' of
            [] \<Rightarrow> 0
          | c # _ \<Rightarrow>
              if (code a = 0xE1 \<and> code b = 0x9A \<and> code c = 0x80) \<or>
                 (code a = 0xE2 \<and> code b = 0x80 \<and>
                   (code c \<in> {0x80..0x8A} \<or> code c \<in> {0xA8, 0xA9, 0xAF})) \<or>
                 (code a = 0xE2 \<and> code b = 0x81 \<and> code c = 0x9F) \<or>
                 (code a = 0xE3 \<and> code b = 0x80 \<and> code c = 0x80)
              then 3 else 0)))"

definition ws_suffix_rev :: "bytes \<Rightarrow> nat" where
  "ws_suffix_rev s =
     (if s = [] then 0
      else if ws_prefix (rev (take 1 s)) = 1 then 1
      else if ws_prefix (rev (take 2 s)) = 2 then 2
      else if ws_prefix (rev (take 3 s)) = 3 then 3 else 0)"

lemma ws_prefix_le: "ws_prefix s \<le> length s"
  by (cases s rule: ws_prefix.cases) (auto split: list.splits)

lemma ws_suffix_rev_le: "ws_suffix_rev s \<le> length s"
proof -
  have "ws_prefix (rev (take k s)) \<le> length s" for k
    using ws_prefix_le [of "rev (take k s)"] by simp
  then show ?thesis
    by (auto simp: ws_suffix_rev_def Suc_le_eq) (metis)+
qed

function trim_start :: "bytes \<Rightarrow> bytes" where
  "trim_start s = (if ws_prefix s = 0 then s else trim_start (drop (ws_prefix s) s))"
  by pat_completeness auto
termination
  by (relation "measure length") (auto intro!: diff_less intro: less_le_trans [OF _ ws_prefix_le])

function trim_end_rev :: "bytes \<Rightarrow> bytes" where
  "trim_end_rev s =
     (if ws_suffix_rev s = 0 then s else trim_end_rev (drop (ws_suffix_rev s) s))"
  by pat_completeness auto
termination
  by (relation "measure length") (auto simp: ws_suffix_rev_def [of "[]"] intro!: diff_less intro: less_le_trans [OF _ ws_suffix_rev_le])

declare trim_start.simps [simp del] trim_end_rev.simps [simp del]

definition trim :: "bytes \<Rightarrow> bytes" where
  "trim s = rev (trim_end_rev (rev (trim_start s)))"

text \<open>Visible ASCII text is left alone.\<close>

lemma ws_prefix_visible: "\<forall>c \<in> set s. code c \<in> {33..127} \<Longrightarrow> ws_prefix s = 0"
  by (cases s rule: ws_prefix.cases) (auto split: list.splits)

lemma trim_visible:
  assumes "\<forall>c \<in> set s. code c \<in> {33..127}"
  shows "trim s = s"
proof -
  have "ws_prefix (rev (take k (rev s))) = 0" for k
    using assms by (intro ws_prefix_visible) (auto dest: in_set_takeD)
  then have "ws_suffix_rev (rev s) = 0" by (simp add: ws_suffix_rev_def)
  then show ?thesis
    using ws_prefix_visible [OF assms]
    by (simp add: trim_def trim_start.simps [of s] trim_end_rev.simps [of "rev s"])
qed

section \<open>Prefixes, suffixes, case\<close>

definition starts_with :: "bytes \<Rightarrow> bytes \<Rightarrow> bool" where
  "starts_with s p \<longleftrightarrow> take (length p) s = p"

definition ends_with :: "bytes \<Rightarrow> bytes \<Rightarrow> bool" where
  "ends_with s p \<longleftrightarrow> starts_with (rev s) (rev p)"

definition strip_suffix :: "bytes \<Rightarrow> bytes \<Rightarrow> bytes option" where
  "strip_suffix s p = (if ends_with s p then Some (take (length s - length p) s) else None)"

definition to_ascii_lower :: "char \<Rightarrow> char" where
  "to_ascii_lower c = (if code c \<in> {65..90} then char_of (code c + 32) else c)"

definition to_ascii_lowercase :: "bytes \<Rightarrow> bytes" where
  "to_ascii_lowercase s = map to_ascii_lower s"

definition eq_ignore_ascii_case :: "bytes \<Rightarrow> bytes \<Rightarrow> bool" where
  "eq_ignore_ascii_case s t \<longleftrightarrow> to_ascii_lowercase s = to_ascii_lowercase t"

section \<open>UTF-8\<close>

abbreviation cont :: "char \<Rightarrow> bool" where
  "cont c \<equiv> code c \<in> {0x80..0xBF}"

text \<open>\<^verbatim>\<open>String::from_utf8\<close>: well-formed UTF-8 (no overlong forms, no surrogates).\<close>

fun utf8_valid :: "bytes \<Rightarrow> bool" where
  "utf8_valid [] = True"
| "utf8_valid (a # s) =
     (if code a < 0x80 then utf8_valid s
      else (case s of
        [] \<Rightarrow> False
      | b # s1 \<Rightarrow>
          if code a \<in> {0xC2..0xDF} then cont b \<and> utf8_valid s1
          else (case s1 of
            [] \<Rightarrow> False
          | c # s2 \<Rightarrow>
              if code a \<in> {0xE0..0xEF} then
                cont b \<and> cont c \<and> (code a = 0xE0 \<longrightarrow> 0xA0 \<le> code b) \<and>
                (code a = 0xED \<longrightarrow> code b \<le> 0x9F) \<and> utf8_valid s2
              else (case s2 of
                [] \<Rightarrow> False
              | d # s3 \<Rightarrow>
                  code a \<in> {0xF0..0xF4} \<and> cont b \<and> cont c \<and> cont d \<and>
                  (code a = 0xF0 \<longrightarrow> 0x90 \<le> code b) \<and>
                  (code a = 0xF4 \<longrightarrow> code b \<le> 0x8F) \<and> utf8_valid s3))))"

lemma utf8_valid_ascii: "\<forall>c \<in> set s. code c < 0x80 \<Longrightarrow> utf8_valid s"
  by (induction s) auto

section \<open>Integers\<close>

definition show_i64 :: "u64 \<Rightarrow> string" where
  "show_i64 w = (if sint w < 0 then CHR ''-'' # dec (nat (- sint w)) else dec (nat (sint w)))"

text \<open>\<^verbatim>\<open>str::parse::<i64>\<close>: an optional sign, at least one digit, no overflow.\<close>

definition parse_digits :: "string \<Rightarrow> nat option" where
  "parse_digits s = (if s \<noteq> [] \<and> list_all is_digit s then Some (undec s) else None)"

definition parse_i64 :: "string \<Rightarrow> u64 option" where
  "parse_i64 s =
     (let (neg, body) =
        (case s of
           [] \<Rightarrow> (False, [])
         | c # cs \<Rightarrow> if c = CHR ''-'' then (True, cs)
                    else if c = CHR ''+'' then (False, cs) else (False, s)) in
      case parse_digits body of
        None \<Rightarrow> None
      | Some n \<Rightarrow>
          if neg then (if n \<le> 2 ^ 63 then Some (word_of_int (- int n)) else None)
          else if n < 2 ^ 63 then Some (of_nat n) else None)"

lemma parse_digits_dec [bytes_simps]: "parse_digits (dec n) = Some n"
  by (simp add: parse_digits_def undec_dec list_all_iff dec_digits)

lemma dec_head_digit: "dec n = c # s \<Longrightarrow> c \<noteq> CHR ''-'' \<and> c \<noteq> CHR ''+''"
  using dec_digits [of c n] by (auto simp: is_digit_def)

lemma parse_show_i64: "parse_i64 (show_i64 w) = Some w"
proof (cases "sint w < 0")
  case True
  have lb: "- (2 ^ 63) \<le> sint w" using sint_ge [of w] by simp
  then have "nat (- sint w) \<le> 2 ^ 63" by (simp add: nat_le_iff)
  with True show ?thesis
    by (simp add: parse_i64_def show_i64_def bytes_simps)
next
  case False
  have "sint w < 2 ^ 63" using sint_lt [of w] by simp
  then have ub: "nat (sint w) < 2 ^ 63" using False by (simp add: nat_less_iff)
  obtain c cs where d: "dec (nat (sint w)) = c # cs" by (cases "dec (nat (sint w))") auto
  have "(of_nat (nat (sint w)) :: u64) = w" using False by simp
  then show ?thesis
    using False ub dec_head_digit [OF d] parse_digits_dec [of "nat (sint w)"]
    by (simp add: parse_i64_def show_i64_def d)
qed

end
