(* ===== verification/Store.thy ===== *)
theory Store
  imports Rust_Text
begin

text \<open>
  The base of the database: the state vector and its deltas (\<^verbatim>\<open>src/state.rs\<close>,
  \<^verbatim>\<open>src/materialize.rs\<close>), the registry of key names (\<^verbatim>\<open>src/keymap.rs\<close>) and the type tags
  (\<^verbatim>\<open>src/type_map.rs\<close>).  A delta refines a function update of the cells; the registry
  keeps a bijection between names and the indices handed out so far.
\<close>

section \<open>State vector\<close>

record State =
  st_values :: "u64 list"

record Delta =
  writes :: "(nat \<times> u64) list"

text \<open>One pass of the loop in \<^verbatim>\<open>apply\<close>: grow with zeros when needed, then store.\<close>

definition apply_write :: "u64 list \<Rightarrow> nat \<times> u64 \<Rightarrow> u64 list" where
  "apply_write vs w =
     (let vs' = (if length vs \<le> fst w then vs @ replicate (fst w + 1 - length vs) 0 else vs)
      in vs'[fst w := snd w])"

definition apply_delta :: "State \<Rightarrow> Delta \<Rightarrow> State" where
  "apply_delta prev delta = \<lparr>st_values = foldl apply_write (st_values prev) (writes delta)\<rparr>"

definition materialize :: "State \<Rightarrow> u64 list" where
  "materialize s = st_values s"

text \<open>\<^verbatim>\<open>state.values.get(idx).copied().unwrap_or(0)\<close>, the way every reader reads a cell.\<close>

definition cell :: "State \<Rightarrow> nat \<Rightarrow> u64" where
  "cell s i = (if i < length (st_values s) then st_values s ! i else 0)"

section \<open>Key names\<close>

record KeyMap =
  forward :: "(string, nat) btree_map"
  reverse :: "string option list"
  next_index :: nat

definition keymap_new :: KeyMap where
  "keymap_new = \<lparr>forward = [], reverse = [], next_index = 0\<rparr>"

definition get_or_create :: "KeyMap \<Rightarrow> string \<Rightarrow> nat \<times> KeyMap" where
  "get_or_create km key =
     (case bt_get (forward km) key of
        Some idx \<Rightarrow> (idx, km)
      | None \<Rightarrow>
          (let idx = next_index km;
               rv = reverse km @ replicate (idx + 1 - length (reverse km)) None
           in (idx, \<lparr>forward = bt_insert key idx (forward km),
                     reverse = rv[idx := Some key],
                     next_index = idx + 1\<rparr>)))"

definition keymap_get :: "KeyMap \<Rightarrow> string \<Rightarrow> nat option" where
  "keymap_get km key = bt_get (forward km) key"

definition key_at :: "KeyMap \<Rightarrow> nat \<Rightarrow> string option" where
  "key_at km idx = (if idx < length (reverse km) then reverse km ! idx else None)"

definition all_keys :: "KeyMap \<Rightarrow> (string \<times> nat) list" where
  "all_keys km = forward km"

definition keymap_len :: "KeyMap \<Rightarrow> nat" where
  "keymap_len km = length (forward km)"

definition keys_matching :: "KeyMap \<Rightarrow> string \<Rightarrow> (string \<times> nat) list" where
  "keys_matching km pattern =
     (case strip_suffix pattern ''%'' of
        Some prefix \<Rightarrow> filter (\<lambda>(k, v). starts_with k prefix) (forward km)
      | None \<Rightarrow>
          (case bt_get (forward km) pattern of
             Some v \<Rightarrow> [(pattern, v)]
           | None \<Rightarrow> []))"

section \<open>Type tags\<close>

datatype TypeTag =
  TagNull | TagInteger | TagFloat | TagBool | TagText | TagJson | TagBytes | TagVector

record TypeMap =
  types :: "(string, TypeTag) btree_map"

definition type_map_new :: TypeMap where
  "type_map_new = \<lparr>types = []\<rparr>"

definition type_map_set :: "TypeMap \<Rightarrow> string \<Rightarrow> TypeTag \<Rightarrow> TypeMap" where
  "type_map_set tm key tag = tm\<lparr>types := bt_insert key tag (types tm)\<rparr>"

definition type_map_get :: "TypeMap \<Rightarrow> string \<Rightarrow> TypeTag" where
  "type_map_get tm key = (case bt_get (types tm) key of Some t \<Rightarrow> t | None \<Rightarrow> TagInteger)"

definition type_map_get_opt :: "TypeMap \<Rightarrow> string \<Rightarrow> TypeTag option" where
  "type_map_get_opt tm key = bt_get (types tm) key"

definition type_map_remove :: "TypeMap \<Rightarrow> string \<Rightarrow> TypeMap" where
  "type_map_remove tm key = tm\<lparr>types := bt_remove key (types tm)\<rparr>"

section \<open>A delta is a sequence of cell updates\<close>

lemma length_apply_write: "length (apply_write vs w) = max (length vs) (fst w + 1)"
  by (simp add: apply_write_def Let_def)

lemma cell_apply_write:
  "cell \<lparr>st_values = apply_write vs w\<rparr> = (cell \<lparr>st_values = vs\<rparr>)(fst w := snd w)"
  by (auto simp: fun_eq_iff cell_def apply_write_def Let_def nth_append)

lemma cell_foldl_apply_write:
  "cell \<lparr>st_values = foldl apply_write vs ws\<rparr>
    = foldl (\<lambda>f w. f(fst w := snd w)) (cell \<lparr>st_values = vs\<rparr>) ws"
  by (induction ws arbitrary: vs) (simp_all add: cell_apply_write)

lemma cell_apply_delta:
  "cell (apply_delta s d) = foldl (\<lambda>f w. f(fst w := snd w)) (cell s) (writes d)"
  by (cases s) (simp add: apply_delta_def cell_foldl_apply_write)

lemma foldl_update_last:
  "foldl (\<lambda>f w. f(fst w := snd w)) f ws i =
    (case map_of (rev ws) i of Some v \<Rightarrow> v | None \<Rightarrow> f i)"
  by (induction ws arbitrary: f) (auto simp: map_add_def map_of_append split: option.splits)

lemma cell_apply_delta_last:
  "cell (apply_delta s d) i = (case map_of (rev (writes d)) i of Some v \<Rightarrow> v | None \<Rightarrow> cell s i)"
  by (simp add: cell_apply_delta foldl_update_last)

lemma length_foldl_apply_write:
  "length (foldl apply_write vs ws) = foldl (\<lambda>n w. max n (fst w + 1)) (length vs) ws"
  by (induction ws arbitrary: vs) (simp_all add: length_apply_write)

lemma foldl_max_ge: "n \<le> foldl (\<lambda>n w. max n (Suc (fst w))) n ws"
proof (induction ws arbitrary: n)
  case (Cons w ws)
  from this [of "max n (Suc (fst w))"] show ?case by simp
qed simp

lemma length_apply_delta_ge: "length (st_values s) \<le> length (st_values (apply_delta s d))"
  by (simp add: apply_delta_def length_foldl_apply_write foldl_max_ge)

section \<open>The registry is a growing bijection\<close>

definition keymap_inv :: "KeyMap \<Rightarrow> bool" where
  "keymap_inv km \<longleftrightarrow>
     bt_wf (forward km) \<and> next_index km = length (reverse km) \<and>
     length (forward km) = next_index km \<and>
     (\<forall>k i. bt_get (forward km) k = Some i \<longleftrightarrow> i < length (reverse km) \<and> reverse km ! i = Some k)"

text \<open>What the SQL layer and the seal chain rely on.\<close>

locale key_registry =
  fixes get :: "'r \<Rightarrow> string \<Rightarrow> nat option"
    and name_at :: "'r \<Rightarrow> nat \<Rightarrow> string option"
    and create :: "'r \<Rightarrow> string \<Rightarrow> nat \<times> 'r"
    and inv :: "'r \<Rightarrow> bool"
  assumes inv_create: "inv r \<Longrightarrow> inv (snd (create r k))"
    and get_create: "inv r \<Longrightarrow> get (snd (create r k)) = (get r)(k \<mapsto> fst (create r k))"
    and create_known: "inv r \<Longrightarrow> get r k = Some i \<Longrightarrow> create r k = (i, r)"
    and name_get: "inv r \<Longrightarrow> name_at r i = Some k \<longleftrightarrow> get r k = Some i"
begin

lemma get_inject: "inv r \<Longrightarrow> get r k = Some i \<Longrightarrow> get r k' = Some i \<Longrightarrow> k = k'"
  by (metis name_get option.inject)

lemma create_stable:
  assumes "inv r" "get r k' = Some i"
  shows "get (snd (create r k)) k' = Some i"
  using assms get_create [of r k] create_known [of r k] by (cases "k' = k") auto

lemma create_fresh:
  assumes "inv r" "get r k = None" "get r k' = Some i"
  shows "fst (create r k) \<noteq> i"
proof
  assume "fst (create r k) = i"
  with assms get_create [of r k] have "get (snd (create r k)) k = Some i" by simp
  moreover have "get (snd (create r k)) k' = Some i" by (rule create_stable [OF assms(1,3)])
  ultimately have "k = k'" using inv_create [OF assms(1)] get_inject by blast
  with assms(2,3) show False by simp
qed

definition create_all :: "'r \<Rightarrow> string list \<Rightarrow> 'r" where
  "create_all r ks = foldl (\<lambda>r k. snd (create r k)) r ks"

lemma create_all_laws:
  assumes "inv r"
  shows "inv (create_all r ks)"
    and "get r k = Some i \<Longrightarrow> get (create_all r ks) k = Some i"
    and "dom (get (create_all r ks)) = dom (get r) \<union> set ks"
  using assms
proof (induction ks arbitrary: r)
  case (Cons k' ks)
  { case 1 with Cons show ?case by (simp add: create_all_def inv_create) }
  { case 2 with Cons show ?case by (simp add: create_all_def inv_create create_stable) }
  { case 3
    have "dom (get (snd (create r k'))) = insert k' (dom (get r))"
      using 3 get_create by simp
    with 3 Cons show ?case by (simp add: create_all_def inv_create) }
qed (simp_all add: create_all_def)

end

lemma keymap_inv_new: "keymap_inv keymap_new"
  by (simp add: keymap_inv_def keymap_new_def)

lemma get_or_create_inv:
  assumes "keymap_inv km"
  shows "keymap_inv (snd (get_or_create km k))"
proof (cases "bt_get (forward km) k")
  case None
  let ?n = "length (reverse km)"
  have rv: "(reverse km @ [None])[?n := Some k] = reverse km @ [Some k]" by simp
  have "k \<notin> set (bt_keys (forward km))"
    using None dom_bt_get [of "forward km"] by (metis domIff)
  then have len: "length (bt_insert k ?n (forward km)) = Suc (length (forward km))"
    using assms bt.length_keys_ins [of "forward km" k ?n] by (simp add: keymap_inv_def)
  have fresh: "i < ?n \<Longrightarrow> reverse km ! i \<noteq> Some k" for i
    using assms None by (metis keymap_inv_def option.distinct(1))
  have "(if k' = k then Some ?n else bt_get (forward km) k') = Some i \<longleftrightarrow>
      i < Suc ?n \<and> (reverse km @ [Some k]) ! i = Some k'" for k' i
    using assms fresh by (auto simp: keymap_inv_def nth_append less_Suc_eq)
  with assms len None show ?thesis
    by (simp add: keymap_inv_def get_or_create_def Let_def rv)
qed (use assms in \<open>simp add: get_or_create_def\<close>)

interpretation km: key_registry keymap_get key_at get_or_create keymap_inv
proof unfold_locales
  fix km k
  assume inv: "keymap_inv km"
  show "keymap_inv (snd (get_or_create km k))" by (rule get_or_create_inv [OF inv])
  show "keymap_get (snd (get_or_create km k)) = (keymap_get km)(k \<mapsto> fst (get_or_create km k))"
    by (auto simp: keymap_get_def get_or_create_def fun_eq_iff Let_def split: option.splits)
next
  fix km k i
  assume inv: "keymap_inv km"
  show "keymap_get km k = Some i \<Longrightarrow> get_or_create km k = (i, km)"
    by (simp add: keymap_get_def get_or_create_def)
  show "key_at km i = Some k \<longleftrightarrow> keymap_get km k = Some i"
    using inv by (auto simp: key_at_def keymap_get_def keymap_inv_def)
qed

lemma strip_suffix_percent:
  "strip_suffix p ''%'' = (if p \<noteq> [] \<and> last p = CHR ''%'' then Some (butlast p) else None)"
  by (cases p rule: rev_cases) (auto simp: strip_suffix_def ends_with_def starts_with_def)

lemma keys_matching_exact:
  assumes "keymap_inv km" "p = [] \<or> last p \<noteq> CHR ''%''"
  shows "(k, i) \<in> set (keys_matching km p) \<longleftrightarrow> k = p \<and> keymap_get km k = Some i"
  using assms
  by (auto simp: keys_matching_def strip_suffix_percent keymap_get_def split: option.splits)

lemma keys_matching_prefix:
  assumes "keymap_inv km"
  shows "(k, i) \<in> set (keys_matching km (p @ ''%'')) \<longleftrightarrow>
    starts_with k p \<and> keymap_get km k = Some i"
  using assms
  by (auto simp: keys_matching_def strip_suffix_percent keymap_get_def keymap_inv_def bt_get_iff_mem)

end
