(* ===== verification/Typed_Value.thy ===== *)
theory Typed_Value
  imports Store Hex
begin

text \<open>
  \<^verbatim>\<open>src/typed_value.rs\<close>: values with a type tag and their encoding into a 64 bit cell plus
  an optional blob.  An \<^verbatim>\<open>i64\<close> or an \<^verbatim>\<open>f64\<close> is its 64 bit pattern, so the source's bit
  casts are identities here; \<open>sint\<close> reads an \<^verbatim>\<open>i64\<close>.  JSON values and their codec come from a
  crate and are the type \<open>'j\<close> with the operations of \<open>tv_env\<close>, which also holds the
  decimal printing and reading of floating point numbers.
\<close>

record 'j tv_env =
  json_to_vec :: "'j \<Rightarrow> bytes"
  json_from_slice :: "bytes \<Rightarrow> string + 'j"
  json_to_string :: "'j \<Rightarrow> string"
  f64_to_string :: "u64 \<Rightarrow> string"
  f64_parse :: "string \<Rightarrow> u64 option"

section \<open>Tags and values\<close>

fun tag_as_str :: "TypeTag \<Rightarrow> string" where
  "tag_as_str TagNull = ''null''"
| "tag_as_str TagInteger = ''integer''"
| "tag_as_str TagFloat = ''float''"
| "tag_as_str TagBool = ''bool''"
| "tag_as_str TagText = ''text''"
| "tag_as_str TagJson = ''json''"
| "tag_as_str TagBytes = ''bytes''"
| "tag_as_str TagVector = ''vector''"

definition from_str_tag :: "string \<Rightarrow> TypeTag option" where
  "from_str_tag s =
     (if s = ''null'' then Some TagNull
      else if s = ''integer'' then Some TagInteger
      else if s = ''float'' then Some TagFloat
      else if s = ''bool'' then Some TagBool
      else if s = ''text'' then Some TagText
      else if s = ''json'' then Some TagJson
      else if s = ''bytes'' then Some TagBytes
      else if s = ''vector'' then Some TagVector
      else None)"

definition is_blob :: "TypeTag \<Rightarrow> bool" where
  "is_blob t \<longleftrightarrow> t \<in> {TagText, TagJson, TagBytes, TagVector}"

datatype 'j TypedValue =
  Null | Integer u64 | Float u64 | Bool bool | Text string | Json 'j | Bytes bytes
| Vector "u64 list"

definition NULL_SENTINEL :: u64 where
  "NULL_SENTINEL = - 1"

fun tag_of :: "'j TypedValue \<Rightarrow> TypeTag" where
  "tag_of Null = TagNull"
| "tag_of (Integer _) = TagInteger"
| "tag_of (Float _) = TagFloat"
| "tag_of (Bool _) = TagBool"
| "tag_of (Text _) = TagText"
| "tag_of (Json _) = TagJson"
| "tag_of (Bytes _) = TagBytes"
| "tag_of (Vector _) = TagVector"

section \<open>Little endian bytes\<close>

fun le_bytes :: "nat \<Rightarrow> nat \<Rightarrow> bytes" where
  "le_bytes 0 v = []"
| "le_bytes (Suc n) v = char_of (v mod 256) # le_bytes n (v div 256)"

fun le_value :: "bytes \<Rightarrow> nat" where
  "le_value [] = 0"
| "le_value (c # cs) = of_char c + 256 * le_value cs"

definition u64_to_le_bytes :: "u64 \<Rightarrow> bytes" where
  "u64_to_le_bytes w = le_bytes 8 (unat w)"

definition u64_from_le_bytes :: "bytes \<Rightarrow> u64" where
  "u64_from_le_bytes bs = of_nat (le_value bs)"

definition content_hash_full :: "(bytes \<Rightarrow> node_hash) \<Rightarrow> string \<Rightarrow> bytes \<Rightarrow> node_hash" where
  "content_hash_full H key data = H (key @ ''|'' @ data)"

definition content_hash_u64 :: "(bytes \<Rightarrow> node_hash) \<Rightarrow> string \<Rightarrow> bytes \<Rightarrow> u64" where
  "content_hash_u64 H key data = u64_from_le_bytes (take 8 (content_hash_full H key data))"

definition vector_to_bytes :: "u64 list \<Rightarrow> bytes" where
  "vector_to_bytes dims = concat (map u64_to_le_bytes dims)"

text \<open>\<^verbatim>\<open>chunks_exact(8)\<close>: whole chunks only.\<close>

function chunks_exact8 :: "bytes \<Rightarrow> bytes list" where
  "chunks_exact8 bs = (if length bs < 8 then [] else take 8 bs # chunks_exact8 (drop 8 bs))"
  by pat_completeness auto
termination
  by (relation "measure length") auto

declare chunks_exact8.simps [simp del]

datatype decode_error =
  MissingBlob TypeTag | InvalidUtf8 | InvalidJson string | BadVectorLength nat

definition bytes_to_vector :: "bytes \<Rightarrow> decode_error + u64 list" where
  "bytes_to_vector data =
     (if length data mod 8 \<noteq> 0 then Err (BadVectorLength (length data))
      else Ok (map u64_from_le_bytes (chunks_exact8 data)))"

section \<open>Encoding and decoding\<close>

fun encode ::
  "(bytes \<Rightarrow> node_hash) \<Rightarrow> 'j tv_env \<Rightarrow> 'j TypedValue \<Rightarrow> string \<Rightarrow> u64 \<times> bytes option" where
  "encode H env Null key = (NULL_SENTINEL, None)"
| "encode H env (Integer v) key = (v, None)"
| "encode H env (Float v) key = (v, None)"
| "encode H env (Bool v) key = ((if v then 1 else 0), None)"
| "encode H env (Text s) key = (content_hash_u64 H key s, Some s)"
| "encode H env (Json v) key =
     (let blob = json_to_vec env v in (content_hash_u64 H key blob, Some blob))"
| "encode H env (Bytes b) key = (content_hash_u64 H key b, Some b)"
| "encode H env (Vector dims) key =
     (let blob = vector_to_bytes dims in (content_hash_u64 H key blob, Some blob))"

definition decode ::
  "'j tv_env \<Rightarrow> TypeTag \<Rightarrow> u64 \<Rightarrow> bytes option \<Rightarrow> decode_error + 'j TypedValue" where
  "decode env tag c blob =
     (case tag of
        TagNull \<Rightarrow> Ok Null
      | TagInteger \<Rightarrow> Ok (Integer c)
      | TagFloat \<Rightarrow> Ok (Float c)
      | TagBool \<Rightarrow> Ok (Bool (c \<noteq> 0))
      | TagText \<Rightarrow>
          (case blob of
             None \<Rightarrow> Err (MissingBlob TagText)
           | Some data \<Rightarrow> if utf8_valid data then Ok (Text data) else Err InvalidUtf8)
      | TagJson \<Rightarrow>
          (case blob of
             None \<Rightarrow> Err (MissingBlob TagJson)
           | Some data \<Rightarrow>
               (case json_from_slice env data of
                  Inl e \<Rightarrow> Err (InvalidJson e) | Inr v \<Rightarrow> Ok (Json v)))
      | TagBytes \<Rightarrow>
          (case blob of None \<Rightarrow> Err (MissingBlob TagBytes) | Some data \<Rightarrow> Ok (Bytes data))
      | TagVector \<Rightarrow>
          (case blob of
             None \<Rightarrow> Err (MissingBlob TagVector)
           | Some data \<Rightarrow>
               (case bytes_to_vector data of Inl e \<Rightarrow> Err e | Inr v \<Rightarrow> Ok (Vector v))))"

fun join_comma :: "string list \<Rightarrow> string" where
  "join_comma [] = []"
| "join_comma [s] = s"
| "join_comma (s # ss) = s @ '', '' @ join_comma ss"

fun display_string :: "'j tv_env \<Rightarrow> 'j TypedValue \<Rightarrow> string" where
  "display_string env Null = ''NULL''"
| "display_string env (Integer v) = show_i64 v"
| "display_string env (Float v) = f64_to_string env v"
| "display_string env (Bool v) = (if v then ''true'' else ''false'')"
| "display_string env (Text s) = s"
| "display_string env (Json v) = json_to_string env v"
| "display_string env (Bytes b) = ''0x'' @ hex_encode b"
| "display_string env (Vector dims) = ''['' @ join_comma (map (f64_to_string env) dims) @ '']''"

definition infer_from_string :: "'j tv_env \<Rightarrow> string \<Rightarrow> 'j TypedValue" where
  "infer_from_string env s =
     (let trimmed = trim s;
          json = (if (starts_with trimmed ''{'' \<and> ends_with trimmed ''}'') \<or>
                     (starts_with trimmed ''['' \<and> ends_with trimmed '']'')
                  then (case json_from_slice env trimmed of Inr v \<Rightarrow> Some v | Inl _ \<Rightarrow> None)
                  else None) in
      case json of
        Some v \<Rightarrow> Json v
      | None \<Rightarrow>
          if eq_ignore_ascii_case trimmed ''true'' then Bool True
          else if eq_ignore_ascii_case trimmed ''false'' then Bool False
          else (case parse_i64 trimmed of
                  Some v \<Rightarrow> Integer v
                | None \<Rightarrow>
                    (case f64_parse env trimmed of Some v \<Rightarrow> Float v | None \<Rightarrow> Text s)))"

section \<open>Lemmas\<close>

lemma from_str_tag_as_str: "from_str_tag (tag_as_str t) = Some t"
  by (cases t) (simp_all add: from_str_tag_def)

lemma from_str_tag_SomeD: "from_str_tag s = Some t \<Longrightarrow> s = tag_as_str t"
  by (auto simp: from_str_tag_def split: if_splits)

lemma length_le_bytes [simp]: "length (le_bytes n v) = n"
  by (induction n arbitrary: v) simp_all

lemma le_value_bytes: "v < 256 ^ n \<Longrightarrow> le_value (le_bytes n v) = v"
proof (induction n arbitrary: v)
  case (Suc n)
  then have "v div 256 < 256 ^ n" by (simp add: less_mult_imp_div_less mult.commute)
  with Suc.IH show ?case by simp
qed simp

lemma u64_le_roundtrip [bytes_simps]: "u64_from_le_bytes (u64_to_le_bytes w) = w"
proof -
  have "unat w < 2 ^ LENGTH(64)" by (rule unsigned_less)
  then have "unat w < 256 ^ 8" by simp
  then show ?thesis by (simp add: u64_from_le_bytes_def u64_to_le_bytes_def le_value_bytes)
qed

lemma length_u64_to_le_bytes [simp]: "length (u64_to_le_bytes w) = 8"
  by (simp add: u64_to_le_bytes_def)

lemma chunks_exact8_vector: "chunks_exact8 (vector_to_bytes dims) = map u64_to_le_bytes dims"
proof (induction dims)
  case Nil
  then show ?case by (simp add: vector_to_bytes_def chunks_exact8.simps)
next
  case (Cons d dims)
  then show ?case
    by (simp add: vector_to_bytes_def chunks_exact8.simps [of "u64_to_le_bytes d @ _"])
qed

lemma length_vector_to_bytes: "length (vector_to_bytes dims) = 8 * length dims"
  by (induction dims) (simp_all add: vector_to_bytes_def)

lemma bytes_to_vector_roundtrip: "bytes_to_vector (vector_to_bytes dims) = Ok dims"
  by (simp add: bytes_to_vector_def chunks_exact8_vector length_vector_to_bytes bytes_simps comp_def)

lemma length_chunks_exact8: "length (chunks_exact8 bs) = length bs div 8"
proof (induction bs rule: chunks_exact8.induct)
  case (1 bs)
  then show ?case
    by (cases "length bs < 8") (simp_all add: chunks_exact8.simps [of bs] le_div_geq not_less)
qed

lemma encode_blob_iff: "snd (encode H env v key) \<noteq> None \<longleftrightarrow> is_blob (tag_of v)"
  by (cases v) (simp_all add: is_blob_def Let_def)

text \<open>What the \<^verbatim>\<open>String\<close> type and the JSON crate promise of a value.\<close>

fun value_ok :: "'j tv_env \<Rightarrow> 'j TypedValue \<Rightarrow> bool" where
  "value_ok env (Text s) = utf8_valid s"
| "value_ok env (Json v) = (json_from_slice env (json_to_vec env v) = Ok v)"
| "value_ok env _ = True"

lemma decode_encode:
  assumes "value_ok env v" "encode H env v key = (c, blob)"
  shows "decode env (tag_of v) c blob = Ok v"
  using assms
  by (cases v) (auto simp: decode_def bytes_to_vector_roundtrip Let_def split: if_splits)

lemma show_i64_visible: "c \<in> set (show_i64 w) \<Longrightarrow> code c \<in> {33..127}"
  using dec_digits by (fastforce simp: show_i64_def is_digit_def split: if_splits)

lemma infer_display_integer: "infer_from_string env (display_string env (Integer w)) = Integer w"
proof -
  have t: "trim (show_i64 w) = show_i64 w"
    by (intro trim_visible ballI show_i64_visible)
  obtain c s where cs: "show_i64 w = c # s"
    by (cases "show_i64 w") (auto simp: show_i64_def split: if_splits)
  have t': "trim (c # s) = c # s" using t cs by simp
  have "c = CHR ''-'' \<or> is_digit c"
  proof (cases "sint w < 0")
    case False
    with cs have "dec (nat (sint w)) = c # s" by (simp add: show_i64_def)
    then show ?thesis using dec_digits [of c "nat (sint w)"] by simp
  qed (use cs in \<open>simp add: show_i64_def\<close>)
  then have "c \<noteq> CHR ''{''" "c \<noteq> CHR ''[''" "to_ascii_lower c = c"
    "c \<noteq> to_ascii_lower CHR ''t''" "c \<noteq> to_ascii_lower CHR ''f''"
    by (auto simp: is_digit_def to_ascii_lower_def)
  then show ?thesis
    using parse_show_i64 [of w]
    by (simp add: infer_from_string_def t' Let_def cs starts_with_def eq_ignore_ascii_case_def
        to_ascii_lowercase_def)
qed

end
