(* ===== verification/Vector_Commit.thy ===== *)
theory Vector_Commit
  imports CT6962_Proofs Typed_Value
begin

text \<open>
  Vector commitments, \<^verbatim>\<open>src/vc/\<close>: the \<^verbatim>\<open>VC\<close> trait as a locale, and its three
  implementations, the Merkle tree over the cells (\<^verbatim>\<open>binary_merkle.rs\<close>), the Pedersen
  commitment opened by revealing the vector (\<^verbatim>\<open>ipa.rs\<close>) and the pairing based polynomial
  commitment with its trusted setup artifacts (\<^verbatim>\<open>kzg.rs\<close>).

  The curves, the polynomial crate and the two SHA-2 functions are parameters: the
  records \<open>ipa_env\<close> and \<open>kzg_env\<close> name every function the source calls, and \<open>kzg_laws\<close>
  states what its documentation promises.  Everything the repository itself computes,
  including the Lagrange interpolation, is defined here.
\<close>

section \<open>The interface\<close>

text \<open>
  An honest opening of an admissible vector verifies; a binding scheme moreover accepts
  no other value, as far as the hash or group used in the two computations is free of
  collisions (\<open>unforgeable\<close>).
\<close>

locale vector_commitment =
  fixes vc_commit :: "u64 list \<Rightarrow> 'c"
    and vc_open :: "u64 list \<Rightarrow> nat \<Rightarrow> 'p"
    and vc_verify :: "'c \<Rightarrow> nat \<Rightarrow> u64 \<Rightarrow> 'p \<Rightarrow> bool"
    and admissible :: "u64 list \<Rightarrow> bool"
  assumes honest_opening:
    "admissible v \<Longrightarrow> i < length v \<Longrightarrow> vc_verify (vc_commit v) i (v ! i) (vc_open v i)"
begin

lemma all_openings_verify:
  "admissible v \<Longrightarrow> list_all (\<lambda>i. vc_verify (vc_commit v) i (v ! i) (vc_open v i)) [0..<length v]"
  by (simp add: list_all_iff honest_opening)

end

locale binding_commitment = vector_commitment +
  fixes unforgeable :: "u64 list \<Rightarrow> nat \<Rightarrow> u64 \<Rightarrow> 'p \<Rightarrow> bool"
  assumes accepted_value:
    "vc_verify (vc_commit v) i x p \<Longrightarrow> unforgeable v i x p \<Longrightarrow> i < length v \<Longrightarrow> x = v ! i"
begin

lemma no_equivocation:
  assumes "vc_verify (vc_commit v) i x p" "vc_verify (vc_commit v) i y q"
    "unforgeable v i x p" "unforgeable v i y q" "i < length v"
  shows "x = y"
  using assms accepted_value by metis

lemma opening_iff_stored:
  assumes "admissible v" "i < length v" "unforgeable v i x (vc_open v i)"
  shows "vc_verify (vc_commit v) i x (vc_open v i) \<longleftrightarrow> x = v ! i"
  using assms accepted_value honest_opening by metis

end

section \<open>Merkle tree over the cells\<close>

record BmCommitment =
  bm_root :: node_hash
  bm_leaf_count :: nat

record BmProof =
  bm_index :: nat
  bm_leaf_hash :: node_hash
  bm_path :: "node_hash list"
  bm_tree_size :: nat

definition value_payload :: "nat \<Rightarrow> u64 \<Rightarrow> bytes" where
  "value_payload i x =
     ''nucleusdb.vc.binary_merkle.leaf.v1|idx='' @ dec i @ ''|value='' @ dec (unat x)"

definition value_leaf :: "(bytes \<Rightarrow> node_hash) \<Rightarrow> nat \<Rightarrow> u64 \<Rightarrow> node_hash" where
  "value_leaf H i x = leaf_hash H (value_payload i x)"

definition value_leaves :: "(bytes \<Rightarrow> node_hash) \<Rightarrow> u64 list \<Rightarrow> node_hash list" where
  "value_leaves H v = map (\<lambda>(i, x). value_leaf H i x) (enumerate 0 v)"

definition bm_commit :: "(bytes \<Rightarrow> node_hash) \<Rightarrow> u64 list \<Rightarrow> BmCommitment" where
  "bm_commit H v =
     (let leaves = value_leaves H v
      in \<lparr>bm_root = merkle_tree_hash H leaves, bm_leaf_count = length leaves\<rparr>)"

definition bm_open :: "(bytes \<Rightarrow> node_hash) \<Rightarrow> u64 list \<Rightarrow> nat \<Rightarrow> BmProof" where
  "bm_open H v i =
     (let leaves = value_leaves H v
      in \<lparr>bm_index = i,
          bm_leaf_hash = (if i < length leaves then leaves ! i else value_leaf H i 0),
          bm_path = (case inclusion_path (node_hash H) (empty_hash H) leaves i of
                       Some path \<Rightarrow> path | None \<Rightarrow> []),
          bm_tree_size = length leaves\<rparr>)"

definition bm_verify ::
  "(bytes \<Rightarrow> node_hash) \<Rightarrow> BmCommitment \<Rightarrow> nat \<Rightarrow> u64 \<Rightarrow> BmProof \<Rightarrow> bool" where
  "bm_verify H c i x p =
     (if bm_index p \<noteq> i \<or> bm_tree_size p \<noteq> bm_leaf_count c then False
      else if bm_leaf_hash p \<noteq> value_leaf H i x then False
      else if bm_tree_size p = 0 then bm_root c = merkle_tree_hash H []
      else verify_inclusion_proof H
             \<lparr>ip_leaf_index = of_nat (bm_index p), ip_tree_size = of_nat (bm_tree_size p),
              ip_leaf_hash = bm_leaf_hash p, ip_path = bm_path p\<rparr> (bm_root c))"

definition bm_digest :: "BmCommitment \<Rightarrow> node_hash" where
  "bm_digest c = bm_root c"

section \<open>Pedersen vector commitment\<close>

record 'g ipa_env =
  ipa_sha512 :: "bytes \<Rightarrow> bytes"
  ipa_from_hash :: "bytes \<Rightarrow> 'g"
  ipa_identity :: 'g
  ipa_add :: "'g \<Rightarrow> 'g \<Rightarrow> 'g"
  ipa_smul :: "'g \<Rightarrow> u64 \<Rightarrow> 'g"
  ipa_compress :: "'g \<Rightarrow> bytes"

record IpaCommitment =
  ipa_encoded :: bytes
  ipa_len :: nat

record IpaProof =
  ipa_index :: nat
  ipa_value :: u64
  ipa_vector :: "u64 list"

definition point_digest :: "'g ipa_env \<Rightarrow> bytes \<Rightarrow> node_hash" where
  "point_digest env point = take 32 (ipa_sha512 env (''nucleusdb.ipa.digest.v1'' @ point))"

definition generator_for_index :: "'g ipa_env \<Rightarrow> nat \<Rightarrow> 'g" where
  "generator_for_index env i =
     ipa_from_hash env
       (ipa_sha512 env (''nucleusdb.ipa.generator.v1'' @ u64_to_le_bytes (of_nat i)))"

definition pedersen_vector_commit :: "'g ipa_env \<Rightarrow> u64 list \<Rightarrow> bytes" where
  "pedersen_vector_commit env v =
     ipa_compress env
       (foldl (\<lambda>acc (i, x). ipa_add env acc (ipa_smul env (generator_for_index env i) x))
          (ipa_identity env) (enumerate 0 v))"

definition ipa_commit :: "'g ipa_env \<Rightarrow> u64 list \<Rightarrow> IpaCommitment" where
  "ipa_commit env v = \<lparr>ipa_encoded = pedersen_vector_commit env v, ipa_len = length v\<rparr>"

definition ipa_open :: "u64 list \<Rightarrow> nat \<Rightarrow> IpaProof" where
  "ipa_open v i =
     \<lparr>ipa_index = i, ipa_value = (if i < length v then v ! i else 0), ipa_vector = v\<rparr>"

definition ipa_verify :: "'g ipa_env \<Rightarrow> IpaCommitment \<Rightarrow> nat \<Rightarrow> u64 \<Rightarrow> IpaProof \<Rightarrow> bool" where
  "ipa_verify env c i x p =
     (if ipa_index p \<noteq> i \<or> ipa_value p \<noteq> x then False
      else if length (ipa_vector p) \<noteq> ipa_len c then False
      else if (if i < length (ipa_vector p) then ipa_vector p ! i else 0) \<noteq> x then False
      else pedersen_vector_commit env (ipa_vector p) = ipa_encoded c)"

definition ipa_digest :: "'g ipa_env \<Rightarrow> IpaCommitment \<Rightarrow> node_hash" where
  "ipa_digest env c = point_digest env (ipa_encoded c)"

section \<open>Polynomial commitment\<close>

record ('f, 'g) MiniKzgProof =
  mk_point :: 'f
  mk_value :: 'f
  mk_proof :: 'g

record ('f, 'poly, 'srs, 'g) kzg_env =
  kzg_sha512 :: "bytes \<Rightarrow> bytes"
  fr_from :: "u64 \<Rightarrow> 'f"
  poly_zero :: 'poly
  poly_new :: "'f list \<Rightarrow> 'poly"
  poly_mul :: "'poly \<Rightarrow> 'poly \<Rightarrow> 'poly"
  poly_add :: "'poly \<Rightarrow> 'poly \<Rightarrow> 'poly"
  poly_scale :: "'poly \<Rightarrow> 'f \<Rightarrow> 'poly"
  poly_coeffs :: "'poly \<Rightarrow> 'f list"
  poly_eval :: "'poly \<Rightarrow> 'f \<Rightarrow> 'f"
  kzg_setup :: "nat \<Rightarrow> 'f \<Rightarrow> 'srs"
  srs_commit :: "'srs \<Rightarrow> 'poly \<Rightarrow> 'g"
  srs_open :: "'srs \<Rightarrow> 'poly \<Rightarrow> 'f \<Rightarrow> ('f, 'g) MiniKzgProof"
  srs_verify :: "'srs \<Rightarrow> 'g \<Rightarrow> ('f, 'g) MiniKzgProof \<Rightarrow> bool"
  g1_serialize :: "'g \<Rightarrow> bytes"
  g1_deserialize :: "bytes \<Rightarrow> 'g option"

record KzgCommitment =
  kzg_encoded :: bytes
  kzg_degree :: nat

record KzgProof =
  kp_index :: nat
  kp_value :: u64
  kp_degree :: nat
  kp_proof_encoded :: bytes

record TrustedSetupArtifact =
  setup_id :: string
  curve :: string
  max_degree :: nat
  tau_seed_hex :: string
  attestation_sha512 :: string

datatype TrustedSetupError =
    Io string
  | Parse string
  | CurveMismatch string string
  | InvalidMaxDegree nat
  | InvalidTauSeedHex string
  | SetupIdMismatch string string
  | ArtifactAttestationMismatch string string
  | ExpectedAttestationMismatch string string
  | DegreeExceedsSetup nat nat

definition domain_point :: "('f, 'poly, 'srs, 'g) kzg_env \<Rightarrow> nat \<Rightarrow> 'f" where
  "domain_point env i = fr_from env (of_nat i + 1)"

text \<open>
  The inner loop over \<open>m\<close> builds the basis polynomial and its denominator; \<^verbatim>\<open>continue\<close>
  skips the index of the point itself.
\<close>

definition basis_step ::
  "('f::field, 'poly, 'srs, 'g) kzg_env \<Rightarrow> nat \<Rightarrow> 'poly \<times> 'f \<Rightarrow> nat \<Rightarrow> 'poly \<times> 'f" where
  "basis_step env j acc m =
     (if m = j then acc
      else (poly_mul env (fst acc) (poly_new env [- domain_point env m, fr_from env 1]),
            snd acc * (domain_point env j - domain_point env m)))"

definition lagrange_term ::
  "('f::field, 'poly, 'srs, 'g) kzg_env \<Rightarrow> nat \<Rightarrow> nat \<times> u64 \<Rightarrow> 'poly" where
  "lagrange_term env n jy =
     (let (basis, denom) = foldl (basis_step env (fst jy))
            (poly_new env [fr_from env 1], fr_from env 1) [0..<n];
          inv = (if denom = 0 then fr_from env 0 else inverse denom)
      in poly_scale env basis (fr_from env (snd jy) * inv))"

definition interpolate_vector ::
  "('f::field, 'poly, 'srs, 'g) kzg_env \<Rightarrow> u64 list \<Rightarrow> 'poly" where
  "interpolate_vector env vs =
     (if vs = [] then poly_zero env
      else foldl (\<lambda>poly jy. poly_add env poly (lagrange_term env (length vs) jy))
             (poly_zero env) (enumerate 0 vs))"

definition setup_with_degree :: "('f, 'poly, 'srs, 'g) kzg_env \<Rightarrow> nat \<Rightarrow> 'srs" where
  "setup_with_degree env degree =
     (let digest = kzg_sha512 env (''nucleusdb.kzg.setup.v1'' @ u64_to_le_bytes (of_nat degree));
          tau = fr_from env (u64_from_le_bytes (take 8 digest))
      in kzg_setup env (max degree 1) tau)"

definition setup_from_artifact ::
  "('f, 'poly, 'srs, 'g) kzg_env \<Rightarrow> nat \<Rightarrow> TrustedSetupArtifact \<Rightarrow> TrustedSetupError + 'srs" where
  "setup_from_artifact env degree artifact =
     (if max_degree artifact < degree then
        Err (DegreeExceedsSetup degree (max_degree artifact))
      else (case decode_hex_exact 8 (tau_seed_hex artifact) of
              None \<Rightarrow> Err (InvalidTauSeedHex (tau_seed_hex artifact))
            | Some tau_seed \<Rightarrow>
                Ok (kzg_setup env (max degree 1) (fr_from env (u64_from_le_bytes tau_seed)))))"

definition decode_proof ::
  "('f, 'poly, 'srs, 'g) kzg_env \<Rightarrow> nat \<Rightarrow> u64 \<Rightarrow> bytes \<Rightarrow> ('f, 'g) MiniKzgProof option" where
  "decode_proof env i x encoded =
     (case g1_deserialize env encoded of
        None \<Rightarrow> None
      | Some g1 \<Rightarrow> Some \<lparr>mk_point = domain_point env i, mk_value = fr_from env x, mk_proof = g1\<rparr>)"

definition kzg_digest_bytes :: "('f, 'poly, 'srs, 'g) kzg_env \<Rightarrow> bytes \<Rightarrow> node_hash" where
  "kzg_digest_bytes env bs = take 32 (kzg_sha512 env (''nucleusdb.kzg.digest.v1'' @ bs))"

definition attestation_input :: "string \<Rightarrow> string \<Rightarrow> nat \<Rightarrow> bytes \<Rightarrow> bytes" where
  "attestation_input sid crv deg tau_seed =
     ''nucleusdb.kzg.attestation.v1'' @ sid @ CHR 0x00 # crv @ CHR 0x00 #
       u64_to_le_bytes (of_nat deg) @ tau_seed"

definition compute_trusted_setup_attestation_hex ::
  "(bytes \<Rightarrow> bytes) \<Rightarrow> string \<Rightarrow> string \<Rightarrow> nat \<Rightarrow> string \<Rightarrow> TrustedSetupError + string" where
  "compute_trusted_setup_attestation_hex sha512 sid crv deg seed_hex =
     (case decode_hex_exact 8 seed_hex of
        None \<Rightarrow> Err (InvalidTauSeedHex seed_hex)
      | Some tau_seed \<Rightarrow> Ok (hex_encode (sha512 (attestation_input sid crv deg tau_seed))))"

definition validate_trusted_setup_artifact ::
  "(bytes \<Rightarrow> bytes) \<Rightarrow> TrustedSetupArtifact \<Rightarrow> string \<Rightarrow> string \<Rightarrow> TrustedSetupError + unit" where
  "validate_trusted_setup_artifact sha512 artifact expected_id expected_attestation =
     (if curve artifact \<noteq> ''bls12-381'' then
        Err (CurveMismatch ''bls12-381'' (curve artifact))
      else if max_degree artifact = 0 then Err (InvalidMaxDegree 0)
      else if setup_id artifact \<noteq> expected_id then
        Err (SetupIdMismatch expected_id (setup_id artifact))
      else (case compute_trusted_setup_attestation_hex sha512 (setup_id artifact)
                   (curve artifact) (max_degree artifact) (tau_seed_hex artifact) of
              Inl e \<Rightarrow> Err e
            | Inr recomputed \<Rightarrow>
                if attestation_sha512 artifact \<noteq> recomputed then
                  Err (ArtifactAttestationMismatch recomputed (attestation_sha512 artifact))
                else if attestation_sha512 artifact \<noteq> expected_attestation then
                  Err (ExpectedAttestationMismatch expected_attestation
                         (attestation_sha512 artifact))
                else Ok ()))"

text \<open>Reading the artifact file and parsing its JSON is the parameter \<open>load\<close>.\<close>

definition load_and_validate_trusted_setup ::
  "(bytes \<Rightarrow> bytes) \<Rightarrow> (string \<Rightarrow> TrustedSetupError + TrustedSetupArtifact) \<Rightarrow>
    string \<Rightarrow> string \<Rightarrow> string \<Rightarrow> TrustedSetupError + TrustedSetupArtifact" where
  "load_and_validate_trusted_setup sha512 load path expected_id expected_attestation =
     (case load path of
        Inl e \<Rightarrow> Err e
      | Inr artifact \<Rightarrow>
          (case validate_trusted_setup_artifact sha512 artifact expected_id expected_attestation of
             Inl e \<Rightarrow> Err e
           | Inr _ \<Rightarrow> Ok artifact))"

definition kzg_commit ::
  "('f::field, 'poly, 'srs, 'g) kzg_env \<Rightarrow> u64 list \<Rightarrow> KzgCommitment" where
  "kzg_commit env v =
     (let poly = interpolate_vector env v;
          degree = length (poly_coeffs env poly)
      in \<lparr>kzg_encoded = g1_serialize env (srs_commit env (setup_with_degree env degree) poly),
          kzg_degree = degree\<rparr>)"

definition kzg_open :: "('f::field, 'poly, 'srs, 'g) kzg_env \<Rightarrow> u64 list \<Rightarrow> nat \<Rightarrow> KzgProof" where
  "kzg_open env v i =
     (let poly = interpolate_vector env v;
          degree = length (poly_coeffs env poly);
          pf = srs_open env (setup_with_degree env degree) poly (domain_point env i)
      in \<lparr>kp_index = i, kp_value = (if i < length v then v ! i else 0), kp_degree = degree,
          kp_proof_encoded = g1_serialize env (mk_proof pf)\<rparr>)"

text \<open>The shared tail of \<^verbatim>\<open>verify\<close> and \<^verbatim>\<open>verify_trusted\<close>, once the setup is there.\<close>

definition kzg_check ::
  "('f, 'poly, 'srs, 'g) kzg_env \<Rightarrow> 'srs \<Rightarrow> KzgCommitment \<Rightarrow> nat \<Rightarrow> u64 \<Rightarrow> KzgProof \<Rightarrow> bool" where
  "kzg_check env ceremony c i x p =
     (case g1_deserialize env (kzg_encoded c) of
        None \<Rightarrow> False
      | Some commitment \<Rightarrow>
          (case decode_proof env (kp_index p) (kp_value p) (kp_proof_encoded p) of
             None \<Rightarrow> False
           | Some pf \<Rightarrow>
               if mk_point pf \<noteq> domain_point env i \<or> mk_value pf \<noteq> fr_from env x then False
               else srs_verify env ceremony commitment pf))"

definition kzg_verify ::
  "('f, 'poly, 'srs, 'g) kzg_env \<Rightarrow> KzgCommitment \<Rightarrow> nat \<Rightarrow> u64 \<Rightarrow> KzgProof \<Rightarrow> bool" where
  "kzg_verify env c i x p =
     (if kp_index p \<noteq> i \<or> kp_value p \<noteq> x then False
      else if kp_degree p \<noteq> kzg_degree c then False
      else kzg_check env (setup_with_degree env (kzg_degree c)) c i x p)"

definition kzg_digest :: "('f, 'poly, 'srs, 'g) kzg_env \<Rightarrow> KzgCommitment \<Rightarrow> node_hash" where
  "kzg_digest env c = kzg_digest_bytes env (kzg_encoded c)"

definition commit_trusted ::
  "('f::field, 'poly, 'srs, 'g) kzg_env \<Rightarrow> u64 list \<Rightarrow> TrustedSetupArtifact \<Rightarrow>
    TrustedSetupError + KzgCommitment" where
  "commit_trusted env v setup =
     (let poly = interpolate_vector env v;
          degree = length (poly_coeffs env poly)
      in case setup_from_artifact env degree setup of
           Inl e \<Rightarrow> Err e
         | Inr ceremony \<Rightarrow>
             Ok \<lparr>kzg_encoded = g1_serialize env (srs_commit env ceremony poly),
                 kzg_degree = degree\<rparr>)"

definition open_trusted ::
  "('f::field, 'poly, 'srs, 'g) kzg_env \<Rightarrow> u64 list \<Rightarrow> nat \<Rightarrow> TrustedSetupArtifact \<Rightarrow>
    TrustedSetupError + KzgProof" where
  "open_trusted env v i setup =
     (let poly = interpolate_vector env v;
          degree = length (poly_coeffs env poly)
      in case setup_from_artifact env degree setup of
           Inl e \<Rightarrow> Err e
         | Inr ceremony \<Rightarrow>
             Ok \<lparr>kp_index = i, kp_value = (if i < length v then v ! i else 0),
                 kp_degree = degree,
                 kp_proof_encoded =
                   g1_serialize env (mk_proof (srs_open env ceremony poly (domain_point env i)))\<rparr>)"

definition verify_trusted ::
  "('f, 'poly, 'srs, 'g) kzg_env \<Rightarrow> KzgCommitment \<Rightarrow> nat \<Rightarrow> u64 \<Rightarrow> KzgProof \<Rightarrow>
    TrustedSetupArtifact \<Rightarrow> TrustedSetupError + bool" where
  "verify_trusted env c i x p setup =
     (if kp_index p \<noteq> i \<or> kp_value p \<noteq> x then Ok False
      else if kp_degree p \<noteq> kzg_degree c then Ok False
      else (case setup_from_artifact env (kzg_degree c) setup of
              Inl e \<Rightarrow> Err e
            | Inr ceremony \<Rightarrow> Ok (kzg_check env ceremony c i x p)))"

section \<open>The Merkle scheme is binding\<close>

lemma length_value_leaves [simp]: "length (value_leaves H v) = length v"
  by (simp add: value_leaves_def)

lemma nth_value_leaves: "i < length v \<Longrightarrow> value_leaves H v ! i = value_leaf H i (v ! i)"
  by (simp add: value_leaves_def nth_enumerate_eq)

lemma all32_value_leaves: "digest32 H \<Longrightarrow> all32 (value_leaves H v)"
  by (auto simp: value_leaves_def value_leaf_def leaf_hash_def digest32_def all32_def list_all_iff)

lemma value_payload_inject: "value_payload i x = value_payload i y \<longleftrightarrow> x = y"
  by (simp add: value_payload_def unat_eq_64)

definition bm_inputs :: "(bytes \<Rightarrow> node_hash) \<Rightarrow> u64 list \<Rightarrow> nat \<Rightarrow> u64 \<Rightarrow> BmProof \<Rightarrow> bytes set" where
  "bm_inputs H v i x p =
     set (merkle_inputs H (value_leaves H v)) \<union>
     set (inclusion_inputs H \<lparr>ip_leaf_index = of_nat i, ip_tree_size = of_nat (length v),
            ip_leaf_hash = bm_leaf_hash p, ip_path = bm_path p\<rparr>) \<union>
     {CHR 0x00 # value_payload i x, CHR 0x00 # value_payload i (v ! i)}"

definition bm_unforgeable ::
  "(bytes \<Rightarrow> node_hash) \<Rightarrow> u64 list \<Rightarrow> nat \<Rightarrow> u64 \<Rightarrow> BmProof \<Rightarrow> bool" where
  "bm_unforgeable H v i x p \<longleftrightarrow>
     length v < 2 ^ 64 \<and> digest32 H \<and> all32 (bm_path p) \<and> inj_on H (bm_inputs H v i x p)"

lemma bm_complete:
  assumes "length v < 2 ^ 64" "i < length v"
  shows "bm_verify H (bm_commit H v) i (v ! i) (bm_open H v i)"
proof -
  let ?ls = "value_leaves H v"
  obtain pf where pf: "make_inclusion_proof H ?ls i = Some pf"
    "verify_inclusion_proof H pf (merkle_tree_hash H ?ls)"
    using inclusion_proof_complete [of i ?ls H] assms by auto
  then obtain path where "inclusion_path (node_hash H) (empty_hash H) ?ls i = Some path"
    "pf = \<lparr>ip_leaf_index = of_nat i, ip_tree_size = of_nat (length ?ls),
      ip_leaf_hash = ?ls ! i, ip_path = path\<rparr>"
    by (auto simp: make_inclusion_proof_def split: option.splits)
  with pf(2) assms show ?thesis
    by (auto simp: bm_verify_def bm_commit_def bm_open_def Let_def nth_value_leaves)
qed

lemma bm_sound:
  assumes ver: "bm_verify H (bm_commit H v) i x p" and unf: "bm_unforgeable H v i x p"
    and i: "i < length v"
  shows "x = v ! i"
proof -
  let ?pf = "\<lparr>ip_leaf_index = of_nat i, ip_tree_size = of_nat (length v),
    ip_leaf_hash = bm_leaf_hash p, ip_path = bm_path p\<rparr> :: InclusionProof"
  have 1: "verify_inclusion_proof H ?pf (merkle_tree_hash H (value_leaves H v))"
    "bm_leaf_hash p = value_leaf H i x"
    using ver i by (auto simp: bm_verify_def bm_commit_def Let_def split: if_splits)
  have u: "length v < 2 ^ 64" "digest32 H" "all32 (bm_path p)" "inj_on H (bm_inputs H v i x p)"
    using unf by (auto simp: bm_unforgeable_def)
  have "bm_leaf_hash p = value_leaves H v ! unat (of_nat i :: u64)"
    using inclusion_proof_sound [OF 1(1)] u 1(2) all32_value_leaves [OF u(2), of v]
    by (auto simp: unat_of_nat_64 all32_def value_leaf_def leaf_hash_def digest32_def bm_inputs_def
        elim!: inj_on_subset)
  then have "H (CHR 0x00 # value_payload i x) = H (CHR 0x00 # value_payload i (v ! i))"
    using 1(2) u(1) i by (simp add: unat_of_nat_64 nth_value_leaves value_leaf_def leaf_hash_def)
  then have "CHR 0x00 # value_payload i x = CHR 0x00 # value_payload i (v ! i)"
    by (rule inj_onD [OF u(4)]) (simp_all add: bm_inputs_def)
  then show ?thesis by (simp add: value_payload_inject)
qed

interpretation bm: binding_commitment "bm_commit H" "bm_open H" "bm_verify H"
  "\<lambda>v. length v < 2 ^ 64" "bm_unforgeable H" for H
  by unfold_locales (auto intro: bm_complete bm_sound)

text \<open>
  The empty vector is the exception: its commitment accepts every value at every index.
\<close>

lemma bm_empty_accepts_everything:
  "bm_verify H (bm_commit H []) i x
     \<lparr>bm_index = i, bm_leaf_hash = value_leaf H i x, bm_path = [], bm_tree_size = 0\<rparr>"
  by (simp add: bm_verify_def bm_commit_def value_leaves_def)

section \<open>The Pedersen scheme is binding\<close>

text \<open>Two vectors of one length do not have the same commitment.\<close>

definition ipa_unforgeable :: "'g ipa_env \<Rightarrow> u64 list \<Rightarrow> nat \<Rightarrow> u64 \<Rightarrow> IpaProof \<Rightarrow> bool" where
  "ipa_unforgeable env v i x p \<longleftrightarrow> inj_on (pedersen_vector_commit env) {v, ipa_vector p}"

lemma ipa_sound:
  assumes "ipa_verify env (ipa_commit env v) i x p" "ipa_unforgeable env v i x p"
  shows "ipa_vector p = v \<and> x = (if i < length v then v ! i else 0)"
proof -
  have "pedersen_vector_commit env (ipa_vector p) = pedersen_vector_commit env v"
    using assms(1) by (simp add: ipa_verify_def ipa_commit_def split: if_splits)
  then have "ipa_vector p = v"
    using assms(2) by (auto simp: ipa_unforgeable_def dest: inj_onD)
  with assms(1) show ?thesis
    by (auto simp: ipa_verify_def split: if_splits)
qed

interpretation ipa: binding_commitment "ipa_commit env" ipa_open "ipa_verify env"
  "\<lambda>v. True" "ipa_unforgeable env" for env
  by unfold_locales
     (simp add: ipa_verify_def ipa_commit_def ipa_open_def, metis ipa_sound)

section \<open>The polynomial scheme is complete\<close>

text \<open>
  What the crates document: \<^verbatim>\<open>Fr::from\<close> embeds the 64 bit integers into the scalar field,
  the polynomial operations are the ring operations as seen by evaluation, points survive
  serialisation, and an opening made by a setup of sufficient degree verifies against the
  commitment made by the same setup.
\<close>

definition kzg_laws :: "('f::field, 'poly, 'srs, 'g) kzg_env \<Rightarrow> bool" where
  "kzg_laws env \<longleftrightarrow>
     inj (fr_from env) \<and> fr_from env 0 = 0 \<and> fr_from env 1 = 1 \<and>
     (\<forall>x. poly_eval env (poly_zero env) x = 0) \<and>
     (\<forall>a x. poly_eval env (poly_new env [a]) x = a) \<and>
     (\<forall>a b x. poly_eval env (poly_new env [a, b]) x = a + b * x) \<and>
     (\<forall>p q x. poly_eval env (poly_mul env p q) x = poly_eval env p x * poly_eval env q x) \<and>
     (\<forall>p q x. poly_eval env (poly_add env p q) x = poly_eval env p x + poly_eval env q x) \<and>
     (\<forall>p c x. poly_eval env (poly_scale env p c) x = poly_eval env p x * c) \<and>
     (\<forall>g. g1_deserialize env (g1_serialize env g) = Some g) \<and>
     (\<forall>d tau p x. length (poly_coeffs env p) \<le> d \<longrightarrow>
        srs_verify env (kzg_setup env d tau) (srs_commit env (kzg_setup env d tau) p)
          \<lparr>mk_point = x, mk_value = poly_eval env p x,
           mk_proof = mk_proof (srs_open env (kzg_setup env d tau) p x)\<rparr>)"

lemma kzg_lawsD:
  assumes "kzg_laws env"
  shows "inj (fr_from env)" "fr_from env 0 = 0" "fr_from env 1 = 1"
    "poly_eval env (poly_zero env) x = 0"
    "poly_eval env (poly_new env [a]) x = a"
    "poly_eval env (poly_new env [a, b]) x = a + b * x"
    "poly_eval env (poly_mul env p q) x = poly_eval env p x * poly_eval env q x"
    "poly_eval env (poly_add env p q) x = poly_eval env p x + poly_eval env q x"
    "poly_eval env (poly_scale env p c) x = poly_eval env p x * c"
    "g1_deserialize env (g1_serialize env g) = Some g"
    "length (poly_coeffs env p) \<le> d \<Longrightarrow>
       srs_verify env (kzg_setup env d tau) (srs_commit env (kzg_setup env d tau) p)
          \<lparr>mk_point = x, mk_value = poly_eval env p x,
           mk_proof = mk_proof (srs_open env (kzg_setup env d tau) p x)\<rparr>"
  using assms by (simp_all add: kzg_laws_def)

lemma domain_point_inject:
  assumes "kzg_laws env" "i < 2 ^ 64" "j < 2 ^ 64"
  shows "domain_point env i = domain_point env j \<longleftrightarrow> i = j"
proof
  assume "domain_point env i = domain_point env j"
  then have "of_nat i + 1 = (of_nat j + 1 :: u64)"
    by (intro injD [OF kzg_lawsD(1) [OF assms(1)]]) (simp add: domain_point_def)
  then have "(of_nat i :: u64) = of_nat j" by simp
  then show "i = j" using assms(2,3) by (metis unat_of_nat_64)
qed simp

lemma basis_fold:
  assumes "kzg_laws env"
  shows "poly_eval env (fst (foldl (basis_step env j) (p, d) ms)) x =
      poly_eval env p x * (\<Prod>m\<leftarrow>filter (\<lambda>m. m \<noteq> j) ms. x - domain_point env m) \<and>
    snd (foldl (basis_step env j) (p, d) ms) =
      d * (\<Prod>m\<leftarrow>filter (\<lambda>m. m \<noteq> j) ms. domain_point env j - domain_point env m)"
proof (induction ms arbitrary: p d)
  case (Cons m ms)
  then show ?case
    by (simp add: basis_step_def kzg_lawsD [OF assms] algebra_simps)
qed simp

lemma lagrange_term_eval:
  assumes "kzg_laws env" "i < n" "j < n" "n \<le> 2 ^ 64"
  shows "poly_eval env (lagrange_term env n (j, y)) (domain_point env i) =
    (if i = j then fr_from env y else 0)"
proof -
  let ?ms = "filter (\<lambda>m. m \<noteq> j) [0..<n]" and ?dp = "domain_point env"
  have e: "poly_eval env (lagrange_term env n (j, y)) (?dp i) =
      (\<Prod>m\<leftarrow>?ms. ?dp i - ?dp m) *
        (fr_from env y * (if (\<Prod>m\<leftarrow>?ms. ?dp j - ?dp m) = 0 then 0
           else inverse (\<Prod>m\<leftarrow>?ms. ?dp j - ?dp m)))"
    using basis_fold [OF assms(1), of j "poly_new env [fr_from env 1]" "fr_from env 1" "[0..<n]"]
    by (simp add: lagrange_term_def case_prod_beta Let_def kzg_lawsD [OF assms(1)])
  show ?thesis
  proof (cases "i = j")
    case True
    have "(\<Prod>m\<leftarrow>?ms. ?dp j - ?dp m) \<noteq> 0"
      using assms by (auto simp: prod_list_zero_iff domain_point_inject [OF assms(1)])
    with True show ?thesis by (simp add: e [unfolded True])
  next
    case False
    then have "(\<Prod>m\<leftarrow>?ms. ?dp i - ?dp m) = 0"
      using assms(2) by (auto simp: prod_list_zero_iff)
    with False show ?thesis by (simp add: e)
  qed
qed

lemma eval_foldl_add:
  assumes "kzg_laws env"
  shows "poly_eval env (foldl (\<lambda>p t. poly_add env p (f t)) p0 ts) x =
    poly_eval env p0 x + (\<Sum>t\<leftarrow>ts. poly_eval env (f t) x)"
  by (induction ts arbitrary: p0) (simp_all add: kzg_lawsD [OF assms])

lemma interpolate_vector_correct:
  assumes "kzg_laws env" "i < length vs" "length vs \<le> 2 ^ 64"
  shows "poly_eval env (interpolate_vector env vs) (domain_point env i) = fr_from env (vs ! i)"
proof -
  let ?f = "\<lambda>t. poly_eval env (lagrange_term env (length vs) t) (domain_point env i)"
  have "poly_eval env (interpolate_vector env vs) (domain_point env i) =
      (\<Sum>t\<leftarrow>enumerate 0 vs. ?f t)"
    using assms(2)
    by (auto simp: interpolate_vector_def eval_foldl_add [OF assms(1)] kzg_lawsD [OF assms(1)])
  also have "\<dots> = (\<Sum>j<length vs. ?f (j, vs ! j))"
    by (simp add: sum_list_sum_nth nth_enumerate_eq atLeast0LessThan)
  also have "\<dots> = (\<Sum>j<length vs. if i = j then fr_from env (vs ! j) else 0)"
    using assms by (intro sum.cong) (simp_all add: lagrange_term_eval)
  also have "\<dots> = fr_from env (vs ! i)"
    using assms(2) by simp
  finally show ?thesis .
qed

lemma kzg_check_opening:
  assumes "kzg_laws env" "i < length v" "length v \<le> 2 ^ 64"
    and s: "s = kzg_setup env d tau" "length (poly_coeffs env poly) \<le> d"
    and poly: "poly = interpolate_vector env v"
    and c: "kzg_encoded c = g1_serialize env (srs_commit env s poly)"
    and p: "kp_index p = i" "kp_value p = v ! i"
      "kp_proof_encoded p = g1_serialize env (mk_proof (srs_open env s poly (domain_point env i)))"
  shows "kzg_check env s c i (v ! i) p"
  using kzg_lawsD(11) [OF assms(1) s(2), of tau "domain_point env i"] assms(1-3)
  by (simp add: kzg_check_def decode_proof_def c p s(1) poly kzg_lawsD [OF assms(1)]
      interpolate_vector_correct)

interpretation kzg: vector_commitment "kzg_commit env" "kzg_open env" "kzg_verify env"
  "\<lambda>v. kzg_laws env \<and> length v \<le> 2 ^ 64" for env :: "('f::field, 'poly, 'srs, 'g) kzg_env"
  by unfold_locales
     (auto simp: kzg_verify_def kzg_open_def kzg_commit_def Let_def setup_with_degree_def
       intro!: kzg_check_opening)

lemma trusted_opening_verifies:
  assumes "kzg_laws env" "i < length v" "length v \<le> 2 ^ 64" "commit_trusted env v setup = Ok c"
  shows "\<exists>p. open_trusted env v i setup = Ok p \<and> verify_trusted env c i (v ! i) p setup = Ok True"
proof -
  let ?poly = "interpolate_vector env v"
  let ?d = "length (poly_coeffs env ?poly)"
  obtain tau where s: "setup_from_artifact env ?d setup = Ok (kzg_setup env (max ?d 1) tau)"
    and c: "c = \<lparr>kzg_encoded = g1_serialize env (srs_commit env (kzg_setup env (max ?d 1) tau) ?poly),
      kzg_degree = ?d\<rparr>"
    using assms(4)
    by (auto simp: commit_trusted_def setup_from_artifact_def Let_def split: if_splits option.splits)
  then show ?thesis
    using assms(1-3)
    by (auto simp: open_trusted_def verify_trusted_def Let_def intro!: kzg_check_opening)
qed

section \<open>An accepted setup artifact is the attested one\<close>

definition artifact_input :: "TrustedSetupArtifact \<Rightarrow> bytes" where
  "artifact_input a = attestation_input (setup_id a) (curve a) (max_degree a)
     (the (decode_hex_exact 8 (tau_seed_hex a)))"

lemma validate_artifact_okD:
  assumes "validate_trusted_setup_artifact sha512 a sid att = Ok ()"
  shows "curve a = ''bls12-381'' \<and> setup_id a = sid \<and> 0 < max_degree a \<and>
    decode_hex_exact 8 (tau_seed_hex a) \<noteq> None \<and> hex_encode (sha512 (artifact_input a)) = att"
  using assms
  by (auto simp: validate_trusted_setup_artifact_def compute_trusted_setup_attestation_hex_def
      artifact_input_def split: if_splits option.splits sum.splits)

lemma attestation_binding:
  assumes "validate_trusted_setup_artifact sha512 a sid att = Ok ()"
    "validate_trusted_setup_artifact sha512 b sid att = Ok ()"
    "inj_on sha512 {artifact_input a, artifact_input b}"
    "max_degree a < 2 ^ 64" "max_degree b < 2 ^ 64"
  shows "max_degree a = max_degree b \<and>
    decode_hex_exact 8 (tau_seed_hex a) = decode_hex_exact 8 (tau_seed_hex b)"
proof -
  note ab = validate_artifact_okD [OF assms(1)] validate_artifact_okD [OF assms(2)]
  then have "sha512 (artifact_input a) = sha512 (artifact_input b)"
    by (metis hex_encode_inject)
  then have "artifact_input a = artifact_input b"
    using assms(3) by (auto dest: inj_onD)
  then have "u64_to_le_bytes (of_nat (max_degree a)) = u64_to_le_bytes (of_nat (max_degree b))"
    "the (decode_hex_exact 8 (tau_seed_hex a)) = the (decode_hex_exact 8 (tau_seed_hex b))"
    using ab by (auto simp: artifact_input_def attestation_input_def)
  then show ?thesis
    using ab assms(4,5) by (metis option.collapse u64_le_roundtrip unat_of_nat_64)
qed

end
