(* ===== verification/Witness.thy ===== *)
theory Witness
  imports Rust_Text Hex
begin

text \<open>
  \<^verbatim>\<open>src/witness.rs\<close>: witness keys, signatures under two algorithms and the quorum check.

  The Ed25519 and ML-DSA crates and SHA-512 are parameters (\<open>sig_env\<close>), with keys and
  signatures represented by their encodings; \<open>sig_laws\<close> is the correctness both schemes
  document: a signature made with a key verifies under the matching verifying key.
\<close>

datatype WitnessSignatureAlgorithm = Ed25519 | MlDsa65

definition as_tag :: "WitnessSignatureAlgorithm \<Rightarrow> string" where
  "as_tag a = (case a of Ed25519 \<Rightarrow> ''ed25519'' | MlDsa65 \<Rightarrow> ''ml_dsa65'')"

definition from_tag :: "string \<Rightarrow> WitnessSignatureAlgorithm option" where
  "from_tag tag =
     (if tag = ''ed25519'' then Some Ed25519
      else if tag = ''ml_dsa65'' then Some MlDsa65
      else None)"

datatype WitnessKeyMaterialSource = EnvMasterSeed | ProvidedMasterSeed | InsecureDefaultSeed

record sig_env =
  sig_sha512 :: "bytes \<Rightarrow> bytes"
  ed_verifying_key :: "bytes \<Rightarrow> bytes"
  ed_sign :: "bytes \<Rightarrow> bytes \<Rightarrow> bytes"
  ed_verify :: "bytes \<Rightarrow> bytes \<Rightarrow> bytes \<Rightarrow> bool"
  ml_signing_key :: "bytes \<Rightarrow> bytes"
  ml_verifying_key :: "bytes \<Rightarrow> bytes"
  ml_sign :: "bytes \<Rightarrow> bytes \<Rightarrow> bytes option"
  ml_decode :: "bytes \<Rightarrow> bytes option"
  ml_verify :: "bytes \<Rightarrow> bytes \<Rightarrow> bytes \<Rightarrow> bool"

text \<open>\<^verbatim>\<open>BTreeSet\<close> of algorithms: membership and emptiness are all the source uses.\<close>

record WitnessConfig =
  threshold :: nat
  witnesses :: "string list"
  signing_algorithm :: WitnessSignatureAlgorithm
  key_material_source :: WitnessKeyMaterialSource
  allowed_algorithms :: "WitnessSignatureAlgorithm list"
  ed25519_verifying_keys :: "(string, bytes) btree_map"
  ed25519_signing_keys :: "(string, bytes) btree_map"
  mldsa65_verifying_keys :: "(string, bytes) btree_map"
  mldsa65_signing_keys :: "(string, bytes) btree_map"

datatype WitnessError =
    MissingSigningKey string
  | MissingVerifyingKey string
  | MissingMlDsaSigningKey string
  | MissingMlDsaVerifyingKey string
  | InvalidSignatureHex
  | InvalidMlDsaSignatureHex
  | MlDsaSigningFailed
  | UnknownAlgorithmTag string

section \<open>Key derivation\<close>

definition ed_sk_bytes :: "sig_env \<Rightarrow> string \<Rightarrow> string \<Rightarrow> bytes" where
  "ed_sk_bytes env seed w =
     take 32 (sig_sha512 env (''nucleusdb.witness.sk.v2|ed25519'' @ seed @ CHR 0x00 # w))"

definition ml_seed_bytes :: "sig_env \<Rightarrow> string \<Rightarrow> string \<Rightarrow> bytes" where
  "ml_seed_bytes env seed w =
     take 32 (sig_sha512 env (''nucleusdb.witness.sk.v2|ml_dsa65'' @ seed @ CHR 0x00 # w))"

text \<open>The loop that fills the four key maps: one insertion per witness and map.\<close>

definition key_table :: "(string \<Rightarrow> bytes) \<Rightarrow> string list \<Rightarrow> (string, bytes) btree_map" where
  "key_table f ws = foldl (\<lambda>m w. bt_insert w (f w) m) [] ws"

text \<open>\<^verbatim>\<open>str::split(',')\<close>.\<close>

fun split_comma :: "string \<Rightarrow> string list" where
  "split_comma [] = [[]]"
| "split_comma (c # cs) =
     (if c = CHR '','' then [] # split_comma cs
      else (case split_comma cs of [] \<Rightarrow> [[c]] | t # ts \<Rightarrow> (c # t) # ts))"

definition parse_allowed :: "string option \<Rightarrow> WitnessSignatureAlgorithm list" where
  "parse_allowed var =
     (let parsed = map_option (\<lambda>csv. List.map_filter (\<lambda>tok. from_tag (trim tok)) (split_comma csv)) var
      in case parsed of
           Some algs \<Rightarrow> if algs = [] then [Ed25519, MlDsa65] else algs
         | None \<Rightarrow> [Ed25519, MlDsa65])"

text \<open>
  The environment variable \<^verbatim>\<open>NUCLEUSDB_WITNESS_ALLOWED_ALGORITHMS\<close> is the argument
  \<open>allowed_var\<close>.
\<close>

definition with_seed_algorithm_source ::
  "sig_env \<Rightarrow> string option \<Rightarrow> nat \<Rightarrow> string list \<Rightarrow> string \<Rightarrow> WitnessSignatureAlgorithm \<Rightarrow>
    WitnessKeyMaterialSource \<Rightarrow> WitnessConfig" where
  "with_seed_algorithm_source env allowed_var thr ws seed alg src =
     (let allowed = parse_allowed allowed_var
      in \<lparr>threshold = thr, witnesses = ws, signing_algorithm = alg, key_material_source = src,
          allowed_algorithms = (if alg \<in> set allowed then allowed else alg # allowed),
          ed25519_verifying_keys = key_table (\<lambda>w. ed_verifying_key env (ed_sk_bytes env seed w)) ws,
          ed25519_signing_keys = key_table (ed_sk_bytes env seed) ws,
          mldsa65_verifying_keys = key_table (\<lambda>w. ml_verifying_key env (ml_seed_bytes env seed w)) ws,
          mldsa65_signing_keys = key_table (\<lambda>w. ml_signing_key env (ml_seed_bytes env seed w)) ws\<rparr>)"

definition with_seed ::
  "sig_env \<Rightarrow> string option \<Rightarrow> nat \<Rightarrow> string list \<Rightarrow> string \<Rightarrow> WitnessConfig" where
  "with_seed env allowed_var thr ws seed =
     with_seed_algorithm_source env allowed_var thr ws seed MlDsa65 ProvidedMasterSeed"

definition with_seed_and_algorithm ::
  "sig_env \<Rightarrow> string option \<Rightarrow> nat \<Rightarrow> string list \<Rightarrow> string \<Rightarrow> WitnessSignatureAlgorithm \<Rightarrow>
    WitnessConfig" where
  "with_seed_and_algorithm env allowed_var thr ws seed alg =
     with_seed_algorithm_source env allowed_var thr ws seed alg ProvidedMasterSeed"

text \<open>The environment variables of the master seed and of the algorithm are arguments.\<close>

definition with_generated_keys ::
  "sig_env \<Rightarrow> string option \<Rightarrow> string option \<Rightarrow> string option \<Rightarrow> nat \<Rightarrow> string list \<Rightarrow>
    WitnessConfig" where
  "with_generated_keys env seed_var alg_var allowed_var thr ws =
     (let (seed, src) = (case seed_var of
            Some s \<Rightarrow> (s, EnvMasterSeed)
          | None \<Rightarrow> (''nucleusdb.dev.witness.seed.v1'', InsecureDefaultSeed));
          alg = (case alg_var of
            Some tag \<Rightarrow> (case from_tag (trim tag) of Some a \<Rightarrow> a | None \<Rightarrow> MlDsa65)
          | None \<Rightarrow> MlDsa65)
      in with_seed_algorithm_source env allowed_var thr ws seed alg src)"

section \<open>Signing and verifying\<close>

definition hex_decode_exact :: "nat \<Rightarrow> string \<Rightarrow> WitnessError + bytes" where
  "hex_decode_exact n hex =
     (case decode_hex_exact n hex of Some bs \<Rightarrow> Ok bs | None \<Rightarrow> Err InvalidSignatureHex)"

definition hex_decode_dynamic :: "string \<Rightarrow> WitnessError + bytes" where
  "hex_decode_dynamic hex =
     (if odd (length hex) then Err InvalidSignatureHex
      else (case hex_pairs hex of Some bs \<Rightarrow> Ok bs | None \<Rightarrow> Err InvalidSignatureHex))"

definition parse_algorithm_tag :: "string \<Rightarrow> WitnessError + WitnessSignatureAlgorithm" where
  "parse_algorithm_tag tag =
     (case from_tag tag of Some a \<Rightarrow> Ok a | None \<Rightarrow> Err (UnknownAlgorithmTag tag))"

definition default_algorithm_tag :: string where
  "default_algorithm_tag = ''ed25519''"

definition sign_message_with_algorithm ::
  "sig_env \<Rightarrow> WitnessConfig \<Rightarrow> WitnessSignatureAlgorithm \<Rightarrow> string \<Rightarrow> string \<Rightarrow>
    WitnessError + string" where
  "sign_message_with_algorithm env cfg alg w msg =
     (case alg of
        Ed25519 \<Rightarrow>
          (case bt_get (ed25519_signing_keys cfg) w of
             None \<Rightarrow> Err (MissingSigningKey w)
           | Some sk \<Rightarrow> Ok (hex_encode (ed_sign env sk msg)))
      | MlDsa65 \<Rightarrow>
          (case bt_get (mldsa65_signing_keys cfg) w of
             None \<Rightarrow> Err (MissingMlDsaSigningKey w)
           | Some sk \<Rightarrow>
               (case ml_sign env sk msg of
                  None \<Rightarrow> Err MlDsaSigningFailed
                | Some sig \<Rightarrow> Ok (hex_encode sig))))"

definition sign_message ::
  "sig_env \<Rightarrow> WitnessConfig \<Rightarrow> string \<Rightarrow> string \<Rightarrow> WitnessError + string" where
  "sign_message env cfg w msg = sign_message_with_algorithm env cfg (signing_algorithm cfg) w msg"

definition verify_signature_with_algorithm ::
  "sig_env \<Rightarrow> WitnessConfig \<Rightarrow> WitnessSignatureAlgorithm \<Rightarrow> string \<Rightarrow> string \<Rightarrow> string \<Rightarrow>
    WitnessError + bool" where
  "verify_signature_with_algorithm env cfg alg w msg sig_hex =
     (case alg of
        Ed25519 \<Rightarrow>
          (case bt_get (ed25519_verifying_keys cfg) w of
             None \<Rightarrow> Err (MissingVerifyingKey w)
           | Some vk \<Rightarrow>
               (case hex_decode_exact 64 sig_hex of
                  Inl e \<Rightarrow> Err e
                | Inr sig \<Rightarrow> Ok (ed_verify env vk msg sig)))
      | MlDsa65 \<Rightarrow>
          (case bt_get (mldsa65_verifying_keys cfg) w of
             None \<Rightarrow> Err (MissingMlDsaVerifyingKey w)
           | Some vk \<Rightarrow>
               (case hex_decode_dynamic sig_hex of
                  Inl _ \<Rightarrow> Err InvalidMlDsaSignatureHex
                | Inr sig_bytes \<Rightarrow>
                    (case ml_decode env sig_bytes of
                       None \<Rightarrow> Err InvalidMlDsaSignatureHex
                     | Some sig \<Rightarrow> Ok (ml_verify env vk msg sig)))))"

definition verify_signature ::
  "sig_env \<Rightarrow> WitnessConfig \<Rightarrow> string \<Rightarrow> string \<Rightarrow> string \<Rightarrow> WitnessError + bool" where
  "verify_signature env cfg w msg sig_hex =
     verify_signature_with_algorithm env cfg (signing_algorithm cfg) w msg sig_hex"

definition quorum_step ::
  "sig_env \<Rightarrow> WitnessConfig \<Rightarrow> WitnessSignatureAlgorithm \<Rightarrow> string \<Rightarrow> string list \<Rightarrow>
    string \<times> string \<Rightarrow> string list" where
  "quorum_step env cfg alg msg ok_unique ws =
     (if fst ws \<notin> set (witnesses cfg) then ok_unique
      else if verify_signature_with_algorithm env cfg alg (fst ws) msg (snd ws) = Ok True
        then bs_insert (fst ws) ok_unique
        else ok_unique)"

definition verify_quorum_for_algorithm ::
  "sig_env \<Rightarrow> WitnessConfig \<Rightarrow> WitnessSignatureAlgorithm \<Rightarrow> string \<Rightarrow> (string \<times> string) list \<Rightarrow>
    bool" where
  "verify_quorum_for_algorithm env cfg alg msg sigs =
     (if alg \<notin> set (allowed_algorithms cfg) then False
      else threshold cfg \<le> length (foldl (quorum_step env cfg alg msg) [] sigs))"

definition verify_quorum ::
  "sig_env \<Rightarrow> WitnessConfig \<Rightarrow> string \<Rightarrow> (string \<times> string) list \<Rightarrow> bool" where
  "verify_quorum env cfg msg sigs =
     verify_quorum_for_algorithm env cfg (signing_algorithm cfg) msg sigs"

text \<open>The loop in \<^verbatim>\<open>commit\<close> that signs with the first witnesses and stops at an error.\<close>

fun sign_all ::
  "sig_env \<Rightarrow> WitnessConfig \<Rightarrow> string \<Rightarrow> string list \<Rightarrow> WitnessError + (string \<times> string) list" where
  "sign_all env cfg msg [] = Ok []"
| "sign_all env cfg msg (w # ws) =
     (case sign_message env cfg w msg of
        Inl e \<Rightarrow> Err e
      | Inr sig \<Rightarrow>
          (case sign_all env cfg msg ws of
             Inl e \<Rightarrow> Err e
           | Inr sigs \<Rightarrow> Ok ((w, sig) # sigs)))"

section \<open>The quorum counts distinct witnesses\<close>

lemma as_tag_roundtrip: "from_tag (as_tag a) = Some a"
  by (cases a) (simp_all add: from_tag_def as_tag_def)

lemma from_tag_SomeD: "from_tag t = Some a \<Longrightarrow> t = as_tag a"
  by (auto simp: from_tag_def as_tag_def split: if_splits)

definition valid_signers ::
  "sig_env \<Rightarrow> WitnessConfig \<Rightarrow> WitnessSignatureAlgorithm \<Rightarrow> string \<Rightarrow> (string \<times> string) list \<Rightarrow>
    string set" where
  "valid_signers env cfg alg msg sigs =
     {w \<in> set (witnesses cfg). \<exists>sig. (w, sig) \<in> set sigs \<and>
        verify_signature_with_algorithm env cfg alg w msg sig = Ok True}"

lemma quorum_fold:
  "sorted_wrt (<) (foldl (quorum_step env cfg alg msg) [] sigs) \<and>
   set (foldl (quorum_step env cfg alg msg) [] sigs) = valid_signers env cfg alg msg sigs"
proof (induction sigs rule: rev_induct)
  case (snoc ws sigs)
  then show ?case
    by (cases ws) (auto simp: quorum_step_def valid_signers_def)
qed (simp add: valid_signers_def)

lemma quorum_iff:
  "verify_quorum_for_algorithm env cfg alg msg sigs \<longleftrightarrow>
    alg \<in> set (allowed_algorithms cfg) \<and> threshold cfg \<le> card (valid_signers env cfg alg msg sigs)"
  using quorum_fold [of env cfg alg msg sigs]
  by (auto simp: verify_quorum_for_algorithm_def strict_sorted_iff dest!: distinct_card)

lemma finite_valid_signers [simp]: "finite (valid_signers env cfg alg msg sigs)"
  by (simp add: valid_signers_def)

lemma valid_signers_mono:
  "set sigs \<subseteq> set sigs' \<Longrightarrow> valid_signers env cfg alg msg sigs \<subseteq> valid_signers env cfg alg msg sigs'"
  by (auto simp: valid_signers_def)

section \<open>Honest signatures verify\<close>

definition sig_laws :: "sig_env \<Rightarrow> bool" where
  "sig_laws env \<longleftrightarrow>
     (\<forall>sk m. length (ed_sign env sk m) = 64 \<and>
        ed_verify env (ed_verifying_key env sk) m (ed_sign env sk m)) \<and>
     (\<forall>seed m sig. ml_sign env (ml_signing_key env seed) m = Some sig \<longrightarrow>
        (\<exists>s. ml_decode env sig = Some s \<and> ml_verify env (ml_verifying_key env seed) m s))"

text \<open>The key maps of a configuration come from one derivation per witness.\<close>

definition keys_match :: "sig_env \<Rightarrow> WitnessConfig \<Rightarrow> bool" where
  "keys_match env cfg \<longleftrightarrow>
     (\<forall>w sk. bt_get (ed25519_signing_keys cfg) w = Some sk \<longrightarrow>
        bt_get (ed25519_verifying_keys cfg) w = Some (ed_verifying_key env sk)) \<and>
     (\<forall>w sk. bt_get (mldsa65_signing_keys cfg) w = Some sk \<longrightarrow>
        (\<exists>seed. sk = ml_signing_key env seed \<and>
           bt_get (mldsa65_verifying_keys cfg) w = Some (ml_verifying_key env seed)))"

lemma bt_get_key_table:
  "bt_get (key_table f ws) w = (if w \<in> set ws then Some (f w) else None)"
proof -
  have "bt_get (foldl (\<lambda>m w. bt_insert w (f w) m) m ws) w =
      (if w \<in> set ws then Some (f w) else bt_get m w)" for m
    by (induction ws arbitrary: m) auto
  then show ?thesis by (simp add: key_table_def)
qed

lemma keys_match_seeded: "keys_match env (with_seed_algorithm_source env var thr ws seed alg src)"
  by (auto simp: keys_match_def with_seed_algorithm_source_def Let_def bt_get_key_table
      split: if_splits)

lemma seeded_algorithm_allowed:
  "signing_algorithm (with_seed_algorithm_source env var thr ws seed alg src)
     \<in> set (allowed_algorithms (with_seed_algorithm_source env var thr ws seed alg src))"
  by (simp add: with_seed_algorithm_source_def Let_def)

lemma sign_verify:
  assumes "sig_laws env" "keys_match env cfg" "sign_message_with_algorithm env cfg alg w msg = Ok sig"
  shows "verify_signature_with_algorithm env cfg alg w msg sig = Ok True"
proof (cases alg)
  case Ed25519
  then obtain sk where "bt_get (ed25519_signing_keys cfg) w = Some sk" "sig = hex_encode (ed_sign env sk msg)"
    using assms(3) by (auto simp: sign_message_with_algorithm_def split: option.splits)
  then show ?thesis
    using assms(1,2) Ed25519
    by (simp add: verify_signature_with_algorithm_def sig_laws_def keys_match_def
        hex_decode_exact_def bytes_simps)
next
  case MlDsa65
  then obtain sk s where "bt_get (mldsa65_signing_keys cfg) w = Some sk" "ml_sign env sk msg = Some s"
    "sig = hex_encode s"
    using assms(3) by (auto simp: sign_message_with_algorithm_def split: option.splits)
  then show ?thesis
    using assms(1,2) MlDsa65
    by (fastforce simp: verify_signature_with_algorithm_def sig_laws_def keys_match_def
        hex_decode_dynamic_def bytes_simps)
qed

lemma sign_all_keys: "sign_all env cfg msg ws = Ok sigs \<Longrightarrow> map fst sigs = ws"
  by (induction ws arbitrary: sigs) (auto split: sum.splits)

lemma sign_all_member:
  "sign_all env cfg msg ws = Ok sigs \<Longrightarrow> (w, sig) \<in> set sigs \<Longrightarrow> sign_message env cfg w msg = Ok sig"
  by (induction ws arbitrary: sigs) (auto split: sum.splits)

lemma sign_all_valid_signers:
  assumes "sig_laws env" "keys_match env cfg" "sign_all env cfg msg ws = Ok sigs"
    "set ws \<subseteq> set (witnesses cfg)"
  shows "valid_signers env cfg (signing_algorithm cfg) msg sigs = set ws"
proof -
  have "set ws = fst ` set sigs"
    using sign_all_keys [OF assms(3)] by (metis list.set_map)
  moreover have "verify_signature_with_algorithm env cfg (signing_algorithm cfg) w msg sig = Ok True"
    if "(w, sig) \<in> set sigs" for w sig
    using sign_verify [OF assms(1,2)] sign_all_member [OF assms(3) that] by (simp add: sign_message_def)
  ultimately show ?thesis
    using assms(4) by (force simp: valid_signers_def)
qed

text \<open>
  The signatures a commit collects reach the threshold exactly when the first \<open>threshold\<close>
  names of the configuration are distinct.
\<close>

lemma commit_quorum_iff:
  assumes "sig_laws env" "keys_match env cfg" "signing_algorithm cfg \<in> set (allowed_algorithms cfg)"
    "threshold cfg \<le> length (witnesses cfg)"
    "sign_all env cfg msg (take (threshold cfg) (witnesses cfg)) = Ok sigs"
  shows "verify_quorum_for_algorithm env cfg (signing_algorithm cfg) msg sigs \<longleftrightarrow>
    distinct (take (threshold cfg) (witnesses cfg))"
proof -
  let ?ws = "take (threshold cfg) (witnesses cfg)"
  have "valid_signers env cfg (signing_algorithm cfg) msg sigs = set ?ws"
    using assms by (intro sign_all_valid_signers) (auto dest: in_set_takeD)
  moreover have "length ?ws = threshold cfg" using assms(4) by simp
  ultimately show ?thesis
    using assms(3) card_length [of ?ws] card_distinct [of ?ws] distinct_card [of ?ws]
    by (auto simp: quorum_iff)
qed

end
