(* ===== verification/Security.thy ===== *)
theory Security
  imports Vector_Commit Witness
begin

text \<open>
  \<^verbatim>\<open>src/commitment/mod.rs\<close> and \<^verbatim>\<open>src/security.rs\<close>: the commitment policy, the parameter set,
  reduction contracts and the checks a commit runs before and after it is built.  The
  lemmas characterise each validator by the condition it enforces, and show that the
  defaults of \<^verbatim>\<open>NucleusDb::new\<close> pass all of them.
\<close>

section \<open>Commitment policy\<close>

datatype VcProfile = PIpa | PKzg | PBinaryMerkle

record CommitmentPolicy =
  scheme_id :: string
  domain_separator :: string
  policy_max_degree :: nat

datatype CommitmentPolicyError =
    EmptySchemeId
  | EmptyDomainSeparator
  | ZeroMaxDegree
  | SchemeProfileMismatch VcProfile string
  | DegreeBoundInsufficient nat nat

fun profile_scheme_id :: "VcProfile \<Rightarrow> string" where
  "profile_scheme_id PIpa = ''ipa''"
| "profile_scheme_id PKzg = ''kzg''"
| "profile_scheme_id PBinaryMerkle = ''binary_merkle''"

fun profile_domain_separator :: "VcProfile \<Rightarrow> string" where
  "profile_domain_separator PIpa = ''nucleusdb.vc.ipa.v1''"
| "profile_domain_separator PKzg = ''nucleusdb.vc.kzg.v1''"
| "profile_domain_separator PBinaryMerkle = ''nucleusdb.vc.binary_merkle.v1''"

definition validate_commitment_policy ::
  "VcProfile \<Rightarrow> nat \<Rightarrow> CommitmentPolicy \<Rightarrow> CommitmentPolicyError + unit" where
  "validate_commitment_policy profile max_len policy =
     (if trim (scheme_id policy) = [] then Err EmptySchemeId
      else if trim (domain_separator policy) = [] then Err EmptyDomainSeparator
      else if policy_max_degree policy = 0 then Err ZeroMaxDegree
      else if scheme_id policy \<noteq> ''auto'' \<and> scheme_id policy \<noteq> profile_scheme_id profile then
        Err (SchemeProfileMismatch profile (scheme_id policy))
      else if policy_max_degree policy < max_len then
        Err (DegreeBoundInsufficient max_len (policy_max_degree policy))
      else Ok ())"

definition default_commitment_policy :: "VcProfile \<Rightarrow> nat \<Rightarrow> CommitmentPolicy" where
  "default_commitment_policy profile deg =
     \<lparr>scheme_id = profile_scheme_id profile,
      domain_separator = profile_domain_separator profile,
      policy_max_degree = deg\<rparr>"

section \<open>Parameters\<close>

datatype SecurityAssumption =
  CollisionResistance | WitnessUnforgeability | CtAppendOnly | IpaBinding | KzgTrustedSetupHolds | MerkleBinding

record ReductionContract =
  claim :: string
  assumption :: SecurityAssumption
  loss_bits :: u16
  max_queries :: u64

record ParameterSet =
  field_bits :: u16
  max_vector_len :: nat
  max_delta_writes :: nat
  max_witnesses :: nat
  min_witness_threshold :: nat
  max_witness_threshold :: nat
  require_kzg_trusted_setup :: bool
  kzg_trusted_setup_id :: "string option"
  kzg_trusted_setup_path :: "string option"
  kzg_trusted_setup_attestation_sha512 :: "string option"
  commitment_policy :: CommitmentPolicy

datatype ParameterError =
    ZeroFieldBits
  | FieldBitsTooLarge u16 u16
  | MaxVectorLenZero
  | MaxDeltaWritesZero
  | WitnessSetTooLarge nat nat
  | WitnessThresholdTooSmall nat nat
  | WitnessThresholdTooLarge nat nat
  | ThresholdExceedsWitnessSet nat nat
  | MissingKzgTrustedSetup
  | MissingKzgTrustedSetupPath
  | MissingKzgTrustedSetupAttestation
  | PolicyError CommitmentPolicyError

datatype SecurityPolicyError =
    Parameter ParameterError
  | MissingReductionContracts
  | ReductionLossTooLarge string u16
  | ReductionMaxQueriesZero string
  | KzgTrustedSetup TrustedSetupError
  | KzgSetupDegreeInsufficient string nat nat

datatype RefinementError =
    DeltaTooLarge nat nat
  | StateVectorTooLarge nat nat
  | CommitHeightMismatch u64 u64
  | PrevRootMismatch node_hash node_hash
  | SthSizeMismatch u64 u64
  | InvalidSthSignature string string

definition default_parameter_set :: ParameterSet where
  "default_parameter_set =
     \<lparr>field_bits = 64, max_vector_len = 1048576, max_delta_writes = 65536, max_witnesses = 128,
      min_witness_threshold = 1, max_witness_threshold = 128, require_kzg_trusted_setup = True,
      kzg_trusted_setup_id = Some ''demo-trusted-setup-v1'',
      kzg_trusted_setup_path = Some ''artifacts/kzg/demo-trusted-setup-v1.json'',
      kzg_trusted_setup_attestation_sha512 = Some
        (''b1ba68a25d64fb0e29348404c7ef8ece8503ae5bd2eb0d8a172ddbc726d70df6'' @
         ''94cb5f6d323e7435649c35fa365339e93b354262735da11e01c00ad8b17923f1''),
      commitment_policy = \<lparr>scheme_id = ''auto'', domain_separator = ''nucleusdb.vc.auto.v1'',
        policy_max_degree = 1048576\<rparr>\<rparr>"

fun profile_contract :: "VcProfile \<Rightarrow> ReductionContract" where
  "profile_contract PIpa =
     \<lparr>claim = ''ipa_binding'', assumption = IpaBinding, loss_bits = 24, max_queries = 1000000\<rparr>"
| "profile_contract PKzg =
     \<lparr>claim = ''kzg_binding'', assumption = KzgTrustedSetupHolds, loss_bits = 24, max_queries = 1000000\<rparr>"
| "profile_contract PBinaryMerkle =
     \<lparr>claim = ''binary_merkle_binding'', assumption = MerkleBinding, loss_bits = 24, max_queries = 1000000\<rparr>"

definition default_reduction_contracts :: "VcProfile \<Rightarrow> ReductionContract list" where
  "default_reduction_contracts profile =
     [\<lparr>claim = ''state_authentication_soundness'', assumption = CollisionResistance,
       loss_bits = 16, max_queries = 1000000\<rparr>,
      \<lparr>claim = ''ct_append_only_history'', assumption = CtAppendOnly,
       loss_bits = 8, max_queries = 1000000\<rparr>,
      \<lparr>claim = ''witness_quorum_unforgeability'', assumption = WitnessUnforgeability,
       loss_bits = 8, max_queries = 1000000\<rparr>] @ [profile_contract profile]"

section \<open>Validators\<close>

definition validate_parameters ::
  "ParameterSet \<Rightarrow> VcProfile \<Rightarrow> WitnessConfig \<Rightarrow> ParameterError + unit" where
  "validate_parameters ps profile wcfg =
     (if field_bits ps = 0 then Err ZeroFieldBits
      else if 4096 < field_bits ps then Err (FieldBitsTooLarge (field_bits ps) 4096)
      else if max_vector_len ps = 0 then Err MaxVectorLenZero
      else if max_delta_writes ps = 0 then Err MaxDeltaWritesZero
      else if max_witnesses ps < length (witnesses wcfg) then
        Err (WitnessSetTooLarge (length (witnesses wcfg)) (max_witnesses ps))
      else if threshold wcfg < min_witness_threshold ps then
        Err (WitnessThresholdTooSmall (threshold wcfg) (min_witness_threshold ps))
      else if max_witness_threshold ps < threshold wcfg then
        Err (WitnessThresholdTooLarge (threshold wcfg) (max_witness_threshold ps))
      else if length (witnesses wcfg) < threshold wcfg then
        Err (ThresholdExceedsWitnessSet (threshold wcfg) (length (witnesses wcfg)))
      else if profile = PKzg \<and> require_kzg_trusted_setup ps \<and> kzg_trusted_setup_id ps = None then
        Err MissingKzgTrustedSetup
      else if profile = PKzg \<and> require_kzg_trusted_setup ps \<and> kzg_trusted_setup_path ps = None then
        Err MissingKzgTrustedSetupPath
      else if profile = PKzg \<and> require_kzg_trusted_setup ps \<and>
              kzg_trusted_setup_attestation_sha512 ps = None then
        Err MissingKzgTrustedSetupAttestation
      else (case validate_commitment_policy profile (max_vector_len ps) (commitment_policy ps) of
              Inl e \<Rightarrow> Err (PolicyError e)
            | Inr _ \<Rightarrow> Ok ()))"

fun contracts_loop :: "ReductionContract list \<Rightarrow> SecurityPolicyError + unit" where
  "contracts_loop [] = Ok ()"
| "contracts_loop (c # cs) =
     (if 128 < loss_bits c then Err (ReductionLossTooLarge (claim c) (loss_bits c))
      else if max_queries c = 0 then Err (ReductionMaxQueriesZero (claim c))
      else contracts_loop cs)"

definition validate_reduction_contracts :: "ReductionContract list \<Rightarrow> SecurityPolicyError + unit" where
  "validate_reduction_contracts cs =
     (if cs = [] then Err MissingReductionContracts else contracts_loop cs)"

definition validate_commit_shape :: "ParameterSet \<Rightarrow> nat \<Rightarrow> nat \<Rightarrow> RefinementError + unit" where
  "validate_commit_shape ps n_writes projected_len =
     (if max_delta_writes ps < n_writes then Err (DeltaTooLarge n_writes (max_delta_writes ps))
      else if max_vector_len ps < projected_len then
        Err (StateVectorTooLarge projected_len (max_vector_len ps))
      else Ok ())"

definition verify_post_commit_refinement ::
  "(bytes \<Rightarrow> node_hash) \<Rightarrow> u64 \<Rightarrow> node_hash \<Rightarrow> u64 \<Rightarrow> node_hash \<Rightarrow> u64 \<Rightarrow> node_hash \<Rightarrow> u64 \<Rightarrow>
    string \<Rightarrow> RefinementError + unit" where
  "verify_post_commit_refinement H expected_height expected_prev e_height e_prev sz root ts sig =
     (if e_height \<noteq> expected_height then Err (CommitHeightMismatch expected_height e_height)
      else if e_prev \<noteq> expected_prev then Err (PrevRootMismatch expected_prev e_prev)
      else if sz \<noteq> expected_height then Err (SthSizeMismatch expected_height sz)
      else if sig \<noteq> sth_signature H sz root ts then
        Err (InvalidSthSignature (sth_signature H sz root ts) sig)
      else Ok ())"

section \<open>What the validators enforce\<close>

lemma validate_policy_iff:
  "validate_commitment_policy profile n policy = Ok () \<longleftrightarrow>
    trim (scheme_id policy) \<noteq> [] \<and> trim (domain_separator policy) \<noteq> [] \<and>
    scheme_id policy \<in> {''auto'', profile_scheme_id profile} \<and>
    0 < policy_max_degree policy \<and> n \<le> policy_max_degree policy"
  by (auto simp: validate_commitment_policy_def)

lemma validate_parameters_iff:
  "validate_parameters ps profile wcfg = Ok () \<longleftrightarrow>
    field_bits ps \<noteq> 0 \<and> field_bits ps \<le> 4096 \<and> 0 < max_vector_len ps \<and> 0 < max_delta_writes ps \<and>
    length (witnesses wcfg) \<le> max_witnesses ps \<and>
    min_witness_threshold ps \<le> threshold wcfg \<and> threshold wcfg \<le> max_witness_threshold ps \<and>
    threshold wcfg \<le> length (witnesses wcfg) \<and>
    (profile = PKzg \<and> require_kzg_trusted_setup ps \<longrightarrow>
       kzg_trusted_setup_id ps \<noteq> None \<and> kzg_trusted_setup_path ps \<noteq> None \<and>
       kzg_trusted_setup_attestation_sha512 ps \<noteq> None) \<and>
    validate_commitment_policy profile (max_vector_len ps) (commitment_policy ps) = Ok ()"
  by (auto simp: validate_parameters_def split: sum.splits)

lemma contracts_loop_iff:
  "contracts_loop cs = Ok () \<longleftrightarrow> (\<forall>c \<in> set cs. loss_bits c \<le> 128 \<and> max_queries c \<noteq> 0)"
  by (induction cs) auto

lemma validate_contracts_iff:
  "validate_reduction_contracts cs = Ok () \<longleftrightarrow>
    cs \<noteq> [] \<and> (\<forall>c \<in> set cs. loss_bits c \<le> 128 \<and> max_queries c \<noteq> 0)"
  by (simp add: validate_reduction_contracts_def contracts_loop_iff)

lemma validate_shape_iff:
  "validate_commit_shape ps n m = Ok () \<longleftrightarrow> n \<le> max_delta_writes ps \<and> m \<le> max_vector_len ps"
  by (auto simp: validate_commit_shape_def)

lemma post_commit_iff:
  "verify_post_commit_refinement H h r eh er sz root ts sig = Ok () \<longleftrightarrow>
    eh = h \<and> er = r \<and> sz = h \<and> sig = sth_signature H sz root ts"
  by (auto simp: verify_post_commit_refinement_def)

lemmas validator_iffs = validate_policy_iff validate_parameters_iff validate_contracts_iff
  validate_shape_iff post_commit_iff

lemma default_policy_valid:
  "0 < n \<Longrightarrow> n \<le> deg \<Longrightarrow> validate_commitment_policy p n (default_commitment_policy p deg) = Ok ()"
  by (cases p)
     (auto simp: validate_policy_iff default_commitment_policy_def trim_visible)

lemma default_contracts_valid: "validate_reduction_contracts (default_reduction_contracts p) = Ok ()"
  by (cases p) (simp_all add: validate_contracts_iff default_reduction_contracts_def)

definition new_parameters :: "VcProfile \<Rightarrow> ParameterSet" where
  "new_parameters profile =
     (let ps = default_parameter_set
      in ps\<lparr>commitment_policy := default_commitment_policy profile (max_vector_len ps)\<rparr>)"

lemma new_parameters_valid:
  assumes "0 < threshold wcfg" "threshold wcfg \<le> length (witnesses wcfg)" "length (witnesses wcfg) \<le> 128"
  shows "validate_parameters (new_parameters profile) profile wcfg = Ok ()"
  using assms
  by (auto simp: validate_parameters_iff new_parameters_def default_parameter_set_def Let_def
      default_policy_valid)

end
