(* ===== verification/Sheaf.thy ===== *)
theory Sheaf
  imports Store
begin

text \<open>
  \<^verbatim>\<open>src/sheaf/coherence.rs\<close>: the check that the local views sent with a commit do not
  contradict each other.  The scan keeps the first value it sees of each key and collects
  the keys seen with another value; the theorem is that it accepts exactly the families
  of local sections that glue.
\<close>

record LocalSection =
  lens_id :: string
  kv :: "(string, u64) btree_map"

record SheafCoherenceProof =
  coherent :: bool
  conflicts :: "string list"
  sheaf_digest :: u64

text \<open>The body of the two nested loops.\<close>

definition sheaf_step ::
  "(string, u64) btree_map \<times> string list \<Rightarrow> string \<times> u64 \<Rightarrow> (string, u64) btree_map \<times> string list" where
  "sheaf_step acc p =
     (case bt_get (fst acc) (fst p) of
        Some existing \<Rightarrow>
          if existing \<noteq> snd p then (fst acc, bs_insert (fst p) (snd acc)) else acc
      | None \<Rightarrow> (bt_insert (fst p) (snd p) (fst acc), snd acc))"

definition sheaf_scan :: "LocalSection list \<Rightarrow> (string, u64) btree_map \<times> string list" where
  "sheaf_scan views = foldl (\<lambda>acc view. foldl sheaf_step acc (kv view)) ([], []) views"

definition seen_digest :: "string list \<Rightarrow> u64" where
  "seen_digest ks =
     foldl (\<lambda>d (i, k). xor d (of_nat (length k) * (of_nat i + 11))) 0 (enumerate 0 ks)"

definition conflict_digest :: "u64 \<Rightarrow> string list \<Rightarrow> u64" where
  "conflict_digest d0 ks =
     foldl (\<lambda>d (i, k). d + of_nat (length k) * (of_nat i + 101)) d0 (enumerate 0 ks)"

definition build_sheaf_coherence :: "LocalSection list \<Rightarrow> SheafCoherenceProof" where
  "build_sheaf_coherence views =
     (let (seen, confl) = sheaf_scan views
      in \<lparr>coherent = (confl = []), conflicts = confl,
          sheaf_digest = conflict_digest (seen_digest (bt_keys seen)) confl\<rparr>)"

definition verify_sheaf_coherence :: "State \<Rightarrow> SheafCoherenceProof \<Rightarrow> bool" where
  "verify_sheaf_coherence global pf \<longleftrightarrow> coherent pf \<and> conflicts pf = []"

section \<open>What the scan computes\<close>

definition section_pairs :: "LocalSection list \<Rightarrow> (string \<times> u64) list" where
  "section_pairs views = concat (map kv views)"

lemma sheaf_scan_flat: "sheaf_scan views = foldl sheaf_step ([], []) (section_pairs views)"
proof -
  have "foldl (\<lambda>acc view. foldl sheaf_step acc (kv view)) a views =
      foldl sheaf_step a (section_pairs views)" for a
    by (induction views arbitrary: a) (simp_all add: section_pairs_def)
  then show ?thesis by (simp add: sheaf_scan_def)
qed

lemma map_of_snoc:
  "map_of (ps @ [(k, v)]) = (case map_of ps k of None \<Rightarrow> (map_of ps)(k \<mapsto> v) | Some _ \<Rightarrow> map_of ps)"
  by (auto simp: fun_eq_iff map_of_append map_add_def split: option.splits)

definition scan_inv ::
  "(string \<times> u64) list \<Rightarrow> (string, u64) btree_map \<times> string list \<Rightarrow> bool" where
  "scan_inv ps acc \<longleftrightarrow>
     bt_wf (fst acc) \<and> bt_get (fst acc) = map_of ps \<and> sorted_wrt (<) (snd acc) \<and>
     set (snd acc) = {k. \<exists>v. (k, v) \<in> set ps \<and> map_of ps k \<noteq> Some v}"

lemma scan_inv_step:
  assumes "scan_inv ps acc"
  shows "scan_inv (ps @ [(k, v)]) (sheaf_step acc (k, v))"
proof (cases "map_of ps k")
  case None
  then have new: "(k, x) \<notin> set ps" for x
    by (metis option.distinct(1) weak_map_of_SomeI)
  have "{l. \<exists>x. (l, x) \<in> set (ps @ [(k, v)]) \<and> map_of (ps @ [(k, v)]) l \<noteq> Some x} =
      {l. \<exists>x. (l, x) \<in> set ps \<and> map_of ps l \<noteq> Some x}"
    unfolding map_of_snoc using None new by auto
  moreover have "sheaf_step acc (k, v) = (bt_insert k v (fst acc), snd acc)"
    using assms None by (simp add: sheaf_step_def scan_inv_def)
  ultimately show ?thesis
    using assms None unfolding scan_inv_def map_of_snoc by simp
next
  case (Some w)
  have "{l. \<exists>x. (l, x) \<in> set (ps @ [(k, v)]) \<and> map_of (ps @ [(k, v)]) l \<noteq> Some x} =
      {l. \<exists>x. (l, x) \<in> set ps \<and> map_of ps l \<noteq> Some x} \<union> (if w = v then {} else {k})"
    unfolding map_of_snoc using Some by auto
  moreover have "sheaf_step acc (k, v) = (if w \<noteq> v then (fst acc, bs_insert k (snd acc)) else acc)"
    using assms Some by (simp add: sheaf_step_def scan_inv_def)
  ultimately show ?thesis
    using assms Some unfolding scan_inv_def map_of_snoc by simp
qed

lemma sheaf_scan_spec: "scan_inv ps (foldl sheaf_step ([], []) ps)"
proof (induction ps rule: rev_induct)
  case (snoc p ps)
  then show ?case by (cases p) (simp add: scan_inv_step)
qed (simp add: scan_inv_def fun_eq_iff)

lemma conflicts_build: "conflicts (build_sheaf_coherence views) = snd (sheaf_scan views)"
  by (simp add: build_sheaf_coherence_def case_prod_beta)

lemma verify_build_iff:
  "verify_sheaf_coherence g (build_sheaf_coherence views) \<longleftrightarrow> snd (sheaf_scan views) = []"
  by (auto simp: verify_sheaf_coherence_def build_sheaf_coherence_def case_prod_beta)

lemma other_value_iff:
  "(\<exists>v. (k, v) \<in> set ps \<and> map_of ps k \<noteq> Some v) \<longleftrightarrow>
    (\<exists>x y. (k, x) \<in> set ps \<and> (k, y) \<in> set ps \<and> x \<noteq> y)"
  (is "?L \<longleftrightarrow> ?R")
proof
  assume ?L
  then obtain v w where "(k, v) \<in> set ps" "map_of ps k = Some w" "w \<noteq> v"
    by (metis weak_map_of_SomeI)
  then show ?R by (metis map_of_SomeD)
next
  assume ?R
  then show ?L by (metis option.inject)
qed

lemma conflict_keys:
  "set (conflicts (build_sheaf_coherence views)) =
    {k. \<exists>x y. (k, x) \<in> set (section_pairs views) \<and> (k, y) \<in> set (section_pairs views) \<and> x \<noteq> y}"
proof -
  have "set (conflicts (build_sheaf_coherence views)) =
      {k. \<exists>v. (k, v) \<in> set (section_pairs views) \<and> map_of (section_pairs views) k \<noteq> Some v}"
    using sheaf_scan_spec [of "section_pairs views"]
    by (simp add: conflicts_build sheaf_scan_flat scan_inv_def)
  also have "\<dots> = {k. \<exists>x y. (k, x) \<in> set (section_pairs views) \<and>
      (k, y) \<in> set (section_pairs views) \<and> x \<noteq> y}"
    by (simp only: other_value_iff)
  finally show ?thesis .
qed

lemma accepted_iff_glue:
  assumes "\<And>view. view \<in> set views \<Longrightarrow> bt_wf (kv view)"
  shows "verify_sheaf_coherence global (build_sheaf_coherence views) \<longleftrightarrow>
    (\<exists>glued. \<forall>view \<in> set views. bt_get (kv view) \<subseteq>\<^sub>m glued)"
proof -
  have mem: "bt_get (kv view) k = Some x \<longleftrightarrow> (k, x) \<in> set (kv view)" if "view \<in> set views" for view k x
    using bt_get_iff_mem [OF assms [OF that]] .
  have "verify_sheaf_coherence global (build_sheaf_coherence views) \<longleftrightarrow>
      (\<forall>(k, v) \<in> set (section_pairs views). map_of (section_pairs views) k = Some v)"
    using sheaf_scan_spec [of "section_pairs views"]
    by (auto simp: verify_build_iff sheaf_scan_flat scan_inv_def simp flip: set_empty)
  also have "\<dots> \<longleftrightarrow> (\<exists>glued. \<forall>view \<in> set views. bt_get (kv view) \<subseteq>\<^sub>m glued)"
  proof
    assume "\<forall>(k, v) \<in> set (section_pairs views). map_of (section_pairs views) k = Some v"
    then have "\<forall>view \<in> set views. bt_get (kv view) \<subseteq>\<^sub>m map_of (section_pairs views)"
      by (fastforce simp: map_le_def section_pairs_def mem dom_def simp del: dom_bt_get)
    then show "\<exists>glued. \<forall>view \<in> set views. bt_get (kv view) \<subseteq>\<^sub>m glued" by blast
  next
    assume "\<exists>glued. \<forall>view \<in> set views. bt_get (kv view) \<subseteq>\<^sub>m glued"
    then obtain g where g: "(k, v) \<in> set (section_pairs views) \<Longrightarrow> g k = Some v" for k v
      by (force simp: map_le_def section_pairs_def dom_def simp flip: mem)
    then show "\<forall>(k, v) \<in> set (section_pairs views). map_of (section_pairs views) k = Some v"
      by (metis (mono_tags, lifting) case_prodI2 map_of_SomeD option.inject weak_map_of_SomeI)
  qed
  finally show ?thesis .
qed

end
