(* ===== verification/Immutable.thy ===== *)
theory Immutable
  imports Store CT6962_Proofs
begin

text \<open>
  \<^verbatim>\<open>src/immutable.rs\<close>: append-only mode.  The extension check is a preorder on states that
  preserves every non-zero cell; the digest of a state is injective on the key/value pairs
  as long as no key contains an equals sign; and the last seal of a chain determines the
  whole sequence of digests it was built from.
\<close>

datatype WriteMode = Normal | AppendOnly

definition kv_pairs :: "State \<Rightarrow> KeyMap \<Rightarrow> (string \<times> u64) list" where
  "kv_pairs s km = sort_key fst (map (\<lambda>(k, idx). (k, cell s idx)) (all_keys km))"

definition kv_buffer :: "(string \<times> u64) list \<Rightarrow> bytes" where
  "kv_buffer ps = ''NucleusDB.KeyValueDigest|'' @
     concat (map (\<lambda>(k, v). k @ CHR ''='' # dec (unat v) @ '';'') ps)"

definition key_value_digest :: "(bytes \<Rightarrow> node_hash) \<Rightarrow> State \<Rightarrow> KeyMap \<Rightarrow> node_hash" where
  "key_value_digest H s km = H (kv_buffer (kv_pairs s km))"

definition verify_raw_monotone_extension :: "State \<Rightarrow> State \<Rightarrow> bool" where
  "verify_raw_monotone_extension old new =
     list_all (\<lambda>(i, old_val). old_val = 0 \<or> cell new i = old_val) (enumerate 0 (st_values old))"

definition verify_monotone_extension :: "State \<Rightarrow> KeyMap \<Rightarrow> State \<Rightarrow> KeyMap \<Rightarrow> bool" where
  "verify_monotone_extension old old_km new new_km =
     (if \<not> verify_raw_monotone_extension old new then False
      else list_all
             (\<lambda>(key, old_idx).
                let old_val = cell old old_idx in
                if old_val = 0 then True
                else (case keymap_get new_km key of
                        Some new_idx \<Rightarrow> cell new new_idx = old_val
                      | None \<Rightarrow> False))
             (all_keys old_km))"

definition next_seal :: "(bytes \<Rightarrow> node_hash) \<Rightarrow> node_hash \<Rightarrow> node_hash \<Rightarrow> node_hash" where
  "next_seal H prev_seal kv_digest = H (''NucleusDB.MonotoneSeal|'' @ prev_seal @ kv_digest)"

definition genesis_seal :: "(bytes \<Rightarrow> node_hash) \<Rightarrow> node_hash" where
  "genesis_seal H = H ''NucleusDB.MonotoneSeal.Genesis|''"

definition genesis_seal_with_anchor :: "(bytes \<Rightarrow> node_hash) \<Rightarrow> string \<Rightarrow> node_hash" where
  "genesis_seal_with_anchor H anchor = H (''NucleusDB.MonotoneSeal.Genesis|'' @ anchor)"

text \<open>The loop over the seals; the lists have the same length when it runs.\<close>

fun seal_loop ::
  "(bytes \<Rightarrow> node_hash) \<Rightarrow> node_hash \<Rightarrow> node_hash list \<Rightarrow> (State \<times> KeyMap) list \<Rightarrow> bool" where
  "seal_loop H prev (seal # seals) ((s, km) # states) =
     (if seal \<noteq> next_seal H prev (key_value_digest H s km) then False
      else seal_loop H seal seals states)"
| "seal_loop H prev _ _ = True"

definition verify_seal_chain_with_anchor ::
  "(bytes \<Rightarrow> node_hash) \<Rightarrow> node_hash list \<Rightarrow> (State \<times> KeyMap) list \<Rightarrow> string option \<Rightarrow> bool" where
  "verify_seal_chain_with_anchor H seals states anchor =
     (if length seals \<noteq> length states then False
      else seal_loop H
             (case anchor of Some a \<Rightarrow> genesis_seal_with_anchor H a | None \<Rightarrow> genesis_seal H)
             seals states)"

definition verify_seal_chain ::
  "(bytes \<Rightarrow> node_hash) \<Rightarrow> node_hash list \<Rightarrow> (State \<times> KeyMap) list \<Rightarrow> bool" where
  "verify_seal_chain H seals states = verify_seal_chain_with_anchor H seals states None"

section \<open>The extension check\<close>

lemma raw_monotone_iff:
  "verify_raw_monotone_extension old new \<longleftrightarrow> (\<forall>i. cell old i \<noteq> 0 \<longrightarrow> cell new i = cell old i)"
  by (auto simp: verify_raw_monotone_extension_def list_all_length nth_enumerate_eq cell_def)

lemma raw_monotone_refl: "verify_raw_monotone_extension s s"
  by (simp add: raw_monotone_iff)

lemma raw_monotone_trans:
  "verify_raw_monotone_extension a b \<Longrightarrow> verify_raw_monotone_extension b c \<Longrightarrow>
    verify_raw_monotone_extension a c"
  by (simp add: raw_monotone_iff)

lemma monotone_extension_iff:
  assumes "bt_wf (forward km)"
  shows "verify_monotone_extension old km new km' \<longleftrightarrow>
    verify_raw_monotone_extension old new \<and>
    (\<forall>key idx. keymap_get km key = Some idx \<longrightarrow> cell old idx \<noteq> 0 \<longrightarrow>
       (\<exists>idx'. keymap_get km' key = Some idx' \<and> cell new idx' = cell old idx))"
proof -
  have all: "list_all P (all_keys km) \<longleftrightarrow> (\<forall>key idx. keymap_get km key = Some idx \<longrightarrow> P (key, idx))" for P
    by (auto simp: all_keys_def list_all_iff keymap_get_def bt_get_iff_mem [OF assms])
  have ex: "(case r of Some n \<Rightarrow> P n | None \<Rightarrow> False) \<longleftrightarrow> (\<exists>n. r = Some n \<and> P n)" for r :: "nat option" and P
    by (cases r) auto
  show ?thesis
    unfolding verify_monotone_extension_def all Let_def prod.case ex by auto
qed

text \<open>With an unchanged key registry, the second loop adds nothing to the first.\<close>

lemma monotone_extension_same_keymap:
  assumes "bt_wf (forward km)"
  shows "verify_monotone_extension old km new km \<longleftrightarrow> verify_raw_monotone_extension old new"
  by (auto simp: monotone_extension_iff [OF assms] raw_monotone_iff)

section \<open>The digest of the pairs\<close>

lemma kv_buffer_inject:
  assumes "\<forall>(k, v) \<in> set ps \<union> set qs. CHR ''='' \<notin> set k" "kv_buffer ps = kv_buffer qs"
  shows "ps = qs"
  using assms
proof (induction ps arbitrary: qs)
  case Nil
  then show ?case by (cases qs) (auto simp: kv_buffer_def)
next
  case (Cons p ps)
  obtain k v where p: "p = (k, v)" by (cases p)
  from Cons.prems(2) obtain k' v' qs' where q: "qs = (k', v') # qs'"
    by (cases qs) (auto simp: kv_buffer_def p)
  let ?rest = "\<lambda>ps. concat (map (\<lambda>(k, v). k @ CHR ''='' # dec (unat (v :: u64)) @ '';'') ps)"
  have "k = k' \<and> dec (unat v) @ CHR '';'' # ?rest ps = dec (unat v') @ CHR '';'' # ?rest qs'"
    using Cons.prems by (intro append_sep_inject) (auto simp: kv_buffer_def p q)
  moreover have "CHR '';'' \<notin> set (dec n)" for n
    using dec_digits [of "CHR '';''" n] by (auto simp: is_digit_def)
  ultimately have "k = k' \<and> unat v = unat v' \<and> ?rest ps = ?rest qs'"
    using append_sep_inject [of "CHR '';''" "dec (unat v)" "dec (unat v')"] by auto
  then show ?case
    using Cons.IH [of qs'] Cons.prems(1) by (auto simp: kv_buffer_def p q unat_eq_64)
qed

lemma key_value_digest_binding:
  assumes "key_value_digest H s km = key_value_digest H s' km'"
    "inj_on H {kv_buffer (kv_pairs s km), kv_buffer (kv_pairs s' km')}"
    "\<forall>(k, v) \<in> set (kv_pairs s km) \<union> set (kv_pairs s' km'). CHR ''='' \<notin> set k"
  shows "kv_pairs s km = kv_pairs s' km'"
  using assms by (intro kv_buffer_inject) (auto simp: key_value_digest_def dest: inj_onD)

text \<open>A key that contains an equals sign breaks it: one pair can look like two.\<close>

lemma kv_buffer_ambiguous:
  "kv_buffer [(''a=1;b'', 2)] = kv_buffer [(''a'', 1), (''b'', 2)]"
  by code_simp

section \<open>The seal chain\<close>

definition final_seal ::
  "(bytes \<Rightarrow> node_hash) \<Rightarrow> node_hash \<Rightarrow> (State \<times> KeyMap) list \<Rightarrow> node_hash" where
  "final_seal H prev states =
     foldl (\<lambda>seal (s, km). next_seal H seal (key_value_digest H s km)) prev states"

definition seal_inputs ::
  "(bytes \<Rightarrow> node_hash) \<Rightarrow> node_hash \<Rightarrow> (State \<times> KeyMap) list \<Rightarrow> bytes set" where
  "seal_inputs H prev states =
     (\<lambda>(s, km). kv_buffer (kv_pairs s km)) ` set states \<union>
     (\<lambda>i. ''NucleusDB.MonotoneSeal|'' @ final_seal H prev (take i states) @
            (case states ! i of (s, km) \<Rightarrow> key_value_digest H s km)) ` {..<length states}"

lemma seal_loop_final:
  "length seals = length states \<Longrightarrow> seal_loop H prev seals states \<Longrightarrow>
    last (prev # seals) = final_seal H prev states"
proof (induction H prev seals states rule: seal_loop.induct)
  case (1 H prev seal seals s km states)
  then show ?case by (auto simp: final_seal_def split: if_splits)
qed (auto simp: final_seal_def)

lemma length_final_seal: "digest32 H \<Longrightarrow> length prev = 32 \<Longrightarrow> length (final_seal H prev states) = 32"
  by (cases states rule: rev_cases)
     (auto simp: final_seal_def next_seal_def digest32_def case_prod_beta)

lemma seal_inputs_snoc:
  "seal_inputs H prev (states @ [(s, km)]) = seal_inputs H prev states \<union>
     {kv_buffer (kv_pairs s km),
      ''NucleusDB.MonotoneSeal|'' @ final_seal H prev states @ key_value_digest H s km}"
  by (auto simp: seal_inputs_def nth_append lessThan_Suc image_iff)

lemma final_seal_binding:
  assumes "digest32 H" "length prev = 32" "length states = length states'"
    "final_seal H prev states = final_seal H prev states'"
    "inj_on H (seal_inputs H prev states \<union> seal_inputs H prev states')"
  shows "map (\<lambda>(s, km). kv_buffer (kv_pairs s km)) states =
    map (\<lambda>(s, km). kv_buffer (kv_pairs s km)) states'"
  using assms(3-)
proof (induction states arbitrary: states' rule: rev_induct)
  case (snoc x states)
  obtain s km where x: "x = (s, km)" by (cases x)
  obtain t km' states'' where y: "states' = states'' @ [(t, km')]" "length states = length states''"
    using snoc.prems(1) by (cases states' rule: rev_cases) auto
  let ?in = "\<lambda>ss s km. ''NucleusDB.MonotoneSeal|'' @ final_seal H prev ss @ key_value_digest H s km"
  have inj: "inj_on H (seal_inputs H prev (states @ [x]) \<union> seal_inputs H prev states')"
    using snoc.prems(3) .
  have "H (?in states s km) = H (?in states'' t km')"
    using snoc.prems(2) by (simp add: x y final_seal_def next_seal_def)
  then have "?in states s km = ?in states'' t km'"
    by (rule inj_onD [OF inj]) (simp_all add: x y(1) seal_inputs_snoc)
  then have eq: "final_seal H prev states = final_seal H prev states''"
    "key_value_digest H s km = key_value_digest H t km'"
    using length_final_seal [OF assms(1,2)] by auto
  have "kv_buffer (kv_pairs s km) = kv_buffer (kv_pairs t km')"
    by (rule inj_onD [OF inj]) (use eq(2) in \<open>simp_all add: key_value_digest_def x y(1) seal_inputs_snoc\<close>)
  moreover have "map (\<lambda>(s, km). kv_buffer (kv_pairs s km)) states =
      map (\<lambda>(s, km). kv_buffer (kv_pairs s km)) states''"
    using eq(1) y(2) inj by (intro snoc.IH) (auto simp: x y(1) seal_inputs_snoc elim!: inj_on_subset)
  ultimately show ?case by (simp add: x y)
qed simp

definition genesis_for :: "(bytes \<Rightarrow> node_hash) \<Rightarrow> string option \<Rightarrow> node_hash" where
  "genesis_for H anchor =
     (case anchor of Some a \<Rightarrow> genesis_seal_with_anchor H a | None \<Rightarrow> genesis_seal H)"

lemma seal_chain_binding:
  assumes "verify_seal_chain_with_anchor H seals states anchor"
    "verify_seal_chain_with_anchor H seals' states' anchor"
    "seals \<noteq> []" "length seals = length seals'" "last seals = last seals'" "digest32 H"
    "inj_on H (seal_inputs H (genesis_for H anchor) states \<union>
               seal_inputs H (genesis_for H anchor) states')"
    "\<forall>(s, km) \<in> set states \<union> set states'. \<forall>(k, v) \<in> set (kv_pairs s km). CHR ''='' \<notin> set k"
  shows "map (\<lambda>(s, km). kv_pairs s km) states = map (\<lambda>(s, km). kv_pairs s km) states'"
proof -
  let ?g = "genesis_for H anchor"
  have len: "length seals = length states" "length seals' = length states'"
    using assms(1,2) by (auto simp: verify_seal_chain_with_anchor_def split: if_splits)
  have g: "length ?g = 32"
    using assms(6) by (auto simp: genesis_for_def genesis_seal_def genesis_seal_with_anchor_def
        digest32_def split: option.splits)
  have "seal_loop H ?g seals states" "seal_loop H ?g seals' states'"
    using assms(1,2) by (simp_all add: verify_seal_chain_with_anchor_def genesis_for_def split: if_splits)
  then have "final_seal H ?g states = final_seal H ?g states'"
    using seal_loop_final [OF len(1), of H ?g] seal_loop_final [OF len(2), of H ?g] assms(3-5)
    by (cases seals; cases seals') auto
  then have eq: "map (\<lambda>(s, km). kv_buffer (kv_pairs s km)) states =
      map (\<lambda>(s, km). kv_buffer (kv_pairs s km)) states'"
    using assms(4,6,7) len g by (intro final_seal_binding) auto
  show ?thesis
  proof (rule nth_equalityI)
    fix i
    assume i: "i < length (map (\<lambda>(s, km). kv_pairs s km) states)"
    obtain s km t km' where st: "states ! i = (s, km)" "states' ! i = (t, km')" by fastforce
    have "i < length states'" using i len assms(4) by simp
    then have mem: "(s, km) \<in> set states" "(t, km') \<in> set states'"
      using i st by (metis length_map nth_mem)+
    have "kv_buffer (kv_pairs s km) = kv_buffer (kv_pairs t km')"
      using arg_cong [OF eq, of "\<lambda>l. l ! i"] i st \<open>i < length states'\<close> by simp
    then have "kv_pairs s km = kv_pairs t km'"
      using bspec [OF assms(8), of "(s, km)"] bspec [OF assms(8), of "(t, km')"] mem
      by (intro kv_buffer_inject) auto
    then show "map (\<lambda>(s, km). kv_pairs s km) states ! i = map (\<lambda>(s, km). kv_pairs s km) states' ! i"
      using i st \<open>i < length states'\<close> by simp
  qed (use len assms(4) in simp)
qed

end
