(* ===== verification/Float64.thy ===== *)
theory Float64
  imports Prelude Complex_Main
begin

text \<open>
  \<^verbatim>\<open>f64\<close> as the source uses it: a value is its 64 bit pattern, comparisons are the IEEE 754
  ones on patterns (every comparison with a NaN is false, the two zeros are equal), and
  addition, subtraction, multiplication and division compute the exact rational and round
  it to the nearest double, ties to even.  Square root and \<^verbatim>\<open>powf\<close> are left to the platform
  and are the parameter \<open>libm\<close>.
\<close>

type_synonym f64 = u64

section \<open>Patterns\<close>

definition f64_mag :: "f64 \<Rightarrow> int" where
  "f64_mag w = uint w mod 2 ^ 63"

definition f64_neg :: "f64 \<Rightarrow> bool" where
  "f64_neg w \<longleftrightarrow> 2 ^ 63 \<le> uint w"

definition f64_inf_mag :: int where
  "f64_inf_mag = 2047 * 2 ^ 52"

definition is_nan :: "f64 \<Rightarrow> bool" where
  "is_nan w \<longleftrightarrow> f64_inf_mag < f64_mag w"

definition is_inf :: "f64 \<Rightarrow> bool" where
  "is_inf w \<longleftrightarrow> f64_mag w = f64_inf_mag"

definition f64_bits :: "bool \<Rightarrow> int \<Rightarrow> f64" where
  "f64_bits neg mag = of_int ((if neg then 2 ^ 63 else 0) + mag)"

definition f64_nan :: f64 where
  "f64_nan = f64_bits False (f64_inf_mag + 2 ^ 51)"

text \<open>The order of the patterns, as integers; both zeros map to 0.\<close>

definition f64_key :: "f64 \<Rightarrow> int" where
  "f64_key w = (if f64_neg w then - f64_mag w else f64_mag w)"

definition f64_lt :: "f64 \<Rightarrow> f64 \<Rightarrow> bool" where
  "f64_lt a b \<longleftrightarrow> \<not> is_nan a \<and> \<not> is_nan b \<and> f64_key a < f64_key b"

definition f64_le :: "f64 \<Rightarrow> f64 \<Rightarrow> bool" where
  "f64_le a b \<longleftrightarrow> \<not> is_nan a \<and> \<not> is_nan b \<and> f64_key a \<le> f64_key b"

definition f64_eq :: "f64 \<Rightarrow> f64 \<Rightarrow> bool" where
  "f64_eq a b \<longleftrightarrow> \<not> is_nan a \<and> \<not> is_nan b \<and> f64_key a = f64_key b"

text \<open>\<^verbatim>\<open>f64::max\<close> and \<^verbatim>\<open>f64::min\<close> ignore a NaN argument; \<^verbatim>\<open>f64::clamp\<close> keeps it.\<close>

definition f64_max :: "f64 \<Rightarrow> f64 \<Rightarrow> f64" where
  "f64_max a b = (if is_nan a then b else if is_nan b then a else if f64_lt a b then b else a)"

definition f64_min :: "f64 \<Rightarrow> f64 \<Rightarrow> f64" where
  "f64_min a b = (if is_nan a then b else if is_nan b then a else if f64_lt b a then b else a)"

definition f64_clamp :: "f64 \<Rightarrow> f64 \<Rightarrow> f64 \<Rightarrow> f64" where
  "f64_clamp x lo hi = (if f64_lt x lo then lo else if f64_lt hi x then hi else x)"

definition f64_abs :: "f64 \<Rightarrow> f64" where
  "f64_abs w = f64_bits False (f64_mag w)"

section \<open>Values and rounding\<close>

definition rat_pow2 :: "int \<Rightarrow> rat" where
  "rat_pow2 e = (if 0 \<le> e then 2 ^ nat e else 1 / 2 ^ nat (- e))"

definition f64_val :: "f64 \<Rightarrow> rat" where
  "f64_val w =
     (let e = f64_mag w div 2 ^ 52;
          f = f64_mag w mod 2 ^ 52;
          m = (if e = 0 then f else 2 ^ 52 + f);
          x = (if e = 0 then 1 else e);
          v = of_int m * rat_pow2 (x - 1075)
      in if m = 0 then 0 else if f64_neg w then - v else v)"

definition round_half_even :: "rat \<Rightarrow> int" where
  "round_half_even q =
     (let n = \<lfloor>q\<rfloor>; r = q - of_int n
      in if r < 1 / 2 \<or> (r = 1 / 2 \<and> even n) then n else n + 1)"

function bit_length :: "int \<Rightarrow> int" where
  "bit_length n = (if n \<le> 0 then 0 else 1 + bit_length (n div 2))"
  by pat_completeness auto
termination
  by (relation "measure nat") auto

declare bit_length.simps [simp del]

text \<open>The binary exponent of a positive rational.\<close>

definition rat_exponent :: "rat \<Rightarrow> int" where
  "rat_exponent q =
     (let (n, d) = quotient_of q;
          e = bit_length n - bit_length d
      in if q < rat_pow2 e then e - 1 else e)"

text \<open>
  Nearest double to \<open>\<plusminus> q\<close>: scale to an integer significand, round, and let a carry run
  into the exponent field; results beyond the largest finite double become infinite.
\<close>

definition f64_round :: "bool \<Rightarrow> rat \<Rightarrow> f64" where
  "f64_round neg q =
     (if q = 0 then f64_bits neg 0
      else let e = max (rat_exponent q) (-1022);
               m = round_half_even (q / rat_pow2 (e - 52));
               mag = m + (e + 1022) * 2 ^ 52
           in f64_bits neg (min mag f64_inf_mag))"

definition f64_of_rat :: "rat \<Rightarrow> f64" where
  "f64_of_rat q = f64_round (q < 0) \<bar>q\<bar>"

section \<open>Arithmetic\<close>

definition f64_negate :: "f64 \<Rightarrow> f64" where
  "f64_negate w = f64_bits (\<not> f64_neg w) (f64_mag w)"

definition f64_add :: "f64 \<Rightarrow> f64 \<Rightarrow> f64" where
  "f64_add a b =
     (if is_nan a \<or> is_nan b then f64_nan
      else if is_inf a then (if is_inf b \<and> f64_neg a \<noteq> f64_neg b then f64_nan else a)
      else if is_inf b then b
      else let s = f64_val a + f64_val b
           in if s = 0 then f64_bits (f64_neg a \<and> f64_neg b) 0 else f64_of_rat s)"

definition f64_sub :: "f64 \<Rightarrow> f64 \<Rightarrow> f64" where
  "f64_sub a b = (if is_nan b then f64_nan else f64_add a (f64_negate b))"

definition f64_mul :: "f64 \<Rightarrow> f64 \<Rightarrow> f64" where
  "f64_mul a b =
     (let neg = (f64_neg a \<noteq> f64_neg b)
      in if is_nan a \<or> is_nan b then f64_nan
         else if is_inf a \<or> is_inf b then
           (if f64_mag a = 0 \<or> f64_mag b = 0 then f64_nan else f64_bits neg f64_inf_mag)
         else f64_round neg \<bar>f64_val a * f64_val b\<bar>)"

definition f64_div :: "f64 \<Rightarrow> f64 \<Rightarrow> f64" where
  "f64_div a b =
     (let neg = (f64_neg a \<noteq> f64_neg b)
      in if is_nan a \<or> is_nan b then f64_nan
         else if is_inf a then (if is_inf b then f64_nan else f64_bits neg f64_inf_mag)
         else if is_inf b then f64_bits neg 0
         else if f64_mag b = 0 then
           (if f64_mag a = 0 then f64_nan else f64_bits neg f64_inf_mag)
         else f64_round neg \<bar>f64_val a / f64_val b\<bar>)"

definition f64_sum :: "f64 list \<Rightarrow> f64" where
  "f64_sum xs = foldl f64_add 0 xs"

definition f64_of_nat :: "nat \<Rightarrow> f64" where
  "f64_of_nat n = f64_of_rat (of_nat n)"

definition f64_ceil :: "f64 \<Rightarrow> f64" where
  "f64_ceil w =
     (if is_nan w \<or> is_inf w then w else f64_round (f64_neg w) \<bar>of_int \<lceil>f64_val w\<rceil>\<bar>)"

text \<open>\<^verbatim>\<open>as usize\<close> saturates and sends NaN to 0.\<close>

definition f64_to_usize :: "f64 \<Rightarrow> nat" where
  "f64_to_usize w =
     (if is_nan w then 0
      else if is_inf w then (if f64_neg w then 0 else 2 ^ 64 - 1)
      else let n = \<lfloor>f64_val w\<rfloor>
           in if n < 0 then 0 else if 2 ^ 64 \<le> n then 2 ^ 64 - 1 else nat n)"

record libm =
  m_sqrt :: "f64 \<Rightarrow> f64"
  m_powf :: "f64 \<Rightarrow> f64 \<Rightarrow> f64"

text \<open>The literals of the source.\<close>

abbreviation f64_half :: f64 where
  "f64_half \<equiv> 0x3fe0000000000000"

abbreviation f64_one :: f64 where
  "f64_one \<equiv> 0x3ff0000000000000"

abbreviation f64_two :: f64 where
  "f64_two \<equiv> 0x4000000000000000"

text \<open>\<^verbatim>\<open>f64::EPSILON\<close> is \<open>2\<^sup>-\<^sup>5\<^sup>2\<close>.\<close>

abbreviation f64_epsilon :: f64 where
  "f64_epsilon \<equiv> 0x3cb0000000000000"

section \<open>Comparison laws\<close>

lemma f64_lt_irrefl [simp]: "\<not> f64_lt a a"
  by (simp add: f64_lt_def)

lemma f64_le_refl: "f64_le a a \<longleftrightarrow> \<not> is_nan a"
  by (simp add: f64_le_def)

lemma f64_le_trans: "f64_le a b \<Longrightarrow> f64_le b c \<Longrightarrow> f64_le a c"
  by (simp add: f64_le_def)

lemma f64_not_lt: "\<not> is_nan a \<Longrightarrow> \<not> is_nan b \<Longrightarrow> \<not> f64_lt a b \<longleftrightarrow> f64_le b a"
  by (auto simp: f64_le_def f64_lt_def)

lemma f64_lt_le: "f64_lt a b \<Longrightarrow> f64_le a b"
  by (auto simp: f64_le_def f64_lt_def)

text \<open>
  \<^verbatim>\<open>x.max(lo).min(hi)\<close> lands between the bounds whatever \<open>x\<close> is, NaN included.
\<close>

lemma f64_max_min_bounds:
  assumes "f64_le lo hi"
  shows "f64_le lo (f64_min (f64_max x lo) hi) \<and> f64_le (f64_min (f64_max x lo) hi) hi"
  using assms by (auto simp: f64_min_def f64_max_def f64_le_def f64_lt_def)

end
