(* ===== verification/Governor.thy ===== *)
theory Governor
  imports Float64
begin

text \<open>
  \<^verbatim>\<open>src/halo/governor.rs\<close>: the PD/PID controller that sizes the eviction budget of the
  blob store and of the vector index.  Its promise is about doubles, not reals: the
  controlled value never leaves its configured interval, whatever is observed.
\<close>

section \<open>Single steps\<close>

definition gov_clamp :: "f64 \<Rightarrow> f64 \<Rightarrow> f64 \<Rightarrow> f64" where
  "gov_clamp x lo hi = f64_min (f64_max x lo) hi"

definition governor_error :: "f64 \<Rightarrow> f64 \<Rightarrow> f64 \<Rightarrow> f64" where
  "governor_error r_target delta eps = f64_sub (f64_div delta eps) r_target"

definition governor_step ::
  "f64 \<Rightarrow> f64 \<Rightarrow> f64 \<Rightarrow> f64 \<Rightarrow> f64 \<Rightarrow> f64 \<Rightarrow> f64 \<Rightarrow> f64 \<Rightarrow> f64 \<Rightarrow> f64" where
  "governor_step eps ep delta dt a b lo hi r_target =
     (let e = governor_error r_target delta eps;
          d_error = f64_div (f64_sub e ep) dt;
          adjustment = f64_add (f64_mul a e) (f64_mul b d_error)
      in gov_clamp (f64_add eps adjustment) lo hi)"

record PidStepResult =
  pid_epsilon :: f64
  pid_integral :: f64
  pid_clamped :: bool

definition governor_step_pid ::
  "f64 \<Rightarrow> f64 \<Rightarrow> f64 \<Rightarrow> f64 \<Rightarrow> f64 \<Rightarrow> f64 \<Rightarrow> f64 \<Rightarrow> f64 \<Rightarrow> f64 \<Rightarrow> f64 \<Rightarrow> f64 \<Rightarrow> f64 \<Rightarrow>
    PidStepResult" where
  "governor_step_pid eps ep integral_prev delta dt a b kI kB lo hi r_target =
     (let e = governor_error r_target delta eps;
          d_error = f64_div (f64_sub e ep) dt;
          unclamped = f64_add (f64_add (f64_add eps (f64_mul a e)) (f64_mul kI integral_prev))
                        (f64_mul b d_error);
          clamped_eps = gov_clamp unclamped lo hi
      in \<lparr>pid_epsilon = clamped_eps,
          pid_integral = f64_add (f64_add integral_prev (f64_mul e dt))
                           (f64_mul kB (f64_sub clamped_eps unclamped)),
          pid_clamped = f64_lt f64_epsilon (f64_abs (f64_sub clamped_eps unclamped))\<rparr>)"

section \<open>Adaptive gains\<close>

datatype LoadRegime = Quiet | Active | Burst

definition classify :: "f64 \<Rightarrow> LoadRegime" where
  "classify ratio =
     (if f64_lt ratio f64_half then Quiet
      else if f64_lt ratio 0x3feccccccccccccd then Active
      else Burst)"

fun regime_name :: "LoadRegime \<Rightarrow> string" where
  "regime_name Quiet = ''quiet''"
| "regime_name Active = ''active''"
| "regime_name Burst = ''burst''"

record AdaptiveGainSchedule =
  quiet_alpha_scale :: f64
  quiet_beta_scale :: f64
  quiet_ki_scale :: f64
  active_alpha_scale :: f64
  active_beta_scale :: f64
  active_ki_scale :: f64
  burst_alpha_scale :: f64
  burst_beta_scale :: f64
  burst_ki_scale :: f64

definition default_schedule :: AdaptiveGainSchedule where
  "default_schedule =
     \<lparr>quiet_alpha_scale = 0x3ff8000000000000, quiet_beta_scale = f64_half, quiet_ki_scale = f64_one,
      active_alpha_scale = f64_one, active_beta_scale = f64_one, active_ki_scale = f64_one,
      burst_alpha_scale = f64_half, burst_beta_scale = f64_two, burst_ki_scale = f64_half\<rparr>"

definition effective_gains ::
  "AdaptiveGainSchedule \<Rightarrow> f64 \<Rightarrow> f64 \<Rightarrow> f64 \<Rightarrow> LoadRegime \<Rightarrow> f64 \<times> f64 \<times> f64" where
  "effective_gains sch a b kI regime =
     (case regime of
        Quiet \<Rightarrow> (f64_mul a (quiet_alpha_scale sch), f64_mul b (quiet_beta_scale sch),
                  f64_mul kI (quiet_ki_scale sch))
      | Active \<Rightarrow> (f64_mul a (active_alpha_scale sch), f64_mul b (active_beta_scale sch),
                   f64_mul kI (active_ki_scale sch))
      | Burst \<Rightarrow> (f64_mul a (burst_alpha_scale sch), f64_mul b (burst_beta_scale sch),
                  f64_mul kI (burst_ki_scale sch)))"

section \<open>Configuration and state\<close>

record GovernorConfig =
  instance_id :: string
  alpha :: f64
  beta :: f64
  dt :: f64
  eps_min :: f64
  eps_max :: f64
  gov_target :: f64
  formal_basis :: string
  ki :: f64
  kb :: f64
  adaptive :: "AdaptiveGainSchedule option"

record GovernorState =
  config :: GovernorConfig
  epsilon :: f64
  e_prev :: f64
  integral :: f64
  last_measured_signal :: "f64 option"
  last_lyapunov :: "f64 option"
  oscillating :: bool
  clamp_active :: bool
  current_regime :: "LoadRegime option"

record StabilityReport =
  sr_gamma :: f64
  sr_contraction_bound :: f64
  sr_regime :: string

datatype GovernorError =
    AlphaNotPositive f64
  | BetaNegative f64
  | DtTooSmall f64
  | EpsMinNotPositive f64
  | EpsMaxNotAboveMin f64 f64
  | KiNegative f64
  | KbNegative f64
  | GammaTooLarge f64
  | EffectiveGammaTooLarge f64

definition governor_new :: "GovernorConfig \<Rightarrow> GovernorState" where
  "governor_new cfg =
     \<lparr>config = cfg, epsilon = eps_min cfg, e_prev = 0, integral = 0, last_measured_signal = None,
      last_lyapunov = None, oscillating = False, clamp_active = False, current_regime = None\<rparr>"

definition gov_error :: "GovernorState \<Rightarrow> f64 \<Rightarrow> f64" where
  "gov_error g delta = governor_error (gov_target (config g)) delta (epsilon g)"

definition lyapunov :: "GovernorState \<Rightarrow> f64 \<Rightarrow> f64" where
  "lyapunov g delta = (let e = gov_error g delta in f64_mul (f64_mul f64_half e) e)"

definition gamma :: "GovernorState \<Rightarrow> f64" where
  "gamma g = f64_add (alpha (config g)) (f64_div (beta (config g)) (dt (config g)))"

definition effective_gamma_worst_case :: "GovernorState \<Rightarrow> f64" where
  "effective_gamma_worst_case g =
     (case adaptive (config g) of
        Some sch \<Rightarrow>
          foldl (\<lambda>worst regime.
                   case effective_gains sch (alpha (config g)) (beta (config g)) (ki (config g)) regime of
                     (eff_alpha, eff_beta, _) \<Rightarrow>
                       f64_max worst (f64_add eff_alpha (f64_div eff_beta (dt (config g)))))
            0 [Quiet, Active, Burst]
      | None \<Rightarrow> gamma g)"

definition contraction_bound :: "GovernorState \<Rightarrow> f64" where
  "contraction_bound g = f64_max (f64_sub f64_one (alpha (config g))) 0"

definition is_from_rest :: "GovernorState \<Rightarrow> bool" where
  "is_from_rest g \<longleftrightarrow> last_measured_signal g = None \<and>
     f64_le (f64_abs (e_prev g)) f64_epsilon \<and> f64_le (f64_abs (integral g)) f64_epsilon"

definition is_pid_mode :: "GovernorState \<Rightarrow> bool" where
  "is_pid_mode g \<longleftrightarrow> f64_lt 0 (ki (config g))"

definition controller_mode :: "GovernorState \<Rightarrow> string" where
  "controller_mode g = (if is_pid_mode g then ''PID'' else ''PD'')"

definition adaptive_regime_label :: "GovernorState \<Rightarrow> string" where
  "adaptive_regime_label g =
     (case current_regime g of Some r \<Rightarrow> regime_name r | None \<Rightarrow> ''none'')"

definition validate_params :: "GovernorState \<Rightarrow> GovernorError + StabilityReport" where
  "validate_params g =
     (let c = config g in
      if \<not> f64_lt 0 (alpha c) then Err (AlphaNotPositive (alpha c))
      else if f64_lt (beta c) 0 then Err (BetaNegative (beta c))
      else if f64_lt (dt c) f64_one then Err (DtTooSmall (dt c))
      else if \<not> f64_lt 0 (eps_min c) then Err (EpsMinNotPositive (eps_min c))
      else if f64_le (eps_max c) (eps_min c) then Err (EpsMaxNotAboveMin (eps_max c) (eps_min c))
      else if f64_lt (ki c) 0 then Err (KiNegative (ki c))
      else if f64_lt (kb c) 0 then Err (KbNegative (kb c))
      else if f64_le f64_one (gamma g) then Err (GammaTooLarge (gamma g))
      else let worst_gamma = effective_gamma_worst_case g in
        if f64_le f64_one worst_gamma then Err (EffectiveGammaTooLarge worst_gamma)
        else Ok \<lparr>sr_gamma = worst_gamma, sr_contraction_bound = contraction_bound g,
                 sr_regime = (if is_pid_mode g then ''engineering PID (outside formal proof scope)''
                              else ''single-step from-rest no-clamp'')\<rparr>)"

definition regime_label :: "GovernorState \<Rightarrow> string" where
  "regime_label g =
     (if isl (validate_params g) then ''outside formal regime''
      else if is_pid_mode g then
        ''engineering PID multi-step (outside formal proof scope, adaptive='' @
          adaptive_regime_label g @ '')''
      else if is_from_rest g \<and> \<not> clamp_active g then ''single-step from-rest no-clamp''
      else if is_from_rest g then ''from-rest clamp-active (outside formal proof)''
      else ''engineering multi-step (formal scope exited after first observation)'')"

definition formal_warning :: "GovernorState \<Rightarrow> string option" where
  "formal_warning g =
     (if isl (validate_params g) then None
      else if is_pid_mode g then
        Some (''PID mode is an engineering extension; '' @
              ''the formal Lyapunov proof applies only to PD mode.'')
      else if is_from_rest g \<and> \<not> clamp_active g then None
      else if is_from_rest g then
        Some ''Clamp activity has exited the single-step formal proof regime.''
      else if oscillating g then
        Some ''Multi-step operation is empirical only and has shown Lyapunov non-descent.''
      else Some (''Multi-step operation is empirical only; '' @
                 ''the single-step from-rest proof no longer applies.''))"

text \<open>The gains in force for an observation.\<close>

definition step_gains :: "GovernorState \<Rightarrow> f64 \<Rightarrow> LoadRegime option \<times> f64 \<times> f64 \<times> f64" where
  "step_gains g delta =
     (let c = config g;
          occupancy = (if f64_lt 0 (gov_target c) then f64_div delta (gov_target c) else f64_one);
          regime = classify occupancy
      in case adaptive c of
           Some sch \<Rightarrow> (Some regime, effective_gains sch (alpha c) (beta c) (ki c) regime)
         | None \<Rightarrow> (None, alpha c, beta c, ki c))"

definition gov_step :: "GovernorState \<Rightarrow> f64 \<Rightarrow> GovernorState" where
  "gov_step g delta =
     (let c = config g;
          had_history = (last_measured_signal g \<noteq> None);
          previous_lyapunov = lyapunov g delta;
          e = gov_error g delta;
          (regime, eff_alpha, eff_beta, eff_ki) = step_gains g delta;
          g1 = (if f64_lt 0 eff_ki then
                  let r = governor_step_pid (epsilon g) (e_prev g) (integral g) delta (dt c)
                            eff_alpha eff_beta eff_ki (kb c) (eps_min c) (eps_max c) (gov_target c)
                  in g\<lparr>epsilon := pid_epsilon r, integral := pid_integral r,
                       clamp_active := pid_clamped r\<rparr>
                else
                  let eps = governor_step (epsilon g) (e_prev g) delta (dt c) eff_alpha eff_beta
                              (eps_min c) (eps_max c) (gov_target c)
                  in g\<lparr>epsilon := eps,
                       clamp_active :=
                         (f64_lt (f64_abs (f64_sub eps (eps_min c))) f64_epsilon \<or>
                          f64_lt (f64_abs (f64_sub eps (eps_max c))) f64_epsilon)\<rparr>);
          g2 = g1\<lparr>current_regime := regime, e_prev := e\<rparr>;
          lyap = lyapunov g2 delta
      in g2\<lparr>oscillating := (had_history \<and> f64_lt previous_lyapunov lyap),
            last_measured_signal := Some delta, last_lyapunov := Some lyap\<rparr>)"

definition gov_reset :: "GovernorState \<Rightarrow> GovernorState" where
  "gov_reset g =
     g\<lparr>e_prev := 0, integral := 0, last_measured_signal := None, last_lyapunov := None,
       oscillating := False, clamp_active := False, current_regime := None\<rparr>"

section \<open>The controlled value stays in its interval\<close>

definition gov_inv :: "GovernorState \<Rightarrow> bool" where
  "gov_inv g \<longleftrightarrow> f64_le (eps_min (config g)) (epsilon g) \<and> f64_le (epsilon g) (eps_max (config g))"

lemma config_gov_step [simp]: "config (gov_step g delta) = config g"
  by (simp add: gov_step_def Let_def case_prod_beta)

lemma epsilon_gov_step:
  "\<exists>x. epsilon (gov_step g delta) = gov_clamp x (eps_min (config g)) (eps_max (config g))"
  by (auto simp: gov_step_def governor_step_pid_def governor_step_def Let_def case_prod_beta)

lemma gov_step_bounded:
  assumes "f64_le (eps_min (config g)) (eps_max (config g))"
  shows "gov_inv (gov_step g delta)"
  using epsilon_gov_step [of g delta] f64_max_min_bounds [OF assms]
  by (auto simp: gov_inv_def gov_clamp_def)

lemma gov_inv_interval: "gov_inv g \<Longrightarrow> f64_le (eps_min (config g)) (eps_max (config g))"
  by (auto simp: gov_inv_def intro: f64_le_trans)

lemma gov_steps_bounded: "gov_inv g \<Longrightarrow> gov_inv (foldl gov_step g deltas)"
  by (induction deltas arbitrary: g) (auto intro: gov_step_bounded gov_inv_interval)

lemma validate_params_okD:
  assumes "validate_params g = Ok r" "\<not> is_nan (eps_max (config g))"
  shows "f64_lt 0 (alpha (config g)) \<and> f64_lt 0 (eps_min (config g)) \<and>
    f64_lt (eps_min (config g)) (eps_max (config g))"
  using assms
  by (auto simp: validate_params_def Let_def f64_le_def f64_lt_def split: if_splits)

lemma validated_governor_bounded:
  assumes "validate_params (governor_new cfg) = Ok r" "\<not> is_nan (eps_max cfg)"
  shows "gov_inv (foldl gov_step (governor_new cfg) deltas)"
proof (rule gov_steps_bounded)
  have "f64_lt (eps_min cfg) (eps_max cfg)"
    using validate_params_okD [OF assms(1)] assms(2) by (simp add: governor_new_def)
  then show "gov_inv (governor_new cfg)"
    by (auto simp: gov_inv_def governor_new_def f64_lt_le f64_le_refl f64_lt_def)
qed

lemma reset_from_rest: "is_from_rest (gov_reset g)"
  by (simp add: is_from_rest_def gov_reset_def f64_le_def f64_abs_def f64_bits_def f64_mag_def
      is_nan_def f64_key_def f64_neg_def f64_inf_mag_def)

lemma gov_reset_inv [simp]: "gov_inv (gov_reset g) \<longleftrightarrow> gov_inv g"
  by (simp add: gov_inv_def gov_reset_def)

text \<open>
  With both integral gains zero the PID step adds the terms in another order than the PD
  step, so on doubles the two results can differ: here both gains are \<open>2\<^sup>-\<^sup>5\<^sup>3\<close>, which the
  PD step adds up before they meet the state and the PID step loses one by one.
\<close>

lemma pd_example_steps:
  "f64_div f64_one f64_one = f64_one" "f64_sub f64_one 0 = f64_one"
  "f64_mul 0x3ca0000000000000 f64_one = 0x3ca0000000000000" "f64_mul 0 0 = 0"
  "f64_add 0x3ca0000000000000 0x3ca0000000000000 = 0x3cb0000000000000"
  "f64_add f64_one 0x3cb0000000000000 = 0x3ff0000000000001"
  "f64_add f64_one 0x3ca0000000000000 = f64_one" "f64_add f64_one 0 = f64_one"
  by code_simp+

lemma pid_differs_from_pd:
  "pid_epsilon (governor_step_pid f64_one 0 0 f64_one f64_one 0x3ca0000000000000 0x3ca0000000000000
     0 0 0 f64_two 0) = f64_one"
  "governor_step f64_one 0 f64_one f64_one 0x3ca0000000000000 0x3ca0000000000000 0 f64_two 0
     = 0x3ff0000000000001"
  unfolding governor_step_pid_def governor_step_def governor_error_def Let_def pd_example_steps
    PidStepResult.select_convs
  by code_simp+

end
