(* ===== verification/Evictor.thy ===== *)
theory Evictor
  imports Governor
begin

text \<open>
  \<^verbatim>\<open>src/chebyshev_evictor.rs\<close>: liveness scores and the choice of eviction victims, and the
  capacity loop that \<^verbatim>\<open>src/blob_store.rs\<close> and \<^verbatim>\<open>src/vector_index.rs\<close> run after every
  insertion.  Both stores keep the same fields and the same code for it, so the shared
  part is the record \<open>cache\<close> and the functions on it; a store adds its own operations.

  Victims are ranked by a stable sort on the IEEE order of the scores.  The order Rust
  leaves to a score that is not a number does not matter to any theorem here: they use
  only that the ranking is a permutation.
\<close>

section \<open>Chebyshev guard\<close>

definition f64_mean :: "f64 list \<Rightarrow> f64" where
  "f64_mean xs = (if xs = [] then 0 else f64_div (f64_sum xs) (f64_of_nat (length xs)))"

definition stddev :: "libm \<Rightarrow> f64 list \<Rightarrow> f64" where
  "stddev lm xs =
     (if xs = [] then 0
      else let m = f64_mean xs;
               variance = f64_div (f64_sum (map (\<lambda>v. f64_mul (f64_sub v m) (f64_sub v m)) xs))
                            (f64_of_nat (length xs))
           in m_sqrt lm variance)"

definition reclaimable_threshold :: "libm \<Rightarrow> f64 list \<Rightarrow> f64 \<Rightarrow> f64" where
  "reclaimable_threshold lm xs k = f64_sub (f64_mean xs) (f64_mul k (stddev lm xs))"

definition reclaimable_count :: "libm \<Rightarrow> f64 list \<Rightarrow> f64 \<Rightarrow> nat" where
  "reclaimable_count lm xs k =
     (let thr = f64_sub (f64_mean xs) (f64_mul k (stddev lm xs))
      in length (filter (\<lambda>v. f64_le v thr) xs))"

definition chebyshev_guard_check :: "libm \<Rightarrow> f64 list \<Rightarrow> f64 \<Rightarrow> bool" where
  "chebyshev_guard_check lm xs k =
     (if xs = [] \<or> f64_le k 0 then False
      else if f64_le (stddev lm xs) 0 then True
      else f64_le (f64_of_nat (reclaimable_count lm xs k))
             (f64_add (f64_div (f64_of_nat (length xs)) (f64_mul k k)) 0x3d719799812dea11))"

record EvictorStats =
  tracked_items :: nat
  guarded_items :: nat
  reclaimable_items :: nat
  last_candidate_count :: nat

record ChebyshevEvictor =
  liveness :: "(string, f64) btree_map"
  cheb_k :: f64
  decay_rate :: f64
  impulse_magnitude :: f64
  ev_stats :: EvictorStats

definition evictor_new :: "f64 \<Rightarrow> f64 \<Rightarrow> f64 \<Rightarrow> ChebyshevEvictor" where
  "evictor_new k rate impulse =
     \<lparr>liveness = [], cheb_k = k, decay_rate = rate, impulse_magnitude = impulse,
      ev_stats = \<lparr>tracked_items = 0, guarded_items = 0, reclaimable_items = 0,
        last_candidate_count = 0\<rparr>\<rparr>"

definition default_evictor :: ChebyshevEvictor where
  "default_evictor = evictor_new f64_two 0x3fa999999999999a f64_one"

definition ev_values :: "ChebyshevEvictor \<Rightarrow> f64 list" where
  "ev_values ev = map snd (liveness ev)"

definition refresh_stats :: "libm \<Rightarrow> ChebyshevEvictor \<Rightarrow> nat \<Rightarrow> ChebyshevEvictor" where
  "refresh_stats lm ev n =
     (let vals = ev_values ev;
          recl = (if vals = [] then 0 else reclaimable_count lm vals (cheb_k ev))
      in ev\<lparr>ev_stats := \<lparr>tracked_items = length vals, guarded_items = length vals - recl,
              reclaimable_items = recl, last_candidate_count = n\<rparr>\<rparr>)"

definition record_access :: "libm \<Rightarrow> ChebyshevEvictor \<Rightarrow> string \<Rightarrow> ChebyshevEvictor" where
  "record_access lm ev key =
     (let old = (case bt_get (liveness ev) key of Some v \<Rightarrow> v | None \<Rightarrow> 0)
      in refresh_stats lm
           (ev\<lparr>liveness := bt_insert key (f64_add old (impulse_magnitude ev)) (liveness ev)\<rparr>) 0)"

definition decay_steps :: "libm \<Rightarrow> ChebyshevEvictor \<Rightarrow> u64 \<Rightarrow> ChebyshevEvictor" where
  "decay_steps lm ev steps =
     (if steps = 0 then ev
      else let factor = m_powf lm (f64_clamp (f64_sub f64_one (decay_rate ev)) 0 f64_one)
                          (f64_of_nat (unat steps))
           in refresh_stats lm
                (ev\<lparr>liveness := map (\<lambda>(k, v). (k, f64_mul v factor)) (liveness ev)\<rparr>) 0)"

definition tick :: "libm \<Rightarrow> ChebyshevEvictor \<Rightarrow> ChebyshevEvictor" where
  "tick lm ev = decay_steps lm ev 1"

definition remove_key :: "libm \<Rightarrow> ChebyshevEvictor \<Rightarrow> string \<Rightarrow> ChebyshevEvictor" where
  "remove_key lm ev key = refresh_stats lm (ev\<lparr>liveness := bt_remove key (liveness ev)\<rparr>) 0"

text \<open>
  A stable sort by score; scores that are NaN, on which the comparison of the source is not
  an order, are sorted by their bit pattern.
\<close>

definition by_score :: "(string \<times> f64) list \<Rightarrow> (string \<times> f64) list" where
  "by_score ps = sort_key (\<lambda>p. f64_key (snd p)) ps"

definition eviction_candidates ::
  "libm \<Rightarrow> ChebyshevEvictor \<Rightarrow> nat \<Rightarrow> string list \<times> ChebyshevEvictor" where
  "eviction_candidates lm ev n =
     (if liveness ev = [] \<or> n = 0 then ([], refresh_stats lm ev 0)
      else if \<not> chebyshev_guard_check lm (ev_values ev) (cheb_k ev) then ([], refresh_stats lm ev 0)
      else let thr = reclaimable_threshold lm (ev_values ev) (cheb_k ev);
               recl = by_score (filter (\<lambda>p. f64_le (snd p) thr) (liveness ev));
               ks = map fst (take n recl)
           in (ks, refresh_stats lm ev (length ks)))"

definition is_guarded :: "libm \<Rightarrow> ChebyshevEvictor \<Rightarrow> string \<Rightarrow> bool" where
  "is_guarded lm ev key =
     (case bt_get (liveness ev) key of
        None \<Rightarrow> False
      | Some score \<Rightarrow>
          if ev_values ev = [] then False
          else f64_lt (reclaimable_threshold lm (ev_values ev) (cheb_k ev)) score)"

definition guarded_count :: "libm \<Rightarrow> ChebyshevEvictor \<Rightarrow> nat" where
  "guarded_count lm ev =
     (if ev_values ev = [] then 0
      else length (filter (f64_lt (reclaimable_threshold lm (ev_values ev) (cheb_k ev)))
                     (ev_values ev)))"

definition least_live_keys :: "ChebyshevEvictor \<Rightarrow> nat \<Rightarrow> string list" where
  "least_live_keys ev n = map fst (take n (by_score (liveness ev)))"

section \<open>A bounded store\<close>

record 'v cache =
  entries_of :: "(string, 'v) btree_map"
  evictor :: ChebyshevEvictor
  max_entries :: nat
  memory_governor :: GovernorState
  last_eviction_count :: nat
  last_maintenance_unix :: u64
  last_activity_unix :: u64

text \<open>
  The two eviction loops.  The first drops unguarded candidates, the second drops the
  least live keys; both stop as soon as the store fits.
\<close>

fun evict_candidates ::
  "libm \<Rightarrow> nat \<Rightarrow> string list \<Rightarrow> (string, 'v) btree_map \<times> ChebyshevEvictor \<times> nat \<Rightarrow>
    (string, 'v) btree_map \<times> ChebyshevEvictor \<times> nat" where
  "evict_candidates lm cap [] st = st"
| "evict_candidates lm cap (k # ks) (m, ev, n) =
     (if length m \<le> cap then (m, ev, n)
      else if is_guarded lm ev k then evict_candidates lm cap ks (m, ev, n)
      else evict_candidates lm cap ks (bt_remove k m, remove_key lm ev k, n + 1))"

fun evict_least_live ::
  "libm \<Rightarrow> nat \<Rightarrow> string list \<Rightarrow> (string, 'v) btree_map \<times> ChebyshevEvictor \<times> nat \<Rightarrow>
    (string, 'v) btree_map \<times> ChebyshevEvictor \<times> nat" where
  "evict_least_live lm cap [] st = st"
| "evict_least_live lm cap (k # ks) (m, ev, n) =
     (if length m \<le> cap then (m, ev, n)
      else if bt_contains m k then
        evict_least_live lm cap ks (bt_remove k m, remove_key lm ev k, n + 1)
      else evict_least_live lm cap ks (m, ev, n))"

definition enforce_pressure :: "libm \<Rightarrow> ('v, 'z) cache_scheme \<Rightarrow> ('v, 'z) cache_scheme" where
  "enforce_pressure lm c =
     (if entries_of c = [] then c\<lparr>last_eviction_count := 0\<rparr>
      else
        let gov = gov_step (memory_governor c) (f64_of_nat (length (entries_of c)));
            c1 = c\<lparr>last_eviction_count := 0, memory_governor := gov\<rparr>
        in if length (entries_of c) \<le> max_entries c then c1
           else
             let overage = length (entries_of c) - max_entries c;
                 budget = f64_to_usize (f64_max (f64_ceil (epsilon gov)) f64_one);
                 (cands, ev) = eviction_candidates lm (evictor c) (max budget overage);
                 (m1, ev1, n1) = evict_candidates lm (max_entries c) cands (entries_of c, ev, 0);
                 (m2, ev2, n2) =
                   (if max_entries c < length m1 then
                      evict_least_live lm (max_entries c) (least_live_keys ev1 (length m1)) (m1, ev1, n1)
                    else (m1, ev1, n1))
             in c1\<lparr>entries_of := m2, evictor := ev2, last_eviction_count := n2\<rparr>)"

text \<open>\<^verbatim>\<open>storage_reset_window_secs\<close> is 30 seconds; \<open>u64\<close> subtraction saturates.\<close>

definition sat_sub :: "u64 \<Rightarrow> u64 \<Rightarrow> u64" where
  "sat_sub a b = (if a < b then 0 else a - b)"

definition apply_time_maintenance ::
  "libm \<Rightarrow> u64 \<Rightarrow> ('v, 'z) cache_scheme \<Rightarrow> bool \<times> ('v, 'z) cache_scheme" where
  "apply_time_maintenance lm now c =
     (let c1 = (if last_maintenance_unix c = 0 then c\<lparr>last_maintenance_unix := now\<rparr> else c);
          elapsed = sat_sub now (last_maintenance_unix c1);
          c2 = (if 0 < elapsed then
                  c1\<lparr>evictor := decay_steps lm (evictor c1) elapsed, last_maintenance_unix := now\<rparr>
                else c1);
          do_reset = (entries_of c2 \<noteq> [] \<and> \<not> is_from_rest (memory_governor c2) \<and>
                      30 \<le> sat_sub now (last_activity_unix c2));
          c3 = (if do_reset then c2\<lparr>memory_governor := gov_reset (memory_governor c2)\<rparr> else c2)
      in (0 < elapsed \<or> do_reset, c3))"

section \<open>Liveness follows the stored keys\<close>

definition cache_inv :: "('v, 'z) cache_scheme \<Rightarrow> bool" where
  "cache_inv c \<longleftrightarrow> bt_wf (entries_of c) \<and> bt_wf (liveness (evictor c)) \<and>
     bt_keys (entries_of c) = bt_keys (liveness (evictor c)) \<and> 0 < max_entries c"

lemma liveness_refresh [simp]: "liveness (refresh_stats lm ev n) = liveness ev"
  by (simp add: refresh_stats_def Let_def)

lemma liveness_remove_key [simp]: "liveness (remove_key lm ev k) = bt_remove k (liveness ev)"
  by (simp add: remove_key_def)

lemma liveness_candidates [simp]: "liveness (snd (eviction_candidates lm ev n)) = liveness ev"
  by (simp add: eviction_candidates_def Let_def)

lemma set_keys_insert [simp]: "set (bt_keys (bt_insert k v m)) = insert k (set (bt_keys m))"
  using set_bt_insert_keys [of k v m] by (simp add: bt_keys_def)

lemma set_keys_remove [simp]: "bt_wf m \<Longrightarrow> set (bt_keys (bt_remove k m)) = set (bt_keys m) - {k}"
  using dom_bt_get [of "bt_remove k m"] by simp

lemma keys_insert_cong:
  assumes "bt_wf m" "bt_wf m'" "bt_keys m = bt_keys m'"
  shows "bt_keys (bt_insert k v m) = bt_keys (bt_insert k w m')"
  using assms by (intro strict_sorted_equal bt_sorted_keys) simp_all

lemma keys_remove: "bt_keys (bt_remove k m) = remove1 k (bt_keys m)"
  by (induction m rule: bt_remove.induct) (auto simp: bt_keys_def)

lemma liveness_record_access:
  "\<exists>v. liveness (record_access lm ev k) = bt_insert k v (liveness ev)"
  by (auto simp: record_access_def Let_def)

lemma keys_map_snd: "bt_keys (map (\<lambda>(k, v). (k, f v)) m) = bt_keys m"
  by (simp add: bt_keys_def case_prod_beta comp_def)

lemma wf_by_keys: "bt_keys m = bt_keys m' \<Longrightarrow> bt_wf m' \<Longrightarrow> bt_wf m"
  by (simp add: bt_keys_def bt_wf_def)

lemma keys_decay [simp]: "bt_keys (liveness (decay_steps lm ev n)) = bt_keys (liveness ev)"
  by (simp add: decay_steps_def Let_def keys_map_snd)

lemma wf_decay [simp]: "bt_wf (liveness ev) \<Longrightarrow> bt_wf (liveness (decay_steps lm ev n))"
  using wf_by_keys keys_decay by metis

lemma set_by_score [simp]: "set (by_score ps) = set ps" "length (by_score ps) = length ps"
  by (simp_all add: by_score_def)

text \<open>Every victim the guard proposes is tracked and not above the threshold.\<close>

lemma candidates_reclaimable:
  assumes "k \<in> set (fst (eviction_candidates lm ev n))" "bt_wf (liveness ev)"
  shows "\<exists>s. bt_get (liveness ev) k = Some s \<and>
    f64_le s (reclaimable_threshold lm (ev_values ev) (cheb_k ev))"
  using assms
  by (auto simp: eviction_candidates_def Let_def bt_get_iff_mem dest!: in_set_takeD split: if_splits)

lemma candidates_unguarded:
  assumes "k \<in> set (fst (eviction_candidates lm ev n))" "bt_wf (liveness ev)"
  shows "\<not> is_guarded lm ev k"
  using candidates_reclaimable [OF assms]
  by (auto simp: is_guarded_def f64_le_def f64_lt_def)

lemma length_candidates: "length (fst (eviction_candidates lm ev n)) \<le> n"
  by (simp add: eviction_candidates_def Let_def)

section \<open>The eviction loops\<close>

definition loop_inv ::
  "(string, 'v) btree_map \<Rightarrow> (string, 'v) btree_map \<times> ChebyshevEvictor \<times> nat \<Rightarrow> bool" where
  "loop_inv m0 st \<longleftrightarrow>
     (case st of (m, ev, n) \<Rightarrow>
        bt_wf m \<and> bt_wf (liveness ev) \<and> bt_keys m = bt_keys (liveness ev) \<and>
        bt_get m \<subseteq>\<^sub>m bt_get m0)"

lemma loop_inv_remove:
  "loop_inv m0 (m, ev, n) \<Longrightarrow> loop_inv m0 (bt_remove k m, remove_key lm ev k, n')"
  by (auto simp: loop_inv_def keys_remove intro: map_le_trans [OF upd_None_map_le])

lemma evict_candidates_inv: "loop_inv m0 st \<Longrightarrow> loop_inv m0 (evict_candidates lm cap ks st)"
  by (induction lm cap ks st rule: evict_candidates.induct) (auto intro: loop_inv_remove)

lemma evict_least_live_inv: "loop_inv m0 st \<Longrightarrow> loop_inv m0 (evict_least_live lm cap ks st)"
  by (induction lm cap ks st rule: evict_least_live.induct) (auto intro: loop_inv_remove)

lemma evict_least_live_fits:
  "bt_wf m \<Longrightarrow> set (bt_keys m) \<subseteq> set ks \<Longrightarrow>
    length (fst (evict_least_live lm cap ks (m, ev, n))) \<le> cap"
proof (induction ks arbitrary: m ev n)
  case Nil
  then show ?case by (simp add: bt_keys_def)
next
  case (Cons k ks)
  then have "set (bt_keys (bt_remove k m)) \<subseteq> set ks" "k \<notin> set (bt_keys m) \<Longrightarrow> set (bt_keys m) \<subseteq> set ks"
    by auto
  with Cons show ?case by simp
qed

lemma enforce_pressure_spec:
  assumes "cache_inv c"
  shows "cache_inv (enforce_pressure lm c) \<and>
    length (entries_of (enforce_pressure lm c)) \<le> max_entries c \<and>
    bt_get (entries_of (enforce_pressure lm c)) \<subseteq>\<^sub>m bt_get (entries_of c)"
proof (cases "length (entries_of c) \<le> max_entries c")
  case True
  then show ?thesis
    using assms by (auto simp: enforce_pressure_def cache_inv_def Let_def)
next
  case False
  let ?gov = "gov_step (memory_governor c) (f64_of_nat (length (entries_of c)))"
  let ?n = "max (f64_to_usize (f64_max (f64_ceil (epsilon ?gov)) f64_one))
    (length (entries_of c) - max_entries c)"
  obtain cands ev where ca: "eviction_candidates lm (evictor c) ?n = (cands, ev)" by fastforce
  have ev: "liveness ev = liveness (evictor c)"
    using liveness_candidates [of lm "evictor c" ?n] by (simp add: ca)
  obtain m1 ev1 n1 where l1: "evict_candidates lm (max_entries c) cands (entries_of c, ev, 0) = (m1, ev1, n1)"
    by (metis prod_cases3)
  have i1: "loop_inv (entries_of c) (m1, ev1, n1)"
    using evict_candidates_inv [of "entries_of c" "(entries_of c, ev, 0)" lm "max_entries c" cands] assms
    by (simp add: l1 loop_inv_def cache_inv_def ev)
  define st2 where "st2 = (if max_entries c < length m1
    then evict_least_live lm (max_entries c) (least_live_keys ev1 (length m1)) (m1, ev1, n1)
    else (m1, ev1, n1))"
  obtain m2 ev2 n2 where st2: "st2 = (m2, ev2, n2)" by (metis prod_cases3)
  have i2: "loop_inv (entries_of c) (m2, ev2, n2)"
    using i1 evict_least_live_inv [OF i1] by (simp add: st2_def flip: st2)
  have "bt_keys m1 = bt_keys (liveness ev1)"
    using i1 by (simp add: loop_inv_def)
  then have "length (bt_keys m1) = length (bt_keys (liveness ev1))" by (rule arg_cong)
  then have "length m1 = length (liveness ev1)" by (simp only: length_bt_keys)
  then have "set (bt_keys m1) \<subseteq> set (least_live_keys ev1 (length m1))"
    using i1 by (simp add: loop_inv_def least_live_keys_def bt_keys_def)
  then have "length m2 \<le> max_entries c"
    using evict_least_live_fits [of m1 "least_live_keys ev1 (length m1)" lm "max_entries c" ev1 n1] i1 st2
    by (auto simp: st2_def loop_inv_def split: if_splits)
  moreover have "entries_of c \<noteq> []" using False by auto
  then have "enforce_pressure lm c = c\<lparr>memory_governor := ?gov, entries_of := m2, evictor := ev2,
      last_eviction_count := n2\<rparr>"
    using False unfolding enforce_pressure_def Let_def ca prod.case l1 st2 [unfolded st2_def]
    by simp
  ultimately show ?thesis
    using i2 assms by (simp add: cache_inv_def loop_inv_def)
qed

lemma enforce_pressure_within:
  "length (entries_of c) \<le> max_entries c \<Longrightarrow> entries_of (enforce_pressure lm c) = entries_of c"
  by (simp add: enforce_pressure_def Let_def)

lemma max_entries_enforce [simp]: "max_entries (enforce_pressure lm c) = max_entries c"
  by (simp add: enforce_pressure_def Let_def case_prod_beta)

lemma maintenance_entries [simp]:
  "entries_of (snd (apply_time_maintenance lm now c)) = entries_of c"
  "max_entries (snd (apply_time_maintenance lm now c)) = max_entries c"
  "bt_keys (liveness (evictor (snd (apply_time_maintenance lm now c)))) = bt_keys (liveness (evictor c))"
  by (simp_all add: apply_time_maintenance_def Let_def)

lemma maintenance_inv: "cache_inv c \<Longrightarrow> cache_inv (snd (apply_time_maintenance lm now c))"
  by (auto simp: cache_inv_def intro: wf_by_keys [of _ "liveness (evictor c)"])

end
