(* ===== verification/Blob_Store.thy ===== *)
theory Blob_Store
  imports Evictor
begin

text \<open>
  \<^verbatim>\<open>src/blob_store.rs\<close>: payloads of blob typed values, by key name, with a ceiling on their
  number.  The clock reading of each operation is its argument \<open>now\<close>.
\<close>

section \<open>The contract of a bounded store\<close>

text \<open>
  What the database relies on: a store never holds more entries than its capacity, it
  only ever holds what was put, and as long as there is room a put is not lost.
\<close>

locale bounded_store =
  fixes contents :: "'s \<Rightarrow> (string, 'v) btree_map"
    and store :: "u64 \<Rightarrow> string \<Rightarrow> 'v \<Rightarrow> 's \<Rightarrow> 's"
    and drop_entry :: "string \<Rightarrow> 's \<Rightarrow> 's"
    and accepts :: "'s \<Rightarrow> 'v \<Rightarrow> bool"
    and capacity :: "'s \<Rightarrow> nat"
    and store_inv :: "'s \<Rightarrow> bool"
  assumes contents_wf: "store_inv s \<Longrightarrow> bt_wf (contents s)"
    and inv_store: "store_inv s \<Longrightarrow> store_inv (store now k v s)"
    and inv_drop: "store_inv s \<Longrightarrow> store_inv (drop_entry k s)"
    and capacity_store: "capacity (store now k v s) = capacity s"
    and store_fits: "store_inv s \<Longrightarrow> accepts s v \<Longrightarrow> length (contents (store now k v s)) \<le> capacity s"
    and store_sub: "store_inv s \<Longrightarrow> accepts s v \<Longrightarrow>
      bt_get (contents (store now k v s)) \<subseteq>\<^sub>m (bt_get (contents s))(k \<mapsto> v)"
    and store_room: "store_inv s \<Longrightarrow> accepts s v \<Longrightarrow>
      length (bt_insert k v (contents s)) \<le> capacity s \<Longrightarrow>
      contents (store now k v s) = bt_insert k v (contents s)"
    and contents_drop: "contents (drop_entry k s) = bt_remove k (contents s)"
begin

lemma get_after_store:
  assumes "store_inv s" "accepts s v" "length (contents s) < capacity s"
  shows "bt_get (contents (store now k v s)) = (bt_get (contents s))(k \<mapsto> v)"
proof -
  have "length (bt_insert k v (contents s)) \<le> Suc (length (contents s))"
    using bt.length_keys_ins [OF contents_wf [OF assms(1)], of k v] by simp
  then show ?thesis
    using store_room [OF assms(1,2), of k now] assms(3) by simp
qed

lemma overwrite_kept:
  assumes "store_inv s" "accepts s v" "length (contents s) \<le> capacity s" "bt_contains (contents s) k"
  shows "bt_get (contents (store now k v s)) = (bt_get (contents s))(k \<mapsto> v)"
proof -
  have "length (bt_insert k v (contents s)) = length (contents s)"
    using bt.length_keys_ins [OF contents_wf [OF assms(1)], of k v] assms(4) by simp
  then show ?thesis
    using store_room [OF assms(1,2), of k now] assms(3) by simp
qed

lemma get_after_drop:
  "store_inv s \<Longrightarrow> bt_get (contents (drop_entry k s)) = (bt_get (contents s))(k := None)"
  by (simp add: contents_drop contents_wf)

lemma stored_or_evicted:
  assumes "store_inv s" "accepts s v"
  shows "bt_get (contents (store now k v s)) k \<in> {None, Some v}"
proof (cases "bt_get (contents (store now k v s)) k")
  case (Some w)
  then have "k \<in> dom (bt_get (contents (store now k v s)))" by (simp only: domIff) simp
  then show ?thesis
    using store_sub [OF assms, of now k] by (simp only: map_le_def) (auto simp: Some)
qed simp

end

section \<open>Operations\<close>

type_synonym BlobStore = "bytes cache"

definition default_ceiling :: nat where
  "default_ceiling = 100000"

definition default_memory_governor :: "string \<Rightarrow> string \<Rightarrow> GovernorState" where
  "default_memory_governor inst basis =
     governor_new \<lparr>instance_id = inst, alpha = 0x3f847ae147ae147b, beta = 0x3fa999999999999a,
       dt = f64_one, eps_min = f64_one, eps_max = 0x4080000000000000,
       gov_target = f64_of_nat default_ceiling, formal_basis = basis,
       ki = 0x3f50624dd2f1a9fc, kb = 0x3fa02de00d1b7176, adaptive = Some default_schedule\<rparr>"

definition blob_new :: "u64 \<Rightarrow> BlobStore" where
  "blob_new now =
     \<lparr>entries_of = [], evictor = default_evictor, max_entries = default_ceiling,
      memory_governor = default_memory_governor ''gov-memory-blob''
        ''HeytingLean.Bridge.Sharma.AetherGovernor.validatorRegime'',
      last_eviction_count = 0, last_maintenance_unix = now, last_activity_unix = now\<rparr>"

definition blob_put :: "libm \<Rightarrow> u64 \<Rightarrow> string \<Rightarrow> bytes \<Rightarrow> BlobStore \<Rightarrow> BlobStore" where
  "blob_put lm now key data b =
     (let b1 = snd (apply_time_maintenance lm now b)
      in enforce_pressure lm
           (b1\<lparr>entries_of := bt_insert key data (entries_of b1),
               evictor := record_access lm (evictor b1) key,
               last_activity_unix := now\<rparr>))"

definition blob_get :: "BlobStore \<Rightarrow> string \<Rightarrow> bytes option" where
  "blob_get b key = bt_get (entries_of b) key"

definition blob_get_with_access ::
  "libm \<Rightarrow> u64 \<Rightarrow> string \<Rightarrow> BlobStore \<Rightarrow> bytes option \<times> BlobStore" where
  "blob_get_with_access lm now key b =
     (let b1 = snd (apply_time_maintenance lm now b);
          b2 = (if bt_contains (entries_of b1) key then
                  b1\<lparr>evictor := record_access lm (evictor b1) key, last_activity_unix := now\<rparr>
                else b1)
      in (bt_get (entries_of b2) key, b2))"

definition blob_remove :: "libm \<Rightarrow> string \<Rightarrow> BlobStore \<Rightarrow> bytes option \<times> BlobStore" where
  "blob_remove lm key b =
     (bt_get (entries_of b) key,
      b\<lparr>evictor := remove_key lm (evictor b) key, entries_of := bt_remove key (entries_of b)\<rparr>)"

definition blob_contains :: "BlobStore \<Rightarrow> string \<Rightarrow> bool" where
  "blob_contains b key = bt_contains (entries_of b) key"

definition blob_len :: "BlobStore \<Rightarrow> nat" where
  "blob_len b = length (entries_of b)"

definition total_bytes :: "BlobStore \<Rightarrow> nat" where
  "total_bytes b = sum_list (map (length \<circ> snd) (entries_of b))"

definition cache_set_max_entries :: "libm \<Rightarrow> u64 \<Rightarrow> nat \<Rightarrow> ('v, 'z) cache_scheme \<Rightarrow> ('v, 'z) cache_scheme" where
  "cache_set_max_entries lm now n b =
     (let b1 = snd (apply_time_maintenance lm now b);
          cap = max n 1;
          g = memory_governor b1
      in enforce_pressure lm
           (b1\<lparr>max_entries := cap,
               memory_governor := g\<lparr>config := (config g)\<lparr>gov_target := f64_of_nat cap\<rparr>\<rparr>\<rparr>))"

definition cache_soft_reset :: "('v, 'z) cache_scheme \<Rightarrow> ('v, 'z) cache_scheme" where
  "cache_soft_reset b = b\<lparr>memory_governor := gov_reset (memory_governor b)\<rparr>"

section \<open>The blob store keeps the contract\<close>

lemma blob_new_inv: "cache_inv (blob_new now)"
  by (simp add: cache_inv_def blob_new_def default_evictor_def evictor_new_def bt_keys_def
      default_ceiling_def)

lemma inserted_inv:
  assumes "cache_inv c"
  shows "cache_inv (c\<lparr>entries_of := bt_insert key v (entries_of c),
    evictor := record_access lm (evictor c) key, last_activity_unix := now\<rparr>)"
proof -
  obtain x where "liveness (record_access lm (evictor c) key) = bt_insert key x (liveness (evictor c))"
    using liveness_record_access by blast
  then show ?thesis
    using assms by (auto simp: cache_inv_def intro: keys_insert_cong)
qed

lemma accessed_inv:
  assumes "cache_inv c" "bt_contains (entries_of c) key"
  shows "cache_inv (c\<lparr>evictor := record_access lm (evictor c) key\<rparr>)"
proof -
  obtain x where l: "liveness (record_access lm (evictor c) key) = bt_insert key x (liveness (evictor c))"
    using liveness_record_access by blast
  have wf: "bt_wf (liveness (evictor c))" "bt_keys (entries_of c) = bt_keys (liveness (evictor c))"
    using assms(1) by (simp_all add: cache_inv_def)
  then have "bt_keys (bt_insert key x (liveness (evictor c))) = bt_keys (liveness (evictor c))"
    using assms(2) by (intro strict_sorted_equal bt_sorted_keys) (simp_all add: insert_absorb)
  with assms(1) wf show ?thesis by (simp add: cache_inv_def l)
qed

lemma blob_put_spec:
  assumes "cache_inv b"
  shows "cache_inv (blob_put lm now k v b) \<and> length (entries_of (blob_put lm now k v b)) \<le> max_entries b \<and>
    bt_get (entries_of (blob_put lm now k v b)) \<subseteq>\<^sub>m (bt_get (entries_of b))(k \<mapsto> v)"
  using enforce_pressure_spec [OF inserted_inv [OF maintenance_inv [OF assms, of lm now], where key = k and v = v and lm = lm and now = now], of lm]
  by (simp add: blob_put_def Let_def)

lemma max_entries_blob_put [simp]: "max_entries (blob_put lm now k v b) = max_entries b"
  by (simp add: blob_put_def Let_def)

lemma blob_put_room:
  "length (bt_insert k v (entries_of b)) \<le> max_entries b \<Longrightarrow>
    entries_of (blob_put lm now k v b) = bt_insert k v (entries_of b)"
  by (simp add: blob_put_def Let_def enforce_pressure_within)

lemma blob_remove_inv: "cache_inv b \<Longrightarrow> cache_inv (snd (blob_remove lm k b))"
  by (simp add: cache_inv_def blob_remove_def keys_remove)

interpretation blobs: bounded_store entries_of "blob_put lm" "\<lambda>k b. snd (blob_remove lm k b)"
  "\<lambda>b v. True" max_entries cache_inv for lm
proof unfold_locales
  fix b :: BlobStore and now k v
  assume "cache_inv b"
  note spec = blob_put_spec [OF this, of lm now k v]
  show "cache_inv (blob_put lm now k v b)" using spec by blast
  show "length (entries_of (blob_put lm now k v b)) \<le> max_entries b" using spec by blast
  show "bt_get (entries_of (blob_put lm now k v b)) \<subseteq>\<^sub>m (bt_get (entries_of b))(k \<mapsto> v)"
    using spec by blast
qed (simp_all add: blob_put_room blob_remove_inv blob_remove_def cache_inv_def keys_remove)

lemma blob_get_with_access_spec:
  assumes "cache_inv b"
  shows "fst (blob_get_with_access lm now k b) = blob_get b k \<and>
    cache_inv (snd (blob_get_with_access lm now k b)) \<and>
    entries_of (snd (blob_get_with_access lm now k b)) = entries_of b"
proof -
  have "cache_inv (b1\<lparr>evictor := e, last_activity_unix := now\<rparr>)"
    if "cache_inv (b1\<lparr>evictor := e\<rparr>)" for b1 :: BlobStore and e
    using that by (simp add: cache_inv_def)
  then show ?thesis
    using maintenance_inv [OF assms] accessed_inv [OF maintenance_inv [OF assms]]
    by (auto simp: blob_get_with_access_def Let_def blob_get_def)
qed

lemma set_max_entries_spec:
  assumes "cache_inv c"
  shows "cache_inv (cache_set_max_entries lm now n c) \<and>
    length (entries_of (cache_set_max_entries lm now n c)) \<le> max n 1"
proof -
  let ?c1 = "snd (apply_time_maintenance lm now c)"
  let ?c2 = "?c1\<lparr>max_entries := max n 1, memory_governor := (memory_governor ?c1)
    \<lparr>config := (config (memory_governor ?c1))\<lparr>gov_target := f64_of_nat (max n 1)\<rparr>\<rparr>\<rparr>"
  have "cache_inv ?c2" using maintenance_inv [OF assms, of lm now] by (simp add: cache_inv_def)
  from enforce_pressure_spec [OF this, of lm] show ?thesis
    by (simp add: cache_set_max_entries_def Let_def)
qed

lemma cache_soft_reset_inv: "cache_inv c \<Longrightarrow> cache_inv (cache_soft_reset c)"
  by (simp add: cache_inv_def cache_soft_reset_def)

end
