(* ===== verification/Vector_Index.thy ===== *)
theory Vector_Index
  imports Blob_Store Rust_Text
begin

text \<open>
  \<^verbatim>\<open>src/vector_index.rs\<close>: exact nearest neighbour search over the vectors of one dimension,
  with the same capacity control as the blob store.  A \<^verbatim>\<open>BTreeMap::range\<close> call with a start
  after its end panics; a search that panics is \<open>None\<close>.
\<close>

section \<open>Metrics\<close>

datatype DistanceMetric = Cosine | L2 | InnerProduct

definition metric_from_str_tag :: "string \<Rightarrow> DistanceMetric option" where
  "metric_from_str_tag s =
     (let t = to_ascii_lowercase s
      in if t = ''cosine'' then Some Cosine
         else if t = ''l2'' \<or> t = ''euclidean'' then Some L2
         else if t = ''ip'' \<or> t = ''inner_product'' \<or> t = ''dot'' then Some InnerProduct
         else None)"

definition inner_product :: "f64 list \<Rightarrow> f64 list \<Rightarrow> f64" where
  "inner_product a b = f64_sum (map (\<lambda>(x, y). f64_mul x y) (zip a b))"

definition l2_distance :: "libm \<Rightarrow> f64 list \<Rightarrow> f64 list \<Rightarrow> f64" where
  "l2_distance lm a b =
     m_sqrt lm (f64_sum (map (\<lambda>(x, y). f64_mul (f64_sub x y) (f64_sub x y)) (zip a b)))"

definition cosine_distance_checked :: "libm \<Rightarrow> f64 list \<Rightarrow> f64 list \<Rightarrow> string + f64" where
  "cosine_distance_checked lm a b =
     (if length a \<noteq> length b then
        Err (''cosine distance dimension mismatch: '' @ dec (length a) @ '' vs '' @ dec (length b))
      else
        let dot = f64_sum (map (\<lambda>(x, y). f64_mul x y) (zip a b));
            norm_a = m_sqrt lm (f64_sum (map (\<lambda>x. f64_mul x x) a));
            norm_b = m_sqrt lm (f64_sum (map (\<lambda>x. f64_mul x x) b));
            denom = f64_mul norm_a norm_b
        in if f64_eq denom 0 then Err ''cosine distance undefined for zero-norm vectors''
           else Ok (f64_sub f64_one (f64_div dot denom)))"

definition cosine_distance :: "libm \<Rightarrow> f64 list \<Rightarrow> f64 list \<Rightarrow> f64" where
  "cosine_distance lm a b =
     (case cosine_distance_checked lm a b of Inr d \<Rightarrow> d | Inl _ \<Rightarrow> f64_one)"

definition compute_distance :: "libm \<Rightarrow> f64 list \<Rightarrow> f64 list \<Rightarrow> DistanceMetric \<Rightarrow> f64" where
  "compute_distance lm a b metric =
     (case metric of
        Cosine \<Rightarrow> cosine_distance lm a b
      | L2 \<Rightarrow> l2_distance lm a b
      | InnerProduct \<Rightarrow> inner_product a b)"

section \<open>Prefix ranges\<close>

text \<open>
  \<^verbatim>\<open>String::pop\<close> on the encoding: the last scalar is the last byte that is not a
  continuation byte and what follows it.  \<^verbatim>\<open>last as u8\<close> keeps the low eight bits of the
  scalar, and \<^verbatim>\<open>char::from\<close> encodes a byte above 127 in two bytes.
\<close>

definition is_continuation :: "char \<Rightarrow> bool" where
  "is_continuation c \<longleftrightarrow> 128 \<le> code c \<and> code c < 192"

definition pop_char :: "string \<Rightarrow> (string \<times> string) option" where
  "pop_char s =
     (if s = [] then None
      else let n = length (takeWhile is_continuation (rev s)); i = length s - n - 1
           in Some (take i s, drop i s))"

definition scalar_of :: "string \<Rightarrow> nat" where
  "scalar_of cs =
     (case cs of
        [a] \<Rightarrow> code a
      | [a, b] \<Rightarrow> (code a mod 32) * 64 + code b mod 64
      | [a, b, c] \<Rightarrow> (code a mod 16) * 4096 + (code b mod 64) * 64 + code c mod 64
      | [a, b, c, d] \<Rightarrow>
          (code a mod 8) * 262144 + (code b mod 64) * 4096 + (code c mod 64) * 64 + code d mod 64
      | _ \<Rightarrow> 0)"

definition char_from_u8 :: "nat \<Rightarrow> string" where
  "char_from_u8 b = (if b < 128 then [char_of b] else [char_of (192 + b div 64), char_of (128 + b mod 64)])"

definition bt_range ::
  "('k::linorder, 'v) btree_map \<Rightarrow> 'k \<Rightarrow> 'k \<Rightarrow> ('k, 'v) btree_map option" where
  "bt_range m a b = (if b < a then None else Some (filter (\<lambda>p. a \<le> fst p \<and> fst p < b) m))"

text \<open>
  The entries a search visits.  Adding one to the byte 255 overflows: a panic in a debug
  build, and otherwise a zero byte that again puts the end of the range before its start.
\<close>

definition prefix_entries ::
  "(string, 'v) btree_map \<Rightarrow> string option \<Rightarrow> (string, 'v) btree_map option" where
  "prefix_entries m prefix =
     (case prefix of
        None \<Rightarrow> Some m
      | Some pfx \<Rightarrow>
          (case pop_char pfx of
             None \<Rightarrow> Some m
           | Some (rest, final) \<Rightarrow>
               let b = scalar_of final mod 256
               in if b = 255 then None else bt_range m pfx (rest @ char_from_u8 (b + 1))))"

section \<open>Operations\<close>

record VectorIndex = "f64 list cache" +
  expected_dims :: "nat option"

record SearchResult =
  sr_key :: string
  sr_distance :: f64

definition vector_index_new :: "u64 \<Rightarrow> VectorIndex" where
  "vector_index_new now =
     \<lparr>entries_of = [], evictor = default_evictor, max_entries = default_ceiling,
      memory_governor = default_memory_governor ''gov-memory-vector''
        ''NucleusDB.Core.Invariants.AetherGovernor.validatorRegime'',
      last_eviction_count = 0, last_maintenance_unix = now, last_activity_unix = now,
      expected_dims = None\<rparr>"

definition vi_enforce_pressure :: "libm \<Rightarrow> VectorIndex \<Rightarrow> VectorIndex" where
  "vi_enforce_pressure lm vi =
     (if entries_of vi = [] then enforce_pressure lm vi
      else if length (entries_of vi) \<le> max_entries vi then enforce_pressure lm vi
      else let vi1 = enforce_pressure lm vi
           in if entries_of vi1 = [] then vi1\<lparr>expected_dims := None\<rparr> else vi1)"

definition upsert ::
  "libm \<Rightarrow> u64 \<Rightarrow> string \<Rightarrow> f64 list \<Rightarrow> VectorIndex \<Rightarrow> VectorIndex \<times> (string + unit)" where
  "upsert lm now key dims vi =
     (let vi1 = snd (apply_time_maintenance lm now vi) in
      if dims = [] then (vi1, Err ''vector must have at least one dimension'')
      else
        let insert_it = (\<lambda>v. vi_enforce_pressure lm
              (v\<lparr>entries_of := bt_insert key dims (entries_of v),
                 evictor := record_access lm (evictor v) key,
                 last_activity_unix := now\<rparr>))
        in case expected_dims vi1 of
             Some expected \<Rightarrow>
               if length dims \<noteq> expected then
                 (vi1, Err (''dimension mismatch: expected '' @ dec expected @ '', got '' @ dec (length dims)))
               else (insert_it vi1, Ok ())
           | None \<Rightarrow> (insert_it (vi1\<lparr>expected_dims := Some (length dims)\<rparr>), Ok ()))"

definition vi_remove :: "libm \<Rightarrow> string \<Rightarrow> VectorIndex \<Rightarrow> VectorIndex" where
  "vi_remove lm key vi =
     (let vi1 = vi\<lparr>entries_of := bt_remove key (entries_of vi),
                   evictor := remove_key lm (evictor vi) key\<rparr>
      in if entries_of vi1 = [] then vi1\<lparr>expected_dims := None\<rparr> else vi1)"

text \<open>
  \<^verbatim>\<open>sort_by\<close> is a stable sort, and on distances that are numbers \<^verbatim>\<open>partial_cmp\<close> orders by
  \<open>f64_key\<close>.  When a distance is NaN the comparison of the source is not an order and the
  resulting permutation is unspecified; the model then sorts NaN by its bit pattern, and
  the statements about the ranking exclude NaN.
\<close>

definition rank_results :: "DistanceMetric \<Rightarrow> (string \<times> f64) list \<Rightarrow> (string \<times> f64) list" where
  "rank_results metric scored =
     (case metric of
        InnerProduct \<Rightarrow> sort_key (\<lambda>p. - f64_key (snd p)) scored
      | _ \<Rightarrow> sort_key (\<lambda>p. f64_key (snd p)) scored)"

definition search_with_prefix ::
  "libm \<Rightarrow> VectorIndex \<Rightarrow> f64 list \<Rightarrow> nat \<Rightarrow> DistanceMetric \<Rightarrow> string option \<Rightarrow>
    (string + SearchResult list) option" where
  "search_with_prefix lm vi query k metric prefix =
     (if entries_of vi = [] then Some (Ok [])
      else if expected_dims vi \<noteq> None \<and> length query \<noteq> the (expected_dims vi) then
        Some (Err (''query dimension mismatch: expected '' @ dec (the (expected_dims vi)) @
                   '', got '' @ dec (length query)))
      else (case prefix_entries (entries_of vi) prefix of
              None \<Rightarrow> None
            | Some es \<Rightarrow>
                let scored = map (\<lambda>(key, vec). (key, compute_distance lm query vec metric)) es
                in Some (Ok (map (\<lambda>(key, d). \<lparr>sr_key = key, sr_distance = d\<rparr>)
                           (take k (rank_results metric scored))))))"

definition vi_search ::
  "libm \<Rightarrow> VectorIndex \<Rightarrow> f64 list \<Rightarrow> nat \<Rightarrow> DistanceMetric \<Rightarrow> (string + SearchResult list) option" where
  "vi_search lm vi query k metric = search_with_prefix lm vi query k metric None"

definition search_with_access_prefix ::
  "libm \<Rightarrow> u64 \<Rightarrow> VectorIndex \<Rightarrow> f64 list \<Rightarrow> nat \<Rightarrow> DistanceMetric \<Rightarrow> string option \<Rightarrow>
    VectorIndex \<times> (string + SearchResult list) option" where
  "search_with_access_prefix lm now vi query k metric prefix =
     (let vi1 = snd (apply_time_maintenance lm now vi)
      in case search_with_prefix lm vi1 query k metric prefix of
           None \<Rightarrow> (vi1, None)
         | Some (Inl e) \<Rightarrow> (vi1, Some (Err e))
         | Some (Inr results) \<Rightarrow>
             let ev = foldl (record_access lm) (evictor vi1) (map sr_key results);
                 vi2 = vi1\<lparr>evictor := ev\<rparr>;
                 vi3 = (if results \<noteq> [] then vi2\<lparr>last_activity_unix := now\<rparr> else vi2)
             in (vi_enforce_pressure lm vi3, Some (Ok results)))"

definition vi_get :: "VectorIndex \<Rightarrow> string \<Rightarrow> f64 list option" where
  "vi_get vi key = bt_get (entries_of vi) key"

definition vi_all_keys :: "VectorIndex \<Rightarrow> string list" where
  "vi_all_keys vi = bt_keys (entries_of vi)"

definition vi_set_max_entries :: "libm \<Rightarrow> u64 \<Rightarrow> nat \<Rightarrow> VectorIndex \<Rightarrow> VectorIndex" where
  "vi_set_max_entries lm now n vi =
     (let vi1 = snd (apply_time_maintenance lm now vi);
          cap = max n 1;
          g = memory_governor vi1
      in vi_enforce_pressure lm
           (vi1\<lparr>max_entries := cap,
                memory_governor := g\<lparr>config := (config g)\<lparr>gov_target := f64_of_nat cap\<rparr>\<rparr>\<rparr>))"

section \<open>A prefix search visits exactly the keys with the prefix\<close>

lemma succ_interval:
  fixes c c' :: char
  assumes succ: "\<And>d. d < c' \<longleftrightarrow> d \<le> c"
  shows "p @ [c] \<le> k \<and> k < p @ [c'] \<longleftrightarrow> starts_with k (p @ [c])"
proof (induction p arbitrary: k)
  case Nil
  show ?case
  proof (cases k)
    case (Cons d ds)
    have "d = c' \<longrightarrow> \<not> d \<le> c" using succ [of d] by auto
    then show ?thesis
      unfolding Cons starts_with_def append_Nil Cons_le_Cons Cons_less_Cons succ
      by (auto simp del: not_less)
  qed (simp add: starts_with_def)
next
  case (Cons a p)
  show ?case
  proof (cases k)
    case (Cons d ds)
    have "(a # p) @ [c] \<le> k \<and> k < (a # p) @ [c'] \<longleftrightarrow> a = d \<and> p @ [c] \<le> ds \<and> ds < p @ [c']"
      unfolding Cons append_Cons Cons_le_Cons Cons_less_Cons by (auto dest: less_imp_not_less)
    also have "\<dots> \<longleftrightarrow> starts_with k ((a # p) @ [c])"
      unfolding Cons.IH unfolding Cons starts_with_def by auto
    finally show ?thesis .
  qed (simp add: starts_with_def)
qed

lemma char_succ:
  assumes "code c < 255"
  shows "d < char_of (code c + 1) \<longleftrightarrow> d \<le> c"
  using assms by (simp add: less_char_def less_eq_char_def less_Suc_eq_le)

lemma prefix_entries_ascii:
  assumes "code c < 127"
  shows "prefix_entries m (Some (p @ [c])) = Some (filter (\<lambda>e. starts_with (fst e) (p @ [c])) m)"
proof -
  let ?stop = "p @ [char_of (Suc (code c))]"
  have pop: "pop_char (p @ [c]) = Some (p, [c])"
    using assms by (simp add: pop_char_def is_continuation_def Let_def)
  have e: "char_from_u8 (Suc (code c)) = [char_of (Suc (code c))]"
    using assms by (simp add: char_from_u8_def)
  have iv: "p @ [c] \<le> k \<and> k < ?stop \<longleftrightarrow> starts_with k (p @ [c])" for k
    using assms char_succ [of c] by (intro succ_interval) simp
  have "p @ [c] < ?stop" using iv [of "p @ [c]"] by (simp add: starts_with_def)
  then have "\<not> ?stop < p @ [c]" by (rule less_not_sym)
  then show ?thesis
    using assms by (simp add: prefix_entries_def pop Let_def scalar_of_def e bt_range_def iv)
qed

text \<open>
  Beyond Latin-1 the computed bound is not after the prefix: a search for the prefix
  \<open>U+0101\<close>, encoded \<^verbatim>\<open>c4 81\<close>, panics on every index that is not empty.
\<close>

lemma prefix_entries_panics: "prefix_entries m (Some [CHR 0xC4, CHR 0x81]) = None"
  by (simp add: prefix_entries_def pop_char_def is_continuation_def Let_def scalar_of_def
      char_from_u8_def bt_range_def less_char_def)

section \<open>Nearest neighbours\<close>

definition result_rank :: "DistanceMetric \<Rightarrow> f64 \<Rightarrow> int" where
  "result_rank metric d = (case metric of InnerProduct \<Rightarrow> - f64_key d | _ \<Rightarrow> f64_key d)"

lemma rank_results_sorted:
  "sorted (map (\<lambda>p. result_rank metric (snd p)) (rank_results metric ps))"
  "set (rank_results metric ps) = set ps"
  by (cases metric; simp add: rank_results_def result_rank_def)+

lemma search_distances:
  assumes "search_with_prefix lm vi query k metric None = Some (Ok results)" "r \<in> set results"
  shows "\<exists>(key, vec) \<in> set (entries_of vi). sr_distance r = compute_distance lm query vec metric"
proof -
  let ?scored = "map (\<lambda>(key, vec). (key, compute_distance lm query vec metric)) (entries_of vi)"
  have "results = map (\<lambda>(key, d). \<lparr>sr_key = key, sr_distance = d\<rparr>) (take k (rank_results metric ?scored)) \<or>
      results = []"
    using assms(1) by (auto simp: search_with_prefix_def prefix_entries_def split: if_splits)
  then obtain key d where "(key, d) \<in> set (take k (rank_results metric ?scored))" "sr_distance r = d"
    using assms(2) by auto
  then have "(key, d) \<in> set ?scored" "sr_distance r = d"
    using rank_results_sorted(2) [of metric ?scored] by (blast dest: in_set_takeD)+
  then show ?thesis by auto
qed

lemma search_nearest:
  assumes "search_with_prefix lm vi query k metric None = Some (Ok results)"
    "bt_get (entries_of vi) key = Some vec" "key \<notin> set (map sr_key results)" "bt_wf (entries_of vi)"
  shows "length results = k \<and>
    (\<forall>r \<in> set results. result_rank metric (sr_distance r) \<le>
       result_rank metric (compute_distance lm query vec metric))"
proof -
  let ?scored = "map (\<lambda>(key, vec). (key, compute_distance lm query vec metric)) (entries_of vi)"
  let ?ranked = "rank_results metric ?scored"
  have mem: "(key, vec) \<in> set (entries_of vi)" using assms(2,4) by (simp add: bt_get_iff_mem)
  then have ne: "entries_of vi \<noteq> []" by auto
  have res: "results = map (\<lambda>(key, d). \<lparr>sr_key = key, sr_distance = d\<rparr>) (take k ?ranked)"
    using assms(1) ne by (auto simp: search_with_prefix_def prefix_entries_def Let_def split: if_splits)
  have "(key, compute_distance lm query vec metric) \<in> set ?ranked"
    using mem by (force simp: rank_results_sorted(2))
  then have "(key, compute_distance lm query vec metric) \<in> set (take k ?ranked) \<union> set (drop k ?ranked)"
    by (metis append_take_drop_id set_append)
  moreover have "(key, d) \<notin> set (take k ?ranked)" for d
    using assms(3) by (auto simp: res image_iff)
  ultimately have dr: "(key, compute_distance lm query vec metric) \<in> set (drop k ?ranked)" by blast
  have "sorted (map (\<lambda>p. result_rank metric (snd p)) (take k ?ranked @ drop k ?ranked))"
    using rank_results_sorted(1) by simp
  then have "\<forall>x \<in> (\<lambda>p. result_rank metric (snd p)) ` set (take k ?ranked).
      \<forall>y \<in> (\<lambda>p. result_rank metric (snd p)) ` set (drop k ?ranked). x \<le> y"
    unfolding map_append sorted_append set_map by blast
  then have "result_rank metric (snd p) \<le> result_rank metric (compute_distance lm query vec metric)"
    if "p \<in> set (take k ?ranked)" for p
    using that dr by (metis (no_types, lifting) image_eqI snd_conv)
  moreover have "k < length ?ranked"
    using dr by (metis drop_all empty_iff empty_set not_le)
  ultimately show ?thesis by (auto simp: res)
qed

section \<open>The index keeps the contract\<close>

definition dims_inv :: "VectorIndex \<Rightarrow> bool" where
  "dims_inv vi \<longleftrightarrow> (\<forall>v \<in> ran (bt_get (entries_of vi)). v \<noteq> [] \<and> expected_dims vi = Some (length v))"

definition vi_inv :: "VectorIndex \<Rightarrow> bool" where
  "vi_inv vi \<longleftrightarrow> cache_inv vi \<and> dims_inv vi \<and> (entries_of vi = [] \<longrightarrow> expected_dims vi = None)"

lemma vi_new_inv: "vi_inv (vector_index_new now)"
  by (simp add: vi_inv_def cache_inv_def dims_inv_def vector_index_new_def default_evictor_def
      evictor_new_def bt_keys_def default_ceiling_def ran_def)

lemma expected_dims_cache [simp]:
  "expected_dims (enforce_pressure lm vi) = expected_dims vi"
  "expected_dims (snd (apply_time_maintenance lm now vi)) = expected_dims vi"
  by (simp_all add: enforce_pressure_def apply_time_maintenance_def Let_def case_prod_beta)

lemma dims_inv_sub:
  assumes "dims_inv vi" "bt_get (entries_of vi') \<subseteq>\<^sub>m bt_get (entries_of vi)"
    "expected_dims vi' = expected_dims vi"
  shows "dims_inv vi'"
proof -
  have "ran (bt_get (entries_of vi')) \<subseteq> ran (bt_get (entries_of vi))"
    using assms(2) unfolding map_le_def ran_def dom_def by force
  then show ?thesis using assms(1,3) by (auto simp: dims_inv_def)
qed

lemma vi_enforce_spec:
  assumes "cache_inv vi" "dims_inv vi" "entries_of vi = [] \<longrightarrow> expected_dims vi = None"
  shows "vi_inv (vi_enforce_pressure lm vi) \<and>
    length (entries_of (vi_enforce_pressure lm vi)) \<le> max_entries vi \<and>
    bt_get (entries_of (vi_enforce_pressure lm vi)) \<subseteq>\<^sub>m bt_get (entries_of vi)"
proof -
  note spec = enforce_pressure_spec [OF assms(1), of lm]
  let ?e = "enforce_pressure lm vi"
  have d: "dims_inv ?e"
    using spec by (intro dims_inv_sub [OF assms(2)]) simp_all
  have inv': "vi_inv (?e\<lparr>expected_dims := None\<rparr>)" if "entries_of ?e = []"
    using that spec by (simp add: vi_inv_def dims_inv_def cache_inv_def ran_def)
  consider "entries_of vi = []" | "entries_of vi \<noteq> []" "length (entries_of vi) \<le> max_entries vi"
    | "max_entries vi < length (entries_of vi)" by force
  then show ?thesis
  proof cases
    case 1
    then have "entries_of ?e = []" by (simp add: enforce_pressure_def)
    with 1 assms(3) spec d show ?thesis by (simp add: vi_enforce_pressure_def vi_inv_def)
  next
    case 2
    then show ?thesis using spec d
      by (simp add: vi_enforce_pressure_def vi_inv_def enforce_pressure_within)
  next
    case 3
    then have "entries_of vi \<noteq> []" by auto
    with 3 show ?thesis using spec d inv'
      by (auto simp: vi_enforce_pressure_def vi_inv_def Let_def)
  qed
qed

definition vi_accepts :: "VectorIndex \<Rightarrow> f64 list \<Rightarrow> bool" where
  "vi_accepts vi dims \<longleftrightarrow> dims \<noteq> [] \<and> expected_dims vi \<in> {None, Some (length dims)}"

text \<open>An accepted vector is inserted; a refused one leaves the vectors alone.\<close>

lemma upsert_accepted:
  assumes "vi_accepts vi dims"
  shows "upsert lm now key dims vi =
    (vi_enforce_pressure lm
       ((snd (apply_time_maintenance lm now vi))
          \<lparr>expected_dims := Some (length dims), entries_of := bt_insert key dims (entries_of vi),
           evictor := record_access lm (evictor (snd (apply_time_maintenance lm now vi))) key,
           last_activity_unix := now\<rparr>), Ok ())"
proof -
  let ?m = "snd (apply_time_maintenance lm now vi)"
  show ?thesis
  proof (cases "expected_dims vi")
    case None
    then show ?thesis
      using assms by (simp add: upsert_def vi_accepts_def Let_def)
  next
    case (Some n)
    then have n: "expected_dims ?m = Some (length dims)" "dims \<noteq> []"
      using assms by (simp_all add: vi_accepts_def)
    have eq: "?m\<lparr>expected_dims := Some (length dims)\<rparr> = ?m"
      unfolding n(1) [symmetric] by simp
    show ?thesis
      unfolding eq using n by (simp add: upsert_def Let_def)
  qed
qed

lemma upsert_refused:
  "\<not> vi_accepts vi dims \<Longrightarrow> fst (upsert lm now key dims vi) = snd (apply_time_maintenance lm now vi) \<and>
    isl (snd (upsert lm now key dims vi))"
  by (auto simp: upsert_def vi_accepts_def Let_def split: option.splits)

lemma upsert_spec:
  assumes "vi_inv vi" "vi_accepts vi dims"
  shows "vi_inv (fst (upsert lm now key dims vi)) \<and>
    length (entries_of (fst (upsert lm now key dims vi))) \<le> max_entries vi \<and>
    bt_get (entries_of (fst (upsert lm now key dims vi))) \<subseteq>\<^sub>m (bt_get (entries_of vi))(key \<mapsto> dims)"
proof -
  let ?m = "(snd (apply_time_maintenance lm now vi))\<lparr>expected_dims := Some (length dims)\<rparr>"
  let ?i = "?m\<lparr>entries_of := bt_insert key dims (entries_of ?m),
    evictor := record_access lm (evictor ?m) key, last_activity_unix := now\<rparr>"
  have "cache_inv ?m"
    using maintenance_inv [of vi lm now] assms(1) by (simp add: vi_inv_def cache_inv_def)
  then have c: "cache_inv ?i" by (rule inserted_inv)
  have "ran ((bt_get (entries_of vi))(key \<mapsto> dims)) \<subseteq> insert dims (ran (bt_get (entries_of vi)))"
    by (auto simp: ran_def)
  moreover have "expected_dims vi = Some (length dims)" if "ran (bt_get (entries_of vi)) \<noteq> {}"
    using that assms by (auto simp: vi_inv_def dims_inv_def vi_accepts_def)
  ultimately have d: "dims_inv ?i"
    using assms unfolding dims_inv_def vi_inv_def vi_accepts_def by fastforce
  have "entries_of ?i \<noteq> []" by simp
  then show ?thesis
    using vi_enforce_spec [OF c d, of lm] by (simp add: upsert_accepted [OF assms(2)])
qed

lemma vi_maintenance_inv: "vi_inv vi \<Longrightarrow> vi_inv (snd (apply_time_maintenance lm now vi))"
  by (simp add: vi_inv_def maintenance_inv dims_inv_def)

lemma max_entries_vi_enforce [simp]: "max_entries (vi_enforce_pressure lm vi) = max_entries vi"
  by (simp add: vi_enforce_pressure_def Let_def)

lemma vi_enforce_within:
  "length (entries_of vi) \<le> max_entries vi \<Longrightarrow> entries_of (vi_enforce_pressure lm vi) = entries_of vi"
  by (simp add: vi_enforce_pressure_def enforce_pressure_within)

lemma upsert_inv: "vi_inv vi \<Longrightarrow> vi_inv (fst (upsert lm now k v vi))"
  using upsert_spec upsert_refused vi_maintenance_inv by (cases "vi_accepts vi v") metis+

lemma max_entries_upsert: "max_entries (fst (upsert lm now k v vi)) = max_entries vi"
  by (cases "vi_accepts vi v") (simp_all add: upsert_accepted upsert_refused)

lemma upsert_room:
  "vi_accepts vi v \<Longrightarrow> length (bt_insert k v (entries_of vi)) \<le> max_entries vi \<Longrightarrow>
    entries_of (fst (upsert lm now k v vi)) = bt_insert k v (entries_of vi)"
  by (simp add: upsert_accepted vi_enforce_within)

lemma entries_vi_remove: "entries_of (vi_remove lm k vi) = bt_remove k (entries_of vi)"
  by (simp add: vi_remove_def Let_def)

lemma vi_remove_inv:
  assumes "vi_inv vi"
  shows "vi_inv (vi_remove lm k vi)"
proof -
  let ?r = "vi\<lparr>entries_of := bt_remove k (entries_of vi), evictor := remove_key lm (evictor vi) k\<rparr>"
  have c: "cache_inv ?r"
    using assms by (simp add: vi_inv_def cache_inv_def keys_remove)
  have wf: "bt_wf (entries_of vi)" and dv: "dims_inv vi"
    using assms by (simp_all add: vi_inv_def cache_inv_def)
  have d: "dims_inv ?r"
    by (rule dims_inv_sub [OF dv]) (simp_all add: wf)
  show ?thesis
  proof (cases "entries_of ?r = []")
    case True
    then have "dims_inv (?r\<lparr>expected_dims := None\<rparr>)" by (simp add: dims_inv_def ran_def)
    moreover have "cache_inv (?r\<lparr>expected_dims := None\<rparr>)" using c by (simp add: cache_inv_def)
    ultimately show ?thesis using True by (simp add: vi_remove_def vi_inv_def)
  next
    case False
    with c d show ?thesis by (simp add: vi_remove_def vi_inv_def)
  qed
qed

interpretation vectors: bounded_store entries_of "\<lambda>now k v vi. fst (upsert lm now k v vi)" "vi_remove lm"
  vi_accepts max_entries vi_inv for lm
proof unfold_locales
  fix vi now k v
  assume "vi_inv vi" "vi_accepts vi v"
  note spec = upsert_spec [OF this, of lm now k]
  show "length (entries_of (fst (upsert lm now k v vi))) \<le> max_entries vi" using spec by blast
  show "bt_get (entries_of (fst (upsert lm now k v vi))) \<subseteq>\<^sub>m (bt_get (entries_of vi))(k \<mapsto> v)"
    using spec by blast
qed (simp_all add: upsert_room upsert_inv max_entries_upsert entries_vi_remove vi_remove_inv,
     simp add: vi_inv_def cache_inv_def)

end
