(* ===== verification/Protocol.thy ===== *)
theory Protocol
  imports Security Sheaf Immutable Vector_Index
begin

text \<open>
  \<^verbatim>\<open>src/protocol.rs\<close>: the database.  A commit validates its configuration and its delta,
  logs a leaf, collects witness signatures, replaces the state and appends an entry, in
  the order of the source.  The environment record gathers what comes from outside the
  repository; the clock reading of a call is its argument \<open>now\<close>.  An \<^verbatim>\<open>expect\<close> that fails is
  the result \<open>None\<close>.

  The identity ledger of this build (\<^verbatim>\<open>src/identity_ledger.rs\<close>) always answers that there is
  no entry, so the two reads of it in a commit are \<open>None\<close>.
\<close>

record ('f, 'poly, 'srs, 'g, 'p) db_env =
  env_sha256 :: "bytes \<Rightarrow> node_hash"
  env_ipa :: "'p ipa_env"
  env_kzg :: "('f, 'poly, 'srs, 'g) kzg_env"
  env_sig :: sig_env
  env_libm :: libm
  env_load :: "string \<Rightarrow> TrustedSetupError + TrustedSetupArtifact"

section \<open>Data\<close>

datatype VcBackend = Ipa | Kzg | BinaryMerkle

datatype QueryProof = QIpa IpaProof | QKzg KzgProof | QBinaryMerkle BmProof

record CommitEntry =
  height :: u64
  prev_state_root :: node_hash
  state_root :: node_hash
  delta_digest :: u64
  cert_digest :: u64
  sheaf_coherence_digest :: u64
  vc_backend_id :: string
  vc_scheme_id :: string
  vc_domain_separator :: string
  vc_max_degree :: nat
  sth :: SignedTreeHead
  witness_signature_algorithm :: string
  witness_sigs :: "(string \<times> string) list"
  identity_ledger_head_hash :: "string option"

datatype CommitError =
    SheafIncoherent
  | WitnessQuorumFailed
  | EmptyWitnessSet
  | WitnessSigningFailed WitnessError
  | SecurityPolicyInvalid SecurityPolicyError
  | SecurityRefinementFailed RefinementError
  | MonotoneViolation

record NucleusDb =
  backend :: VcBackend
  state :: State
  keymap :: KeyMap
  entries :: "CommitEntry list"
  witness_cfg :: WitnessConfig
  security_params :: ParameterSet
  reduction_contracts :: "ReductionContract list"
  kzg_trusted_setup :: "TrustedSetupArtifact option"
  ct_leaves :: "node_hash list"
  current_sth :: "SignedTreeHead option"
  write_mode :: WriteMode
  monotone_seals :: "node_hash list"
  type_map :: TypeMap
  blob_store :: BlobStore
  vector_index :: VectorIndex

fun backend_id :: "VcBackend \<Rightarrow> string" where
  "backend_id Ipa = ''ipa''"
| "backend_id Kzg = ''kzg''"
| "backend_id BinaryMerkle = ''binary_merkle''"

fun vc_profile :: "VcBackend \<Rightarrow> VcProfile" where
  "vc_profile Ipa = PIpa"
| "vc_profile Kzg = PKzg"
| "vc_profile BinaryMerkle = PBinaryMerkle"

section \<open>Construction\<close>

definition load_kzg_setup_if_required ::
  "('f, 'poly, 'srs, 'g, 'p) db_env \<Rightarrow> VcBackend \<Rightarrow> ParameterSet \<Rightarrow>
    SecurityPolicyError + TrustedSetupArtifact option" where
  "load_kzg_setup_if_required env b ps =
     (if b \<noteq> Kzg \<or> \<not> require_kzg_trusted_setup ps then Ok None
      else case kzg_trusted_setup_id ps of
             None \<Rightarrow> Err (Parameter MissingKzgTrustedSetup)
           | Some sid \<Rightarrow>
               (case kzg_trusted_setup_path ps of
                  None \<Rightarrow> Err (Parameter MissingKzgTrustedSetupPath)
                | Some path \<Rightarrow>
                    (case kzg_trusted_setup_attestation_sha512 ps of
                       None \<Rightarrow> Err (Parameter MissingKzgTrustedSetupAttestation)
                     | Some att \<Rightarrow>
                         (case load_and_validate_trusted_setup (kzg_sha512 (env_kzg env)) (env_load env)
                                 path sid att of
                            Inl e \<Rightarrow> Err (KzgTrustedSetup e)
                          | Inr setup \<Rightarrow>
                              if max_degree setup < max_vector_len ps then
                                Err (KzgSetupDegreeInsufficient (setup_id setup) (max_degree setup)
                                       (max_vector_len ps))
                              else Ok (Some setup)))))"

definition with_security ::
  "('f, 'poly, 'srs, 'g, 'p) db_env \<Rightarrow> u64 \<Rightarrow> State \<Rightarrow> VcBackend \<Rightarrow> WitnessConfig \<Rightarrow> ParameterSet \<Rightarrow>
    ReductionContract list \<Rightarrow> SecurityPolicyError + NucleusDb" where
  "with_security env now initial b wcfg ps contracts =
     (case validate_parameters ps (vc_profile b) wcfg of
        Inl e \<Rightarrow> Err (Parameter e)
      | Inr _ \<Rightarrow>
          (case validate_reduction_contracts contracts of
             Inl e \<Rightarrow> Err e
           | Inr _ \<Rightarrow>
               (case load_kzg_setup_if_required env b ps of
                  Inl e \<Rightarrow> Err e
                | Inr setup \<Rightarrow>
                    Ok \<lparr>backend = b, state = initial, keymap = keymap_new, entries = [],
                        witness_cfg = wcfg, security_params = ps, reduction_contracts = contracts,
                        kzg_trusted_setup = setup, ct_leaves = [], current_sth = None,
                        write_mode = Normal, monotone_seals = [], type_map = type_map_new,
                        blob_store = blob_new now, vector_index = vector_index_new now\<rparr>)))"

definition db_new ::
  "('f, 'poly, 'srs, 'g, 'p) db_env \<Rightarrow> u64 \<Rightarrow> State \<Rightarrow> VcBackend \<Rightarrow> WitnessConfig \<Rightarrow> NucleusDb option" where
  "db_new env now initial b wcfg =
     (let profile = vc_profile b
      in case with_security env now initial b wcfg (new_parameters profile)
                (default_reduction_contracts profile) of
           Inl _ \<Rightarrow> None
         | Inr db \<Rightarrow> Some db)"

section \<open>Commit\<close>

definition state_root_for ::
  "('f::field, 'poly, 'srs, 'g, 'p) db_env \<Rightarrow> NucleusDb \<Rightarrow> u64 list \<Rightarrow> node_hash option" where
  "state_root_for env db vec =
     (case backend db of
        Ipa \<Rightarrow> Some (ipa_digest (env_ipa env) (ipa_commit (env_ipa env) vec))
      | Kzg \<Rightarrow>
          (case kzg_trusted_setup db of
             Some setup \<Rightarrow>
               (case commit_trusted (env_kzg env) vec setup of
                  Inl _ \<Rightarrow> None
                | Inr c \<Rightarrow> Some (kzg_digest (env_kzg env) c))
           | None \<Rightarrow> Some (kzg_digest (env_kzg env) (kzg_commit (env_kzg env) vec)))
      | BinaryMerkle \<Rightarrow> Some (bm_digest (bm_commit (env_sha256 env) vec)))"

definition ct_leaf_payload ::
  "u64 \<Rightarrow> node_hash \<Rightarrow> node_hash \<Rightarrow> u64 \<Rightarrow> u64 \<Rightarrow> u64 \<Rightarrow> string" where
  "ct_leaf_payload h prev_root new_root dd cd sd =
     ''nucleusdb.ct.leaf.v2|height='' @ dec (unat h) @
     ''|prev_state_root='' @ hex_encode prev_root @
     ''|state_root='' @ hex_encode new_root @
     ''|delta_digest='' @ dec (unat dd) @
     ''|cert_digest='' @ dec (unat cd) @
     ''|sheaf_coherence_digest='' @ dec (unat sd)"

definition commit_message :: "u64 \<Rightarrow> node_hash \<Rightarrow> node_hash \<Rightarrow> SignedTreeHead \<Rightarrow> string" where
  "commit_message h prev_root new_root head =
     dec (unat h) @ '':'' @ hex_encode prev_root @ '':'' @ hex_encode new_root @ '':'' @
     hex_encode (root_hash head) @ '':'' @ dec (unat (timestamp_unix_secs head))"

text \<open>The checks that run before anything is written: the next state and its sheaf proof.\<close>

definition commit_checks ::
  "NucleusDb \<Rightarrow> Delta \<Rightarrow> LocalSection list \<Rightarrow> CommitError + State \<times> SheafCoherenceProof" where
  "commit_checks db delta views =
     (case validate_parameters (security_params db) (vc_profile (backend db)) (witness_cfg db) of
        Inl e \<Rightarrow> Err (SecurityPolicyInvalid (Parameter e))
      | Inr _ \<Rightarrow>
          (case validate_reduction_contracts (reduction_contracts db) of
             Inl e \<Rightarrow> Err (SecurityPolicyInvalid e)
           | Inr _ \<Rightarrow>
               if witnesses (witness_cfg db) = [] then Err EmptyWitnessSet
               else
                 let nxt = apply_delta (state db) delta
                 in case validate_commit_shape (security_params db) (length (writes delta))
                           (length (st_values nxt)) of
                      Inl e \<Rightarrow> Err (SecurityRefinementFailed e)
                    | Inr _ \<Rightarrow>
                        if write_mode db = AppendOnly \<and>
                           \<not> verify_monotone_extension (state db) (keymap db) nxt (keymap db)
                        then Err MonotoneViolation
                        else
                          let pf = build_sheaf_coherence views
                          in if \<not> verify_sheaf_coherence nxt pf then Err SheafIncoherent
                             else Ok (nxt, pf)))"

text \<open>
  The leaf goes into the log, and the new tree head becomes the current one, before any
  witness has signed.
\<close>

definition log_leaf ::
  "(bytes \<Rightarrow> node_hash) \<Rightarrow> u64 \<Rightarrow> NucleusDb \<Rightarrow> Delta \<Rightarrow> node_hash \<Rightarrow> node_hash \<Rightarrow> u64 \<Rightarrow>
    NucleusDb \<times> SignedTreeHead" where
  "log_leaf H now db delta prev_root new_root sheaf_dg =
     (let h = of_nat (length (entries db)) + 1;
          payload = ct_leaf_payload h prev_root new_root (of_nat (length (writes delta)) * 13)
                      (h * 31) sheaf_dg;
          leaves = ct_leaves db @ [leaf_hash H payload];
          head = make_sth H leaves now
      in (db\<lparr>ct_leaves := leaves, current_sth := Some head\<rparr>, head))"

text \<open>The seal appended in append-only mode, over the new state.\<close>

definition push_seal :: "(bytes \<Rightarrow> node_hash) \<Rightarrow> NucleusDb \<Rightarrow> NucleusDb" where
  "push_seal H db =
     (if write_mode db = AppendOnly then
        let kv_digest = key_value_digest H (state db) (keymap db);
            prev_seal = (if monotone_seals db = [] then genesis_seal H else last (monotone_seals db))
        in db\<lparr>monotone_seals := monotone_seals db @ [next_seal H prev_seal kv_digest]\<rparr>
      else db)"

text \<open>Signing, the quorum, the new state, the entry and the refinement check.\<close>

definition commit_finish ::
  "('f, 'poly, 'srs, 'g, 'p) db_env \<Rightarrow> NucleusDb \<Rightarrow> CommitEntry \<Rightarrow> State \<Rightarrow>
    NucleusDb \<times> (CommitError + CommitEntry)" where
  "commit_finish env db draft nxt =
     (let H = env_sha256 env;
          cfg = witness_cfg db;
          msg = commit_message (height draft) (prev_state_root draft) (state_root draft) (sth draft)
      in case sign_all (env_sig env) cfg msg (take (threshold cfg) (witnesses cfg)) of
           Inl e \<Rightarrow> (db, Err (WitnessSigningFailed e))
         | Inr sigs \<Rightarrow>
             if \<not> verify_quorum_for_algorithm (env_sig env) cfg (signing_algorithm cfg) msg sigs then
               (db, Err WitnessQuorumFailed)
             else
               let db1 = db\<lparr>state := nxt\<rparr>;
                   entry = draft\<lparr>witness_sigs := sigs\<rparr>
               in case verify_post_commit_refinement H (height draft) (prev_state_root draft)
                         (height entry) (prev_state_root entry) (tree_size (sth entry))
                         (root_hash (sth entry)) (timestamp_unix_secs (sth entry))
                         (sth_sig (sth entry)) of
                    Inl e \<Rightarrow> (db1, Err (SecurityRefinementFailed e))
                  | Inr _ \<Rightarrow> (push_seal H (db1\<lparr>entries := entries db1 @ [entry]\<rparr>), Ok entry))"

text \<open>The entry before its signatures.\<close>

definition draft_entry ::
  "NucleusDb \<Rightarrow> Delta \<Rightarrow> node_hash \<Rightarrow> node_hash \<Rightarrow> u64 \<Rightarrow> SignedTreeHead \<Rightarrow> CommitEntry" where
  "draft_entry db delta prev_root new_root sheaf_dg head =
     (let h = of_nat (length (entries db)) + 1
      in \<lparr>height = h, prev_state_root = prev_root, state_root = new_root,
          delta_digest = of_nat (length (writes delta)) * 13, cert_digest = h * 31,
          sheaf_coherence_digest = sheaf_dg, vc_backend_id = backend_id (backend db),
          vc_scheme_id = scheme_id (commitment_policy (security_params db)),
          vc_domain_separator = domain_separator (commitment_policy (security_params db)),
          vc_max_degree = policy_max_degree (commitment_policy (security_params db)),
          sth = head,
          witness_signature_algorithm = as_tag (signing_algorithm (witness_cfg db)),
          witness_sigs = [], identity_ledger_head_hash = None\<rparr>)"

definition commit ::
  "('f::field, 'poly, 'srs, 'g, 'p) db_env \<Rightarrow> u64 \<Rightarrow> NucleusDb \<Rightarrow> Delta \<Rightarrow> LocalSection list \<Rightarrow>
    (NucleusDb \<times> (CommitError + CommitEntry)) option" where
  "commit env now db delta views =
     (case commit_checks db delta views of
        Inl e \<Rightarrow> Some (db, Err e)
      | Inr (nxt, pf) \<Rightarrow>
          (case state_root_for env db (materialize nxt) of
             None \<Rightarrow> None
           | Some new_root \<Rightarrow>
               (case (if entries db = [] then state_root_for env db (materialize (state db))
                      else Some (state_root (last (entries db)))) of
                  None \<Rightarrow> None
                | Some prev_root \<Rightarrow>
                    let (db1, head) = log_leaf (env_sha256 env) now db delta prev_root new_root
                                        (sheaf_digest pf)
                    in Some (commit_finish env db1
                               (draft_entry db delta prev_root new_root (sheaf_digest pf) head) nxt))))"

section \<open>Queries and heads\<close>

definition query ::
  "('f::field, 'poly, 'srs, 'g, 'p) db_env \<Rightarrow> NucleusDb \<Rightarrow> nat \<Rightarrow>
    (u64 \<times> QueryProof \<times> node_hash) option option" where
  "query env db idx =
     (let vec = materialize (state db) in
      if length vec \<le> idx then Some None
      else case state_root_for env db vec of
             None \<Rightarrow> None
           | Some new_root \<Rightarrow>
               (case backend db of
                  Ipa \<Rightarrow> Some (Some (vec ! idx, QIpa (ipa_open vec idx), new_root))
                | Kzg \<Rightarrow>
                    (case kzg_trusted_setup db of
                       Some setup \<Rightarrow>
                         (case open_trusted (env_kzg env) vec idx setup of
                            Inl _ \<Rightarrow> None
                          | Inr p \<Rightarrow> Some (Some (vec ! idx, QKzg p, new_root)))
                     | None \<Rightarrow> Some (Some (vec ! idx, QKzg (kzg_open (env_kzg env) vec idx), new_root)))
                | BinaryMerkle \<Rightarrow>
                    Some (Some (vec ! idx, QBinaryMerkle (bm_open (env_sha256 env) vec idx), new_root))))"

definition verify_kzg_query ::
  "('f::field, 'poly, 'srs, 'g) kzg_env \<Rightarrow> TrustedSetupArtifact option \<Rightarrow> u64 list \<Rightarrow> nat \<Rightarrow> u64 \<Rightarrow>
    KzgProof \<Rightarrow> node_hash \<Rightarrow> bool" where
  "verify_kzg_query kenv setup_opt vec idx value p new_root =
     (case setup_opt of
        Some setup \<Rightarrow>
          (case commit_trusted kenv vec setup of
             Inl _ \<Rightarrow> False
           | Inr c \<Rightarrow>
               if kzg_digest kenv c \<noteq> new_root then False
               else (case verify_trusted kenv c idx value p setup of Inl _ \<Rightarrow> False | Inr b \<Rightarrow> b))
      | None \<Rightarrow>
          let c = kzg_commit kenv vec
          in if kzg_digest kenv c \<noteq> new_root then False else kzg_verify kenv c idx value p)"

definition verify_query ::
  "('f::field, 'poly, 'srs, 'g, 'p) db_env \<Rightarrow> NucleusDb \<Rightarrow> nat \<Rightarrow> u64 \<Rightarrow> QueryProof \<Rightarrow> node_hash \<Rightarrow>
    bool option" where
  "verify_query env db idx value proof new_root =
     (let vec = materialize (state db)
      in case state_root_for env db vec of
           None \<Rightarrow> None
         | Some expected \<Rightarrow>
             if expected \<noteq> new_root then Some False
             else Some (case (backend db, proof) of
               (Ipa, QIpa p) \<Rightarrow>
                 (let c = ipa_commit (env_ipa env) vec
                  in ipa_digest (env_ipa env) c = new_root \<and> ipa_verify (env_ipa env) c idx value p)
             | (Kzg, QKzg p) \<Rightarrow>
                 verify_kzg_query (env_kzg env) (kzg_trusted_setup db) vec idx value p new_root
             | (BinaryMerkle, QBinaryMerkle p) \<Rightarrow>
                 (let c = bm_commit (env_sha256 env) vec
                  in bm_digest c = new_root \<and> bm_verify (env_sha256 env) c idx value p)
             | _ \<Rightarrow> False))"

definition consistency_from ::
  "(bytes \<Rightarrow> node_hash) \<Rightarrow> NucleusDb \<Rightarrow> u64 \<Rightarrow> (SignedTreeHead \<times> ConsistencyProof) option" where
  "consistency_from H db old_size =
     (case current_sth db of
        None \<Rightarrow> None
      | Some new_sth \<Rightarrow>
          (case make_consistency_proof H (ct_leaves db) (unat old_size) of
             None \<Rightarrow> None
           | Some proof \<Rightarrow> Some (new_sth, proof)))"

definition verify_head_extension ::
  "(bytes \<Rightarrow> node_hash) \<Rightarrow> SignedTreeHead \<Rightarrow> SignedTreeHead \<Rightarrow> ConsistencyProof \<Rightarrow> bool" where
  "verify_head_extension H old new proof =
     verify_consistency_proof H proof (root_hash old) (root_hash new)"

section \<open>Typed values and maintenance\<close>

definition set_append_only :: "NucleusDb \<Rightarrow> NucleusDb" where
  "set_append_only db = db\<lparr>write_mode := AppendOnly\<rparr>"

definition put_typed ::
  "(bytes \<Rightarrow> node_hash) \<Rightarrow> libm \<Rightarrow> 'j tv_env \<Rightarrow> u64 \<Rightarrow> string \<Rightarrow> 'j TypedValue \<Rightarrow> NucleusDb \<Rightarrow>
    NucleusDb \<times> (string + nat \<times> u64)" where
  "put_typed H lm tve now key v db =
     (let (c, blob) = encode H tve v key;
          (vi, indexed) = (case v of
             Vector dims \<Rightarrow> upsert lm now key dims (vector_index db)
           | _ \<Rightarrow> (vi_remove lm key (vector_index db), Ok ()))
      in case indexed of
           Inl e \<Rightarrow> (db\<lparr>vector_index := vi\<rparr>, Err e)
         | Inr _ \<Rightarrow>
             let bs = (case blob of
                   Some data \<Rightarrow> blob_put lm now key data (blob_store db)
                 | None \<Rightarrow> snd (blob_remove lm key (blob_store db)));
                 (idx, km) = get_or_create (keymap db) key
             in (db\<lparr>vector_index := vi, blob_store := bs,
                    type_map := type_map_set (type_map db) key (tag_of v), keymap := km\<rparr>,
                 Ok (idx, c)))"

definition get_typed :: "'j tv_env \<Rightarrow> NucleusDb \<Rightarrow> string \<Rightarrow> 'j TypedValue option" where
  "get_typed tve db key =
     (case keymap_get (keymap db) key of
        None \<Rightarrow> None
      | Some idx \<Rightarrow>
          (case decode tve (type_map_get (type_map db) key) (cell (state db) idx)
                  (blob_get (blob_store db) key) of
             Inl _ \<Rightarrow> None
           | Inr v \<Rightarrow> Some v))"

definition get_typed_touching ::
  "libm \<Rightarrow> 'j tv_env \<Rightarrow> u64 \<Rightarrow> NucleusDb \<Rightarrow> string \<Rightarrow> 'j TypedValue option \<times> NucleusDb" where
  "get_typed_touching lm tve now db key =
     (case keymap_get (keymap db) key of
        None \<Rightarrow> (None, db)
      | Some idx \<Rightarrow>
          let (blob, bs) = blob_get_with_access lm now key (blob_store db)
          in ((case decode tve (type_map_get (type_map db) key) (cell (state db) idx) blob of
                 Inl _ \<Rightarrow> None
               | Inr v \<Rightarrow> Some v),
              db\<lparr>blob_store := bs\<rparr>))"

definition aether_maintenance_tick :: "libm \<Rightarrow> u64 \<Rightarrow> NucleusDb \<Rightarrow> bool \<times> NucleusDb" where
  "aether_maintenance_tick lm now db =
     (let (vector_changed, vi) = apply_time_maintenance lm now (vector_index db);
          (blob_changed, bs) = apply_time_maintenance lm now (blob_store db)
      in (vector_changed \<or> blob_changed, db\<lparr>vector_index := vi, blob_store := bs\<rparr>))"

definition soft_reset_aether_memory :: "NucleusDb \<Rightarrow> NucleusDb" where
  "soft_reset_aether_memory db =
     db\<lparr>vector_index := cache_soft_reset (vector_index db),
        blob_store := cache_soft_reset (blob_store db)\<rparr>"

end
