(* ===== verification/Protocol_Proofs.thy ===== *)
theory Protocol_Proofs
  imports Protocol
begin

text \<open>
  What a commit guarantees: which inputs it accepts, what it leaves behind on success and
  on each kind of failure, that the log and the entries stay in step, that append-only
  mode preserves every non-zero cell, and that the seals it writes form a valid chain.
\<close>

section \<open>The cases of a commit\<close>

lemma commit_checks_okD:
  assumes "commit_checks db delta views = Ok (nxt, pf)"
  shows "nxt = apply_delta (state db) delta" "pf = build_sheaf_coherence views"
    "threshold (witness_cfg db) \<le> length (witnesses (witness_cfg db))"
    "length (writes delta) \<le> max_delta_writes (security_params db)"
    "length (st_values nxt) \<le> max_vector_len (security_params db)"
    "write_mode db = AppendOnly \<Longrightarrow> verify_monotone_extension (state db) (keymap db) nxt (keymap db)"
    "verify_sheaf_coherence nxt pf"
    "trim (scheme_id (commitment_policy (security_params db))) \<noteq> []"
    "trim (domain_separator (commitment_policy (security_params db))) \<noteq> []"
    "0 < policy_max_degree (commitment_policy (security_params db))"
  using assms
  by (auto simp: commit_checks_def validator_iffs Let_def split: sum.splits if_splits)

text \<open>The root a commit links back to.\<close>

definition prev_root_of ::
  "('f::field, 'poly, 'srs, 'g, 'p) db_env \<Rightarrow> NucleusDb \<Rightarrow> node_hash option" where
  "prev_root_of env db =
     (if entries db = [] then state_root_for env db (materialize (state db))
      else Some (state_root (last (entries db))))"

text \<open>
  A commit that passes its checks has logged a leaf; the rest depends on the witnesses
  and on the final refinement check.
\<close>

lemma commit_cases:
  assumes "commit env now db delta views = Some (db', r)"
  obtains (refused) e where "commit_checks db delta views = Err e" "db' = db" "r = Err e"
  | (logged) nxt pf prev_root new_root db1 head where
      "commit_checks db delta views = Ok (nxt, pf)"
      "state_root_for env db (materialize nxt) = Some new_root"
      "prev_root_of env db = Some prev_root"
      "log_leaf (env_sha256 env) now db delta prev_root new_root (sheaf_digest pf) = (db1, head)"
      "commit_finish env db1 (draft_entry db delta prev_root new_root (sheaf_digest pf) head) nxt = (db', r)"
proof (cases "commit_checks db delta views")
  case (Inl e)
  with assms show ?thesis by (intro refused) (auto simp: commit_def)
next
  case (Inr np)
  then show ?thesis
    using assms logged unfolding commit_def prev_root_of_def [symmetric]
    by (cases np) (auto split: option.splits prod.splits)
qed

text \<open>How a commit ends once the leaf is logged.\<close>

lemma commit_finish_cases:
  assumes "commit_finish env db draft nxt = (db', r)"
  obtains (unsigned) e where "r = Err (WitnessSigningFailed e)" "db' = db"
  | (no_quorum) "r = Err WitnessQuorumFailed" "db' = db"
  | (unrefined) e where "r = Err (SecurityRefinementFailed e)" "db' = db\<lparr>state := nxt\<rparr>"
  | (committed) sigs where
      "r = Ok (draft\<lparr>witness_sigs := sigs\<rparr>)"
      "db' = push_seal (env_sha256 env)
         (db\<lparr>state := nxt, entries := entries db @ [draft\<lparr>witness_sigs := sigs\<rparr>]\<rparr>)"
      "verify_quorum_for_algorithm (env_sig env) (witness_cfg db) (signing_algorithm (witness_cfg db))
         (commit_message (height draft) (prev_state_root draft) (state_root draft) (sth draft)) sigs"
      "tree_size (sth draft) = height draft"
      "sth_sig (sth draft) = sth_signature (env_sha256 env) (tree_size (sth draft))
         (root_hash (sth draft)) (timestamp_unix_secs (sth draft))"
  using assms unfolding commit_finish_def Let_def
  by (auto split: sum.splits if_splits simp: post_commit_iff)

lemma commit_finish_ok:
  assumes "commit_finish env db draft nxt = (db', Ok e)"
  obtains sigs where "e = draft\<lparr>witness_sigs := sigs\<rparr>"
    "db' = push_seal (env_sha256 env) (db\<lparr>state := nxt, entries := entries db @ [e]\<rparr>)"
    "verify_quorum_for_algorithm (env_sig env) (witness_cfg db) (signing_algorithm (witness_cfg db))
       (commit_message (height draft) (prev_state_root draft) (state_root draft) (sth draft)) sigs"
    "tree_size (sth draft) = height draft"
  using assms by (cases rule: commit_finish_cases) simp_all

lemma push_seal_frame [simp]:
  "backend (push_seal H db) = backend db" "state (push_seal H db) = state db"
  "keymap (push_seal H db) = keymap db" "entries (push_seal H db) = entries db"
  "witness_cfg (push_seal H db) = witness_cfg db" "security_params (push_seal H db) = security_params db"
  "reduction_contracts (push_seal H db) = reduction_contracts db"
  "kzg_trusted_setup (push_seal H db) = kzg_trusted_setup db" "ct_leaves (push_seal H db) = ct_leaves db"
  "current_sth (push_seal H db) = current_sth db" "write_mode (push_seal H db) = write_mode db"
  "type_map (push_seal H db) = type_map db" "blob_store (push_seal H db) = blob_store db"
  "vector_index (push_seal H db) = vector_index db"
  by (simp_all add: push_seal_def Let_def)

text \<open>A commit touches the state, the entries, the log and the seals, and nothing else.\<close>

definition same_config :: "NucleusDb \<Rightarrow> NucleusDb \<Rightarrow> bool" where
  "same_config db db' \<longleftrightarrow>
     backend db' = backend db \<and> keymap db' = keymap db \<and> witness_cfg db' = witness_cfg db \<and>
     security_params db' = security_params db \<and> reduction_contracts db' = reduction_contracts db \<and>
     kzg_trusted_setup db' = kzg_trusted_setup db \<and> write_mode db' = write_mode db \<and>
     type_map db' = type_map db \<and> blob_store db' = blob_store db \<and> vector_index db' = vector_index db"

lemma log_leaf_frame:
  assumes "log_leaf H now db delta p n sd = (db1, head)"
  shows "same_config db db1" "state db1 = state db" "entries db1 = entries db"
    "monotone_seals db1 = monotone_seals db" "current_sth db1 = Some head"
    "head = make_sth H (ct_leaves db1) now" "length (ct_leaves db1) = Suc (length (ct_leaves db))"
  using assms by (auto simp: log_leaf_def Let_def same_config_def)

lemma commit_frame:
  assumes "commit env now db delta views = Some (db', r)"
  shows "same_config db db'"
  using assms
proof (cases rule: commit_cases)
  case (logged nxt pf prev_root new_root db1 head)
  note f = log_leaf_frame [OF logged(4)]
  from logged(5) show ?thesis
    by (cases rule: commit_finish_cases) (use f in \<open>auto simp: same_config_def\<close>)
qed (simp add: same_config_def)

lemma state_root_for_config:
  "backend db' = backend db \<Longrightarrow> kzg_trusted_setup db' = kzg_trusted_setup db \<Longrightarrow>
    state_root_for env db' = state_root_for env db"
  by (rule ext) (simp add: state_root_for_def split: VcBackend.splits)

section \<open>A successful commit\<close>

definition entry_payload :: "CommitEntry \<Rightarrow> string" where
  "entry_payload e = ct_leaf_payload (height e) (prev_state_root e) (state_root e) (delta_digest e)
     (cert_digest e) (sheaf_coherence_digest e)"

definition entry_message :: "CommitEntry \<Rightarrow> string" where
  "entry_message e = commit_message (height e) (prev_state_root e) (state_root e) (sth e)"

text \<open>The commitment policy was validated, so an entry records a usable one.\<close>

definition policy_recorded :: "CommitEntry \<Rightarrow> bool" where
  "policy_recorded e \<longleftrightarrow>
     trim (vc_scheme_id e) \<noteq> [] \<and> trim (vc_domain_separator e) \<noteq> [] \<and> 0 < vc_max_degree e"

lemma commit_ok:
  assumes "commit env now db delta views = Some (db', Ok e)"
  shows "state db' = apply_delta (state db) delta"
    "entries db' = entries db @ [e]"
    "ct_leaves db' = ct_leaves db @ [leaf_hash (env_sha256 env) (entry_payload e)]"
    "height e = of_nat (length (entries db)) + 1" "tree_size (sth e) = height e"
    "sth e = make_sth (env_sha256 env) (ct_leaves db') now" "current_sth db' = Some (sth e)"
    "prev_root_of env db = Some (prev_state_root e)"
    "state_root_for env db (materialize (state db')) = Some (state_root e)"
    "verify_quorum_for_algorithm (env_sig env) (witness_cfg db) (signing_algorithm (witness_cfg db))
       (entry_message e) (witness_sigs e)"
    "witness_signature_algorithm e = as_tag (signing_algorithm (witness_cfg db))"
    "vc_backend_id e = backend_id (backend db)"
    "\<exists>nxt pf. commit_checks db delta views = Ok (nxt, pf)"
    "policy_recorded e"
proof -
  obtain nxt pf prev_root new_root db1 head where
    c: "commit_checks db delta views = Ok (nxt, pf)"
    and r: "state_root_for env db (materialize nxt) = Some new_root" "prev_root_of env db = Some prev_root"
    and l: "log_leaf (env_sha256 env) now db delta prev_root new_root (sheaf_digest pf) = (db1, head)"
    and f: "commit_finish env db1 (draft_entry db delta prev_root new_root (sheaf_digest pf) head) nxt = (db', Ok e)"
    by (rule commit_cases [OF assms]) (simp, blast)
  note n = commit_checks_okD [OF c] and fr = log_leaf_frame [OF l]
  let ?d = "draft_entry db delta prev_root new_root (sheaf_digest pf) head"
  have d: "height ?d = of_nat (length (entries db)) + 1" "prev_state_root ?d = prev_root"
    "state_root ?d = new_root" "sth ?d = head" "delta_digest ?d = of_nat (length (writes delta)) * 13"
    "cert_digest ?d = (of_nat (length (entries db)) + 1) * 31" "sheaf_coherence_digest ?d = sheaf_digest pf"
    "witness_signature_algorithm ?d = as_tag (signing_algorithm (witness_cfg db))"
    "vc_backend_id ?d = backend_id (backend db)"
    by (simp_all add: draft_entry_def Let_def)
  obtain sigs where e: "e = ?d\<lparr>witness_sigs := sigs\<rparr>"
    and db': "db' = push_seal (env_sha256 env) (db1\<lparr>state := nxt, entries := entries db1 @ [e]\<rparr>)"
    and q: "verify_quorum_for_algorithm (env_sig env) (witness_cfg db1) (signing_algorithm (witness_cfg db1))
      (commit_message (height ?d) (prev_state_root ?d) (state_root ?d) (sth ?d)) sigs"
    and t: "tree_size (sth ?d) = height ?d"
    by (rule commit_finish_ok [OF f])
  have w: "witness_cfg db1 = witness_cfg db" using fr(1) by (simp add: same_config_def)
  show "state db' = apply_delta (state db) delta" using n(1) by (simp add: db')
  show "entries db' = entries db @ [e]" by (simp add: db' fr)
  show "ct_leaves db' = ct_leaves db @ [leaf_hash (env_sha256 env) (entry_payload e)]"
    using l by (auto simp: db' log_leaf_def Let_def e entry_payload_def d)
  show "height e = of_nat (length (entries db)) + 1" by (simp add: e d)
  show "tree_size (sth e) = height e" using t by (simp add: e)
  show "sth e = make_sth (env_sha256 env) (ct_leaves db') now" using fr(6) by (simp add: e db' draft_entry_def Let_def)
  show "current_sth db' = Some (sth e)" using fr(5) by (simp add: e db' d)
  show "prev_root_of env db = Some (prev_state_root e)" using r(2) by (simp add: e d)
  show "state_root_for env db (materialize (state db')) = Some (state_root e)"
    using r(1) by (simp add: e d db')
  show "verify_quorum_for_algorithm (env_sig env) (witness_cfg db) (signing_algorithm (witness_cfg db))
      (entry_message e) (witness_sigs e)"
    using q by (simp add: e d w entry_message_def)
  show "witness_signature_algorithm e = as_tag (signing_algorithm (witness_cfg db))"
    "vc_backend_id e = backend_id (backend db)" by (simp_all add: e d)
  show "\<exists>nxt pf. commit_checks db delta views = Ok (nxt, pf)" using c by blast
  show "policy_recorded e" using n(8-10) by (simp add: e policy_recorded_def draft_entry_def Let_def)
qed

section \<open>Failed commits\<close>

text \<open>An error raised by the checks leaves the database as it was.\<close>

lemma commit_refused:
  "commit env now db delta views = Some (db', r) \<Longrightarrow> commit_checks db delta views = Err e \<Longrightarrow>
    db' = db \<and> r = Err e"
  by (auto simp: commit_def)

text \<open>
  A commit whose witnesses fail after the leaf was logged leaves one leaf too many.  From
  then on no commit succeeds: the tree head it makes is larger than its height.
\<close>

definition desynced :: "NucleusDb \<Rightarrow> bool" where
  "desynced db \<longleftrightarrow> length (entries db) < length (ct_leaves db)"

lemma failed_witnesses_desync:
  assumes "commit env now db delta views = Some (db', Err err)"
    "err = WitnessQuorumFailed \<or> err = WitnessSigningFailed w"
    "length (entries db) \<le> length (ct_leaves db)"
  shows "desynced db' \<and> state db' = state db \<and> entries db' = entries db"
  using assms(1)
proof (cases rule: commit_cases)
  case (refused e)
  then show ?thesis
    using assms(2) by (auto simp: commit_checks_def Let_def split: sum.splits if_splits)
next
  case (logged nxt pf prev_root new_root db1 head)
  note fr = log_leaf_frame [OF logged(4)]
  from logged(5) show ?thesis
    using assms(2,3) fr by (cases rule: commit_finish_cases) (auto simp: desynced_def)
qed

lemma commit_ok_synced:
  assumes "commit env now db delta views = Some (db', Ok e)"
    "length (ct_leaves db) < 2 ^ 64 - 1" "length (entries db) < 2 ^ 64 - 1"
  shows "length (ct_leaves db) = length (entries db)"
proof -
  note ok = commit_ok [OF assms(1)]
  have "(of_nat (length (ct_leaves db) + 1) :: u64) = of_nat (length (entries db) + 1)"
    using ok(4-6) ok(3) by (simp add: make_sth_def Let_def)
  then have "unat (of_nat (length (ct_leaves db) + 1) :: u64) = unat (of_nat (length (entries db) + 1) :: u64)"
    by (rule arg_cong)
  moreover have "unat (of_nat (length (ct_leaves db) + 1) :: u64) = length (ct_leaves db) + 1"
    by (rule unat_of_nat_64) (use assms(2) in simp)
  moreover have "unat (of_nat (length (entries db) + 1) :: u64) = length (entries db) + 1"
    by (rule unat_of_nat_64) (use assms(3) in simp)
  ultimately show ?thesis by linarith
qed

lemma desynced_commit:
  assumes "desynced db" "commit env now db delta views = Some (db', r)"
    "length (ct_leaves db) < 2 ^ 64 - 1"
  shows "desynced db' \<and> isl r"
proof -
  have "length (entries db) < 2 ^ 64 - 1" using assms(1,3) by (simp add: desynced_def)
  then have noOk: "r \<noteq> Ok e" for e
    using commit_ok_synced [of env now db delta views db' e] assms by (auto simp: desynced_def)
  from assms(2) show ?thesis
  proof (cases rule: commit_cases)
    case (logged nxt pf prev_root new_root db1 head)
    note fr = log_leaf_frame [OF logged(4)]
    from logged(5) show ?thesis
      using noOk fr assms(1) by (cases rule: commit_finish_cases) (auto simp: desynced_def)
  qed (use assms(1) in simp)
qed

text \<open>A sequence of commits, successful or not.\<close>

inductive commits ::
  "('f::field, 'poly, 'srs, 'g, 'p) db_env \<Rightarrow> NucleusDb \<Rightarrow> NucleusDb \<Rightarrow> bool"
  for env :: "('f, 'poly, 'srs, 'g, 'p) db_env" where
  commits_none: "commits env db db"
| commits_more: "commits env db db1 \<Longrightarrow> commit env now db1 delta views = Some (db2, r) \<Longrightarrow>
    commits env db db2"

lemma commit_leaves_grow:
  assumes "commit env now db delta views = Some (db', r)"
  shows "length (ct_leaves db) \<le> length (ct_leaves db')"
  using assms
proof (cases rule: commit_cases)
  case (logged nxt pf prev_root new_root db1 head)
  note fr = log_leaf_frame [OF logged(4)]
  from logged(5) show ?thesis by (cases rule: commit_finish_cases) (simp_all add: fr)
qed simp

lemma desynced_forever:
  assumes "commits env db db'" "desynced db" "length (ct_leaves db') < 2 ^ 64 - 1"
  shows "desynced db'"
  using assms
proof (induction rule: commits.induct)
  case (commits_more db db1 now delta views db2 r)
  then show ?case
    using commit_leaves_grow [OF commits_more(2)] desynced_commit [OF _ commits_more(2)] by auto
qed

section \<open>Log and entries stay in step\<close>

definition entry_logged ::
  "('f, 'poly, 'srs, 'g, 'p) db_env \<Rightarrow> NucleusDb \<Rightarrow> nat \<Rightarrow> bool" where
  "entry_logged env db i \<longleftrightarrow>
     (let e = entries db ! i
      in height e = of_nat (i + 1) \<and>
         ct_leaves db ! i = leaf_hash (env_sha256 env) (entry_payload e) \<and>
         sth e = make_sth (env_sha256 env) (take (i + 1) (ct_leaves db)) (timestamp_unix_secs (sth e)) \<and>
         verify_quorum_for_algorithm (env_sig env) (witness_cfg db) (signing_algorithm (witness_cfg db))
           (entry_message e) (witness_sigs e) \<and>
         witness_signature_algorithm e = as_tag (signing_algorithm (witness_cfg db)) \<and>
         vc_backend_id e = backend_id (backend db) \<and> policy_recorded e \<and>
         (0 < i \<longrightarrow> prev_state_root e = state_root (entries db ! (i - 1))))"

definition db_inv :: "('f::field, 'poly, 'srs, 'g, 'p) db_env \<Rightarrow> NucleusDb \<Rightarrow> bool" where
  "db_inv env db \<longleftrightarrow>
     length (ct_leaves db) = length (entries db) \<and>
     (\<forall>i < length (entries db). entry_logged env db i) \<and>
     current_sth db = (if entries db = [] then None else Some (sth (last (entries db)))) \<and>
     (entries db \<noteq> [] \<longrightarrow>
        state_root_for env db (materialize (state db)) = Some (state_root (last (entries db))))"

lemma entry_logged_old:
  assumes "entry_logged env db i" "i < length (entries db)" "length (ct_leaves db) = length (entries db)"
    "entries db' = entries db @ [e]" "ct_leaves db' = ct_leaves db @ [l]"
    "witness_cfg db' = witness_cfg db" "backend db' = backend db"
  shows "entry_logged env db' i"
proof -
  have "entries db' ! i = entries db ! i" "ct_leaves db' ! i = ct_leaves db ! i"
    "take (i + 1) (ct_leaves db') = take (i + 1) (ct_leaves db)"
    "entries db' ! (i - 1) = entries db ! (i - 1)"
    using assms(2-5) by (auto simp: nth_append)
  then show ?thesis
    using assms(1,6,7) unfolding entry_logged_def Let_def by metis
qed

lemma commit_preserves_inv:
  assumes inv: "db_inv env db" and ok: "commit env now db delta views = Some (db', Ok e)"
  shows "db_inv env db'"
proof -
  note c = commit_ok [OF ok] and f = commit_frame [OF ok, unfolded same_config_def]
  have len: "length (ct_leaves db) = length (entries db)" using inv by (simp add: db_inv_def)
  have new: "entry_logged env db' (length (entries db))"
  proof -
    have "timestamp_unix_secs (sth e) = now" by (simp add: c(6) make_sth_def Let_def)
    moreover have "prev_state_root e = state_root (entries db ! (length (entries db) - 1))"
      if "entries db \<noteq> []"
      using c(8) that by (simp add: prev_root_of_def last_conv_nth)
    ultimately show ?thesis
      using c(2-4,6,10-12,14) f len by (auto simp: entry_logged_def Let_def nth_append add.commute)
  qed
  have "entry_logged env db' i" if "i < length (entries db')" for i
  proof (cases "i = length (entries db)")
    case False
    with that have i: "i < length (entries db)" by (simp add: c(2))
    then have "entry_logged env db i" using inv unfolding db_inv_def by blast
    then show ?thesis
      using i len c(2,3) by (rule entry_logged_old) (use f in simp_all)
  qed (use new in simp)
  moreover have "state_root_for env db' = state_root_for env db"
    using f by (intro state_root_for_config) auto
  ultimately show ?thesis
    using c(2,3,7,9) len by (simp add: db_inv_def)
qed

lemma db_inv_new:
  "with_security env now initial b wcfg ps contracts = Ok db \<Longrightarrow> db_inv env db"
  by (auto simp: with_security_def db_inv_def split: sum.splits)

text \<open>
  From a synchronised database a commit is atomic unless the witnesses fail: the final
  refinement check cannot.
\<close>

lemma synced_commit_atomic:
  assumes "length (ct_leaves db) = length (entries db)"
    "commit env now db delta views = Some (db', Err e)"
    "e \<noteq> WitnessQuorumFailed" "\<And>w. e \<noteq> WitnessSigningFailed w"
  shows "db' = db"
  using assms(2)
proof (cases rule: commit_cases)
  case (logged nxt pf prev_root new_root db1 head)
  note fr = log_leaf_frame [OF logged(4)]
  let ?d = "draft_entry db delta prev_root new_root (sheaf_digest pf) head"
  have "tree_size (sth ?d) = height ?d"
    using fr(6,7) assms(1) by (simp add: draft_entry_def make_sth_def Let_def)
  moreover have "sth_sig (sth ?d) = sth_signature (env_sha256 env) (tree_size (sth ?d))
      (root_hash (sth ?d)) (timestamp_unix_secs (sth ?d))"
    using fr(6) by (simp add: draft_entry_def make_sth_def Let_def)
  ultimately have "verify_post_commit_refinement (env_sha256 env) (height ?d) (prev_state_root ?d)
      (height ?d) (prev_state_root ?d) (tree_size (sth ?d)) (root_hash (sth ?d))
      (timestamp_unix_secs (sth ?d)) (sth_sig (sth ?d)) = Ok ()"
    by (simp add: post_commit_iff)
  then have False
    using logged(5) assms(3,4) by (auto simp: commit_finish_def Let_def split: sum.splits if_splits)
  then show ?thesis ..
qed simp

section \<open>A commit that should succeed does\<close>

definition witnesses_ready :: "('f, 'poly, 'srs, 'g, 'p) db_env \<Rightarrow> NucleusDb \<Rightarrow> bool" where
  "witnesses_ready env db \<longleftrightarrow>
     (let cfg = witness_cfg db; ws = take (threshold cfg) (witnesses cfg)
      in sig_laws (env_sig env) \<and> keys_match (env_sig env) cfg \<and>
         signing_algorithm cfg \<in> set (allowed_algorithms cfg) \<and> distinct ws \<and>
         (\<forall>w \<in> set ws. \<forall>msg. \<exists>sig. sign_message (env_sig env) cfg w msg = Ok sig))"

lemma sign_all_ok:
  "\<forall>w \<in> set ws. \<exists>sig. sign_message env cfg w msg = Ok sig \<Longrightarrow> \<exists>sigs. sign_all env cfg msg ws = Ok sigs"
  by (induction ws) auto

lemma commit_succeeds:
  assumes "length (ct_leaves db) = length (entries db)" "witnesses_ready env db"
    "commit_checks db delta views = Ok (nxt, pf)"
    "state_root_for env db (materialize nxt) = Some new_root" "prev_root_of env db = Some prev_root"
  shows "\<exists>db' e. commit env now db delta views = Some (db', Ok e)"
proof -
  obtain db1 head where l:
    "log_leaf (env_sha256 env) now db delta prev_root new_root (sheaf_digest pf) = (db1, head)"
    by fastforce
  note fr = log_leaf_frame [OF l]
  let ?d = "draft_entry db delta prev_root new_root (sheaf_digest pf) head"
  obtain db' r where fin: "commit_finish env db1 ?d nxt = (db', r)" by fastforce
  have com: "commit env now db delta views = Some (db', r)"
    using assms(3-5) l fin by (simp add: commit_def prev_root_of_def)
  have w: "witness_cfg db1 = witness_cfg db" using fr(1) by (simp add: same_config_def)
  let ?cfg = "witness_cfg db"
  let ?msg = "commit_message (height ?d) (prev_state_root ?d) (state_root ?d) (sth ?d)"
  obtain sigs where sigs: "sign_all (env_sig env) ?cfg ?msg (take (threshold ?cfg) (witnesses ?cfg)) = Ok sigs"
    using sign_all_ok assms(2) unfolding witnesses_ready_def Let_def by metis
  have "verify_quorum_for_algorithm (env_sig env) ?cfg (signing_algorithm ?cfg) ?msg sigs"
    using commit_quorum_iff [OF _ _ _ _ sigs] assms(2) commit_checks_okD(3) [OF assms(3)]
    by (simp add: witnesses_ready_def Let_def)
  then have "r \<noteq> Err WitnessQuorumFailed" "r \<noteq> Err (WitnessSigningFailed e)" for e
    using fin sigs w by (auto simp: commit_finish_def Let_def split: sum.splits)
  moreover have "length (ct_leaves db') = Suc (length (ct_leaves db))"
    using fin by (cases rule: commit_finish_cases) (simp_all add: fr(7))
  then have "db' \<noteq> db" by auto
  ultimately have "\<not> isl r"
    using synced_commit_atomic [OF assms(1), of env now delta views db'] com by (auto simp: isl_def)
  then show ?thesis using com by (cases r) auto
qed

section \<open>Append-only mode\<close>

lemma append_only_commit:
  assumes "commit env now db delta views = Some (db', r)" "write_mode db = AppendOnly"
  shows "verify_raw_monotone_extension (state db) (state db')"
  using assms(1)
proof (cases rule: commit_cases)
  case (refused e)
  then show ?thesis by (simp add: raw_monotone_refl)
next
  case (logged nxt pf prev_root new_root db1 head)
  have "verify_raw_monotone_extension (state db) nxt"
    using commit_checks_okD(6) [OF logged(1) assms(2)]
    by (simp add: verify_monotone_extension_def split: if_splits)
  with logged(5) log_leaf_frame(2) [OF logged(4)] show ?thesis
    by (cases rule: commit_finish_cases) (auto simp: raw_monotone_refl)
qed

text \<open>Every operation of the database, as one step relation.\<close>

inductive db_step ::
  "('f::field, 'poly, 'srs, 'g, 'p) db_env \<Rightarrow> 'j tv_env \<Rightarrow> NucleusDb \<Rightarrow> NucleusDb \<Rightarrow> bool"
  for env :: "('f, 'poly, 'srs, 'g, 'p) db_env" and tve :: "'j tv_env" where
  step_commit: "commit env now db delta views = Some (db', r) \<Longrightarrow> db_step env tve db db'"
| step_put: "put_typed (env_sha256 env) (env_libm env) tve now key v db = (db', pr) \<Longrightarrow> db_step env tve db db'"
| step_touch: "get_typed_touching (env_libm env) tve now db key = (got, db') \<Longrightarrow> db_step env tve db db'"
| step_tick: "aether_maintenance_tick (env_libm env) now db = (changed, db') \<Longrightarrow> db_step env tve db db'"
| step_reset: "db_step env tve db (soft_reset_aether_memory db)"
| step_lock: "db_step env tve db (set_append_only db)"

inductive_cases db_stepE: "db_step env tve db db'"

lemma put_typed_frame:
  assumes "put_typed H lm tve now key v db = (db', r)"
  shows "state db' = state db" "write_mode db' = write_mode db" "entries db' = entries db"
    "ct_leaves db' = ct_leaves db" "monotone_seals db' = monotone_seals db"
    "current_sth db' = current_sth db" "backend db' = backend db" "witness_cfg db' = witness_cfg db"
    "security_params db' = security_params db" "reduction_contracts db' = reduction_contracts db"
    "kzg_trusted_setup db' = kzg_trusted_setup db"
  using assms by (auto simp: put_typed_def Let_def case_prod_beta split: sum.splits)

lemma touching_frame:
  assumes "get_typed_touching lm tve now db key = (got, db')"
  shows "\<exists>bs. db' = db\<lparr>blob_store := bs\<rparr>"
proof (cases "keymap_get (keymap db) key")
  case None
  with assms have "db' = db\<lparr>blob_store := blob_store db\<rparr>" by (simp add: get_typed_touching_def)
  then show ?thesis ..
qed (use assms in \<open>auto simp: get_typed_touching_def case_prod_beta\<close>)

lemma step_append_only:
  assumes "db_step env tve db db'" "write_mode db = AppendOnly"
  shows "write_mode db' = AppendOnly \<and> verify_raw_monotone_extension (state db) (state db')"
  using assms(1)
proof cases
  case (step_commit now delta views r)
  then show ?thesis
    using append_only_commit [OF step_commit assms(2)] commit_frame [OF step_commit] assms(2)
    by (simp add: same_config_def)
next
  case (step_put now key v pr)
  then show ?thesis using put_typed_frame [OF step_put] assms(2) by (simp add: raw_monotone_refl)
next
  case (step_touch now key got)
  then show ?thesis using touching_frame [OF step_touch] assms(2) by (auto simp: raw_monotone_refl)
next
  case (step_tick now changed)
  then show ?thesis
    using assms(2) by (auto simp: aether_maintenance_tick_def case_prod_beta raw_monotone_refl)
qed (use assms(2) in \<open>auto simp: soft_reset_aether_memory_def set_append_only_def raw_monotone_refl\<close>)

lemma steps_append_only:
  assumes "(db_step env tve)\<^sup>*\<^sup>* db db'" "write_mode db = AppendOnly"
  shows "write_mode db' = AppendOnly \<and> verify_raw_monotone_extension (state db) (state db')"
  using assms
proof (induction rule: rtranclp_induct)
  case (step y z)
  then show ?case using step_append_only raw_monotone_trans by blast
qed (simp add: raw_monotone_refl)

section \<open>Seals\<close>

text \<open>
  The snapshots a run of the database sealed: state and key registry at each successful
  append-only commit; anything that leaves the seals alone may happen in between.
\<close>

inductive sealed_run ::
  "('f::field, 'poly, 'srs, 'g, 'p) db_env \<Rightarrow> NucleusDb \<Rightarrow> (State \<times> KeyMap) list \<Rightarrow> bool"
  for env :: "('f, 'poly, 'srs, 'g, 'p) db_env" where
  run_start: "monotone_seals db = [] \<Longrightarrow> sealed_run env db []"
| run_commit: "sealed_run env db snaps \<Longrightarrow> write_mode db = AppendOnly \<Longrightarrow>
    commit env now db delta views = Some (db', Ok e) \<Longrightarrow>
    sealed_run env db' (snaps @ [(state db', keymap db')])"
| run_other: "sealed_run env db snaps \<Longrightarrow> monotone_seals db' = monotone_seals db \<Longrightarrow> sealed_run env db' snaps"

lemma seal_loop_snoc:
  "length seals = length states \<Longrightarrow>
    seal_loop H prev (seals @ [s]) (states @ [(st, km)]) \<longleftrightarrow>
      seal_loop H prev seals states \<and> s = next_seal H (last (prev # seals)) (key_value_digest H st km)"
  by (induction seals states arbitrary: prev rule: list_induct2) (auto split: if_splits)

lemma commit_pushes_seal:
  assumes "commit env now db delta views = Some (db', Ok e)" "write_mode db = AppendOnly"
  shows "monotone_seals db' = monotone_seals db @
    [next_seal (env_sha256 env) (last (genesis_seal (env_sha256 env) # monotone_seals db))
       (key_value_digest (env_sha256 env) (state db') (keymap db'))]"
  using assms(1)
proof (cases rule: commit_cases)
  case (logged nxt pf prev_root new_root db1 head)
  note fr = log_leaf_frame [OF logged(4)]
  have "write_mode db1 = AppendOnly" "monotone_seals db1 = monotone_seals db"
    using fr(1,4) assms(2) by (simp_all add: same_config_def)
  then show ?thesis
    by (rule_tac commit_finish_ok [OF logged(5)]) (simp add: push_seal_def Let_def)
qed simp

lemma sealed_run_verifies:
  "sealed_run env db snaps \<Longrightarrow> verify_seal_chain (env_sha256 env) (monotone_seals db) snaps"
proof (induction rule: sealed_run.induct)
  case (run_commit db snaps now delta views db' e)
  then show ?case
    using commit_pushes_seal [OF run_commit(3,2)]
    by (auto simp: verify_seal_chain_def verify_seal_chain_with_anchor_def seal_loop_snoc split: if_splits)
qed (simp_all add: verify_seal_chain_def verify_seal_chain_with_anchor_def)

end
