(* ===== verification/Protocol_Reads.thy ===== *)
theory Protocol_Reads
  imports Protocol_Proofs
begin

text \<open>
  Reading the database back: queries and their proofs, extension proofs between tree
  heads, and typed values through the key registry, the type map and the blob store.
\<close>

section \<open>Queries\<close>

lemma query_verifies:
  assumes "query env db idx = Some (Some (v, p, r))" "length (st_values (state db)) < 2 ^ 64"
    "backend db = Kzg \<Longrightarrow> kzg_laws (env_kzg env)"
  shows "v = cell (state db) idx \<and> idx < length (st_values (state db)) \<and>
    verify_query env db idx v p r = Some True"
proof -
  let ?vec = "st_values (state db)"
  from assms(1) have idx: "idx < length ?vec" and root: "state_root_for env db ?vec = Some r"
    and v: "v = ?vec ! idx"
    by (auto simp: query_def materialize_def Let_def
        split: if_splits option.splits VcBackend.splits sum.splits)
  have "verify_query env db idx v p r = Some True"
  proof (cases "backend db")
    case Ipa
    have "p = QIpa (ipa_open ?vec idx)"
      using assms(1) idx root by (simp add: query_def materialize_def Ipa Let_def)
    moreover have "ipa_verify (env_ipa env) (ipa_commit (env_ipa env) ?vec) idx (?vec ! idx) (ipa_open ?vec idx)"
      using idx by (intro ipa.honest_opening) simp_all
    ultimately show ?thesis
      using root by (simp add: verify_query_def materialize_def Ipa v state_root_for_def Let_def)
  next
    case Kzg
    note laws = assms(3) [OF Kzg]
    show ?thesis
    proof (cases "kzg_trusted_setup db")
      case None
      have "p = QKzg (kzg_open (env_kzg env) ?vec idx)"
        using assms(1) idx root
        by (simp add: query_def materialize_def Kzg None Let_def split: option.splits)
      moreover have "kzg_verify (env_kzg env) (kzg_commit (env_kzg env) ?vec) idx (?vec ! idx)
          (kzg_open (env_kzg env) ?vec idx)"
        using idx laws assms(2) by (intro kzg.honest_opening) simp_all
      ultimately show ?thesis
        using root
        by (simp add: verify_query_def materialize_def Kzg None v state_root_for_def Let_def verify_kzg_query_def)
    next
      case (Some su)
      then obtain c where c: "commit_trusted (env_kzg env) ?vec su = Ok c" "r = kzg_digest (env_kzg env) c"
        using root by (auto simp: state_root_for_def Kzg split: sum.splits)
      obtain q where "open_trusted (env_kzg env) ?vec idx su = Ok q"
        "verify_trusted (env_kzg env) c idx (?vec ! idx) q su = Ok True"
        using trusted_opening_verifies [OF laws idx _ c(1)] assms(2) by auto
      moreover from this(1) have "p = QKzg q"
        using assms(1) idx root
        by (simp add: query_def materialize_def Kzg Some Let_def split: option.splits)
      ultimately show ?thesis
        using root c
        by (simp add: verify_query_def materialize_def Kzg Some v Let_def verify_kzg_query_def)
    qed
  next
    case BinaryMerkle
    have "p = QBinaryMerkle (bm_open (env_sha256 env) ?vec idx)"
      using assms(1) idx root
      by (simp add: query_def materialize_def BinaryMerkle Let_def split: option.splits)
    moreover have "bm_verify (env_sha256 env) (bm_commit (env_sha256 env) ?vec) idx (?vec ! idx)
        (bm_open (env_sha256 env) ?vec idx)"
      using idx assms(2) by (intro bm.honest_opening) simp_all
    ultimately show ?thesis
      using root by (simp add: verify_query_def materialize_def BinaryMerkle v state_root_for_def Let_def)
  qed
  then show ?thesis using v idx by (simp add: cell_def)
qed

text \<open>A proof that verifies shows the stored value, for the two binding backends.\<close>

definition query_unforgeable ::
  "('f, 'poly, 'srs, 'g, 'p) db_env \<Rightarrow> u64 list \<Rightarrow> nat \<Rightarrow> u64 \<Rightarrow> QueryProof \<Rightarrow> bool" where
  "query_unforgeable env vec idx v p =
     (case p of
        QIpa q \<Rightarrow> ipa_unforgeable (env_ipa env) vec idx v q
      | QBinaryMerkle q \<Rightarrow> bm_unforgeable (env_sha256 env) vec idx v q
      | QKzg q \<Rightarrow> False)"

lemma verified_query_sound:
  assumes "verify_query env db idx v p r = Some True" "idx < length (st_values (state db))"
    "query_unforgeable env (st_values (state db)) idx v p"
  shows "v = cell (state db) idx"
proof (cases p)
  case (QIpa q)
  then have "ipa_verify (env_ipa env) (ipa_commit (env_ipa env) (st_values (state db))) idx v q"
    using assms(1)
    by (auto simp: verify_query_def materialize_def Let_def split: option.splits if_splits VcBackend.splits)
  then show ?thesis
    using ipa.accepted_value assms(2,3) QIpa by (auto simp: query_unforgeable_def cell_def)
next
  case (QKzg q)
  then show ?thesis using assms(3) by (simp add: query_unforgeable_def)
next
  case (QBinaryMerkle q)
  then have "bm_verify (env_sha256 env) (bm_commit (env_sha256 env) (st_values (state db))) idx v q"
    using assms(1)
    by (auto simp: verify_query_def materialize_def Let_def split: option.splits if_splits VcBackend.splits)
  then show ?thesis
    using bm.accepted_value assms(2,3) QBinaryMerkle by (auto simp: query_unforgeable_def cell_def)
qed

section \<open>Tree heads\<close>

lemma head_extension:
  assumes inv: "db_inv env db" and i: "i < length (entries db)" and bnd: "length (entries db) < 2 ^ 64"
  shows "\<exists>new proof. consistency_from (env_sha256 env) db (tree_size (sth (entries db ! i))) = Some (new, proof) \<and>
    new = sth (last (entries db)) \<and>
    verify_head_extension (env_sha256 env) (sth (entries db ! i)) new proof"
proof -
  let ?H = "env_sha256 env" and ?ls = "ct_leaves db" and ?e = "entries db ! i"
  let ?n = "length (entries db)"
  have len: "length ?ls = ?n" and cur: "current_sth db = Some (sth (last (entries db)))"
    using inv i by (auto simp: db_inv_def)
  have log: "entry_logged env db j" if "j < ?n" for j
    using inv that unfolding db_inv_def by blast
  have ei: "sth ?e = make_sth ?H (take (i + 1) ?ls) (timestamp_unix_secs (sth ?e))"
    using log [OF i] by (simp only: entry_logged_def Let_def)
  have "sth (last (entries db)) = make_sth ?H ?ls (timestamp_unix_secs (sth (last (entries db))))"
  proof -
    have "last (entries db) = entries db ! (?n - 1)" using i by (intro last_conv_nth) auto
    moreover have "take (?n - 1 + 1) ?ls = ?ls" using i len by simp
    ultimately show ?thesis
      using log [of "?n - 1"] i unfolding entry_logged_def Let_def by (metis diff_less gr_implies_not0 not_gr0 zero_less_one)
  qed
  then have newroot: "root_hash (sth (last (entries db))) = merkle_tree_hash ?H ?ls"
    by (metis make_sth_def SignedTreeHead.select_convs(2))
  have oldroot: "root_hash (sth ?e) = merkle_tree_hash ?H (take (i + 1) ?ls)"
    by (subst ei) (simp add: make_sth_def Let_def)
  have "tree_size (sth ?e) = of_nat (i + 1)"
    using i len by (subst ei) (simp add: make_sth_def Let_def)
  then have size: "unat (tree_size (sth ?e)) = i + 1"
    using i bnd by (simp only:) (rule unat_of_nat_64, simp)
  obtain pr where pr: "make_consistency_proof ?H ?ls (i + 1) = Some pr"
    "verify_consistency_proof ?H pr (merkle_tree_hash ?H (take (i + 1) ?ls)) (merkle_tree_hash ?H ?ls)"
    using consistency_proof_complete [of "i + 1" ?ls ?H] i len bnd by auto
  then have "verify_head_extension ?H (sth ?e) (sth (last (entries db))) pr"
    by (simp only: verify_head_extension_def newroot oldroot)
  moreover have "consistency_from ?H db (tree_size (sth ?e)) = Some (sth (last (entries db)), pr)"
    by (simp only: consistency_from_def size cur pr(1) option.case)
  ultimately show ?thesis by blast
qed

section \<open>Typed values\<close>

definition typed_inv :: "NucleusDb \<Rightarrow> bool" where
  "typed_inv db \<longleftrightarrow> keymap_inv (keymap db) \<and> cache_inv (blob_store db) \<and> vi_inv (vector_index db)"

definition blob_room :: "NucleusDb \<Rightarrow> bool" where
  "blob_room db \<longleftrightarrow> length (entries_of (blob_store db)) < max_entries (blob_store db)"

lemma typed_inv_new:
  "with_security env now initial b wcfg ps contracts = Ok db \<Longrightarrow> typed_inv db \<and> blob_room db"
  by (auto simp: with_security_def typed_inv_def blob_room_def keymap_inv_new blob_new_inv vi_new_inv
      split: sum.splits) (simp add: blob_new_def default_ceiling_def)

text \<open>What an accepted put leaves behind.\<close>

lemma put_typed_ok:
  assumes "put_typed H lm tve now key v db = (db', Ok (idx, c))" "typed_inv db" "blob_room db"
  shows "encode H tve v key = (c, snd (encode H tve v key))"
    "keymap_get (keymap db') = (keymap_get (keymap db))(key \<mapsto> idx)"
    "types (type_map db') = bt_insert key (tag_of v) (types (type_map db))"
    "blob_get (blob_store db') = (blob_get (blob_store db))(key := snd (encode H tve v key))"
proof -
  have km: "keymap_inv (keymap db)" and ci: "cache_inv (blob_store db)"
    using assms(2) by (simp_all add: typed_inv_def)
  have bl: "blob_store db' = (case snd (encode H tve v key) of
       Some data \<Rightarrow> blob_put lm now key data (blob_store db)
     | None \<Rightarrow> snd (blob_remove lm key (blob_store db)))"
    and c: "c = fst (encode H tve v key)"
    and kk: "(idx, keymap db') = get_or_create (keymap db) key"
    and ty: "type_map db' = type_map_set (type_map db) key (tag_of v)"
    using assms(1) by (auto simp: put_typed_def Let_def case_prod_beta split: sum.splits)
  show "encode H tve v key = (c, snd (encode H tve v key))" by (simp add: c)
  show "keymap_get (keymap db') = (keymap_get (keymap db))(key \<mapsto> idx)"
    using km.get_create [OF km, of key] kk by (metis fst_conv snd_conv)
  show "types (type_map db') = bt_insert key (tag_of v) (types (type_map db))"
    by (simp add: ty type_map_set_def)
  show "blob_get (blob_store db') = (blob_get (blob_store db))(key := snd (encode H tve v key))"
  proof (cases "snd (encode H tve v key)")
    case None
    then show ?thesis
      using blobs.get_after_drop [where lm = lm and k = key, OF ci] by (simp add: bl blob_get_def fun_eq_iff)
  next
    case (Some data)
    then show ?thesis
      using blobs.get_after_store [where lm = lm and now = now and k = key and v = data, OF ci] assms(3)
      by (simp add: bl blob_get_def fun_eq_iff blob_room_def)
  qed
qed

lemma get_typed_put_cell:
  assumes "put_typed H lm tve now key v db = (db1, Ok (idx, c))" "typed_inv db" "blob_room db"
    "value_ok tve v" "keymap db2 = keymap db1" "type_map db2 = type_map db1"
    "blob_store db2 = blob_store db1" "cell (state db2) idx = c \<or> is_blob (tag_of v)"
  shows "get_typed tve db2 key = Some v"
proof -
  note p = put_typed_ok [OF assms(1-3)]
  have "decode tve (tag_of v) (cell (state db2) idx) (snd (encode H tve v key)) = Ok v"
  proof (cases "cell (state db2) idx = c")
    case True
    then show ?thesis using decode_encode [OF assms(4) p(1)] by simp
  next
    case False
    have "decode tve (tag_of v) x b = decode tve (tag_of v) y b" if "is_blob (tag_of v)" for x y b
      using that by (cases "tag_of v") (simp_all add: decode_def is_blob_def)
    with False assms(8) decode_encode [OF assms(4) p(1)] show ?thesis by metis
  qed
  then show ?thesis
    using p(2-4) assms(5-7) by (simp add: get_typed_def type_map_get_def)
qed

lemma put_commit_get:
  assumes "put_typed (env_sha256 env) lm tve now key v db = (db1, Ok (idx, c))" "typed_inv db" "blob_room db"
    "value_ok tve v" "commit env now' db1 delta views = Some (db2, Ok e)"
    "map_of (rev (writes delta)) idx = Some c"
  shows "get_typed tve db2 key = Some v"
proof (rule get_typed_put_cell [OF assms(1-4)])
  show "cell (state db2) idx = c \<or> is_blob (tag_of v)"
    using assms(6) by (simp add: commit_ok(1) [OF assms(5)] cell_apply_delta_last)
qed (use commit_frame [OF assms(5)] in \<open>simp_all add: same_config_def\<close>)

text \<open>A put does not disturb the other keys.\<close>

lemma put_typed_other:
  assumes "put_typed H lm tve now key v db = (db', Ok (idx, c))" "typed_inv db" "blob_room db" "key' \<noteq> key"
  shows "get_typed tve db' key' = get_typed tve db key'"
  using put_typed_ok [OF assms(1-3)] put_typed_frame(1) [OF assms(1)] assms(4)
  by (cases "keymap_get (keymap db) key'") (simp_all add: get_typed_def type_map_get_def)

text \<open>
  The payload of a blob typed value is replaced by the put itself, not by the commit, and
  reading does not compare it with the committed cell.  So a put of another text under an
  existing key is visible even when the commit that would record it is refused, also in
  append-only mode.
\<close>

lemma refused_put_visible:
  assumes "put_typed (env_sha256 env) lm tve now key v db = (db1, Ok (idx, c))" "typed_inv db" "blob_room db"
    "value_ok tve v" "is_blob (tag_of v)" "commit env now' db1 delta views = Some (db2, Err MonotoneViolation)"
  shows "state db2 = state db \<and> get_typed tve db2 key = Some v"
proof -
  have "db2 = db1"
    using assms(6)
  proof (cases rule: commit_cases)
    case (logged nxt pf prev_root new_root d1 head)
    from logged(5) show ?thesis by (cases rule: commit_finish_cases) simp_all
  qed simp
  then show ?thesis
    using get_typed_put_cell [OF assms(1-4), of db1] assms(5) put_typed_frame(1) [OF assms(1)] by simp
qed

lemma put_typed_inv:
  assumes "typed_inv db" "put_typed H lm tve now key v db = (db', r)"
  shows "typed_inv db'"
proof -
  have inv: "keymap_inv (keymap db)" "cache_inv (blob_store db)" "vi_inv (vector_index db)"
    using assms(1) by (simp_all add: typed_inv_def)
  have km: "keymap_inv (snd (get_or_create (keymap db) key))"
    by (rule km.inv_create [OF inv(1)])
  have bs: "cache_inv (blob_put lm now key d (blob_store db))"
    "cache_inv (snd (blob_remove lm key (blob_store db)))" for d
    using blobs.inv_store [OF inv(2)] blobs.inv_drop [OF inv(2)] by auto
  have vi: "vi_inv (fst (upsert lm now key d (vector_index db)))" "vi_inv (vi_remove lm key (vector_index db))" for d
    using vectors.inv_store [OF inv(3)] vectors.inv_drop [OF inv(3)] by auto
  show ?thesis
    using assms(2) km bs vi inv
    by (cases v) (auto simp: put_typed_def typed_inv_def Let_def case_prod_beta split: sum.splits option.splits)
qed

end
