(* ===== verification/Audit_Replay.thy ===== *)
theory Audit_Replay
  imports Protocol_Reads
begin

text \<open>
  \<^verbatim>\<open>src/audit.rs\<close> and \<^verbatim>\<open>commit_with_evidence\<close> of \<^verbatim>\<open>src/protocol.rs\<close>: the evidence record of a
  commit and the auditor that replays a sequence of them with nothing but the public
  witness configuration.  Reading and writing the evidence file is not modelled.
\<close>

record ConsistencyEvidence =
  ce_old_size :: u64
  ce_new_size :: u64
  ce_old_root :: string
  ce_new_root :: string
  ce_proof :: "string list"

record CommitEvidence =
  ev_height :: u64
  ev_prev_state_root :: string
  ev_state_root :: string
  ev_delta_digest :: u64
  ev_cert_digest :: u64
  ev_sheaf_coherence_digest :: u64
  ev_vc_backend_id :: string
  ev_vc_scheme_id :: string
  ev_vc_domain_separator :: string
  ev_vc_max_degree :: nat
  ev_sth_size :: u64
  ev_sth_root :: string
  ev_sth_timestamp :: u64
  ev_sth_sig :: string
  ev_algorithm :: string
  ev_witness_sigs :: "(string \<times> string) list"
  ev_consistency :: "ConsistencyEvidence option"

datatype ReplayError =
    EmptyEvidence
  | HeightMismatch u64 u64
  | ReplayPrevRootMismatch string string
  | ReplaySthSizeMismatch u64 u64
  | ReplayInvalidSthSignature string string
  | InvalidHashHex u64
  | MissingConsistencyEvidence u64
  | UnexpectedConsistencyEvidenceAtGenesis
  | InvalidConsistencyEvidence u64
  | InvalidWitnessSignatureAlgorithm u64 string
  | InvalidVcBackend u64 string
  | ReplayWitnessQuorumFailed u64

definition msg_for_entry :: "CommitEvidence \<Rightarrow> string" where
  "msg_for_entry e =
     dec (unat (ev_height e)) @ '':'' @ ev_prev_state_root e @ '':'' @ ev_state_root e @ '':'' @
     ev_sth_root e @ '':'' @ dec (unat (ev_sth_timestamp e))"

definition from_entry ::
  "CommitEntry option \<Rightarrow> CommitEntry \<Rightarrow> ConsistencyProof option \<Rightarrow> CommitEvidence" where
  "from_entry prev e cons =
     \<lparr>ev_height = height e, ev_prev_state_root = hex_encode (prev_state_root e),
      ev_state_root = hex_encode (state_root e), ev_delta_digest = delta_digest e,
      ev_cert_digest = cert_digest e, ev_sheaf_coherence_digest = sheaf_coherence_digest e,
      ev_vc_backend_id = vc_backend_id e, ev_vc_scheme_id = vc_scheme_id e,
      ev_vc_domain_separator = vc_domain_separator e, ev_vc_max_degree = vc_max_degree e,
      ev_sth_size = tree_size (sth e), ev_sth_root = hex_encode (root_hash (sth e)),
      ev_sth_timestamp = timestamp_unix_secs (sth e), ev_sth_sig = sth_sig (sth e),
      ev_algorithm = witness_signature_algorithm e, ev_witness_sigs = witness_sigs e,
      ev_consistency =
        (case (prev, cons) of
           (Some pe, Some p) \<Rightarrow>
             Some \<lparr>ce_old_size = cp_old_size p, ce_new_size = cp_new_size p,
                   ce_old_root = hex_encode (root_hash (sth pe)),
                   ce_new_root = hex_encode (root_hash (sth e)),
                   ce_proof = map hex_encode (cp_path p)\<rparr>
         | _ \<Rightarrow> None)\<rparr>"

definition normalize_backend_id :: "CommitEvidence \<Rightarrow> string option" where
  "normalize_backend_id e =
     (if trim (ev_vc_backend_id e) \<noteq> [] then Some (trim (ev_vc_backend_id e))
      else let scheme = trim (ev_vc_scheme_id e)
           in if scheme = ''ipa'' then Some ''ipa''
              else if scheme = ''kzg'' then Some ''kzg''
              else None)"

text \<open>The loop that decodes the nodes of a proof and stops at the first bad one.\<close>

fun decode_nodes :: "string list \<Rightarrow> node_hash list option" where
  "decode_nodes [] = Some []"
| "decode_nodes (h # hs) =
     (case decode_hex_exact 32 h of
        None \<Rightarrow> None
      | Some n \<Rightarrow> (case decode_nodes hs of None \<Rightarrow> None | Some ns \<Rightarrow> Some (n # ns)))"

text \<open>The part of the loop body that looks at one record alone.\<close>

definition check_record ::
  "(bytes \<Rightarrow> node_hash) \<Rightarrow> u64 \<Rightarrow> CommitEvidence \<Rightarrow> ReplayError + WitnessSignatureAlgorithm" where
  "check_record H expected_height e =
     (if ev_height e \<noteq> expected_height then Err (HeightMismatch expected_height (ev_height e))
      else if ev_sth_size e \<noteq> ev_height e then
        Err (ReplaySthSizeMismatch (ev_height e) (ev_sth_size e))
      else case decode_hex_exact 32 (ev_sth_root e) of
             None \<Rightarrow> Err (InvalidHashHex (ev_height e))
           | Some rt \<Rightarrow>
               let expected_sig = sth_signature H (ev_sth_size e) rt (ev_sth_timestamp e) in
               if ev_sth_sig e \<noteq> expected_sig then
                 Err (ReplayInvalidSthSignature expected_sig (ev_sth_sig e))
               else if trim (ev_vc_scheme_id e) = [] \<or> trim (ev_vc_domain_separator e) = [] then
                 Err (InvalidConsistencyEvidence (ev_height e))
               else if ev_vc_max_degree e = 0 then Err (InvalidConsistencyEvidence (ev_height e))
               else case normalize_backend_id e of
                      None \<Rightarrow> Err (InvalidVcBackend (ev_height e) (ev_vc_backend_id e))
                    | Some bid \<Rightarrow>
                        if bid \<noteq> ''ipa'' \<and> bid \<noteq> ''kzg'' \<and> bid \<noteq> ''binary_merkle'' then
                          Err (InvalidVcBackend (ev_height e) bid)
                        else case parse_algorithm_tag (ev_algorithm e) of
                               Inl _ \<Rightarrow>
                                 Err (InvalidWitnessSignatureAlgorithm (ev_height e) (ev_algorithm e))
                             | Inr alg \<Rightarrow> Ok alg)"

text \<open>The part that links a record to its predecessor.\<close>

definition check_link ::
  "(bytes \<Rightarrow> node_hash) \<Rightarrow> CommitEvidence \<Rightarrow> CommitEvidence \<Rightarrow> ReplayError + unit" where
  "check_link H prev e =
     (if ev_prev_state_root e \<noteq> ev_state_root prev then
        Err (ReplayPrevRootMismatch (ev_state_root prev) (ev_prev_state_root e))
      else case ev_consistency e of
             None \<Rightarrow> Err (MissingConsistencyEvidence (ev_height e))
           | Some c \<Rightarrow>
               if ce_old_size c \<noteq> ev_sth_size prev \<or> ce_new_size c \<noteq> ev_sth_size e then
                 Err (InvalidConsistencyEvidence (ev_height e))
               else if ce_old_root c \<noteq> ev_sth_root prev \<or> ce_new_root c \<noteq> ev_sth_root e then
                 Err (InvalidConsistencyEvidence (ev_height e))
               else case (decode_hex_exact 32 (ce_old_root c), decode_hex_exact 32 (ce_new_root c),
                          decode_nodes (ce_proof c)) of
                      (Some old_root, Some new_root, Some path) \<Rightarrow>
                        if \<not> verify_consistency_proof H
                             \<lparr>cp_old_size = ce_old_size c, cp_new_size = ce_new_size c, cp_path = path\<rparr>
                             old_root new_root
                        then Err (InvalidConsistencyEvidence (ev_height e))
                        else Ok ()
                    | _ \<Rightarrow> Err (InvalidHashHex (ev_height e)))"

text \<open>One pass of the loop; at the first record there is no predecessor.\<close>

definition replay_step ::
  "sig_env \<Rightarrow> (bytes \<Rightarrow> node_hash) \<Rightarrow> WitnessConfig \<Rightarrow> nat \<Rightarrow> CommitEvidence option \<Rightarrow> CommitEvidence \<Rightarrow>
    ReplayError + unit" where
  "replay_step senv H cfg i prev e =
     (case check_record H (of_nat i + 1) e of
        Inl err \<Rightarrow> Err err
      | Inr alg \<Rightarrow>
          (case (case prev of
                   None \<Rightarrow> if ev_consistency e \<noteq> None then Err UnexpectedConsistencyEvidenceAtGenesis
                           else Ok ()
                 | Some p \<Rightarrow> check_link H p e) of
             Inl err \<Rightarrow> Err err
           | Inr _ \<Rightarrow>
               if \<not> verify_quorum_for_algorithm senv cfg alg (msg_for_entry e) (ev_witness_sigs e) then
                 Err (ReplayWitnessQuorumFailed (ev_height e))
               else Ok ()))"

fun replay_loop ::
  "sig_env \<Rightarrow> (bytes \<Rightarrow> node_hash) \<Rightarrow> WitnessConfig \<Rightarrow> nat \<Rightarrow> CommitEvidence option \<Rightarrow>
    CommitEvidence list \<Rightarrow> ReplayError + unit" where
  "replay_loop senv H cfg i prev [] = Ok ()"
| "replay_loop senv H cfg i prev (e # es) =
     (case replay_step senv H cfg i prev e of
        Inl err \<Rightarrow> Err err
      | Inr _ \<Rightarrow> replay_loop senv H cfg (i + 1) (Some e) es)"

definition replay_verify_evidence ::
  "sig_env \<Rightarrow> (bytes \<Rightarrow> node_hash) \<Rightarrow> CommitEvidence list \<Rightarrow> WitnessConfig \<Rightarrow> ReplayError + unit" where
  "replay_verify_evidence senv H evidence cfg =
     (if evidence = [] then Err EmptyEvidence else replay_loop senv H cfg 0 None evidence)"

definition commit_with_evidence ::
  "('f::field, 'poly, 'srs, 'g, 'p) db_env \<Rightarrow> u64 \<Rightarrow> NucleusDb \<Rightarrow> Delta \<Rightarrow> LocalSection list \<Rightarrow>
    (NucleusDb \<times> (CommitError + CommitEntry \<times> CommitEvidence)) option" where
  "commit_with_evidence env now db delta views =
     (case commit env now db delta views of
        None \<Rightarrow> None
      | Some (db', Inl err) \<Rightarrow> Some (db', Err err)
      | Some (db', Inr e) \<Rightarrow>
          let n = length (entries db');
              prev = (if 2 \<le> n then Some (entries db' ! (n - 2)) else None);
              cons = (case prev of
                        None \<Rightarrow> None
                      | Some p \<Rightarrow> map_option snd (consistency_from (env_sha256 env) db' (tree_size (sth p))))
          in Some (db', Ok (e, from_entry prev e cons)))"

definition bundle_signing_message :: "string \<Rightarrow> string" where
  "bundle_signing_message payload_sha512 = ''nucleusdb:evidence-bundle:sha512:'' @ payload_sha512"

section \<open>What a replay establishes\<close>

lemma replay_loop_iff:
  "replay_loop senv H cfg i prev es = Ok () \<longleftrightarrow>
    (\<forall>j < length es. replay_step senv H cfg (i + j)
       (if j = 0 then prev else Some (es ! (j - 1))) (es ! j) = Ok ())"
proof (induction es arbitrary: i prev)
  case (Cons e es)
  have "replay_loop senv H cfg i prev (e # es) = Ok () \<longleftrightarrow>
      replay_step senv H cfg i prev e = Ok () \<and> replay_loop senv H cfg (Suc i) (Some e) es = Ok ()"
    by (simp split: sum.splits)
  also have "\<dots> \<longleftrightarrow> (\<forall>j < length (e # es). replay_step senv H cfg (i + j)
       (if j = 0 then prev else Some ((e # es) ! (j - 1))) ((e # es) ! j) = Ok ())"
    unfolding Cons.IH by (simp add: All_less_Suc2 nth_Cons' [of e es])
  finally show ?case .
qed simp

lemma replay_step_okD:
  assumes "replay_step senv H cfg i prev e = Ok ()"
  shows "ev_height e = of_nat i + 1 \<and>
    (\<exists>alg. parse_algorithm_tag (ev_algorithm e) = Ok alg \<and> alg \<in> set (allowed_algorithms cfg) \<and>
       threshold cfg \<le> card (valid_signers senv cfg alg (msg_for_entry e) (ev_witness_sigs e))) \<and>
    (\<forall>p. prev = Some p \<longrightarrow> ev_prev_state_root e = ev_state_root p \<and>
       (\<exists>c path old_root new_root. ev_consistency e = Some c \<and>
          decode_hex_exact 32 (ev_sth_root p) = Some old_root \<and>
          decode_hex_exact 32 (ev_sth_root e) = Some new_root \<and>
          verify_consistency_proof H \<lparr>cp_old_size = ev_sth_size p, cp_new_size = ev_sth_size e, cp_path = path\<rparr>
            old_root new_root))"
proof -
  obtain alg where r: "check_record H (of_nat i + 1) e = Ok alg"
    and l: "(case prev of None \<Rightarrow> if ev_consistency e \<noteq> None then Err UnexpectedConsistencyEvidenceAtGenesis
        else Ok () | Some p \<Rightarrow> check_link H p e) = Ok ()"
    and q: "verify_quorum_for_algorithm senv cfg alg (msg_for_entry e) (ev_witness_sigs e)"
    using assms by (auto simp: replay_step_def split: sum.splits if_splits)
  have "ev_height e = of_nat i + 1 \<and> parse_algorithm_tag (ev_algorithm e) = Ok alg"
    using r by (auto simp: check_record_def Let_def split: if_splits option.splits sum.splits)
  moreover have "ev_prev_state_root e = ev_state_root p \<and>
       (\<exists>c path old_root new_root. ev_consistency e = Some c \<and>
          decode_hex_exact 32 (ev_sth_root p) = Some old_root \<and>
          decode_hex_exact 32 (ev_sth_root e) = Some new_root \<and>
          verify_consistency_proof H \<lparr>cp_old_size = ev_sth_size p, cp_new_size = ev_sth_size e, cp_path = path\<rparr>
            old_root new_root)" if "prev = Some p" for p
    using l that by (auto simp: check_link_def split: if_splits option.splits prod.splits)
  ultimately show ?thesis using q by (auto simp: quorum_iff)
qed

section \<open>The evidence of honest commits replays\<close>

lemma length_merkle_tree:
  "digest32 H \<Longrightarrow> all32 leaves \<Longrightarrow> length (merkle_tree (node_hash H) (empty_hash H) leaves) = 32"
  using length_merkle_tree_hash [of H leaves]
  by (cases "leaves = []") (simp_all add: merkle_tree_hash_def merkle_tree.simps empty_hash_def digest32_def)

lemma all32_take_drop: "all32 ls \<Longrightarrow> all32 (take k ls) \<and> all32 (drop k ls)"
  by (auto simp: all32_def list_all_iff dest: in_set_takeD in_set_dropD)

lemma subproof_all32:
  "digest32 H \<Longrightarrow> all32 leaves \<Longrightarrow> all32 (subproof (node_hash H) (empty_hash H) leaves m b)"
proof (induction "node_hash H" "empty_hash H" leaves m b rule: subproof.induct)
  case (1 leaves m b)
  have a: "all32 (xs @ [x]) \<longleftrightarrow> all32 xs \<and> length x = 32" "all32 [x] \<longleftrightarrow> length x = 32" "all32 []" for xs x
    by (auto simp: all32_def)
  show ?case
    using 1 all32_take_drop length_merkle_tree
    by (subst subproof.simps) (simp add: Let_def a)
qed

lemma consistency_path_all32:
  assumes "digest32 H" "all32 leaves" "make_consistency_proof H leaves m = Some p"
  shows "all32 (cp_path p)"
  using assms subproof_all32 [OF assms(1,2), of m True]
  by (auto simp: make_consistency_proof_def consistency_path_def Let_def all32_def
      split: if_splits option.splits)

lemma decode_nodes_encode: "all32 ns \<Longrightarrow> decode_nodes (map hex_encode ns) = Some ns"
  by (induction ns) (simp_all add: all32_def bytes_simps)

definition entry_evidence :: "(bytes \<Rightarrow> node_hash) \<Rightarrow> NucleusDb \<Rightarrow> nat \<Rightarrow> CommitEvidence" where
  "entry_evidence H db i =
     from_entry (if i = 0 then None else Some (entries db ! (i - 1))) (entries db ! i)
       (if i = 0 then None else make_consistency_proof H (take (i + 1) (ct_leaves db)) i)"

lemma db_inv_entry:
  assumes "db_inv env db" "i < length (entries db)" "length (entries db) < 2 ^ 64"
  shows "unat (tree_size (sth (entries db ! i))) = i + 1"
    "tree_size (sth (entries db ! i)) = of_nat (i + 1)"
    "root_hash (sth (entries db ! i)) = merkle_tree_hash (env_sha256 env) (take (i + 1) (ct_leaves db))"
    "sth_sig (sth (entries db ! i)) = sth_signature (env_sha256 env) (tree_size (sth (entries db ! i)))
       (root_hash (sth (entries db ! i))) (timestamp_unix_secs (sth (entries db ! i)))"
    "height (entries db ! i) = of_nat (i + 1)" "length (ct_leaves db) = length (entries db)"
    "policy_recorded (entries db ! i)" "vc_backend_id (entries db ! i) = backend_id (backend db)"
    "witness_signature_algorithm (entries db ! i) = as_tag (signing_algorithm (witness_cfg db))"
    "verify_quorum_for_algorithm (env_sig env) (witness_cfg db) (signing_algorithm (witness_cfg db))
       (entry_message (entries db ! i)) (witness_sigs (entries db ! i))"
    "0 < i \<Longrightarrow> prev_state_root (entries db ! i) = state_root (entries db ! (i - 1))"
    "ct_leaves db ! i = leaf_hash (env_sha256 env) (entry_payload (entries db ! i))"
proof -
  let ?e = "entries db ! i"
  have len: "length (ct_leaves db) = length (entries db)" using assms(1) by (simp add: db_inv_def)
  have "entry_logged env db i" using assms(1,2) unfolding db_inv_def by blast
  note log = this [unfolded entry_logged_def Let_def]
  have st: "sth ?e = make_sth (env_sha256 env) (take (i + 1) (ct_leaves db)) (timestamp_unix_secs (sth ?e))"
    using log by blast
  show ts: "tree_size (sth ?e) = of_nat (i + 1)"
    using assms(2) len by (subst st) (simp add: make_sth_def Let_def)
  show "unat (tree_size (sth ?e)) = i + 1"
    unfolding ts using assms(2,3) by (intro unat_of_nat_64) simp
  show "root_hash (sth ?e) = merkle_tree_hash (env_sha256 env) (take (i + 1) (ct_leaves db))"
    by (subst st) (simp add: make_sth_def Let_def)
  have "sth_sig (make_sth H ls t) = sth_signature H (tree_size (make_sth H ls t)) (root_hash (make_sth H ls t)) t"
    for H ls t by (simp add: make_sth_def Let_def)
  then show "sth_sig (sth ?e) = sth_signature (env_sha256 env) (tree_size (sth ?e)) (root_hash (sth ?e))
      (timestamp_unix_secs (sth ?e))" by (metis st)
  show "length (ct_leaves db) = length (entries db)" by (rule len)
  show "height ?e = of_nat (i + 1)" "policy_recorded ?e" "vc_backend_id ?e = backend_id (backend db)"
    "witness_signature_algorithm ?e = as_tag (signing_algorithm (witness_cfg db))"
    "verify_quorum_for_algorithm (env_sig env) (witness_cfg db) (signing_algorithm (witness_cfg db))
       (entry_message ?e) (witness_sigs ?e)"
    "0 < i \<Longrightarrow> prev_state_root ?e = state_root (entries db ! (i - 1))"
    "ct_leaves db ! i = leaf_hash (env_sha256 env) (entry_payload ?e)"
    using log by blast+
qed

lemma db_inv_leaves32:
  assumes "db_inv env db" "digest32 (env_sha256 env)" "length (entries db) < 2 ^ 64"
  shows "all32 (ct_leaves db)"
  using db_inv_entry(6,12) [OF assms(1) _ assms(3)] assms(1,2)
  by (simp add: all32_def list_all_length db_inv_def leaf_hash_def digest32_def)

lemma backend_id_normal: "trim (backend_id b) = backend_id b" "backend_id b \<noteq> []"
  by (cases b; auto simp: trim_visible)+

lemma evidence_record_ok:
  assumes inv: "db_inv env db" "digest32 (env_sha256 env)" and i: "i < length (entries db)"
    and bnd: "length (entries db) < 2 ^ 64"
  shows "check_record (env_sha256 env) (of_nat i + 1) (entry_evidence (env_sha256 env) db i) =
    Ok (signing_algorithm (witness_cfg db))"
proof -
  note e = db_inv_entry [OF inv(1) i bnd]
  have "all32 (take (i + 1) (ct_leaves db))" "take (i + 1) (ct_leaves db) \<noteq> []"
    using db_inv_leaves32 [OF inv bnd] all32_take_drop e(6) i by auto
  then have "length (root_hash (sth (entries db ! i))) = 32"
    using e(3) inv(2) length_merkle_tree_hash by metis
  then show ?thesis
    using e(2,4,5,7-9) backend_id_normal [of "backend db"]
    by (cases "backend db")
       (simp_all add: check_record_def entry_evidence_def from_entry_def Let_def bytes_simps add.commute
         policy_recorded_def normalize_backend_id_def parse_algorithm_tag_def as_tag_roundtrip)
qed

lemma evidence_link_ok:
  assumes inv: "db_inv env db" "digest32 (env_sha256 env)" and i: "i < length (entries db)" "0 < i"
    and bnd: "length (entries db) < 2 ^ 64"
  shows "check_link (env_sha256 env) (entry_evidence (env_sha256 env) db (i - 1))
    (entry_evidence (env_sha256 env) db i) = Ok ()"
proof -
  let ?H = "env_sha256 env" and ?ls = "take (i + 1) (ct_leaves db)"
  have j: "i - 1 < length (entries db)" using i by simp
  note e = db_inv_entry [OF inv(1) i(1) bnd] and p = db_inv_entry [OF inv(1) j bnd]
  have l32: "all32 ?ls" "all32 (take i (ct_leaves db))"
    using db_inv_leaves32 [OF inv bnd] all32_take_drop by auto
  have len: "length ?ls = i + 1" using e(6) i by simp
  obtain pr where pr: "make_consistency_proof ?H ?ls i = Some pr"
    "verify_consistency_proof ?H pr (merkle_tree_hash ?H (take i ?ls)) (merkle_tree_hash ?H ?ls)"
    using consistency_proof_complete [of i ?ls ?H] i bnd len e(6) by auto
  have cp: "cp_old_size pr = of_nat i" "cp_new_size pr = of_nat (i + 1)"
    using pr(1) len by (auto simp: make_consistency_proof_def split: option.splits)
  have path: "decode_nodes (map hex_encode (cp_path pr)) = Some (cp_path pr)"
    by (rule decode_nodes_encode [OF consistency_path_all32 [OF inv(2) l32(1) pr(1)]])
  have ne: "?ls \<noteq> []" "take i (ct_leaves db) \<noteq> []" using e(6) i by auto
  have roots: "length (root_hash (sth (entries db ! i))) = 32" "length (root_hash (sth (entries db ! (i - 1)))) = 32"
    using length_merkle_tree_hash [OF inv(2) l32(1) ne(1)] length_merkle_tree_hash [OF inv(2) l32(2) ne(2)]
      e(3) p(3) i by simp_all
  have "\<lparr>cp_old_size = of_nat i, cp_new_size = of_nat (i + 1), cp_path = cp_path pr\<rparr> = pr"
    using cp by simp
  moreover have "take i ?ls = take (i - 1 + 1) (ct_leaves db)" using i by (simp add: min_def)
  ultimately have "verify_consistency_proof ?H
      \<lparr>cp_old_size = of_nat i, cp_new_size = of_nat (i + 1), cp_path = cp_path pr\<rparr>
      (root_hash (sth (entries db ! (i - 1)))) (root_hash (sth (entries db ! i)))"
    using pr(2) e(3) p(3) by simp
  then show ?thesis
    using e(2,11) p(2) i cp path roots pr(1)
    by (simp add: check_link_def entry_evidence_def from_entry_def bytes_simps)
qed

lemma evidence_step_ok:
  assumes "db_inv env db" "digest32 (env_sha256 env)" "i < length (entries db)" "length (entries db) < 2 ^ 64"
  shows "replay_step (env_sig env) (env_sha256 env) (witness_cfg db) i
    (if i = 0 then None else Some (entry_evidence (env_sha256 env) db (i - 1)))
    (entry_evidence (env_sha256 env) db i) = Ok ()"
proof -
  have m: "msg_for_entry (entry_evidence (env_sha256 env) db i) = entry_message (entries db ! i)"
    "ev_witness_sigs (entry_evidence (env_sha256 env) db i) = witness_sigs (entries db ! i)"
    "i = 0 \<Longrightarrow> ev_consistency (entry_evidence (env_sha256 env) db i) = None"
    by (simp_all add: msg_for_entry_def entry_evidence_def from_entry_def entry_message_def commit_message_def)
  show ?thesis
    using evidence_record_ok [OF assms] evidence_link_ok [OF assms(1-3) _ assms(4)]
      db_inv_entry(10) [OF assms(1,3,4)] m
    by (cases "i = 0") (simp_all add: replay_step_def)
qed

text \<open>A run of the database that keeps the evidence of every commit.\<close>

inductive evidence_run ::
  "('f::field, 'poly, 'srs, 'g, 'p) db_env \<Rightarrow> NucleusDb \<Rightarrow> CommitEvidence list \<Rightarrow> bool"
  for env :: "('f, 'poly, 'srs, 'g, 'p) db_env" where
  evidence_start: "with_security env now initial b wcfg ps contracts = Ok db \<Longrightarrow> evidence_run env db []"
| evidence_commit: "evidence_run env db evs \<Longrightarrow>
    commit_with_evidence env now db delta views = Some (db', Ok (e, ev)) \<Longrightarrow>
    evidence_run env db' (evs @ [ev])"

lemma entry_evidence_commit:
  assumes "db_inv env db" "commit env now db delta views = Some (db', Ok e)" "i < length (entries db)"
  shows "entry_evidence (env_sha256 env) db' i = entry_evidence (env_sha256 env) db i"
proof -
  note c = commit_ok [OF assms(2)]
  have "length (ct_leaves db) = length (entries db)" using assms(1) by (simp add: db_inv_def)
  then have "take (i + 1) (ct_leaves db') = take (i + 1) (ct_leaves db)"
    "entries db' ! i = entries db ! i" "entries db' ! (i - 1) = entries db ! (i - 1)"
    using assms(3) by (auto simp: c(2,3) nth_append)
  then show ?thesis by (simp only: entry_evidence_def)
qed

lemma commit_with_evidence_new:
  assumes inv: "db_inv env db" and c: "commit_with_evidence env now db delta views = Some (db', Ok (e, ev))"
    and bnd: "length (entries db') < 2 ^ 64"
  shows "commit env now db delta views = Some (db', Ok e) \<and>
    ev = entry_evidence (env_sha256 env) db' (length (entries db))"
proof -
  let ?n = "length (entries db')"
  from c have com: "commit env now db delta views = Some (db', Ok e)"
    and ev: "ev = from_entry (if 2 \<le> ?n then Some (entries db' ! (?n - 2)) else None) e
      (case (if 2 \<le> ?n then Some (entries db' ! (?n - 2)) else None) of
         None \<Rightarrow> None
       | Some p \<Rightarrow> map_option snd (consistency_from (env_sha256 env) db' (tree_size (sth p))))"
    by (auto simp: commit_with_evidence_def Let_def split: option.splits sum.splits)
  note k = commit_ok [OF com] and inv' = commit_preserves_inv [OF inv com]
  have n: "?n = Suc (length (entries db))" by (simp add: k(2))
  have e: "e = entries db' ! length (entries db)" by (simp add: k(2))
  show ?thesis
  proof (cases "length (entries db)")
    case 0
    then show ?thesis using com ev e n by (simp add: entry_evidence_def)
  next
    case (Suc m)
    have m: "m < length (entries db')" using Suc n by simp
    note p = db_inv_entry [OF inv' m bnd]
    have "take (Suc m + 1) (ct_leaves db') = ct_leaves db'" using p(6) n Suc by simp
    moreover have "current_sth db' = Some (sth e)" using k(7) .
    ultimately have "map_option snd (consistency_from (env_sha256 env) db' (tree_size (sth (entries db' ! m)))) =
        make_consistency_proof (env_sha256 env) (take (Suc m + 1) (ct_leaves db')) (Suc m)"
      using p(1) by (simp add: consistency_from_def split: option.splits)
    then show ?thesis using com ev e n Suc by (simp add: entry_evidence_def)
  qed
qed

lemma evidence_run_inv:
  assumes "evidence_run env db evs" "length (entries db) < 2 ^ 64"
  shows "db_inv env db \<and> evs = map (entry_evidence (env_sha256 env) db) [0..<length (entries db)]"
  using assms
proof (induction rule: evidence_run.induct)
  case (evidence_start now initial b wcfg ps contracts db)
  have "entries db = []"
    using evidence_start(1) by (auto simp: with_security_def split: sum.splits)
  with db_inv_new [OF evidence_start(1)] show ?case by simp
next
  case (evidence_commit db evs now delta views db' e ev)
  have "commit env now db delta views = Some (db', Ok e)"
    using evidence_commit(2) by (auto simp: commit_with_evidence_def Let_def split: option.splits sum.splits)
  then have n: "entries db' = entries db @ [e]" by (rule commit_ok)
  then have IH: "db_inv env db" "evs = map (entry_evidence (env_sha256 env) db) [0..<length (entries db)]"
    using evidence_commit.IH evidence_commit.prems by auto
  note new = commit_with_evidence_new [OF IH(1) evidence_commit(2) evidence_commit.prems]
  then have "map (entry_evidence (env_sha256 env) db') [0..<length (entries db)] = evs"
    using entry_evidence_commit [OF IH(1)] IH(2) by auto
  then show ?case
    using new commit_preserves_inv [OF IH(1)] n by auto
qed

lemma honest_evidence_replays:
  assumes "evidence_run env db evs" "evs \<noteq> []" "length evs < 2 ^ 64" "digest32 (env_sha256 env)"
    "length (entries db) < 2 ^ 64"
  shows "replay_verify_evidence (env_sig env) (env_sha256 env) evs (witness_cfg db) = Ok ()"
proof -
  note inv = evidence_run_inv [OF assms(1,5)]
  have "replay_step (env_sig env) (env_sha256 env) (witness_cfg db) (0 + j)
      (if j = 0 then None else Some (evs ! (j - 1))) (evs ! j) = Ok ()" if "j < length evs" for j
    using evidence_step_ok [of env db j] inv assms(4,5) that by (auto split: if_splits)
  then show ?thesis
    using assms(2) by (simp add: replay_verify_evidence_def replay_loop_iff)
qed

end
