(* ===== verification/Example_Env.thy ===== *)
theory Example_Env
  imports Audit_Replay "HOL-Library.Countable"
begin

text \<open>
  One concrete environment and one concrete database, on which the hypotheses of the
  properties are discharged.  The hash keeps the length and the first byte of its input, the signature of
  a message is its beginning under the key, and the polynomial commitment is the real
  pairing equation over the rationals with a known evaluation point.
\<close>

section \<open>Hash and signatures\<close>

definition demo_hash :: "bytes \<Rightarrow> node_hash" where
  "demo_hash x = char_of (length x) # replicate 31 (case x of [] \<Rightarrow> CHR 0x00 | c # _ \<Rightarrow> c)"

definition demo_sign :: "bytes \<Rightarrow> bytes \<Rightarrow> bytes" where
  "demo_sign sk m = take 64 (sk @ m @ replicate 64 CHR 0x00)"

definition demo_sig :: sig_env where
  "demo_sig =
     \<lparr>sig_sha512 = (\<lambda>x. demo_hash x @ demo_hash x), ed_verifying_key = (\<lambda>sk. sk), ed_sign = demo_sign,
      ed_verify = (\<lambda>vk m s. s = demo_sign vk m), ml_signing_key = (\<lambda>seed. seed),
      ml_verifying_key = (\<lambda>seed. seed), ml_sign = (\<lambda>sk m. Some (demo_sign sk m)),
      ml_decode = Some, ml_verify = (\<lambda>vk m s. s = demo_sign vk m)\<rparr>"

lemma demo_hash_digest32 [simp]: "digest32 demo_hash"
  by (simp add: digest32_def demo_hash_def)

lemma demo_sig_laws [simp]: "sig_laws demo_sig"
  by (auto simp: sig_laws_def demo_sig_def demo_sign_def min_def)

section \<open>Polynomials over the rationals\<close>

primrec pscale :: "rat list \<Rightarrow> rat \<Rightarrow> rat list" where
  "pscale [] c = []"
| "pscale (a # p) c = a * c # pscale p c"

fun padd :: "rat list \<Rightarrow> rat list \<Rightarrow> rat list" where
  "padd [] q = q"
| "padd p [] = p"
| "padd (a # p) (b # q) = (a + b) # padd p q"

primrec pmul :: "rat list \<Rightarrow> rat list \<Rightarrow> rat list" where
  "pmul [] q = []"
| "pmul (a # p) q = padd (pscale q a) (0 # pmul p q)"

primrec peval :: "rat list \<Rightarrow> rat \<Rightarrow> rat" where
  "peval [] x = 0"
| "peval (a # p) x = a + x * peval p x"

lemma peval_scale [simp]: "peval (pscale p c) x = peval p x * c"
  by (induction p) (simp_all add: algebra_simps)

lemma peval_add [simp]: "peval (padd p q) x = peval p x + peval q x"
  by (induction p q rule: padd.induct) (simp_all add: algebra_simps)

lemma peval_mul [simp]: "peval (pmul p q) x = peval p x * peval q x"
  by (induction p) (simp_all add: algebra_simps)

definition demo_kzg :: "(rat, rat list, rat, rat) kzg_env" where
  "demo_kzg =
     \<lparr>kzg_sha512 = (\<lambda>x. demo_hash x @ demo_hash x), fr_from = (\<lambda>w. of_nat (unat w)), poly_zero = [],
      poly_new = (\<lambda>cs. cs), poly_mul = pmul, poly_add = padd, poly_scale = pscale,
      poly_coeffs = (\<lambda>p. p), poly_eval = peval, kzg_setup = (\<lambda>d tau. tau),
      srs_commit = (\<lambda>tau p. peval p tau),
      srs_open = (\<lambda>tau p x. \<lparr>mk_point = x, mk_value = peval p x,
        mk_proof = (peval p tau - peval p x) / (tau - x)\<rparr>),
      srs_verify = (\<lambda>tau c pf. c - mk_value pf = mk_proof pf * (tau - mk_point pf)),
      g1_serialize = (\<lambda>g. dec (to_nat g)), g1_deserialize = (\<lambda>s. Some (from_nat (undec s)))\<rparr>"

lemma demo_opening: "peval p t - peval p x = (peval p t - peval p x) / (t - x) * (t - x)"
  by (cases "t = x") simp_all

lemma inj_fr: "inj (\<lambda>w :: u64. of_nat (unat w) :: rat)"
  by (rule injI) (metis of_nat_eq_iff unat_eq_64)

lemma demo_kzg_laws [simp]: "kzg_laws demo_kzg"
  unfolding kzg_laws_def demo_kzg_def kzg_env.simps MiniKzgProof.simps
  by (intro conjI allI impI inj_fr demo_opening) (simp_all add: undec_dec)

definition demo_ipa :: "int ipa_env" where
  "demo_ipa =
     \<lparr>ipa_sha512 = (\<lambda>x. demo_hash x @ demo_hash x), ipa_from_hash = (\<lambda>h. 1), ipa_identity = 0,
      ipa_add = (+), ipa_smul = (\<lambda>g w. g * uint w), ipa_compress = (\<lambda>g. dec (nat g))\<rparr>"

section \<open>The database\<close>

definition demo_libm :: libm where
  "demo_libm = \<lparr>m_sqrt = (\<lambda>x. x), m_powf = (\<lambda>x y. x)\<rparr>"

definition demo_env :: "(rat, rat list, rat, rat, int) db_env" where
  "demo_env =
     \<lparr>env_sha256 = demo_hash, env_ipa = demo_ipa, env_kzg = demo_kzg, env_sig = demo_sig,
      env_libm = demo_libm, env_load = (\<lambda>path. Err (Io path))\<rparr>"

definition demo_tv :: "string tv_env" where
  "demo_tv = \<lparr>json_to_vec = (\<lambda>j. j), json_from_slice = Ok, json_to_string = (\<lambda>j. j),
     f64_to_string = (\<lambda>w. dec (unat w)), f64_parse = (\<lambda>s. None)\<rparr>"

definition demo_cfg :: WitnessConfig where
  "demo_cfg = with_seed_and_algorithm demo_sig None 1 [''w1'', ''w2''] ''seed'' Ed25519"

definition demo_db :: NucleusDb where
  "demo_db = projr (with_security demo_env 0 \<lparr>st_values = [7]\<rparr> BinaryMerkle demo_cfg
     (new_parameters PBinaryMerkle) (default_reduction_contracts PBinaryMerkle))"

definition demo_delta :: Delta where
  "demo_delta = \<lparr>writes = [(1, 5)]\<rparr>"

lemma demo_env_simps [simp]:
  "env_sha256 demo_env = demo_hash" "env_ipa demo_env = demo_ipa" "env_kzg demo_env = demo_kzg"
  "env_sig demo_env = demo_sig" "env_libm demo_env = demo_libm"
  by (simp_all add: demo_env_def)

lemma demo_cfg_simps [simp]:
  "threshold demo_cfg = 1" "witnesses demo_cfg = [''w1'', ''w2'']" "signing_algorithm demo_cfg = Ed25519"
  "Ed25519 \<in> set (allowed_algorithms demo_cfg)"
  by (simp_all add: demo_cfg_def with_seed_and_algorithm_def with_seed_algorithm_source_def Let_def
      parse_allowed_def)

lemma demo_keys [simp]: "keys_match demo_sig demo_cfg"
  by (simp add: demo_cfg_def with_seed_and_algorithm_def keys_match_seeded)

lemma demo_signs:
  "w \<in> {''w1'', ''w2''} \<Longrightarrow> \<exists>sig. sign_message demo_sig demo_cfg w msg = Ok sig"
  by (simp add: sign_message_def sign_message_with_algorithm_def bt_get_key_table
      demo_cfg_def with_seed_and_algorithm_def with_seed_algorithm_source_def Let_def)

text \<open>A database with this configuration, whatever it has stored so far.\<close>

definition demo_like :: "NucleusDb \<Rightarrow> bool" where
  "demo_like db \<longleftrightarrow>
     backend db = BinaryMerkle \<and> witness_cfg db = demo_cfg \<and>
     security_params db = new_parameters PBinaryMerkle \<and>
     reduction_contracts db = default_reduction_contracts PBinaryMerkle"

lemma demo_parameters [simp]: "validate_parameters (new_parameters PBinaryMerkle) PBinaryMerkle demo_cfg = Ok ()"
  by (rule new_parameters_valid) simp_all

lemma demo_db_ok:
  "with_security demo_env 0 \<lparr>st_values = [7]\<rparr> BinaryMerkle demo_cfg
     (new_parameters PBinaryMerkle) (default_reduction_contracts PBinaryMerkle) = Ok demo_db"
  by (simp add: demo_db_def with_security_def default_contracts_valid load_kzg_setup_if_required_def)

lemma demo_db_simps [simp]:
  "entries demo_db = []" "ct_leaves demo_db = []" "st_values (state demo_db) = [7]"
  "state demo_db = \<lparr>st_values = [7]\<rparr>"
  "write_mode demo_db = Normal" "monotone_seals demo_db = []" "keymap demo_db = keymap_new"
  "backend demo_db = BinaryMerkle" "witness_cfg demo_db = demo_cfg" "demo_like demo_db"
  by (simp_all add: demo_like_def demo_db_def with_security_def default_contracts_valid
      load_kzg_setup_if_required_def)

lemma demo_db_inv [simp]: "db_inv demo_env demo_db" "typed_inv demo_db" "blob_room demo_db"
  using db_inv_new [OF demo_db_ok] typed_inv_new [OF demo_db_ok] by auto

lemma demo_commit:
  assumes "demo_like db" "length (ct_leaves db) = length (entries db)"
    "length (writes delta) \<le> 65536" "length (st_values (apply_delta (state db) delta)) \<le> 1048576"
    "write_mode db = AppendOnly \<Longrightarrow> verify_monotone_extension (state db) (keymap db) (apply_delta (state db) delta) (keymap db)"
  obtains db' e where "commit demo_env now db delta [] = Some (db', Ok e)"
proof -
  have ready: "witnesses_ready demo_env db"
    using assms(1) demo_signs by (simp add: witnesses_ready_def demo_like_def Let_def)
  have shape: "validate_commit_shape (security_params db) (length (writes delta))
      (length (st_values (apply_delta (state db) delta))) = Ok ()"
    using assms(1,3,4) by (simp add: validate_shape_iff demo_like_def new_parameters_def default_parameter_set_def)
  have "commit_checks db delta [] = Ok (apply_delta (state db) delta, build_sheaf_coherence [])"
    using assms(1,5) shape
    by (simp add: commit_checks_def demo_like_def default_contracts_valid verify_build_iff sheaf_scan_def Let_def)
  moreover have "state_root_for demo_env db v \<noteq> None" for v
    using assms(1) by (simp add: state_root_for_def demo_like_def)
  then obtain r1 r2 where "state_root_for demo_env db (materialize (apply_delta (state db) delta)) = Some r1"
    "prev_root_of demo_env db = Some r2"
    by (metis not_None_eq prev_root_of_def)
  ultimately show ?thesis
    using commit_succeeds [OF assms(2) ready] that by blast
qed

text \<open>The first commit of this database, and of its append-only variant.\<close>

lemma demo_first_commit:
  obtains db' e where "commit demo_env 1 demo_db demo_delta [] = Some (db', Ok e)"
  by (rule demo_commit [of demo_db demo_delta])
     (auto simp: demo_delta_def apply_delta_def apply_write_def)

lemma demo_locked [simp]:
  "demo_like (set_append_only demo_db)" "typed_inv (set_append_only demo_db)"
  "blob_room (set_append_only demo_db)"
  using demo_db_simps(10) demo_db_inv(2,3)
  by (simp_all add: set_append_only_def demo_like_def typed_inv_def blob_room_def)

lemma demo_locked_commit:
  obtains db' e where "commit demo_env 1 (set_append_only demo_db) demo_delta [] = Some (db', Ok e)"
proof (rule demo_commit [of "set_append_only demo_db" demo_delta])
  have "verify_raw_monotone_extension \<lparr>st_values = [7]\<rparr> (apply_delta \<lparr>st_values = [7]\<rparr> demo_delta)"
    by (simp add: verify_raw_monotone_extension_def demo_delta_def apply_delta_def apply_write_def cell_def)
  then show "verify_monotone_extension (state (set_append_only demo_db)) (keymap (set_append_only demo_db))
      (apply_delta (state (set_append_only demo_db)) demo_delta) (keymap (set_append_only demo_db))"
    by (simp add: monotone_extension_same_keymap set_append_only_def keymap_new_def)
  show "demo_like (set_append_only demo_db)" by (rule demo_locked)
qed (auto simp: demo_delta_def apply_delta_def apply_write_def set_append_only_def)

text \<open>The evidence of the first commit.\<close>

lemma demo_evidence:
  obtains db' ev where "evidence_run demo_env db' [ev]" "length (entries db') < 2 ^ 64"
    "witness_cfg db' = demo_cfg"
proof -
  obtain db' e where c: "commit demo_env 1 demo_db demo_delta [] = Some (db', Ok e)"
    by (rule demo_first_commit)
  then obtain ev where ev: "commit_with_evidence demo_env 1 demo_db demo_delta [] = Some (db', Ok (e, ev))"
    by (simp add: commit_with_evidence_def Let_def)
  have "evidence_run demo_env db' ([] @ [ev])"
    by (rule evidence_commit [OF evidence_start [OF demo_db_ok] ev])
  moreover have "length (entries db') < 2 ^ 64" "witness_cfg db' = demo_cfg"
    using commit_ok(2) [OF c] commit_frame [OF c] by (simp_all add: same_config_def)
  ultimately show ?thesis using that by simp
qed

text \<open>
  The same database with one witness listed twice: the parameters are accepted, and the
  quorum of two distinct witnesses can never be met.
\<close>

definition dup_cfg :: WitnessConfig where
  "dup_cfg = with_seed_and_algorithm demo_sig None 2 [''w1'', ''w1''] ''seed'' Ed25519"

definition dup_db :: NucleusDb where
  "dup_db = demo_db\<lparr>witness_cfg := dup_cfg\<rparr>"

lemma dup_cfg_simps [simp]:
  "threshold dup_cfg = 2" "witnesses dup_cfg = [''w1'', ''w1'']" "signing_algorithm dup_cfg = Ed25519"
  "Ed25519 \<in> set (allowed_algorithms dup_cfg)"
  by (simp_all add: dup_cfg_def with_seed_and_algorithm_def with_seed_algorithm_source_def Let_def
      parse_allowed_def)

lemma dup_keys [simp]: "keys_match demo_sig dup_cfg"
  by (simp add: dup_cfg_def with_seed_and_algorithm_def keys_match_seeded)

lemma dup_parameters: "validate_parameters (new_parameters PBinaryMerkle) PBinaryMerkle dup_cfg = Ok ()"
  by (rule new_parameters_valid) simp_all

lemma dup_signs: "\<exists>sig. sign_message demo_sig dup_cfg ''w1'' msg = Ok sig"
  by (simp add: sign_message_def sign_message_with_algorithm_def bt_get_key_table
      dup_cfg_def with_seed_and_algorithm_def with_seed_algorithm_source_def Let_def)

lemma dup_commit:
  obtains db' where "commit demo_env 1 dup_db demo_delta [] = Some (db', Err WitnessQuorumFailed)"
proof -
  let ?nxt = "apply_delta (state dup_db) demo_delta" and ?pf = "build_sheaf_coherence []"
  have frame: "state dup_db = state demo_db" "keymap dup_db = keymap_new" "entries dup_db = []"
    "ct_leaves dup_db = []" "write_mode dup_db = Normal" "backend dup_db = BinaryMerkle"
    "witness_cfg dup_db = dup_cfg" "security_params dup_db = new_parameters PBinaryMerkle"
    "reduction_contracts dup_db = default_reduction_contracts PBinaryMerkle"
    using demo_db_simps(10) by (simp_all add: dup_db_def demo_like_def)
  have "validate_commit_shape (new_parameters PBinaryMerkle) 1 2 = Ok ()"
    by (simp add: validate_shape_iff new_parameters_def default_parameter_set_def)
  then have c: "commit_checks dup_db demo_delta [] = Ok (?nxt, ?pf)"
    by (simp add: commit_checks_def frame dup_parameters default_contracts_valid verify_build_iff
        sheaf_scan_def Let_def demo_delta_def apply_delta_def apply_write_def numeral_2_eq_2)
  obtain r1 r2 where r: "state_root_for demo_env dup_db (materialize ?nxt) = Some r1"
    "prev_root_of demo_env dup_db = Some r2"
    by (simp add: state_root_for_def frame prev_root_of_def)
  obtain db1 head where l: "log_leaf demo_hash 1 dup_db demo_delta r2 r1 (sheaf_digest ?pf) = (db1, head)"
    by fastforce
  have w: "witness_cfg db1 = dup_cfg"
    using log_leaf_frame(1) [OF l] by (simp add: same_config_def frame)
  let ?d = "draft_entry dup_db demo_delta r2 r1 (sheaf_digest ?pf) head"
  let ?msg = "commit_message (height ?d) (prev_state_root ?d) (state_root ?d) (sth ?d)"
  obtain sigs where sigs: "sign_all demo_sig dup_cfg ?msg (take (threshold dup_cfg) (witnesses dup_cfg)) = Ok sigs"
    using sign_all_ok [of "take (threshold dup_cfg) (witnesses dup_cfg)" demo_sig dup_cfg ?msg] dup_signs
    by (metis dup_cfg_simps(2) in_set_takeD set_ConsD empty_iff empty_set)
  have "\<not> verify_quorum_for_algorithm demo_sig dup_cfg (signing_algorithm dup_cfg) ?msg sigs"
    using commit_quorum_iff [OF _ _ _ _ sigs] by simp
  then have "commit_finish demo_env db1 ?d ?nxt = (db1, Err WitnessQuorumFailed)"
    using sigs by (simp add: commit_finish_def w Let_def)
  then have "commit demo_env 1 dup_db demo_delta [] = Some (db1, Err WitnessQuorumFailed)"
    using c r l by (simp add: commit_def prev_root_of_def)
  then show ?thesis by (rule that)
qed

lemma merkle_commit_total:
  assumes "backend db = BinaryMerkle"
  shows "\<exists>db' r. commit env now db delta views = Some (db', r)"
  using assms by (auto simp: commit_def state_root_for_def split: sum.splits prod.splits)

section \<open>A log of two leaves\<close>

definition demo_leaf :: "char \<Rightarrow> node_hash" where
  "demo_leaf c = replicate 32 c"

definition demo_log :: "node_hash list" where
  "demo_log = [demo_leaf CHR ''a'', demo_leaf CHR ''b'']"

definition demo_consistency :: ConsistencyProof where
  "demo_consistency = \<lparr>cp_old_size = 1, cp_new_size = 2, cp_path = [demo_leaf CHR ''b'']\<rparr>"

definition demo_inclusion :: InclusionProof where
  "demo_inclusion = \<lparr>ip_leaf_index = 1, ip_tree_size = 2, ip_leaf_hash = demo_leaf CHR ''b'',
     ip_path = [demo_leaf CHR ''a'']\<rparr>"

lemma demo_log32 [simp]:
  "all32 demo_log" "all32 (take 1 demo_log)" "length demo_log = 2" "length (take 1 demo_log) = 1"
  "all32 (cp_path demo_consistency)" "all32 (ip_leaf_hash demo_inclusion # ip_path demo_inclusion)"
  by (simp_all add: all32_def demo_log_def demo_leaf_def demo_consistency_def demo_inclusion_def)

lemma demo_consistency_ok:
  "verify_consistency_proof demo_hash demo_consistency
     (merkle_tree_hash demo_hash (take 1 demo_log)) (merkle_tree_hash demo_hash demo_log)"
  by code_simp

lemma demo_consistency_inputs:
  "set (merkle_inputs demo_hash (take 1 demo_log)) \<union> set (merkle_inputs demo_hash demo_log) \<union>
   set (merkle_inputs demo_hash (take (length (take 1 demo_log)) demo_log)) \<union>
   set (consistency_inputs demo_hash demo_consistency (merkle_tree_hash demo_hash (take 1 demo_log)))
   = {CHR 0x01 # demo_leaf CHR ''a'' @ demo_leaf CHR ''b''}"
  by code_simp

lemma demo_inclusion_ok:
  "verify_inclusion_proof demo_hash demo_inclusion (merkle_tree_hash demo_hash demo_log)"
  by code_simp

lemma demo_inclusion_inputs:
  "set (merkle_inputs demo_hash demo_log) \<union> set (inclusion_inputs demo_hash demo_inclusion)
   = {CHR 0x01 # demo_leaf CHR ''a'' @ demo_leaf CHR ''b''}"
  by code_simp

section \<open>A Merkle opening\<close>

lemma demo_bm_open:
  "bm_open demo_hash [7] 0 =
     \<lparr>bm_index = 0, bm_leaf_hash = value_leaf demo_hash 0 7, bm_path = [], bm_tree_size = 1\<rparr>"
  by (simp add: bm_open_def value_leaves_def make_inclusion_proof_def inclusion_path.simps Let_def)

lemma demo_bm_unforgeable: "bm_unforgeable demo_hash [7] 0 7 (bm_open demo_hash [7] 0)"
  unfolding demo_bm_open
  by (simp add: bm_unforgeable_def bm_inputs_def merkle_inputs_def inclusion_inputs_def mth_tree_def
      value_leaves_def merkle_tree.simps all32_def)

section \<open>A trusted setup\<close>

definition demo_artifact :: TrustedSetupArtifact where
  "demo_artifact =
     \<lparr>setup_id = ''demo'', curve = ''bls12-381'', max_degree = 4, tau_seed_hex = ''0500000000000000'',
      attestation_sha512 = hex_encode (kzg_sha512 demo_kzg
        (attestation_input ''demo'' ''bls12-381'' 4 [CHR 0x05, CHR 0x00, CHR 0x00, CHR 0x00, CHR 0x00, CHR 0x00, CHR 0x00, CHR 0x00]))\<rparr>"

lemma demo_seed:
  "decode_hex_exact 8 ''0500000000000000'' =
     Some [CHR 0x05, CHR 0x00, CHR 0x00, CHR 0x00, CHR 0x00, CHR 0x00, CHR 0x00, CHR 0x00]"
  by code_simp

lemma demo_artifact_valid:
  "validate_trusted_setup_artifact (kzg_sha512 demo_kzg) demo_artifact ''demo''
     (attestation_sha512 demo_artifact) = Ok ()"
  by (simp add: validate_trusted_setup_artifact_def demo_artifact_def
      compute_trusted_setup_attestation_hex_def demo_seed)

lemma demo_trusted_commit: "\<exists>c. commit_trusted demo_kzg [3, 5] demo_artifact = Ok c"
proof -
  have "length (poly_coeffs demo_kzg (interpolate_vector demo_kzg [3, 5])) \<le> 4"
    by (simp add: interpolate_vector_def lagrange_term_def basis_step_def demo_kzg_def domain_point_def
        Let_def numeral_2_eq_2 enumerate_eq_zip upt_rec)
  then show ?thesis
    by (simp add: commit_trusted_def setup_from_artifact_def Let_def demo_seed demo_artifact_def)
qed

end
