(* ===== verification/Float64_Laws.thy ===== *)
theory Float64_Laws
  imports Float64
begin

text \<open>
  Laws of the arithmetic on doubles: the binary exponent, finiteness of results, and that a double is the
  nearest double to its own value, so that adding or subtracting zero changes nothing.
\<close>

section \<open>Powers of two\<close>

lemma rat_pow2_powi: "rat_pow2 e = 2 powi e"
  by (simp only: rat_pow2_def power_int_def divide_inverse power_inverse mult_1_left)

lemma rat_pow2_add: "rat_pow2 (a + b) = rat_pow2 a * rat_pow2 b"
  by (simp add: rat_pow2_powi power_int_add)

lemma rat_pow2_pos [simp]: "0 < rat_pow2 e"
  by (simp add: rat_pow2_def)

lemma rat_pow2_nonzero [simp]: "rat_pow2 e \<noteq> 0" "\<bar>rat_pow2 e\<bar> = rat_pow2 e"
  using rat_pow2_pos [of e] by (simp_all del: rat_pow2_pos)

lemma rat_pow2_mono: "a < b \<Longrightarrow> rat_pow2 a < rat_pow2 b"
  unfolding rat_pow2_powi by (rule power_int_strict_increasing) simp_all

lemma rat_pow2_less [simp]: "rat_pow2 a < rat_pow2 b \<longleftrightarrow> a < b"
  using rat_pow2_mono [of a b] rat_pow2_mono [of b a] by (cases a b rule: linorder_cases) auto

lemma rat_pow2_le [simp]: "rat_pow2 a \<le> rat_pow2 b \<longleftrightarrow> a \<le> b"
  by (simp only: not_less [symmetric] rat_pow2_less)

lemma rat_pow2_nat: "0 \<le> e \<Longrightarrow> rat_pow2 e = of_int (2 ^ nat e)"
  by (simp add: rat_pow2_def)

lemma bit_length_bounds:
  "0 < n \<Longrightarrow> 0 < bit_length n \<and> 2 ^ nat (bit_length n - 1) \<le> n \<and> n < 2 ^ nat (bit_length n)"
proof (induction n rule: bit_length.induct)
  case (1 n)
  show ?case
  proof (cases "n = 1")
    case True
    then show ?thesis by (simp add: bit_length.simps)
  next
    case False
    let ?b = "bit_length (n div 2)"
    have IH: "0 < ?b" "2 ^ nat (?b - 1) \<le> n div 2" "n div 2 < 2 ^ nat ?b" using 1 False by simp_all
    have b: "bit_length n = 1 + ?b" using 1(2) by (subst bit_length.simps) simp
    have e: "nat (1 + ?b) = Suc (Suc (nat (?b - 1)))" "nat (1 + ?b - 1) = Suc (nat (?b - 1))" "nat ?b = Suc (nat (?b - 1))"
      using IH(1) by linarith+
    have "2 * p \<le> n \<and> n < 4 * p" if "p \<le> n div 2" "n div 2 < 2 * p" for p using that by presburger
    from this [OF IH(2)] show ?thesis using IH(1,3) unfolding b e by simp
  qed
qed

lemma rat_exponent_spec:
  assumes "0 < q"
  shows "rat_pow2 (rat_exponent q) \<le> q \<and> q < rat_pow2 (rat_exponent q + 1)"
proof -
  obtain n d where nd: "quotient_of q = (n, d)" by fastforce
  note d = quotient_of_denom_pos [OF nd]
  have q: "q = of_int n / of_int d" by (rule quotient_of_div [OF nd])
  have n: "0 < n" using assms d unfolding q by (simp add: zero_less_divide_iff)
  define a where "a = bit_length n"
  define b where "b = bit_length d"
  note bn = bit_length_bounds [OF n, folded a_def] and bd = bit_length_bounds [OF d, folded b_def]
  have up: "of_int n < rat_pow2 a" using bn by (simp add: rat_pow2_nat)
  have lo: "rat_pow2 (a - 1) \<le> of_int n" using bn by (simp add: rat_pow2_nat)
  have dup: "of_int d < rat_pow2 b" using bd by (simp add: rat_pow2_nat)
  have dlo: "rat_pow2 (b - 1) \<le> of_int d" using bd by (simp add: rat_pow2_nat)
  have "q < rat_pow2 (a - b + 1)"
  proof -
    have "of_int n < rat_pow2 (a - b + 1) * rat_pow2 (b - 1)" using up rat_pow2_add [of "a - b + 1" "b - 1"] by simp
    also have "\<dots> \<le> rat_pow2 (a - b + 1) * of_int d" using dlo by simp
    finally show ?thesis using d by (simp add: q divide_less_eq)
  qed
  moreover have "rat_pow2 (a - b - 1) \<le> q"
  proof -
    have "rat_pow2 (a - b - 1) * of_int d \<le> rat_pow2 (a - b - 1) * rat_pow2 b" using dup by simp
    also have "\<dots> \<le> of_int n" using lo rat_pow2_add [of "a - b - 1" b] by simp
    finally show ?thesis using d by (simp add: q le_divide_eq)
  qed
  moreover have "rat_exponent q = (if q < rat_pow2 (a - b) then a - b - 1 else a - b)"
    by (simp add: rat_exponent_def nd a_def b_def)
  ultimately show ?thesis by simp
qed

lemma rat_exponent_eq:
  assumes "rat_pow2 e \<le> q" "q < rat_pow2 (e + 1)"
  shows "rat_exponent q = e"
proof -
  have "0 < q" using assms(1) rat_pow2_pos [of e] by linarith
  then have "rat_pow2 (rat_exponent q) < rat_pow2 (e + 1)" "rat_pow2 e < rat_pow2 (rat_exponent q + 1)"
    using rat_exponent_spec [of q] assms by linarith+
  then show ?thesis by simp
qed

section \<open>Patterns\<close>

abbreviation finite_f64 :: "f64 \<Rightarrow> bool" where
  "finite_f64 w \<equiv> \<not> is_nan w \<and> \<not> is_inf w"

lemma finite_mag: "finite_f64 w \<longleftrightarrow> f64_mag w < f64_inf_mag"
  by (auto simp: is_nan_def is_inf_def)

lemma f64_mag_bounds [simp]: "0 \<le> f64_mag w" "f64_mag w < 2 ^ 63"
  by (simp_all add: f64_mag_def)

lemma f64_bits_mag:
  assumes "0 \<le> m" "m < 2 ^ 63"
  shows "f64_mag (f64_bits neg m) = m" "f64_neg (f64_bits neg m) = neg"
proof -
  have "uint (f64_bits neg m) = (if neg then 2 ^ 63 else 0) + m"
    unfolding f64_bits_def uint_word_of_int using assms by (intro mod_pos_pos_trivial) auto
  then show "f64_mag (f64_bits neg m) = m" "f64_neg (f64_bits neg m) = neg"
    using assms by (auto simp: f64_mag_def f64_neg_def)
qed

lemma f64_bits_id [simp]: "f64_bits (f64_neg w) (f64_mag w) = w"
proof -
  have u: "0 \<le> uint w" "uint w < 2 ^ 63 + 2 ^ 63" using uint_lt2p [of w] by simp_all
  have "(if f64_neg w then 2 ^ 63 else 0) + f64_mag w = uint w"
  proof (cases "2 ^ 63 \<le> uint w")
    case True
    then have "(uint w - 2 ^ 63) mod 2 ^ 63 = uint w - 2 ^ 63" using u by (intro mod_pos_pos_trivial) linarith+
    then have "uint w mod 2 ^ 63 = uint w - 2 ^ 63" by (simp only: minus_mod_self2)
    with True show ?thesis by (simp add: f64_neg_def f64_mag_def)
  next
    case False
    then have "uint w mod 2 ^ 63 = uint w" using u by (intro mod_pos_pos_trivial) linarith+
    with False show ?thesis by (simp add: f64_neg_def f64_mag_def)
  qed
  then show ?thesis by (simp add: f64_bits_def)
qed

section \<open>Values\<close>

text \<open>The value of a finite double, with significand and exponent.\<close>

lemma f64_val_parts:
  assumes "f64_mag w < f64_inf_mag"
  obtains m x where "\<bar>f64_val w\<bar> = of_int m * rat_pow2 (x - 1075)" "f64_mag w = m + (x - 1) * 2 ^ 52"
    "1 \<le> x" "x \<le> 2046" "0 \<le> m" "m < 2 ^ 53" "x = 1 \<or> 2 ^ 52 \<le> m"
proof -
  define e where "e = f64_mag w div 2 ^ 52"
  define f where "f = f64_mag w mod 2 ^ 52"
  have mag: "f64_mag w = e * 2 ^ 52 + f" unfolding e_def f_def by simp
  have b: "0 \<le> f" "f < 2 ^ 52" "0 \<le> e" "e < 2047"
    using assms unfolding e_def f_def f64_inf_mag_def by (simp_all add: pos_imp_zdiv_nonneg_iff div_less_iff_less_mult)
  define m where "m = (if e = 0 then f else 2 ^ 52 + f)"
  define x where "x = (if e = 0 then 1 else e)"
  have "f64_val w = (if m = 0 then 0 else if f64_neg w then - (of_int m * rat_pow2 (x - 1075)) else of_int m * rat_pow2 (x - 1075))"
    unfolding f64_val_def Let_def m_def x_def e_def f_def by simp
  moreover have "0 \<le> m" using b by (simp add: m_def)
  ultimately have "\<bar>f64_val w\<bar> = of_int m * rat_pow2 (x - 1075)"
    using rat_pow2_pos [of "x - 1075"] by (simp add: abs_mult)
  then show thesis using that [of m x] b mag by (auto simp: m_def x_def algebra_simps split: if_splits)
qed

lemma f64_val_sign:
  assumes "f64_mag w < f64_inf_mag"
  shows "f64_val w < 0 \<longleftrightarrow> f64_neg w \<and> f64_mag w \<noteq> 0" "f64_val w = 0 \<longleftrightarrow> f64_mag w = 0"
proof -
  have "0 \<le> f64_mag w mod 2 ^ 52" by simp
  moreover have "f64_mag w div 2 ^ 52 = 0 \<Longrightarrow> f64_mag w mod 2 ^ 52 = f64_mag w"
    by (metis mod_div_trivial div_mult_mod_eq mult_zero_left add_0)
  ultimately show "f64_val w < 0 \<longleftrightarrow> f64_neg w \<and> f64_mag w \<noteq> 0" "f64_val w = 0 \<longleftrightarrow> f64_mag w = 0"
    by (auto simp: f64_val_def Let_def not_less order_le_less mult_less_0_iff)
qed

lemma f64_val_less: "f64_mag w < f64_inf_mag \<Longrightarrow> \<bar>f64_val w\<bar> < rat_pow2 1024"
proof (erule f64_val_parts)
  fix m x :: int
  assume v: "\<bar>f64_val w\<bar> = of_int m * rat_pow2 (x - 1075)" and m: "m < 2 ^ 53" and x: "x \<le> 2046"
  have "of_int m < (rat_pow2 53 :: rat)" using m by (simp add: rat_pow2_nat)
  then have "\<bar>f64_val w\<bar> < rat_pow2 53 * rat_pow2 (x - 1075)" unfolding v by simp
  also have "\<dots> = rat_pow2 (x - 1022)" using rat_pow2_add [of 53 "x - 1075"] by simp
  also have "\<dots> \<le> rat_pow2 1024" using x by simp
  finally show ?thesis .
qed

section \<open>Rounding\<close>

lemma round_half_even_of_int [simp]: "round_half_even (of_int n) = n"
  by (simp add: round_half_even_def)

lemma round_half_even_bounds:
  "0 \<le> q \<Longrightarrow> 0 \<le> round_half_even q" "q < of_int n \<Longrightarrow> round_half_even q \<le> n"
proof -
  have "round_half_even q = \<lfloor>q\<rfloor> \<or> round_half_even q = \<lfloor>q\<rfloor> + 1" by (simp add: round_half_even_def Let_def)
  moreover have "0 \<le> q \<Longrightarrow> 0 \<le> \<lfloor>q\<rfloor>" "q < of_int n \<Longrightarrow> \<lfloor>q\<rfloor> < n" by (simp_all add: floor_less_iff)
  ultimately show "0 \<le> q \<Longrightarrow> 0 \<le> round_half_even q" "q < of_int n \<Longrightarrow> round_half_even q \<le> n" by linarith+
qed

lemma f64_round_exact:
  assumes "f64_mag w < f64_inf_mag"
  shows "f64_round neg \<bar>f64_val w\<bar> = f64_bits neg (f64_mag w)"
proof (cases "f64_mag w = 0")
  case True
  then show ?thesis using f64_val_sign(2) [OF assms] by (simp add: f64_round_def)
next
  case False
  from assms obtain m x where v: "\<bar>f64_val w\<bar> = of_int m * rat_pow2 (x - 1075)" and mag: "f64_mag w = m + (x - 1) * 2 ^ 52"
    and x: "1 \<le> x" and m: "0 \<le> m" "m < 2 ^ 53" and norm: "x = 1 \<or> 2 ^ 52 \<le> m" by (rule f64_val_parts) blast
  let ?q = "\<bar>f64_val w\<bar>"
  have q: "?q \<noteq> 0" using False f64_val_sign(2) [OF assms] by simp
  have below: "?q < rat_pow2 (x - 1022)"
  proof -
    have "of_int m < (rat_pow2 53 :: rat)" using m by (simp add: rat_pow2_nat)
    then show ?thesis using rat_pow2_add [of 53 "x - 1075"] unfolding v by simp
  qed
  have e: "max (rat_exponent ?q) (- 1022) = x - 1023"
  proof (cases "2 ^ 52 \<le> m")
    case True
    then have "rat_pow2 52 \<le> (of_int m :: rat)" by (simp add: rat_pow2_nat)
    then have "rat_pow2 (x - 1023) \<le> ?q" using rat_pow2_add [of 52 "x - 1075"] unfolding v by simp
    with below have "rat_exponent ?q = x - 1023" by (intro rat_exponent_eq) simp_all
    with x show ?thesis by simp
  next
    case False
    then have x1: "x = 1" using norm by simp
    have "of_int m < (rat_pow2 52 :: rat)" using False by (simp add: rat_pow2_nat)
    then have "?q < rat_pow2 (- 1022)" using rat_pow2_add [of 52 "x - 1075"] x1 unfolding v by simp
    then have "rat_pow2 (rat_exponent ?q) < rat_pow2 (- 1022)" using rat_exponent_spec [of ?q] q by linarith
    with x1 show ?thesis by simp
  qed
  have "x - 1023 - 52 = x - 1075" by simp
  then have r: "round_half_even (?q / rat_pow2 (x - 1023 - 52)) = m"
    using rat_pow2_pos [of "x - 1075"] by (simp add: v)
  have "m + (x - 1023 + 1022) * 2 ^ 52 = f64_mag w" unfolding mag by simp
  then show ?thesis unfolding f64_round_def Let_def e r using q assms by simp
qed

lemma f64_of_rat_val:
  assumes "f64_mag w < f64_inf_mag" "f64_mag w \<noteq> 0"
  shows "f64_of_rat (f64_val w) = w"
  using f64_val_sign [OF assms(1)] assms by (simp add: f64_of_rat_def f64_round_exact)

lemma f64_round_finite:
  assumes "0 \<le> q" "q < rat_pow2 1023"
  shows "f64_mag (f64_round neg q) < f64_inf_mag" "f64_neg (f64_round neg q) = neg"
proof -
  have "f64_mag (f64_round neg q) < f64_inf_mag \<and> f64_neg (f64_round neg q) = neg"
  proof (cases "q = 0")
    case True
    then show ?thesis using f64_bits_mag [of 0 neg] by (simp add: f64_round_def f64_inf_mag_def)
  next
    case False
    with assms have q: "0 < q" by simp
    define e where "e = max (rat_exponent q) (- 1022)"
    define m where "m = round_half_even (q / rat_pow2 (e - 52))"
    have "rat_pow2 (rat_exponent q) < rat_pow2 1023" using rat_exponent_spec [OF q] assms by linarith
    then have e: "- 1022 \<le> e" "e \<le> 1022" by (simp_all add: e_def)
    have "q < rat_pow2 (e + 1)"
    proof -
      have "q < rat_pow2 (rat_exponent q + 1)" using rat_exponent_spec [OF q] by blast
      also have "\<dots> \<le> rat_pow2 (e + 1)" by (simp add: e_def)
      finally show ?thesis .
    qed
    then have "q / rat_pow2 (e - 52) < of_int (2 ^ 53)"
      using rat_pow2_add [of 53 "e - 52"] by (simp add: divide_less_eq rat_pow2_nat add.commute)
    then have m: "m \<le> 2 ^ 53" "0 \<le> m" unfolding m_def using round_half_even_bounds q by (blast, simp add: round_half_even_bounds(1) order_less_imp_le)
    have "(e + 1022) * 2 ^ 52 \<le> 2044 * 2 ^ 52" using e by (intro mult_right_mono) simp_all
    with m have mag: "m + (e + 1022) * 2 ^ 52 < f64_inf_mag" by (simp add: f64_inf_mag_def)
    have "0 \<le> (e + 1022) * 2 ^ 52" using e by simp
    then have "f64_round neg q = f64_bits neg (m + (e + 1022) * 2 ^ 52)" "0 \<le> m + (e + 1022) * 2 ^ 52"
      using q mag m unfolding f64_round_def Let_def e_def m_def by (simp_all add: min_def)
    moreover have "m + (e + 1022) * 2 ^ 52 < 2 ^ 63" using mag by (simp add: f64_inf_mag_def)
    ultimately show ?thesis using mag f64_bits_mag by metis
  qed
  then show "f64_mag (f64_round neg q) < f64_inf_mag" "f64_neg (f64_round neg q) = neg" by simp_all
qed

section \<open>Arithmetic with zero\<close>

lemma f64_zero [simp]: "f64_mag 0 = 0" "\<not> f64_neg 0" "f64_val 0 = 0" "\<not> is_nan 0" "\<not> is_inf 0" "f64_bits False 0 = 0"
  by (simp_all add: f64_mag_def f64_neg_def f64_val_def Let_def is_nan_def is_inf_def f64_inf_mag_def f64_bits_def)

lemma f64_neg_zero: "f64_negate 0 = f64_bits True 0"
  by (simp add: f64_negate_def)

lemma f64_signed_zero [simp]:
  "f64_mag (f64_bits neg 0) = 0" "f64_neg (f64_bits neg 0) = neg" "f64_val (f64_bits neg 0) = 0"
  "\<not> is_nan (f64_bits neg 0)" "\<not> is_inf (f64_bits neg 0)"
proof -
  show m: "f64_mag (f64_bits neg 0) = 0" and "f64_neg (f64_bits neg 0) = neg" using f64_bits_mag [of 0 neg] by simp_all
  show "\<not> is_nan (f64_bits neg 0)" "\<not> is_inf (f64_bits neg 0)" using m by (simp_all add: is_nan_def is_inf_def f64_inf_mag_def)
  show "f64_val (f64_bits neg 0) = 0" using f64_val_sign(2) [of "f64_bits neg 0"] m by (simp add: f64_inf_mag_def)
qed

lemma f64_sub_zero [simp]: "\<not> is_nan w \<Longrightarrow> f64_sub w 0 = w"
proof -
  assume w: "\<not> is_nan w"
  have "f64_add w (f64_bits True 0) = w"
  proof (cases "is_inf w")
    case True
    with w show ?thesis by (simp add: f64_add_def)
  next
    case False
    with w have fin: "f64_mag w < f64_inf_mag" by (simp add: finite_mag [symmetric])
    have "f64_mag w = 0 \<Longrightarrow> f64_bits (f64_neg w) 0 = w" using f64_bits_id [of w] by simp
    then show ?thesis using w False f64_val_sign(2) [OF fin] f64_of_rat_val [OF fin] by (auto simp: f64_add_def Let_def)
  qed
  then show ?thesis by (simp add: f64_sub_def f64_neg_zero)
qed

lemma f64_mul_zero: "finite_f64 a \<Longrightarrow> f64_mul a 0 = f64_bits (f64_neg a) 0" "finite_f64 a \<Longrightarrow> f64_mul 0 a = f64_bits (f64_neg a) 0"
  by (simp_all add: f64_mul_def Let_def f64_round_def)

lemma f64_zero_add_zero [simp]: "f64_add 0 (f64_bits neg 0) = 0"
  by (simp add: f64_add_def)

lemma f64_add_zero_zero [simp]: "f64_add 0 0 = 0"
  using f64_zero_add_zero [of False] by simp

lemma f64_div_finite:
  assumes "finite_f64 a" "finite_f64 b" "2 \<le> f64_val b"
  shows "finite_f64 (f64_div a b)" "f64_neg (f64_div a b) = (f64_neg a \<noteq> f64_neg b)"
proof -
  have a: "\<bar>f64_val a\<bar> < rat_pow2 1024" using f64_val_less assms(1) by (simp add: finite_mag)
  have "f64_mag b \<noteq> 0" using assms(2,3) f64_val_sign(2) [of b] by (auto simp: finite_mag)
  then have d: "f64_div a b = f64_round (f64_neg a \<noteq> f64_neg b) \<bar>f64_val a / f64_val b\<bar>"
    using assms by (simp add: f64_div_def Let_def)
  have "\<bar>f64_val a / f64_val b\<bar> = \<bar>f64_val a\<bar> / f64_val b" using assms(3) by simp
  also have "\<dots> \<le> \<bar>f64_val a\<bar> / 2" using assms(3) by (intro divide_left_mono) simp_all
  also have "\<dots> < rat_pow2 1023" using a rat_pow2_add [of 1 1023] by (simp add: rat_pow2_nat [of 1])
  finally have "\<bar>f64_val a / f64_val b\<bar> < rat_pow2 1023" .
  from f64_round_finite [OF _ this, of "f64_neg a \<noteq> f64_neg b"]
  show "finite_f64 (f64_div a b)" "f64_neg (f64_div a b) = (f64_neg a \<noteq> f64_neg b)" by (simp_all add: d finite_mag)
qed

lemma f64_of_nat_finite:
  assumes "n < 2 ^ 64"
  shows "finite_f64 (f64_of_nat n)" "\<not> f64_neg (f64_of_nat n)"
proof -
  have "(of_nat n :: rat) < of_nat (2 ^ 64)" using assms by (simp only: of_nat_less_iff)
  also have "\<dots> = rat_pow2 64" by (simp add: rat_pow2_nat)
  also have "\<dots> < rat_pow2 1023" by simp
  finally have "of_nat n < rat_pow2 1023" .
  from f64_round_finite [OF _ this, of False] show "finite_f64 (f64_of_nat n)" "\<not> f64_neg (f64_of_nat n)"
    by (simp_all add: f64_of_nat_def f64_of_rat_def finite_mag)
qed

end
