(* ===== verification/Rust_Std.thy ===== *)
theory Rust_Std
  imports Rust_Text
begin

text \<open>
  More of Rust's standard library: saturating arithmetic on 64 bits, \<^verbatim>\<open>Option::unwrap_or\<close>,
  splitting, trimming and reading of unsigned integers.
\<close>

section \<open>Saturating arithmetic\<close>

definition saturating_add :: "u64 \<Rightarrow> u64 \<Rightarrow> u64" where
  "saturating_add a b = (if unat a + unat b < 2 ^ 64 then a + b else - 1)"

definition saturating_sub :: "u64 \<Rightarrow> u64 \<Rightarrow> u64" where
  "saturating_sub a b = (if b \<le> a then a - b else 0)"

definition saturating_mul :: "u64 \<Rightarrow> u64 \<Rightarrow> u64" where
  "saturating_mul a b = (if unat a * unat b < 2 ^ 64 then a * b else - 1)"

lemma saturating_add_exact:
  "saturating_add a b \<noteq> - 1 \<Longrightarrow> unat (saturating_add a b) = unat a + unat b"
  by (auto simp: saturating_add_def unat_word_ariths split: if_splits)

lemma u64_less_succ: "(w :: u64) \<noteq> - 1 \<Longrightarrow> w < w + 1"
proof -
  assume w: "w \<noteq> - 1"
  have "unat w \<noteq> 2 ^ 64 - 1"
  proof
    assume "unat w = 2 ^ 64 - 1"
    then have "unat w = unat (- 1 :: u64)" by (simp add: unsigned_minus_1_eq_mask mask_eq_exp_minus_1)
    with w show False by (simp add: word_unat_eq_iff)
  qed
  moreover have "unat w < 2 ^ LENGTH(64)" by (rule unsigned_less)
  ultimately have "unat w + 1 < 2 ^ 64" by simp
  then have "unat (w + 1) = unat w + 1" by (simp add: unat_word_ariths)
  then show ?thesis by (simp add: word_less_nat_alt)
qed

section \<open>Options and text\<close>

definition unwrap_or :: "'a option \<Rightarrow> 'a \<Rightarrow> 'a" where
  "unwrap_or v d = (case v of Some x \<Rightarrow> x | None \<Rightarrow> d)"

text \<open>\<^verbatim>\<open>str::parse::<u64>\<close>: an optional plus sign, at least one digit, no overflow.\<close>

definition parse_u64 :: "string \<Rightarrow> u64 option" where
  "parse_u64 s =
     (case parse_digits (case s of c # cs \<Rightarrow> if c = CHR ''+'' then cs else s | [] \<Rightarrow> s) of
        None \<Rightarrow> None
      | Some n \<Rightarrow> if n < 2 ^ 64 then Some (of_nat n) else None)"

fun split_once :: "char \<Rightarrow> string \<Rightarrow> (string \<times> string) option" where
  "split_once d [] = None"
| "split_once d (c # cs) =
     (if c = d then Some ([], cs) else map_option (\<lambda>(a, b). (c # a, b)) (split_once d cs))"

definition show_u64 :: "u64 \<Rightarrow> string" where
  "show_u64 w = dec (unat w)"

text \<open>\<^verbatim>\<open>str::trim_end_matches\<close> removes the suffix as often as it is there.\<close>

function trim_end_matches :: "string \<Rightarrow> string \<Rightarrow> string" where
  "trim_end_matches p s =
     (if p \<noteq> [] \<and> ends_with s p then trim_end_matches p (take (length s - length p) s) else s)"
  by pat_completeness auto
termination
  by (relation "measure (length \<circ> snd)")
    (auto simp: ends_with_def starts_with_def simp flip: length_greater_0_conv dest!: arg_cong [of _ _ length])

declare trim_end_matches.simps [simp del]

lemma starts_with_append [simp]: "starts_with (p @ s) p"
  by (simp add: starts_with_def)

lemma starts_with_iff: "starts_with s p \<longleftrightarrow> (\<exists>t. s = p @ t)"
  by (metis append_eq_conv_conj append_take_drop_id starts_with_def)

lemma parse_u64_no_colon: "parse_u64 s = Some n \<Longrightarrow> CHR '':'' \<notin> set s"
  by (auto simp: parse_u64_def parse_digits_def list_all_iff is_digit_def split: list.splits if_splits)

lemma split_once_app: "d \<notin> set a \<Longrightarrow> split_once d (a @ d # b) = Some (a, b)"
  by (induction a) auto

lemma colon_notin_dec [simp]: "CHR '':'' \<notin> set (dec n)"
  using dec_digits by (fastforce simp: is_digit_def)

lemma parse_show_u64 [simp]: "parse_u64 (show_u64 w) = Some w"
proof -
  obtain c cs where d: "dec (unat w) = c # cs" by (cases "dec (unat w)") auto
  then have "(case dec (unat w) of c # cs \<Rightarrow> if c = CHR ''+'' then cs else dec (unat w) | [] \<Rightarrow> dec (unat w)) = dec (unat w)"
    using dec_head_digit [OF d] by simp
  then show ?thesis
    unfolding parse_u64_def show_u64_def using unsigned_less [of w] by (simp add: parse_digits_dec)
qed

lemma split_show_u64 [simp]: "split_once CHR '':'' (show_u64 n @ CHR '':'' # f) = Some (show_u64 n, f)"
  by (rule split_once_app) (simp add: show_u64_def)

lemma show_u64_inject [simp]: "show_u64 a = show_u64 b \<longleftrightarrow> a = b"
  by (metis option.inject parse_show_u64)

section \<open>Case-insensitive equality\<close>

lemma eq_ignore_ascii_case_refl [simp]: "eq_ignore_ascii_case a a"
  by (simp add: eq_ignore_ascii_case_def)

lemma eq_ignore_ascii_case_sym: "eq_ignore_ascii_case a b \<longleftrightarrow> eq_ignore_ascii_case b a"
  by (auto simp: eq_ignore_ascii_case_def)

lemma eq_ignore_ascii_case_trans [trans]:
  "eq_ignore_ascii_case a b \<Longrightarrow> eq_ignore_ascii_case b c \<Longrightarrow> eq_ignore_ascii_case a c"
  by (simp add: eq_ignore_ascii_case_def)

lemma eq_ignore_ascii_case_length: "eq_ignore_ascii_case a b \<Longrightarrow> length a = length b"
  by (auto simp: eq_ignore_ascii_case_def to_ascii_lowercase_def dest: map_eq_imp_length_eq)

section \<open>Trimming\<close>

text \<open>Replacing characters by visible ones makes no white space.\<close>

lemma ws_prefix_map:
  assumes "\<And>c. f c = c \<or> code (f c) \<in> {33..127}" "ws_prefix (map f s) \<noteq> 0"
  shows "ws_prefix s = ws_prefix (map f s)"
proof -
  have id: "code (f c) \<notin> {33..127} \<Longrightarrow> f c = c" for c using assms(1) [of c] by blast
  have id1: "code (f c) \<in> {9..13} \<or> code (f c) = 32 \<Longrightarrow> f c = c"
    and idn: "128 \<le> code (f c) \<Longrightarrow> f c = c" for c by (auto intro: id)
  obtain a t where s: "s = a # t" using assms(2) by (cases s) simp_all
  show ?thesis
  proof (cases "code (f a) \<in> {9..13} \<or> code (f a) = 32")
    case True
    with id1 [OF True] show ?thesis by (simp add: s)
  next
    case no1: False
    with assms(2) obtain b u where t: "t = b # u" by (cases t) (auto simp: s split: if_splits)
    show ?thesis
    proof (cases "code (f a) = 0xC2 \<and> (code (f b) = 0x85 \<or> code (f b) = 0xA0)")
      case True
      then have "f a = a" "f b = b" by (auto intro: idn)
      with True no1 show ?thesis by (simp add: s t)
    next
      case no2: False
      with assms(2) no1 obtain c v where u: "u = c # v" by (cases u) (auto simp: s t split: if_splits)
      from assms(2) no1 no2 have "128 \<le> code (f a) \<and> 128 \<le> code (f b) \<and> 128 \<le> code (f c)"
        by (auto simp: s t u split: if_splits)
      then have "f a = a" "f b = b" "f c = c" by (auto intro: idn)
      then show ?thesis by (simp add: s t u)
    qed
  qed
qed

lemma ws_prefix_take: "ws_prefix s = 0 \<Longrightarrow> ws_prefix (take n s) = 0"
  by (cases s; cases n; cases "tl s"; cases "n - 1"; cases "tl (tl s)"; cases "n - 2")
    (auto split: if_splits)

lemma ws_prefix_trim_start: "ws_prefix (trim_start s) = 0"
proof (induction s rule: trim_start.induct)
  case (1 s)
  then show ?case by (cases "ws_prefix s = 0") (simp_all add: trim_start.simps [of s])
qed

lemma trim_end_rev_suffix: "\<exists>n. trim_end_rev s = drop n s"
proof (induction s rule: trim_end_rev.induct)
  case (1 s)
  then show ?case
    by (cases "ws_suffix_rev s = 0") (auto simp: trim_end_rev.simps [of s] intro: exI [of _ 0])
qed

lemma ws_suffix_trim_end_rev: "ws_suffix_rev (trim_end_rev s) = 0"
proof (induction s rule: trim_end_rev.induct)
  case (1 s)
  then show ?case by (cases "ws_suffix_rev s = 0") (simp_all add: trim_end_rev.simps [of s])
qed

definition trimmed :: "bytes \<Rightarrow> bool" where
  "trimmed s \<longleftrightarrow> ws_prefix s = 0 \<and> ws_suffix_rev (rev s) = 0"

lemma trimmed_trim: "trimmed (trim s)"
proof -
  obtain n where n: "trim_end_rev (rev (trim_start s)) = drop n (rev (trim_start s))"
    using trim_end_rev_suffix by blast
  then have "trim s = take (length (trim_start s) - n) (trim_start s)"
    by (simp add: trim_def rev_drop)
  then have "ws_prefix (trim s) = 0" using ws_prefix_take [OF ws_prefix_trim_start] by simp
  moreover have "ws_suffix_rev (rev (trim s)) = 0" by (simp add: trim_def ws_suffix_trim_end_rev)
  ultimately show ?thesis by (simp add: trimmed_def)
qed

lemma trim_trimmed: "trimmed s \<Longrightarrow> trim s = s"
  by (simp add: trimmed_def trim_def trim_start.simps [of s] trim_end_rev.simps [of "rev s"])

lemma ws_suffix_rev_zero:
  "ws_suffix_rev s = 0 \<longleftrightarrow> s = [] \<or> (\<forall>k \<in> {1, 2, 3}. ws_prefix (rev (take k s)) \<noteq> k)"
  by (simp add: ws_suffix_rev_def)

lemma trimmed_map:
  assumes "\<And>c. f c = c \<or> code (f c) \<in> {33..127}" "trimmed s"
  shows "trimmed (map f s)"
proof -
  have pre: "ws_prefix (map f u) \<noteq> k" if "ws_prefix u \<noteq> k" "k \<noteq> 0" for u k
    using ws_prefix_map [OF assms(1), of u] that by auto
  have "ws_prefix (map f s) = 0"
    using pre [of s "ws_prefix (map f s)"] assms(2) by (cases "ws_prefix (map f s)") (auto simp: trimmed_def)
  moreover have "ws_prefix (rev (take k (rev (map f s)))) \<noteq> k"
    if "ws_prefix (rev (take k (rev s))) \<noteq> k" "k \<noteq> 0" for k
    using pre [OF that] by (simp add: take_map rev_map)
  then have "ws_suffix_rev (rev (map f s)) = 0"
    using assms(2) unfolding trimmed_def ws_suffix_rev_zero by auto
  ultimately show ?thesis by (simp add: trimmed_def)
qed

lemma trim_trim [simp]: "trim (trim s) = trim s"
  by (rule trim_trimmed [OF trimmed_trim])

end
