(* ===== verification/Api_Keys.thy ===== *)
theory Api_Keys
  imports Float64_Laws Rust_Std Hex "HOL-Library.Signed_Division"
begin

text \<open>
  The prepaid keys of the metered proxy: \<^verbatim>\<open>src/halo/api_keys.rs\<close>, the prices of
  \<^verbatim>\<open>src/halo/pricing.rs\<close> and the endpoints of \<^verbatim>\<open>src/dashboard/api.rs\<close> that manage keys.  The hash maps
  are maps, \<open>ks_disk\<close> is what the file of the store decodes to, if it does, and \<open>disk\<close> tells whether writing it
  works; clock and random bytes are arguments.  A finite number is read back as it was written; the JSON of any
  other number is \<^verbatim>\<open>null\<close>, which is not read as a number.
\<close>

section \<open>Keys\<close>

record DailyUsage =
  du_requests :: u64
  du_input :: u64
  du_output :: u64
  du_cost :: f64

definition usage_default :: DailyUsage where
  "usage_default = \<lparr>du_requests = 0, du_input = 0, du_output = 0, du_cost = 0\<rparr>"

record CustomerKey =
  ck_key_id :: string
  ck_api_key :: string
  ck_label :: string
  ck_active :: bool
  ck_balance :: f64
  ck_spent :: f64
  ck_requests :: u64
  ck_input :: u64
  ck_output :: u64
  ck_created :: u64
  ck_last_used :: "u64 option"
  ck_daily :: "string \<rightharpoonup> DailyUsage"

record StoreData =
  sd_keys :: "string \<rightharpoonup> CustomerKey"
  sd_index :: "string \<rightharpoonup> string"

record CustomerKeyStore =
  ks_data :: StoreData
  ks_disk :: "StoreData option"

definition open_store :: "StoreData option \<Rightarrow> CustomerKeyStore" where
  "open_store disk =
     \<lparr>ks_data = unwrap_or disk \<lparr>sd_keys = Map.empty, sd_index = Map.empty\<rparr>, ks_disk = disk\<rparr>"

definition json_finite :: "StoreData \<Rightarrow> bool" where
  "json_finite data \<longleftrightarrow>
     (\<forall>k \<in> ran (sd_keys data). finite_f64 (ck_balance k) \<and> finite_f64 (ck_spent k) \<and>
        (\<forall>u \<in> ran (ck_daily k). finite_f64 (du_cost u)))"

text \<open>What the file that is written decodes to.\<close>

definition written_form :: "StoreData \<Rightarrow> StoreData option" where
  "written_form data = (if json_finite data then Some data else None)"

definition persist :: "bool \<Rightarrow> CustomerKeyStore \<Rightarrow> CustomerKeyStore" where
  "persist disk st = (if disk then st\<lparr>ks_disk := written_form (ks_data st)\<rparr> else st)"

text \<open>The identifiers from 8 and 24 random bytes.\<close>

definition key_id_of :: "bytes \<Rightarrow> string" where
  "key_id_of rnd = ''cust_'' @ hex_encode rnd"

definition api_key_of :: "bytes \<Rightarrow> string" where
  "api_key_of rnd = ''ah-'' @ hex_encode rnd"

definition create_key ::
  "bool \<Rightarrow> bytes \<Rightarrow> bytes \<Rightarrow> u64 \<Rightarrow> string \<Rightarrow> f64 \<Rightarrow> CustomerKeyStore \<Rightarrow> CustomerKeyStore \<times> CustomerKey" where
  "create_key disk rnd8 rnd24 now label balance st =
     (let customer =
        \<lparr>ck_key_id = key_id_of rnd8, ck_api_key = api_key_of rnd24, ck_label = label, ck_active = True,
         ck_balance = balance, ck_spent = 0, ck_requests = 0, ck_input = 0, ck_output = 0,
         ck_created = now, ck_last_used = None, ck_daily = Map.empty\<rparr>;
          data = ks_data st
      in (persist disk (st\<lparr>ks_data := data\<lparr>sd_index := (sd_index data)(api_key_of rnd24 \<mapsto> key_id_of rnd8),
                                           sd_keys := (sd_keys data)(key_id_of rnd8 \<mapsto> customer)\<rparr>\<rparr>), customer))"

definition validate_key :: "CustomerKeyStore \<Rightarrow> string \<Rightarrow> CustomerKey option" where
  "validate_key st api_key = Option.bind (sd_index (ks_data st) api_key) (sd_keys (ks_data st))"

definition get_key :: "CustomerKeyStore \<Rightarrow> string \<Rightarrow> CustomerKey option" where
  "get_key st key_id = sd_keys (ks_data st) key_id"

definition get_balance :: "CustomerKeyStore \<Rightarrow> string \<Rightarrow> f64" where
  "get_balance st key_id = (case get_key st key_id of None \<Rightarrow> 0 | Some k \<Rightarrow> ck_balance k)"

definition store_key :: "string \<Rightarrow> CustomerKey \<Rightarrow> CustomerKeyStore \<Rightarrow> CustomerKeyStore" where
  "store_key key_id k st = st\<lparr>ks_data := (ks_data st)\<lparr>sd_keys := (sd_keys (ks_data st))(key_id \<mapsto> k)\<rparr>\<rparr>"

definition add_balance :: "bool \<Rightarrow> string \<Rightarrow> f64 \<Rightarrow> CustomerKeyStore \<Rightarrow> CustomerKeyStore \<times> f64" where
  "add_balance disk key_id amount st =
     (case get_key st key_id of
        None \<Rightarrow> (st, 0)
      | Some k \<Rightarrow>
          (let balance = f64_add (ck_balance k) amount
           in (persist disk (store_key key_id (k\<lparr>ck_balance := balance\<rparr>) st), balance)))"

definition deduct_balance :: "bool \<Rightarrow> string \<Rightarrow> f64 \<Rightarrow> CustomerKeyStore \<Rightarrow> CustomerKeyStore \<times> f64" where
  "deduct_balance disk key_id amount st =
     (case get_key st key_id of
        None \<Rightarrow> (st, 0)
      | Some k \<Rightarrow>
          (let balance = f64_sub (ck_balance k) amount
           in (persist disk (store_key key_id (k\<lparr>ck_balance := balance, ck_spent := f64_add (ck_spent k) amount\<rparr>) st),
               balance)))"

section \<open>Days\<close>

text \<open>The arithmetic of \<^verbatim>\<open>i64\<close> and \<^verbatim>\<open>u32\<close> stays in range; the year is cast to \<^verbatim>\<open>i32\<close>.\<close>

definition civil_from_days :: "int \<Rightarrow> int \<times> int \<times> int" where
  "civil_from_days z0 =
     (let z = z0 + 719468;
          era = (if z \<ge> 0 then z else z - 146096) sdiv 146097;
          doe = z - era * 146097;
          yoe = (doe - doe div 1460 + doe div 36524 - doe div 146096) div 365;
          y = yoe + era * 400;
          doy = doe - (365 * yoe + yoe div 4 - yoe div 100);
          mp = (5 * doy + 2) div 153;
          d = doy - (153 * mp + 2) div 5 + 1;
          m = (if mp < 10 then mp + 3 else mp - 9)
      in (if m \<le> 2 then y + 1 else y, m, d))"

definition pad0 :: "nat \<Rightarrow> int \<Rightarrow> string" where
  "pad0 w n =
     (if n < 0 then (let s = dec (nat (- n)) in CHR ''-'' # replicate (w - 1 - length s) CHR ''0'' @ s)
      else (let s = dec (nat n) in replicate (w - length s) CHR ''0'' @ s))"

definition date_string :: "int \<times> int \<times> int \<Rightarrow> string" where
  "date_string ymd =
     (case ymd of (y, m, d) \<Rightarrow>
        pad0 4 (sint (of_int y :: u32)) @ CHR ''-'' # pad0 2 m @ CHR ''-'' # pad0 2 d)"

definition today_string :: "u64 \<Rightarrow> string" where
  "today_string secs = date_string (civil_from_days (719163 + int (unat secs div 86400)))"

section \<open>Usage\<close>

definition record_usage ::
  "bool \<Rightarrow> u64 \<Rightarrow> string \<Rightarrow> u64 \<Rightarrow> u64 \<Rightarrow> f64 \<Rightarrow> CustomerKeyStore \<Rightarrow> CustomerKeyStore" where
  "record_usage disk now key_id input output cost st =
     persist disk
       (case get_key st key_id of
          None \<Rightarrow> st
        | Some k \<Rightarrow>
            (let today = today_string now;
                 daily = unwrap_or (ck_daily k today) usage_default;
                 daily' = \<lparr>du_requests = du_requests daily + 1, du_input = du_input daily + input,
                           du_output = du_output daily + output, du_cost = f64_add (du_cost daily) cost\<rparr>
             in store_key key_id
                  (k\<lparr>ck_requests := ck_requests k + 1, ck_input := ck_input k + input,
                     ck_output := ck_output k + output, ck_last_used := Some now,
                     ck_daily := (ck_daily k)(today \<mapsto> daily')\<rparr>) st))"

definition today_tokens :: "u64 \<Rightarrow> string \<Rightarrow> CustomerKeyStore \<Rightarrow> u64" where
  "today_tokens now key_id st =
     (case Option.bind (get_key st key_id) (\<lambda>k. ck_daily k (today_string now)) of
        None \<Rightarrow> 0 | Some u \<Rightarrow> du_input u + du_output u)"

definition set_active :: "bool \<Rightarrow> bool \<Rightarrow> string \<Rightarrow> CustomerKeyStore \<Rightarrow> CustomerKeyStore \<times> bool" where
  "set_active disk active key_id st =
     (case get_key st key_id of
        None \<Rightarrow> (st, False)
      | Some k \<Rightarrow> (persist disk (store_key key_id (k\<lparr>ck_active := active\<rparr>) st), True))"

definition suspend_key :: "bool \<Rightarrow> string \<Rightarrow> CustomerKeyStore \<Rightarrow> CustomerKeyStore \<times> bool" where
  "suspend_key disk = set_active disk False"

definition activate_key :: "bool \<Rightarrow> string \<Rightarrow> CustomerKeyStore \<Rightarrow> CustomerKeyStore \<times> bool" where
  "activate_key disk = set_active disk True"

definition revoke_key :: "bool \<Rightarrow> string \<Rightarrow> CustomerKeyStore \<Rightarrow> CustomerKeyStore \<times> bool" where
  "revoke_key disk key_id st =
     (case get_key st key_id of
        None \<Rightarrow> (st, False)
      | Some k \<Rightarrow>
          (persist disk (st\<lparr>ks_data := \<lparr>sd_keys = (sd_keys (ks_data st))(key_id := None),
                                       sd_index = (sd_index (ks_data st))(ck_api_key k := None)\<rparr>\<rparr>), True))"

section \<open>The endpoints of the administrator\<close>

datatype ApiError = Unauthorized string | BadRequest string | NotFound string | Forbidden string | TooManyRequests string | Internal string

definition auth_required :: ApiError where
  "auth_required = Unauthorized ''authentication required: open Setup and sign in with GitHub or Google, then retry''"

definition api_admin_create_key ::
  "bool \<Rightarrow> bool \<Rightarrow> bytes \<Rightarrow> bytes \<Rightarrow> u64 \<Rightarrow> string \<Rightarrow> f64 option \<Rightarrow> CustomerKeyStore \<Rightarrow>
    CustomerKeyStore \<times> (ApiError + CustomerKey)" where
  "api_admin_create_key auth disk rnd8 rnd24 now label balance st =
     (if \<not> auth then (st, Err auth_required)
      else if trim label = [] then (st, Err (BadRequest ''label must not be empty''))
      else (case create_key disk rnd8 rnd24 now (trim label) (f64_max (unwrap_or balance 0) 0) st of
              (st', k) \<Rightarrow> (st', Ok k)))"

definition api_admin_revoke_key ::
  "bool \<Rightarrow> bool \<Rightarrow> string \<Rightarrow> CustomerKeyStore \<Rightarrow> CustomerKeyStore \<times> (ApiError + unit)" where
  "api_admin_revoke_key auth disk key_id st =
     (if \<not> auth then (st, Err auth_required)
      else (case revoke_key disk key_id st of
              (st', ok) \<Rightarrow> (st', if ok then Ok () else Err (NotFound ''key not found''))))"

definition api_admin_add_balance ::
  "bool \<Rightarrow> bool \<Rightarrow> string \<Rightarrow> f64 \<Rightarrow> CustomerKeyStore \<Rightarrow> CustomerKeyStore \<times> (ApiError + f64)" where
  "api_admin_add_balance auth disk key_id amount st =
     (if \<not> auth then (st, Err auth_required)
      else if f64_le amount 0 then (st, Err (BadRequest ''amount_usd must be positive''))
      else if get_key st key_id = None then (st, Err (NotFound ''key not found''))
      else (case add_balance disk key_id amount st of (st', balance) \<Rightarrow> (st', Ok balance)))"

definition api_admin_set_active ::
  "bool \<Rightarrow> bool \<Rightarrow> bool \<Rightarrow> string \<Rightarrow> CustomerKeyStore \<Rightarrow> CustomerKeyStore \<times> (ApiError + unit)" where
  "api_admin_set_active auth disk active key_id st =
     (if \<not> auth then (st, Err auth_required)
      else (case (if active then activate_key else suspend_key) disk key_id st of
              (st', ok) \<Rightarrow> (st', if ok then Ok () else Err (NotFound ''key not found''))))"

section \<open>Prices\<close>

record ModelPricing =
  mp_input :: f64
  mp_output :: f64
  mp_cache :: "f64 option"

record ProxyConfig =
  pc_enabled :: bool
  pc_markup :: f64
  pc_rate_limit :: u32
  pc_daily_limit :: u64

definition price_entry :: "rat \<Rightarrow> rat \<Rightarrow> rat option \<Rightarrow> ModelPricing" where
  "price_entry i p c = \<lparr>mp_input = f64_of_rat i, mp_output = f64_of_rat p, mp_cache = map_option f64_of_rat c\<rparr>"

definition default_pricing :: "string \<rightharpoonup> ModelPricing" where
  "default_pricing = map_of
     [(''claude-opus-4-6'', price_entry 15 75 (Some (3 / 2))),
      (''claude-sonnet-4-6'', price_entry 3 15 (Some (3 / 10))),
      (''claude-haiku-4-5'', price_entry (8 / 10) 4 (Some (8 / 100))),
      (''o3'', price_entry 10 40 None),
      (''o4-mini'', price_entry (11 / 10) (44 / 10) None),
      (''gpt-4.1'', price_entry 2 8 None),
      (''gemini-2.5-pro'', price_entry (125 / 100) 10 None),
      (''gemini-2.5-flash'', price_entry (15 / 100) (6 / 10) None)]"

abbreviation f64_million :: f64 where
  "f64_million \<equiv> 0x412e848000000000"

abbreviation f64_hundred :: f64 where
  "f64_hundred \<equiv> 0x4059000000000000"

definition per_million :: "u64 \<Rightarrow> f64" where
  "per_million tokens = f64_div (f64_of_nat (unat tokens)) f64_million"

definition calculate_cost :: "string \<Rightarrow> u64 \<Rightarrow> u64 \<Rightarrow> u64 \<Rightarrow> (string \<rightharpoonup> ModelPricing) \<Rightarrow> f64" where
  "calculate_cost model input output cache pricing =
     (let p = unwrap_or (pricing model) \<lparr>mp_input = 0, mp_output = 0, mp_cache = None\<rparr>;
          input_cost = f64_mul (per_million input) (mp_input p);
          output_cost = f64_mul (per_million output) (mp_output p);
          cache_cost = f64_mul (per_million cache) (unwrap_or (mp_cache p) 0)
      in f64_add (f64_add input_cost output_cost) cache_cost)"

definition calculate_marked_up_cost ::
  "string \<Rightarrow> u64 \<Rightarrow> u64 \<Rightarrow> u64 \<Rightarrow> (string \<rightharpoonup> ModelPricing) \<Rightarrow> f64 \<Rightarrow> f64 \<times> f64" where
  "calculate_marked_up_cost model input output cache pricing markup_pct =
     (let base = calculate_cost model input output cache pricing;
          markup = f64_mul base (f64_div markup_pct f64_hundred)
      in (base, f64_add base markup))"

section \<open>The store\<close>

text \<open>A store that is opened again is the one that was written.\<close>

lemma open_persist [simp]: "json_finite (ks_data st) \<Longrightarrow> ks_data (open_store (ks_disk (persist True st))) = ks_data st"
  by (simp add: open_store_def persist_def written_form_def unwrap_or_def)

lemma persist_data [simp]: "ks_data (persist disk st) = ks_data st" "get_key (persist disk st) = get_key st"
  by (simp_all add: persist_def get_key_def fun_eq_iff)

lemma get_store_key [simp]: "get_key (store_key key_id k st) = (get_key st)(key_id \<mapsto> k)"
  by (simp add: store_key_def get_key_def fun_eq_iff)

lemma store_key_index [simp]: "sd_index (ks_data (store_key key_id k st)) = sd_index (ks_data st)"
  by (simp add: store_key_def)

text \<open>The index and the keys agree.\<close>

definition store_wf :: "StoreData \<Rightarrow> bool" where
  "store_wf data \<longleftrightarrow>
     (\<forall>key_id k. sd_keys data key_id = Some k \<longrightarrow> ck_key_id k = key_id \<and> sd_index data (ck_api_key k) = Some key_id) \<and>
     (\<forall>api_key key_id. sd_index data api_key = Some key_id \<longrightarrow>
        (\<exists>k. sd_keys data key_id = Some k \<and> ck_api_key k = api_key))"

lemma store_wf_set_key:
  assumes "store_wf (ks_data st)" "get_key st key_id = Some k" "ck_key_id k' = ck_key_id k" "ck_api_key k' = ck_api_key k"
  shows "store_wf (ks_data (store_key key_id k' st))"
proof -
  have "ck_key_id k = key_id" "sd_index (ks_data st) (ck_api_key k) = Some key_id"
    using assms(1,2) by (auto simp: store_wf_def get_key_def)
  moreover have "ck_api_key k = api_key" if "sd_index (ks_data st) api_key = Some key_id" for api_key
    using assms(1,2) that unfolding store_wf_def get_key_def by (metis option.inject)
  ultimately show ?thesis using assms unfolding store_wf_def get_key_def store_key_def
    by (simp split: if_splits)
qed

section \<open>The calendar\<close>

text \<open>The day of a date, the inverse of \<open>civil_from_days\<close>.\<close>

definition days_from_civil :: "int \<times> int \<times> int \<Rightarrow> int" where
  "days_from_civil ymd =
     (case ymd of (y0, m, d) \<Rightarrow>
        (let y = (if m \<le> 2 then y0 - 1 else y0);
             yoe = y mod 400;
             mp = (if m > 2 then m - 3 else m + 9);
             doy = (153 * mp + 2) div 5 + d - 1
         in y div 400 * 146097 + (yoe * 365 + yoe div 4 - yoe div 100 + doy) - 719468))"

lemma div_parts:
  assumes "0 < (b :: int)"
  obtains t where "a = b * (a div b) + t" "0 \<le> t" "t < b"
  using that [of "a mod b"] assms by simp

text \<open>The year of an era and the day of that year stay in their ranges.\<close>

lemma era_year:
  assumes "0 \<le> doe" "doe < (146097 :: int)"
  shows "0 \<le> (doe - doe div 1460 + doe div 36524 - doe div 146096) div 365 \<and>
         (doe - doe div 1460 + doe div 36524 - doe div 146096) div 365 \<le> 399 \<and>
         0 \<le> doe - (365 * ((doe - doe div 1460 + doe div 36524 - doe div 146096) div 365)
               + (doe - doe div 1460 + doe div 36524 - doe div 146096) div 365 div 4
               - (doe - doe div 1460 + doe div 36524 - doe div 146096) div 365 div 100) \<and>
         doe - (365 * ((doe - doe div 1460 + doe div 36524 - doe div 146096) div 365)
               + (doe - doe div 1460 + doe div 36524 - doe div 146096) div 365 div 4
               - (doe - doe div 1460 + doe div 36524 - doe div 146096) div 365 div 100) \<le> 365"
proof (cases "doe = 146096")
  case True
  then show ?thesis by simp
next
  case False
  define b where "b = doe div 36524"
  obtain u where doe: "doe = 36524 * b + u" and u: "0 \<le> u" "u < 36524" unfolding b_def by (rule div_parts [of 36524 doe]) simp_all
  have b: "0 \<le> b" "b \<le> 3" using assms False doe u by linarith+
  define w where "w = (24 * b + u) div 1460"
  obtain t where w: "24 * b + u = 1460 * w + t" and t: "0 \<le> t" "t < 1460" unfolding w_def by (rule div_parts [of 1460 "24 * b + u"]) simp_all
  have "0 \<le> w" "w \<le> 25" using w t b u by linarith+
  note w = w this
  have a: "doe div 1460 = 25 * b + w" by (rule int_div_pos_eq [of _ _ _ t]) (use doe w t in simp_all)
  have c: "doe div 146096 = 0" using assms False by (intro div_pos_pos_trivial) simp_all
  define v where "v = u - w"
  have v: "0 \<le> v" "v < 36500" using w t b u unfolding v_def by linarith+
  have g: "doe - doe div 1460 + doe div 36524 - doe div 146096 = 36500 * b + v"
    unfolding a c b_def [symmetric] using doe by (simp add: v_def)
  define y where "y = v div 365"
  obtain s where ys: "v = 365 * y + s" "0 \<le> s" "s < 365" unfolding y_def by (rule div_parts [of 365 v]) simp_all
  have y: "0 \<le> y" "y \<le> 99" using ys v by linarith+
  define h where "h = y div 4"
  obtain r where h: "y = 4 * h + r" "0 \<le> r" "r < 4" unfolding h_def by (rule div_parts [of 4 y]) simp_all
  have yoe: "(36500 * b + v) div 365 = 100 * b + y" by (rule int_div_pos_eq [of _ _ _ s]) (use ys in simp_all)
  have q4: "(100 * b + y) div 4 = 25 * b + h" by (rule int_div_pos_eq [of _ _ _ r]) (use h in simp_all)
  have q100: "(100 * b + y) div 100 = b" by (rule int_div_pos_eq [of _ _ _ y]) (use y in simp_all)
  have doy: "doe - (365 * (100 * b + y) + (25 * b + h) - b) = s + (w - h)"
    using doe ys(1) v_def by simp
  have "0 \<le> w - h" "w - h \<le> 1" using w t b ys h v_def by linarith+
  then show ?thesis unfolding g yoe q4 q100 doy using ys y b by simp
qed

lemma civil_parts:
  assumes "- 719468 \<le> z"
  obtains era yoe doy mp where
    "civil_from_days z =
      (if (if mp < 10 then mp + 3 else mp - 9) \<le> 2 then yoe + era * 400 + 1 else yoe + era * 400,
       if mp < 10 then mp + 3 else mp - 9, doy - (153 * mp + 2) div 5 + 1)"
    "z + 719468 = era * 146097 + (365 * yoe + yoe div 4 - yoe div 100 + doy)"
    "0 \<le> era" "0 \<le> yoe" "yoe \<le> 399" "0 \<le> mp" "mp \<le> 11" "(153 * mp + 2) div 5 \<le> doy"
proof -
  define n where "n = z + 719468"
  define era where "era = n div 146097"
  define doe where "doe = n - era * 146097"
  define yoe where "yoe = (doe - doe div 1460 + doe div 36524 - doe div 146096) div 365"
  define doy where "doy = doe - (365 * yoe + yoe div 4 - yoe div 100)"
  define mp where "mp = (5 * doy + 2) div 153"
  have n: "0 \<le> n" using assms by (simp add: n_def)
  have "doe = n mod 146097" by (simp add: doe_def era_def minus_div_mult_eq_mod)
  then have "0 \<le> doe" "doe < 146097" by simp_all
  from era_year [OF this] have y: "0 \<le> yoe" "yoe \<le> 399" and doy: "0 \<le> doy" "doy \<le> 365"
    unfolding yoe_def [symmetric] doy_def [symmetric] by blast+
  obtain t where t: "5 * doy + 2 = 153 * mp + t" "0 \<le> t" "t < 153" unfolding mp_def by (rule div_parts [of 153 "5 * doy + 2"]) simp_all
  with doy have mp: "0 \<le> mp" "mp \<le> 11" by linarith+
  have "(153 * mp + 2) div 5 \<le> doy" by (rule div_parts [of 5 "153 * mp + 2"]) (use t in linarith)+
  have sd: "n sdiv 146097 = era" using n by (cases "n = 0") (simp_all add: era_def signed_divide_int_def)
  have "civil_from_days z =
      (if (if mp < 10 then mp + 3 else mp - 9) \<le> 2 then yoe + era * 400 + 1 else yoe + era * 400,
       if mp < 10 then mp + 3 else mp - 9, doy - (153 * mp + 2) div 5 + 1)"
    unfolding civil_from_days_def Let_def n_def [symmetric] if_P [OF n] sd doe_def [symmetric] yoe_def [symmetric]
      doy_def [symmetric] mp_def [symmetric] by (rule refl)
  moreover have "0 \<le> era" using n by (simp add: era_def pos_imp_zdiv_nonneg_iff)
  moreover have "z + 719468 = era * 146097 + (365 * yoe + yoe div 4 - yoe div 100 + doy)"
    by (simp add: doy_def doe_def n_def)
  ultimately show thesis using that y mp \<open>(153 * mp + 2) div 5 \<le> doy\<close> by blast
qed

lemma civil_inverse:
  assumes "- 719468 \<le> z"
  shows "days_from_civil (civil_from_days z) = z"
  using assms
proof (rule civil_parts)
  fix era yoe doy mp :: int
  assume c: "civil_from_days z =
      (if (if mp < 10 then mp + 3 else mp - 9) \<le> 2 then yoe + era * 400 + 1 else yoe + era * 400,
       if mp < 10 then mp + 3 else mp - 9, doy - (153 * mp + 2) div 5 + 1)"
    and z: "z + 719468 = era * 146097 + (365 * yoe + yoe div 4 - yoe div 100 + doy)"
    and b: "0 \<le> yoe" "yoe \<le> 399" "0 \<le> mp" "mp \<le> 11"
  have "(yoe + era * 400) div 400 = era" "(yoe + era * 400) mod 400 = yoe" using b by simp_all
  then show ?thesis using b z unfolding c by (simp add: days_from_civil_def Let_def)
qed

text \<open>The printed date determines its numbers.\<close>

lemma undec_zeros: "undec (replicate k CHR ''0'' @ s) = undec s"
  by (induction k) (simp_all add: undec_def)

lemma pad0_digits: "0 \<le> n \<Longrightarrow> c \<in> set (pad0 w n) \<Longrightarrow> is_digit c"
  by (auto simp: pad0_def Let_def is_digit_def dest: dec_digits)

lemma pad0_inject: "0 \<le> m \<Longrightarrow> 0 \<le> n \<Longrightarrow> pad0 w m = pad0 w n \<longleftrightarrow> m = n"
proof
  assume mn: "0 \<le> m" "0 \<le> n" and "pad0 w m = pad0 w n"
  then have "undec (pad0 w m) = undec (pad0 w n)" by simp
  with mn show "m = n" by (simp add: pad0_def Let_def undec_zeros undec_dec)
qed simp

lemma dash_not_digit: "0 \<le> n \<Longrightarrow> CHR ''-'' \<notin> set (pad0 w n)"
  using pad0_digits [of n "CHR ''-''" w] by (auto simp: is_digit_def)

lemma date_string_inject:
  assumes "0 \<le> y" "y < 2 ^ 31" "0 \<le> m" "0 \<le> d" "0 \<le> y'" "y' < 2 ^ 31" "0 \<le> m'" "0 \<le> d'"
  shows "date_string (y, m, d) = date_string (y', m', d') \<longleftrightarrow> (y, m, d) = (y', m', d')"
proof -
  have "sint (of_int y :: u32) = y" "sint (of_int y' :: u32) = y'"
    using assms by (simp_all add: sint_sbintrunc' signed_take_bit_int_eq_self)
  then have *: "date_string (y, m, d) = pad0 4 y @ CHR ''-'' # pad0 2 m @ CHR ''-'' # pad0 2 d"
    "date_string (y', m', d') = pad0 4 y' @ CHR ''-'' # pad0 2 m' @ CHR ''-'' # pad0 2 d'"
    by (simp_all add: date_string_def)
  show ?thesis
  proof
    assume "date_string (y, m, d) = date_string (y', m', d')"
    then have "pad0 4 y = pad0 4 y'" "pad0 2 m @ CHR ''-'' # pad0 2 d = pad0 2 m' @ CHR ''-'' # pad0 2 d'"
      unfolding * using append_sep_inject [of "CHR ''-''" "pad0 4 y" "pad0 4 y'"] assms dash_not_digit by blast+
    moreover from this(2) have "pad0 2 m = pad0 2 m'" "pad0 2 d = pad0 2 d'"
      using append_sep_inject [of "CHR ''-''" "pad0 2 m" "pad0 2 m'"] assms dash_not_digit by blast+
    ultimately show "(y, m, d) = (y', m', d')" using assms by (simp add: pad0_inject)
  qed simp
qed

text \<open>The parts of a date; years grow with the days.\<close>

lemma civil_range:
  assumes "0 \<le> z" "civil_from_days z = (y, m, d)"
  shows "0 \<le> y \<and> 1 \<le> m \<and> m \<le> 12 \<and> 1 \<le> d \<and> y * 365 \<le> z + 719833"
proof -
  have "- 719468 \<le> z" using assms(1) by simp
  then show ?thesis
  proof (rule civil_parts)
    fix era yoe doy mp :: int
    assume c: "civil_from_days z =
        (if (if mp < 10 then mp + 3 else mp - 9) \<le> 2 then yoe + era * 400 + 1 else yoe + era * 400,
         if mp < 10 then mp + 3 else mp - 9, doy - (153 * mp + 2) div 5 + 1)"
      and z: "z + 719468 = era * 146097 + (365 * yoe + yoe div 4 - yoe div 100 + doy)"
      and b: "0 \<le> era" "0 \<le> yoe" "yoe \<le> 399" "0 \<le> mp" "mp \<le> 11" "(153 * mp + 2) div 5 \<le> doy"
    have "yoe div 100 \<le> yoe div 4" using b(2) by (intro zdiv_mono2) simp_all
    moreover have "0 \<le> (153 * mp + 2) div 5" using b(4) by (simp add: pos_imp_zdiv_nonneg_iff)
    ultimately show ?thesis using c z b assms(2) by (auto split: if_splits)
  qed
qed

lemma today_string_eq_iff:
  assumes "unat s < 2 ^ 55" "unat s' < 2 ^ 55"
  shows "today_string s = today_string s' \<longleftrightarrow> unat s div 86400 = unat s' div 86400"
proof
  define z where "z t = 719163 + int (unat (t :: u64) div 86400)" for t
  obtain y m d where c: "civil_from_days (z s) = (y, m, d)" by (cases "civil_from_days (z s)")
  obtain y' m' d' where c': "civil_from_days (z s') = (y', m', d')" by (cases "civil_from_days (z s')")
  have bound: "z t < 2 ^ 39" if "unat t < 2 ^ 55" for t
  proof -
    have "unat t div 86400 < 2 ^ 39 - 719163" using that by (simp add: div_less_iff_less_mult)
    then show ?thesis unfolding z_def by simp
  qed
  have z: "0 \<le> z s" "0 \<le> z s'" by (simp_all add: z_def)
  note range = civil_range [OF z(1) c] civil_range [OF z(2) c']
  have b: "0 \<le> y" "0 \<le> m" "0 \<le> d" "0 \<le> y'" "0 \<le> m'" "0 \<le> d'" using range by linarith+
  have l: "y < 2 ^ 31" "y' < 2 ^ 31" using range bound [OF assms(1)] bound [OF assms(2)] by simp_all
  have t: "today_string s = date_string (y, m, d)" "today_string s' = date_string (y', m', d')"
    using c c' by (simp_all only: today_string_def z_def)
  assume "today_string s = today_string s'"
  then have "(y, m, d) = (y', m', d')" unfolding t by (rule date_string_inject [OF b(1) l(1) b(2,3,4) l(2) b(5,6), THEN iffD1])
  then have "civil_from_days (z s) = civil_from_days (z s')" using c c' by simp
  moreover have "- 719468 \<le> z s" "- 719468 \<le> z s'" using z by linarith+
  ultimately have "z s = z s'" using civil_inverse by metis
  then show "unat s div 86400 = unat s' div 86400" by (simp add: z_def)
qed (simp add: today_string_def)

section \<open>Costs\<close>

lemma per_million_finite: "finite_f64 (per_million n)" "\<not> f64_neg (per_million n)"
proof -
  have "unat n < 2 ^ 64" using unsigned_less [of n, where ?'a = nat] by simp
  note n = f64_of_nat_finite [OF this]
  have m: "finite_f64 f64_million" "2 \<le> f64_val f64_million" "\<not> f64_neg f64_million"
    by (simp_all add: finite_mag f64_mag_def f64_inf_mag_def f64_val_def f64_neg_def rat_pow2_def)
  show "finite_f64 (per_million n)" "\<not> f64_neg (per_million n)"
    unfolding per_million_def using f64_div_finite [OF n(1) m(1,2)] n(2) m(3) by simp_all
qed

text \<open>A model that has no price costs nothing.\<close>

lemma unpriced_cost:
  assumes "pricing model = None" "finite_f64 markup_pct"
  shows "calculate_marked_up_cost model input output cache pricing markup_pct = (0, 0)"
proof -
  have "calculate_cost model input output cache pricing = 0"
    by (simp add: calculate_cost_def assms(1) unwrap_or_def f64_mul_zero per_million_finite)
  moreover have "f64_add 0 (f64_mul 0 (f64_div markup_pct f64_hundred)) = 0"
  proof -
    have "finite_f64 f64_hundred" "2 \<le> f64_val f64_hundred"
      by (simp_all add: finite_mag f64_mag_def f64_inf_mag_def f64_val_def f64_neg_def rat_pow2_def)
    from f64_div_finite(1) [OF assms(2) this] show ?thesis by (simp add: f64_mul_zero(2))
  qed
  ultimately show ?thesis by (simp add: calculate_marked_up_cost_def)
qed

end
