(* ===== verification/Json.thy ===== *)
theory Json
  imports Rust_Std
begin

text \<open>
  The values of the \<^verbatim>\<open>serde_json\<close> crate, with the accessors the program uses; their text is a
  parameter of the components that print or read it.
\<close>

section \<open>JSON values\<close>

text \<open>A number that is not a \<^verbatim>\<open>u64\<close> is kept as its text.\<close>

datatype json =
    JNull | JBool bool | JNumber u64 | JOtherNumber string | JString string | JArray "json list"
  | JObject "(string \<times> json) list"

definition json_object :: "(string \<times> json) list \<Rightarrow> json" where
  "json_object kvs = JObject (foldl (\<lambda>m (k, v). bt_insert k v m) [] kvs)"

fun json_get :: "string \<Rightarrow> json \<Rightarrow> json option" where
  "json_get k (JObject m) = bt_get m k"
| "json_get k _ = None"

fun as_str :: "json \<Rightarrow> string option" where
  "as_str (JString s) = Some s"
| "as_str _ = None"

fun as_u64 :: "json \<Rightarrow> u64 option" where
  "as_u64 (JNumber n) = Some n"
| "as_u64 _ = None"

definition json_opt_str :: "string option \<Rightarrow> json" where
  "json_opt_str v = (case v of None \<Rightarrow> JNull | Some s \<Rightarrow> JString s)"

end
