(* ===== verification/Funding.thy ===== *)
theory Funding
  imports Api_Keys Float64_Laws Json
begin

text \<open>
  How balances are topped up: \<^verbatim>\<open>src/halo/funding.rs\<close>, the form of transaction hashes of
  \<^verbatim>\<open>src/halo/x402.rs\<close> and the endpoint of \<^verbatim>\<open>src/dashboard/api.rs\<close>.  The secret of the webhook, the HMAC, the
  printing of doubles with six decimals, the parser of big numbers, the node of the chain and the
  simulation switch are the fields of \<open>funding_env\<close>.
\<close>

section \<open>Sources\<close>

datatype FundingSource =
    AgentpmtTokens string f64 string
  | X402Direct string u64 string
  | OperatorCredit string

record FundingValidation =
  fv_valid :: bool
  fv_amount :: f64
  fv_type :: string
  fv_receipt :: "string option"
  fv_error :: "string option"

record funding_env =
  fe_secret :: "string option"
  fe_hmac :: "bytes \<Rightarrow> bytes \<Rightarrow> bytes"
  fe_fixed6 :: "f64 \<Rightarrow> string"
  fe_parse_big :: "string \<Rightarrow> nat option"
  fe_base_url :: "string option"
  fe_sepolia_url :: "string option"
  fe_rpc :: "string \<Rightarrow> string \<Rightarrow> string + json"
  fe_simulation :: bool

definition is_valid_tx_hash :: "string \<Rightarrow> bool" where
  "is_valid_tx_hash h \<longleftrightarrow> length h = 66 \<and> starts_with h ''0x'' \<and> list_all is_hex_char (drop 2 h)"

section \<open>Signatures\<close>

definition agentpmt_signature_message :: "funding_env \<Rightarrow> string \<Rightarrow> f64 \<Rightarrow> string \<Rightarrow> string" where
  "agentpmt_signature_message env receipt_id amount key_id =
     receipt_id @ CHR ''|'' # fe_fixed6 env amount @ CHR ''|'' # key_id"

definition verify_hmac :: "funding_env \<Rightarrow> string \<Rightarrow> string \<Rightarrow> string \<Rightarrow> string \<Rightarrow> string \<Rightarrow> string + unit" where
  "verify_hmac env unset mismatch message signature_hex secret_name =
     (case fe_secret env of
        None \<Rightarrow> Err (secret_name @ unset)
      | Some secret \<Rightarrow>
          (case hex_decode signature_hex of
             Inl e \<Rightarrow> Err e
           | Inr sig \<Rightarrow> if sig = fe_hmac env secret message then Ok () else Err mismatch))"

definition verify_agentpmt_signature :: "funding_env \<Rightarrow> string \<Rightarrow> f64 \<Rightarrow> string \<Rightarrow> string \<Rightarrow> string + unit" where
  "verify_agentpmt_signature env receipt_id amount key_id signature_hex =
     verify_hmac env '' not configured'' ''HMAC signature verification failed''
       (agentpmt_signature_message env receipt_id amount key_id) signature_hex ''AGENTPMT_WEBHOOK_SECRET''"

fun webhook_message :: "funding_env \<Rightarrow> string \<Rightarrow> FundingSource \<Rightarrow> f64 option \<Rightarrow> string" where
  "webhook_message env key_id (AgentpmtTokens receipt_id amount signature) _ =
     ''fund|'' @ key_id @ ''|agentpmt_tokens|'' @ receipt_id @ CHR ''|'' # fe_fixed6 env amount @ CHR ''|'' # signature"
| "webhook_message env key_id (X402Direct hash units network) _ =
     ''fund|'' @ key_id @ ''|x402_direct|'' @ hash @ CHR ''|'' # show_u64 units @ CHR ''|'' # network"
| "webhook_message env key_id (OperatorCredit reason) amount =
     ''fund|'' @ key_id @ ''|operator_credit|'' @ fe_fixed6 env (unwrap_or amount 0) @ CHR ''|'' # reason"

definition verify_webhook_signature ::
  "funding_env \<Rightarrow> string \<Rightarrow> FundingSource \<Rightarrow> f64 option \<Rightarrow> string \<Rightarrow> string + unit" where
  "verify_webhook_signature env key_id source amount signature_header =
     verify_hmac env '' not configured; webhook verification disabled'' ''webhook signature verification failed''
       (webhook_message env key_id source amount) signature_header ''AGENTPMT_WEBHOOK_SECRET''"

section \<open>Transactions on the chain\<close>

abbreviation TRANSFER_TOPIC :: string where
  "TRANSFER_TOPIC \<equiv> ''0xddf252ad1be2c89b69c2b068fc378daa952ba7f163c4a11628f55a4df523b3ef''"

definition parse_evm_uint256_hex :: "funding_env \<Rightarrow> string \<Rightarrow> nat option" where
  "parse_evm_uint256_hex env data =
     (let hex = strip_0x data
      in if hex = [] then None
         else (let trimmed = dropWhile (\<lambda>c. c = CHR ''0'') hex
               in if trimmed = [] then Some 0 else fe_parse_big env trimmed))"

fun as_array :: "json \<Rightarrow> json list option" where
  "as_array (JArray xs) = Some xs"
| "as_array _ = None"

definition first_elem :: "'a list \<Rightarrow> 'a option" where
  "first_elem xs = (case xs of [] \<Rightarrow> None | x # _ \<Rightarrow> Some x)"

definition log_topic0 :: "json \<Rightarrow> string option" where
  "log_topic0 l = Option.bind (Option.bind (Option.bind (json_get ''topics'' l) as_array) first_elem) as_str"

fun transfer_loop :: "funding_env \<Rightarrow> nat \<Rightarrow> json list \<Rightarrow> bool" where
  "transfer_loop env expected [] = False"
| "transfer_loop env expected (l # ls) =
     (if map_option (\<lambda>t. eq_ignore_ascii_case t TRANSFER_TOPIC) (log_topic0 l) \<noteq> Some True
      then transfer_loop env expected ls
      else (case parse_evm_uint256_hex env (unwrap_or (Option.bind (json_get ''data'' l) as_str) []) of
              None \<Rightarrow> transfer_loop env expected ls
            | Some amount \<Rightarrow> amount \<ge> expected \<or> transfer_loop env expected ls))"

definition verify_x402_transaction :: "funding_env \<Rightarrow> string \<Rightarrow> u64 \<Rightarrow> string \<Rightarrow> string + unit" where
  "verify_x402_transaction env hash expected network =
     (let rpc_url =
        (if network = ''base'' then Some (unwrap_or (fe_base_url env) ''https://mainnet.base.org'')
         else if network = ''base-sepolia'' then Some (unwrap_or (fe_sepolia_url env) ''https://sepolia.base.org'')
         else None)
      in case rpc_url of
           None \<Rightarrow> Err (''unsupported network: '' @ network)
         | Some url \<Rightarrow>
             (case fe_rpc env url hash of
                Inl e \<Rightarrow> Err e
              | Inr body \<Rightarrow>
                  (case json_get ''result'' body of
                     None \<Rightarrow> Err ''eth_getTransactionReceipt missing result''
                   | Some receipt \<Rightarrow>
                       if receipt = JNull then Err ''transaction not found (not yet mined or invalid hash)''
                       else if unwrap_or (Option.bind (json_get ''status'' receipt) as_str) ''0x0'' \<noteq> ''0x1''
                       then Err ''transaction reverted on-chain''
                       else (case Option.bind (json_get ''logs'' receipt) as_array of
                               None \<Rightarrow> Err ''transaction receipt missing logs array''
                             | Some logs \<Rightarrow>
                                 if transfer_loop env (unat expected) logs then Ok ()
                                 else Err ''USDC transfer not found in transaction logs''))))"

section \<open>Validation\<close>

definition invalid :: "string \<Rightarrow> string option \<Rightarrow> string \<Rightarrow> FundingValidation" where
  "invalid ty receipt e =
     \<lparr>fv_valid = False, fv_amount = 0, fv_type = ty, fv_receipt = receipt, fv_error = Some e\<rparr>"

fun validate_funding_source :: "funding_env \<Rightarrow> FundingSource \<Rightarrow> string \<Rightarrow> FundingValidation" where
  "validate_funding_source env (AgentpmtTokens receipt_id amount signature) key_id =
     (if receipt_id = [] then invalid ''agentpmt_tokens'' None ''receipt_id is required''
      else if f64_le amount 0 then invalid ''agentpmt_tokens'' (Some receipt_id) ''amount_usd must be positive''
      else if signature = [] then
        invalid ''agentpmt_tokens'' (Some receipt_id) ''signature is required for AgentPMT funding''
      else (case verify_agentpmt_signature env receipt_id amount key_id signature of
              Inl e \<Rightarrow> invalid ''agentpmt_tokens'' (Some receipt_id) (''AgentPMT signature check error: '' @ e)
            | Inr _ \<Rightarrow> \<lparr>fv_valid = True, fv_amount = amount, fv_type = ''agentpmt_tokens'',
                       fv_receipt = Some receipt_id, fv_error = None\<rparr>))"
| "validate_funding_source env (X402Direct hash units network) key_id =
     (if \<not> is_valid_tx_hash hash then invalid ''x402_direct'' None ''invalid transaction hash format''
      else if units = 0 then invalid ''x402_direct'' (Some hash) ''amount must be > 0''
      else if network \<noteq> ''base'' \<and> network \<noteq> ''base-sepolia'' then
        invalid ''x402_direct'' (Some hash) (''unsupported network: '' @ network)
      else (let accepted = \<lparr>fv_valid = True, fv_amount = f64_div (f64_of_nat (unat units)) f64_million,
                            fv_type = ''x402_direct'', fv_receipt = Some hash, fv_error = None\<rparr>
            in case verify_x402_transaction env hash units network of
                 Inl e \<Rightarrow> if fe_simulation env then accepted
                          else invalid ''x402_direct'' (Some hash) (''on-chain verification failed: '' @ e)
               | Inr _ \<Rightarrow> accepted))"
| "validate_funding_source env (OperatorCredit reason) key_id =
     (if reason = [] then invalid ''operator_credit'' None ''reason is required for operator credits''
      else \<lparr>fv_valid = True, fv_amount = 0, fv_type = ''operator_credit'', fv_receipt = None, fv_error = None\<rparr>)"

fun is_customer_funding_source :: "FundingSource \<Rightarrow> bool" where
  "is_customer_funding_source (OperatorCredit _) = False"
| "is_customer_funding_source _ = True"

section \<open>The ledger and the endpoint\<close>

record FundingLedgerEntry =
  fl_key_id :: string
  fl_source :: FundingSource
  fl_amount :: f64
  fl_balance_after :: f64
  fl_timestamp :: u64

record funds =
  fn_store :: CustomerKeyStore
  fn_ledger :: "FundingLedgerEntry list"

definition record_funding :: "bool \<Rightarrow> FundingLedgerEntry \<Rightarrow> FundingLedgerEntry list \<Rightarrow> FundingLedgerEntry list" where
  "record_funding disk entry ledger = (if disk then ledger @ [entry] else ledger)"

definition create_ledger_entry :: "u64 \<Rightarrow> string \<Rightarrow> FundingSource \<Rightarrow> f64 \<Rightarrow> f64 \<Rightarrow> FundingLedgerEntry" where
  "create_ledger_entry now key_id source amount balance_after =
     \<lparr>fl_key_id = key_id, fl_source = source, fl_amount = amount, fl_balance_after = balance_after,
      fl_timestamp = now\<rparr>"

record FundBalanceRequest =
  fr_source :: FundingSource
  fr_amount :: "f64 option"

record FundBalanceResponse =
  fp_key_id :: string
  fp_funded :: f64
  fp_balance :: f64
  fp_type :: string
  fp_receipt :: "string option"

text \<open>Who may fund: the administrator for credits, the holder of the secret for the rest.\<close>

definition authorize_funding ::
  "funding_env \<Rightarrow> bool \<Rightarrow> string \<Rightarrow> string option \<Rightarrow> FundBalanceRequest \<Rightarrow> ApiError + unit" where
  "authorize_funding env auth key_id header req =
     (if \<not> is_customer_funding_source (fr_source req) then (if auth then Ok () else Err auth_required)
      else (let sig = unwrap_or (map_option trim header) []
            in if sig = [] then Err (Unauthorized ''missing X-AgentPMT-Signature header'')
               else (case verify_webhook_signature env key_id (fr_source req) (fr_amount req) sig of
                       Inl e \<Rightarrow> Err (Unauthorized e)
                     | Inr _ \<Rightarrow> Ok ())))"

definition api_admin_fund_balance ::
  "funding_env \<Rightarrow> bool \<Rightarrow> bool \<Rightarrow> u64 \<Rightarrow> string \<Rightarrow> string option \<Rightarrow> FundBalanceRequest \<Rightarrow> funds \<Rightarrow>
    funds \<times> (ApiError + FundBalanceResponse)" where
  "api_admin_fund_balance env auth disk now key_id header req fs =
     (case authorize_funding env auth key_id header req of
        Inl e \<Rightarrow> (fs, Err e)
      | Inr _ \<Rightarrow>
          (let validation = validate_funding_source env (fr_source req) key_id;
               amount = (case fr_source req of
                           OperatorCredit _ \<Rightarrow> f64_max (unwrap_or (fr_amount req) 0) 0
                         | _ \<Rightarrow> fv_amount validation)
           in if \<not> fv_valid validation then
                (fs, Err (BadRequest (unwrap_or (fv_error validation) ''invalid funding source'')))
              else if f64_le amount 0 then (fs, Err (BadRequest ''funding amount must be positive''))
              else if get_key (fn_store fs) key_id = None then (fs, Err (NotFound ''key not found''))
              else (case add_balance disk key_id amount (fn_store fs) of
                      (st', new_balance) \<Rightarrow>
                        (\<lparr>fn_store = st',
                          fn_ledger = record_funding disk
                            (create_ledger_entry now key_id (fr_source req) amount new_balance) (fn_ledger fs)\<rparr>,
                         Ok \<lparr>fp_key_id = key_id, fp_funded = amount, fp_balance = new_balance,
                             fp_type = fv_type validation, fp_receipt = fv_receipt validation\<rparr>))))"

section \<open>What a request does\<close>

text \<open>The amount a request is worth, \<open>None\<close> when it is refused; it does not depend on the state.\<close>

definition request_amount ::
  "funding_env \<Rightarrow> bool \<Rightarrow> string \<Rightarrow> string option \<Rightarrow> FundBalanceRequest \<Rightarrow> f64 option" where
  "request_amount env auth key_id header req =
     (let validation = validate_funding_source env (fr_source req) key_id;
          amount = (case fr_source req of
                      OperatorCredit _ \<Rightarrow> f64_max (unwrap_or (fr_amount req) 0) 0
                    | _ \<Rightarrow> fv_amount validation)
      in if is_ok (authorize_funding env auth key_id header req) \<and> fv_valid validation \<and> \<not> f64_le amount 0
         then Some amount else None)"

lemma fund_balance_cases:
  assumes "api_admin_fund_balance env auth disk now key_id header req fs = (fs', res)"
  shows "(case res of
      Inl _ \<Rightarrow> fs' = fs \<and> (request_amount env auth key_id header req = None \<or> get_key (fn_store fs) key_id = None)
    | Inr r \<Rightarrow> \<exists>k. get_key (fn_store fs) key_id = Some k \<and>
        request_amount env auth key_id header req = Some (fp_funded r) \<and>
        fp_balance r = f64_add (ck_balance k) (fp_funded r) \<and>
        get_key (fn_store fs') = (get_key (fn_store fs))(key_id \<mapsto> k\<lparr>ck_balance := fp_balance r\<rparr>) \<and>
        (disk \<longrightarrow> fn_ledger fs' = fn_ledger fs @ [create_ledger_entry now key_id (fr_source req) (fp_funded r) (fp_balance r)]))"
  using assms
  by (auto simp: api_admin_fund_balance_def request_amount_def Let_def add_balance_def record_funding_def
      split: sum.splits if_splits option.splits prod.splits)

lemma fund_balance_ok:
  assumes "request_amount env auth key_id header req = Some amount" "get_key (fn_store fs) key_id = Some k"
  shows "\<exists>fs' r. api_admin_fund_balance env auth disk now key_id header req fs = (fs', Ok r) \<and> fp_funded r = amount"
proof -
  obtain fs' res where c: "api_admin_fund_balance env auth disk now key_id header req fs = (fs', res)" by fastforce
  from fund_balance_cases [OF c] assms show ?thesis by (cases res) (auto simp: c)
qed

text \<open>The check of a transaction reads the topic and the data of a log, nothing else.\<close>

lemma transfer_loop_iff:
  "transfer_loop env expected logs \<longleftrightarrow>
    (\<exists>l \<in> set logs. \<exists>t amount. log_topic0 l = Some t \<and> eq_ignore_ascii_case t TRANSFER_TOPIC \<and>
       parse_evm_uint256_hex env (unwrap_or (Option.bind (json_get ''data'' l) as_str) []) = Some amount \<and> expected \<le> amount)"
  by (induction logs) (auto split: option.splits)

end
