(* ===== verification/Topology.thy ===== *)
theory Topology
  imports Rust_Std Float64
begin

text \<open>
  Fingerprints of binaries and their comparison, \<^verbatim>\<open>src/halo/topo_signature.rs\<close>, and the inspection of
  an agent's binary before a launch, \<^verbatim>\<open>inspect_binary_topology\<close> of \<^verbatim>\<open>src/cockpit/deploy.rs\<close>.  The
  database is the map of the topology records it holds, which no other code writes; SHA-256 in hexadecimal is a parameter.
\<close>

section \<open>Fingerprints\<close>

definition nat_dist_u8 :: "char \<Rightarrow> char \<Rightarrow> nat" where
  "nat_dist_u8 a b = (if code a < code b then code b - code a else code a - code b)"

definition detected_loop_at :: "bytes \<Rightarrow> nat \<Rightarrow> nat \<Rightarrow> bool" where
  "detected_loop_at data i tol =
     (if length data \<le> i + 3 then False
      else
        let a = data ! i; b = data ! (i + 1); c = data ! (i + 2); d = data ! (i + 3);
            close = (nat_dist_u8 a d \<le> tol);
            middle_far = (tol < nat_dist_u8 a b \<or> tol < nat_dist_u8 a c)
        in close \<and> middle_far)"

definition betti1_heuristic :: "bytes \<Rightarrow> nat \<Rightarrow> nat" where
  "betti1_heuristic data tol = length (filter (\<lambda>i. detected_loop_at data i tol) [0..<length data])"

definition betti_error_bound_check :: "bytes \<Rightarrow> nat \<Rightarrow> nat \<Rightarrow> bool" where
  "betti_error_bound_check data tol proxy =
     (let heuristic = betti1_heuristic data tol; overlap = length data - 3 in heuristic \<le> proxy + overlap)"

record TopoSignature =
  ts_betti1 :: nat
  ts_data_len :: nat
  ts_tolerance :: nat
  ts_error_bound :: nat

record CompareResult =
  cr_within_formal_bound :: bool
  cr_absolute_difference :: nat
  cr_combined_error_bound :: nat
  cr_similarity_score :: f64
  cr_warning :: "string option"

definition fingerprint :: "bytes \<Rightarrow> nat \<Rightarrow> TopoSignature" where
  "fingerprint binary tolerance =
     \<lparr>ts_betti1 = betti1_heuristic binary tolerance, ts_data_len = length binary, ts_tolerance = tolerance,
      ts_error_bound = length binary - 3\<rparr>"

definition large_binary_warning :: string where
  "large_binary_warning =
     ''Betti bound is secondary evidence only for large binaries; retain SHA-256 as the primary authenticator.''"

definition compare :: "TopoSignature \<Rightarrow> TopoSignature \<Rightarrow> CompareResult" where
  "compare a b =
     (let absolute_difference = (if ts_betti1 a < ts_betti1 b then ts_betti1 b - ts_betti1 a else ts_betti1 a - ts_betti1 b);
          combined_error_bound = ts_error_bound a + ts_error_bound b;
          denominator = max (max (ts_betti1 a) (ts_betti1 b) + combined_error_bound) 1;
          similarity = f64_sub f64_one (f64_div (f64_of_nat absolute_difference) (f64_of_nat denominator));
          warning = (if 100 < max (ts_data_len a) (ts_data_len b) then Some large_binary_warning else None)
      in \<lparr>cr_within_formal_bound = (absolute_difference \<le> combined_error_bound),
          cr_absolute_difference = absolute_difference, cr_combined_error_bound = combined_error_bound,
          cr_similarity_score = f64_clamp similarity 0 f64_one, cr_warning = warning\<rparr>)"

section \<open>Inspection of a binary\<close>

record StoredTopoRecord =
  st_agent :: string
  st_cli_path :: string
  st_sha256 :: string
  st_signature :: TopoSignature
  st_observed_at :: u64

record DeployTopologyStatus =
  dt_cli_path :: string
  dt_sha256 :: string
  dt_signature :: TopoSignature
  dt_previous :: "StoredTopoRecord option"
  dt_comparison :: "CompareResult option"
  dt_hash_changed :: bool
  dt_structural_change :: bool
  dt_stored_key :: string
  dt_warning :: "string option"

type_synonym topo_db = "(string, StoredTopoRecord) btree_map"

text \<open>\<open>failure\<close> is what the commit or the snapshot reports; then the stored database is as before.\<close>

definition persist_topology_records ::
  "string option \<Rightarrow> string \<Rightarrow> string \<Rightarrow> StoredTopoRecord \<Rightarrow> topo_db \<Rightarrow> string + topo_db" where
  "persist_topology_records failure stored_key latest_key rec db =
     (let needs_hash = (bt_get db stored_key \<noteq> Some rec);
          needs_latest = (bt_get db latest_key \<noteq> Some rec);
          db1 = (if needs_hash then bt_insert stored_key rec db else db);
          db2 = (if needs_latest then bt_insert latest_key rec db1 else db1)
      in if \<not> needs_hash \<and> \<not> needs_latest then Ok db
         else (case failure of Some e \<Rightarrow> Err e | None \<Rightarrow> Ok db2))"

definition structural_warning :: string where
  "structural_warning =
     ''binary structure changed beyond the formal Betti overlap bound; keep SHA-256 as the primary authenticator and review the artifact diff.''"

definition latest_key :: "string \<Rightarrow> string" where
  "latest_key agent = ''topo:agent:'' @ agent @ '':latest''"

text \<open>The comparison of a binary with the record found, if one is found.\<close>

definition compare_with_previous ::
  "string \<Rightarrow> TopoSignature \<Rightarrow> StoredTopoRecord option \<Rightarrow> bool \<times> bool \<times> CompareResult option" where
  "compare_with_previous sha sig previous =
     (case previous of
        None \<Rightarrow> (False, False, None)
      | Some r \<Rightarrow>
          if st_sha256 r \<noteq> sha then
            let result = compare (st_signature r) sig in (True, \<not> cr_within_formal_bound result, Some result)
          else (False, False, None))"

definition inspect_binary_topology ::
  "(bytes \<Rightarrow> string) \<Rightarrow> u64 \<Rightarrow> string option \<Rightarrow> string \<Rightarrow> string \<Rightarrow> string + bytes \<Rightarrow> topo_db option \<Rightarrow>
    topo_db option \<times> (string + DeployTopologyStatus)" where
  "inspect_binary_topology sha256_hex now failure agent path content db =
     (case content of
        Inl e \<Rightarrow> (db, Err e)
      | Inr bytes \<Rightarrow>
          let sha = sha256_hex bytes; sig = fingerprint bytes 3; stored_key = ''topo:'' @ sha;
              previous = (case db of None \<Rightarrow> None | Some m \<Rightarrow> bt_get m (latest_key agent));
              (changed, flagged, comparison) = compare_with_previous sha sig previous;
              warning = (if flagged then Some structural_warning
                         else case comparison of None \<Rightarrow> None | Some c \<Rightarrow> cr_warning c);
              status = \<lparr>dt_cli_path = path, dt_sha256 = sha, dt_signature = sig, dt_previous = previous,
                        dt_comparison = comparison, dt_hash_changed = changed, dt_structural_change = flagged,
                        dt_stored_key = stored_key, dt_warning = warning\<rparr>;
              rec = \<lparr>st_agent = agent, st_cli_path = path, st_sha256 = sha, st_signature = sig, st_observed_at = now\<rparr>
          in case db of
               None \<Rightarrow> (None, Ok status)
             | Some m \<Rightarrow>
                 (case persist_topology_records failure stored_key (latest_key agent) rec m of
                    Inl e \<Rightarrow> (Some m, Err e)
                  | Inr m' \<Rightarrow> (Some m', Ok status)))"

section \<open>The bound is always met\<close>

lemma loop_needs_four: "detected_loop_at data i tol \<Longrightarrow> i < length data - 3"
  by (simp add: detected_loop_at_def Let_def split: if_splits)

lemma betti1_bounded: "betti1_heuristic data tol \<le> length data - 3"
proof -
  have "filter (\<lambda>i. detected_loop_at data i tol) [0..<length data] =
      filter (\<lambda>i. detected_loop_at data i tol) [0..<length data - 3]"
  proof -
    have "[0..<length data] = [0..<length data - 3] @ [length data - 3..<length data]"
      by (metis diff_le_self upt_add_eq_append le0 le_add_diff_inverse)
    moreover have "filter (\<lambda>i. detected_loop_at data i tol) [length data - 3..<length data] = []"
      using loop_needs_four by (force simp: filter_empty_conv)
    ultimately show ?thesis by simp
  qed
  then show ?thesis
    unfolding betti1_heuristic_def using length_filter_le [of _ "[0..<length data - 3]"] by simp
qed

lemma bound_check_holds: "betti_error_bound_check data tol proxy"
  using betti1_bounded [of data tol] by (simp add: betti_error_bound_check_def Let_def)

lemma compare_within: "cr_within_formal_bound (compare (fingerprint a t) (fingerprint b u))"
  using betti1_bounded [of a t] betti1_bounded [of b u] by (simp add: compare_def fingerprint_def Let_def) linarith

text \<open>The databases that inspections make of an empty one.\<close>

inductive inspected :: "(bytes \<Rightarrow> string) \<Rightarrow> topo_db option \<Rightarrow> bool" for sha256_hex where
  inspected_none: "inspected sha256_hex None"
| inspected_new: "inspected sha256_hex (Some [])"
| inspected_step: "inspected sha256_hex db \<Longrightarrow>
     inspected sha256_hex (fst (inspect_binary_topology sha256_hex now failure agent path content db))"

definition topo_ok :: "(bytes \<Rightarrow> string) \<Rightarrow> topo_db option \<Rightarrow> bool" where
  "topo_ok sha256_hex db \<longleftrightarrow> (\<forall>m k r. db = Some m \<and> bt_get m k = Some r \<longrightarrow>
     (\<exists>bytes. st_sha256 r = sha256_hex bytes \<and> st_signature r = fingerprint bytes 3))"

lemma persist_gets:
  assumes "persist_topology_records failure k1 k2 rec m = Ok m'" "bt_get m' k = Some r"
  shows "r = rec \<or> bt_get m k = Some r"
  using assms by (auto simp: persist_topology_records_def Let_def split: if_splits option.splits)

lemma inspected_ok: "inspected sha256_hex db \<Longrightarrow> topo_ok sha256_hex db"
proof (induction rule: inspected.induct)
  case (inspected_step db now failure agent path content)
  show ?case
  proof (cases "\<exists>bytes m. content = Ok bytes \<and> db = Some m")
    case True
    then obtain bytes m where f: "content = Ok bytes" "db = Some m" by blast
    let ?rec = "\<lparr>st_agent = agent, st_cli_path = path, st_sha256 = sha256_hex bytes,
        st_signature = fingerprint bytes 3, st_observed_at = now\<rparr>"
    have "fst (inspect_binary_topology sha256_hex now failure agent path content db) =
        (case persist_topology_records failure (''topo:'' @ sha256_hex bytes) (latest_key agent) ?rec m of
           Inl e \<Rightarrow> Some m | Inr m' \<Rightarrow> Some m')"
      by (simp add: inspect_binary_topology_def f Let_def split_beta split: sum.split)
    with inspected_step.IH f show ?thesis
      by (auto simp: topo_ok_def dest!: persist_gets split: sum.splits)
  next
    case False
    then have "fst (inspect_binary_topology sha256_hex now failure agent path content db) = db"
      by (cases content; cases db) (auto simp: inspect_binary_topology_def Let_def split_beta)
    with inspected_step.IH show ?thesis by simp
  qed
qed (simp_all add: topo_ok_def bt_get_def)

lemma inspection_never_flags:
  assumes "inspected sha256_hex db" "inspect_binary_topology sha256_hex now failure agent path content db = (db', Ok status)"
  shows "\<not> dt_structural_change status"
proof -
  obtain bytes where f: "content = Ok bytes" using assms(2) by (cases content) (auto simp: inspect_binary_topology_def)
  let ?p = "case db of None \<Rightarrow> None | Some m \<Rightarrow> bt_get m (latest_key agent)"
  have "dt_structural_change status = fst (snd (compare_with_previous (sha256_hex bytes) (fingerprint bytes 3) ?p))"
    using assms(2) f by (auto simp: inspect_binary_topology_def Let_def split_beta split: option.splits sum.splits)
  moreover have "\<not> fst (snd (compare_with_previous (sha256_hex bytes) (fingerprint bytes 3) ?p))"
  proof (cases ?p)
    case (Some r)
    then obtain m where "db = Some m" "bt_get m (latest_key agent) = Some r" by (cases db) auto
    with inspected_ok [OF assms(1)] obtain b where "st_signature r = fingerprint b 3" by (auto simp: topo_ok_def)
    with compare_within [of b 3 bytes 3] Some show ?thesis by (simp add: compare_with_previous_def Let_def)
  qed (simp add: compare_with_previous_def)
  ultimately show ?thesis by simp
qed

end
