(* ===== verification/Governor_Registry.thy ===== *)
theory Governor_Registry
  imports Governor Topology
begin

text \<open>
  The registry of governors, \<^verbatim>\<open>src/halo/governor_registry.rs\<close>, and the admission decision that
  reads it, \<^verbatim>\<open>src/halo/admission.rs\<close>.  The locks are not poisoned; the instances are kept in the
  order of their names, in which the snapshots are reported.
\<close>

section \<open>The registry\<close>

abbreviation SPARKLINE_CAPACITY :: nat where
  "SPARKLINE_CAPACITY \<equiv> 60"

record GovernorTelemetry =
  gt_signal :: f64
  gt_error :: f64
  gt_lyapunov :: f64
  gt_oscillating :: bool
  gt_clamp :: bool
  gt_sparkline :: "f64 list"
  gt_updated :: u64

definition telemetry_default :: GovernorTelemetry where
  "telemetry_default =
     \<lparr>gt_signal = 0, gt_error = 0, gt_lyapunov = 0, gt_oscillating = False, gt_clamp = False,
      gt_sparkline = [], gt_updated = 0\<rparr>"

record GovernorEntry =
  ge_state :: GovernorState
  ge_telemetry :: GovernorTelemetry

type_synonym GovernorRegistry = "(string, GovernorEntry) btree_map"

record GovernorObservation =
  ob_epsilon :: f64
  ob_error :: f64
  ob_lyapunov :: f64
  ob_oscillating :: bool

record GovernorSnapshot =
  gs_instance :: string
  gs_epsilon :: f64
  gs_target :: f64
  gs_signal :: f64
  gs_error :: f64
  gs_lyapunov :: f64
  gs_regime :: string
  gs_gamma :: "f64 option"
  gs_contraction :: "f64 option"
  gs_stable :: bool
  gs_oscillating :: bool
  gs_gain_violated :: bool
  gs_clamp :: bool
  gs_basis :: string
  gs_sparkline :: "f64 list"
  gs_updated :: u64
  gs_warning :: "(GovernorError + string) option"

datatype RegistryError = AlreadyRegistered string | NotRegistered string

definition registry_register :: "GovernorConfig \<Rightarrow> GovernorRegistry \<Rightarrow> RegistryError + GovernorRegistry" where
  "registry_register cfg reg =
     (if bt_contains reg (instance_id cfg) then Err (AlreadyRegistered (instance_id cfg))
      else Ok (bt_insert (instance_id cfg)
             \<lparr>ge_state = governor_new cfg, ge_telemetry = telemetry_default\<rparr> reg))"

definition registry_get :: "string \<Rightarrow> GovernorRegistry \<Rightarrow> GovernorState option" where
  "registry_get i reg = map_option ge_state (bt_get reg i)"

text \<open>\<open>push_back\<close>, then \<open>pop_front\<close> until the list fits.\<close>

definition push_spark :: "f64 \<Rightarrow> f64 list \<Rightarrow> f64 list" where
  "push_spark x xs = drop (length (xs @ [x]) - SPARKLINE_CAPACITY) (xs @ [x])"

definition registry_observe ::
  "u64 \<Rightarrow> string \<Rightarrow> f64 \<Rightarrow> GovernorRegistry \<Rightarrow> RegistryError + GovernorRegistry \<times> GovernorObservation" where
  "registry_observe now i signal reg =
     (case bt_get reg i of
        None \<Rightarrow> Err (NotRegistered i)
      | Some entry \<Rightarrow>
          let g = gov_step (ge_state entry) signal;
              e = gov_error g signal;
              l = unwrap_or (last_lyapunov g) (lyapunov g signal);
              tel = (ge_telemetry entry)\<lparr>gt_signal := signal, gt_error := e, gt_lyapunov := l,
                      gt_oscillating := oscillating g, gt_clamp := clamp_active g, gt_updated := now,
                      gt_sparkline := push_spark (epsilon g) (gt_sparkline (ge_telemetry entry))\<rparr>
          in Ok (bt_insert i \<lparr>ge_state = g, ge_telemetry = tel\<rparr> reg,
                 \<lparr>ob_epsilon = epsilon g, ob_error = e, ob_lyapunov = l, ob_oscillating = oscillating g\<rparr>))"

definition registry_soft_reset :: "string \<Rightarrow> GovernorRegistry \<Rightarrow> RegistryError + GovernorRegistry" where
  "registry_soft_reset i reg =
     (case bt_get reg i of
        None \<Rightarrow> Err (NotRegistered i)
      | Some entry \<Rightarrow>
          Ok (bt_insert i \<lparr>ge_state = gov_reset (ge_state entry), ge_telemetry = telemetry_default\<rparr> reg))"

definition validate_all :: "GovernorRegistry \<Rightarrow> (string \<times> (GovernorError + StabilityReport)) list" where
  "validate_all reg = map (\<lambda>(i, entry). (i, validate_params (ge_state entry))) reg"

definition snapshot_entry :: "string \<Rightarrow> GovernorEntry \<Rightarrow> GovernorSnapshot" where
  "snapshot_entry i entry =
     (let g = ge_state entry; tel = ge_telemetry entry;
          (gam, bound, regime, violated, warning) =
            (case validate_params g of
               Inr r \<Rightarrow> (Some (sr_gamma r), Some (sr_contraction_bound r), regime_label g, False,
                         map_option Inr (formal_warning g))
             | Inl e \<Rightarrow> (None, None, ''outside formal regime'', True, Some (Inl e)))
      in \<lparr>gs_instance = i, gs_epsilon = epsilon g, gs_target = gov_target (config g), gs_signal = gt_signal tel,
          gs_error = gt_error tel, gs_lyapunov = gt_lyapunov tel, gs_regime = regime, gs_gamma = gam,
          gs_contraction = bound, gs_stable = (\<not> violated \<and> \<not> gt_oscillating tel),
          gs_oscillating = gt_oscillating tel, gs_gain_violated = violated, gs_clamp = gt_clamp tel,
          gs_basis = formal_basis (config g), gs_sparkline = gt_sparkline tel, gs_updated = gt_updated tel,
          gs_warning = warning\<rparr>)"

definition snapshot_all :: "GovernorRegistry \<Rightarrow> GovernorSnapshot list" where
  "snapshot_all reg = map (\<lambda>(i, entry). snapshot_entry i entry) reg"

definition snapshot_one :: "string \<Rightarrow> GovernorRegistry \<Rightarrow> RegistryError + GovernorSnapshot" where
  "snapshot_one i reg =
     (case bt_get reg i of None \<Rightarrow> Err (NotRegistered i) | Some entry \<Rightarrow> Ok (snapshot_entry i entry))"

definition configs_all :: "GovernorRegistry \<Rightarrow> GovernorConfig list" where
  "configs_all reg = map (\<lambda>(i, entry). config (ge_state entry)) reg"

definition default_config :: "string \<Rightarrow> f64 \<Rightarrow> f64 \<Rightarrow> f64 \<Rightarrow> string \<Rightarrow> GovernorConfig" where
  "default_config i lo hi target basis =
     \<lparr>instance_id = i, alpha = 0x3f847ae147ae147b, beta = 0x3fa999999999999a, dt = f64_one, eps_min = lo,
      eps_max = hi, gov_target = target,
      formal_basis = ''HeytingLean.Bridge.Sharma.AetherGovernor.'' @ basis, ki = 0, kb = 0, adaptive = None\<rparr>"

definition default_configs :: "GovernorConfig list" where
  "default_configs =
     [default_config ''gov-proxy'' f64_one 0x4049000000000000 f64_two ''lyapunov_descent'',
      default_config ''gov-comms'' f64_one 0x4040000000000000 0x4024000000000000 ''validatorRegime'',
      default_config ''gov-compute'' f64_one 0x4024000000000000 0x4020000000000000 ''validatorRegime'',
      default_config ''gov-cost'' 0x3f847ae147ae147b 0x4024000000000000 f64_one ''validatorRegime'',
      default_config ''gov-pty'' 0x403e000000000000 0x408c200000000000 0x405e000000000000 ''validatorRegime'']"

text \<open>A configuration that cannot be registered is left out with a warning.\<close>

definition build_default_registry :: GovernorRegistry where
  "build_default_registry =
     foldl (\<lambda>reg cfg. case registry_register cfg reg of Inl _ \<Rightarrow> reg | Inr reg' \<Rightarrow> reg') [] default_configs"

section \<open>Admission\<close>

datatype AdmissionMode = AdmitWarn | AdmitBlock | AdmitForce

definition parse_mode :: "string option \<Rightarrow> string + AdmissionMode" where
  "parse_mode raw =
     (let t = (case raw of None \<Rightarrow> [] | Some s \<Rightarrow> trim s);
          m = to_ascii_lowercase (if t = [] then ''warn'' else t)
      in if m = ''warn'' then Ok AdmitWarn
         else if m = ''block'' then Ok AdmitBlock
         else if m = ''force'' then Ok AdmitForce
         else Err (''invalid admission mode `'' @ m @ ''`; expected warn, block, or force''))"

fun mode_str :: "AdmissionMode \<Rightarrow> string" where
  "mode_str AdmitWarn = ''warn''"
| "mode_str AdmitBlock = ''block''"
| "mode_str AdmitForce = ''force''"

datatype severity = SeverityBlock | SeverityWarn

record AdmissionIssue =
  ai_code :: string
  ai_severity :: severity
  ai_message :: string
  ai_instance :: "string option"

record AdmissionReport =
  ar_mode :: string
  ar_allowed :: bool
  ar_forced :: bool
  ar_issues :: "AdmissionIssue list"
  ar_governors :: "GovernorSnapshot list"
  ar_topology :: "DeployTopologyStatus option"

definition governor_issues :: "GovernorSnapshot \<Rightarrow> AdmissionIssue list" where
  "governor_issues s =
     (if gs_gain_violated s then
        [\<lparr>ai_code = ''governor_gain_violated'', ai_severity = SeverityBlock,
          ai_message = gs_instance s @
            '' is outside the AETHER gain regime; launch control is not trustworthy until it is reset or reconfigured.'',
          ai_instance = Some (gs_instance s)\<rparr>]
      else if gs_oscillating s then
        [\<lparr>ai_code = ''governor_oscillating'', ai_severity = SeverityWarn,
          ai_message = gs_instance s @
            '' has shown Lyapunov non-descent in multi-step engineering mode; new manager load may amplify oscillation.'',
          ai_instance = Some (gs_instance s)\<rparr>]
      else if \<not> gs_stable s then
        [\<lparr>ai_code = ''governor_unstable'', ai_severity = SeverityWarn,
          ai_message = gs_instance s @ '' is still being observed and has not reached a clean stable state.'',
          ai_instance = Some (gs_instance s)\<rparr>]
      else [])"

definition topology_issues :: "DeployTopologyStatus option \<Rightarrow> AdmissionIssue list" where
  "topology_issues t =
     (case t of
        None \<Rightarrow> []
      | Some t \<Rightarrow>
          if dt_structural_change t then
            [\<lparr>ai_code = ''topology_structural_change'', ai_severity = SeverityBlock,
              ai_message = unwrap_or (dt_warning t)
                ''binary topology changed beyond the Betti overlap bound; keep SHA-256 as the primary authenticator and require operator review before launch.'',
              ai_instance = None\<rparr>]
          else if dt_hash_changed t then
            [\<lparr>ai_code = ''topology_hash_changed'', ai_severity = SeverityWarn,
              ai_message = unwrap_or (dt_warning t)
                ''binary hash changed; Betti overlap stayed within the loose bound, but manager policy should treat this as a review signal rather than a proof of equivalence.'',
              ai_instance = None\<rparr>]
          else [])"

fun oks :: "('e + 'a) list \<Rightarrow> 'a list" where
  "oks [] = []"
| "oks (Inl _ # rs) = oks rs"
| "oks (Inr x # rs) = x # oks rs"

definition evaluate_launch_admission ::
  "AdmissionMode \<Rightarrow> GovernorRegistry option \<Rightarrow> DeployTopologyStatus option \<Rightarrow> AdmissionReport" where
  "evaluate_launch_admission mode registry topology =
     (let governors = (case registry of
                         None \<Rightarrow> []
                       | Some reg \<Rightarrow> oks (map (\<lambda>i. snapshot_one i reg) [''gov-compute'', ''gov-pty'']));
          issues = concat (map governor_issues governors) @ topology_issues topology;
          has_blocker = list_ex (\<lambda>i. ai_severity i = SeverityBlock) issues;
          has_warning = (issues \<noteq> []);
          allowed = (case mode of
                       AdmitWarn \<Rightarrow> True
                     | AdmitBlock \<Rightarrow> \<not> has_blocker \<and> \<not> list_ex (\<lambda>i. ai_severity i = SeverityWarn) issues
                     | AdmitForce \<Rightarrow> True)
      in \<lparr>ar_mode = mode_str mode, ar_allowed = allowed, ar_forced = (mode = AdmitForce \<and> has_warning),
          ar_issues = issues, ar_governors = governors, ar_topology = topology\<rparr>)"


section \<open>Every governor stays in its interval\<close>

definition in_range :: "GovernorConfig \<Rightarrow> f64 \<Rightarrow> bool" where
  "in_range cfg x \<longleftrightarrow> f64_le (eps_min cfg) x \<and> f64_le x (eps_max cfg)"

definition entry_ok :: "string \<Rightarrow> GovernorEntry \<Rightarrow> bool" where
  "entry_ok i e \<longleftrightarrow>
     instance_id (config (ge_state e)) = i \<and> in_range (config (ge_state e)) (epsilon (ge_state e)) \<and>
     length (gt_sparkline (ge_telemetry e)) \<le> SPARKLINE_CAPACITY \<and>
     (\<forall>x \<in> set (gt_sparkline (ge_telemetry e)). in_range (config (ge_state e)) x)"

definition registry_ok :: "GovernorRegistry \<Rightarrow> bool" where
  "registry_ok reg \<longleftrightarrow> bt_wf reg \<and> (\<forall>i e. bt_get reg i = Some e \<longrightarrow> entry_ok i e)"

lemma within_gov_inv: "gov_inv g \<longleftrightarrow> in_range (config g) (epsilon g)"
  by (simp add: gov_inv_def in_range_def)

lemma registry_ok_insert: "registry_ok reg \<Longrightarrow> entry_ok i e \<Longrightarrow> registry_ok (bt_insert i e reg)"
  by (auto simp: registry_ok_def)

lemma push_spark_props:
  "length (push_spark x xs) \<le> SPARKLINE_CAPACITY" "set (push_spark x xs) \<subseteq> insert x (set xs)"
  using set_drop_subset [of "length (xs @ [x]) - SPARKLINE_CAPACITY" "xs @ [x]"]
  by (auto simp: push_spark_def)

lemma register_ok:
  assumes "registry_register cfg reg = Ok reg'" "registry_ok reg"
    "validate_params (governor_new cfg) = Ok r" "\<not> is_nan (eps_max cfg)"
  shows "registry_ok reg'"
proof -
  have "gov_inv (governor_new cfg)" using validated_governor_bounded [OF assms(3,4), of "[]"] by simp
  then have "entry_ok (instance_id cfg) \<lparr>ge_state = governor_new cfg, ge_telemetry = telemetry_default\<rparr>"
    by (simp add: entry_ok_def within_gov_inv telemetry_default_def) (simp add: governor_new_def)
  with assms(1,2) show ?thesis by (auto simp: registry_register_def intro: registry_ok_insert split: if_splits)
qed

lemma observe_ok:
  assumes "registry_observe now i signal reg = Ok (reg', ob)" "registry_ok reg"
  shows "registry_ok reg'" "\<exists>e. bt_get reg i = Some e \<and> in_range (config (ge_state e)) (ob_epsilon ob)"
proof -
  from assms(1) obtain e where e: "bt_get reg i = Some e" by (auto simp: registry_observe_def split: option.splits)
  with assms(2) have ok: "entry_ok i e" by (simp add: registry_ok_def)
  let ?g = "gov_step (ge_state e) signal"
  have g: "in_range (config (ge_state e)) (epsilon ?g)"
    using gov_step_bounded [of "ge_state e" signal] gov_inv_interval [of "ge_state e"] ok
    by (simp add: within_gov_inv entry_ok_def)
  from assms(1) e obtain tel where reg': "reg' = bt_insert i \<lparr>ge_state = ?g, ge_telemetry = tel\<rparr> reg"
    and tel: "gt_sparkline tel = push_spark (epsilon ?g) (gt_sparkline (ge_telemetry e))"
    and ob: "ob_epsilon ob = epsilon ?g"
    by (auto simp: registry_observe_def Let_def)
  have "entry_ok i \<lparr>ge_state = ?g, ge_telemetry = tel\<rparr>"
    using ok g push_spark_props by (fastforce simp: entry_ok_def tel)
  then show "registry_ok reg'" unfolding reg' by (rule registry_ok_insert [OF assms(2)])
  show "\<exists>e. bt_get reg i = Some e \<and> in_range (config (ge_state e)) (ob_epsilon ob)" using e g ob by simp
qed

lemma soft_reset_ok:
  assumes "registry_soft_reset i reg = Ok reg'" "registry_ok reg"
  shows "registry_ok reg'"
proof -
  from assms(1) obtain e where e: "bt_get reg i = Some e" by (auto simp: registry_soft_reset_def split: option.splits)
  with assms(2) have "entry_ok i e" by (simp add: registry_ok_def)
  then have "entry_ok i \<lparr>ge_state = gov_reset (ge_state e), ge_telemetry = telemetry_default\<rparr>"
    by (simp add: entry_ok_def gov_reset_def telemetry_default_def)
  with assms e show ?thesis by (auto simp: registry_soft_reset_def intro: registry_ok_insert)
qed

lemma default_gains:
  "f64_div 0x3fa999999999999a f64_one = 0x3fa999999999999a"
  "f64_add 0x3f847ae147ae147b 0x3fa999999999999a = 0x3faeb851eb851eb9"
  "f64_le f64_one 0x3faeb851eb851eb9 = False" "f64_lt 0 0x3f847ae147ae147b = True"
  "f64_lt 0x3fa999999999999a 0 = False" "f64_lt f64_one f64_one = False" "f64_lt 0 0 = False"
  by code_simp+

lemma default_config_valid:
  assumes "f64_lt 0 lo" "\<not> f64_le hi lo"
  shows "\<not> isl (validate_params (governor_new (default_config i lo hi t basis)))"
  using assms
  by (simp add: validate_params_def governor_new_def default_config_def gamma_def effective_gamma_worst_case_def
      default_gains Let_def)

lemma default_intervals:
  "f64_lt 0 f64_one" "f64_lt 0 0x3f847ae147ae147b" "f64_lt 0 0x403e000000000000"
  "\<not> f64_le 0x4049000000000000 f64_one" "\<not> f64_le 0x4040000000000000 f64_one" "\<not> f64_le 0x4024000000000000 f64_one"
  "\<not> f64_le 0x4024000000000000 0x3f847ae147ae147b" "\<not> f64_le 0x408c200000000000 0x403e000000000000"
  "\<not> is_nan 0x4049000000000000" "\<not> is_nan 0x4040000000000000" "\<not> is_nan 0x4024000000000000" "\<not> is_nan 0x408c200000000000"
  by code_simp+

lemma default_configs_valid:
  "list_all (\<lambda>cfg. \<not> isl (validate_params (governor_new cfg)) \<and> \<not> is_nan (eps_max cfg)) default_configs"
proof -
  have "eps_max (default_config i lo hi t basis) = hi" for i lo hi t basis by (simp add: default_config_def)
  then show ?thesis
    unfolding default_configs_def list.pred_inject
    by (intro conjI default_config_valid TrueI) (simp_all only: default_intervals not_False_eq_True list.pred_inject)
qed

lemma default_registry_ok: "registry_ok build_default_registry"
proof -
  have "registry_ok (foldl (\<lambda>reg cfg. case registry_register cfg reg of Inl _ \<Rightarrow> reg | Inr reg' \<Rightarrow> reg') reg cfgs)"
    if "registry_ok reg" "list_all (\<lambda>cfg. \<not> isl (validate_params (governor_new cfg)) \<and> \<not> is_nan (eps_max cfg)) cfgs" for reg cfgs
    using that
  proof (induction cfgs arbitrary: reg)
    case (Cons cfg cfgs)
    then obtain r where "validate_params (governor_new cfg) = Ok r"
      by (cases "validate_params (governor_new cfg)") auto
    with Cons.prems have "registry_ok (case registry_register cfg reg of Inl _ \<Rightarrow> reg | Inr reg' \<Rightarrow> reg')"
      by (auto intro: register_ok split: sum.split)
    with Cons show ?case by simp
  qed simp
  moreover have "registry_ok []" by (simp add: registry_ok_def)
  ultimately show ?thesis
    unfolding build_default_registry_def using default_configs_valid by blast
qed

text \<open>The registries that the operations can make of the default one.\<close>

inductive registry_run :: "GovernorRegistry \<Rightarrow> bool" where
  run_default: "registry_run build_default_registry"
| run_register: "registry_run reg \<Longrightarrow> registry_register cfg reg = Ok reg' \<Longrightarrow>
     validate_params (governor_new cfg) = Ok r \<Longrightarrow> \<not> is_nan (eps_max cfg) \<Longrightarrow> registry_run reg'"
| run_observe: "registry_run reg \<Longrightarrow> registry_observe now i signal reg = Ok (reg', ob) \<Longrightarrow> registry_run reg'"
| run_reset: "registry_run reg \<Longrightarrow> registry_soft_reset i reg = Ok reg' \<Longrightarrow> registry_run reg'"

lemma registry_run_ok: "registry_run reg \<Longrightarrow> registry_ok reg"
  by (induction rule: registry_run.induct)
    (auto intro: default_registry_ok register_ok observe_ok(1) soft_reset_ok)

section \<open>What a launch needs\<close>

lemma no_issue_iff:
  "governor_issues (snapshot_entry i e) = [] \<longleftrightarrow>
     \<not> isl (validate_params (ge_state e)) \<and> \<not> gt_oscillating (ge_telemetry e)"
  by (auto simp: governor_issues_def snapshot_entry_def Let_def split: sum.split)

lemma severities: "\<not> list_ex (\<lambda>i. ai_severity i = SeverityBlock) issues \<and>
    \<not> list_ex (\<lambda>i. ai_severity i = SeverityWarn) issues \<longleftrightarrow> issues = []"
proof (induction issues)
  case (Cons i issues)
  then show ?case by (cases "ai_severity i") auto
qed simp

lemma issues_of_watched:
  "concat (map governor_issues (oks (map (\<lambda>i. snapshot_one i reg) is))) = [] \<longleftrightarrow>
     (\<forall>i \<in> set is. \<forall>e. bt_get reg i = Some e \<longrightarrow>
        \<not> isl (validate_params (ge_state e)) \<and> \<not> gt_oscillating (ge_telemetry e))"
  by (induction "is") (auto simp: snapshot_one_def no_issue_iff split: option.split)

lemma block_mode_iff:
  "ar_allowed (evaluate_launch_admission AdmitBlock registry topology) \<longleftrightarrow>
     (\<forall>reg i e. registry = Some reg \<and> i \<in> {''gov-compute'', ''gov-pty''} \<and> bt_get reg i = Some e \<longrightarrow>
        \<not> isl (validate_params (ge_state e)) \<and> \<not> gt_oscillating (ge_telemetry e)) \<and>
     (\<forall>t. topology = Some t \<longrightarrow> \<not> dt_structural_change t \<and> \<not> dt_hash_changed t)"
proof -
  let ?gov = "case registry of None \<Rightarrow> [] | Some reg \<Rightarrow> oks (map (\<lambda>i. snapshot_one i reg) [''gov-compute'', ''gov-pty''])"
  have "ar_allowed (evaluate_launch_admission AdmitBlock registry topology) \<longleftrightarrow>
      concat (map governor_issues ?gov) @ topology_issues topology = []"
    unfolding evaluate_launch_admission_def Let_def AdmissionReport.select_convs AdmissionMode.case severities ..
  moreover have "topology_issues topology = [] \<longleftrightarrow>
      (\<forall>t. topology = Some t \<longrightarrow> \<not> dt_structural_change t \<and> \<not> dt_hash_changed t)"
    by (auto simp: topology_issues_def split: option.split)
  moreover have "concat (map governor_issues ?gov) = [] \<longleftrightarrow>
      (\<forall>reg i e. registry = Some reg \<and> i \<in> {''gov-compute'', ''gov-pty''} \<and> bt_get reg i = Some e \<longrightarrow>
        \<not> isl (validate_params (ge_state e)) \<and> \<not> gt_oscillating (ge_telemetry e))"
  proof (cases registry)
    case (Some reg)
    show ?thesis unfolding Some option.case issues_of_watched by auto
  qed simp
  ultimately show ?thesis by simp
qed

end
