(* ===== verification/Metering.thy ===== *)
theory Metering
  imports Api_Keys Json Governor_Registry
begin

text \<open>
  The metered proxy, \<^verbatim>\<open>src/halo/proxy.rs\<close>, the metered storage of \<^verbatim>\<open>src/halo/pinata.rs\<close> and the endpoint
  of \<^verbatim>\<open>src/dashboard/api.rs\<close> for metered requests.  The models installed on the machine
  (\<open>local_models\<close>) and the services that answer requests (\<open>upstream\<close>) are arguments, as
  are the JSON parser and the printing of doubles.
\<close>

section \<open>Models and routes\<close>

definition OPENROUTER_MODELS :: "(string \<times> string \<times> string) list" where
  "OPENROUTER_MODELS =
     [(''claude-opus-4-6'', ''anthropic'', ''anthropic/claude-opus-4-6''),
      (''claude-sonnet-4-6'', ''anthropic'', ''anthropic/claude-sonnet-4-6''),
      (''claude-haiku-4-5-20251001'', ''anthropic'', ''anthropic/claude-haiku-4-5-20251001''),
      (''gpt-4o'', ''openai'', ''openai/gpt-4o''),
      (''gpt-4o-mini'', ''openai'', ''openai/gpt-4o-mini''),
      (''o3'', ''openai'', ''openai/o3''),
      (''o4-mini'', ''openai'', ''openai/o4-mini''),
      (''gemini-2.5-pro'', ''google'', ''google/gemini-2.5-pro''),
      (''gemini-2.5-flash'', ''google'', ''google/gemini-2.5-flash''),
      (''meta-llama/llama-4-maverick'', ''meta'', ''meta-llama/llama-4-maverick''),
      (''meta-llama/llama-4-scout'', ''meta'', ''meta-llama/llama-4-scout''),
      (''mistralai/mistral-large'', ''mistral'', ''mistralai/mistral-large''),
      (''mistralai/mistral-medium'', ''mistral'', ''mistralai/mistral-medium''),
      (''deepseek/deepseek-r1'', ''deepseek'', ''deepseek/deepseek-r1''),
      (''deepseek/deepseek-chat'', ''deepseek'', ''deepseek/deepseek-chat''),
      (''cohere/command-r-plus'', ''cohere'', ''cohere/command-r-plus''),
      (''perplexity/sonar-pro'', ''perplexity'', ''perplexity/sonar-pro'')]"

definition openrouter_model_name :: "string \<Rightarrow> string" where
  "openrouter_model_name model =
     (case find (\<lambda>(display_id, _, _). model = display_id) OPENROUTER_MODELS of
        Some (_, _, or_id) \<Rightarrow> or_id
      | None \<Rightarrow>
          if List.member model CHR ''/'' then model
          else if starts_with model ''claude'' then ''anthropic/'' @ model
          else if starts_with model ''gpt'' \<or> starts_with model ''o1'' \<or> starts_with model ''o3'' \<or> starts_with model ''o4''
          then ''openai/'' @ model
          else if starts_with model ''gemini'' then ''google/'' @ model
          else model)"

definition strip_provider_prefix :: "string \<Rightarrow> string" where
  "strip_provider_prefix or_model =
     (case split_once CHR ''/'' or_model of None \<Rightarrow> or_model | Some (_, rest) \<Rightarrow> rest)"

text \<open>A route with the label of the backend, its address and the model.\<close>

datatype ResolvedBackend = OpenRouter string | LocalRoute string string string

fun routed_model :: "ResolvedBackend \<Rightarrow> string" where
  "routed_model (OpenRouter m) = m"
| "routed_model (LocalRoute _ _ m) = m"

fun display_model :: "ResolvedBackend \<Rightarrow> string" where
  "display_model (OpenRouter m) = m"
| "display_model (LocalRoute _ _ m) = ''local/'' @ m"

fun backend_label :: "ResolvedBackend \<Rightarrow> string" where
  "backend_label (OpenRouter _) = ''openrouter''"
| "backend_label (LocalRoute b _ _) = b"

fun is_local :: "ResolvedBackend \<Rightarrow> bool" where
  "is_local (OpenRouter _) = False"
| "is_local (LocalRoute _ _ _) = True"

record local_models =
  lm_installed :: "string \<Rightarrow> bool"
  lm_resolve :: "string \<Rightarrow> string + (string \<times> string \<times> string)"

definition local_route :: "local_models \<Rightarrow> string \<Rightarrow> string + ResolvedBackend" where
  "local_route lm model =
     (case lm_resolve lm model of Inl e \<Rightarrow> Err e | Inr (b, url, m) \<Rightarrow> Ok (LocalRoute b url m))"

definition looks_like_openrouter_cloud_model :: "string \<Rightarrow> bool" where
  "looks_like_openrouter_cloud_model model =
     list_ex (starts_with model)
       [''claude'', ''gpt'', ''o1'', ''o3'', ''o4'', ''gemini'', ''deepseek/'', ''mistralai/'', ''cohere/'',
        ''perplexity/'', ''meta-llama/'']"

definition resolve_backend_for_request :: "local_models \<Rightarrow> string \<Rightarrow> string + ResolvedBackend" where
  "resolve_backend_for_request lm model =
     (let requested = trim model
      in if requested = [] then Err ''model must not be empty''
         else if starts_with requested ''local/'' then local_route lm requested
         else if List.member requested CHR ''/'' then
           (if lm_installed lm requested then local_route lm requested
            else Ok (OpenRouter (openrouter_model_name requested)))
         else if looks_like_openrouter_cloud_model requested then Ok (OpenRouter (openrouter_model_name requested))
         else if lm_installed lm requested then local_route lm requested
         else Ok (OpenRouter (openrouter_model_name requested)))"

section \<open>Requests\<close>

text \<open>Of the messages only the contents are read.\<close>

record ChatCompletionRequest =
  cr_model :: string
  cr_messages :: "json list"
  cr_max_tokens :: "u32 option"
  cr_stream :: "bool option"

definition estimate_text_tokens :: "string \<Rightarrow> u64" where
  "estimate_text_tokens text = of_nat ((length text + 3) div 4)"

definition message_tokens :: "(json \<Rightarrow> string) \<Rightarrow> json \<Rightarrow> u64" where
  "message_tokens show_json content =
     (case content of
        JString s \<Rightarrow> estimate_text_tokens s
      | JArray items \<Rightarrow>
          sum_list (map estimate_text_tokens (List.map_filter (\<lambda>it. Option.bind (json_get ''text'' it) as_str) items))
      | other \<Rightarrow> estimate_text_tokens (show_json other))"

definition estimate_request_input_tokens :: "(json \<Rightarrow> string) \<Rightarrow> ChatCompletionRequest \<Rightarrow> u64" where
  "estimate_request_input_tokens show_json req = sum_list (map (message_tokens show_json) (cr_messages req))"

definition estimated_output :: "ChatCompletionRequest \<Rightarrow> u64" where
  "estimated_output req = ucast (unwrap_or (cr_max_tokens req) 1024)"

definition route_cost ::
  "ResolvedBackend \<Rightarrow> u64 \<Rightarrow> u64 \<Rightarrow> (string \<rightharpoonup> ModelPricing) \<Rightarrow> f64 \<Rightarrow> f64 \<times> f64" where
  "route_cost route input output pricing markup_pct =
     (if is_local route then (0, 0)
      else calculate_marked_up_cost (strip_provider_prefix (routed_model route)) input output 0 pricing markup_pct)"

definition estimate_marked_up_request_cost ::
  "local_models \<Rightarrow> (json \<Rightarrow> string) \<Rightarrow> ChatCompletionRequest \<Rightarrow> (string \<rightharpoonup> ModelPricing) \<Rightarrow> f64 \<Rightarrow> string \<times> f64" where
  "estimate_marked_up_request_cost lm show_json req pricing markup_pct =
     (let route = (case resolve_backend_for_request lm (cr_model req) of
                     Inl _ \<Rightarrow> OpenRouter (openrouter_model_name (cr_model req)) | Inr r \<Rightarrow> r)
      in (display_model route,
          snd (route_cost route (estimate_request_input_tokens show_json req) (estimated_output req) pricing markup_pct)))"

definition extract_usage :: "json \<Rightarrow> u64 \<times> u64" where
  "extract_usage resp =
     (let usage = json_get ''usage'' resp;
          tokens = (\<lambda>k. unwrap_or (Option.bind (Option.bind usage (json_get k)) as_u64) 0)
      in (tokens ''prompt_tokens'', tokens ''completion_tokens''))"

section \<open>Upstream\<close>

fun contains_text :: "string \<Rightarrow> string \<Rightarrow> bool" where
  "contains_text [] p = starts_with [] p"
| "contains_text (c # s) p = (starts_with (c # s) p \<or> contains_text s p)"

definition sanitize_upstream_error :: "string \<Rightarrow> string" where
  "sanitize_upstream_error msg =
     (if contains_text msg ''key='' \<or> contains_text msg ''sk-or-'' \<or> contains_text msg ''Bearer''
      then ''upstream service error (credentials redacted)''
      else ''upstream service error: '' @ msg)"

text \<open>
  A request can fail to be sent, fail otherwise, or give a body or the lines of a stream; the vault
  has the key of the service, lacks it, or is missing.
\<close>

datatype 'a reply = SendError string | ReplyError string | Reply 'a

record upstream =
  up_vault :: "string option option"
  up_post :: "string \<Rightarrow> string option \<Rightarrow> string \<Rightarrow> ChatCompletionRequest \<Rightarrow> json reply"
  up_stream :: "string \<Rightarrow> string option \<Rightarrow> string \<Rightarrow> ChatCompletionRequest \<Rightarrow> (string + string) list reply"

definition call_openai_compatible ::
  "upstream \<Rightarrow> string \<Rightarrow> string option \<Rightarrow> string \<Rightarrow> ChatCompletionRequest \<Rightarrow> (string \<Rightarrow> string) \<Rightarrow> string + json" where
  "call_openai_compatible up endpoint key model req sanitize_error =
     (case up_post up endpoint key model req of
        SendError e \<Rightarrow> Err (sanitize_error e)
      | ReplyError e \<Rightarrow> Err e
      | Reply body \<Rightarrow>
          (case json_get ''error'' body of
             Some err \<Rightarrow>
               Err (''upstream error: '' @ unwrap_or (Option.bind (json_get ''message'' err) as_str) ''unknown upstream error'')
           | None \<Rightarrow> Ok body))"

abbreviation OPENROUTER_URL :: string where
  "OPENROUTER_URL \<equiv> ''https://openrouter.ai/api/v1/chat/completions''"

definition local_url :: "string \<Rightarrow> string" where
  "local_url base = trim_end_matches ''/'' base @ ''/v1/chat/completions''"

definition local_error :: "string \<Rightarrow> string" where
  "local_error e = ''local backend error: '' @ e"

fun call_resolved_backend :: "upstream \<Rightarrow> ResolvedBackend \<Rightarrow> ChatCompletionRequest \<Rightarrow> string + json" where
  "call_resolved_backend up (OpenRouter m) req =
     (case up_vault up of
        None \<Rightarrow> Err ''proxy service unavailable: local backend not selected and OpenRouter is not configured''
      | Some None \<Rightarrow> Err ''proxy service unavailable: upstream not configured''
      | Some (Some key) \<Rightarrow> call_openai_compatible up OPENROUTER_URL (Some key) m req sanitize_upstream_error)"
| "call_resolved_backend up (LocalRoute b url m) req =
     call_openai_compatible up (local_url url) None m req local_error"

section \<open>A metered request\<close>

record MeteredResult =
  mr_body :: json
  mr_model :: string
  mr_input :: u64
  mr_output :: u64
  mr_upstream_cost :: f64
  mr_customer_cost :: f64
  mr_remaining :: f64
  mr_generation :: "string option"

definition settle ::
  "bool \<Rightarrow> u64 \<Rightarrow> string \<Rightarrow> u64 \<Rightarrow> u64 \<Rightarrow> f64 \<Rightarrow> CustomerKeyStore \<Rightarrow> CustomerKeyStore \<times> f64" where
  "settle disk now key_id input output cost st =
     (case deduct_balance disk key_id cost st of
        (st', remaining) \<Rightarrow> (record_usage disk now key_id input output cost st', remaining))"

text \<open>Setting a field of a value that is neither an object nor null panics.\<close>

fun set_field :: "string \<Rightarrow> json \<Rightarrow> json \<Rightarrow> json option" where
  "set_field k v (JObject m) = Some (JObject (bt_insert k v m))"
| "set_field k v JNull = Some (JObject [(k, v)])"
| "set_field k v _ = None"

definition billing_block ::
  "(f64 \<Rightarrow> json) \<Rightarrow> string \<Rightarrow> ResolvedBackend \<Rightarrow> u64 \<Rightarrow> u64 \<Rightarrow> f64 \<Rightarrow> f64 \<Rightarrow> string option \<Rightarrow> json" where
  "billing_block json_f64 key_id route input output cost remaining gen =
     json_object
       [(''customer_id'', JString key_id), (''model'', JString (display_model route)),
        (''backend'', JString (backend_label route)), (''upstream_model'', JString (routed_model route)),
        (''input_tokens'', JNumber input), (''output_tokens'', JNumber output), (''cost_usd'', json_f64 cost),
        (''remaining_balance_usd'', json_f64 remaining), (''generation_id'', json_opt_str gen)]"

definition insufficient :: "(f64 \<Rightarrow> string) \<Rightarrow> f64 \<Rightarrow> f64 \<Rightarrow> string" where
  "insufficient fixed6 balance est =
     ''insufficient balance: $'' @ fixed6 balance @ '' available, estimated cost $'' @ fixed6 est"

definition metered_proxy_sync ::
  "local_models \<Rightarrow> upstream \<Rightarrow> (f64 \<Rightarrow> string) \<Rightarrow> (f64 \<Rightarrow> json) \<Rightarrow> bool \<Rightarrow> u64 \<Rightarrow> string \<Rightarrow> ChatCompletionRequest \<Rightarrow>
    (string \<rightharpoonup> ModelPricing) \<Rightarrow> f64 \<Rightarrow> CustomerKeyStore \<Rightarrow> CustomerKeyStore \<times> (string + MeteredResult) option" where
  "metered_proxy_sync lm up fixed6 json_f64 disk now customer_key req pricing markup_pct st =
     (case validate_key st customer_key of
        None \<Rightarrow> (st, Some (Err ''invalid API key''))
      | Some customer \<Rightarrow>
          if \<not> ck_active customer then (st, Some (Err ''API key is suspended''))
          else (case resolve_backend_for_request lm (cr_model req) of
                  Inl e \<Rightarrow> (st, Some (Err e))
                | Inr route \<Rightarrow>
                    (let est = snd (route_cost route 100 (estimated_output req) pricing markup_pct);
                         balance = get_balance st (ck_key_id customer)
                     in if f64_lt 0 est \<and> f64_lt balance est then (st, Some (Err (insufficient fixed6 balance est)))
                        else (case call_resolved_backend up route req of
                                Inl e \<Rightarrow> (st, Some (Err e))
                              | Inr body \<Rightarrow>
                                  (let (input, output) = extract_usage body;
                                       gen = Option.bind (json_get ''id'' body) as_str;
                                       (upstream_cost, customer_cost) = route_cost route input output pricing markup_pct;
                                       (st', remaining) = settle disk now (ck_key_id customer) input output customer_cost st;
                                       billing = billing_block json_f64 (ck_key_id customer) route input output
                                                   customer_cost remaining gen
                                   in (st', map_option
                                         (\<lambda>enriched. Ok \<lparr>mr_body = enriched, mr_model = display_model route, mr_input = input,
                                            mr_output = output, mr_upstream_cost = upstream_cost,
                                            mr_customer_cost = customer_cost, mr_remaining = remaining,
                                            mr_generation = gen\<rparr>)
                                         (set_field ''x_agenthalo'' billing body)))))))"

section \<open>Streams\<close>

record StreamTelemetry =
  te_prompt :: "u64 option"
  te_completion :: "u64 option"
  te_generation :: "string option"
  te_preview :: string
  te_completed :: bool

definition telemetry_empty :: StreamTelemetry where
  "telemetry_empty =
     \<lparr>te_prompt = None, te_completion = None, te_generation = None, te_preview = [], te_completed = False\<rparr>"

text \<open>\<^verbatim>\<open>chars().take(n)\<close> on the bytes of a text.\<close>

fun take_chars :: "nat \<Rightarrow> bytes \<Rightarrow> bytes" where
  "take_chars n [] = []"
| "take_chars n (c # s) =
     (if cont c then c # take_chars n s else (case n of 0 \<Rightarrow> [] | Suc m \<Rightarrow> c # take_chars m s))"

definition delta_text :: "json \<Rightarrow> string" where
  "delta_text obj =
     unwrap_or
       (Option.bind (Option.bind (Option.bind
          (case json_get ''choices'' obj of Some (JArray (choice # _)) \<Rightarrow> Some choice | _ \<Rightarrow> None)
          (json_get ''delta'')) (json_get ''content'')) as_str) []"

definition update_stream_usage_from_payload ::
  "(string \<Rightarrow> json option) \<Rightarrow> string \<Rightarrow> StreamTelemetry \<Rightarrow> StreamTelemetry" where
  "update_stream_usage_from_payload parse payload t =
     (case parse payload of
        None \<Rightarrow> t
      | Some obj \<Rightarrow>
          (let t1 = (if te_generation t = None
                     then t\<lparr>te_generation := Option.bind (json_get ''id'' obj) as_str\<rparr> else t);
               t2 = (case json_get ''usage'' obj of
                       None \<Rightarrow> t1
                     | Some u \<Rightarrow>
                         (let t' = (if te_prompt t1 = None
                                    then t1\<lparr>te_prompt := Option.bind (json_get ''prompt_tokens'' u) as_u64\<rparr> else t1)
                          in if te_completion t' = None
                             then t'\<lparr>te_completion := Option.bind (json_get ''completion_tokens'' u) as_u64\<rparr> else t'))
           in if length (te_preview t2) \<ge> 512 \<or> delta_text obj = [] then t2
              else t2\<lparr>te_preview := te_preview t2 @ take_chars (512 - length (te_preview t2)) (delta_text obj)\<rparr>))"

text \<open>\<^verbatim>\<open>trim_start_matches\<close> removes a prefix as often as it is there.\<close>

function trim_start_matches :: "string \<Rightarrow> string \<Rightarrow> string" where
  "trim_start_matches p s =
     (if p \<noteq> [] \<and> starts_with s p then trim_start_matches p (drop (length p) s) else s)"
  by pat_completeness auto
termination
  by (relation "measure (length \<circ> snd)") (auto simp: starts_with_iff)

declare trim_start_matches.simps [simp del]

text \<open>
  The lines of a stream, with the receiver of the data as a state; the error carries what was read up to
  there.
\<close>

fun stream_loop ::
  "(string \<Rightarrow> json option) \<Rightarrow> ('s \<Rightarrow> string \<Rightarrow> 's \<times> (string + unit)) \<Rightarrow> (string + string) list \<Rightarrow> 's \<Rightarrow> StreamTelemetry \<Rightarrow>
    's \<times> (string \<times> StreamTelemetry + StreamTelemetry)" where
  "stream_loop parse on_data [] s t = (s, Ok t)"
| "stream_loop parse on_data (Inl e # ls) s t = (s, Err (''read upstream stream line: '' @ e, t))"
| "stream_loop parse on_data (Inr l # ls) s t =
     (let payload = trim (trim_start_matches ''data:'' l)
      in if \<not> starts_with l ''data:'' \<or> payload = [] then stream_loop parse on_data ls s t
         else (let t' = update_stream_usage_from_payload parse payload t
               in case on_data s payload of
                    (s', Inl e) \<Rightarrow> (s', Err (e, t'))
                  | (s', Inr _) \<Rightarrow>
                      if payload = ''[DONE]'' then (s', Ok (t'\<lparr>te_completed := True\<rparr>))
                      else stream_loop parse on_data ls s' t'))"

definition call_openai_compatible_stream ::
  "upstream \<Rightarrow> (string \<Rightarrow> json option) \<Rightarrow> ('s \<Rightarrow> string \<Rightarrow> 's \<times> (string + unit)) \<Rightarrow> string \<Rightarrow> string option \<Rightarrow> string \<Rightarrow>
    ChatCompletionRequest \<Rightarrow> (string \<Rightarrow> string) \<Rightarrow> 's \<Rightarrow> 's \<times> (string \<times> StreamTelemetry + StreamTelemetry)" where
  "call_openai_compatible_stream up parse on_data endpoint key model req sanitize_error s =
     (case up_stream up endpoint key model req of
        SendError e \<Rightarrow> (s, Err (sanitize_error e, telemetry_empty))
      | ReplyError e \<Rightarrow> (s, Err (e, telemetry_empty))
      | Reply ls \<Rightarrow> stream_loop parse on_data ls s telemetry_empty)"

fun call_resolved_backend_stream ::
  "upstream \<Rightarrow> (string \<Rightarrow> json option) \<Rightarrow> ('s \<Rightarrow> string \<Rightarrow> 's \<times> (string + unit)) \<Rightarrow> ResolvedBackend \<Rightarrow>
    ChatCompletionRequest \<Rightarrow> 's \<Rightarrow> 's \<times> (string \<times> StreamTelemetry + StreamTelemetry)" where
  "call_resolved_backend_stream up parse on_data (OpenRouter m) req s =
     (case up_vault up of
        None \<Rightarrow> (s, Err (''OpenRouter not configured and no local backend matched'', telemetry_empty))
      | Some None \<Rightarrow> (s, Err (''no OpenRouter API key configured'', telemetry_empty))
      | Some (Some key) \<Rightarrow>
          call_openai_compatible_stream up parse on_data OPENROUTER_URL (Some key) m req sanitize_upstream_error s)"
| "call_resolved_backend_stream up parse on_data (LocalRoute b url m) req s =
     call_openai_compatible_stream up parse on_data (local_url url) None m req local_error s"

record MeteredStreamResult =
  ms_model :: string
  ms_input :: u64
  ms_output :: u64
  ms_upstream_cost :: f64
  ms_customer_cost :: f64
  ms_remaining :: f64
  ms_generation :: "string option"
  ms_telemetry :: StreamTelemetry

definition nothing_settled :: "string \<Rightarrow> f64 \<Rightarrow> MeteredStreamResult" where
  "nothing_settled model remaining =
     \<lparr>ms_model = model, ms_input = 0, ms_output = 0, ms_upstream_cost = 0, ms_customer_cost = 0,
      ms_remaining = remaining, ms_generation = None, ms_telemetry = telemetry_empty\<rparr>"

definition metered_proxy_stream_sync ::
  "local_models \<Rightarrow> upstream \<Rightarrow> (json \<Rightarrow> string) \<Rightarrow> (string \<Rightarrow> json option) \<Rightarrow> (f64 \<Rightarrow> string) \<Rightarrow>
    ('s \<Rightarrow> string \<Rightarrow> 's \<times> (string + unit)) \<Rightarrow> bool \<Rightarrow> u64 \<Rightarrow> string \<Rightarrow> ChatCompletionRequest \<Rightarrow>
    (string \<rightharpoonup> ModelPricing) \<Rightarrow> f64 \<Rightarrow> CustomerKeyStore \<times> 's \<Rightarrow>
    (CustomerKeyStore \<times> 's) \<times> (string \<times> MeteredStreamResult + MeteredStreamResult)" where
  "metered_proxy_stream_sync lm up show_json parse fixed6 on_data disk now customer_key req pricing markup_pct sts =
     (case validate_key (fst sts) customer_key of
        None \<Rightarrow> (sts, Err (''invalid API key'', nothing_settled [] 0))
      | Some customer \<Rightarrow>
          if \<not> ck_active customer then (sts, Err (''API key is suspended'', nothing_settled [] 0))
          else (let balance = get_balance (fst sts) (ck_key_id customer)
                in case resolve_backend_for_request lm (cr_model req) of
                     Inl e \<Rightarrow> (sts, Err (e, nothing_settled (cr_model req) balance))
                   | Inr route \<Rightarrow>
                       (let est_input = estimate_request_input_tokens show_json req;
                            est = snd (route_cost route est_input (estimated_output req) pricing markup_pct)
                        in if f64_lt 0 est \<and> f64_lt balance est
                           then (sts, Err (insufficient fixed6 balance est, nothing_settled (display_model route) balance))
                           else (let (s', res) = call_resolved_backend_stream up parse on_data route req (snd sts);
                                     telemetry = (case res of Inl (_, t) \<Rightarrow> t | Inr t \<Rightarrow> t);
                                     input = unwrap_or (te_prompt telemetry) est_input;
                                     output = unwrap_or (te_completion telemetry) (estimate_text_tokens (te_preview telemetry));
                                     (upstream_cost, customer_cost) = route_cost route input output pricing markup_pct;
                                     (st', remaining) = settle disk now (ck_key_id customer) input output customer_cost (fst sts);
                                     settled = \<lparr>ms_model = display_model route, ms_input = input, ms_output = output,
                                                ms_upstream_cost = upstream_cost, ms_customer_cost = customer_cost,
                                                ms_remaining = remaining, ms_generation = te_generation telemetry,
                                                ms_telemetry = telemetry\<rparr>
                                 in ((st', s'), (case res of Inl (e, _) \<Rightarrow> Err (e, settled) | Inr _ \<Rightarrow> Ok settled))))))"

section \<open>What a request costs\<close>

text \<open>A key after a request that was settled.\<close>

definition charged :: "u64 \<Rightarrow> u64 \<Rightarrow> u64 \<Rightarrow> f64 \<Rightarrow> CustomerKey \<Rightarrow> CustomerKey" where
  "charged now input output cost k =
     (let daily = unwrap_or (ck_daily k (today_string now)) usage_default
      in k\<lparr>ck_balance := f64_sub (ck_balance k) cost, ck_spent := f64_add (ck_spent k) cost,
           ck_requests := ck_requests k + 1, ck_input := ck_input k + input, ck_output := ck_output k + output,
           ck_last_used := Some now,
           ck_daily := (ck_daily k)(today_string now \<mapsto>
             \<lparr>du_requests = du_requests daily + 1, du_input = du_input daily + input,
              du_output = du_output daily + output, du_cost = f64_add (du_cost daily) cost\<rparr>)\<rparr>)"

lemma charged_same [simp]:
  "ck_key_id (charged now i out c k) = ck_key_id k" "ck_api_key (charged now i out c k) = ck_api_key k"
  "ck_active (charged now i out c k) = ck_active k" "ck_balance (charged now i out c k) = f64_sub (ck_balance k) c"
  by (simp_all add: charged_def Let_def)

lemma settle_charges:
  assumes "get_key st key_id = Some k"
  shows "snd (settle disk now key_id i out c st) = f64_sub (ck_balance k) c"
    "get_key (fst (settle disk now key_id i out c st)) = (get_key st)(key_id \<mapsto> charged now i out c k)"
    "sd_index (ks_data (fst (settle disk now key_id i out c st))) = sd_index (ks_data st)"
  using assms by (simp_all add: settle_def deduct_balance_def record_usage_def charged_def Let_def)

lemma validate_key_wf:
  assumes "store_wf (ks_data st)"
  shows "validate_key st a = Some k \<longleftrightarrow> get_key st (ck_key_id k) = Some k \<and> ck_api_key k = a"
proof
  assume "validate_key st a = Some k"
  then obtain i where i: "sd_index (ks_data st) a = Some i" "sd_keys (ks_data st) i = Some k"
    by (auto simp: validate_key_def bind_eq_Some_conv)
  from assms i(1) obtain k' where "sd_keys (ks_data st) i = Some k'" "ck_api_key k' = a" unfolding store_wf_def by blast
  moreover from assms i(2) have "ck_key_id k = i" unfolding store_wf_def by blast
  ultimately show "get_key st (ck_key_id k) = Some k \<and> ck_api_key k = a" using i(2) by (simp add: get_key_def)
next
  assume k: "get_key st (ck_key_id k) = Some k \<and> ck_api_key k = a"
  with assms have "sd_index (ks_data st) a = Some (ck_key_id k)" unfolding store_wf_def get_key_def by blast
  with k show "validate_key st a = Some k" by (simp add: validate_key_def get_key_def)
qed

text \<open>A refused request leaves the store alone; an answered one charges its key for the tokens it used.\<close>

lemma metered_proxy_cases:
  assumes wf: "store_wf (ks_data st)"
    and call: "metered_proxy_sync lm up fixed6 json_f64 disk now customer_key req pricing markup_pct st = (st', Some res)"
  shows "case res of Inl e \<Rightarrow> st' = st
    | Inr r \<Rightarrow> \<exists>k route body. validate_key st customer_key = Some k \<and> ck_active k \<and>
        resolve_backend_for_request lm (cr_model req) = Ok route \<and> call_resolved_backend up route req = Ok body \<and>
        (mr_input r, mr_output r) = extract_usage body \<and>
        (mr_upstream_cost r, mr_customer_cost r) = route_cost route (mr_input r) (mr_output r) pricing markup_pct \<and>
        mr_remaining r = f64_sub (ck_balance k) (mr_customer_cost r) \<and>
        get_key st' = (get_key st)(ck_key_id k \<mapsto> charged now (mr_input r) (mr_output r) (mr_customer_cost r) k)"
proof (cases res)
  case (Inl e)
  with call show ?thesis
    by (auto simp: metered_proxy_sync_def Let_def split: option.splits if_splits sum.splits prod.splits)
next
  case (Inr r)
  with call obtain k where k: "validate_key st customer_key = Some k" "ck_active k"
    by (auto simp: metered_proxy_sync_def split: option.splits if_splits)
  then have g: "get_key st (ck_key_id k) = Some k" using validate_key_wf [OF wf] by blast
  from call Inr k obtain route where route: "resolve_backend_for_request lm (cr_model req) = Ok route"
    by (auto simp: metered_proxy_sync_def split: sum.splits)
  from call Inr k route obtain body where body: "call_resolved_backend up route req = Ok body"
    by (auto simp: metered_proxy_sync_def Let_def split: sum.splits if_splits)
  obtain i out where u: "extract_usage body = (i, out)" by (cases "extract_usage body")
  obtain uc cc where c: "route_cost route i out pricing markup_pct = (uc, cc)" by (cases "route_cost route i out pricing markup_pct")
  obtain s1 rem where s1: "settle disk now (ck_key_id k) i out cc st = (s1, rem)" by fastforce
  note ch = settle_charges [OF g, of disk now i out cc, unfolded s1, simplified]
  from call Inr k route body u c s1 have "st' = s1" "mr_input r = i" "mr_output r = out" "mr_upstream_cost r = uc"
    "mr_customer_cost r = cc" "mr_remaining r = rem"
    by (auto simp: metered_proxy_sync_def Let_def split: if_splits)
  then show ?thesis using Inr k route body u c ch by auto
qed

text \<open>The model of a route that has no price is free, whatever the balance.\<close>

lemma metered_proxy_unpriced:
  assumes "store_wf (ks_data st)" "validate_key st customer_key = Some k" "ck_active k" "\<not> is_nan (ck_balance k)"
    "resolve_backend_for_request lm (cr_model req) = Ok (OpenRouter m)" "pricing (strip_provider_prefix m) = None"
    "finite_f64 markup_pct" "call_resolved_backend up (OpenRouter m) req = Ok (JObject body_fields)"
  shows "\<exists>st' r. metered_proxy_sync lm up fixed6 json_f64 disk now customer_key req pricing markup_pct st = (st', Some (Ok r)) \<and>
    mr_customer_cost r = 0 \<and> get_balance st' (ck_key_id k) = ck_balance k"
proof -
  have free: "route_cost (OpenRouter m) i out pricing markup_pct = (0, 0)" for i out
    using unpriced_cost [of pricing, OF assms(6,7)] by (simp add: route_cost_def)
  have g: "get_key st (ck_key_id k) = Some k" using validate_key_wf [OF assms(1)] assms(2) by blast
  obtain i out where u: "extract_usage (JObject body_fields) = (i, out)" by fastforce
  obtain s1 rem where s1: "settle disk now (ck_key_id k) i out 0 st = (s1, rem)" by fastforce
  note ch = settle_charges [OF g, of disk now i out 0, unfolded s1, simplified]
  show ?thesis
    using assms(2,3,5,8) ch(2) assms(4) by (simp add: metered_proxy_sync_def Let_def free u s1 get_balance_def)
qed

text \<open>
  No service answers: none is configured, or the connection or the status of its reply is an error.
\<close>

fun no_reply :: "'a reply \<Rightarrow> bool" where
  "no_reply (Reply _) = False"
| "no_reply _ = True"

fun no_stream_answer :: "upstream \<Rightarrow> ResolvedBackend \<Rightarrow> ChatCompletionRequest \<Rightarrow> bool" where
  "no_stream_answer up (OpenRouter m) req =
     (case up_vault up of Some (Some key) \<Rightarrow> no_reply (up_stream up OPENROUTER_URL (Some key) m req) | _ \<Rightarrow> True)"
| "no_stream_answer up (LocalRoute b url m) req = no_reply (up_stream up (local_url url) None m req)"

fun no_answer :: "upstream \<Rightarrow> ResolvedBackend \<Rightarrow> ChatCompletionRequest \<Rightarrow> bool" where
  "no_answer up (OpenRouter m) req =
     (case up_vault up of Some (Some key) \<Rightarrow> no_reply (up_post up OPENROUTER_URL (Some key) m req) | _ \<Rightarrow> True)"
| "no_answer up (LocalRoute b url m) req = no_reply (up_post up (local_url url) None m req)"

lemma no_stream_answer_fails:
  assumes "no_stream_answer up route req"
  shows "\<exists>e. call_resolved_backend_stream up parse on_data route req s = (s, Err (e, telemetry_empty))"
  using assms
  by (cases route) (auto simp: call_openai_compatible_stream_def split: option.splits reply.splits)

lemma no_answer_fails:
  assumes "no_answer up route req"
  shows "\<exists>e. call_resolved_backend up route req = Err e"
  using assms
  by (cases route) (auto simp: call_openai_compatible_def split: option.splits reply.splits)

text \<open>A stream that nobody answers is charged for the estimate of its input, like one that was answered.\<close>

lemma metered_stream_failed:
  assumes "store_wf (ks_data st)" "validate_key st customer_key = Some k" "ck_active k"
    "resolve_backend_for_request lm (cr_model req) = Ok route" "no_stream_answer up route req"
    "\<not> f64_lt (ck_balance k) (snd (route_cost route (estimate_request_input_tokens show_json req) (estimated_output req) pricing markup_pct))"
    "i = estimate_request_input_tokens show_json req" "cost = snd (route_cost route i 0 pricing markup_pct)"
  shows "\<exists>st' e r. metered_proxy_stream_sync lm up show_json parse fixed6 on_data disk now customer_key req pricing markup_pct (st, s) =
      ((st', s), Err (e, r)) \<and> ms_input r = i \<and> ms_output r = 0 \<and> ms_customer_cost r = cost \<and>
    get_key st' = (get_key st)(ck_key_id k \<mapsto> charged now i 0 cost k)"
proof -
  have g: "get_key st (ck_key_id k) = Some k" using validate_key_wf [OF assms(1)] assms(2) by blast
  obtain uc where c: "route_cost route i 0 pricing markup_pct = (uc, cost)" using assms(8) by (metis prod.collapse)
  obtain s1 rem where s1: "settle disk now (ck_key_id k) i 0 cost st = (s1, rem)" by fastforce
  note ch = settle_charges [OF g, of disk now i 0 cost, unfolded s1, simplified]
  have t: "estimate_text_tokens [] = 0" by (simp add: estimate_text_tokens_def)
  obtain e where "call_resolved_backend_stream up parse on_data route req s = (s, Err (e, telemetry_empty))"
    using no_stream_answer_fails [OF assms(5), of parse on_data s] by blast
  then show ?thesis
    using assms(2-4,6) ch
    by (simp add: metered_proxy_stream_sync_def Let_def telemetry_empty_def unwrap_or_def c s1 get_balance_def g t flip: assms(7))
qed

end
