(* ===== verification/Metered_Api.thy ===== *)
theory Metered_Api
  imports Metering
begin

text \<open>
  Metered storage (\<^verbatim>\<open>src/halo/pinata.rs\<close>), the governor of the proxy (\<^verbatim>\<open>ProxyGovernorRuntime\<close> of
  \<^verbatim>\<open>src/halo/proxy.rs\<close>) over the registry of governors, and the endpoint that puts the parts of a metered
  request together.  An instant is a number of nanoseconds; the locks are not poisoned.
\<close>

section \<open>Storage\<close>

record PinJsonRequest =
  pj_content :: json
  pj_name :: "string option"
  pj_metadata :: "json option"

record PinataConfig =
  pn_api_base :: string
  pn_cost_per_pin :: f64

record StorageResult =
  sr_hash :: string
  sr_size :: u64
  sr_cost :: f64
  sr_remaining :: f64

definition pin_payload :: "PinJsonRequest \<Rightarrow> json" where
  "pin_payload req =
     (let meta = (case pj_name req of None \<Rightarrow> [] | Some n \<Rightarrow> [(''name'', JString n)]) @
                 (case pj_metadata req of None \<Rightarrow> [] | Some m \<Rightarrow> [(''keyvalues'', m)])
      in json_object ((''pinataContent'', pj_content req) #
           (if meta = [] then [] else [(''pinataMetadata'', json_object meta)])))"

definition sanitize_pinata_error :: "string \<Rightarrow> string" where
  "sanitize_pinata_error msg =
     (if contains_text msg ''Bearer'' \<or> contains_text msg ''eyJ'' then ''storage service error (credentials redacted)''
      else ''storage service error: '' @ msg)"

definition call_pinata_pin_json ::
  "(string \<Rightarrow> string \<Rightarrow> json \<Rightarrow> json reply) \<Rightarrow> string \<Rightarrow> string \<Rightarrow> PinJsonRequest \<Rightarrow> string + json" where
  "call_pinata_pin_json post api_base jwt req =
     (case post (api_base @ ''/pinning/pinJSONToIPFS'') jwt (pin_payload req) of
        SendError e \<Rightarrow> Err (sanitize_pinata_error e)
      | ReplyError e \<Rightarrow> Err e
      | Reply body \<Rightarrow>
          (case json_get ''error'' body of
             Some err \<Rightarrow>
               Err (''Pinata error: '' @ unwrap_or (Option.bind (json_get ''reason'' err) as_str) ''unknown Pinata error'')
           | None \<Rightarrow> Ok body))"

definition metered_pin_json ::
  "(string \<Rightarrow> string \<Rightarrow> json \<Rightarrow> json reply) \<Rightarrow> string option \<Rightarrow> PinataConfig \<Rightarrow> (f64 \<Rightarrow> string) \<Rightarrow> bool \<Rightarrow> u64 \<Rightarrow> string \<Rightarrow>
    PinJsonRequest \<Rightarrow> f64 \<Rightarrow> CustomerKeyStore \<Rightarrow> CustomerKeyStore \<times> (string + StorageResult)" where
  "metered_pin_json post jwt_key cfg fixed6 disk now customer_key req markup_pct st =
     (case validate_key st customer_key of
        None \<Rightarrow> (st, Err ''invalid API key'')
      | Some customer \<Rightarrow>
          if \<not> ck_active customer then (st, Err ''API key is suspended'')
          else (let cost = f64_mul (pn_cost_per_pin cfg) (f64_add f64_one (f64_div markup_pct f64_hundred));
                    balance = get_balance st (ck_key_id customer)
                in if f64_lt balance cost
                   then (st, Err (''insufficient balance: $'' @ fixed6 balance @ '' available, pin cost $'' @ fixed6 cost))
                   else (case jwt_key of
                           None \<Rightarrow> (st, Err ''storage service unavailable: Pinata not configured'')
                         | Some jwt \<Rightarrow>
                             (case call_pinata_pin_json post (pn_api_base cfg) jwt req of
                                Inl e \<Rightarrow> (st, Err e)
                              | Inr result \<Rightarrow>
                                  (case Option.bind (json_get ''IpfsHash'' result) as_str of
                                     None \<Rightarrow> (st, Err ''Pinata response missing IpfsHash'')
                                   | Some h \<Rightarrow>
                                       (case settle disk now (ck_key_id customer) 0 0 cost st of
                                          (st', remaining) \<Rightarrow>
                                            (st', Ok \<lparr>sr_hash = h,
                                                     sr_size = unwrap_or (Option.bind (json_get ''PinSize'' result) as_u64) 0,
                                                     sr_cost = cost, sr_remaining = remaining\<rparr>)))))))"

section \<open>The governor of the proxy\<close>

record ProxyGovernorRuntime =
  pg_registry :: GovernorRegistry
  pg_in_flight :: nat
  pg_latency :: "f64 option"
  pg_last_latency :: "nat option"
  pg_cost :: "f64 option"
  pg_last_cost :: "nat option"

datatype ProxyError = RegistryProblem RegistryError | Backpressure nat f64 | CostRejected f64 f64

definition in_flight_limit :: "f64 \<Rightarrow> nat" where
  "in_flight_limit eps = f64_to_usize (f64_max (f64_ceil eps) f64_one)"

definition try_acquire :: "ProxyGovernorRuntime \<Rightarrow> ProxyError + ProxyGovernorRuntime" where
  "try_acquire rt =
     (case snapshot_one ''gov-proxy'' (pg_registry rt) of
        Inl e \<Rightarrow> Err (RegistryProblem e)
      | Inr s \<Rightarrow>
          if pg_in_flight rt \<ge> in_flight_limit (gs_epsilon s) then Err (Backpressure (pg_in_flight rt) (gs_epsilon s))
          else Ok (rt\<lparr>pg_in_flight := pg_in_flight rt + 1\<rparr>))"

text \<open>Dropping a permit; the subtraction saturates.\<close>

definition drop_permit :: "ProxyGovernorRuntime \<Rightarrow> ProxyGovernorRuntime" where
  "drop_permit rt = rt\<lparr>pg_in_flight := pg_in_flight rt - 1\<rparr>"

definition admit_estimated_cost :: "f64 \<Rightarrow> ProxyGovernorRuntime \<Rightarrow> ProxyError + unit" where
  "admit_estimated_cost cost rt =
     (case snapshot_one ''gov-cost'' (pg_registry rt) of
        Inl e \<Rightarrow> Err (RegistryProblem e)
      | Inr s \<Rightarrow> if f64_lt (gs_epsilon s) cost then Err (CostRejected cost (gs_epsilon s)) else Ok ())"

abbreviation f64_0_9 :: f64 where
  "f64_0_9 \<equiv> 0x3feccccccccccccd"

abbreviation f64_0_1 :: f64 where
  "f64_0_1 \<equiv> 0x3fb999999999999a"

definition ewma :: "f64 option \<Rightarrow> f64 \<Rightarrow> f64" where
  "ewma previous sample =
     (case previous of None \<Rightarrow> sample | Some p \<Rightarrow> f64_add (f64_mul p f64_0_9) (f64_mul sample f64_0_1))"

text \<open>\<^verbatim>\<open>Duration::as_secs_f64\<close>.\<close>

definition secs_f64 :: "nat \<Rightarrow> f64" where
  "secs_f64 n = f64_add (f64_of_nat (n div 10 ^ 9)) (f64_div (f64_of_nat (n mod 10 ^ 9)) 0x41cdcd6500000000)"

definition observe_instance ::
  "u64 \<Rightarrow> string \<Rightarrow> f64 \<Rightarrow> ProxyGovernorRuntime \<Rightarrow> ProxyGovernorRuntime \<times> (RegistryError + GovernorSnapshot)" where
  "observe_instance unix i signal rt =
     (case registry_observe unix i signal (pg_registry rt) of
        Inl e \<Rightarrow> (rt, Err e)
      | Inr (reg, _) \<Rightarrow> (rt\<lparr>pg_registry := reg\<rparr>, snapshot_one i reg))"

definition record_latency ::
  "u64 \<Rightarrow> nat \<Rightarrow> nat \<Rightarrow> ProxyGovernorRuntime \<Rightarrow> ProxyGovernorRuntime \<times> (RegistryError + GovernorSnapshot)" where
  "record_latency unix now elapsed rt =
     (let updated = ewma (pg_latency rt) (secs_f64 elapsed)
      in observe_instance unix ''gov-proxy'' updated (rt\<lparr>pg_latency := Some updated, pg_last_latency := Some now\<rparr>))"

definition record_cost ::
  "u64 \<Rightarrow> nat \<Rightarrow> f64 \<Rightarrow> ProxyGovernorRuntime \<Rightarrow> ProxyGovernorRuntime \<times> (RegistryError + GovernorSnapshot)" where
  "record_cost unix now cost rt =
     (let sixtieth = f64_div f64_one 0x404e000000000000;
          elapsed_minutes = f64_max
            (case pg_last_cost rt of
               None \<Rightarrow> sixtieth | Some previous \<Rightarrow> f64_div (secs_f64 (now - previous)) 0x404e000000000000) sixtieth;
          updated = ewma (pg_cost rt) (f64_div cost elapsed_minutes)
      in observe_instance unix ''gov-cost'' updated (rt\<lparr>pg_cost := Some updated, pg_last_cost := Some now\<rparr>))"

definition idle_since :: "nat \<Rightarrow> nat \<Rightarrow> nat option \<Rightarrow> bool" where
  "idle_since now idle_for sample = (case sample of None \<Rightarrow> True | Some t \<Rightarrow> now - t \<ge> idle_for)"

definition soft_reset_if_quiescent ::
  "nat \<Rightarrow> nat \<Rightarrow> ProxyGovernorRuntime \<Rightarrow> ProxyGovernorRuntime \<times> (RegistryError + unit)" where
  "soft_reset_if_quiescent now idle_for rt =
     (let cost_part = (\<lambda>rt.
        if idle_since now idle_for (pg_last_cost rt) then
          (case registry_soft_reset ''gov-cost'' (pg_registry rt) of
             Inl e \<Rightarrow> (rt, Err e)
           | Inr reg \<Rightarrow> (rt\<lparr>pg_registry := reg, pg_cost := None, pg_last_cost := None\<rparr>, Ok ()))
        else (rt, Ok ()))
      in if pg_in_flight rt \<noteq> 0 then (rt, Ok ())
         else if idle_since now idle_for (pg_last_latency rt) then
           (case registry_soft_reset ''gov-proxy'' (pg_registry rt) of
              Inl e \<Rightarrow> (rt, Err e)
            | Inr reg \<Rightarrow> cost_part (rt\<lparr>pg_registry := reg, pg_latency := None, pg_last_latency := None\<rparr>))
         else cost_part rt)"

section \<open>The endpoint\<close>

definition extract_bearer_token :: "string option \<Rightarrow> ApiError + string" where
  "extract_bearer_token header =
     (case header of
        None \<Rightarrow> Err (Unauthorized ''missing Authorization header'')
      | Some raw \<Rightarrow>
          if starts_with raw ''Bearer '' \<and> trim (drop 7 raw) \<noteq> [] then Ok (trim (drop 7 raw))
          else Err (Unauthorized ''expected Authorization: Bearer <api_key>''))"

record proxy_state =
  px_store :: CustomerKeyStore
  px_governor :: ProxyGovernorRuntime

text \<open>
  An answer is a body or a stream: the stream is filled by a task of its own, \<open>run_stream_task\<close>, that holds the
  permit until it ends.  \<open>now\<close> is the time of day, \<open>t0\<close> and \<open>t1\<close> are the instants before and after the
  call, and \<open>show_error\<close> prints the errors of the governor.
\<close>

datatype chat_answer = ChatBody json | ChatStream

definition record_call :: "u64 \<Rightarrow> nat \<Rightarrow> nat \<Rightarrow> f64 \<Rightarrow> ProxyGovernorRuntime \<Rightarrow> ProxyGovernorRuntime" where
  "record_call now t0 t1 cost rt = fst (record_cost now t1 cost (fst (record_latency now t1 (t1 - t0) rt)))"

definition run_stream_task ::
  "local_models \<Rightarrow> upstream \<Rightarrow> (json \<Rightarrow> string) \<Rightarrow> (string \<Rightarrow> json option) \<Rightarrow> (f64 \<Rightarrow> string) \<Rightarrow>
    ('s \<Rightarrow> string \<Rightarrow> 's \<times> (string + unit)) \<Rightarrow> ProxyConfig \<Rightarrow> (string \<rightharpoonup> ModelPricing) \<Rightarrow> bool \<Rightarrow> u64 \<Rightarrow> nat \<Rightarrow> nat \<Rightarrow> string \<Rightarrow>
    ChatCompletionRequest \<Rightarrow> proxy_state \<times> 's \<Rightarrow> (proxy_state \<times> 's) \<times> (string \<times> MeteredStreamResult + MeteredStreamResult)" where
  "run_stream_task lm up show_json parse fixed6 on_data cfg pricing disk now t0 t1 customer_key req pxs =
     (let ((st', s'), res) = metered_proxy_stream_sync lm up show_json parse fixed6 on_data disk now customer_key
            (req\<lparr>cr_stream := Some True\<rparr>) pricing (pc_markup cfg) (px_store (fst pxs), snd pxs);
          cost = ms_customer_cost (case res of Inl (_, settled) \<Rightarrow> settled | Inr settled \<Rightarrow> settled)
      in ((\<lparr>px_store = st', px_governor = drop_permit (record_call now t0 t1 cost (px_governor (fst pxs)))\<rparr>, s'), res))"

definition api_metered_proxy_chat ::
  "local_models \<Rightarrow> upstream \<Rightarrow> (json \<Rightarrow> string) \<Rightarrow> (f64 \<Rightarrow> string) \<Rightarrow> (f64 \<Rightarrow> json) \<Rightarrow> (ProxyError \<Rightarrow> string) \<Rightarrow> ProxyConfig \<Rightarrow>
    (string \<rightharpoonup> ModelPricing) \<Rightarrow> bool \<Rightarrow> u64 \<Rightarrow> nat \<Rightarrow> nat \<Rightarrow> string option \<Rightarrow> ChatCompletionRequest \<Rightarrow> proxy_state \<Rightarrow>
    proxy_state \<times> (ApiError + chat_answer)" where
  "api_metered_proxy_chat lm up show_json fixed6 json_f64 show_error cfg pricing disk now t0 t1 header req px =
     (if \<not> pc_enabled cfg then (px, Err (Forbidden ''metered proxy is disabled by operator''))
      else (case extract_bearer_token header of
              Inl e \<Rightarrow> (px, Err e)
            | Inr customer_key \<Rightarrow>
                (case validate_key (px_store px) customer_key of
                   None \<Rightarrow> (px, Err (Unauthorized ''invalid API key''))
                 | Some customer \<Rightarrow>
                     if \<not> ck_active customer then (px, Err (Forbidden ''API key is suspended''))
                     else if 0 < pc_daily_limit cfg \<and> pc_daily_limit cfg < today_tokens now (ck_key_id customer) (px_store px)
                     then (px, Err (TooManyRequests ''daily token limit reached for API key''))
                     else (case admit_estimated_cost
                                  (snd (estimate_marked_up_request_cost lm show_json req pricing (pc_markup cfg)))
                                  (px_governor px) of
                             Inl e \<Rightarrow> (px, Err (TooManyRequests (show_error e)))
                           | Inr _ \<Rightarrow>
                               (case try_acquire (px_governor px) of
                                  Inl e \<Rightarrow> (px, Err (TooManyRequests (show_error e)))
                                | Inr rt \<Rightarrow>
                                    if unwrap_or (cr_stream req) False then (px\<lparr>px_governor := rt\<rparr>, Ok ChatStream)
                                    else (case metered_proxy_sync lm up fixed6 json_f64 disk now customer_key req pricing
                                                 (pc_markup cfg) (px_store px) of
                                            (st', None) \<Rightarrow>
                                              (px\<lparr>px_store := st', px_governor := drop_permit rt\<rparr>,
                                               Err (Internal ''metered proxy task join''))
                                          | (st', Some (Inl e)) \<Rightarrow>
                                              (px\<lparr>px_store := st', px_governor := drop_permit rt\<rparr>, Err (BadRequest e))
                                          | (st', Some (Inr res)) \<Rightarrow>
                                              (px\<lparr>px_store := st',
                                                  px_governor := record_call now t0 t1 (mr_customer_cost res) (drop_permit rt)\<rparr>,
                                               Ok (ChatBody (mr_body res)))))))))"

section \<open>Permits\<close>

lemma observe_instance_in_flight [simp]: "pg_in_flight (fst (observe_instance unix i x rt)) = pg_in_flight rt"
  by (simp add: observe_instance_def split: sum.split prod.split)

lemma record_call_in_flight [simp]: "pg_in_flight (record_call now t0 t1 c rt) = pg_in_flight rt"
  by (simp add: record_call_def record_cost_def record_latency_def Let_def)

lemma try_acquire_in_flight:
  "try_acquire rt = Ok rt' \<Longrightarrow> pg_in_flight rt' = Suc (pg_in_flight rt) \<and>
    (\<exists>s. snapshot_one ''gov-proxy'' (pg_registry rt) = Ok s \<and> pg_in_flight rt' \<le> in_flight_limit (gs_epsilon s))"
  by (auto simp: try_acquire_def split: sum.splits if_splits)

text \<open>A request keeps a permit exactly when it answers with a stream, whose task gives it back.\<close>

lemma chat_permits:
  assumes "api_metered_proxy_chat lm up show_json fixed6 json_f64 show_error cfg pricing disk now t0 t1 header req px = (px', res)"
  shows "pg_in_flight (px_governor px') = pg_in_flight (px_governor px) + (if res = Ok ChatStream then 1 else 0)"
  using assms
  by (auto simp: api_metered_proxy_chat_def drop_permit_def dest!: try_acquire_in_flight
      split: if_splits sum.splits option.splits prod.splits)

lemma stream_task_permits:
  "run_stream_task lm up show_json parse fixed6 on_data cfg pricing disk now t0 t1 customer_key req pxs = (pxs', res) \<Longrightarrow>
   pg_in_flight (px_governor (fst pxs')) = pg_in_flight (px_governor (fst pxs)) - 1"
  by (auto simp: run_stream_task_def drop_permit_def Let_def split: prod.splits)

end
