(* ===== verification/Billing.thy ===== *)
theory Billing
  imports Funding Metered_Api
begin

text \<open>
  The operations on the key store together: every call of the administrator, of the funding webhook
  and of the metered services is a step, and so is a restart that reads the file again.  Each keeps
  the agreement of keys and index, in memory and on disk.
\<close>

section \<open>Steps\<close>

inductive key_step :: "CustomerKeyStore \<Rightarrow> CustomerKeyStore \<Rightarrow> bool" where
  step_create:
    "get_key st (key_id_of rnd8) = None \<Longrightarrow> sd_index (ks_data st) (api_key_of rnd24) = None \<Longrightarrow>
     key_step st (fst (api_admin_create_key auth disk rnd8 rnd24 now label balance st))"
| step_revoke: "key_step st (fst (api_admin_revoke_key auth disk key_id st))"
| step_add: "key_step st (fst (api_admin_add_balance auth disk key_id amount st))"
| step_active: "key_step st (fst (api_admin_set_active auth disk active key_id st))"
| step_fund: "key_step (fn_store fs) (fn_store (fst (api_admin_fund_balance env auth disk now key_id header req fs)))"
| step_chat:
    "key_step (px_store px) (px_store (fst (api_metered_proxy_chat lm up show_json fixed6 json_f64 show_error cfg pricing
       disk now t0 t1 header req px)))"
| step_stream:
    "key_step (px_store px) (px_store (fst (fst (run_stream_task lm up show_json parse fixed6
       (on_data :: string list \<Rightarrow> string \<Rightarrow> string list \<times> (string + unit)) cfg pricing disk now t0 t1 customer_key req (px, s)))))"
| step_pin: "key_step st (fst (metered_pin_json post jwt cfg fixed6 disk now customer_key preq markup_pct st))"
| step_restart: "key_step st (open_store (ks_disk st))"

definition store_ok :: "CustomerKeyStore \<Rightarrow> bool" where
  "store_ok st \<longleftrightarrow> store_wf (ks_data st) \<and> (\<forall>data. ks_disk st = Some data \<longrightarrow> store_wf data)"

abbreviation reachable_store :: "CustomerKeyStore \<Rightarrow> bool" where
  "reachable_store \<equiv> key_step\<^sup>*\<^sup>* (open_store None)"

section \<open>Every operation keeps the agreement\<close>

lemma store_ok_persist: "store_ok st \<Longrightarrow> store_wf (ks_data st') \<Longrightarrow> ks_disk st' = ks_disk st \<Longrightarrow> store_ok (persist disk st')"
  by (auto simp: store_ok_def persist_def written_form_def split: if_splits)

lemma store_key_disk [simp]: "ks_disk (store_key key_id k st) = ks_disk st"
  by (simp add: store_key_def)

lemma store_ok_update:
  assumes "store_ok st" "get_key st key_id = Some k" "ck_key_id k' = ck_key_id k" "ck_api_key k' = ck_api_key k"
  shows "store_ok (persist disk (store_key key_id k' st))"
  using assms store_wf_set_key [of st key_id k k'] by (intro store_ok_persist [of st]) (simp_all add: store_ok_def)

lemma store_ok_add: "store_ok st \<Longrightarrow> store_ok (fst (add_balance disk key_id amount st))"
  by (auto simp: add_balance_def Let_def split: option.split intro: store_ok_update)

lemma store_ok_deduct: "store_ok st \<Longrightarrow> store_ok (fst (deduct_balance disk key_id amount st))"
  by (auto simp: deduct_balance_def Let_def split: option.split intro: store_ok_update)

lemma store_ok_usage: "store_ok st \<Longrightarrow> store_ok (record_usage disk now key_id i out c st)"
proof (cases "get_key st key_id")
  case None
  assume "store_ok st"
  then have "store_ok (persist disk st)" by (auto simp: store_ok_def persist_def written_form_def split: if_splits)
  then show ?thesis using None by (simp add: record_usage_def)
next
  case (Some k)
  assume "store_ok st"
  then show ?thesis using Some by (auto simp: record_usage_def Let_def intro: store_ok_update)
qed

lemma store_ok_settle: "store_ok st \<Longrightarrow> store_ok (fst (settle disk now key_id i out c st))"
  by (auto simp: settle_def split: prod.split intro!: store_ok_usage dest: store_ok_deduct [of st disk key_id c])

lemma store_ok_active: "store_ok st \<Longrightarrow> store_ok (fst (set_active disk active key_id st))"
  by (auto simp: set_active_def split: option.split intro: store_ok_update)

lemma store_ok_create:
  assumes "store_ok st" "get_key st (key_id_of rnd8) = None" "sd_index (ks_data st) (api_key_of rnd24) = None"
  shows "store_ok (fst (create_key disk rnd8 rnd24 now label balance st))"
proof -
  have "ck_api_key k \<noteq> api_key_of rnd24" if "sd_keys (ks_data st) i = Some k" for i k
    using assms(1,3) that unfolding store_ok_def store_wf_def by force
  moreover have "sd_index (ks_data st) a \<noteq> Some (key_id_of rnd8)" for a
    using assms(1,2) unfolding store_ok_def store_wf_def get_key_def by fastforce
  ultimately show ?thesis
    using assms unfolding create_key_def Let_def fst_conv
    by (intro store_ok_persist [of st]) (auto simp: store_ok_def store_wf_def get_key_def)
qed

lemma store_ok_revoke:
  assumes "store_ok st"
  shows "store_ok (fst (revoke_key disk key_id st))"
proof (cases "get_key st key_id")
  case (Some k)
  have wf: "store_wf (ks_data st)" using assms by (simp add: store_ok_def)
  have k: "ck_key_id k = key_id" "sd_index (ks_data st) (ck_api_key k) = Some key_id"
    using wf Some unfolding store_wf_def get_key_def by blast+
  have "ck_api_key k' \<noteq> ck_api_key k" if "sd_keys (ks_data st) i = Some k'" "i \<noteq> key_id" for i k'
    using wf that k unfolding store_wf_def by fastforce
  moreover have "i \<noteq> key_id" if "sd_index (ks_data st) a = Some i" "a \<noteq> ck_api_key k" for a i
    using wf that Some unfolding store_wf_def get_key_def by fastforce
  ultimately have "store_wf \<lparr>sd_keys = (sd_keys (ks_data st))(key_id := None), sd_index = (sd_index (ks_data st))(ck_api_key k := None)\<rparr>"
    using wf unfolding store_wf_def by (auto split: if_splits)
  then show ?thesis using assms Some by (simp add: revoke_key_def store_ok_persist [of st])
qed (use assms in \<open>simp add: revoke_key_def\<close>)

lemmas store_ok_ops = store_ok_add store_ok_settle store_ok_active store_ok_revoke

lemma store_ok_fund: "store_ok (fn_store fs) \<Longrightarrow> store_ok (fn_store (fst (api_admin_fund_balance env auth disk now key_id header req fs)))"
  using store_ok_add [of "fn_store fs" disk key_id]
  by (auto simp: api_admin_fund_balance_def Let_def split: sum.split prod.split) (metis fst_conv)+

lemma store_ok_metered:
  "store_ok st \<Longrightarrow> store_ok (fst (metered_proxy_sync lm up fixed6 json_f64 disk now customer_key req pricing markup_pct st))"
  by (auto simp: metered_proxy_sync_def Let_def split: option.split sum.split prod.split)
    (metis fst_conv store_ok_settle)+

lemma store_ok_stream:
  "store_ok (fst sts) \<Longrightarrow> store_ok (fst (fst (metered_proxy_stream_sync lm up show_json parse fixed6 on_data disk now customer_key req pricing markup_pct sts)))"
  by (auto simp: metered_proxy_stream_sync_def Let_def split: option.split sum.split prod.split)
    (metis fst_conv store_ok_settle)+

lemma store_ok_task:
  "store_ok (px_store (fst pxs)) \<Longrightarrow> store_ok (px_store (fst (fst (run_stream_task lm up show_json parse fixed6 on_data cfg pricing
     disk now t0 t1 customer_key req pxs))))"
  using store_ok_stream [of "(px_store (fst pxs), snd pxs)" lm up show_json parse fixed6 on_data disk now customer_key
      "req\<lparr>cr_stream := Some True\<rparr>" pricing "pc_markup cfg"]
  by (auto simp: run_stream_task_def Let_def split: prod.split)

lemma store_ok_pin:
  "store_ok st \<Longrightarrow> store_ok (fst (metered_pin_json post jwt cfg fixed6 disk now customer_key preq markup_pct st))"
  by (auto simp: metered_pin_json_def Let_def split: option.split sum.split prod.split)
    (metis fst_conv store_ok_settle)+

lemma store_ok_chat:
  "store_ok (px_store px) \<Longrightarrow> store_ok (px_store (fst (api_metered_proxy_chat lm up show_json fixed6 json_f64 show_error cfg pricing
     disk now t0 t1 header req px)))"
  using store_ok_metered [of "px_store px" lm up fixed6 json_f64 disk now _ req pricing "pc_markup cfg"]
  by (auto simp: api_metered_proxy_chat_def Let_def split: option.split sum.split prod.split) (metis fst_conv)+

lemma store_ok_step: "key_step st st' \<Longrightarrow> store_ok st \<Longrightarrow> store_ok st'"
proof (induction rule: key_step.induct)
  case (step_create st rnd8 rnd24 auth disk now label balance)
  then show ?case
    using store_ok_create [of st rnd8 rnd24 disk now "trim label" "f64_max (unwrap_or balance 0) 0"]
    by (auto simp: api_admin_create_key_def split: prod.split)
next
  case (step_revoke st auth disk key_id)
  then show ?case using store_ok_revoke [of st disk key_id] by (auto simp: api_admin_revoke_key_def split: prod.split)
next
  case (step_add st auth disk key_id amount)
  then show ?case using store_ok_add [of st disk key_id amount] by (auto simp: api_admin_add_balance_def split: prod.split)
next
  case (step_active st auth disk active key_id)
  then show ?case
    using store_ok_active [of st disk active key_id]
    by (cases active) (auto simp: api_admin_set_active_def activate_key_def suspend_key_def split: prod.split)
next
  case (step_restart st)
  then show ?case by (cases "ks_disk st") (auto simp: open_store_def store_ok_def unwrap_or_def store_wf_def)
qed (simp_all add: store_ok_fund store_ok_chat store_ok_task store_ok_pin)

lemma reachable_store_ok: "reachable_store st \<Longrightarrow> store_ok st"
proof (induction rule: rtranclp_induct)
  case base
  then show ?case by (simp add: open_store_def store_ok_def unwrap_or_def store_wf_def)
qed (rule store_ok_step)

end
