(* ===== verification/Persistence.thy ===== *)
theory Persistence
  imports Protocol_Reads
begin

text \<open>
  \<^verbatim>\<open>src/persistence.rs\<close>: snapshots and the write-ahead log in redb files.

  A redb file is the contents of its three tables; a table that was never opened for
  writing does not exist.  The JSON coding of the payloads is the parameter \<open>json_codec\<close>, which
  may fail in both directions; defaults of missing fields happen inside it.  The medium is
  reliable: creating, opening, committing and renaming do not fail, except that a missing
  file or table cannot be read.  A transaction that returns early is dropped, so only the
  empty file its opening created remains.  Panics of \<^verbatim>\<open>NucleusDb::new\<close> are \<open>None\<close>.
\<close>

section \<open>Data\<close>

datatype PersistenceError =
    PersistIo string
  | Redb string
  | JsonError string
  | MissingSnapshot
  | MissingWalMeta
  | WalMetaMismatch string
  | SchemaMismatch string string

record SnapshotV1 =
  snap_schema :: string
  snap_backend :: VcBackend
  snap_security_params :: ParameterSet
  snap_reduction_contracts :: "ReductionContract list"
  snap_kzg_trusted_setup :: "TrustedSetupArtifact option"
  snap_state :: State
  snap_entries :: "CommitEntry list"
  snap_ct_leaves :: "node_hash list"
  snap_current_sth :: "SignedTreeHead option"
  snap_keymap :: "KeyMap option"
  snap_write_mode :: WriteMode
  snap_monotone_seals :: "node_hash list"
  snap_type_map :: "TypeMap option"
  snap_blob_store :: "BlobStore option"
  snap_vector_index :: "VectorIndex option"

record WalMetaV1 =
  meta_schema :: string
  meta_backend :: VcBackend
  meta_security_params :: ParameterSet
  meta_reduction_contracts :: "ReductionContract list"
  meta_kzg_trusted_setup :: "TrustedSetupArtifact option"
  meta_initial_state :: State
  meta_keymap :: "KeyMap option"
  meta_write_mode :: WriteMode
  meta_type_map :: "TypeMap option"
  meta_blob_store :: "BlobStore option"
  meta_vector_index :: "VectorIndex option"

record WalEventV1 =
  event_schema :: string
  event_seq :: u64
  event_delta :: Delta
  event_entry :: CommitEntry
  event_ct_leaf :: node_hash

record json_codec =
  snap_to_vec :: "SnapshotV1 \<Rightarrow> string + bytes"
  snap_from_slice :: "bytes \<Rightarrow> string + SnapshotV1"
  meta_to_vec :: "WalMetaV1 \<Rightarrow> string + bytes"
  meta_from_slice :: "bytes \<Rightarrow> string + WalMetaV1"
  event_to_vec :: "WalEventV1 \<Rightarrow> string + bytes"
  event_from_slice :: "bytes \<Rightarrow> string + WalEventV1"

record redb_file =
  snap_table :: "(string, bytes) btree_map option"
  wal_meta_table :: "(string, bytes) btree_map option"
  wal_events_table :: "(u64, bytes) btree_map option"

type_synonym disk = "string \<Rightarrow> redb_file option"

definition empty_file :: redb_file where
  "empty_file = \<lparr>snap_table = None, wal_meta_table = None, wal_events_table = None\<rparr>"

text \<open>\<^verbatim>\<open>Database::create\<close> opens the file, or makes an empty one.\<close>

definition create_file :: "disk \<Rightarrow> string \<Rightarrow> redb_file" where
  "create_file disk path = (case disk path of Some f \<Rightarrow> f | None \<Rightarrow> empty_file)"

text \<open>\<^verbatim>\<open>open_table\<close> of a write transaction makes a missing table.\<close>

definition table :: "('k, 'v) btree_map option \<Rightarrow> ('k, 'v) btree_map" where
  "table t = (case t of Some m \<Rightarrow> m | None \<Rightarrow> [])"

abbreviation "snapshot_schema \<equiv> ''nucleusdb/persistence-snapshot/v1''"
abbreviation "wal_meta_schema \<equiv> ''nucleusdb/persistence-wal-meta/v1''"
abbreviation "wal_event_schema \<equiv> ''nucleusdb/persistence-wal-event/v1''"

section \<open>Snapshots\<close>

definition snapshot_of :: "NucleusDb \<Rightarrow> SnapshotV1" where
  "snapshot_of db =
     \<lparr>snap_schema = snapshot_schema, snap_backend = backend db,
      snap_security_params = security_params db, snap_reduction_contracts = reduction_contracts db,
      snap_kzg_trusted_setup = kzg_trusted_setup db, snap_state = state db, snap_entries = entries db,
      snap_ct_leaves = ct_leaves db, snap_current_sth = current_sth db, snap_keymap = Some (keymap db),
      snap_write_mode = write_mode db, snap_monotone_seals = monotone_seals db,
      snap_type_map = Some (type_map db), snap_blob_store = Some (blob_store db),
      snap_vector_index = Some (vector_index db)\<rparr>"

definition save_snapshot ::
  "json_codec \<Rightarrow> string \<Rightarrow> NucleusDb \<Rightarrow> disk \<Rightarrow> disk \<times> (PersistenceError + unit)" where
  "save_snapshot j path db disk =
     (let f = create_file disk path
      in case snap_to_vec j (snapshot_of db) of
           Inl e \<Rightarrow> (disk(path \<mapsto> f), Err (JsonError e))
         | Inr raw \<Rightarrow>
             (disk(path \<mapsto> f\<lparr>snap_table := Some (bt_insert ''latest'' raw (table (snap_table f)))\<rparr>), Ok ()))"

text \<open>
  The outer option is the panic of \<^verbatim>\<open>NucleusDb::new\<close>; \<^verbatim>\<open>unwrap_or_default\<close> of a store makes a new
  one at the current time.
\<close>

definition restore ::
  "('f, 'poly, 'srs, 'g, 'p) db_env \<Rightarrow> u64 \<Rightarrow> WitnessConfig \<Rightarrow> SnapshotV1 \<Rightarrow> NucleusDb option" where
  "restore env now cfg s =
     (case db_new env now (snap_state s) (snap_backend s) cfg of
        None \<Rightarrow> None
      | Some db \<Rightarrow> Some (db
          \<lparr>security_params := snap_security_params s, reduction_contracts := snap_reduction_contracts s,
           kzg_trusted_setup := snap_kzg_trusted_setup s, state := snap_state s, entries := snap_entries s,
           ct_leaves := snap_ct_leaves s, current_sth := snap_current_sth s,
           keymap := (case snap_keymap s of Some km \<Rightarrow> km | None \<Rightarrow> keymap_new),
           write_mode := snap_write_mode s, monotone_seals := snap_monotone_seals s,
           type_map := (case snap_type_map s of Some tm \<Rightarrow> tm | None \<Rightarrow> type_map_new),
           blob_store := (case snap_blob_store s of Some b \<Rightarrow> b | None \<Rightarrow> blob_new now),
           vector_index := (case snap_vector_index s of Some v \<Rightarrow> v | None \<Rightarrow> vector_index_new now)\<rparr>))"

definition load_snapshot ::
  "('f, 'poly, 'srs, 'g, 'p) db_env \<Rightarrow> json_codec \<Rightarrow> u64 \<Rightarrow> string \<Rightarrow> WitnessConfig \<Rightarrow> disk \<Rightarrow>
    (PersistenceError + NucleusDb) option" where
  "load_snapshot env j now path cfg disk =
     (case disk path of
        None \<Rightarrow> Some (Err (Redb ''open''))
      | Some f \<Rightarrow>
          (case snap_table f of
             None \<Rightarrow> Some (Err (Redb ''table''))
           | Some t \<Rightarrow>
               (case bt_get t ''latest'' of
                  None \<Rightarrow> Some (Err MissingSnapshot)
                | Some raw \<Rightarrow>
                    (case snap_from_slice j raw of
                       Inl e \<Rightarrow> Some (Err (JsonError e))
                     | Inr s \<Rightarrow>
                         if snap_schema s \<noteq> snapshot_schema then
                           Some (Err (SchemaMismatch snapshot_schema (snap_schema s)))
                         else map_option Ok (restore env now cfg s)))))"

section \<open>The write-ahead log\<close>

definition wal_meta_of :: "NucleusDb \<Rightarrow> WalMetaV1" where
  "wal_meta_of db =
     \<lparr>meta_schema = wal_meta_schema, meta_backend = backend db, meta_security_params = security_params db,
      meta_reduction_contracts = reduction_contracts db, meta_kzg_trusted_setup = kzg_trusted_setup db,
      meta_initial_state = state db, meta_keymap = Some (keymap db), meta_write_mode = write_mode db,
      meta_type_map = Some (type_map db), meta_blob_store = Some (blob_store db),
      meta_vector_index = Some (vector_index db)\<rparr>"

text \<open>What an existing log must share with the database; modes and typed stores are not compared.\<close>

definition wal_meta_matches :: "WalMetaV1 \<Rightarrow> WalMetaV1 \<Rightarrow> bool" where
  "wal_meta_matches got expected \<longleftrightarrow>
     meta_backend got = meta_backend expected \<and> meta_security_params got = meta_security_params expected \<and>
     meta_reduction_contracts got = meta_reduction_contracts expected \<and>
     meta_kzg_trusted_setup got = meta_kzg_trusted_setup expected \<and>
     meta_initial_state got = meta_initial_state expected \<and>
     (case meta_keymap got of Some km \<Rightarrow> km | None \<Rightarrow> keymap_new) =
     (case meta_keymap expected of Some km \<Rightarrow> km | None \<Rightarrow> keymap_new)"

definition init_wal ::
  "json_codec \<Rightarrow> string \<Rightarrow> NucleusDb \<Rightarrow> disk \<Rightarrow> disk \<times> (PersistenceError + unit)" where
  "init_wal j path db disk =
     (let f = create_file disk path;
          meta = table (wal_meta_table f);
          events = table (wal_events_table f);
          expected = wal_meta_of db;
          aborted = disk(path \<mapsto> f);
          opened = f\<lparr>wal_meta_table := Some meta, wal_events_table := Some events\<rparr>
      in case bt_get meta ''meta'' of
           Some raw \<Rightarrow>
             (case meta_from_slice j raw of
                Inl e \<Rightarrow> (aborted, Err (JsonError e))
              | Inr got \<Rightarrow>
                  if meta_schema got \<noteq> wal_meta_schema then
                    (aborted, Err (SchemaMismatch wal_meta_schema (meta_schema got)))
                  else if \<not> wal_meta_matches got expected then
                    (aborted, Err (WalMetaMismatch
                       ''existing WAL metadata does not match tenant configuration''))
                  else (disk(path \<mapsto> opened), Ok ()))
         | None \<Rightarrow>
             (case meta_to_vec j expected of
                Inl e \<Rightarrow> (aborted, Err (JsonError e))
              | Inr raw \<Rightarrow>
                  (disk(path \<mapsto> opened\<lparr>wal_meta_table := Some (bt_insert ''meta'' raw meta)\<rparr>), Ok ())))"

definition append_wal_event ::
  "json_codec \<Rightarrow> string \<Rightarrow> Delta \<Rightarrow> NucleusDb \<Rightarrow> CommitEntry \<Rightarrow> disk \<Rightarrow>
    disk \<times> (PersistenceError + unit)" where
  "append_wal_event j path delta db entry disk =
     (let f = create_file disk path;
          meta = table (wal_meta_table f);
          events = table (wal_events_table f);
          aborted = disk(path \<mapsto> f)
      in case bt_get meta ''meta'' of
           None \<Rightarrow> (aborted, Err MissingWalMeta)
         | Some meta_raw \<Rightarrow>
             (case meta_from_slice j meta_raw of
                Inl e \<Rightarrow> (aborted, Err (JsonError e))
              | Inr got \<Rightarrow>
                  if meta_schema got \<noteq> wal_meta_schema then
                    (aborted, Err (SchemaMismatch wal_meta_schema (meta_schema got)))
                  else if ct_leaves db = [] then
                    (aborted, Err (WalMetaMismatch
                       ''cannot append WAL event: ct_leaves is empty after commit''))
                  else
                    let seq = of_nat (length (entries db));
                        payload = \<lparr>event_schema = wal_event_schema, event_seq = seq, event_delta = delta,
                                   event_entry = entry, event_ct_leaf = last (ct_leaves db)\<rparr>
                    in case event_to_vec j payload of
                         Inl e \<Rightarrow> (aborted, Err (JsonError e))
                       | Inr raw \<Rightarrow>
                           (disk(path \<mapsto> f\<lparr>wal_meta_table := Some meta,
                              wal_events_table := Some (bt_insert seq raw events)\<rparr>), Ok ())))"

text \<open>One row of the event table, in the order of its checks.\<close>

definition replay_event ::
  "json_codec \<Rightarrow> NucleusDb \<Rightarrow> u64 \<times> bytes \<Rightarrow> PersistenceError + NucleusDb" where
  "replay_event j db row =
     (case event_from_slice j (snd row) of
        Inl e \<Rightarrow> Err (JsonError e)
      | Inr ev \<Rightarrow>
          if event_schema ev \<noteq> wal_event_schema then
            Err (SchemaMismatch wal_event_schema (event_schema ev))
          else if event_seq ev \<noteq> fst row then
            Err (WalMetaMismatch (''WAL event sequence mismatch for key '' @ dec (unat (fst row)) @
              '': payload has '' @ dec (unat (event_seq ev))))
          else if height (event_entry ev) \<noteq> fst row then
            Err (WalMetaMismatch (''WAL event commit height mismatch for key '' @ dec (unat (fst row)) @
              '': entry has height '' @ dec (unat (height (event_entry ev)))))
          else Ok (db\<lparr>state := apply_delta (state db) (event_delta ev),
                      entries := entries db @ [event_entry ev],
                      ct_leaves := ct_leaves db @ [event_ct_leaf ev],
                      current_sth := Some (sth (event_entry ev))\<rparr>))"

fun replay_events ::
  "json_codec \<Rightarrow> NucleusDb \<Rightarrow> (u64 \<times> bytes) list \<Rightarrow> PersistenceError + NucleusDb" where
  "replay_events j db [] = Ok db"
| "replay_events j db (row # rows) =
     (case replay_event j db row of
        Inl e \<Rightarrow> Err e
      | Inr db' \<Rightarrow> replay_events j db' rows)"

definition wal_start ::
  "('f, 'poly, 'srs, 'g, 'p) db_env \<Rightarrow> u64 \<Rightarrow> WitnessConfig \<Rightarrow> WalMetaV1 \<Rightarrow> NucleusDb option" where
  "wal_start env now cfg m =
     (case db_new env now (meta_initial_state m) (meta_backend m) cfg of
        None \<Rightarrow> None
      | Some db \<Rightarrow> Some (db
          \<lparr>security_params := meta_security_params m, reduction_contracts := meta_reduction_contracts m,
           kzg_trusted_setup := meta_kzg_trusted_setup m, state := meta_initial_state m,
           keymap := (case meta_keymap m of Some km \<Rightarrow> km | None \<Rightarrow> keymap_new),
           write_mode := meta_write_mode m,
           type_map := (case meta_type_map m of Some tm \<Rightarrow> tm | None \<Rightarrow> type_map_new),
           blob_store := (case meta_blob_store m of Some b \<Rightarrow> b | None \<Rightarrow> blob_new now),
           vector_index := (case meta_vector_index m of Some v \<Rightarrow> v | None \<Rightarrow> vector_index_new now)\<rparr>))"

definition load_wal ::
  "('f, 'poly, 'srs, 'g, 'p) db_env \<Rightarrow> json_codec \<Rightarrow> u64 \<Rightarrow> string \<Rightarrow> WitnessConfig \<Rightarrow> disk \<Rightarrow>
    (PersistenceError + NucleusDb) option" where
  "load_wal env j now path cfg disk =
     (case disk path of
        None \<Rightarrow> Some (Err (Redb ''open''))
      | Some f \<Rightarrow>
          (case (wal_meta_table f, wal_events_table f) of
             (Some meta, Some events) \<Rightarrow>
               (case bt_get meta ''meta'' of
                  None \<Rightarrow> Some (Err MissingWalMeta)
                | Some raw \<Rightarrow>
                    (case meta_from_slice j raw of
                       Inl e \<Rightarrow> Some (Err (JsonError e))
                     | Inr m \<Rightarrow>
                         if meta_schema m \<noteq> wal_meta_schema then
                           Some (Err (SchemaMismatch wal_meta_schema (meta_schema m)))
                         else (case wal_start env now cfg m of
                                 None \<Rightarrow> None
                               | Some db \<Rightarrow> Some (replay_events j db events))))
           | _ \<Rightarrow> Some (Err (Redb ''table''))))"

text \<open>
  The name of the temporary file, which carries the time in nanoseconds, is an argument;
  the rename replaces the log.
\<close>

definition truncate_wal ::
  "json_codec \<Rightarrow> string \<Rightarrow> string \<Rightarrow> NucleusDb \<Rightarrow> disk \<Rightarrow> disk \<times> (PersistenceError + unit)" where
  "truncate_wal j tmp path db disk =
     (case init_wal j tmp db disk of
        (disk1, Inl e) \<Rightarrow> (disk1, Err e)
      | (disk1, Inr _) \<Rightarrow> (disk1(path := disk1 tmp, tmp := None), Ok ()))"

definition persist_snapshot_and_sync_wal ::
  "json_codec \<Rightarrow> string \<Rightarrow> string \<Rightarrow> string \<Rightarrow> NucleusDb \<Rightarrow> disk \<Rightarrow> disk \<times> (PersistenceError + unit)" where
  "persist_snapshot_and_sync_wal j tmp snapshot_path wal_path db disk =
     (case save_snapshot j snapshot_path db disk of
        (disk1, Inl e) \<Rightarrow> (disk1, Err e)
      | (disk1, Inr _) \<Rightarrow> truncate_wal j tmp wal_path db disk1)"

section \<open>Snapshots restore the database\<close>

text \<open>What the JSON crate promises of one value: it is written and read back.\<close>

definition codes :: "('a \<Rightarrow> string + bytes) \<Rightarrow> (bytes \<Rightarrow> string + 'a) \<Rightarrow> 'a \<Rightarrow> bool" where
  "codes to_vec from_slice x \<longleftrightarrow> (\<exists>raw. to_vec x = Ok raw \<and> from_slice raw = Ok x)"

lemma codesE:
  assumes "codes to_vec from_slice x" "to_vec x = Ok raw"
  shows "from_slice raw = Ok x"
  using assms by (auto simp: codes_def)

lemma db_new_frame:
  assumes "db_new env now initial b cfg = Some db"
  shows "backend db = b" "witness_cfg db = cfg" "entries db = []" "ct_leaves db = []"
    "current_sth db = None" "monotone_seals db = []"
  using assms by (auto simp: db_new_def with_security_def Let_def split: sum.splits)

lemma restore_snapshot_of:
  assumes "db_new env now (state db) (backend db) cfg \<noteq> None"
  shows "restore env now cfg (snapshot_of db) = Some (db\<lparr>witness_cfg := cfg\<rparr>)"
proof -
  obtain d where d: "db_new env now (state db) (backend db) cfg = Some d" using assms by blast
  then show ?thesis
    using db_new_frame(1,2) [OF d]
    by (cases db, cases d) (simp add: restore_def snapshot_of_def)
qed

lemma load_saved_snapshot:
  assumes "save_snapshot j path db disk = (disk', Ok ())"
    "codes (snap_to_vec j) (snap_from_slice j) (snapshot_of db)"
    "db_new env now (state db) (backend db) cfg \<noteq> None"
  shows "load_snapshot env j now path cfg disk' = Some (Ok (db\<lparr>witness_cfg := cfg\<rparr>))"
proof -
  obtain raw where raw: "snap_to_vec j (snapshot_of db) = Ok raw" "snap_from_slice j raw = Ok (snapshot_of db)"
    using assms(2) by (auto simp: codes_def)
  have "snap_schema (snapshot_of db) = snapshot_schema" by (simp add: snapshot_of_def)
  then show ?thesis
    using assms(1) raw restore_snapshot_of [OF assms(3)]
    by (auto simp: save_snapshot_def load_snapshot_def Let_def)
qed

section \<open>The log recovers what was committed\<close>

text \<open>
  A log started on an empty history, with every successful commit appended to it, and the database right after
  the last of them.  In between anything else may happen to the database: typed values and keys come, the mode
  changes, commits fail; other files may change too.
\<close>

inductive wal_run ::
  "('f::field, 'poly, 'srs, 'g, 'p) db_env \<Rightarrow> 'j tv_env \<Rightarrow> json_codec \<Rightarrow> string \<Rightarrow> NucleusDb \<Rightarrow> NucleusDb \<Rightarrow> NucleusDb \<Rightarrow>
    disk \<Rightarrow> bool"
  for env :: "('f, 'poly, 'srs, 'g, 'p) db_env" and tve :: "'j tv_env" and j path db0 where
  run_init: "entries db0 = [] \<Longrightarrow> ct_leaves db0 = [] \<Longrightarrow> current_sth db0 = None \<Longrightarrow> disk path = None \<Longrightarrow>
    init_wal j path db0 disk = (disk', Ok ()) \<Longrightarrow> wal_run env tve j path db0 db0 db0 disk'"
| run_append: "wal_run env tve j path db0 dbc db disk \<Longrightarrow> commit env now db delta views = Some (db', Ok e) \<Longrightarrow>
    append_wal_event j path delta db' e disk = (disk', Ok ()) \<Longrightarrow> wal_run env tve j path db0 db' db' disk'"
| run_step: "wal_run env tve j path db0 dbc db disk \<Longrightarrow> db_step env tve db db' \<Longrightarrow> entries db' = entries db \<Longrightarrow>
    wal_run env tve j path db0 dbc db' disk"
| run_keys: "wal_run env tve j path db0 dbc db disk \<Longrightarrow> wal_run env tve j path db0 dbc (db\<lparr>keymap := km\<rparr>) disk"
| run_elsewhere: "wal_run env tve j path db0 dbc db disk \<Longrightarrow> disk' path = disk path \<Longrightarrow>
    wal_run env tve j path db0 dbc db disk'"

text \<open>
  What a recovery returns: the history of one database with the keys, the typed stores and the mode of another,
  no seals, and the witnesses it was given.
\<close>

definition recovered :: "WitnessConfig \<Rightarrow> NucleusDb \<Rightarrow> NucleusDb \<Rightarrow> NucleusDb" where
  "recovered cfg db0 db =
     db0\<lparr>state := state db, entries := entries db, ct_leaves := ct_leaves db, current_sth := current_sth db,
         monotone_seals := [], witness_cfg := cfg\<rparr>"

definition wal_holds ::
  "json_codec \<Rightarrow> NucleusDb \<Rightarrow> NucleusDb \<Rightarrow> redb_file \<Rightarrow> bool" where
  "wal_holds j db0 db f \<longleftrightarrow>
     (\<exists>meta raw events. wal_meta_table f = Some meta \<and> bt_get meta ''meta'' = Some raw \<and>
        meta_to_vec j (wal_meta_of db0) = Ok raw \<and> wal_events_table f = Some events \<and>
        fst ` set events = of_nat ` {1..length (entries db)} \<and>
        (\<forall>cfg. replay_events j (recovered cfg db0 db0) events = Ok (recovered cfg db0 db)))"

text \<open>A step that writes no entry either leaves the history alone or adds a leaf without an entry.\<close>

lemma commit_no_entry:
  assumes "commit env now db delta views = Some (db', r)" "entries db' = entries db"
  shows "db' = db \<or> length (ct_leaves db') = Suc (length (ct_leaves db))"
  using assms(1)
proof (cases rule: commit_cases)
  case (logged nxt pf prev_root new_root db1 head)
  note fr = log_leaf_frame [OF logged(4)]
  from logged(5) show ?thesis
    using assms(2) fr by (cases rule: commit_finish_cases) simp_all
qed simp

definition equal_history :: "NucleusDb \<Rightarrow> NucleusDb \<Rightarrow> bool" where
  "equal_history db db' \<longleftrightarrow>
     state db' = state db \<and> entries db' = entries db \<and> ct_leaves db' = ct_leaves db \<and> current_sth db' = current_sth db"

lemma step_no_entry:
  assumes "db_step env tve db db'" "entries db' = entries db"
  shows "equal_history db db' \<or> length (ct_leaves db') = Suc (length (ct_leaves db))"
  using assms(1)
proof cases
  case (step_commit now delta views r)
  then show ?thesis using commit_no_entry [OF step_commit assms(2)] by (auto simp: equal_history_def)
next
  case (step_put now key v pr)
  then show ?thesis using put_typed_frame [OF step_put] by (simp add: equal_history_def)
next
  case (step_touch now key got)
  then show ?thesis using touching_frame [OF step_touch] by (auto simp: equal_history_def)
next
  case (step_tick now changed)
  then show ?thesis by (auto simp: aether_maintenance_tick_def case_prod_beta equal_history_def)
qed (auto simp: soft_reset_aether_memory_def set_append_only_def equal_history_def)

text \<open>
  As long as the leaves are as many as the entries, the database has the history of its last successful commit.
\<close>

lemma wal_run_synced:
  assumes "wal_run env tve j path db0 dbc db disk" "length (ct_leaves db) < 2 ^ 64 - 1"
  shows "entries dbc = entries db \<and> length (entries db) \<le> length (ct_leaves db) \<and>
    length (ct_leaves dbc) = length (entries dbc) \<and>
    (length (ct_leaves db) = length (entries db) \<longrightarrow> equal_history dbc db)"
  using assms
proof (induction rule: wal_run.induct)
  case (run_append dbc db disk now delta views db' e disk')
  have l: "ct_leaves db' = ct_leaves db @ [leaf_hash (env_sha256 env) (entry_payload e)]" "entries db' = entries db @ [e]"
    using commit_ok(2,3) [OF run_append(2)] by simp_all
  with run_append have "length (entries db) \<le> length (ct_leaves db)" "length (ct_leaves db) < 2 ^ 64 - 1" by auto
  then have "length (ct_leaves db) = length (entries db)" using commit_ok_synced [OF run_append(2)] by linarith
  with l show ?case by (simp add: equal_history_def)
next
  case (run_step dbc db disk db')
  from step_no_entry [OF run_step(2,3)] show ?case
  proof
    assume h: "equal_history db db'"
    then have "length (ct_leaves db) < 2 ^ 64 - 1" using run_step.prems by (simp only: equal_history_def)
    from run_step.IH [OF this] h show ?thesis by (simp add: equal_history_def)
  next
    assume l: "length (ct_leaves db') = Suc (length (ct_leaves db))"
    then have "length (ct_leaves db) < 2 ^ 64 - 1" using run_step.prems by linarith
    from run_step.IH [OF this] l show ?thesis by (simp add: run_step(3))
  qed
qed (simp_all add: equal_history_def)

text \<open>A recovery of the present history is the whole database exactly when nothing else changed.\<close>

definition same_stores :: "NucleusDb \<Rightarrow> NucleusDb \<Rightarrow> bool" where
  "same_stores db db' \<longleftrightarrow>
     backend db' = backend db \<and> keymap db' = keymap db \<and> security_params db' = security_params db \<and>
     reduction_contracts db' = reduction_contracts db \<and> kzg_trusted_setup db' = kzg_trusted_setup db \<and>
     write_mode db' = write_mode db \<and> type_map db' = type_map db \<and> blob_store db' = blob_store db \<and>
     vector_index db' = vector_index db"

lemma recovered_whole_iff:
  assumes "equal_history dbc db"
  shows "recovered cfg db0 dbc = db\<lparr>monotone_seals := [], witness_cfg := cfg\<rparr> \<longleftrightarrow> same_stores db0 db"
proof
  assume "recovered cfg db0 dbc = db\<lparr>monotone_seals := [], witness_cfg := cfg\<rparr>"
  then show "same_stores db0 db" by (cases db; cases db0; cases dbc) (simp add: recovered_def same_stores_def)
next
  assume "same_stores db0 db"
  then show "recovered cfg db0 dbc = db\<lparr>monotone_seals := [], witness_cfg := cfg\<rparr>"
    using assms by (cases db; cases db0) (simp add: recovered_def same_stores_def equal_history_def)
qed

lemma bt_insert_last: "\<forall>k' \<in> fst ` set m. k' < k \<Longrightarrow> bt_insert k v m = m @ [(k, v)]"
  by (induction k v m rule: bt_insert.induct) (auto simp: less_le_not_le)

lemma replay_events_snoc:
  "replay_events j db (rows @ [row]) =
     (case replay_events j db rows of Inl e \<Rightarrow> Err e | Inr db' \<Rightarrow> replay_event j db' row)"
  by (induction rows arbitrary: db) (simp_all split: sum.splits)

lemma wal_start_meta_of:
  assumes "db_new env now (state db) (backend db) cfg \<noteq> None"
  shows "wal_start env now cfg (wal_meta_of db) =
    Some (recovered cfg db (db\<lparr>entries := [], ct_leaves := [], current_sth := None\<rparr>))"
proof -
  obtain d where d: "db_new env now (state db) (backend db) cfg = Some d" using assms by blast
  then show ?thesis
    using db_new_frame [OF d]
    by (cases db, cases d) (simp add: wal_start_def wal_meta_of_def recovered_def)
qed

lemma init_wal_new:
  assumes "init_wal j path db disk = (disk', Ok ())" "disk path = None"
  shows "\<exists>raw. meta_to_vec j (wal_meta_of db) = Ok raw \<and>
    disk' = disk(path \<mapsto> \<lparr>snap_table = None, wal_meta_table = Some [(''meta'', raw)], wal_events_table = Some []\<rparr>)"
  using assms
  by (auto simp: init_wal_def create_file_def empty_file_def table_def Let_def bt_get_def split: sum.splits)

lemma replay_committed:
  assumes "commit env now db delta views = Some (db', Ok e)" "equal_history dbc db"
    "event_from_slice j raw = Ok \<lparr>event_schema = wal_event_schema, event_seq = of_nat (length (entries db')),
       event_delta = delta, event_entry = e, event_ct_leaf = last (ct_leaves db')\<rparr>"
  shows "replay_event j (recovered cfg db0 dbc) (of_nat (length (entries db')), raw) = Ok (recovered cfg db0 db')"
proof -
  note c = commit_ok [OF assms(1)]
  have "height e = of_nat (length (entries db'))" by (simp add: c(2,4))
  moreover have "last (ct_leaves db') = leaf_hash (env_sha256 env) (entry_payload e)" by (simp add: c(3))
  ultimately show ?thesis
    using assms(2,3) c(1-3,7)
    by (simp add: replay_event_def recovered_def equal_history_def)
qed

lemma wal_run_holds:
  assumes "wal_run env tve j path db0 dbc db disk" "length (ct_leaves db) < 2 ^ 64 - 1"
    "\<And>ev raw. event_to_vec j ev = Ok raw \<Longrightarrow> event_from_slice j raw = Ok ev"
  shows "\<exists>f. disk path = Some f \<and> wal_holds j db0 dbc f"
  using assms(1,2)
proof (induction rule: wal_run.induct)
  case (run_init disk disk')
  then show ?case
    using init_wal_new [OF run_init(5,4)] by (auto simp: wal_holds_def bt_get_def)
next
  case (run_append dbc db disk now delta views db' e disk')
  let ?n = "length (entries db')" and ?k = "of_nat (length (entries db')) :: u64"
  note ok = commit_ok [OF run_append(2)]
  have ent: "entries db' = entries db @ [e]" by (rule ok)
  have room: "length (ct_leaves db) < 2 ^ 64 - 1" using run_append.prems ok(3) by simp
  note run = wal_run_synced [OF run_append(1) room]
  have room': "length (entries db) < 2 ^ 64 - 1" using run room by linarith
  have same: "equal_history dbc db" using run commit_ok_synced [OF run_append(2) room room'] by simp
  obtain f where f: "disk path = Some f" "wal_holds j db0 dbc f"
    using run_append.IH [OF room] by blast
  obtain meta raw events where w: "wal_meta_table f = Some meta" "bt_get meta ''meta'' = Some raw"
    "meta_to_vec j (wal_meta_of db0) = Ok raw" "wal_events_table f = Some events"
    "fst ` set events = of_nat ` {1..length (entries db)}"
    "\<And>cfg. replay_events j (recovered cfg db0 db0) events = Ok (recovered cfg db0 dbc)"
    using f(2) run unfolding wal_holds_def by auto
  let ?ev = "\<lparr>event_schema = wal_event_schema, event_seq = ?k, event_delta = delta, event_entry = e,
    event_ct_leaf = last (ct_leaves db')\<rparr>"
  obtain r where r: "event_to_vec j ?ev = Ok r"
    and d': "disk' = disk(path \<mapsto> f\<lparr>wal_meta_table := Some meta, wal_events_table := Some (bt_insert ?k r events)\<rparr>)"
    using run_append(3) f(1) w(1,2,4)
    by (auto simp: append_wal_event_def create_file_def table_def Let_def split: sum.splits if_splits)
  have "(of_nat i :: u64) < ?k" if "i \<le> length (entries db)" for i
  proof -
    have "i < 2 ^ 64" "?n < 2 ^ 64" "i < ?n" using that room' ent by auto
    then show ?thesis by (simp add: word_less_nat_alt unat_of_nat_64)
  qed
  then have last: "bt_insert ?k r events = events @ [(?k, r)]"
    using w(5) by (intro bt_insert_last) auto
  have "replay_events j (recovered cfg db0 db0) (events @ [(?k, r)]) = Ok (recovered cfg db0 db')" for cfg
    using w(6) replay_committed [OF run_append(2) same assms(3) [OF r]] by (simp add: replay_events_snoc)
  moreover have "fst ` set (events @ [(?k, r)]) = of_nat ` {1..?n}"
    using w(5) ent by (simp add: atLeastAtMostSuc_conv insert_commute)
  ultimately show ?case
    using d' w(1-3) last by (auto simp: wal_holds_def)
next
  case (run_step dbc db disk db')
  have "length (ct_leaves db) \<le> length (ct_leaves db')"
    using step_no_entry [OF run_step(2,3)] by (auto simp: equal_history_def)
  with run_step.prems have "length (ct_leaves db) < 2 ^ 64 - 1" by linarith
  then show ?case by (rule run_step.IH)
qed auto

lemma load_wal_run:
  assumes "wal_run env tve j path db0 dbc db disk" "length (ct_leaves db) < 2 ^ 64 - 1"
    "\<And>ev raw. event_to_vec j ev = Ok raw \<Longrightarrow> event_from_slice j raw = Ok ev"
    "codes (meta_to_vec j) (meta_from_slice j) (wal_meta_of db0)"
    "db_new env now (state db0) (backend db0) cfg \<noteq> None"
  shows "load_wal env j now path cfg disk = Some (Ok (recovered cfg db0 dbc))"
proof -
  have e0: "entries db0 = [] \<and> ct_leaves db0 = [] \<and> current_sth db0 = None"
    using assms(1) by (induction rule: wal_run.induct) auto
  then have s: "wal_start env now cfg (wal_meta_of db0) = Some (recovered cfg db0 db0)"
    using wal_start_meta_of [OF assms(5)] by (cases db0) (simp add: recovered_def)
  obtain f where f: "disk path = Some f" "wal_holds j db0 dbc f"
    using wal_run_holds [OF assms(1-3)] by blast
  then obtain meta raw events where w: "wal_meta_table f = Some meta" "bt_get meta ''meta'' = Some raw"
    "meta_to_vec j (wal_meta_of db0) = Ok raw" "wal_events_table f = Some events"
    "replay_events j (recovered cfg db0 db0) events = Ok (recovered cfg db0 dbc)"
    unfolding wal_holds_def by blast
  have "meta_schema (wal_meta_of db0) = wal_meta_schema" by (simp add: wal_meta_of_def)
  then show ?thesis
    using f(1) w s codesE [OF assms(4) w(3)] by (simp add: load_wal_def)
qed

section \<open>A truncated log has no history\<close>

lemma truncate_wal_frame:
  assumes "truncate_wal j tmp path db disk = (disk', r)" "other \<noteq> tmp" "other \<noteq> path"
  shows "disk' other = disk other"
  using assms
  by (auto simp: truncate_wal_def init_wal_def Let_def split: prod.splits sum.splits option.splits if_splits)

lemma load_truncated_wal:
  assumes "truncate_wal j tmp path db disk = (disk', Ok ())" "disk tmp = None" "tmp \<noteq> path"
    "codes (meta_to_vec j) (meta_from_slice j) (wal_meta_of db)"
    "db_new env now (state db) (backend db) cfg \<noteq> None"
  shows "load_wal env j now path cfg disk' =
    Some (Ok (recovered cfg db (db\<lparr>entries := [], ct_leaves := [], current_sth := None\<rparr>)))"
proof -
  obtain disk1 where i: "init_wal j tmp db disk = (disk1, Ok ())" "disk' = disk1(path := disk1 tmp, tmp := None)"
    using assms(1) by (auto simp: truncate_wal_def split: sum.splits prod.splits)
  obtain raw where raw: "meta_to_vec j (wal_meta_of db) = Ok raw"
    "disk' path = Some \<lparr>snap_table = None, wal_meta_table = Some [(''meta'', raw)], wal_events_table = Some []\<rparr>"
    using init_wal_new [OF i(1) assms(2)] i(2) assms(3) by auto
  have "meta_schema (wal_meta_of db) = wal_meta_schema" by (simp add: wal_meta_of_def)
  then show ?thesis
    using raw codesE [OF assms(4) raw(1)] wal_start_meta_of [OF assms(5)]
    by (simp add: load_wal_def bt_get_def)
qed

end
