(* ===== verification/Multitenant.thy ===== *)
theory Multitenant
  imports Persistence
begin

text \<open>
  \<^verbatim>\<open>src/multitenant.rs\<close>: tenants with their own database, principals with roles, and the policy a
  tenant must meet.

  The locks are those of the source: a request runs as one step on the tenant it names.
  The lock of a database is poisoned when a commit panics while it holds it for writing,
  which is a slot without database; the locks of the tenant map and of the principals are
  never held across code that can panic.  A request that panics returns \<open>None\<close>.  The clock
  and the name of a temporary file are arguments.
\<close>

section \<open>Policy and roles\<close>

record MultiTenantPolicy =
  require_binary_merkle_backend :: bool
  require_mldsa_signatures :: bool
  deny_insecure_default_witness_seed :: bool

definition permissive :: MultiTenantPolicy where
  "permissive =
     \<lparr>require_binary_merkle_backend = False, require_mldsa_signatures = False,
      deny_insecure_default_witness_seed = False\<rparr>"

definition production :: MultiTenantPolicy where
  "production =
     \<lparr>require_binary_merkle_backend = True, require_mldsa_signatures = True,
      deny_insecure_default_witness_seed = True\<rparr>"

datatype TenantRole = Reader | Writer | Admin

text \<open>The derived order of the enumeration.\<close>

fun role_rank :: "TenantRole \<Rightarrow> nat" where
  "role_rank Reader = 0"
| "role_rank Writer = 1"
| "role_rank Admin = 2"

lemma inj_role_rank: "role_rank a = role_rank b \<longleftrightarrow> a = b"
  by (cases a; cases b) simp_all

instantiation TenantRole :: linorder
begin

definition less_eq_TenantRole :: "TenantRole \<Rightarrow> TenantRole \<Rightarrow> bool" where
  "less_eq_TenantRole a b \<longleftrightarrow> role_rank a \<le> role_rank b"

definition less_TenantRole :: "TenantRole \<Rightarrow> TenantRole \<Rightarrow> bool" where
  "less_TenantRole a b \<longleftrightarrow> role_rank a < role_rank b"

instance
  by standard (auto simp: less_eq_TenantRole_def less_TenantRole_def inj_role_rank)

end

definition role_from_tag :: "string \<Rightarrow> TenantRole option" where
  "role_from_tag tag =
     (let t = to_ascii_lowercase (trim tag)
      in if t = ''reader'' then Some Reader
         else if t = ''writer'' then Some Writer
         else if t = ''admin'' then Some Admin
         else None)"

datatype MultiTenantError =
    TenantAlreadyExists string
  | TenantNotFound string
  | TenantAuthFailed string
  | TenantPrincipalNotFound string string
  | TenantPrincipalAlreadyExists string string
  | TenantPermissionDenied string string TenantRole TenantRole
  | TenantPolicyViolation string string
  | TenantDbPoisoned string
  | TenantMapPoisoned
  | QueryIndexMissing string nat
  | TenantCommit CommitError
  | TenantPersistence PersistenceError

record TenantCredential =
  cred_token_hash :: node_hash
  cred_role :: TenantRole

record TenantSlot =
  principals :: "(string, TenantCredential) btree_map"
  slot_db :: "NucleusDb option"
  wal_path :: "string option"

record TenantSnapshot =
  ts_tenant_id :: string
  ts_backend :: VcBackend
  ts_entries :: nat
  ts_state_values :: "u64 list"

record MultiTenantNucleusDb =
  policy :: MultiTenantPolicy
  tenants :: "(string, TenantSlot) btree_map"

record world =
  tenancy :: MultiTenantNucleusDb
  files :: disk

type_synonym 'a reply = "(MultiTenantError + 'a) option"

definition mt_new :: "MultiTenantPolicy \<Rightarrow> MultiTenantNucleusDb" where
  "mt_new p = \<lparr>policy = p, tenants = []\<rparr>"

definition mt_token_hash :: "(bytes \<Rightarrow> node_hash) \<Rightarrow> string \<Rightarrow> node_hash" where
  "mt_token_hash H token = domain_hash_32 H ''nucleusdb.multitenant.auth.v1'' token"

definition validate_tenant_policy ::
  "MultiTenantPolicy \<Rightarrow> string \<Rightarrow> NucleusDb \<Rightarrow> MultiTenantError + unit" where
  "validate_tenant_policy p tid db =
     (if require_binary_merkle_backend p \<and> backend db \<noteq> BinaryMerkle then
        Err (TenantPolicyViolation tid ''backend must be binary_merkle in production policy'')
      else if require_mldsa_signatures p \<and> signing_algorithm (witness_cfg db) \<noteq> MlDsa65 then
        Err (TenantPolicyViolation tid ''witness signing algorithm must be ml_dsa65 in production policy'')
      else if deny_insecure_default_witness_seed p \<and>
              key_material_source (witness_cfg db) = InsecureDefaultSeed then
        Err (TenantPolicyViolation tid ''witness config used insecure default development seed'')
      else Ok ())"

section \<open>Registration\<close>

definition put_slot :: "string \<Rightarrow> TenantSlot \<Rightarrow> world \<Rightarrow> world" where
  "put_slot tid slot w =
     w\<lparr>tenancy := (tenancy w)\<lparr>tenants := bt_insert tid slot (tenants (tenancy w))\<rparr>\<rparr>"

text \<open>The log is initialised before the tenant map is looked at.\<close>

definition register_tenant_internal ::
  "(bytes \<Rightarrow> node_hash) \<Rightarrow> json_codec \<Rightarrow> string \<Rightarrow> string \<Rightarrow> NucleusDb \<Rightarrow> string option \<Rightarrow> bool \<Rightarrow>
    world \<Rightarrow> world \<times> unit reply" where
  "register_tenant_internal H j tid auth_token db wal initialize_wal w =
     (case validate_tenant_policy (policy (tenancy w)) tid db of
        Inl e \<Rightarrow> (w, Some (Err e))
      | Inr _ \<Rightarrow>
          let (w1, wal_result) =
                (case wal of
                   Some path \<Rightarrow>
                     if initialize_wal then
                       (let (d, r) = init_wal j path db (files w) in (w\<lparr>files := d\<rparr>, r))
                     else (w, Ok ())
                 | None \<Rightarrow> (w, Ok ()))
          in case wal_result of
               Inl e \<Rightarrow> (w1, Some (Err (TenantPersistence e)))
             | Inr _ \<Rightarrow>
                 if bt_contains (tenants (tenancy w1)) tid then (w1, Some (Err (TenantAlreadyExists tid)))
                 else (put_slot tid
                         \<lparr>principals = bt_insert ''admin''
                            \<lparr>cred_token_hash = mt_token_hash H auth_token, cred_role = Admin\<rparr> [],
                          slot_db = Some db, wal_path = wal\<rparr> w1,
                       Some (Ok ())))"

definition register_tenant ::
  "(bytes \<Rightarrow> node_hash) \<Rightarrow> json_codec \<Rightarrow> string \<Rightarrow> string \<Rightarrow> NucleusDb \<Rightarrow> world \<Rightarrow> world \<times> unit reply" where
  "register_tenant H j tid auth_token db w = register_tenant_internal H j tid auth_token db None False w"

definition register_tenant_with_wal_path ::
  "(bytes \<Rightarrow> node_hash) \<Rightarrow> json_codec \<Rightarrow> string \<Rightarrow> string \<Rightarrow> NucleusDb \<Rightarrow> string option \<Rightarrow> world \<Rightarrow>
    world \<times> unit reply" where
  "register_tenant_with_wal_path H j tid auth_token db wal w =
     register_tenant_internal H j tid auth_token db wal True w"

definition register_tenant_from_wal ::
  "('f, 'poly, 'srs, 'g, 'p) db_env \<Rightarrow> json_codec \<Rightarrow> u64 \<Rightarrow> string \<Rightarrow> string \<Rightarrow> WitnessConfig \<Rightarrow> string \<Rightarrow>
    world \<Rightarrow> world \<times> unit reply" where
  "register_tenant_from_wal env j now tid auth_token cfg path w =
     (case load_wal env j now path cfg (files w) of
        None \<Rightarrow> (w, None)
      | Some (Inl e) \<Rightarrow> (w, Some (Err (TenantPersistence e)))
      | Some (Inr db) \<Rightarrow> register_tenant_internal (env_sha256 env) j tid auth_token db (Some path) False w)"

section \<open>Requests\<close>

definition authorized_tenant_slot_as ::
  "(bytes \<Rightarrow> node_hash) \<Rightarrow> MultiTenantNucleusDb \<Rightarrow> string \<Rightarrow> string \<Rightarrow> string \<Rightarrow> TenantRole \<Rightarrow>
    MultiTenantError + TenantSlot" where
  "authorized_tenant_slot_as H mt tid pid auth_token required =
     (case bt_get (tenants mt) tid of
        None \<Rightarrow> Err (TenantNotFound tid)
      | Some slot \<Rightarrow>
          (case bt_get (principals slot) pid of
             None \<Rightarrow> Err (TenantPrincipalNotFound tid pid)
           | Some cred \<Rightarrow>
               if \<not> ct_eq_32 (cred_token_hash cred) (mt_token_hash H auth_token) then
                 Err (TenantAuthFailed tid)
               else if cred_role cred < required then
                 Err (TenantPermissionDenied tid pid required (cred_role cred))
               else Ok slot))"

text \<open>Authorisation, then the database of the slot unless its lock is poisoned.\<close>

definition with_slot_db ::
  "(bytes \<Rightarrow> node_hash) \<Rightarrow> string \<Rightarrow> string \<Rightarrow> string \<Rightarrow> TenantRole \<Rightarrow> world \<Rightarrow>
    (TenantSlot \<Rightarrow> NucleusDb \<Rightarrow> world \<times> 'a reply) \<Rightarrow> world \<times> 'a reply" where
  "with_slot_db H tid pid auth_token required w act =
     (case authorized_tenant_slot_as H (tenancy w) tid pid auth_token required of
        Inl e \<Rightarrow> (w, Some (Err e))
      | Inr slot \<Rightarrow>
          (case slot_db slot of
             None \<Rightarrow> (w, Some (Err (TenantDbPoisoned tid)))
           | Some db \<Rightarrow> act slot db))"

definition persisted :: "world \<Rightarrow> disk \<times> (PersistenceError + unit) \<Rightarrow> 'a \<Rightarrow> world \<times> 'a reply" where
  "persisted w dr x =
     (w\<lparr>files := fst dr\<rparr>,
      Some (case snd dr of Inl e \<Rightarrow> Err (TenantPersistence e) | Inr _ \<Rightarrow> Ok x))"

definition ensure_wal_initialized ::
  "(bytes \<Rightarrow> node_hash) \<Rightarrow> json_codec \<Rightarrow> string \<Rightarrow> string \<Rightarrow> world \<Rightarrow> world \<times> unit reply" where
  "ensure_wal_initialized H j tid auth_token w =
     (case authorized_tenant_slot_as H (tenancy w) tid ''admin'' auth_token Admin of
        Inl e \<Rightarrow> (w, Some (Err e))
      | Inr slot \<Rightarrow>
          (case wal_path slot of
             None \<Rightarrow> (w, Some (Ok ()))
           | Some path \<Rightarrow>
               (case slot_db slot of
                  None \<Rightarrow> (w, Some (Err (TenantDbPoisoned tid)))
                | Some db \<Rightarrow> persisted w (init_wal j path db (files w)) ())))"

definition tenant_ids :: "world \<Rightarrow> string list reply" where
  "tenant_ids w = Some (Ok (bt_keys (tenants (tenancy w))))"

definition mt_commit_as ::
  "('f::field, 'poly, 'srs, 'g, 'p) db_env \<Rightarrow> json_codec \<Rightarrow> u64 \<Rightarrow> string \<Rightarrow> string \<Rightarrow> string \<Rightarrow> Delta \<Rightarrow>
    LocalSection list \<Rightarrow> world \<Rightarrow> world \<times> CommitEntry reply" where
  "mt_commit_as env j now tid pid auth_token delta views w =
     with_slot_db (env_sha256 env) tid pid auth_token Writer w (\<lambda>slot db.
       case commit env now db delta views of
         None \<Rightarrow> (put_slot tid (slot\<lparr>slot_db := None\<rparr>) w, None)
       | Some (db', Inl e) \<Rightarrow> (put_slot tid (slot\<lparr>slot_db := Some db'\<rparr>) w, Some (Err (TenantCommit e)))
       | Some (db', Inr entry) \<Rightarrow>
           let w1 = put_slot tid (slot\<lparr>slot_db := Some db'\<rparr>) w
           in case wal_path slot of
                None \<Rightarrow> (w1, Some (Ok entry))
              | Some path \<Rightarrow> persisted w1 (append_wal_event j path delta db' entry (files w1)) entry)"

definition mt_commit ::
  "('f::field, 'poly, 'srs, 'g, 'p) db_env \<Rightarrow> json_codec \<Rightarrow> u64 \<Rightarrow> string \<Rightarrow> string \<Rightarrow> Delta \<Rightarrow>
    LocalSection list \<Rightarrow> world \<Rightarrow> world \<times> CommitEntry reply" where
  "mt_commit env j now tid auth_token delta views w =
     mt_commit_as env j now tid ''admin'' auth_token delta views w"

definition mt_query_as ::
  "('f::field, 'poly, 'srs, 'g, 'p) db_env \<Rightarrow> string \<Rightarrow> string \<Rightarrow> string \<Rightarrow> nat \<Rightarrow> world \<Rightarrow>
    world \<times> (u64 \<times> QueryProof \<times> node_hash) reply" where
  "mt_query_as env tid pid auth_token idx w =
     with_slot_db (env_sha256 env) tid pid auth_token Reader w (\<lambda>slot db.
       (w, case query env db idx of
             None \<Rightarrow> None
           | Some None \<Rightarrow> Some (Err (QueryIndexMissing tid idx))
           | Some (Some r) \<Rightarrow> Some (Ok r)))"

definition mt_query ::
  "('f::field, 'poly, 'srs, 'g, 'p) db_env \<Rightarrow> string \<Rightarrow> string \<Rightarrow> nat \<Rightarrow> world \<Rightarrow>
    world \<times> (u64 \<times> QueryProof \<times> node_hash) reply" where
  "mt_query env tid auth_token idx w = mt_query_as env tid ''admin'' auth_token idx w"

definition mt_verify_query_as ::
  "('f::field, 'poly, 'srs, 'g, 'p) db_env \<Rightarrow> string \<Rightarrow> string \<Rightarrow> string \<Rightarrow> nat \<Rightarrow> u64 \<Rightarrow> QueryProof \<Rightarrow>
    node_hash \<Rightarrow> world \<Rightarrow> world \<times> bool reply" where
  "mt_verify_query_as env tid pid auth_token idx value proof rt w =
     with_slot_db (env_sha256 env) tid pid auth_token Reader w (\<lambda>slot db.
       (w, map_option Ok (verify_query env db idx value proof rt)))"

definition mt_verify_query ::
  "('f::field, 'poly, 'srs, 'g, 'p) db_env \<Rightarrow> string \<Rightarrow> string \<Rightarrow> nat \<Rightarrow> u64 \<Rightarrow> QueryProof \<Rightarrow>
    node_hash \<Rightarrow> world \<Rightarrow> world \<times> bool reply" where
  "mt_verify_query env tid auth_token idx value proof rt w =
     mt_verify_query_as env tid ''admin'' auth_token idx value proof rt w"

definition save_tenant_snapshot_as ::
  "(bytes \<Rightarrow> node_hash) \<Rightarrow> json_codec \<Rightarrow> string \<Rightarrow> string \<Rightarrow> string \<Rightarrow> string \<Rightarrow> world \<Rightarrow> world \<times> unit reply" where
  "save_tenant_snapshot_as H j tid pid auth_token path w =
     with_slot_db H tid pid auth_token Reader w (\<lambda>slot db.
       persisted w (save_snapshot j path db (files w)) ())"

definition save_tenant_snapshot ::
  "(bytes \<Rightarrow> node_hash) \<Rightarrow> json_codec \<Rightarrow> string \<Rightarrow> string \<Rightarrow> string \<Rightarrow> world \<Rightarrow> world \<times> unit reply" where
  "save_tenant_snapshot H j tid auth_token path w =
     save_tenant_snapshot_as H j tid ''admin'' auth_token path w"

definition snapshot_tenant_as ::
  "(bytes \<Rightarrow> node_hash) \<Rightarrow> string \<Rightarrow> string \<Rightarrow> string \<Rightarrow> world \<Rightarrow> world \<times> TenantSnapshot reply" where
  "snapshot_tenant_as H tid pid auth_token w =
     with_slot_db H tid pid auth_token Reader w (\<lambda>slot db.
       (w, Some (Ok \<lparr>ts_tenant_id = tid, ts_backend = backend db, ts_entries = length (entries db),
                     ts_state_values = st_values (state db)\<rparr>)))"

definition snapshot_tenant ::
  "(bytes \<Rightarrow> node_hash) \<Rightarrow> string \<Rightarrow> string \<Rightarrow> world \<Rightarrow> world \<times> TenantSnapshot reply" where
  "snapshot_tenant H tid auth_token w = snapshot_tenant_as H tid ''admin'' auth_token w"

definition register_principal ::
  "(bytes \<Rightarrow> node_hash) \<Rightarrow> string \<Rightarrow> string \<Rightarrow> string \<Rightarrow> string \<Rightarrow> string \<Rightarrow> TenantRole \<Rightarrow> world \<Rightarrow>
    world \<times> unit reply" where
  "register_principal H tid admin_pid admin_token pid token new_role w =
     (case authorized_tenant_slot_as H (tenancy w) tid admin_pid admin_token Admin of
        Inl e \<Rightarrow> (w, Some (Err e))
      | Inr slot \<Rightarrow>
          if bt_contains (principals slot) pid then (w, Some (Err (TenantPrincipalAlreadyExists tid pid)))
          else (put_slot tid (slot\<lparr>principals := bt_insert pid
                  \<lparr>cred_token_hash = mt_token_hash H token, cred_role = new_role\<rparr> (principals slot)\<rparr>) w,
                Some (Ok ())))"

definition checkpoint_tenant ::
  "(bytes \<Rightarrow> node_hash) \<Rightarrow> json_codec \<Rightarrow> string \<Rightarrow> string \<Rightarrow> string \<Rightarrow> string \<Rightarrow> string \<Rightarrow> world \<Rightarrow>
    world \<times> unit reply" where
  "checkpoint_tenant H j tmp tid pid auth_token path w =
     with_slot_db H tid pid auth_token Admin w (\<lambda>slot db.
       case save_snapshot j path db (files w) of
         (d, Inl e) \<Rightarrow> (w\<lparr>files := d\<rparr>, Some (Err (TenantPersistence e)))
       | (d, Inr _) \<Rightarrow>
           (case wal_path slot of
              None \<Rightarrow> (w\<lparr>files := d\<rparr>, Some (Ok ()))
            | Some wal \<Rightarrow> persisted w (truncate_wal j tmp wal db d) ()))"

section \<open>Authorisation\<close>

lemma tenants_put_slot [simp]:
  "tenants (tenancy (put_slot tid slot w)) = bt_insert tid slot (tenants (tenancy w))"
  "policy (tenancy (put_slot tid slot w)) = policy (tenancy w)" "files (put_slot tid slot w) = files w"
  by (simp_all add: put_slot_def)

lemma authorized_okD:
  assumes "authorized_tenant_slot_as H mt tid pid token required = Ok slot"
  shows "bt_get (tenants mt) tid = Some slot"
    "\<exists>cred. bt_get (principals slot) pid = Some cred \<and> required \<le> cred_role cred \<and>
       ct_eq_32 (cred_token_hash cred) (mt_token_hash H token)"
  using assms by (auto simp: authorized_tenant_slot_as_def split: option.splits if_splits)

text \<open>Every stored token hash has the length of a digest.\<close>

definition hashes32 :: "MultiTenantNucleusDb \<Rightarrow> bool" where
  "hashes32 mt \<longleftrightarrow>
     (\<forall>tid slot pid cred. bt_get (tenants mt) tid = Some slot \<longrightarrow> bt_get (principals slot) pid = Some cred \<longrightarrow>
        length (cred_token_hash cred) = 32)"

lemma authorized_iff:
  assumes "hashes32 mt" "digest32 H"
  shows "authorized_tenant_slot_as H mt tid pid token required = Ok slot \<longleftrightarrow>
    bt_get (tenants mt) tid = Some slot \<and>
    (\<exists>cred. bt_get (principals slot) pid = Some cred \<and> required \<le> cred_role cred \<and>
       cred_token_hash cred = mt_token_hash H token)"
proof -
  have len: "length (mt_token_hash H token) = 32"
    using assms(2) by (simp add: mt_token_hash_def domain_hash_32_def digest32_def)
  have eq: "ct_eq_32 (cred_token_hash cred) (mt_token_hash H token) \<longleftrightarrow> cred_token_hash cred = mt_token_hash H token"
    if "bt_get (tenants mt) tid = Some s" "bt_get (principals s) pid = Some cred" for s cred
    using assms(1) that len by (intro ct_eq_32_correct) (auto simp: hashes32_def)
  show ?thesis
    using eq by (auto simp: authorized_tenant_slot_as_def split: option.splits)
qed

section \<open>Requests as steps\<close>

text \<open>The requests that can change the world.\<close>

datatype request =
    RegisterTenant string string NucleusDb "string option" bool
  | RegisterFromWal u64 string string WitnessConfig string
  | EnsureWal string string
  | CommitAs u64 string string string Delta "LocalSection list"
  | SaveSnapshotAs string string string string
  | RegisterPrincipal string string string string string TenantRole
  | Checkpoint string string string string string

fun exec ::
  "('f::field, 'poly, 'srs, 'g, 'p) db_env \<Rightarrow> json_codec \<Rightarrow> request \<Rightarrow> world \<Rightarrow> world" where
  "exec env j (RegisterTenant tid tok db wal ini) w =
     fst (register_tenant_internal (env_sha256 env) j tid tok db wal ini w)"
| "exec env j (RegisterFromWal now tid tok cfg path) w =
     fst (register_tenant_from_wal env j now tid tok cfg path w)"
| "exec env j (EnsureWal tid tok) w = fst (ensure_wal_initialized (env_sha256 env) j tid tok w)"
| "exec env j (CommitAs now tid pid tok delta views) w =
     fst (mt_commit_as env j now tid pid tok delta views w)"
| "exec env j (SaveSnapshotAs tid pid tok path) w =
     fst (save_tenant_snapshot_as (env_sha256 env) j tid pid tok path w)"
| "exec env j (RegisterPrincipal tid apid atok pid tok r) w =
     fst (register_principal (env_sha256 env) tid apid atok pid tok r w)"
| "exec env j (Checkpoint tmp tid pid tok path) w =
     fst (checkpoint_tenant (env_sha256 env) j tmp tid pid tok path w)"

text \<open>The tenant a request names, its credentials and the role it needs.\<close>

fun target :: "request \<Rightarrow> string" where
  "target (RegisterTenant tid tok db wal ini) = tid"
| "target (RegisterFromWal now tid tok cfg path) = tid"
| "target (EnsureWal tid tok) = tid"
| "target (CommitAs now tid pid tok delta views) = tid"
| "target (SaveSnapshotAs tid pid tok path) = tid"
| "target (RegisterPrincipal tid apid atok pid tok r) = tid"
| "target (Checkpoint tmp tid pid tok path) = tid"

fun credentials :: "request \<Rightarrow> (string \<times> string \<times> TenantRole) option" where
  "credentials (RegisterTenant tid tok db wal ini) = None"
| "credentials (RegisterFromWal now tid tok cfg path) = None"
| "credentials (EnsureWal tid tok) = Some (''admin'', tok, Admin)"
| "credentials (CommitAs now tid pid tok delta views) = Some (pid, tok, Writer)"
| "credentials (SaveSnapshotAs tid pid tok path) = Some (pid, tok, Reader)"
| "credentials (RegisterPrincipal tid apid atok pid tok r) = Some (apid, atok, Admin)"
| "credentials (Checkpoint tmp tid pid tok path) = Some (pid, tok, Admin)"

lemma register_internal_cases:
  assumes "register_tenant_internal H j tid tok db wal ini w = (w', r)"
  obtains "tenancy w' = tenancy w"
  | slot where "\<not> bt_contains (tenants (tenancy w)) tid" "validate_tenant_policy (policy (tenancy w)) tid db = Ok ()"
      "tenancy w' = (tenancy w)\<lparr>tenants := bt_insert tid slot (tenants (tenancy w))\<rparr>"
      "slot = \<lparr>principals = [(''admin'', \<lparr>cred_token_hash = mt_token_hash H tok, cred_role = Admin\<rparr>)],
         slot_db = Some db, wal_path = wal\<rparr>"
proof (cases "tenancy w' = tenancy w")
  case False
  let ?slot = "\<lparr>principals = [(''admin'', \<lparr>cred_token_hash = mt_token_hash H tok, cred_role = Admin\<rparr>)],
     slot_db = Some db, wal_path = wal\<rparr>"
  have "\<not> bt_contains (tenants (tenancy w)) tid \<and> validate_tenant_policy (policy (tenancy w)) tid db = Ok () \<and>
      tenancy w' = (tenancy w)\<lparr>tenants := bt_insert tid ?slot (tenants (tenancy w))\<rparr>"
    using assms False
    by (auto simp: register_tenant_internal_def Let_def put_slot_def case_prod_beta
        split: sum.splits option.splits if_splits)
  then show ?thesis using that(2) by blast
qed (rule that(1))

lemma exec_cases:
  obtains (kept) "tenancy (exec env j r w) = tenancy w"
  | (registered) slot db where "\<not> bt_contains (tenants (tenancy w)) (target r)" "credentials r = None"
      "tenancy (exec env j r w) = (tenancy w)\<lparr>tenants := bt_insert (target r) slot (tenants (tenancy w))\<rparr>"
      "slot_db slot = Some db" "validate_tenant_policy (policy (tenancy w)) (target r) db = Ok ()"
      "\<forall>cred \<in> snd ` set (principals slot). \<exists>tok. cred_token_hash cred = mt_token_hash (env_sha256 env) tok"
  | (committed) now pid tok delta views slot db dbo where
      "r = CommitAs now (target r) pid tok delta views"
      "authorized_tenant_slot_as (env_sha256 env) (tenancy w) (target r) pid tok Writer = Ok slot"
      "slot_db slot = Some db"
      "tenancy (exec env j r w) =
         (tenancy w)\<lparr>tenants := bt_insert (target r) (slot\<lparr>slot_db := dbo\<rparr>) (tenants (tenancy w))\<rparr>"
      "\<forall>db'. dbo = Some db' \<longrightarrow> (\<exists>res. commit env now db delta views = Some (db', res))"
  | (granted) apid atok pid tok rl slot where
      "r = RegisterPrincipal (target r) apid atok pid tok rl"
      "authorized_tenant_slot_as (env_sha256 env) (tenancy w) (target r) apid atok Admin = Ok slot"
      "\<not> bt_contains (principals slot) pid"
      "tenancy (exec env j r w) = (tenancy w)\<lparr>tenants := bt_insert (target r)
         (slot\<lparr>principals := bt_insert pid
            \<lparr>cred_token_hash = mt_token_hash (env_sha256 env) tok, cred_role = rl\<rparr> (principals slot)\<rparr>)
         (tenants (tenancy w))\<rparr>"
proof (cases r)
  case (RegisterTenant tid tok db wal ini)
  obtain w' q where e: "register_tenant_internal (env_sha256 env) j tid tok db wal ini w = (w', q)" by fastforce
  have w': "exec env j r w = w'" using RegisterTenant e by simp
  from e show ?thesis
  proof (rule register_internal_cases)
    fix slot
    assume "\<not> bt_contains (tenants (tenancy w)) tid" "validate_tenant_policy (policy (tenancy w)) tid db = Ok ()"
      "tenancy w' = (tenancy w)\<lparr>tenants := bt_insert tid slot (tenants (tenancy w))\<rparr>"
      "slot = \<lparr>principals = [(''admin'', \<lparr>cred_token_hash = mt_token_hash (env_sha256 env) tok, cred_role = Admin\<rparr>)],
         slot_db = Some db, wal_path = wal\<rparr>"
    then show ?thesis by (intro registered [of slot db]) (auto simp: RegisterTenant e)
  qed (use kept w' in simp)
next
  case (RegisterFromWal now tid tok cfg path)
  show ?thesis
  proof (cases "\<exists>db. load_wal env j now path cfg (files w) = Some (Ok db)")
    case True
    then obtain db where l: "load_wal env j now path cfg (files w) = Some (Ok db)" by blast
    obtain w' q where e: "register_tenant_internal (env_sha256 env) j tid tok db (Some path) False w = (w', q)"
      by fastforce
    have w': "exec env j r w = w'" using RegisterFromWal e l by (simp add: register_tenant_from_wal_def)
    from e show ?thesis
    proof (rule register_internal_cases)
      fix slot
      assume "\<not> bt_contains (tenants (tenancy w)) tid" "validate_tenant_policy (policy (tenancy w)) tid db = Ok ()"
        "tenancy w' = (tenancy w)\<lparr>tenants := bt_insert tid slot (tenants (tenancy w))\<rparr>"
        "slot = \<lparr>principals = [(''admin'', \<lparr>cred_token_hash = mt_token_hash (env_sha256 env) tok, cred_role = Admin\<rparr>)],
           slot_db = Some db, wal_path = Some path\<rparr>"
      then show ?thesis by (intro registered [of slot db]) (auto simp: RegisterFromWal register_tenant_from_wal_def l e)
    qed (use kept w' in simp)
  next
    case False
    then have "tenancy (exec env j r w) = tenancy w"
      using RegisterFromWal by (auto simp: register_tenant_from_wal_def split: option.splits sum.splits)
    then show ?thesis by (rule kept)
  qed
next
  case (CommitAs now tid pid tok delta views)
  show ?thesis
  proof (cases "authorized_tenant_slot_as (env_sha256 env) (tenancy w) tid pid tok Writer")
    case (Inl e)
    then show ?thesis using kept CommitAs by (simp add: mt_commit_as_def with_slot_db_def)
  next
    case (Inr slot)
    show ?thesis
    proof (cases "slot_db slot")
      case None
      then show ?thesis using Inr kept CommitAs by (simp add: mt_commit_as_def with_slot_db_def)
    next
      case (Some db)
      have "\<exists>dbo. tenancy (exec env j r w) =
          (tenancy w)\<lparr>tenants := bt_insert tid (slot\<lparr>slot_db := dbo\<rparr>) (tenants (tenancy w))\<rparr> \<and>
          (\<forall>db'. dbo = Some db' \<longrightarrow> (\<exists>res. commit env now db delta views = Some (db', res)))"
        using Inr Some CommitAs
        by (auto simp: mt_commit_as_def with_slot_db_def persisted_def put_slot_def Let_def
            split: option.splits sum.splits prod.splits)
      then show ?thesis using committed Inr Some CommitAs by auto
    qed
  qed
next
  case (RegisterPrincipal tid apid atok pid tok rl)
  show ?thesis
  proof (cases "authorized_tenant_slot_as (env_sha256 env) (tenancy w) tid apid atok Admin")
    case (Inl e)
    then show ?thesis using kept RegisterPrincipal by (simp add: register_principal_def)
  next
    case (Inr slot)
    then show ?thesis
      using kept granted RegisterPrincipal
      by (cases "bt_contains (principals slot) pid") (auto simp: register_principal_def put_slot_def)
  qed
qed (use kept in \<open>auto simp: ensure_wal_initialized_def save_tenant_snapshot_as_def checkpoint_tenant_def
    with_slot_db_def persisted_def split: option.splits sum.splits prod.splits\<close>)

lemma exec_policy [simp]: "policy (tenancy (exec env j r w)) = policy (tenancy w)"
  by (cases rule: exec_cases [of env j r w]) simp_all

section \<open>Isolation\<close>

text \<open>A slot changes only by a request that names its tenant and is entitled to.\<close>

lemma exec_isolation:
  assumes "bt_get (tenants (tenancy (exec env j r w))) t \<noteq> bt_get (tenants (tenancy w)) t"
  shows "target r = t"
    "bt_get (tenants (tenancy w)) t = None \<or>
     (\<exists>pid tok required slot. credentials r = Some (pid, tok, required) \<and> Writer \<le> required \<and>
        authorized_tenant_slot_as (env_sha256 env) (tenancy w) t pid tok required = Ok slot)"
proof -
  show *: "target r = t"
    by (rule exec_cases [of env j r w]) (use assms in \<open>auto split: if_splits\<close>)
  show "bt_get (tenants (tenancy w)) t = None \<or>
     (\<exists>pid tok required slot. credentials r = Some (pid, tok, required) \<and> Writer \<le> required \<and>
        authorized_tenant_slot_as (env_sha256 env) (tenancy w) t pid tok required = Ok slot)"
  proof (cases rule: exec_cases [of env j r w])
    case kept
    then show ?thesis using assms by simp
  next
    case (registered slot db)
    then show ?thesis using * by (metis bt_contains_iff dom_bt_get domIff)
  next
    case (committed now pid tok delta views slot db dbo)
    then have "credentials r = Some (pid, tok, Writer)" by (metis credentials.simps(4))
    then show ?thesis using committed(2) * by blast
  next
    case (granted apid atok pid tok rl slot)
    then have "credentials r = Some (apid, atok, Admin)" by (metis credentials.simps(6))
    then show ?thesis using granted(2) * by (auto simp: less_eq_TenantRole_def)
  qed
qed

text \<open>A request whose credentials are refused changes nothing at all.\<close>

lemma refused_changes_nothing:
  assumes "credentials r = Some (pid, tok, required)"
    "authorized_tenant_slot_as (env_sha256 env) (tenancy w) (target r) pid tok required = Err e"
  shows "exec env j r w = w"
  using assms
  by (cases r) (auto simp: ensure_wal_initialized_def save_tenant_snapshot_as_def checkpoint_tenant_def
      register_principal_def mt_commit_as_def with_slot_db_def)

section \<open>What requests preserve\<close>

text \<open>A credential, once registered, stays as it is.\<close>

lemma exec_keeps_credential:
  assumes "bt_get (tenants (tenancy w)) t = Some slot" "bt_get (principals slot) pid = Some cred"
  shows "\<exists>slot'. bt_get (tenants (tenancy (exec env j r w))) t = Some slot' \<and>
    bt_get (principals slot') pid = Some cred"
proof (cases rule: exec_cases [of env j r w])
  case kept
  then show ?thesis using assms by simp
next
  case (registered slot' db)
  moreover have "target r \<noteq> t"
    using registered(1) assms(1) by (metis bt_contains_iff dom_bt_get domI)
  ultimately show ?thesis using assms by simp
next
  case (committed now p tok delta views s db dbo)
  have "bt_get (tenants (tenancy w)) (target r) = Some s" using authorized_okD(1) [OF committed(2)] .
  then show ?thesis using committed(4) assms by (cases "target r = t") auto
next
  case (granted apid atok p tok rl s)
  have s: "bt_get (tenants (tenancy w)) (target r) = Some s" using authorized_okD(1) [OF granted(2)] .
  have "p \<noteq> pid" if "target r = t"
    using granted(3) assms s that by (metis bt_contains_iff dom_bt_get domI option.inject)
  then show ?thesis using granted(4) assms s by (cases "target r = t") auto
qed

definition policy_holds :: "MultiTenantNucleusDb \<Rightarrow> bool" where
  "policy_holds mt \<longleftrightarrow>
     (\<forall>tid slot db. bt_get (tenants mt) tid = Some slot \<longrightarrow> slot_db slot = Some db \<longrightarrow>
        validate_tenant_policy (policy mt) tid db = Ok ())"

lemma validate_policy_config:
  "backend db' = backend db \<Longrightarrow> witness_cfg db' = witness_cfg db \<Longrightarrow>
    validate_tenant_policy p tid db' = validate_tenant_policy p tid db"
  by (simp add: validate_tenant_policy_def)

lemma exec_policy_holds:
  assumes "policy_holds (tenancy w)"
  shows "policy_holds (tenancy (exec env j r w))"
proof (cases rule: exec_cases [of env j r w])
  case kept
  then show ?thesis using assms by simp
next
  case (registered slot db)
  then show ?thesis using assms by (auto simp: policy_holds_def)
next
  case (committed now pid tok delta views slot db dbo)
  have s: "bt_get (tenants (tenancy w)) (target r) = Some slot" using authorized_okD(1) [OF committed(2)] .
  have "validate_tenant_policy (policy (tenancy w)) (target r) db' = Ok ()" if d: "dbo = Some db'" for db'
  proof -
    obtain res where "commit env now db delta views = Some (db', res)" using committed(5) d by blast
    from commit_frame [OF this] have "backend db' = backend db" "witness_cfg db' = witness_cfg db"
      by (simp_all add: same_config_def)
    then show ?thesis
      using assms s committed(3) validate_policy_config unfolding policy_holds_def by metis
  qed
  then show ?thesis using assms committed(4) by (auto simp: policy_holds_def)
next
  case (granted apid atok pid tok rl slot)
  have "bt_get (tenants (tenancy w)) (target r) = Some slot" using authorized_okD(1) [OF granted(2)] .
  then show ?thesis using assms granted(4) by (auto simp: policy_holds_def)
qed

lemma exec_hashes32:
  assumes "hashes32 (tenancy w)" "digest32 (env_sha256 env)"
  shows "hashes32 (tenancy (exec env j r w))"
proof -
  have len: "length (mt_token_hash (env_sha256 env) tok) = 32" for tok
    using assms(2) by (simp add: mt_token_hash_def domain_hash_32_def digest32_def)
  show ?thesis
  proof (cases rule: exec_cases [of env j r w])
    case kept
    then show ?thesis using assms(1) by simp
  next
    case (registered slot db)
    have "length (cred_token_hash cred) = 32" if "bt_get (principals slot) pid = Some cred" for pid cred
    proof -
      have "cred \<in> snd ` set (principals slot)"
        using that by (force simp: bt_get_def dest: map_of_SomeD)
      then show ?thesis using registered(6) len by force
    qed
    then show ?thesis using assms(1) registered(3) by (auto simp: hashes32_def)
  next
    case (committed now pid tok delta views slot db dbo)
    have "bt_get (tenants (tenancy w)) (target r) = Some slot" using authorized_okD(1) [OF committed(2)] .
    then show ?thesis using assms(1) committed(4) by (auto simp: hashes32_def)
  next
    case (granted apid atok pid tok rl slot)
    have "bt_get (tenants (tenancy w)) (target r) = Some slot" using authorized_okD(1) [OF granted(2)] .
    then show ?thesis using assms(1) granted(4) len by (auto simp: hashes32_def)
  qed
qed

inductive served ::
  "('f::field, 'poly, 'srs, 'g, 'p) db_env \<Rightarrow> json_codec \<Rightarrow> MultiTenantPolicy \<Rightarrow> world \<Rightarrow> bool"
  for env :: "('f, 'poly, 'srs, 'g, 'p) db_env" and j p where
  served_new: "tenancy w = mt_new p \<Longrightarrow> served env j p w"
| served_exec: "served env j p w \<Longrightarrow> served env j p (exec env j r w)"

lemma served_invariants:
  assumes "served env j p w" "digest32 (env_sha256 env)"
  shows "policy (tenancy w) = p \<and> policy_holds (tenancy w) \<and> hashes32 (tenancy w)"
  using assms
proof (induction rule: served.induct)
  case (served_new w)
  then show ?case by (simp add: mt_new_def policy_holds_def hashes32_def)
next
  case (served_exec w r)
  then show ?case using exec_policy_holds exec_hashes32 by (metis exec_policy)
qed

lemma served_production:
  assumes "served env j production w" "digest32 (env_sha256 env)"
    "bt_get (tenants (tenancy w)) t = Some slot" "slot_db slot = Some db"
  shows "backend db = BinaryMerkle \<and> signing_algorithm (witness_cfg db) = MlDsa65 \<and>
    key_material_source (witness_cfg db) \<noteq> InsecureDefaultSeed"
proof -
  have "validate_tenant_policy production t db = Ok ()"
    using served_invariants [OF assms(1,2)] assms(3,4) by (auto simp: policy_holds_def)
  then show ?thesis
    by (auto simp: validate_tenant_policy_def production_def split: if_splits)
qed

text \<open>A token that is accepted is the one that was registered, unless the hash collides.\<close>

definition token_input :: "string \<Rightarrow> bytes" where
  "token_input tok = ''nucleusdb.multitenant.auth.v1'' @ CHR 0x00 # tok"

lemma accepted_token:
  assumes "hashes32 mt" "digest32 H" "authorized_tenant_slot_as H mt tid pid tok required = Ok slot"
    "bt_get (principals slot) pid = Some \<lparr>cred_token_hash = mt_token_hash H tok0, cred_role = rl\<rparr>"
    "inj_on H {token_input tok, token_input tok0}"
  shows "tok = tok0 \<and> required \<le> rl"
proof -
  have "mt_token_hash H tok0 = mt_token_hash H tok" "required \<le> rl"
    using authorized_iff [OF assms(1,2)] assms(3,4) by auto
  then have "H (token_input tok) = H (token_input tok0)"
    by (simp add: mt_token_hash_def domain_hash_32_def token_input_def)
  then have "token_input tok = token_input tok0" using assms(5) by (auto dest: inj_onD)
  then show ?thesis using \<open>required \<le> rl\<close> by (simp add: token_input_def)
qed

end
