(* ===== verification/Access.thy ===== *)
theory Access
  imports Typed_Value Rust_Std
begin

text \<open>
  Who may touch which key of a pod: the per-key grants of \<^verbatim>\<open>src/pod/acl.rs\<close> and the
  deny-overrides policies of \<^verbatim>\<open>src/pod/access_policy.rs\<close> (with the access modes of
  \<^verbatim>\<open>src/pod/capability.rs\<close>).

  The clock in seconds and in nanoseconds and the process-wide counter of grants are
  arguments.  The three checks of a grant store share one contract, the locale
  \<open>grant_check\<close>.  Files of grants and policies are JSON and are not modelled.
\<close>

unbundle bit_operations_syntax

section \<open>Grants\<close>

record GrantPermissions =
  perm_read :: bool
  perm_write :: bool
  perm_append :: bool
  perm_control :: bool

definition read_only :: GrantPermissions where
  "read_only = \<lparr>perm_read = True, perm_write = False, perm_append = False, perm_control = False\<rparr>"

definition read_write :: GrantPermissions where
  "read_write = \<lparr>perm_read = True, perm_write = True, perm_append = False, perm_control = False\<rparr>"

definition all_permissions :: GrantPermissions where
  "all_permissions = \<lparr>perm_read = True, perm_write = True, perm_append = True, perm_control = False\<rparr>"

definition owner_permissions :: GrantPermissions where
  "owner_permissions = \<lparr>perm_read = True, perm_write = True, perm_append = True, perm_control = True\<rparr>"

record AccessGrant =
  grant_id :: node_hash
  grantor_puf :: bytes
  grantee_puf :: bytes
  key_pattern :: string
  permissions :: GrantPermissions
  expires_at :: "u64 option"
  created_at :: u64
  nonce :: u64
  revoked :: bool

record GrantRequest =
  req_grantor_puf :: bytes
  req_grantee_puf :: bytes
  req_key_pattern :: string
  req_permissions :: GrantPermissions
  req_expires_at :: "u64 option"

record GrantStore =
  grants :: "AccessGrant list"

definition compute_id :: "(bytes \<Rightarrow> node_hash) \<Rightarrow> bytes \<Rightarrow> bytes \<Rightarrow> string \<Rightarrow> u64 \<Rightarrow> u64 \<Rightarrow> node_hash" where
  "compute_id H grantor grantee pattern at n =
     H (''nucleusdb.pod.grant.v1|'' @ grantor @ grantee @ pattern @ u64_to_le_bytes at @ u64_to_le_bytes n)"

definition key_pattern_matches :: "string \<Rightarrow> string \<Rightarrow> bool" where
  "key_pattern_matches pattern key =
     (if pattern = ''*'' then True
      else (case strip_suffix pattern ''*'' of
              Some prefix \<Rightarrow> starts_with key prefix
            | None \<Rightarrow> pattern = key))"

definition matches_key :: "AccessGrant \<Rightarrow> string \<Rightarrow> bool" where
  "matches_key g key = key_pattern_matches (key_pattern g) key"

definition is_active :: "u64 \<Rightarrow> AccessGrant \<Rightarrow> bool" where
  "is_active now g =
     (if revoked g then False
      else (case expires_at g of Some t \<Rightarrow> now < t | None \<Rightarrow> True))"

definition grant_store_new :: GrantStore where
  "grant_store_new = \<lparr>grants = []\<rparr>"

definition from_grants :: "AccessGrant list \<Rightarrow> GrantStore" where
  "from_grants gs = \<lparr>grants = gs\<rparr>"

definition replace_all :: "GrantStore \<Rightarrow> AccessGrant list \<Rightarrow> GrantStore" where
  "replace_all s gs = s\<lparr>grants := gs\<rparr>"

text \<open>The nonce mixes the time in nanoseconds with the counter, which it advances.\<close>

definition next_grant_nonce :: "u64 \<Rightarrow> u64 \<Rightarrow> u64 \<times> u64" where
  "next_grant_nonce nanos ctr = (nanos XOR ctr, ctr + 1)"

definition create_grant ::
  "(bytes \<Rightarrow> node_hash) \<Rightarrow> u64 \<Rightarrow> u64 \<Rightarrow> u64 \<Rightarrow> GrantRequest \<Rightarrow> GrantStore \<Rightarrow> GrantStore \<times> u64 \<times> AccessGrant" where
  "create_grant H now nanos ctr req s =
     (let (n, ctr') = next_grant_nonce nanos ctr;
          g = \<lparr>grant_id = compute_id H (req_grantor_puf req) (req_grantee_puf req) (req_key_pattern req) now n,
               grantor_puf = req_grantor_puf req, grantee_puf = req_grantee_puf req,
               key_pattern = req_key_pattern req, permissions = req_permissions req,
               expires_at = req_expires_at req, created_at = now, nonce = n, revoked = False\<rparr>
      in (s\<lparr>grants := grants s @ [g]\<rparr>, ctr', g))"

text \<open>The loop returns at the first grant with the identifier.\<close>

fun revoke_first :: "node_hash \<Rightarrow> AccessGrant list \<Rightarrow> AccessGrant list \<times> bool" where
  "revoke_first gid [] = ([], False)"
| "revoke_first gid (g # gs) =
     (if grant_id g = gid then (g\<lparr>revoked := True\<rparr> # gs, True)
      else (let (gs', r) = revoke_first gid gs in (g # gs', r)))"

definition revoke_grant :: "GrantStore \<Rightarrow> node_hash \<Rightarrow> GrantStore \<times> bool" where
  "revoke_grant s gid = (let (gs, r) = revoke_first gid (grants s) in (s\<lparr>grants := gs\<rparr>, r))"

definition get_grant :: "GrantStore \<Rightarrow> node_hash \<Rightarrow> AccessGrant option" where
  "get_grant s gid = find (\<lambda>g. grant_id g = gid) (grants s)"

definition list_all_grants :: "GrantStore \<Rightarrow> AccessGrant list" where
  "list_all_grants s = grants s"

definition active_for_grantee :: "u64 \<Rightarrow> GrantStore \<Rightarrow> bytes \<Rightarrow> AccessGrant list" where
  "active_for_grantee now s who = filter (\<lambda>g. grantee_puf g = who \<and> is_active now g) (grants s)"

definition can_read :: "u64 \<Rightarrow> GrantStore \<Rightarrow> bytes \<Rightarrow> string \<Rightarrow> bool" where
  "can_read now s who key =
     list_ex (\<lambda>g. grantee_puf g = who \<and> is_active now g \<and> perm_read (permissions g) \<and> matches_key g key) (grants s)"

definition can_write :: "u64 \<Rightarrow> GrantStore \<Rightarrow> bytes \<Rightarrow> string \<Rightarrow> bool" where
  "can_write now s who key =
     list_ex (\<lambda>g. grantee_puf g = who \<and> is_active now g \<and> perm_write (permissions g) \<and> matches_key g key) (grants s)"

definition can_control :: "u64 \<Rightarrow> GrantStore \<Rightarrow> bytes \<Rightarrow> string \<Rightarrow> bool" where
  "can_control now s who key =
     list_ex (\<lambda>g. grantee_puf g = who \<and> is_active now g \<and> perm_control (permissions g) \<and> matches_key g key) (grants s)"

section \<open>Policies\<close>

datatype AccessMode = Read | Write | Append | Control

datatype AgentMatcher =
    AnyAgent
  | AnyAuthenticated
  | ByDID "string list"
  | ByTier u8
  | ByPUF "bytes list"

record AccessPolicy =
  policy_id :: string
  matcher :: AgentMatcher
  resource_patterns :: "string list"
  allowed_modes :: "AccessMode list"
  denied_modes :: "AccessMode list"
  effective_from :: "u64 option"
  effective_until :: "u64 option"
  active :: bool

datatype AccessDecision =
    Allow string
  | Deny string string
  | NoMatch

record PolicyStore =
  policies :: "AccessPolicy list"

record AccessContext =
  agent_did :: "string option"
  agent_tier :: "u8 option"
  agent_puf :: "bytes option"
  resource_key :: string
  ctx_mode :: AccessMode
  ctx_now :: u64

definition normalize_patterns :: "string list \<Rightarrow> string list" where
  "normalize_patterns ps = remdups_adj (sort (filter (\<lambda>p. p \<noteq> []) (map trim ps)))"

definition mode_in :: "AccessMode list \<Rightarrow> AccessMode \<Rightarrow> bool" where
  "mode_in modes m = List.member modes m"

definition matches_time_window :: "AccessPolicy \<Rightarrow> u64 \<Rightarrow> bool" where
  "matches_time_window p now =
     (if \<not> active p then False
      else if (case effective_from p of Some t \<Rightarrow> now < t | None \<Rightarrow> False) then False
      else if (case effective_until p of Some t \<Rightarrow> t \<le> now | None \<Rightarrow> False) then False
      else True)"

definition matches_resource :: "AccessPolicy \<Rightarrow> string \<Rightarrow> bool" where
  "matches_resource p key =
     (let pats = normalize_patterns (resource_patterns p)
      in pats \<noteq> [] \<and> list_ex (\<lambda>q. key_pattern_matches q key) pats)"

definition matches_agent :: "AccessPolicy \<Rightarrow> AccessContext \<Rightarrow> bool" where
  "matches_agent p ctx =
     (case matcher p of
        AnyAgent \<Rightarrow> True
      | AnyAuthenticated \<Rightarrow>
          (case agent_did ctx of Some d \<Rightarrow> trim d \<noteq> [] \<and> starts_with d ''did:'' | None \<Rightarrow> False)
      | ByDID dids \<Rightarrow>
          (case agent_did ctx of Some d \<Rightarrow> trim d \<noteq> [] \<and> List.member dids d | None \<Rightarrow> False)
      | ByTier t \<Rightarrow> (case agent_tier ctx of Some t' \<Rightarrow> t \<le> t' | None \<Rightarrow> False)
      | ByPUF fps \<Rightarrow> (case agent_puf ctx of Some q \<Rightarrow> List.member fps q | None \<Rightarrow> False))"

definition policy_store_new :: PolicyStore where
  "policy_store_new = \<lparr>policies = []\<rparr>"

definition add_policy :: "PolicyStore \<Rightarrow> AccessPolicy \<Rightarrow> PolicyStore" where
  "add_policy s p = s\<lparr>policies := filter (\<lambda>q. policy_id q \<noteq> policy_id p) (policies s) @ [p]\<rparr>"

definition remove_policy :: "PolicyStore \<Rightarrow> string \<Rightarrow> PolicyStore \<times> bool" where
  "remove_policy s pid =
     (let s' = s\<lparr>policies := filter (\<lambda>q. policy_id q \<noteq> pid) (policies s)\<rparr>
      in (s', length (policies s') \<noteq> length (policies s)))"

definition evaluate :: "PolicyStore \<Rightarrow> AccessContext \<Rightarrow> AccessDecision" where
  "evaluate s ctx =
     (let applicable = filter (\<lambda>p. matches_resource p (resource_key ctx))
            (filter (\<lambda>p. matches_agent p ctx) (filter (\<lambda>p. matches_time_window p (ctx_now ctx)) (policies s)))
      in case find (\<lambda>p. mode_in (denied_modes p) (ctx_mode ctx)) applicable of
           Some p \<Rightarrow> Deny (policy_id p) ''deny rule matched''
         | None \<Rightarrow>
             (case find (\<lambda>p. mode_in (allowed_modes p) (ctx_mode ctx)) applicable of
                Some p \<Rightarrow> Allow (policy_id p)
              | None \<Rightarrow> NoMatch))"

section \<open>Patterns\<close>

lemma sort_remdups_adj:
  assumes "sorted (map f xs)"
  shows "sort_key f (remdups_adj xs) = remdups_adj xs"
proof -
  have "sorted (map f (remdups_adj xs))"
    using assms by (induction xs rule: remdups_adj.induct) auto
  then show ?thesis by (rule sort_key_id_if_sorted)
qed

lemma remdups_adj_idem [simp]: "remdups_adj (remdups_adj xs) = remdups_adj xs"
  using distinct_adj_altdef distinct_adj_remdups_adj by blast

lemma normalize_patterns_idem [simp]: "normalize_patterns (normalize_patterns ps) = normalize_patterns ps"
proof -
  let ?xs = "normalize_patterns ps"
  have xs: "trim p = p \<and> p \<noteq> []" if "p \<in> set ?xs" for p
    using that by (auto simp: normalize_patterns_def)
  then have "map trim ?xs = ?xs" "filter (\<lambda>p. p \<noteq> []) ?xs = ?xs"
    by (auto simp: map_idI filter_id_conv)
  then have "normalize_patterns ?xs = remdups_adj (sort ?xs)" by (simp add: normalize_patterns_def)
  also have "sort ?xs = ?xs"
    unfolding normalize_patterns_def by (rule sort_remdups_adj) simp
  finally show ?thesis by (simp add: normalize_patterns_def)
qed

lemma strip_star: "strip_suffix pattern ''*'' = Some p \<longleftrightarrow> pattern = p @ ''*''"
proof -
  have "starts_with (rev pattern) ''*'' \<longleftrightarrow> (\<exists>q. pattern = q @ ''*'')"
    by (metis append_Cons append_Nil rev.simps(2) rev_rev_ident rev_singleton_conv starts_with_iff rev_append)
  then show ?thesis by (auto simp: strip_suffix_def ends_with_def)
qed

text \<open>A pattern with a final star covers the keys with that prefix, any other one key.\<close>

lemma key_pattern_matches_iff:
  "key_pattern_matches pattern key \<longleftrightarrow> pattern = key \<or> (\<exists>p s. pattern = p @ ''*'' \<and> key = p @ s)"
proof (cases "strip_suffix pattern ''*''")
  case None
  then have "\<nexists>p. pattern = p @ ''*''" using strip_star by (metis not_Some_eq)
  then show ?thesis using None by (auto simp: key_pattern_matches_def)
next
  case (Some p)
  then have "pattern = p @ ''*''" by (simp add: strip_star)
  then show ?thesis using Some by (auto simp: key_pattern_matches_def starts_with_iff)
qed

section \<open>Grants as a set of rights\<close>

text \<open>
  Every check asks for one active grant to the caller that matches the key and carries one
  permission.  What creating and revoking do to a check follows from that alone.
\<close>

lemma revoke_first_set:
  assumes "distinct (map grant_id gs)"
  shows "set (fst (revoke_first gid gs)) = (\<lambda>g. if grant_id g = gid then g\<lparr>revoked := True\<rparr> else g) ` set gs"
  using assms by (induction gs) (auto simp: case_prod_beta Let_def image_iff)

lemma revoke_first_ids [simp]: "map grant_id (fst (revoke_first gid gs)) = map grant_id gs"
  by (induction gs) (auto simp: case_prod_beta Let_def)

lemma revoke_first_found: "snd (revoke_first gid gs) \<longleftrightarrow> gid \<in> set (map grant_id gs)"
  by (induction gs) (auto simp: case_prod_beta Let_def)

lemma grants_revoke: "grants (fst (revoke_grant s gid)) = fst (revoke_first gid (grants s))"
  by (simp add: revoke_grant_def case_prod_beta Let_def)

lemma is_active_later: "is_active now g \<Longrightarrow> now' \<le> now \<Longrightarrow> is_active now' g"
  by (auto simp: is_active_def split: if_splits option.splits)

locale grant_check =
  fixes check :: "u64 \<Rightarrow> GrantStore \<Rightarrow> bytes \<Rightarrow> string \<Rightarrow> bool"
    and perm :: "GrantPermissions \<Rightarrow> bool"
  assumes check_iff: "check now s who key \<longleftrightarrow>
    (\<exists>g \<in> set (grants s). grantee_puf g = who \<and> is_active now g \<and> perm (permissions g) \<and> matches_key g key)"
begin

lemma check_new: "\<not> check now grant_store_new who key"
  by (simp add: check_iff grant_store_new_def)

lemma check_created:
  assumes "create_grant H at nanos ctr req s = (s', ctr', g)"
  shows "check now s' who key \<longleftrightarrow> check now s who key \<or>
    (req_grantee_puf req = who \<and> perm (req_permissions req) \<and> key_pattern_matches (req_key_pattern req) key \<and>
     (case req_expires_at req of Some t \<Rightarrow> now < t | None \<Rightarrow> True))"
  using assms
  by (auto simp: create_grant_def next_grant_nonce_def check_iff is_active_def matches_key_def Let_def)

lemma check_revoked:
  assumes "distinct (map grant_id (grants s))"
  shows "check now (fst (revoke_grant s gid)) who key \<longleftrightarrow>
    (\<exists>g \<in> set (grants s). grant_id g \<noteq> gid \<and> grantee_puf g = who \<and> is_active now g \<and>
       perm (permissions g) \<and> matches_key g key)"
  by (force simp: check_iff grants_revoke revoke_first_set [OF assms] is_active_def matches_key_def)

text \<open>Time alone only takes rights away.\<close>

lemma check_expires: "check now s who key \<Longrightarrow> now' \<le> now \<Longrightarrow> check now' s who key"
  using is_active_later by (auto simp: check_iff)

end

interpretation read_check: grant_check can_read perm_read
  by unfold_locales (simp add: can_read_def list_ex_iff)

interpretation write_check: grant_check can_write perm_write
  by unfold_locales (simp add: can_write_def list_ex_iff)

interpretation control_check: grant_check can_control perm_control
  by unfold_locales (simp add: can_control_def list_ex_iff)

text \<open>
  Two grants of one second can share their nonce, because the time and the counter are mixed by
  exclusive or; the second then survives its revocation.
\<close>

lemma grant_survives_revocation:
  assumes "create_grant H now nanos ctr req s = (s1, ctr1, g1)" "create_grant H now nanos' ctr' req s1 = (s2, ctr2, g2)"
    "nanos XOR ctr = nanos' XOR ctr'" "perm_read (req_permissions req)" "req_expires_at req = None"
    "key_pattern_matches (req_key_pattern req) key"
  shows "grant_id g1 = grant_id g2" "can_read t (fst (revoke_grant s2 (grant_id g2))) (req_grantee_puf req) key"
proof -
  have g: "g1 = g2" "g2 = g2\<lparr>revoked := False\<rparr>" "grants s2 = grants s @ [g1, g2]" "perm_read (permissions g2)"
    "grantee_puf g2 = req_grantee_puf req" "is_active t g2" "matches_key g2 key"
    using assms by (auto simp: create_grant_def next_grant_nonce_def is_active_def matches_key_def Let_def)
  then show "grant_id g1 = grant_id g2" by simp
  have "g \<in> set (fst (revoke_first gid (gs @ [g, g])))" for g gid gs
    by (induction gs) (auto simp: case_prod_beta Let_def)
  then have "g2 \<in> set (grants (fst (revoke_grant s2 (grant_id g2))))"
    using g(1,3) by (simp add: grants_revoke)
  then show "can_read t (fst (revoke_grant s2 (grant_id g2))) (req_grantee_puf req) key"
    using g by (auto simp: read_check.check_iff)
qed

lemma nonces_collide:
  "fst (next_grant_nonce 0x18000000000 0x3FF) = fst (next_grant_nonce 0x180000007FF 0x400)"
  by (simp add: next_grant_nonce_def)

section \<open>Policies decide as specified\<close>

definition applies :: "AccessPolicy \<Rightarrow> AccessContext \<Rightarrow> bool" where
  "applies p ctx \<longleftrightarrow>
     active p \<and>
     (\<forall>t. effective_from p = Some t \<longrightarrow> t \<le> ctx_now ctx) \<and>
     (\<forall>t. effective_until p = Some t \<longrightarrow> ctx_now ctx < t) \<and>
     matches_agent p ctx \<and>
     (\<exists>q \<in> set (resource_patterns p). trim q \<noteq> [] \<and> key_pattern_matches (trim q) (resource_key ctx))"

lemma set_normalize: "set (normalize_patterns ps) = {trim p |p. p \<in> set ps \<and> trim p \<noteq> []}"
  by (auto simp: normalize_patterns_def)

lemma applies_iff:
  "matches_time_window p (ctx_now ctx) \<and> matches_agent p ctx \<and> matches_resource p (resource_key ctx) \<longleftrightarrow>
    applies p ctx"
proof -
  have "matches_resource p key \<longleftrightarrow>
      (\<exists>q \<in> set (resource_patterns p). trim q \<noteq> [] \<and> key_pattern_matches (trim q) key)" for key
    using set_normalize [of "resource_patterns p"]
    by (auto simp: matches_resource_def list_ex_iff Let_def)
  then show ?thesis
    by (auto simp: applies_def matches_time_window_def not_less split: option.splits)
qed

lemma evaluate_find:
  "evaluate s ctx =
     (case find (\<lambda>p. mode_in (denied_modes p) (ctx_mode ctx)) (filter (\<lambda>p. applies p ctx) (policies s)) of
        Some p \<Rightarrow> Deny (policy_id p) ''deny rule matched''
      | None \<Rightarrow>
          (case find (\<lambda>p. mode_in (allowed_modes p) (ctx_mode ctx)) (filter (\<lambda>p. applies p ctx) (policies s)) of
             Some p \<Rightarrow> Allow (policy_id p)
           | None \<Rightarrow> NoMatch))"
proof -
  have "filter (\<lambda>p. matches_resource p (resource_key ctx))
      (filter (\<lambda>p. matches_agent p ctx) (filter (\<lambda>p. matches_time_window p (ctx_now ctx)) ps)) =
      filter (\<lambda>p. applies p ctx) ps" for ps
    using applies_iff by (auto simp: conj_ac intro!: filter_cong)
  then show ?thesis by (simp add: evaluate_def Let_def)
qed

lemma find_SomeD: "find P xs = Some x \<Longrightarrow> x \<in> set xs \<and> P x"
  by (auto simp: find_Some_iff)

lemma evaluate_cases:
  obtains (deny) p where "p \<in> set (policies s)" "applies p ctx" "ctx_mode ctx \<in> set (denied_modes p)"
      "evaluate s ctx = Deny (policy_id p) ''deny rule matched''"
  | (allow) p where "p \<in> set (policies s)" "applies p ctx" "ctx_mode ctx \<in> set (allowed_modes p)"
      "\<forall>q \<in> set (policies s). applies q ctx \<longrightarrow> ctx_mode ctx \<notin> set (denied_modes q)"
      "evaluate s ctx = Allow (policy_id p)"
  | (none) "\<forall>q \<in> set (policies s). applies q ctx \<longrightarrow>
      ctx_mode ctx \<notin> set (denied_modes q) \<and> ctx_mode ctx \<notin> set (allowed_modes q)"
      "evaluate s ctx = NoMatch"
proof (cases "find (\<lambda>p. mode_in (denied_modes p) (ctx_mode ctx)) (filter (\<lambda>p. applies p ctx) (policies s))")
  case (Some p)
  then show ?thesis
    using find_SomeD [OF Some] by (intro deny [of p]) (auto simp: evaluate_find mode_in_def List.member_iff)
next
  case None
  note n = None
  then have d: "\<forall>q \<in> set (policies s). applies q ctx \<longrightarrow> ctx_mode ctx \<notin> set (denied_modes q)"
    by (auto simp: find_None_iff mode_in_def List.member_iff)
  show ?thesis
  proof (cases "find (\<lambda>p. mode_in (allowed_modes p) (ctx_mode ctx)) (filter (\<lambda>p. applies p ctx) (policies s))")
    case None
    then have "evaluate s ctx = NoMatch" using n by (simp add: evaluate_find)
    moreover have "\<forall>q \<in> set (policies s). applies q ctx \<longrightarrow> ctx_mode ctx \<notin> set (allowed_modes q)"
      using None by (auto simp: find_None_iff mode_in_def List.member_iff)
    ultimately show ?thesis using d by (intro none) auto
  next
    case (Some p)
    then show ?thesis
      using n d find_SomeD [OF Some]
      by (intro allow [of p]) (auto simp: evaluate_find mode_in_def List.member_iff)
  qed
qed

lemma evaluate_spec:
  "(\<exists>pid r. evaluate s ctx = Deny pid r) \<longleftrightarrow>
    (\<exists>p \<in> set (policies s). applies p ctx \<and> ctx_mode ctx \<in> set (denied_modes p))"
  "(\<exists>pid. evaluate s ctx = Allow pid) \<longleftrightarrow>
    (\<exists>p \<in> set (policies s). applies p ctx \<and> ctx_mode ctx \<in> set (allowed_modes p)) \<and>
    \<not> (\<exists>p \<in> set (policies s). applies p ctx \<and> ctx_mode ctx \<in> set (denied_modes p))"
proof -
  show "(\<exists>pid r. evaluate s ctx = Deny pid r) \<longleftrightarrow>
    (\<exists>p \<in> set (policies s). applies p ctx \<and> ctx_mode ctx \<in> set (denied_modes p))"
    by (rule evaluate_cases [of s ctx]) auto
  show "(\<exists>pid. evaluate s ctx = Allow pid) \<longleftrightarrow>
    (\<exists>p \<in> set (policies s). applies p ctx \<and> ctx_mode ctx \<in> set (allowed_modes p)) \<and>
    \<not> (\<exists>p \<in> set (policies s). applies p ctx \<and> ctx_mode ctx \<in> set (denied_modes p))"
    by (rule evaluate_cases [of s ctx]) auto
qed

text \<open>Adding a policy replaces the one with its identifier; a removed one no longer counts.\<close>

lemma add_policy_set:
  "set (policies (add_policy s p)) = insert p {q \<in> set (policies s). policy_id q \<noteq> policy_id p}"
  by (auto simp: add_policy_def)

lemma remove_policy_set:
  "set (policies (fst (remove_policy s pid))) = {q \<in> set (policies s). policy_id q \<noteq> pid}"
  "snd (remove_policy s pid) \<longleftrightarrow> pid \<in> policy_id ` set (policies s)"
proof -
  show "set (policies (fst (remove_policy s pid))) = {q \<in> set (policies s). policy_id q \<noteq> pid}"
    by (simp add: remove_policy_def Let_def)
  have "length (filter (\<lambda>q. policy_id q \<noteq> pid) ps) = length ps \<longleftrightarrow> (\<forall>q \<in> set ps. policy_id q \<noteq> pid)" for ps
    using length_filter_less [of _ ps "\<lambda>q. policy_id q \<noteq> pid"] by fastforce
  then show "snd (remove_policy s pid) \<longleftrightarrow> pid \<in> policy_id ` set (policies s)"
    by (auto simp: remove_policy_def Let_def)
qed

end
