(* ===== verification/DID.thy ===== *)
theory DID
  imports Access
begin

text \<open>
  \<^verbatim>\<open>src/halo/did.rs\<close>: decentralised identities, their documents and signatures under two
  algorithms (with the key derivations of \<^verbatim>\<open>src/halo/genesis_seed.rs\<close>).

  HKDF, the multibase coding, the Ed25519, ML-DSA, X25519 and ML-KEM crates are the
  parameters of \<open>did_env\<close>, with keys and signatures represented by their encodings;
  \<open>did_laws\<close> collects what they document.  An ML-DSA key pair is represented by its seed.
  The derivations ask HKDF for 32 or 64 bytes, which never fails.  The texts the crates add to
  an error are left out.
\<close>

section \<open>Identities\<close>

record did_env =
  hkdf_sha256 :: "bytes \<Rightarrow> bytes \<Rightarrow> bytes \<Rightarrow> nat \<Rightarrow> bytes"
  mb_encode :: "bytes \<Rightarrow> string"
  mb_decode :: "string \<Rightarrow> string + bytes"
  did_ed_public :: "bytes \<Rightarrow> bytes"
  did_ed_valid :: "bytes \<Rightarrow> bool"
  did_ed_sign :: "bytes \<Rightarrow> bytes \<Rightarrow> bytes"
  did_ed_verify :: "bytes \<Rightarrow> bytes \<Rightarrow> bytes \<Rightarrow> bool"
  did_ml_public :: "bytes \<Rightarrow> bytes"
  did_ml_sign :: "bytes \<Rightarrow> bytes \<Rightarrow> bytes \<Rightarrow> string + bytes"
  did_ml_decode :: "bytes \<Rightarrow> bytes option"
  did_ml_verify :: "bytes \<Rightarrow> bytes \<Rightarrow> bytes \<Rightarrow> bytes \<Rightarrow> bool"
  x25519_public :: "bytes \<Rightarrow> bytes"
  mlkem_generate :: "bytes \<Rightarrow> bytes"
  mlkem_public :: "bytes \<Rightarrow> bytes"

record VerificationMethod =
  vm_id :: string
  vm_type :: string
  vm_controller :: string
  vm_public_key_multibase :: string

record KeyAgreementMethod =
  ka_id :: string
  ka_type :: string
  ka_controller :: string
  ka_public_key_multibase :: string

record DIDDocument =
  doc_id :: string
  also_known_as :: "string list"
  verification_method :: "VerificationMethod list"
  key_agreement :: "KeyAgreementMethod list"
  authentication :: "string list"
  assertion_method :: "string list"

record DIDIdentity =
  did :: string
  did_document :: DIDDocument
  ed25519_signing_key :: bytes
  mldsa65_signing_key :: bytes
  x25519_agreement_key :: bytes
  mlkem768_decapsulation_key :: bytes

abbreviation "MULTICODEC_ED25519_PUB \<equiv> [CHR 0xED, CHR 0x01]"
abbreviation "MULTICODEC_X25519_PUB \<equiv> [CHR 0xEC, CHR 0x01]"
abbreviation "TYPE_ED25519 \<equiv> ''Ed25519VerificationKey2020''"
abbreviation "TYPE_MLDSA65 \<equiv> ''MlDsa65VerificationKey2025''"
abbreviation "TYPE_X25519 \<equiv> ''X25519KeyAgreementKey2020''"
abbreviation "TYPE_MLKEM768 \<equiv> ''MlKem768KeyAgreementKey2025''"
abbreviation "MLDSA65_CONTEXT \<equiv> ''agenthalo-did-v1''"
abbreviation "HKDF_IDENTITY_SALT \<equiv> ''agenthalo-genesis-identity-v1''"

text \<open>The sizes ML-DSA-65 fixes for encoded verifying keys and signatures.\<close>

abbreviation "MLDSA65_KEY_LEN \<equiv> 1952 :: nat"
abbreviation "MLDSA65_SIG_LEN \<equiv> 3309 :: nat"

definition derive_p2p_identity :: "did_env \<Rightarrow> bytes \<Rightarrow> bytes" where
  "derive_p2p_identity env seed = hkdf_sha256 env HKDF_IDENTITY_SALT seed ''agenthalo-p2p-identity-v1'' 32"

definition derive_did_agreement_keys :: "did_env \<Rightarrow> bytes \<Rightarrow> bytes \<times> bytes" where
  "derive_did_agreement_keys env seed =
     (hkdf_sha256 env HKDF_IDENTITY_SALT seed ''agenthalo-didcomm-x25519-v1'' 32,
      hkdf_sha256 env HKDF_IDENTITY_SALT seed ''agenthalo-didcomm-mlkem768-v1'' 64)"

definition hkdf_expand :: "did_env \<Rightarrow> nat \<Rightarrow> bytes \<Rightarrow> bytes \<Rightarrow> bytes" where
  "hkdf_expand env n seed info = hkdf_sha256 env HKDF_IDENTITY_SALT seed info n"

definition encode_multibase_key :: "did_env \<Rightarrow> bytes \<Rightarrow> bytes \<Rightarrow> string" where
  "encode_multibase_key env prefix pk = mb_encode env (prefix @ pk)"

definition encode_multibase_untyped_key :: "did_env \<Rightarrow> bytes \<Rightarrow> string" where
  "encode_multibase_untyped_key env pk = encode_multibase_key env [] pk"

definition decode_multibase_key :: "did_env \<Rightarrow> string \<Rightarrow> bytes \<Rightarrow> string + bytes" where
  "decode_multibase_key env encoded prefix =
     (case mb_decode env encoded of
        Inl e \<Rightarrow> Err (''multibase decode failed for key material: '' @ e)
      | Inr decoded \<Rightarrow>
          if length decoded < length prefix then
            Err ''decoded multibase key is shorter than expected prefix''
          else if \<not> starts_with decoded prefix then
            Err ''decoded multibase key has unexpected multicodec prefix''
          else Ok (drop (length prefix) decoded))"

definition decode_multibase_untyped_key :: "did_env \<Rightarrow> string \<Rightarrow> string + bytes" where
  "decode_multibase_untyped_key env encoded =
     (case mb_decode env encoded of
        Inl e \<Rightarrow> Err (''multibase decode failed for untyped key material: '' @ e)
      | Inr decoded \<Rightarrow> Ok decoded)"

definition did_from_ed25519_public_key :: "did_env \<Rightarrow> bytes \<Rightarrow> string" where
  "did_from_ed25519_public_key env pk = ''did:key:'' @ encode_multibase_key env MULTICODEC_ED25519_PUB pk"

definition did_uri_from_genesis_seed :: "did_env \<Rightarrow> bytes \<Rightarrow> string" where
  "did_uri_from_genesis_seed env seed =
     did_from_ed25519_public_key env (did_ed_public env (derive_p2p_identity env seed))"

definition did_fragment :: "string \<Rightarrow> string \<Rightarrow> string" where
  "did_fragment d suffix = d @ ''#'' @ suffix"

definition build_did_document_from_parts ::
  "did_env \<Rightarrow> string \<Rightarrow> bytes \<Rightarrow> bytes \<Rightarrow> bytes \<Rightarrow> bytes \<Rightarrow> DIDDocument" where
  "build_did_document_from_parts env d ed_pk ml_pk x_pk kem_pk =
     (let ed_key_id = did_fragment d ''key-ed25519-1'';
          pq_key_id = did_fragment d ''key-mldsa65-1'';
          x25519_key_id = did_fragment d ''key-x25519-1'';
          mlkem_key_id = did_fragment d ''key-mlkem768-1''
      in \<lparr>doc_id = d, also_known_as = [],
          verification_method =
            [\<lparr>vm_id = ed_key_id, vm_type = TYPE_ED25519, vm_controller = d,
              vm_public_key_multibase = encode_multibase_key env MULTICODEC_ED25519_PUB ed_pk\<rparr>,
             \<lparr>vm_id = pq_key_id, vm_type = TYPE_MLDSA65, vm_controller = d,
              vm_public_key_multibase = encode_multibase_untyped_key env ml_pk\<rparr>],
          key_agreement =
            [\<lparr>ka_id = x25519_key_id, ka_type = TYPE_X25519, ka_controller = d,
              ka_public_key_multibase = encode_multibase_key env MULTICODEC_X25519_PUB x_pk\<rparr>,
             \<lparr>ka_id = mlkem_key_id, ka_type = TYPE_MLKEM768, ka_controller = d,
              ka_public_key_multibase = encode_multibase_untyped_key env kem_pk\<rparr>],
          authentication = [ed_key_id, pq_key_id], assertion_method = [ed_key_id, pq_key_id]\<rparr>)"

definition did_from_genesis_seed :: "did_env \<Rightarrow> bytes \<Rightarrow> DIDIdentity" where
  "did_from_genesis_seed env seed =
     (let ed_sk = derive_p2p_identity env seed;
          ed_pk = did_ed_public env ed_sk;
          ml_seed = hkdf_expand env 32 seed ''agenthalo-did-pq-signing-v1'';
          (x_sk, kem_seed) = derive_did_agreement_keys env seed;
          dk = mlkem_generate env (take 32 kem_seed);
          d = did_from_ed25519_public_key env ed_pk
      in \<lparr>did = d,
          did_document = build_did_document_from_parts env d ed_pk (did_ml_public env ml_seed)
            (x25519_public env x_sk) (mlkem_public env dk),
          ed25519_signing_key = ed_sk, mldsa65_signing_key = ml_seed, x25519_agreement_key = x_sk,
          mlkem768_decapsulation_key = dk\<rparr>)"

definition build_did_document :: "did_env \<Rightarrow> DIDIdentity \<Rightarrow> DIDDocument" where
  "build_did_document env i =
     build_did_document_from_parts env (did i) (did_ed_public env (ed25519_signing_key i))
       (did_ml_public env (mldsa65_signing_key i)) (x25519_public env (x25519_agreement_key i))
       (mlkem_public env (mlkem768_decapsulation_key i))"

section \<open>Signatures\<close>

definition dual_sign :: "did_env \<Rightarrow> DIDIdentity \<Rightarrow> bytes \<Rightarrow> string + bytes \<times> bytes" where
  "dual_sign env i message =
     (case did_ml_sign env (mldsa65_signing_key i) message MLDSA65_CONTEXT of
        Inl e \<Rightarrow> Err (''ML-DSA signing failed: '' @ e)
      | Inr pq \<Rightarrow> Ok (did_ed_sign env (ed25519_signing_key i) message, pq))"

definition dual_verify :: "did_env \<Rightarrow> DIDDocument \<Rightarrow> bytes \<Rightarrow> bytes \<Rightarrow> bytes \<Rightarrow> string + bool" where
  "dual_verify env doc message ed_sig pq_sig =
     (case find (\<lambda>m. vm_type m = TYPE_ED25519) (verification_method doc) of
        None \<Rightarrow> Err ''DID document missing Ed25519 verification method''
      | Some ed_method \<Rightarrow>
     (case find (\<lambda>m. vm_type m = TYPE_MLDSA65) (verification_method doc) of
        None \<Rightarrow> Err ''DID document missing ML-DSA-65 verification method''
      | Some pq_method \<Rightarrow>
     (case decode_multibase_key env (vm_public_key_multibase ed_method) MULTICODEC_ED25519_PUB of
        Inl e \<Rightarrow> Err e
      | Inr ed_pk \<Rightarrow>
     if length ed_pk \<noteq> 32 then Err ''Ed25519 key length must be exactly 32 bytes''
     else if \<not> did_ed_valid env ed_pk then Err ''invalid Ed25519 key in DID document''
     else if length ed_sig \<noteq> 64 then Err ''invalid Ed25519 signature bytes''
     else let ed_ok = did_ed_verify env ed_pk message ed_sig in
     (case decode_multibase_untyped_key env (vm_public_key_multibase pq_method) of
        Inl e \<Rightarrow> Err e
      | Inr pq_pk \<Rightarrow>
     if length pq_pk \<noteq> MLDSA65_KEY_LEN then Err ''invalid ML-DSA verifying key encoding in DID document''
     else if length pq_sig \<noteq> MLDSA65_SIG_LEN then Err ''invalid ML-DSA signature encoding''
     else (case did_ml_decode env pq_sig of
             None \<Rightarrow> Err ''invalid ML-DSA signature payload''
           | Some s \<Rightarrow> Ok (ed_ok \<and> did_ml_verify env pq_pk message MLDSA65_CONTEXT s))))))"

text \<open>\<^verbatim>\<open>str::to_lowercase\<close> on the hexadecimal address it is called with is the ASCII one.\<close>

definition bind_evm_address :: "DIDDocument \<Rightarrow> string \<Rightarrow> DIDDocument \<times> bool" where
  "bind_evm_address doc addr =
     (let pkh = ''did:pkh:eip155:1:'' @ to_ascii_lowercase addr
      in if List.member (also_known_as doc) pkh then (doc, False)
         else (doc\<lparr>also_known_as := also_known_as doc @ [pkh]\<rparr>, True))"

section \<open>Signatures verify\<close>

text \<open>What the crates document: codings and signatures made with a key are accepted.\<close>

definition did_laws :: "did_env \<Rightarrow> bool" where
  "did_laws env \<longleftrightarrow>
     (\<forall>bs. mb_decode env (mb_encode env bs) = Ok bs) \<and>
     (\<forall>sk m. length (did_ed_public env sk) = 32 \<and> did_ed_valid env (did_ed_public env sk) \<and>
        length (did_ed_sign env sk m) = 64 \<and> did_ed_verify env (did_ed_public env sk) m (did_ed_sign env sk m)) \<and>
     (\<forall>seed m ctx. length (did_ml_public env seed) = MLDSA65_KEY_LEN \<and>
        (length ctx \<le> 255 \<longrightarrow>
          (\<exists>sig s. did_ml_sign env seed m ctx = Ok sig \<and> length sig = MLDSA65_SIG_LEN \<and>
             did_ml_decode env sig = Some s \<and> did_ml_verify env (did_ml_public env seed) m ctx s)))"

text \<open>A document lists the public keys of an identity, under whatever name.\<close>

definition doc_keys :: "did_env \<Rightarrow> DIDDocument \<Rightarrow> DIDIdentity \<Rightarrow> bool" where
  "doc_keys env doc i \<longleftrightarrow>
     verification_method doc =
       verification_method (build_did_document env (i\<lparr>did := doc_id doc\<rparr>))"

lemma doc_keys_own [simp]: "doc_keys env (build_did_document env i) i"
  by (cases i) (simp add: doc_keys_def build_did_document_def build_did_document_from_parts_def Let_def)

lemma genesis_document: "did_document (did_from_genesis_seed env seed) = build_did_document env (did_from_genesis_seed env seed)"
  by (simp add: did_from_genesis_seed_def build_did_document_def Let_def case_prod_beta)

lemma genesis_uri: "did (did_from_genesis_seed env seed) = did_uri_from_genesis_seed env seed"
  by (simp add: did_from_genesis_seed_def did_uri_from_genesis_seed_def Let_def case_prod_beta)

lemma genesis_doc_id: "doc_id (did_document (did_from_genesis_seed env seed)) = did (did_from_genesis_seed env seed)"
  by (simp add: genesis_document build_did_document_def build_did_document_from_parts_def Let_def)

lemma dual_sign_verifies:
  assumes "did_laws env" "doc_keys env doc i"
  obtains ed pq where "dual_sign env i msg = Ok (ed, pq)" "dual_verify env doc msg ed pq = Ok True"
    "length ed = 64" "length pq = MLDSA65_SIG_LEN"
proof -
  have mb: "mb_decode env (mb_encode env bs) = Ok bs" for bs
    using assms(1) by (simp add: did_laws_def)
  have ed: "length (did_ed_public env sk) = 32" "did_ed_valid env (did_ed_public env sk)"
    "length (did_ed_sign env sk m) = 64" "did_ed_verify env (did_ed_public env sk) m (did_ed_sign env sk m)" for sk m
    using assms(1) by (simp_all add: did_laws_def)
  have ml: "length (did_ml_public env seed) = MLDSA65_KEY_LEN" for seed
    using assms(1) by (simp add: did_laws_def)
  have "length MLDSA65_CONTEXT \<le> 255" by simp
  then obtain pq s where pq: "did_ml_sign env (mldsa65_signing_key i) msg MLDSA65_CONTEXT = Ok pq"
    "length pq = MLDSA65_SIG_LEN" "did_ml_decode env pq = Some s"
    "did_ml_verify env (did_ml_public env (mldsa65_signing_key i)) msg MLDSA65_CONTEXT s"
    using assms(1) unfolding did_laws_def by blast
  let ?ed = "did_ed_sign env (ed25519_signing_key i) msg"
  have "dual_verify env doc msg ?ed pq = Ok True"
    using assms(2) pq ed ml mb
    by (simp add: dual_verify_def doc_keys_def build_did_document_def build_did_document_from_parts_def
        decode_multibase_key_def decode_multibase_untyped_key_def encode_multibase_key_def
        encode_multibase_untyped_key_def starts_with_def Let_def)
  then show ?thesis
    using that [of ?ed pq] pq(1,2) ed(3) by (simp add: dual_sign_def)
qed

end
