(* ===== verification/Capability.thy ===== *)
theory Capability
  imports DID
begin

text \<open>
  \<^verbatim>\<open>src/pod/capability.rs\<close>, signed capability tokens, and \<^verbatim>\<open>src/pod/did_acl_bridge.rs\<close>, which
  turns them into grants.  The JSON text of the signed part is the parameter \<open>canonical_json\<close>.
  Files of tokens are not modelled.
\<close>

section \<open>Tokens\<close>

fun mode_as_str :: "AccessMode \<Rightarrow> string" where
  "mode_as_str Read = ''read''"
| "mode_as_str Write = ''write''"
| "mode_as_str Append = ''append''"
| "mode_as_str Control = ''control''"

fun mode_sort_rank :: "AccessMode \<Rightarrow> nat" where
  "mode_sort_rank Read = 0"
| "mode_sort_rank Write = 1"
| "mode_sort_rank Append = 2"
| "mode_sort_rank Control = 3"

datatype AgentClass =
    Public
  | Authenticated
  | Verified u8
  | Specific string

record CapabilityToken =
  token_id :: node_hash
  grantor_did :: string
  grantor_did_document :: DIDDocument
  grantee_did :: string
  agent_class :: AgentClass
  token_patterns :: "string list"
  modes :: "AccessMode list"
  not_before :: u64
  token_expires_at :: u64
  delegatable :: bool
  delegation_chain :: "string list"
  signature_ed25519_hex :: string
  signature_mldsa65_hex :: string
  token_created_at :: u64
  token_revoked :: bool

record CapabilityCanonical =
  cc_grantor_did :: string
  cc_grantee_did :: string
  cc_agent_class :: AgentClass
  cc_patterns :: "string list"
  cc_modes :: "AccessMode list"
  cc_not_before :: u64
  cc_expires_at :: u64
  cc_delegatable :: bool
  cc_delegation_chain :: "string list"
  cc_created_at :: u64

record CapabilityStore =
  tokens :: "CapabilityToken list"

record cap_env =
  cap_sha256 :: "bytes \<Rightarrow> node_hash"
  cap_did :: did_env
  canonical_json :: "CapabilityCanonical \<Rightarrow> string + bytes"

definition normalize_modes :: "AccessMode list \<Rightarrow> AccessMode list" where
  "normalize_modes ms = remdups_adj (sort_key mode_sort_rank ms)"

definition canonical_from_token :: "CapabilityToken \<Rightarrow> CapabilityCanonical" where
  "canonical_from_token t =
     \<lparr>cc_grantor_did = grantor_did t, cc_grantee_did = grantee_did t, cc_agent_class = agent_class t,
      cc_patterns = normalize_patterns (token_patterns t), cc_modes = normalize_modes (modes t),
      cc_not_before = not_before t, cc_expires_at = token_expires_at t, cc_delegatable = delegatable t,
      cc_delegation_chain = delegation_chain t, cc_created_at = token_created_at t\<rparr>"

definition canonical_bytes :: "cap_env \<Rightarrow> CapabilityCanonical \<Rightarrow> string + bytes" where
  "canonical_bytes env c =
     (case canonical_json env c of
        Inl e \<Rightarrow> Err (''serialize capability canonical payload: '' @ e)
      | Inr raw \<Rightarrow> Ok raw)"

definition compute_token_id :: "cap_env \<Rightarrow> CapabilityCanonical \<Rightarrow> string + node_hash" where
  "compute_token_id env c =
     (case canonical_bytes env c of
        Inl e \<Rightarrow> Err e
      | Inr raw \<Rightarrow> Ok (cap_sha256 env (''agenthalo.capability.v1|'' @ raw)))"

definition delegation_chain_valid :: "CapabilityToken \<Rightarrow> bool" where
  "delegation_chain_valid t =
     (case delegation_chain t of
        [] \<Rightarrow> True
      | first # _ \<Rightarrow>
          if \<not> delegatable t then False
          else if list_ex (\<lambda>d. trim d = [] \<or> \<not> starts_with d ''did:'') (delegation_chain t) then False
          else first = grantor_did t \<and> last (delegation_chain t) = grantee_did t)"

definition create_capability ::
  "cap_env \<Rightarrow> u64 \<Rightarrow> DIDIdentity \<Rightarrow> string \<Rightarrow> AgentClass \<Rightarrow> string list \<Rightarrow> AccessMode list \<Rightarrow> u64 \<Rightarrow> u64 \<Rightarrow>
    bool \<Rightarrow> string + CapabilityToken" where
  "create_capability env now grantor grantee cls pats ms nbf exp delegable =
     (if trim grantee = [] then Err ''grantee_did must not be empty''
      else if \<not> starts_with grantee ''did:'' then Err ''grantee_did must be a DID URI''
      else if exp \<le> nbf then Err ''expires_at must be greater than not_before''
      else let ps = normalize_patterns pats in
        if ps = [] then Err ''at least one resource pattern is required''
        else let ns = normalize_modes ms in
        if ns = [] then Err ''at least one access mode is required''
        else let c = \<lparr>cc_grantor_did = did grantor, cc_grantee_did = grantee, cc_agent_class = cls,
                      cc_patterns = ps, cc_modes = ns, cc_not_before = nbf, cc_expires_at = exp,
                      cc_delegatable = delegable, cc_delegation_chain = [], cc_created_at = now\<rparr> in
        (case compute_token_id env c of
           Inl e \<Rightarrow> Err e
         | Inr tid \<Rightarrow>
        (case canonical_bytes env c of
           Inl e \<Rightarrow> Err e
         | Inr message \<Rightarrow>
        (case dual_sign (cap_did env) grantor message of
           Inl e \<Rightarrow> Err e
         | Inr (ed, pq) \<Rightarrow>
             Ok \<lparr>token_id = tid, grantor_did = cc_grantor_did c,
                 grantor_did_document = did_document grantor, grantee_did = cc_grantee_did c,
                 agent_class = cc_agent_class c, token_patterns = cc_patterns c, modes = cc_modes c,
                 not_before = cc_not_before c, token_expires_at = cc_expires_at c,
                 delegatable = cc_delegatable c, delegation_chain = cc_delegation_chain c,
                 signature_ed25519_hex = hex_encode ed, signature_mldsa65_hex = hex_encode pq,
                 token_created_at = cc_created_at c, token_revoked = False\<rparr>))))"

definition verify_capability :: "cap_env \<Rightarrow> CapabilityToken \<Rightarrow> u64 \<Rightarrow> string + unit" where
  "verify_capability env t now =
     (if doc_id (grantor_did_document t) \<noteq> grantor_did t then
        Err ''grantor DID does not match DID document id''
      else if token_revoked t then Err ''capability token is revoked''
      else if now < not_before t then Err ''capability token not yet valid''
      else if token_expires_at t \<le> now then Err ''capability token expired''
      else if \<not> delegation_chain_valid t then Err ''invalid delegation chain''
      else let c = canonical_from_token t in
        (case compute_token_id env c of
           Inl e \<Rightarrow> Err e
         | Inr expected_id \<Rightarrow>
        if expected_id \<noteq> token_id t then Err ''capability token id mismatch''
        else
        (case hex_decode (signature_ed25519_hex t) of
           Inl e \<Rightarrow> Err (''decode Ed25519 signature: '' @ e)
         | Inr ed \<Rightarrow>
        (case hex_decode (signature_mldsa65_hex t) of
           Inl e \<Rightarrow> Err (''decode ML-DSA signature: '' @ e)
         | Inr pq \<Rightarrow>
        if ed = [] \<or> pq = [] then Err ''both Ed25519 and ML-DSA signatures are required''
        else
        (case canonical_bytes env c of
           Inl e \<Rightarrow> Err e
         | Inr message \<Rightarrow>
        (case dual_verify (cap_did env) (grantor_did_document t) message ed pq of
           Inl e \<Rightarrow> Err e
         | Inr ok \<Rightarrow> if \<not> ok then Err ''capability signature verification failed'' else Ok ()))))))"

definition capability_authorizes :: "cap_env \<Rightarrow> CapabilityToken \<Rightarrow> string \<Rightarrow> AccessMode \<Rightarrow> u64 \<Rightarrow> bool" where
  "capability_authorizes env t key m now \<longleftrightarrow>
     is_ok (verify_capability env t now) \<and> List.member (modes t) m \<and>
     list_ex (\<lambda>p. key_pattern_matches p key) (token_patterns t)"

definition token_authorizes_tool_call :: "cap_env \<Rightarrow> CapabilityToken \<Rightarrow> string \<Rightarrow> string \<Rightarrow> u64 \<Rightarrow> bool" where
  "token_authorizes_tool_call env t sender tool now \<longleftrightarrow>
     is_ok (verify_capability env t now) \<and> grantee_did t = sender \<and>
     list_ex (\<lambda>p. key_pattern_matches p tool) (token_patterns t)"

definition store_authorizes_tool_call :: "cap_env \<Rightarrow> CapabilityStore \<Rightarrow> string \<Rightarrow> string \<Rightarrow> u64 \<Rightarrow> bool" where
  "store_authorizes_tool_call env s sender tool now =
     list_ex (\<lambda>t. token_authorizes_tool_call env t sender tool now) (tokens s)"

section \<open>From tokens to grants\<close>

definition permissions_from_modes :: "AccessMode list \<Rightarrow> GrantPermissions" where
  "permissions_from_modes ms =
     \<lparr>perm_read = List.member ms Read, perm_write = List.member ms Write,
      perm_append = List.member ms Append, perm_control = List.member ms Control\<rparr>"

definition capability_to_grants ::
  "CapabilityToken \<Rightarrow> bytes \<Rightarrow> bytes \<Rightarrow> string + GrantRequest list" where
  "capability_to_grants t grantee grantor =
     (if token_patterns t = [] then Err ''capability token has no resource patterns''
      else let p = permissions_from_modes (modes t) in
        if \<not> perm_read p \<and> \<not> perm_write p \<and> \<not> perm_append p \<and> \<not> perm_control p then
          Err ''capability token has no grantable permissions''
        else Ok (map (\<lambda>pat. \<lparr>req_grantor_puf = grantor, req_grantee_puf = grantee, req_key_pattern = pat,
                            req_permissions = p, req_expires_at = Some (token_expires_at t)\<rparr>)
                   (token_patterns t)))"

definition capability_to_grant :: "CapabilityToken \<Rightarrow> bytes \<Rightarrow> bytes \<Rightarrow> string + GrantRequest" where
  "capability_to_grant t grantee grantor =
     (case capability_to_grants t grantee grantor of
        Inl e \<Rightarrow> Err e
      | Inr [] \<Rightarrow> Err ''capability token has no resource patterns''
      | Inr (r # _) \<Rightarrow> Ok r)"

definition capability_store_new :: CapabilityStore where
  "capability_store_new = \<lparr>tokens = []\<rparr>"

definition store_token :: "CapabilityStore \<Rightarrow> CapabilityToken \<Rightarrow> CapabilityStore \<times> CapabilityToken" where
  "store_token s t = (s\<lparr>tokens := tokens s @ [t]\<rparr>, t)"

fun revoke_first_token :: "node_hash \<Rightarrow> CapabilityToken list \<Rightarrow> CapabilityToken list \<times> bool" where
  "revoke_first_token tid [] = ([], False)"
| "revoke_first_token tid (t # ts) =
     (if token_id t = tid then (t\<lparr>token_revoked := True\<rparr> # ts, True)
      else (let (ts', r) = revoke_first_token tid ts in (t # ts', r)))"

definition revoke_capability :: "CapabilityStore \<Rightarrow> node_hash \<Rightarrow> CapabilityStore \<times> bool" where
  "revoke_capability s tid =
     (let (ts, r) = revoke_first_token tid (tokens s) in (s\<lparr>tokens := ts\<rparr>, r))"

definition list_active :: "cap_env \<Rightarrow> CapabilityStore \<Rightarrow> u64 \<Rightarrow> CapabilityToken list" where
  "list_active env s now = filter (\<lambda>t. is_ok (verify_capability env t now)) (tokens s)"

text \<open>
  A run of \<^verbatim>\<open>GrantStore::create\<close>: each call reads the two clocks, so they come as a list with one
  entry per request.
\<close>

fun create_grants ::
  "cap_env \<Rightarrow> (u64 \<times> u64) list \<Rightarrow> u64 \<Rightarrow> GrantRequest list \<Rightarrow> GrantStore \<Rightarrow>
    GrantStore \<times> u64 \<times> AccessGrant list" where
  "create_grants env ((now, nanos) # clock) ctr (r # rs) s =
     (let (s', ctr', g) = create_grant (cap_sha256 env) now nanos ctr r s;
          (s'', ctr'', gs) = create_grants env clock ctr' rs s'
      in (s'', ctr'', g # gs))"
| "create_grants env _ ctr _ s = (s, ctr, [])"

text \<open>The requests of the valid tokens, in the order the loop makes them.\<close>

definition apply_requests :: "cap_env \<Rightarrow> CapabilityStore \<Rightarrow> bytes \<Rightarrow> bytes \<Rightarrow> u64 \<Rightarrow> GrantRequest list" where
  "apply_requests env s grantee grantor now =
     concat (map (\<lambda>t. case capability_to_grants t grantee grantor of Inl _ \<Rightarrow> [] | Inr rs \<Rightarrow> rs)
       (filter (\<lambda>t. is_ok (verify_capability env t now)) (tokens s)))"

definition apply_to_grant_store ::
  "cap_env \<Rightarrow> (u64 \<times> u64) list \<Rightarrow> u64 \<Rightarrow> CapabilityStore \<Rightarrow> GrantStore \<Rightarrow> bytes \<Rightarrow> bytes \<Rightarrow> u64 \<Rightarrow>
    GrantStore \<times> u64 \<times> nat" where
  "apply_to_grant_store env clock ctr s gs grantee grantor now =
     (let (gs', ctr', made) = create_grants env clock ctr (apply_requests env s grantee grantor now) gs
      in (gs', ctr', length made))"

definition grant_access_to_agent ::
  "cap_env \<Rightarrow> u64 \<Rightarrow> DIDIdentity \<Rightarrow> string \<Rightarrow> string list \<Rightarrow> AccessMode list \<Rightarrow> u64 \<Rightarrow>
    string + CapabilityToken" where
  "grant_access_to_agent env now local remote_did pats ms duration =
     (if duration = 0 then Err ''duration_secs must be > 0''
      else create_capability env now local remote_did (Specific remote_did) pats ms now
             (if unat now + unat duration < 2 ^ 64 then now + duration else - 1) False)"

definition accept_capability ::
  "cap_env \<Rightarrow> (u64 \<times> u64) list \<Rightarrow> u64 \<Rightarrow> CapabilityToken \<Rightarrow> GrantStore \<Rightarrow> bytes \<Rightarrow> bytes \<Rightarrow> u64 \<Rightarrow>
    GrantStore \<times> u64 \<times> (string + AccessGrant list)" where
  "accept_capability env clock ctr t s local_puf remote_puf now =
     (case verify_capability env t now of
        Inl e \<Rightarrow> (s, ctr, Err e)
      | Inr _ \<Rightarrow>
          (case capability_to_grants t local_puf remote_puf of
             Inl e \<Rightarrow> (s, ctr, Err e)
           | Inr rs \<Rightarrow>
               let (s', ctr', gs) = create_grants env clock ctr rs s in (s', ctr', Ok gs)))"

section \<open>Issued tokens verify\<close>

lemma set_normalize_modes [simp]: "set (normalize_modes ms) = set ms"
  by (simp add: normalize_modes_def)

lemma normalize_modes_idem [simp]: "normalize_modes (normalize_modes ms) = normalize_modes ms"
  by (simp add: normalize_modes_def sort_remdups_adj)

text \<open>The parts of a token that its signatures cover.\<close>

definition signed_part :: "CapabilityToken \<Rightarrow> string set \<times> AccessMode set \<times> u64 \<times> u64 \<times> string \<times> string" where
  "signed_part t =
     ({trim p |p. p \<in> set (token_patterns t) \<and> trim p \<noteq> []}, set (modes t), not_before t, token_expires_at t,
      grantor_did t, grantee_did t)"

lemma canonical_signed_part:
  assumes "canonical_from_token t = canonical_from_token t'"
  shows "signed_part t = signed_part t'"
proof -
  have "set (normalize_patterns (token_patterns t)) = set (normalize_patterns (token_patterns t'))"
    "set (normalize_modes (modes t)) = set (normalize_modes (modes t'))"
    using assms by (simp_all add: canonical_from_token_def)
  then show ?thesis
    using assms unfolding set_normalize set_normalize_modes
    by (simp add: canonical_from_token_def signed_part_def)
qed

lemma verify_capabilityD:
  assumes "verify_capability env t now = Ok ()"
  shows "\<not> token_revoked t" "not_before t \<le> now" "now < token_expires_at t" "delegation_chain_valid t"
    "doc_id (grantor_did_document t) = grantor_did t"
    "\<exists>msg ed pq. canonical_bytes env (canonical_from_token t) = Ok msg \<and>
       dual_verify (cap_did env) (grantor_did_document t) msg ed pq = Ok True"
  using assms
  by (auto simp: verify_capability_def not_less not_le Let_def split: if_splits sum.splits)

lemma capability_authorizesD:
  assumes "capability_authorizes env t key m now"
  shows "m \<in> set (modes t)" "\<exists>p \<in> set (token_patterns t). key_pattern_matches p key"
    "verify_capability env t now = Ok ()"
  using assms
  by (auto simp: capability_authorizes_def list_ex_iff List.member_iff isl_def split: sum.splits)
     (metis old.unit.exhaust sum.exhaust)

text \<open>An identity whose document carries its own name and keys, as the derivation makes it.\<close>

definition identity_ok :: "did_env \<Rightarrow> DIDIdentity \<Rightarrow> bool" where
  "identity_ok env i \<longleftrightarrow> doc_id (did_document i) = did i \<and> doc_keys env (did_document i) i"

lemma genesis_identity_ok: "identity_ok env (did_from_genesis_seed env seed)"
  using genesis_doc_id by (simp add: identity_ok_def genesis_document)

lemma create_capability_cases:
  assumes "create_capability env now g grantee cls pats ms nbf exp dl = Ok t"
  obtains tid message ed pq where "compute_token_id env (canonical_from_token t) = Ok tid"
    "canonical_bytes env (canonical_from_token t) = Ok message" "dual_sign (cap_did env) g message = Ok (ed, pq)"
    "t = \<lparr>token_id = tid, grantor_did = did g, grantor_did_document = did_document g, grantee_did = grantee,
        agent_class = cls, token_patterns = normalize_patterns pats, modes = normalize_modes ms,
        not_before = nbf, token_expires_at = exp, delegatable = dl, delegation_chain = [],
        signature_ed25519_hex = hex_encode ed, signature_mldsa65_hex = hex_encode pq,
        token_created_at = now, token_revoked = False\<rparr>"
  using assms
  by (auto simp: create_capability_def canonical_from_token_def Let_def split: if_splits sum.splits prod.splits)

lemma issued_verifies:
  assumes "create_capability env now g grantee cls pats ms nbf exp dl = Ok t"
    "did_laws (cap_did env)" "identity_ok (cap_did env) g" "nbf \<le> at" "at < exp"
  shows "verify_capability env t at = Ok ()"
proof -
  obtain tid message ed pq where c: "compute_token_id env (canonical_from_token t) = Ok tid"
    "canonical_bytes env (canonical_from_token t) = Ok message" "dual_sign (cap_did env) g message = Ok (ed, pq)"
    "t = \<lparr>token_id = tid, grantor_did = did g, grantor_did_document = did_document g, grantee_did = grantee,
        agent_class = cls, token_patterns = normalize_patterns pats, modes = normalize_modes ms,
        not_before = nbf, token_expires_at = exp, delegatable = dl, delegation_chain = [],
        signature_ed25519_hex = hex_encode ed, signature_mldsa65_hex = hex_encode pq,
        token_created_at = now, token_revoked = False\<rparr>"
    by (rule create_capability_cases [OF assms(1)])
  have "doc_keys (cap_did env) (did_document g) g" using assms(3) by (simp add: identity_ok_def)
  then have v: "dual_verify (cap_did env) (did_document g) message ed pq = Ok True" "ed \<noteq> []" "pq \<noteq> []"
    using dual_sign_verifies [OF assms(2), of "did_document g" g message] c(3) by fastforce+
  have f: "token_id t = tid" "grantor_did_document t = did_document g" "grantor_did t = did g"
    "signature_ed25519_hex t = hex_encode ed" "signature_mldsa65_hex t = hex_encode pq"
    "not_before t = nbf" "token_expires_at t = exp" "\<not> token_revoked t" "delegation_chain t = []"
    by (simp_all add: c(4))
  then show ?thesis
    using assms(3-5) v c(1,2)
    by (auto simp: verify_capability_def identity_ok_def delegation_chain_valid_def f hex_decode_encode Let_def)
qed

text \<open>
  The document that a token is checked against travels inside the token, and nothing ties
  its keys to the name it claims: whoever holds any key pair can issue tokens in any name.
\<close>

definition impersonate :: "did_env \<Rightarrow> string \<Rightarrow> DIDIdentity \<Rightarrow> DIDIdentity" where
  "impersonate env victim i =
     (let j = i\<lparr>did := victim\<rparr> in j\<lparr>did_document := build_did_document env j\<rparr>)"

lemma impersonate_ok: "identity_ok env (impersonate env victim i)"
proof -
  let ?j = "i\<lparr>did := victim\<rparr>"
  have "doc_keys env (build_did_document env ?j) (?j\<lparr>did_document := d\<rparr>)" for d
    using doc_keys_own [of env ?j] by (simp add: doc_keys_def build_did_document_def)
  then show ?thesis
    by (simp add: identity_ok_def impersonate_def Let_def)
       (simp add: build_did_document_def build_did_document_from_parts_def Let_def)
qed

lemma impersonate_keys:
  "ed25519_signing_key (impersonate env victim i) = ed25519_signing_key i"
  "mldsa65_signing_key (impersonate env victim i) = mldsa65_signing_key i"
  "did (impersonate env victim i) = victim"
  by (simp_all add: impersonate_def Let_def)

section \<open>Accepted tokens give exactly their rights\<close>

lemma can_read_create_grants:
  assumes "create_grants env clock ctr rs s = (s', ctr', gs)" "length rs \<le> length clock"
  shows "can_read now s' who key \<longleftrightarrow> can_read now s who key \<or>
    (\<exists>r \<in> set rs. req_grantee_puf r = who \<and> perm_read (req_permissions r) \<and>
       key_pattern_matches (req_key_pattern r) key \<and>
       (case req_expires_at r of Some t \<Rightarrow> now < t | None \<Rightarrow> True))"
  using assms
proof (induction env clock ctr rs s arbitrary: s' ctr' gs rule: create_grants.induct)
  case (1 env at nanos clock ctr r rs s)
  obtain s1 ctr1 g where g: "create_grant (cap_sha256 env) at nanos ctr r s = (s1, ctr1, g)"
    using prod_cases3 by blast
  obtain gs' where "create_grants env clock ctr1 rs s1 = (s', ctr', gs')"
    using 1(2) g by (auto split: prod.splits)
  from 1(1) [OF g [symmetric] refl refl this] show ?case
    using 1(3) read_check.check_created [OF g, of now who key] by auto
qed auto

lemma length_create_grants:
  assumes "create_grants env clock ctr rs s = (s', ctr', gs)" "length rs \<le> length clock"
  shows "length gs = length rs"
  using assms
  by (induction env clock ctr rs s arbitrary: s' ctr' gs rule: create_grants.induct) (auto split: prod.splits)

lemma accept_gives_rights:
  assumes "accept_capability env clock ctr t s me other now = (s', ctr', Ok gs)"
    "length (token_patterns t) \<le> length clock"
  shows "can_read at s' who key \<longleftrightarrow> can_read at s who key \<or>
    (who = me \<and> Read \<in> set (modes t) \<and> at < token_expires_at t \<and>
     (\<exists>p \<in> set (token_patterns t). key_pattern_matches p key))"
proof -
  obtain rs where rs: "capability_to_grants t me other = Ok rs" "create_grants env clock ctr rs s = (s', ctr', gs)"
    using assms(1) by (auto simp: accept_capability_def split: sum.splits prod.splits)
  then have m: "rs = map (\<lambda>pat. \<lparr>req_grantor_puf = other, req_grantee_puf = me, req_key_pattern = pat,
      req_permissions = permissions_from_modes (modes t), req_expires_at = Some (token_expires_at t)\<rparr>) (token_patterns t)"
    by (auto simp: capability_to_grants_def Let_def split: if_splits)
  have "length rs \<le> length clock" using assms(2) m by simp
  from can_read_create_grants [OF rs(2) this] show ?thesis
    by (auto simp: m permissions_from_modes_def List.member_iff)
qed

end
