(* ===== verification/Pcn.thy ===== *)
theory Pcn
  imports Protocol_Reads Rust_Std
begin

text \<open>
  Payment channels kept in the database: \<^verbatim>\<open>src/pcn/schema.rs\<close> and \<^verbatim>\<open>src/pcn/adapter.rs\<close>.

  A channel is a set of keys below a common base; each settlement writes the keys of the next
  sequence number and commits.  The clock of the channel and the clock of the commit are
  arguments; \<open>None\<close> is a panic of the commit.  The next sequence number wraps as in a release
  build.
\<close>

section \<open>Channels\<close>

datatype ChannelStatus = ChannelOpen | ChannelClosing | ChannelClosed

record ChannelRecord =
  participant1 :: string
  participant2 :: string
  capacity :: u64
  channel_status :: ChannelStatus
  channel_created_at :: u64
  last_seq :: u64

datatype SettlementOp =
    OpOpen string string u64
  | OpClose string string
  | OpSplice string string u64
  | OpUpdate string string u64 u64

datatype PcnError =
    ChannelAlreadyExists
  | ChannelMissing
  | ChannelNotOpen
  | InvalidConservation u64 u64 u64
  | PcnCommit CommitError

record ChannelOpView =
  ov_seq :: u64
  ov_kind :: string

record ChannelSnapshot =
  snap_record :: ChannelRecord
  balance1 :: u64
  balance2 :: u64
  snap_ops :: "ChannelOpView list"

definition canonical_pair :: "string \<Rightarrow> string \<Rightarrow> string \<times> string" where
  "canonical_pair p1 p2 = (if p1 \<le> p2 then (p1, p2) else (p2, p1))"

definition channel_base :: "string \<Rightarrow> string \<Rightarrow> string" where
  "channel_base p1 p2 = (let (a, b) = canonical_pair p1 p2 in ''channel:'' @ a @ '':'' @ b)"

fun status_code :: "ChannelStatus \<Rightarrow> u64" where
  "status_code ChannelOpen = 1"
| "status_code ChannelClosing = 2"
| "status_code ChannelClosed = 3"

definition status_from_code :: "u64 \<Rightarrow> ChannelStatus" where
  "status_from_code v =
     (if v = 1 then ChannelOpen else if v = 2 then ChannelClosing
      else if v = 3 then ChannelClosed else ChannelOpen)"

fun op_code :: "SettlementOp \<Rightarrow> u64" where
  "op_code (OpOpen _ _ _) = 1"
| "op_code (OpClose _ _) = 2"
| "op_code (OpSplice _ _ _) = 3"
| "op_code (OpUpdate _ _ _ _) = 4"

definition op_name :: "u64 \<Rightarrow> string" where
  "op_name k =
     (if k = 1 then ''open'' else if k = 2 then ''close'' else if k = 3 then ''splice''
      else if k = 4 then ''update'' else ''unknown'')"

section \<open>Keys and values\<close>

definition value_at :: "NucleusDb \<Rightarrow> string \<Rightarrow> u64 option" where
  "value_at db key =
     (case keymap_get (keymap db) key of
        None \<Rightarrow> None
      | Some idx \<Rightarrow> if idx < length (st_values (state db)) then Some (st_values (state db) ! idx) else None)"

definition put_key :: "(nat \<times> u64) list \<times> NucleusDb \<Rightarrow> string \<times> u64 \<Rightarrow> (nat \<times> u64) list \<times> NucleusDb" where
  "put_key acc e =
     (let (idx, km) = get_or_create (keymap (snd acc)) (fst e)
      in (fst acc @ [(idx, snd e)], (snd acc)\<lparr>keymap := km\<rparr>))"

text \<open>The calls of \<^verbatim>\<open>put_key\<close> of one operation, in order.\<close>

definition put_keys :: "NucleusDb \<Rightarrow> (string \<times> u64) list \<Rightarrow> (nat \<times> u64) list \<times> NucleusDb" where
  "put_keys db es = foldl put_key ([], db) es"

definition record_sentinel :: "(bytes \<Rightarrow> node_hash) \<Rightarrow> ChannelRecord \<Rightarrow> u64" where
  "record_sentinel H r =
     u64_from_le_bytes (take 8 (H (''nucleusdb.pcn.channel_record.v1|'' @ participant1 r @ CHR 0x00 #
       participant2 r @ u64_to_le_bytes (capacity r) @ u64_to_le_bytes (status_code (channel_status r)) @
       u64_to_le_bytes (channel_created_at r) @ u64_to_le_bytes (last_seq r))))"

definition parse_seq_from_key :: "string \<Rightarrow> string \<Rightarrow> u64 option" where
  "parse_seq_from_key prefix key =
     (if \<not> starts_with key prefix then None else parse_u64 (drop (length prefix) key))"

definition state_prefix :: "string \<Rightarrow> string" where
  "state_prefix base = base @ '':state:''"

definition first_scan :: "string \<Rightarrow> u64 \<Rightarrow> string \<Rightarrow> u64" where
  "first_scan base best key =
     (case parse_seq_from_key (state_prefix base) key of
        None \<Rightarrow> best
      | Some raw \<Rightarrow>
          let seq = (if starts_with key (state_prefix base @ show_u64 raw @ '':'') then raw else 0)
          in if best < seq then seq else best)"

definition second_scan :: "string \<Rightarrow> u64 \<Rightarrow> string \<Rightarrow> u64" where
  "second_scan base best key =
     (if \<not> starts_with key (state_prefix base) then best
      else (case split_once CHR '':'' (drop (length (state_prefix base)) key) of
              None \<Rightarrow> best
            | Some (s, _) \<Rightarrow> (case parse_u64 s of None \<Rightarrow> best | Some seq \<Rightarrow> max best seq)))"

definition latest_seq :: "NucleusDb \<Rightarrow> string \<Rightarrow> u64" where
  "latest_seq db base =
     (let keys = map fst (all_keys (keymap db));
          best = foldl (first_scan base) 0 keys
      in if best > 0 then best else foldl (second_scan base) best keys)"

definition capacity_for :: "NucleusDb \<Rightarrow> string \<Rightarrow> u64 option" where
  "capacity_for db base = value_at db (base @ '':meta:capacity'')"

definition exists_channel :: "NucleusDb \<Rightarrow> string \<Rightarrow> bool" where
  "exists_channel db base \<longleftrightarrow> unwrap_or (value_at db base) 0 \<noteq> 0"

definition apply_writes ::
  "('f::field, 'poly, 'srs, 'g, 'p) db_env \<Rightarrow> u64 \<Rightarrow> NucleusDb \<Rightarrow> (nat \<times> u64) list \<Rightarrow>
    (NucleusDb \<times> (PcnError + unit)) option" where
  "apply_writes env now db ws =
     (case commit env now db \<lparr>writes = ws\<rparr> [] of
        None \<Rightarrow> None
      | Some (db', Inl e) \<Rightarrow> Some (db', Err (PcnCommit e))
      | Some (db', Inr _) \<Rightarrow> Some (db', Ok ()))"

definition state_key :: "string \<Rightarrow> u64 \<Rightarrow> string \<Rightarrow> string" where
  "state_key base seq field = base @ '':state:'' @ show_u64 seq @ '':'' @ field"

definition op_key :: "string \<Rightarrow> u64 \<Rightarrow> string" where
  "op_key base seq = base @ '':ops:'' @ show_u64 seq @ '':kind''"

definition status_at :: "NucleusDb \<Rightarrow> string \<Rightarrow> u64 \<Rightarrow> ChannelStatus" where
  "status_at db base seq = status_from_code (unwrap_or (value_at db (state_key base seq ''status'')) 1)"

section \<open>Settlements\<close>

definition apply_op ::
  "('f::field, 'poly, 'srs, 'g, 'p) db_env \<Rightarrow> u64 \<Rightarrow> u64 \<Rightarrow> SettlementOp \<Rightarrow> NucleusDb \<Rightarrow>
    (NucleusDb \<times> (PcnError + unit)) option" where
  "apply_op env secs now op db =
     (case op of
        OpOpen p1 p2 cap \<Rightarrow>
          (let base = channel_base p1 p2 in
           if exists_channel db base then Some (db, Err ChannelAlreadyExists)
           else
             let r = \<lparr>participant1 = fst (canonical_pair p1 p2), participant2 = snd (canonical_pair p1 p2),
                      capacity = cap, channel_status = ChannelOpen, channel_created_at = secs, last_seq = 1\<rparr>;
                 (ws, db') = put_keys (set_append_only db)
                   [(base, record_sentinel (env_sha256 env) r), (base @ '':meta:capacity'', cap),
                    (base @ '':meta:created_at'', secs), (op_key base 1, op_code op),
                    (state_key base 1 ''status'', status_code ChannelOpen), (state_key base 1 ''b1'', cap),
                    (state_key base 1 ''b2'', 0)]
             in apply_writes env now db' ws)
      | OpUpdate p1 p2 b1 b2 \<Rightarrow>
          (let base = channel_base p1 p2 in
           if \<not> exists_channel db base then Some (db, Err ChannelMissing)
           else (case capacity_for db base of
                   None \<Rightarrow> Some (db, Err ChannelMissing)
                 | Some cap \<Rightarrow>
                     if saturating_add b1 b2 \<noteq> cap then Some (db, Err (InvalidConservation b1 b2 cap))
                     else let cur = latest_seq db base in
                       if cur = 0 then Some (db, Err ChannelMissing)
                       else if status_at db base cur \<noteq> ChannelOpen then Some (db, Err ChannelNotOpen)
                       else let nxt = cur + 1;
                                (ws, db') = put_keys db
                                  [(op_key base nxt, op_code op),
                                   (state_key base nxt ''status'', status_code ChannelOpen),
                                   (state_key base nxt ''b1'', b1), (state_key base nxt ''b2'', b2)]
                            in apply_writes env now db' ws))
      | OpClose p1 p2 \<Rightarrow>
          (let base = channel_base p1 p2 in
           if \<not> exists_channel db base then Some (db, Err ChannelMissing)
           else let cur = latest_seq db base in
             if cur = 0 then Some (db, Err ChannelMissing)
             else let b1 = unwrap_or (value_at db (state_key base cur ''b1'')) 0;
                      b2 = unwrap_or (value_at db (state_key base cur ''b2'')) 0;
                      nxt = cur + 1;
                      (ws, db') = put_keys db
                        [(op_key base nxt, op_code op),
                         (state_key base nxt ''status'', status_code ChannelClosed),
                         (state_key base nxt ''b1'', b1), (state_key base nxt ''b2'', b2)]
                  in apply_writes env now db' ws)
      | OpSplice p1 p2 cap \<Rightarrow>
          (let base = channel_base p1 p2 in
           if \<not> exists_channel db base then Some (db, Err ChannelMissing)
           else let cur = latest_seq db base;
                    b1 = unwrap_or (value_at db (state_key base cur ''b1'')) 0;
                    nxt = cur + 1;
                    new_b1 = min b1 cap;
                    new_b2 = saturating_sub cap new_b1;
                    (ws, db') = put_keys db
                      [(op_key base nxt, op_code op),
                       (state_key base nxt ''status'', status_code ChannelOpen),
                       (state_key base nxt ''capacity'', cap), (state_key base nxt ''b1'', new_b1),
                       (state_key base nxt ''b2'', new_b2)]
                in apply_writes env now db' ws))"

definition op_index_step ::
  "NucleusDb \<Rightarrow> string \<Rightarrow> (u64, string) btree_map \<Rightarrow> string \<times> nat \<Rightarrow> (u64, string) btree_map" where
  "op_index_step db prefix m entry =
     (let (key, idx) = entry in
      if \<not> starts_with key prefix \<or> \<not> ends_with key '':kind'' then m
      else (case split_once CHR '':'' (drop (length prefix) key) of
              None \<Rightarrow> m
            | Some (s, _) \<Rightarrow>
                (case parse_u64 s of
                   None \<Rightarrow> m
                 | Some seq \<Rightarrow> bt_insert seq (op_name (cell (state db) idx)) m)))"

definition channel_snapshot :: "NucleusDb \<Rightarrow> string \<Rightarrow> string \<Rightarrow> ChannelSnapshot option" where
  "channel_snapshot db p1 p2 =
     (let base = channel_base p1 p2 in
      if \<not> exists_channel db base then None
      else (case capacity_for db base of
              None \<Rightarrow> None
            | Some cap \<Rightarrow>
                let created = unwrap_or (value_at db (base @ '':meta:created_at'')) 0;
                    seq = latest_seq db base
                in if seq = 0 then None
                   else
                     let (a, b) = canonical_pair p1 p2;
                         index = foldl (op_index_step db (base @ '':ops:'')) [] (all_keys (keymap db))
                     in Some \<lparr>snap_record = \<lparr>participant1 = a, participant2 = b, capacity = cap,
                                channel_status = status_at db base seq, channel_created_at = created,
                                last_seq = seq\<rparr>,
                              balance1 = unwrap_or (value_at db (state_key base seq ''b1'')) 0,
                              balance2 = unwrap_or (value_at db (state_key base seq ''b2'')) 0,
                              snap_ops = map (\<lambda>(s, k). \<lparr>ov_seq = s, ov_kind = k\<rparr>) index\<rparr>))"

section \<open>Compliance\<close>

record PcnComplianceWitness =
  feasibility_root :: node_hash
  replay_seq :: u64
  channel_count :: u64
  valid_channels :: u64
  invalid_channels :: u64

definition u64_to_be_bytes :: "u64 \<Rightarrow> bytes" where
  "u64_to_be_bytes w = rev (u64_to_le_bytes w)"

definition compliance_leaf ::
  "(bytes \<Rightarrow> node_hash) \<Rightarrow> string \<Rightarrow> u64 \<Rightarrow> u64 \<Rightarrow> u64 \<Rightarrow> u64 \<Rightarrow> ChannelStatus \<Rightarrow> bool \<Rightarrow> node_hash" where
  "compliance_leaf H base seq cap b1 b2 st feasible =
     H (CHR 0x00 # ''nucleusdb.pcn.compliance.v1|'' @ base @ CHR 0x00 #
        u64_to_be_bytes seq @ u64_to_be_bytes cap @ u64_to_be_bytes b1 @ u64_to_be_bytes b2 @
        u64_to_be_bytes (status_code st) @ [if feasible then CHR 0x01 else CHR 0x00])"

text \<open>One pass of the outer loop: neighbours are joined, an odd last node moves up as it is.\<close>

fun next_layer :: "('h \<Rightarrow> 'h \<Rightarrow> 'h) \<Rightarrow> 'h list \<Rightarrow> 'h list" where
  "next_layer nd (a # b # xs) = nd a b # next_layer nd xs"
| "next_layer nd xs = xs"

lemma length_next_layer: "length (next_layer nd xs) = (length xs + 1) div 2"
  by (induction nd xs rule: next_layer.induct) auto

function layers_root :: "('h \<Rightarrow> 'h \<Rightarrow> 'h) \<Rightarrow> 'h list \<Rightarrow> 'h" where
  "layers_root nd layer = (if length layer > 1 then layers_root nd (next_layer nd layer) else layer ! 0)"
  by pat_completeness auto
termination
  by (relation "measure (length \<circ> snd)") (auto simp: length_next_layer)

declare layers_root.simps [simp del]

definition compliance_merkle_root :: "(bytes \<Rightarrow> node_hash) \<Rightarrow> node_hash list \<Rightarrow> node_hash" where
  "compliance_merkle_root H leaves =
     (if leaves = [] then replicate 32 CHR 0x00
      else if length leaves = 1 then leaves ! 0
      else layers_root (node_hash H) leaves)"

definition channel_bases :: "NucleusDb \<Rightarrow> string list" where
  "channel_bases db =
     remdups_adj (sort (filter (exists_channel db)
       (map (trim_end_matches '':meta:capacity'')
         (filter (\<lambda>k. starts_with k ''channel:'' \<and> ends_with k '':meta:capacity'')
           (map fst (all_keys (keymap db)))))))"

definition compliance_step ::
  "(bytes \<Rightarrow> node_hash) \<Rightarrow> NucleusDb \<Rightarrow> u64 \<times> u64 \<times> u64 \<times> node_hash list \<Rightarrow> string \<Rightarrow>
    u64 \<times> u64 \<times> u64 \<times> node_hash list" where
  "compliance_step H db acc base =
     (let (replay, valid, invalid, leaves) = acc;
          seq = latest_seq db base
      in if seq = 0 then acc
         else
           let cap = unwrap_or (value_at db (base @ '':meta:capacity'')) 0;
               st = status_at db base seq;
               b1 = unwrap_or (value_at db (state_key base seq ''b1'')) 0;
               b2 = unwrap_or (value_at db (state_key base seq ''b2'')) 0;
               feasible = (saturating_add b1 b2 = cap)
           in (max replay seq, if feasible then valid + 1 else valid,
               if feasible then invalid else invalid + 1,
               leaves @ [compliance_leaf H base seq cap b1 b2 st feasible]))"

definition compliance_witness :: "(bytes \<Rightarrow> node_hash) \<Rightarrow> NucleusDb \<Rightarrow> PcnComplianceWitness" where
  "compliance_witness H db =
     (let bases = channel_bases db;
          (replay, valid, invalid, leaves) = foldl (compliance_step H db) (0, 0, 0, []) bases
      in \<lparr>feasibility_root = compliance_merkle_root H leaves, replay_seq = replay,
          channel_count = of_nat (length bases), valid_channels = valid, invalid_channels = invalid\<rparr>)"

section \<open>Settling a chunk transfer\<close>

text \<open>\<^verbatim>\<open>settle_chunk_transfer\<close> of \<^verbatim>\<open>src/swarm/bitswap.rs\<close>: the leecher pays the seeder.\<close>

datatype BitswapTransferError = MissingChannel | InsufficientCredit | ApplyFailed

definition settle_chunk_transfer ::
  "('f::field, 'poly, 'srs, 'g, 'p) db_env \<Rightarrow> u64 \<Rightarrow> u64 \<Rightarrow> NucleusDb \<Rightarrow> string \<Rightarrow> string \<Rightarrow> u64 \<Rightarrow>
    u64 \<Rightarrow> (NucleusDb \<times> (BitswapTransferError + unit)) option" where
  "settle_chunk_transfer env secs now db seeder leecher count credit_cost =
     (case channel_snapshot db seeder leecher of
        None \<Rightarrow> Some (db, Err MissingChannel)
      | Some snap \<Rightarrow>
          let cost = saturating_mul count credit_cost;
              p1 = participant1 (snap_record snap);
              p2 = participant2 (snap_record snap);
              pays_first = (leecher = p1)
          in if (if pays_first then balance1 snap else balance2 snap) < cost
             then Some (db, Err InsufficientCredit)
             else
               let (b1, b2) =
                     (if pays_first
                      then (saturating_sub (balance1 snap) cost, saturating_add (balance2 snap) cost)
                      else (saturating_add (balance1 snap) cost, saturating_sub (balance2 snap) cost))
               in (case apply_op env secs now (OpUpdate p1 p2 b1 b2) db of
                     None \<Rightarrow> None
                   | Some (db', Inl _) \<Rightarrow> Some (db', Err ApplyFailed)
                   | Some (db', Inr _) \<Rightarrow> Some (db', Ok ())))"

section \<open>The layered root is the RFC 6962 tree hash\<close>

lemma next_layer_append: "even (length xs) \<Longrightarrow> next_layer nd (xs @ ys) = next_layer nd xs @ next_layer nd ys"
  by (induction nd xs rule: next_layer.induct) auto

lemma merkle_tree_next_layer:
  "2 \<le> length xs \<Longrightarrow> merkle_tree nd e (next_layer nd xs) = merkle_tree nd e xs"
proof (induction "length xs" arbitrary: xs rule: less_induct)
  case less
  obtain q where q: "largest_power_of_two_less_than (length xs) = 2 ^ q" "2 ^ q < length xs"
    "length xs \<le> 2 ^ Suc q"
    using lp2_spec [OF less.prems] by blast
  let ?l = "take (2 ^ q) xs" and ?r = "drop (2 ^ q) xs"
  have tree: "merkle_tree nd e xs = nd (merkle_tree nd e ?l) (merkle_tree nd e ?r)"
    using less.prems q(1) by (subst merkle_tree.simps) (auto simp: Let_def)
  show ?case
  proof (cases q)
    case 0
    with q obtain a b where "xs = [a, b]" by (auto simp: length_Suc_conv le_Suc_eq numeral_2_eq_2)
    then show ?thesis by (simp add: merkle_tree.simps lp2_loop.simps largest_power_of_two_less_than_def)
  next
    case (Suc p)
    have ev: "even (length ?l)" and len_l: "length ?l = 2 ^ q" using q Suc by (simp_all add: min_def)
    have split: "next_layer nd xs = next_layer nd ?l @ next_layer nd ?r"
      using next_layer_append [OF ev, of nd ?r] by simp
    have ll: "length (next_layer nd ?l) = 2 ^ p" using Suc len_l by (simp add: length_next_layer)
    have bounds: "2 ^ p < length (next_layer nd xs)" "length (next_layer nd xs) \<le> 2 ^ Suc p"
      using q(2,3) Suc by (simp_all add: length_next_layer)
    have big: "1 < length (next_layer nd xs)"
      using bounds(1) one_le_power [of "2::nat" p] by linarith
    have "merkle_tree nd e (next_layer nd xs) =
        nd (merkle_tree nd e (next_layer nd ?l)) (merkle_tree nd e (next_layer nd ?r))"
      using lp2_unique [OF bounds] ll big
      by (subst merkle_tree.simps) (auto simp: Let_def split)
    moreover have "merkle_tree nd e (next_layer nd ?l) = merkle_tree nd e ?l"
      using less.hyps [of ?l] q Suc len_l by simp
    moreover have "merkle_tree nd e (next_layer nd ?r) = merkle_tree nd e ?r"
    proof (cases "length ?r \<ge> 2")
      case False
      then have "length ?r = 1" using q(2) by simp
      then obtain x where "?r = [x]" by (metis One_nat_def length_0_conv length_Suc_conv)
      then show ?thesis by simp
    qed (use less.hyps [of ?r] q in simp)
    ultimately show ?thesis by (simp add: tree)
  qed
qed

lemma layers_root_tree: "xs \<noteq> [] \<Longrightarrow> layers_root nd xs = merkle_tree nd e xs"
proof (induction nd xs rule: layers_root.induct)
  case (1 nd xs)
  show ?case
  proof (cases "length xs > 1")
    case True
    then have "next_layer nd xs \<noteq> []" using length_next_layer [of nd xs] by auto
    with 1(1) True have "layers_root nd (next_layer nd xs) = merkle_tree nd e xs"
      by (simp add: merkle_tree_next_layer)
    with True show ?thesis by (subst layers_root.simps) simp
  next
    case False
    with 1(2) have "length xs = 1" by (cases xs) auto
    then show ?thesis by (subst layers_root.simps, subst merkle_tree.simps) simp
  qed
qed

lemma compliance_root_tree:
  assumes "leaves \<noteq> []"
  shows "compliance_merkle_root H leaves = merkle_tree_hash H leaves"
proof (cases "length leaves = 1")
  case True
  then show ?thesis
    by (simp add: compliance_merkle_root_def merkle_tree_hash_def) (subst merkle_tree.simps, auto)
qed (use assms layers_root_tree [OF assms, of "node_hash H" "empty_hash H"] in
    \<open>simp add: compliance_merkle_root_def merkle_tree_hash_def\<close>)

end
