(* ===== verification/Pcn_Proofs.thy ===== *)
theory Pcn_Proofs
  imports Pcn
begin

text \<open>
  What the settlements of \<open>Pcn\<close> do to a channel: each one that commits is a step of a small
  abstract channel, and no other channel moves.  A commit that fails after the keys were
  registered leaves the channel empty.
\<close>

section \<open>Sequence numbers\<close>

definition seq_of :: "string \<Rightarrow> string \<Rightarrow> u64 option" where
  "seq_of base key =
     (if starts_with key (state_prefix base)
      then (case split_once CHR '':'' (drop (length (state_prefix base)) key) of
              None \<Rightarrow> None
            | Some (s, _) \<Rightarrow> parse_u64 s)
      else None)"

lemma second_scan_seq: "second_scan base best key = (case seq_of base key of None \<Rightarrow> best | Some s \<Rightarrow> max best s)"
  by (auto simp: second_scan_def seq_of_def split: option.splits)

text \<open>The first loop of \<^verbatim>\<open>latest_seq\<close> asks for a number and for a colon after it in the same text.\<close>

lemma first_scan_idle: "first_scan base best key = best"
proof (cases "parse_seq_from_key (state_prefix base) key")
  case (Some raw)
  then obtain r where k: "key = state_prefix base @ r" and r: "CHR '':'' \<notin> set r"
    by (auto simp: parse_seq_from_key_def starts_with_iff dest: parse_u64_no_colon split: if_splits)
  have "\<not> starts_with key (state_prefix base @ show_u64 raw @ '':'')"
    using r by (auto simp: starts_with_iff k)
  with Some show ?thesis by (simp add: first_scan_def)
qed (simp add: first_scan_def)

lemma latest_seq_scan: "latest_seq db base = foldl (second_scan base) 0 (map fst (all_keys (keymap db)))"
proof -
  have "foldl (first_scan base) 0 ks = 0" for ks by (induction ks) (simp_all add: first_scan_idle)
  then show ?thesis by (simp add: latest_seq_def Let_def)
qed

lemma scan_ge:
  "b \<le> foldl (second_scan base) b ks"
  "k \<in> set ks \<Longrightarrow> seq_of base k = Some s \<Longrightarrow> s \<le> foldl (second_scan base) b ks"
proof (induction ks arbitrary: b)
  case (Cons k' ks)
  have b: "b \<le> second_scan base b k'" for b by (simp add: second_scan_seq split: option.splits)
  { case 1 show ?case using order_trans [OF b [of b] Cons(1) [of "second_scan base b k'"]] by simp }
  { case 2
    show ?case
    proof (cases "k = k'")
      case True
      then have "s \<le> second_scan base b k'" using 2 by (simp add: second_scan_seq)
      then show ?thesis using Cons(1) [of "second_scan base b k'"] by (simp add: order_trans)
    qed (use 2 Cons(2) in simp) }
qed simp_all

lemma scan_attained:
  "foldl (second_scan base) b ks = b \<or> (\<exists>k \<in> set ks. seq_of base k = Some (foldl (second_scan base) b ks))"
proof (induction ks arbitrary: b)
  case (Cons k ks)
  show ?case using Cons [of "second_scan base b k"]
    by (auto simp: second_scan_seq max_def split: option.splits if_splits)
qed simp

definition has_key :: "NucleusDb \<Rightarrow> string \<Rightarrow> bool" where
  "has_key db k \<longleftrightarrow> keymap_get (keymap db) k \<noteq> None"

lemma has_key_all: "has_key db k \<longleftrightarrow> k \<in> set (map fst (all_keys (keymap db)))"
  unfolding has_key_def keymap_get_def all_keys_def by (metis bt_keys_def domIff dom_bt_get)

lemma latest_seq_ge: "has_key db k \<Longrightarrow> seq_of base k = Some s \<Longrightarrow> s \<le> latest_seq db base"
  unfolding latest_seq_scan has_key_all by (rule scan_ge(2))

lemma latest_seq_attained:
  "latest_seq db base = 0 \<or> (\<exists>k. has_key db k \<and> seq_of base k = Some (latest_seq db base))"
  unfolding latest_seq_scan has_key_all using scan_attained by blast

lemma latest_seqI:
  assumes "\<And>k s. has_key db k \<Longrightarrow> seq_of base k = Some s \<Longrightarrow> s \<le> n" "has_key db k0" "seq_of base k0 = Some n"
  shows "latest_seq db base = n"
  using latest_seq_ge [OF assms(2,3)] latest_seq_attained [of db base] assms(1) by fastforce

lemma latest_seq_cong:
  assumes "\<And>k. seq_of base k \<noteq> None \<Longrightarrow> has_key db' k \<longleftrightarrow> has_key db k"
  shows "latest_seq db' base = latest_seq db base"
proof -
  have "s \<le> latest_seq db base" if "has_key db' k" "seq_of base k = Some s" for k s
    using that assms latest_seq_ge by force
  moreover have "s \<le> latest_seq db' base" if "has_key db k" "seq_of base k = Some s" for k s
    using that assms latest_seq_ge by force
  ultimately show ?thesis
    using latest_seq_attained [of db base] latest_seq_attained [of db' base]
    by (metis order_antisym word_zero_le)
qed

section \<open>The keys of a channel\<close>

lemma seq_of_state_key [simp]: "seq_of base (state_key base n f) = Some n"
proof -
  have "state_key base n f = state_prefix base @ show_u64 n @ CHR '':'' # f"
    by (simp add: state_key_def state_prefix_def)
  then show ?thesis by (simp add: seq_of_def)
qed

lemma seq_of_op_key [simp]: "seq_of base (op_key base n) = None"
  by (simp add: seq_of_def starts_with_def op_key_def state_prefix_def)

lemma seq_of_base [simp]: "seq_of base base = None" "seq_of base (base @ '':meta:'' @ m) = None"
  by (simp_all add: seq_of_def starts_with_def state_prefix_def)

lemma state_key_inject [simp]:
  "state_key base m f = state_key base n g \<longleftrightarrow> m = n \<and> f = g"
proof
  assume "state_key base m f = state_key base n g"
  then have "split_once CHR '':'' (show_u64 m @ CHR '':'' # f) = split_once CHR '':'' (show_u64 n @ CHR '':'' # g)"
    by (simp add: state_key_def)
  then show "m = n \<and> f = g" by simp
qed simp

lemma channel_keys_differ [simp]:
  "base \<noteq> state_key base n f" "base \<noteq> op_key base n" "op_key base m \<noteq> state_key base n f"
  "state_key base n f \<noteq> op_key base m" "state_key base n f \<noteq> base" "op_key base n \<noteq> base"
  "base @ '':meta:'' @ x \<noteq> state_key base n f" "base @ '':meta:'' @ x \<noteq> op_key base n"
  by (simp_all add: state_key_def op_key_def)

section \<open>What a settlement writes\<close>

text \<open>Every registered key has a cell: so it is unless a commit failed after keys were registered.\<close>

definition covered :: "NucleusDb \<Rightarrow> bool" where
  "covered db \<longleftrightarrow> list_all (\<lambda>(k, i). i < length (st_values (state db))) (all_keys (keymap db))"

lemma coveredD:
  assumes "covered db" "keymap_get (keymap db) k = Some i"
  shows "i < length (st_values (state db))"
  using assms map_of_SomeD by (fastforce simp: covered_def list_all_iff all_keys_def keymap_get_def bt_get_def)

lemma coveredI:
  assumes "keymap_inv (keymap db)"
    "\<And>k i. keymap_get (keymap db) k = Some i \<Longrightarrow> i < length (st_values (state db))"
  shows "covered db"
  using assms by (auto simp: covered_def list_all_iff all_keys_def keymap_get_def keymap_inv_def bt_get_iff_mem)

lemma value_at_covered:
  "covered db \<Longrightarrow> value_at db k = map_option (cell (state db)) (keymap_get (keymap db) k)"
  by (auto simp: value_at_def cell_def dest: coveredD split: option.splits)

lemma put_keys_all:
  assumes "keymap_inv (keymap db)"
  shows "put_keys db es = (ws, db1) \<Longrightarrow>
    db1 = db\<lparr>keymap := keymap db1\<rparr> \<and> keymap_inv (keymap db1) \<and>
    (\<forall>k. has_key db1 k \<longleftrightarrow> has_key db k \<or> k \<in> fst ` set es) \<and>
    (\<forall>k i. keymap_get (keymap db) k = Some i \<longrightarrow> keymap_get (keymap db1) k = Some i) \<and>
    ws = map (\<lambda>(k, v). (the (keymap_get (keymap db1) k), v)) es"
proof (induction es arbitrary: ws db1 rule: rev_induct)
  case (snoc e es)
  obtain ws0 db0 where p: "put_keys db es = (ws0, db0)" by fastforce
  let ?g = "get_or_create (keymap db0) (fst e)"
  have IH: "db0 = db\<lparr>keymap := keymap db0\<rparr>" "keymap_inv (keymap db0)"
    "\<forall>k. has_key db0 k \<longleftrightarrow> has_key db k \<or> k \<in> fst ` set es"
    "\<forall>k i. keymap_get (keymap db) k = Some i \<longrightarrow> keymap_get (keymap db0) k = Some i"
    "ws0 = map (\<lambda>(k, v). (the (keymap_get (keymap db0) k), v)) es"
    using snoc(1) [OF p] by blast+
  have w: "ws = ws0 @ [(fst ?g, snd e)]" and db1: "db1 = db0\<lparr>keymap := snd ?g\<rparr>"
    using snoc(2) p by (auto simp: put_keys_def put_key_def split: prod.splits)
  have get: "keymap_get (keymap db1) = (keymap_get (keymap db0))(fst e \<mapsto> fst ?g)"
    using km.get_create [OF IH(2)] by (simp add: db1)
  have keep: "keymap_get (keymap db0) k = Some i \<Longrightarrow> keymap_get (keymap db1) k = Some i" for k i
    using km.create_stable [OF IH(2)] by (simp add: db1)
  have "the (keymap_get (keymap db1) k) = the (keymap_get (keymap db0) k)" if "(k, v) \<in> set es" for k v
    using IH(3) that keep by (metis fst_conv image_eqI has_key_def not_None_eq)
  then have "ws0 = map (\<lambda>(k, v). (the (keymap_get (keymap db1) k), v)) es"
    unfolding IH(5) by (intro map_cong) auto
  moreover have "db1 = db\<lparr>keymap := keymap db1\<rparr>" by (subst db1, subst IH(1)) (simp add: db1)
  moreover have "keymap_inv (keymap db1)" using km.inv_create [OF IH(2)] by (simp add: db1)
  moreover have "\<forall>k. has_key db1 k \<longleftrightarrow> has_key db k \<or> k \<in> fst ` set (es @ [e])"
    using IH(3) by (auto simp: has_key_def get)
  moreover have "\<forall>k i. keymap_get (keymap db) k = Some i \<longrightarrow> keymap_get (keymap db1) k = Some i"
    using IH(4) keep by blast
  ultimately show ?case by (simp add: w get case_prod_unfold)
qed (simp add: put_keys_def assms)

lemma put_keys_spec:
  assumes "put_keys db es = (ws, db1)" "keymap_inv (keymap db)"
  shows "db1 = db\<lparr>keymap := keymap db1\<rparr>" "keymap_inv (keymap db1)"
    "\<forall>k. has_key db1 k \<longleftrightarrow> has_key db k \<or> k \<in> fst ` set es"
    "\<forall>k i. keymap_get (keymap db) k = Some i \<longrightarrow> keymap_get (keymap db1) k = Some i"
    "ws = map (\<lambda>(k, v). (the (keymap_get (keymap db1) k), v)) es"
  using put_keys_all [OF assms(2,1)] by blast+

lemma written_in_range: "w \<in> set (writes d) \<Longrightarrow> fst w < length (st_values (apply_delta s d))"
proof -
  have "w \<in> set ws \<Longrightarrow> fst w < length (foldl apply_write vs ws)" for ws vs
  proof (induction ws arbitrary: vs rule: rev_induct)
    case (snoc x ws)
    then show ?case by (auto simp: length_apply_write less_max_iff_disj)
  qed simp
  then show "w \<in> set (writes d) \<Longrightarrow> ?thesis" by (simp add: apply_delta_def)
qed

lemma map_of_single_valued: "single_valued (set xs) \<Longrightarrow> (k, v) \<in> set xs \<Longrightarrow> map_of xs k = Some v"
  by (metis domIff dom_map_of_conv_image_fst fst_conv image_eqI map_of_SomeD option.exhaust single_valuedD)

lemma distinct_single_valued: "distinct (map fst es) \<Longrightarrow> single_valued (set es)"
  by (auto simp: single_valued_def dest: eq_key_imp_eq_value)

text \<open>The database after the keys of \<open>es\<close> were put and the commit succeeded.\<close>

definition wrote :: "NucleusDb \<Rightarrow> (string \<times> u64) list \<Rightarrow> NucleusDb \<Rightarrow> bool" where
  "wrote db es db2 \<longleftrightarrow> keymap_inv (keymap db) \<and> covered db \<and> single_valued (set es) \<and>
     (\<exists>ws db1. put_keys db es = (ws, db1) \<and> keymap db2 = keymap db1 \<and>
        state db2 = apply_delta (state db) \<lparr>writes = ws\<rparr>)"

lemma wrote_facts:
  assumes "wrote db es db2"
  shows "keymap_inv (keymap db2)" "covered db2"
    "has_key db2 k \<longleftrightarrow> has_key db k \<or> k \<in> fst ` set es"
    "(k, v) \<in> set es \<Longrightarrow> value_at db2 k = Some v"
    "k \<notin> fst ` set es \<Longrightarrow> value_at db2 k = value_at db k"
proof -
  obtain ws db1 where p: "put_keys db es = (ws, db1)" and km: "keymap db2 = keymap db1"
    and st: "state db2 = apply_delta (state db) \<lparr>writes = ws\<rparr>"
    and inv: "keymap_inv (keymap db)" and cov: "covered db" and sv: "single_valued (set es)"
    using assms by (auto simp: wrote_def)
  note f = put_keys_spec [OF p inv]
  show inv2: "keymap_inv (keymap db2)" using f(2) km by simp
  show hk: "has_key db2 k \<longleftrightarrow> has_key db k \<or> k \<in> fst ` set es" for k
    using f(3) km by (simp add: has_key_def)
  let ?g = "\<lambda>k. the (keymap_get (keymap db2) k)"
  have ws: "ws = map (\<lambda>(k, v). (?g k, v)) es" using f(5) km by simp
  have gS: "keymap_get (keymap db2) k = Some (?g k)" if "k \<in> fst ` set es" for k
    using that hk [of k] by (auto simp: has_key_def)
  have inj: "inj_on ?g (fst ` set es)"
    by (rule inj_onI) (metis gS km.get_inject inv2)
  have dw: "single_valued (set (rev ws))"
  proof (rule single_valuedI)
    fix i v v' assume "(i, v) \<in> set (rev ws)" "(i, v') \<in> set (rev ws)"
    then obtain k k' where k: "(k, v) \<in> set es" "?g k = i" "(k', v') \<in> set es" "?g k' = i" by (auto simp: ws)
    then have "k = k'" using inj_onD [OF inj, of k k'] by force
    with k sv show "v = v'" by (auto dest: single_valuedD)
  qed
  have old: "keymap_get (keymap db2) k = keymap_get (keymap db) k" if "has_key db k" for k
    using that f(4) km by (auto simp: has_key_def)
  show cov2: "covered db2"
  proof (rule coveredI [OF inv2])
    fix k i assume k: "keymap_get (keymap db2) k = Some i"
    show "i < length (st_values (state db2))"
    proof (cases "k \<in> fst ` set es")
      case True
      then have "i \<in> fst ` set ws" using k by (force simp: ws image_iff)
      then show ?thesis using written_in_range by (fastforce simp: st)
    next
      case False
      then have "keymap_get (keymap db) k = Some i" using k hk [of k] old by (auto simp: has_key_def)
      then show ?thesis using coveredD [OF cov] length_apply_delta_ge by (metis st order_less_le_trans)
    qed
  qed
  show "value_at db2 k = Some v" if e: "(k, v) \<in> set es"
  proof -
    have "(?g k, v) \<in> set (rev ws)" using e by (force simp: ws)
    then have "cell (state db2) (?g k) = v"
      using map_of_single_valued [OF dw] by (simp add: st cell_apply_delta_last)
    moreover have "keymap_get (keymap db2) k = Some (?g k)" using gS e by force
    ultimately show ?thesis using cov2 by (metis option.simps(9) value_at_covered)
  qed
  show "value_at db2 k = value_at db k" if n: "k \<notin> fst ` set es"
  proof (cases "keymap_get (keymap db) k")
    case None
    then show ?thesis using hk [of k] n by (simp add: has_key_def value_at_def)
  next
    case (Some i)
    then have i: "keymap_get (keymap db2) k = Some i" using old by (simp add: has_key_def)
    have "i \<notin> fst ` set ws"
    proof
      assume "i \<in> fst ` set ws"
      then obtain k' where "k' \<in> fst ` set es" "?g k' = i" by (force simp: ws)
      then show False using km.get_inject [OF inv2 i, of k'] gS n by metis
    qed
    then have "map_of (rev ws) i = None" by (simp add: map_of_eq_None_iff)
    then show ?thesis using Some i cov cov2 by (simp add: value_at_covered st cell_apply_delta_last)
  qed
qed

lemma apply_writes_wrote:
  assumes "put_keys db es = (ws, db1)" "apply_writes env now db1 ws = Some (db2, Ok ())"
    "keymap_inv (keymap db)" "covered db" "single_valued (set es)"
  shows "wrote db es db2"
proof -
  obtain e where c: "commit env now db1 \<lparr>writes = ws\<rparr> [] = Some (db2, Ok e)"
    using assms(2) by (auto simp: apply_writes_def split: option.splits sum.splits)
  have "state db1 = state db" by (subst put_keys_spec(1) [OF assms(1,3)]) simp
  then show ?thesis
    using commit_frame [OF c] commit_ok(1) [OF c] assms by (auto simp: wrote_def same_config_def)
qed

section \<open>The abstract channel\<close>

record ChannelView =
  cv_capacity :: u64
  cv_seq :: u64
  cv_status :: ChannelStatus
  cv_b1 :: u64
  cv_b2 :: u64

definition channel_view :: "NucleusDb \<Rightarrow> string \<Rightarrow> ChannelView option" where
  "channel_view db base =
     (if \<not> exists_channel db base \<or> latest_seq db base = 0 then None
      else map_option (\<lambda>cap.
        \<lparr>cv_capacity = cap, cv_seq = latest_seq db base, cv_status = status_at db base (latest_seq db base),
         cv_b1 = unwrap_or (value_at db (state_key base (latest_seq db base) ''b1'')) 0,
         cv_b2 = unwrap_or (value_at db (state_key base (latest_seq db base) ''b2'')) 0\<rparr>)
        (capacity_for db base))"

definition snapshot_view :: "ChannelSnapshot \<Rightarrow> ChannelView" where
  "snapshot_view s =
     \<lparr>cv_capacity = capacity (snap_record s), cv_seq = last_seq (snap_record s),
      cv_status = channel_status (snap_record s), cv_b1 = balance1 s, cv_b2 = balance2 s\<rparr>"

lemma snapshot_is_view:
  "map_option snapshot_view (channel_snapshot db p1 p2) = channel_view db (channel_base p1 p2)"
  by (auto simp: channel_snapshot_def channel_view_def snapshot_view_def Let_def
      split: option.splits prod.splits)

text \<open>What each settlement is meant to do to the channel; \<open>None\<close> is a refusal.\<close>

fun channel_step :: "SettlementOp \<Rightarrow> ChannelView option \<Rightarrow> ChannelView option" where
  "channel_step (OpOpen _ _ cap) None =
     Some \<lparr>cv_capacity = cap, cv_seq = 1, cv_status = ChannelOpen, cv_b1 = cap, cv_b2 = 0\<rparr>"
| "channel_step (OpUpdate _ _ b1 b2) (Some v) =
     (if saturating_add b1 b2 = cv_capacity v \<and> cv_status v = ChannelOpen
      then Some (v\<lparr>cv_seq := cv_seq v + 1, cv_b1 := b1, cv_b2 := b2\<rparr>) else None)"
| "channel_step (OpClose _ _) (Some v) = Some (v\<lparr>cv_seq := cv_seq v + 1, cv_status := ChannelClosed\<rparr>)"
| "channel_step (OpSplice _ _ cap) (Some v) =
     Some (v\<lparr>cv_seq := cv_seq v + 1, cv_status := ChannelOpen, cv_b1 := min (cv_b1 v) cap,
             cv_b2 := cap - min (cv_b1 v) cap\<rparr>)"
| "channel_step _ _ = None"

fun op_channel :: "SettlementOp \<Rightarrow> string" where
  "op_channel (OpOpen p1 p2 _) = channel_base p1 p2"
| "op_channel (OpClose p1 p2) = channel_base p1 p2"
| "op_channel (OpSplice p1 p2 _) = channel_base p1 p2"
| "op_channel (OpUpdate p1 p2 _ _) = channel_base p1 p2"

text \<open>The keys one settlement writes below \<open>base\<close> at sequence number \<open>n\<close>.\<close>

definition writes_seq :: "string \<Rightarrow> u64 \<Rightarrow> (string \<times> u64) list \<Rightarrow> bool" where
  "writes_seq base n es \<longleftrightarrow>
     (\<forall>k \<in> fst ` set es. k = op_key base n \<or> (\<exists>f. k = state_key base n f))"

lemma seq_step_view:
  assumes "wrote db es db2" "writes_seq base n es" "channel_view db base = Some v" "n = cv_seq v + 1" "cv_seq v \<noteq> - 1"
    "(state_key base n ''status'', status_code st) \<in> set es" "(state_key base n ''b1'', x1) \<in> set es"
    "(state_key base n ''b2'', x2) \<in> set es"
  shows "channel_view db2 base = Some (v\<lparr>cv_seq := n, cv_status := st, cv_b1 := x1, cv_b2 := x2\<rparr>)"
proof -
  note f = wrote_facts [OF assms(1)]
  have seq: "cv_seq v = latest_seq db base" "exists_channel db base" "capacity_for db base = Some (cv_capacity v)"
    using assms(3) by (auto simp: channel_view_def split: if_splits option.splits)
  have keep: "value_at db2 base = value_at db base"
    "value_at db2 (base @ '':meta:capacity'') = value_at db (base @ '':meta:capacity'')"
    by (rule f(5), use assms(2) channel_keys_differ(7,8) [of base "''capacity''"] in \<open>force simp: writes_seq_def\<close>)+
  have lt: "cv_seq v < n" using assms(4,5) u64_less_succ by simp
  have "latest_seq db2 base = n"
  proof (rule latest_seqI)
    fix k s assume k: "has_key db2 k" "seq_of base k = Some s"
    show "s \<le> n"
    proof (cases "k \<in> fst ` set es")
      case True
      then show ?thesis using k(2) assms(2) by (auto simp: writes_seq_def)
    next
      case False
      then have "has_key db k" using k(1) f(3) by blast
      then show ?thesis using latest_seq_ge k(2) lt seq(1) by fastforce
    qed
  next
    show "has_key db2 (state_key base n ''b1'')" using assms(7) f(3) by force
  qed simp
  moreover have "n \<noteq> 0" using lt by auto
  moreover have "value_at db2 (state_key base n ''status'') = Some (status_code st)"
    "value_at db2 (state_key base n ''b1'') = Some x1" "value_at db2 (state_key base n ''b2'') = Some x2"
    using f(4) assms(6-8) by blast+
  moreover have "status_from_code (status_code st) = st" by (cases st) (simp_all add: status_from_code_def)
  ultimately show ?thesis
    using seq keep by (simp add: channel_view_def exists_channel_def capacity_for_def status_at_def unwrap_or_def)
qed

text \<open>Opening starts a channel; its sentinel must not be zero, and no key may carry a larger number.\<close>

definition openable :: "(bytes \<Rightarrow> node_hash) \<Rightarrow> u64 \<Rightarrow> SettlementOp \<Rightarrow> NucleusDb \<Rightarrow> bool" where
  "openable H secs op db \<longleftrightarrow>
     (case op of
        OpOpen p1 p2 cap \<Rightarrow>
          latest_seq db (channel_base p1 p2) = 0 \<and>
          record_sentinel H \<lparr>participant1 = fst (canonical_pair p1 p2), participant2 = snd (canonical_pair p1 p2),
            capacity = cap, channel_status = ChannelOpen, channel_created_at = secs, last_seq = 1\<rparr> \<noteq> 0
      | _ \<Rightarrow> True)"

lemma open_step_view:
  assumes "wrote db es db2" "latest_seq db base = 0" "(base, x) \<in> set es" "x \<noteq> 0"
    "(base @ '':meta:capacity'', cap) \<in> set es" "(state_key base 1 ''status'', 1) \<in> set es"
    "(state_key base 1 ''b1'', x1) \<in> set es" "(state_key base 1 ''b2'', x2) \<in> set es"
    "\<forall>k \<in> fst ` set es. seq_of base k = None \<or> seq_of base k = Some 1"
  shows "channel_view db2 base =
    Some \<lparr>cv_capacity = cap, cv_seq = 1, cv_status = ChannelOpen, cv_b1 = x1, cv_b2 = x2\<rparr>"
proof -
  note f = wrote_facts [OF assms(1)]
  have "latest_seq db2 base = 1"
  proof (rule latest_seqI)
    fix k s assume k: "has_key db2 k" "seq_of base k = Some s"
    show "s \<le> 1"
    proof (cases "k \<in> fst ` set es")
      case True
      then show ?thesis using k(2) assms(9) by force
    next
      case False
      then have "has_key db k" using k(1) f(3) by blast
      then show ?thesis using latest_seq_ge k(2) assms(2) by fastforce
    qed
  next
    show "has_key db2 (state_key base 1 ''b1'')" using assms(7) f(3) by force
  qed simp
  then show ?thesis
    using f(4) [OF assms(3)] f(4) [OF assms(5)] f(4) [OF assms(6)] f(4) [OF assms(7)] f(4) [OF assms(8)] assms(4)
    by (simp add: channel_view_def exists_channel_def capacity_for_def status_at_def status_from_code_def unwrap_or_def)
qed

text \<open>A settlement that commits is the step of the abstract channel.\<close>

lemma wrote_append_only [simp]: "wrote (set_append_only db) es db2 = wrote db es db2"
proof -
  have "put_keys (set_append_only db) es =
      (fst (put_keys db es), set_append_only (snd (put_keys db es)))"
    by (induction es rule: rev_induct)
      (auto simp: put_keys_def put_key_def set_append_only_def Let_def split: prod.splits)
  then show ?thesis
    by (auto simp: wrote_def covered_def set_append_only_def split_paired_Ex prod_eq_iff)
qed

text \<open>The keys of each settlement.\<close>

fun op_writes :: "(bytes \<Rightarrow> node_hash) \<Rightarrow> u64 \<Rightarrow> NucleusDb \<Rightarrow> SettlementOp \<Rightarrow> (string \<times> u64) list" where
  "op_writes H secs db (OpOpen p1 p2 cap) =
     (let base = channel_base p1 p2 in
      [(base, record_sentinel H \<lparr>participant1 = fst (canonical_pair p1 p2),
          participant2 = snd (canonical_pair p1 p2), capacity = cap, channel_status = ChannelOpen,
          channel_created_at = secs, last_seq = 1\<rparr>), (base @ '':meta:capacity'', cap),
       (base @ '':meta:created_at'', secs), (op_key base 1, 1), (state_key base 1 ''status'', 1),
       (state_key base 1 ''b1'', cap), (state_key base 1 ''b2'', 0)])"
| "op_writes H secs db (OpUpdate p1 p2 b1 b2) =
     (let base = channel_base p1 p2; nxt = latest_seq db base + 1 in
      [(op_key base nxt, 4), (state_key base nxt ''status'', 1), (state_key base nxt ''b1'', b1),
       (state_key base nxt ''b2'', b2)])"
| "op_writes H secs db (OpClose p1 p2) =
     (let base = channel_base p1 p2; nxt = latest_seq db base + 1 in
      [(op_key base nxt, 2), (state_key base nxt ''status'', 3),
       (state_key base nxt ''b1'', unwrap_or (value_at db (state_key base (latest_seq db base) ''b1'')) 0),
       (state_key base nxt ''b2'', unwrap_or (value_at db (state_key base (latest_seq db base) ''b2'')) 0)])"
| "op_writes H secs db (OpSplice p1 p2 cap) =
     (let base = channel_base p1 p2; nxt = latest_seq db base + 1;
          x = min (unwrap_or (value_at db (state_key base (latest_seq db base) ''b1'')) 0) cap in
      [(op_key base nxt, 3), (state_key base nxt ''status'', 1), (state_key base nxt ''capacity'', cap),
       (state_key base nxt ''b1'', x), (state_key base nxt ''b2'', saturating_sub cap x)])"

definition op_start :: "SettlementOp \<Rightarrow> NucleusDb \<Rightarrow> NucleusDb" where
  "op_start op db = (case op of OpOpen _ _ _ \<Rightarrow> set_append_only db | _ \<Rightarrow> db)"

text \<open>A settlement is refused by its own checks, or puts its keys and commits.\<close>

lemma apply_op_cases:
  assumes "apply_op env secs now op db = Some (db2, r)"
  obtains (refused) "db2 = db" "r \<noteq> Ok ()" "\<forall>e. r \<noteq> Err (PcnCommit e)"
  | (written) ws db1 where "put_keys (op_start op db) (op_writes (env_sha256 env) secs db op) = (ws, db1)"
      "apply_writes env now db1 ws = Some (db2, r)"
      "(\<exists>p1 p2 cap. op = OpOpen p1 p2 cap) \<longleftrightarrow> \<not> exists_channel db (op_channel op)"
      "\<forall>p1 p2 b1 b2. op = OpUpdate p1 p2 b1 b2 \<longrightarrow> latest_seq db (op_channel op) \<noteq> 0 \<and>
         capacity_for db (op_channel op) = Some (saturating_add b1 b2) \<and>
         status_at db (op_channel op) (latest_seq db (op_channel op)) = ChannelOpen"
proof (cases op)
  case (OpOpen p1 p2 cap)
  show ?thesis
  proof (cases "exists_channel db (channel_base p1 p2)")
    case True
    then show ?thesis using assms OpOpen by (intro refused) (auto simp: apply_op_def)
  next
    case False
    obtain ws db1 where p: "put_keys (op_start op db) (op_writes (env_sha256 env) secs db op) = (ws, db1)" by fastforce
    with assms OpOpen False show ?thesis
      by (intro written [OF p]) (auto simp: apply_op_def op_start_def Let_def)
  qed
next
  case (OpClose p1 p2)
  obtain ws db1 where p: "put_keys (op_start op db) (op_writes (env_sha256 env) secs db op) = (ws, db1)" by fastforce
  show ?thesis
  proof (cases "exists_channel db (channel_base p1 p2) \<and> latest_seq db (channel_base p1 p2) \<noteq> 0")
    case True
    with assms OpClose p show ?thesis
      by (intro written [OF p]) (auto simp: apply_op_def op_start_def Let_def)
  next
    case False
    then show ?thesis using assms OpClose by (intro refused) (auto simp: apply_op_def Let_def split: if_splits)
  qed
next
  case (OpSplice p1 p2 cap)
  obtain ws db1 where p: "put_keys (op_start op db) (op_writes (env_sha256 env) secs db op) = (ws, db1)" by fastforce
  show ?thesis
  proof (cases "exists_channel db (channel_base p1 p2)")
    case True
    with assms OpSplice p show ?thesis
      by (intro written [OF p]) (auto simp: apply_op_def op_start_def Let_def)
  next
    case False
    then show ?thesis using assms OpSplice by (intro refused) (auto simp: apply_op_def)
  qed
next
  case (OpUpdate p1 p2 b1 b2)
  obtain ws db1 where p: "put_keys (op_start op db) (op_writes (env_sha256 env) secs db op) = (ws, db1)" by fastforce
  let ?b = "channel_base p1 p2"
  show ?thesis
  proof (cases "exists_channel db ?b \<and> capacity_for db ?b = Some (saturating_add b1 b2) \<and>
      latest_seq db ?b \<noteq> 0 \<and> status_at db ?b (latest_seq db ?b) = ChannelOpen")
    case True
    with assms OpUpdate p show ?thesis
      by (intro written [OF p]) (auto simp: apply_op_def op_start_def Let_def)
  next
    case False
    then show ?thesis
      using assms OpUpdate by (intro refused) (auto simp: apply_op_def Let_def split: if_splits option.splits)
  qed
qed

text \<open>An update of an open channel that keeps the sum reaches the commit.\<close>

lemma update_writes:
  assumes "channel_view db (channel_base p1 p2) = Some v" "saturating_add b1 b2 = cv_capacity v"
    "cv_status v = ChannelOpen" "put_keys db (op_writes H secs db (OpUpdate p1 p2 b1 b2)) = (ws, db1)"
  shows "apply_op env secs now (OpUpdate p1 p2 b1 b2) db = apply_writes env now db1 ws"
  using assms by (auto simp: apply_op_def channel_view_def Let_def split: if_splits option.splits)

lemma op_writes_distinct: "distinct (map fst (op_writes H secs db op))"
  by (cases op) (simp_all add: Let_def state_key_def op_key_def)

lemma settled_wrote:
  assumes "apply_op env secs now op db = Some (db2, Ok ())" "keymap_inv (keymap db)" "covered db"
  shows "wrote db (op_writes (env_sha256 env) secs db op) db2"
  using assms(1)
proof (cases rule: apply_op_cases)
  case (written ws db1)
  have s: "keymap (op_start op db) = keymap db" "state (op_start op db) = state db"
    by (cases op; simp add: op_start_def set_append_only_def)+
  then have "wrote (op_start op db) (op_writes (env_sha256 env) secs db op) db2"
    using assms(2,3) by (intro apply_writes_wrote [OF written(1,2)]) (simp_all add: covered_def distinct_single_valued op_writes_distinct)
  then show ?thesis by (cases op) (simp_all add: op_start_def)
qed simp

lemma settled_refines:
  assumes "apply_op env secs now op db = Some (db2, Ok ())" "keymap_inv (keymap db)" "covered db"
    "openable (env_sha256 env) secs op db"
    "\<forall>v. channel_view db (op_channel op) = Some v \<longrightarrow> cv_seq v \<noteq> - 1"
    "(\<exists>p1 p2 cap. op = OpOpen p1 p2 cap) \<or> channel_view db (op_channel op) \<noteq> None"
  shows "\<exists>v. channel_view db2 (op_channel op) = Some v \<and> channel_step op (channel_view db (op_channel op)) = Some v"
    "keymap_inv (keymap db2)" "covered db2"
proof -
  note w = settled_wrote [OF assms(1-3)]
  show "keymap_inv (keymap db2)" "covered db2" by (rule wrote_facts [OF w])+
  let ?b = "op_channel op"
  from assms(1) show "\<exists>v. channel_view db2 ?b = Some v \<and> channel_step op (channel_view db ?b) = Some v"
  proof (cases rule: apply_op_cases)
    case (written ws db1)
    show ?thesis
    proof (cases "\<exists>p1 p2 cap. op = OpOpen p1 p2 cap")
      case True
      then obtain p1 p2 cap where o: "op = OpOpen p1 p2 cap" by blast
      let ?r = "\<lparr>participant1 = fst (canonical_pair p1 p2), participant2 = snd (canonical_pair p1 p2),
          capacity = cap, channel_status = ChannelOpen, channel_created_at = secs, last_seq = 1\<rparr>"
      have "channel_view db2 ?b =
          Some \<lparr>cv_capacity = cap, cv_seq = 1, cv_status = ChannelOpen, cv_b1 = cap, cv_b2 = 0\<rparr>"
        using assms(4) o seq_of_base(2) [of ?b "''capacity''"] seq_of_base(2) [of ?b "''created_at''"]
        by (intro open_step_view [OF w, where x = "record_sentinel (env_sha256 env) ?r"])
          (simp_all add: openable_def Let_def)
      moreover have "channel_view db ?b = None" using written(3) o by (auto simp: channel_view_def)
      ultimately show ?thesis using o by simp
    next
      case False
      then obtain v where v: "channel_view db ?b = Some v" using assms(6) by auto
      have vs: "cv_seq v = latest_seq db ?b" "cv_status v = status_at db ?b (latest_seq db ?b)"
        "capacity_for db ?b = Some (cv_capacity v)"
        "cv_b1 v = unwrap_or (value_at db (state_key ?b (latest_seq db ?b) ''b1'')) 0"
        "cv_b2 v = unwrap_or (value_at db (state_key ?b (latest_seq db ?b) ''b2'')) 0"
        using v by (auto simp: channel_view_def split: if_splits option.splits)
      note step = seq_step_view [OF w _ v _ assms(5) [rule_format, OF v], of "latest_seq db ?b + 1"]
      show ?thesis
      proof (cases op)
        case (OpClose p1 p2)
        then have "channel_view db2 ?b = Some (v\<lparr>cv_seq := latest_seq db ?b + 1, cv_status := ChannelClosed,
            cv_b1 := cv_b1 v, cv_b2 := cv_b2 v\<rparr>)"
          using vs by (intro step) (auto simp: writes_seq_def Let_def)
        then show ?thesis using OpClose v vs(1) by simp
      next
        case (OpSplice p1 p2 cap)
        let ?x = "min (cv_b1 v) cap"
        have "channel_view db2 ?b = Some (v\<lparr>cv_seq := latest_seq db ?b + 1, cv_status := ChannelOpen,
            cv_b1 := ?x, cv_b2 := saturating_sub cap ?x\<rparr>)"
          using vs OpSplice by (intro step) (auto simp: writes_seq_def Let_def)
        then show ?thesis using OpSplice v vs(1) by (simp add: saturating_sub_def)
      next
        case (OpUpdate p1 p2 b1 b2)
        then have "channel_view db2 ?b = Some (v\<lparr>cv_seq := latest_seq db ?b + 1, cv_status := ChannelOpen,
            cv_b1 := b1, cv_b2 := b2\<rparr>)"
          using vs by (intro step) (auto simp: writes_seq_def Let_def)
        then show ?thesis using OpUpdate v vs written(4) by simp
      qed (use False in simp)
    qed
  qed simp
qed

section \<open>Other channels\<close>

definition below :: "string \<Rightarrow> string \<Rightarrow> bool" where
  "below base k \<longleftrightarrow> k = base \<or> (\<exists>r. k = base @ CHR '':'' # r)"

lemma colon_split:
  assumes "(c :: char) \<notin> set a" "c \<notin> set a'" "a @ c # s = a' @ c # s'"
  shows "a = a' \<and> s = s'"
  using split_once_app [OF assms(1), of s] split_once_app [OF assms(2), of s'] unfolding assms(3) by simp

lemma below_append: "below base k \<Longrightarrow> \<exists>x. k = base @ x \<and> (x = [] \<or> (\<exists>r. x = CHR '':'' # r))"
  by (auto simp: below_def)

lemma below_disjoint:
  assumes "CHR '':'' \<notin> set (p1 @ p2 @ q1 @ q2)" "below (channel_base p1 p2) k" "below (channel_base q1 q2) k"
  shows "channel_base p1 p2 = channel_base q1 q2"
proof -
  obtain a b a' b' where ab: "canonical_pair p1 p2 = (a, b)" "canonical_pair q1 q2 = (a', b')" by fastforce
  have free: "CHR '':'' \<notin> set a" "CHR '':'' \<notin> set b" "CHR '':'' \<notin> set a'" "CHR '':'' \<notin> set b'"
    using assms(1) ab by (auto simp: canonical_pair_def split: if_splits)
  obtain x y where xy: "k = channel_base p1 p2 @ x" "k = channel_base q1 q2 @ y" "x = [] \<or> (\<exists>r. x = CHR '':'' # r)"
    "y = [] \<or> (\<exists>r. y = CHR '':'' # r)"
    using assms(2,3) below_append by metis
  then have "a @ CHR '':'' # b @ x = a' @ CHR '':'' # b' @ y" by (simp add: channel_base_def ab)
  then have a: "a = a'" and b: "b @ x = b' @ y" using colon_split free(1,3) by blast+
  from xy(3) have "b = b'"
  proof
    assume "x = []"
    then show ?thesis using b xy(4) free(2) by auto
  next
    assume x: "\<exists>r. x = CHR '':'' # r"
    show ?thesis using xy(4)
    proof
      assume "y = []"
      then show ?thesis using b x free(4) by auto
    qed (use x b colon_split free(2,4) in blast)
  qed
  with a show ?thesis by (simp add: channel_base_def ab)
qed

lemma op_writes_below: "k \<in> fst ` set (op_writes H secs db op) \<Longrightarrow> below (op_channel op) k"
  by (cases op) (auto simp: Let_def below_def state_key_def op_key_def)

lemma seq_of_below: "seq_of base k \<noteq> None \<Longrightarrow> below base k"
  by (auto simp: seq_of_def below_def starts_with_iff state_prefix_def split: if_splits)

lemma channel_view_cong:
  assumes "\<forall>k. below base k \<longrightarrow> value_at db2 k = value_at db k \<and> (has_key db2 k \<longleftrightarrow> has_key db k)"
  shows "channel_view db2 base = channel_view db base"
proof -
  have "latest_seq db2 base = latest_seq db base"
    using assms seq_of_below by (intro latest_seq_cong) blast
  moreover have "value_at db2 base = value_at db base"
    "value_at db2 (base @ '':meta:capacity'') = value_at db (base @ '':meta:capacity'')"
    "value_at db2 (state_key base n f) = value_at db (state_key base n f)" for n f
    using assms by (auto simp: below_def state_key_def)
  ultimately show ?thesis
    by (simp add: channel_view_def exists_channel_def capacity_for_def status_at_def)
qed

lemma commit_state:
  assumes "commit env now db d views = Some (db2, r)"
  shows "keymap db2 = keymap db" "state db2 = state db \<or> state db2 = apply_delta (state db) d"
proof -
  show "keymap db2 = keymap db" using commit_frame [OF assms] by (simp add: same_config_def)
  from assms show "state db2 = state db \<or> state db2 = apply_delta (state db) d"
  proof (cases rule: commit_cases)
    case (logged nxt pf prev_root new_root db1 head)
    from logged(5) show ?thesis
      by (cases rule: commit_finish_cases)
        (use log_leaf_frame(2) [OF logged(4)] commit_checks_okD [OF logged(1)] in auto)
  qed simp
qed

text \<open>What a settlement, whatever its outcome, does to the keys it does not write: nothing.\<close>

lemma apply_op_frame:
  assumes "apply_op env secs now op db = Some (db2, r)" "keymap_inv (keymap db)" "covered db"
    "k \<notin> fst ` set (op_writes (env_sha256 env) secs db op)"
  shows "value_at db2 k = value_at db k \<and> (has_key db2 k \<longleftrightarrow> has_key db k)"
  using assms(1)
proof (cases rule: apply_op_cases)
  case (written ws db1)
  let ?es = "op_writes (env_sha256 env) secs db op"
  have s: "keymap (op_start op db) = keymap db" "state (op_start op db) = state db"
    by (cases op; simp add: op_start_def set_append_only_def)+
  then have inv: "keymap_inv (keymap (op_start op db))" using assms(2) by simp
  note f = put_keys_spec [OF written(1) inv]
  obtain r' where c: "commit env now db1 \<lparr>writes = ws\<rparr> [] = Some (db2, r')"
    using written(2) by (auto simp: apply_writes_def split: option.splits sum.splits)
  have st: "state db1 = state db" by (subst f(1)) (simp add: s)
  have hk: "has_key db2 k \<longleftrightarrow> has_key db k"
    using f(3) assms(4) commit_state(1) [OF c] s by (simp add: has_key_def)
  from commit_state(2) [OF c] show ?thesis
  proof
    assume "state db2 = state db1"
    moreover have "keymap_get (keymap db2) k = keymap_get (keymap db) k"
      using hk f(4) commit_state(1) [OF c] s by (cases "keymap_get (keymap db) k") (auto simp: has_key_def)
    ultimately show ?thesis using hk st by (simp add: value_at_def split: option.splits)
  next
    assume "state db2 = apply_delta (state db1) \<lparr>writes = ws\<rparr>"
    then have "wrote (op_start op db) ?es db2"
      using written(1) commit_state(1) [OF c] assms(2,3) st s
      by (simp add: wrote_def covered_def distinct_single_valued op_writes_distinct)
    then have "wrote db ?es db2" by (cases op) (simp_all add: op_start_def)
    then show ?thesis using wrote_facts(5) assms(4) hk by blast
  qed
qed simp

lemma other_channel_kept:
  assumes "apply_op env secs now op db = Some (db2, r)" "keymap_inv (keymap db)" "covered db"
    "op_channel op = channel_base p1 p2" "channel_base q1 q2 \<noteq> channel_base p1 p2"
    "CHR '':'' \<notin> set (p1 @ p2 @ q1 @ q2)"
  shows "channel_view db2 (channel_base q1 q2) = channel_view db (channel_base q1 q2)"
proof (rule channel_view_cong, intro allI impI)
  fix k assume "below (channel_base q1 q2) k"
  then have "k \<notin> fst ` set (op_writes (env_sha256 env) secs db op)"
    using op_writes_below below_disjoint [OF assms(6)] assms(4,5) by metis
  then show "value_at db2 k = value_at db k \<and> (has_key db2 k \<longleftrightarrow> has_key db k)"
    by (rule apply_op_frame [OF assms(1-3)])
qed

section \<open>A failed commit\<close>

lemma put_keys_fresh:
  "put_keys db es = (ws, db1) \<Longrightarrow>
    next_index (keymap db) \<le> next_index (keymap db1) \<and>
    (\<forall>k i. keymap_get (keymap db1) k = Some i \<longrightarrow>
       keymap_get (keymap db) k = Some i \<or> next_index (keymap db) \<le> i)"
proof (induction es arbitrary: ws db1 rule: rev_induct)
  case (snoc e es)
  obtain ws0 db0 where p: "put_keys db es = (ws0, db0)" by fastforce
  have "db1 = db0\<lparr>keymap := snd (get_or_create (keymap db0) (fst e))\<rparr>"
    using snoc(2) p by (auto simp: put_keys_def put_key_def split: prod.splits)
  then show ?case
    using snoc(1) [OF p]
    by (auto simp: get_or_create_def keymap_get_def Let_def split: option.splits if_splits)
qed (simp add: put_keys_def)

text \<open>
  The keys of the next sequence number are registered before the commit.  When the commit
  leaves the values alone, the channel is at that number, open, with nothing on either side.
\<close>

lemma failed_settlement:
  assumes "apply_op env secs now op db = Some (db2, Err (PcnCommit e))" "state db2 = state db"
    "keymap_inv (keymap db)" "covered db" "length (st_values (state db)) \<le> next_index (keymap db)"
    "channel_view db (op_channel op) = Some v" "cv_seq v \<noteq> - 1"
  shows "channel_view db2 (op_channel op) =
    Some (v\<lparr>cv_seq := cv_seq v + 1, cv_status := ChannelOpen, cv_b1 := 0, cv_b2 := 0\<rparr>)"
  using assms(1)
proof (cases rule: apply_op_cases)
  case (written ws db1)
  let ?b = "op_channel op" and ?es = "op_writes (env_sha256 env) secs db op" and ?n = "cv_seq v + 1"
  have v: "cv_seq v = latest_seq db ?b" "exists_channel db ?b" "capacity_for db ?b = Some (cv_capacity v)"
    using assms(6) by (auto simp: channel_view_def split: if_splits option.splits)
  have no: "\<nexists>p1 p2 cap. op = OpOpen p1 p2 cap" using written(3) v(2) by blast
  then have db1: "put_keys db ?es = (ws, db1)" using written(1) by (cases op) (simp_all add: op_start_def)
  have es: "(state_key ?b ?n ''b1'') \<in> fst ` set ?es" "\<forall>k \<in> fst ` set ?es. k = op_key ?b ?n \<or> (\<exists>f. k = state_key ?b ?n f)"
    using no v(1) by (cases op; auto simp: Let_def)+
  obtain r' where c: "commit env now db1 \<lparr>writes = ws\<rparr> [] = Some (db2, r')"
    using written(2) by (auto simp: apply_writes_def split: option.splits sum.splits)
  note km = commit_state(1) [OF c] and f = put_keys_spec [OF db1 assms(3)]
  have hk: "has_key db2 k \<longleftrightarrow> has_key db k \<or> k \<in> fst ` set ?es" for k
    using f(3) km by (simp add: has_key_def)
  have lt: "cv_seq v < ?n" by (rule u64_less_succ [OF assms(7)])
  have empty: "value_at db2 (state_key ?b ?n x) = None" for x
  proof -
    have "\<not> has_key db (state_key ?b ?n x)"
      using latest_seq_ge [of db "state_key ?b ?n x" ?b ?n] lt v(1) by (auto simp: not_le)
    then have "keymap_get (keymap db2) (state_key ?b ?n x) = Some i \<Longrightarrow> length (st_values (state db2)) \<le> i" for i
      using put_keys_fresh [OF db1] km assms(2,5) by (force simp: has_key_def)
    then show ?thesis by (auto simp: value_at_def not_less split: option.splits)
  qed
  have seq: "latest_seq db2 ?b = ?n"
  proof (rule latest_seqI)
    fix k s assume k: "has_key db2 k" "seq_of ?b k = Some s"
    show "s \<le> ?n"
    proof (cases "k \<in> fst ` set ?es")
      case True
      then show ?thesis using k(2) es(2) by auto
    next
      case False
      then have "s \<le> cv_seq v" using hk k latest_seq_ge v(1) by metis
      then show ?thesis using lt by simp
    qed
  next
    show "has_key db2 (state_key ?b ?n ''b1'')" using es(1) hk by blast
  qed simp
  have keep: "value_at db2 k = value_at db k" if "k = ?b \<or> k = ?b @ '':meta:capacity''" for k
  proof -
    have "k \<noteq> op_key ?b ?n" "\<nexists>f. k = state_key ?b ?n f"
      using that by (auto simp: state_key_def op_key_def)
    then have "k \<notin> fst ` set ?es" using es(2) by blast
    then show ?thesis using apply_op_frame [OF assms(1,3,4)] by blast
  qed
  have "exists_channel db2 ?b" "capacity_for db2 ?b = Some (cv_capacity v)"
    using keep v(2,3) by (simp_all add: exists_channel_def capacity_for_def)
  moreover have "latest_seq db2 ?b \<noteq> 0" unfolding seq using lt by auto
  ultimately show ?thesis
    unfolding channel_view_def status_at_def seq empty by (simp add: status_from_code_def unwrap_or_def)
qed simp

section \<open>Balances\<close>

definition conserved :: "ChannelView \<Rightarrow> bool" where
  "conserved v \<longleftrightarrow> unat (cv_b1 v) + unat (cv_b2 v) = unat (cv_capacity v)"

text \<open>Settlements other than a splice keep the sum, below the largest capacity.\<close>

lemma step_conserved:
  assumes "channel_step op w = Some v'" "\<forall>v. w = Some v \<longrightarrow> conserved v" "cv_capacity v' \<noteq> - 1"
    "\<forall>p1 p2 cap. op \<noteq> OpSplice p1 p2 cap"
  shows "conserved v'"
proof (cases op)
  case (OpUpdate p1 p2 b1 b2)
  with assms show ?thesis
    by (cases w) (auto simp: conserved_def saturating_add_exact [symmetric] split: if_splits)
qed (use assms in \<open>cases w; auto simp: conserved_def split: if_splits\<close>)+

text \<open>A splice to another capacity breaks it: the capacity that counts is never rewritten.\<close>

lemma splice_conserved_iff:
  assumes "channel_step (OpSplice p1 p2 cap) (Some v) = Some v'"
  shows "cv_capacity v' = cv_capacity v" "unat (cv_b1 v') + unat (cv_b2 v') = unat cap"
    "conserved v' \<longleftrightarrow> cap = cv_capacity v"
proof -
  show "cv_capacity v' = cv_capacity v" using assms by auto
  have "unat (min (cv_b1 v) cap) \<le> unat cap" by (simp add: min_def word_le_nat_alt)
  then have "unat (cap - min (cv_b1 v) cap) = unat cap - unat (min (cv_b1 v) cap)"
    by (intro unat_sub) (simp add: word_le_nat_alt)
  then show sum: "unat (cv_b1 v') + unat (cv_b2 v') = unat cap"
    using assms \<open>unat (min (cv_b1 v) cap) \<le> unat cap\<close> by auto
  show "conserved v' \<longleftrightarrow> cap = cv_capacity v"
    using sum assms by (auto simp: conserved_def word_unat_eq_iff)
qed

text \<open>
  Two balances that overflow together pass the test of a channel of the largest capacity, and
  different pairs of names with colons share one channel.
\<close>

lemma saturating_hides_overflow: "saturating_add (2 ^ 63) (2 ^ 63 + 5) = - 1"
  by (simp add: saturating_add_def)

lemma channel_base_ambiguous: "channel_base ''a:b'' ''c'' = channel_base ''a'' ''b:c''"
  by code_simp

section \<open>Paying for chunks\<close>

lemma canonical_pair_idem: "canonical_pair p1 p2 = (a, b) \<Longrightarrow> canonical_pair a b = (a, b)"
  by (auto simp: canonical_pair_def split: if_splits)

lemma unat_transfer:
  assumes "c \<le> x" "unat x + unat y < 2 ^ 64"
  shows "unat (saturating_sub x c) = unat x - unat c" "unat (saturating_add y c) = unat y + unat c"
proof -
  have le: "unat c \<le> unat x" using assms(1) by (simp add: word_le_nat_alt)
  show "unat (saturating_sub x c) = unat x - unat c"
    using assms(1) by (simp add: saturating_sub_def unat_sub)
  have "unat y + unat c < 2 ^ 64" using le assms(2) by linarith
  then show "unat (saturating_add y c) = unat y + unat c"
    by (simp add: saturating_add_def unat_word_ariths)
qed

text \<open>A settled transfer moves exactly its cost from the leecher to the seeder.\<close>

lemma transfer_pays:
  assumes "settle_chunk_transfer env secs now db seeder leecher count price = Some (db2, Ok ())"
    "keymap_inv (keymap db)" "covered db" "channel_view db (channel_base seeder leecher) = Some v"
    "conserved v" "cv_seq v \<noteq> - 1"
  obtains v' where "channel_view db2 (channel_base seeder leecher) = Some v'" "conserved v'"
    "cv_seq v' = cv_seq v + 1" "cv_capacity v' = cv_capacity v"
    "if leecher \<le> seeder
     then unat (cv_b1 v) = unat (cv_b1 v') + unat (saturating_mul count price) \<and>
          unat (cv_b2 v') = unat (cv_b2 v) + unat (saturating_mul count price)
     else unat (cv_b2 v) = unat (cv_b2 v') + unat (saturating_mul count price) \<and>
          unat (cv_b1 v') = unat (cv_b1 v) + unat (saturating_mul count price)"
proof -
  let ?b = "channel_base seeder leecher" and ?c = "saturating_mul count price"
  obtain snap where s: "channel_snapshot db seeder leecher = Some snap" and v: "v = snapshot_view snap"
    using assms(4) snapshot_is_view [of db seeder leecher] by (cases "channel_snapshot db seeder leecher") auto
  obtain a b where ab: "canonical_pair seeder leecher = (a, b)" by fastforce
  have p: "participant1 (snap_record snap) = a" "participant2 (snap_record snap) = b"
    using s ab by (auto simp: channel_snapshot_def Let_def split: if_splits option.splits)
  have base: "channel_base a b = ?b" using canonical_pair_idem [OF ab] by (simp add: channel_base_def ab)
  have first: "leecher = a \<longleftrightarrow> leecher \<le> seeder" using ab by (auto simp: canonical_pair_def split: if_splits)
  have vb: "cv_b1 v = balance1 snap" "cv_b2 v = balance2 snap" by (simp_all add: v snapshot_view_def)
  have sum: "unat (cv_b1 v) + unat (cv_b2 v) < 2 ^ 64"
    using assms(5) unsigned_less [of "cv_capacity v"] unfolding conserved_def by simp
  let ?x = "if leecher \<le> seeder then saturating_sub (cv_b1 v) ?c else saturating_add (cv_b1 v) ?c"
  let ?y = "if leecher \<le> seeder then saturating_add (cv_b2 v) ?c else saturating_sub (cv_b2 v) ?c"
  have enough: "?c \<le> (if leecher \<le> seeder then cv_b1 v else cv_b2 v)"
    using assms(1) s p first vb by (auto simp: settle_chunk_transfer_def Let_def not_less split: if_splits)
  have "apply_op env secs now (OpUpdate a b ?x ?y) db = Some (db2, Ok ())"
    using assms(1) s p first vb enough
    by (auto simp: settle_chunk_transfer_def Let_def split: if_splits option.splits prod.splits sum.splits)
  from settled_refines(1) [OF this assms(2,3)]
  obtain v' where v': "channel_view db2 ?b = Some v'" "channel_step (OpUpdate a b ?x ?y) (Some v) = Some v'"
    using assms(4,6) by (auto simp: openable_def base)
  then have x: "cv_b1 v' = ?x" "cv_b2 v' = ?y" "cv_seq v' = cv_seq v + 1" "cv_capacity v' = cv_capacity v"
    by (auto split: if_splits)
  have pay: "if leecher \<le> seeder
     then unat (cv_b1 v) = unat (cv_b1 v') + unat ?c \<and> unat (cv_b2 v') = unat (cv_b2 v) + unat ?c
     else unat (cv_b2 v) = unat (cv_b2 v') + unat ?c \<and> unat (cv_b1 v') = unat (cv_b1 v) + unat ?c"
    using enough unat_transfer [of ?c "cv_b1 v" "cv_b2 v"] unat_transfer [of ?c "cv_b2 v" "cv_b1 v"] sum
    by (auto simp: x word_le_nat_alt add.commute)
  then have "conserved v'" using assms(5) x(4) by (auto simp: conserved_def split: if_splits)
  with that [OF v'(1)] x pay show ?thesis by blast
qed

end
