(* ===== verification/Envelope.thy ===== *)
theory Envelope
  imports Protocol_Reads "HOL-Library.Product_Lexorder" "HOL-Library.Option_ord"
begin

text \<open>
  \<^verbatim>\<open>src/pod/envelope.rs\<close>: a value with its query proof, checked by a consumer without the
  database, and the walk over the envelopes it refers to.

  The attestation an envelope may carry is not looked at and has the type \<open>'att\<close>.  The JSON
  text that is hashed is a parameter.  The resolver the caller supplies is a function; the
  recursion is bounded by the depth limit.
\<close>

section \<open>Envelopes\<close>

record EnvelopeRef =
  envelope_hash :: node_hash
  ref_key :: "string option"
  ref_commit_height :: "u64 option"

record ('j, 'att) ProofEnvelope =
  env_version :: u32
  env_key :: string
  env_value :: "'j TypedValue"
  env_backend :: VcBackend
  env_proof :: QueryProof
  env_state_root :: node_hash
  env_commit_height :: u64
  env_witness_sigs :: "(string \<times> string) list"
  env_attestation :: "'att option"
  env_author_puf :: "bytes option"
  env_lean_proof_ref :: "string option"
  upstream_envelopes :: "EnvelopeRef list"
  env_grant_token :: "string option"
  env_created_at :: u64

record EnvelopeVerification =
  version_supported :: bool
  proof_valid :: bool
  backend_consistent :: bool
  witness_count :: nat
  upstream_refs_valid :: bool
  upstream_ref_count :: nat
  soft_verified :: bool
  env_accepted :: bool
  rejection_reason :: "string option"

record ('j, 'att) EnvelopeHashInput =
  hi_domain :: string
  hi_version :: u32
  hi_key :: string
  hi_value :: "'j TypedValue"
  hi_backend :: VcBackend
  hi_proof :: QueryProof
  hi_state_root :: node_hash
  hi_commit_height :: u64
  hi_witness_sigs :: "(string \<times> string) list"
  hi_attestation :: "'att option"
  hi_author_puf :: "bytes option"
  hi_lean_proof_ref :: "string option"
  hi_upstream_hashes :: "string list"

abbreviation ENVELOPE_VERSION :: u32 where
  "ENVELOPE_VERSION \<equiv> 1"

abbreviation "PROVENANCE_HASH_DOMAIN \<equiv> ''nucleusdb.pod.provenance.envelope.v1''"

definition from_query ::
  "('f::field, 'poly, 'srs, 'g, 'p) db_env \<Rightarrow> u64 \<Rightarrow> NucleusDb \<Rightarrow> string \<Rightarrow> nat \<Rightarrow> 'j TypedValue \<Rightarrow>
    ('j, 'att) ProofEnvelope option option" where
  "from_query env now db key idx v =
     (case query env db idx of
        None \<Rightarrow> None
      | Some None \<Rightarrow> Some None
      | Some (Some (raw, p, rt)) \<Rightarrow>
          Some (Some
            \<lparr>env_version = ENVELOPE_VERSION, env_key = key, env_value = v, env_backend = backend db,
             env_proof = p, env_state_root = rt, env_commit_height = of_nat (length (entries db)),
             env_witness_sigs = (if entries db = [] then [] else witness_sigs (last (entries db))),
             env_attestation = None, env_author_puf = None, env_lean_proof_ref = None,
             upstream_envelopes = [], env_grant_token = None, env_created_at = now\<rparr>))"

definition canonical_upstream_refs :: "EnvelopeRef list \<Rightarrow> EnvelopeRef list" where
  "canonical_upstream_refs rs = sort_key (\<lambda>r. (envelope_hash r, ref_key r, ref_commit_height r)) rs"

definition canonical_upstream_hashes :: "EnvelopeRef list \<Rightarrow> string list" where
  "canonical_upstream_hashes rs = map hex_encode (sort (map envelope_hash rs))"

fun validate_upstream_loop :: "node_hash list \<Rightarrow> EnvelopeRef list \<Rightarrow> string + unit" where
  "validate_upstream_loop seen [] = Ok ()"
| "validate_upstream_loop seen (r # rs) =
     (if envelope_hash r = replicate 32 CHR 0x00 then
        Err ''upstream envelope reference contains zero hash''
      else if List.member seen (envelope_hash r) then
        Err (''duplicate upstream envelope reference '' @ hex_encode (envelope_hash r))
      else validate_upstream_loop (envelope_hash r # seen) rs)"

definition validate_upstream_refs :: "EnvelopeRef list \<Rightarrow> string + unit" where
  "validate_upstream_refs rs = validate_upstream_loop [] rs"

definition hash_input :: "('j, 'att) ProofEnvelope \<Rightarrow> ('j, 'att) EnvelopeHashInput" where
  "hash_input e =
     \<lparr>hi_domain = PROVENANCE_HASH_DOMAIN, hi_version = env_version e, hi_key = env_key e,
      hi_value = env_value e, hi_backend = env_backend e, hi_proof = env_proof e,
      hi_state_root = env_state_root e, hi_commit_height = env_commit_height e,
      hi_witness_sigs = env_witness_sigs e, hi_attestation = env_attestation e,
      hi_author_puf = env_author_puf e, hi_lean_proof_ref = env_lean_proof_ref e,
      hi_upstream_hashes = canonical_upstream_hashes (upstream_envelopes e)\<rparr>"

definition provenance_hash ::
  "(bytes \<Rightarrow> node_hash) \<Rightarrow> (('j, 'att) EnvelopeHashInput \<Rightarrow> string + bytes) \<Rightarrow> ('j, 'att) ProofEnvelope \<Rightarrow>
    string + node_hash" where
  "provenance_hash H to_vec e =
     (case to_vec (hash_input e) of
        Inl err \<Rightarrow> Err err
      | Inr encoded \<Rightarrow> Ok (H (PROVENANCE_HASH_DOMAIN @ CHR 0x00 # encoded)))"

definition provenance_hash_hex ::
  "(bytes \<Rightarrow> node_hash) \<Rightarrow> (('j, 'att) EnvelopeHashInput \<Rightarrow> string + bytes) \<Rightarrow> ('j, 'att) ProofEnvelope \<Rightarrow>
    string + string" where
  "provenance_hash_hex H to_vec e = map_sum id hex_encode (provenance_hash H to_vec e)"

definition to_envelope_ref ::
  "(bytes \<Rightarrow> node_hash) \<Rightarrow> (('j, 'att) EnvelopeHashInput \<Rightarrow> string + bytes) \<Rightarrow> ('j, 'att) ProofEnvelope \<Rightarrow>
    string + EnvelopeRef" where
  "to_envelope_ref H to_vec e =
     (case provenance_hash H to_vec e of
        Inl err \<Rightarrow> Err err
      | Inr h \<Rightarrow> Ok \<lparr>envelope_hash = h, ref_key = Some (env_key e),
                     ref_commit_height = Some (env_commit_height e)\<rparr>)"

definition add_upstream_ref :: "('j, 'att) ProofEnvelope \<Rightarrow> EnvelopeRef \<Rightarrow> ('j, 'att) ProofEnvelope" where
  "add_upstream_ref e r =
     (if list_ex (\<lambda>q. envelope_hash q = envelope_hash r) (upstream_envelopes e) then e
      else e\<lparr>upstream_envelopes := canonical_upstream_refs (upstream_envelopes e @ [r])\<rparr>)"

section \<open>Local verification\<close>

text \<open>The check of the proof by kind, and whether it is only a check of the encoding.\<close>

definition check_proof ::
  "(bytes \<Rightarrow> node_hash) \<Rightarrow> 'p ipa_env \<Rightarrow> node_hash \<Rightarrow> QueryProof \<Rightarrow> bool \<times> bool" where
  "check_proof H ipa rt proof =
     (case proof of
        QBinaryMerkle p \<Rightarrow>
          (let ip = \<lparr>ip_leaf_index = of_nat (bm_index p), ip_tree_size = of_nat (bm_tree_size p),
                     ip_leaf_hash = bm_leaf_hash p, ip_path = bm_path p\<rparr>
           in if bm_tree_size p = 0 then (rt = merkle_tree_hash H [], False)
              else (verify_inclusion_proof H ip rt, False))
      | QIpa p \<Rightarrow>
          (let c = ipa_commit ipa (ipa_vector p)
           in (ipa_digest ipa c = rt \<and> ipa_verify ipa c (ipa_index p) (ipa_value p) p, False))
      | QKzg p \<Rightarrow>
          (length (kp_proof_encoded p) = 48 \<and> list_ex (\<lambda>b. b \<noteq> CHR 0x00) (kp_proof_encoded p), True))"

definition backend_matches :: "VcBackend \<Rightarrow> QueryProof \<Rightarrow> bool" where
  "backend_matches b proof =
     (case (b, proof) of
        (Ipa, QIpa _) \<Rightarrow> True
      | (Kzg, QKzg _) \<Rightarrow> True
      | (BinaryMerkle, QBinaryMerkle _) \<Rightarrow> True
      | _ \<Rightarrow> False)"

definition verify_locally ::
  "(bytes \<Rightarrow> node_hash) \<Rightarrow> 'p ipa_env \<Rightarrow> ('j, 'att) ProofEnvelope \<Rightarrow> EnvelopeVerification" where
  "verify_locally H ipa e =
     (let refs = upstream_envelopes e;
          validation = validate_upstream_refs refs;
          failed = (\<lambda>sup reason. \<lparr>version_supported = sup, proof_valid = False, backend_consistent = False,
             witness_count = length (env_witness_sigs e), upstream_refs_valid = is_ok validation,
             upstream_ref_count = length refs, soft_verified = False, env_accepted = False,
             rejection_reason = Some reason\<rparr>)
      in if env_version e \<noteq> ENVELOPE_VERSION then
           failed False (''unsupported envelope version '' @ dec (unat (env_version e)))
         else if \<not> backend_matches (env_backend e) (env_proof e) then
           failed True ''backend tag does not match proof variant''
         else
           let (valid, soft) = check_proof H ipa (env_state_root e) (env_proof e)
           in \<lparr>version_supported = True, proof_valid = valid, backend_consistent = True,
               witness_count = length (env_witness_sigs e), upstream_refs_valid = is_ok validation,
               upstream_ref_count = length refs, soft_verified = soft,
               env_accepted = (valid \<and> is_ok validation),
               rejection_reason =
                 (if \<not> valid then
                    (if soft then Some ''kzg soft verification failed basic encoding checks''
                     else Some ''cryptographic proof verification failed'')
                  else (case validation of Inl r \<Rightarrow> Some r | Inr _ \<Rightarrow> None))\<rparr>)"

section \<open>The provenance walk\<close>

record ProvenanceDagVerifyOptions =
  max_depth :: nat
  max_nodes :: nat
  fail_fast_on_hash_mismatch :: bool

definition default_dag_options :: ProvenanceDagVerifyOptions where
  "default_dag_options = \<lparr>max_depth = 64, max_nodes = 10000, fail_fast_on_hash_mismatch = False\<rparr>"

record DagWalkState =
  upstream_edges :: nat
  max_depth_reached :: nat
  missing_refs :: nat
  hash_mismatches :: nat
  invalid_nodes :: nat
  cycle_detected :: bool
  depth_limit_exceeded :: bool
  nodes_limit_exceeded :: bool
  stop_walk :: bool

record ProvenanceDagVerification =
  pd_root_hash :: string
  pd_root_accepted :: bool
  pd_visited_nodes :: nat
  pd_stats :: DagWalkState
  pd_accepted :: bool

text \<open>
  What the walk reads of an envelope: its own hash, whether it is accepted, and the hashes it
  refers to, in canonical order.
\<close>

record node_view =
  nv_hash :: "string + node_hash"
  nv_accepted :: bool
  nv_edges :: "node_hash list"

definition view_of ::
  "(bytes \<Rightarrow> node_hash) \<Rightarrow> 'p ipa_env \<Rightarrow> (('j, 'att) EnvelopeHashInput \<Rightarrow> string + bytes) \<Rightarrow>
    ('j, 'att) ProofEnvelope \<Rightarrow> node_view" where
  "view_of H ipa to_vec e =
     \<lparr>nv_hash = provenance_hash H to_vec e, nv_accepted = env_accepted (verify_locally H ipa e),
      nv_edges = map envelope_hash (canonical_upstream_refs (upstream_envelopes e))\<rparr>"

text \<open>The set of visited hashes is a list without repetitions; the path is passed downwards.\<close>

function walk_provenance_ref ::
  "(node_hash \<Rightarrow> node_view option) \<Rightarrow> ProvenanceDagVerifyOptions \<Rightarrow> nat \<Rightarrow> node_hash \<Rightarrow> node_hash list \<Rightarrow>
    node_hash list \<Rightarrow> DagWalkState \<Rightarrow> string + node_hash list \<times> DagWalkState"
and walk_provenance_refs ::
  "(node_hash \<Rightarrow> node_view option) \<Rightarrow> ProvenanceDagVerifyOptions \<Rightarrow> nat \<Rightarrow> node_hash list \<Rightarrow> node_hash list \<Rightarrow>
    node_hash list \<Rightarrow> DagWalkState \<Rightarrow> string + node_hash list \<times> DagWalkState" where
  "walk_provenance_ref resolve opts depth h path visited st =
     (if stop_walk st then Ok (visited, st)
      else if max_depth opts < depth then
        Ok (visited, st\<lparr>depth_limit_exceeded := True, stop_walk := True\<rparr>)
      else
        let st1 = st\<lparr>max_depth_reached := max (max_depth_reached st) depth\<rparr>
        in if List.member path h then Ok (visited, st1\<lparr>cycle_detected := True\<rparr>)
           else if List.member visited h then Ok (visited, st1)
           else if max_nodes opts < length (h # visited) then
             Ok (h # visited, st1\<lparr>nodes_limit_exceeded := True, stop_walk := True\<rparr>)
           else
             (case resolve h of
                None \<Rightarrow> Ok (h # visited, st1\<lparr>missing_refs := missing_refs st1 + 1\<rparr>)
              | Some e \<Rightarrow>
                  (case nv_hash e of
                     Inl err \<Rightarrow> Err err
                   | Inr actual \<Rightarrow>
                       let st2 = (if actual \<noteq> h then st1\<lparr>hash_mismatches := hash_mismatches st1 + 1\<rparr> else st1)
                       in if actual \<noteq> h \<and> fail_fast_on_hash_mismatch opts then
                            Ok (h # visited, st2\<lparr>stop_walk := True\<rparr>)
                          else
                            let st3 = (if \<not> nv_accepted e then st2\<lparr>invalid_nodes := invalid_nodes st2 + 1\<rparr> else st2);
                                st4 = st3\<lparr>upstream_edges := upstream_edges st3 + length (nv_edges e)\<rparr>
                            in walk_provenance_refs resolve opts (Suc depth) (nv_edges e) (path @ [h])
                                 (h # visited) st4)))"
| "walk_provenance_refs resolve opts depth [] path visited st = Ok (visited, st)"
| "walk_provenance_refs resolve opts depth (h # hs) path visited st =
     (if stop_walk st then Ok (visited, st)
      else (case walk_provenance_ref resolve opts depth h path visited st of
              Inl err \<Rightarrow> Err err
            | Inr (visited', st') \<Rightarrow> walk_provenance_refs resolve opts depth hs path visited' st'))"
  by pat_completeness auto
termination
  by (relation "inv_image (less_than <*lex*> less_than) (\<lambda>x. case x of
      Inl (r, opts, d, h, p, v, s) \<Rightarrow> (Suc (max_depth opts) - d, 0)
    | Inr (r, opts, d, hs, p, v, s) \<Rightarrow> (Suc (max_depth opts) - d, Suc (length hs)))") auto

declare walk_provenance_ref.simps [simp del]

definition verify_provenance_dag_with_options ::
  "(bytes \<Rightarrow> node_hash) \<Rightarrow> 'p ipa_env \<Rightarrow> (('j, 'att) EnvelopeHashInput \<Rightarrow> string + bytes) \<Rightarrow>
    ('j, 'att) ProofEnvelope \<Rightarrow> (node_hash \<Rightarrow> ('j, 'att) ProofEnvelope option) \<Rightarrow>
    ProvenanceDagVerifyOptions \<Rightarrow> string + ProvenanceDagVerification" where
  "verify_provenance_dag_with_options H ipa to_vec e resolve opts =
     (case provenance_hash H to_vec e of
        Inl err \<Rightarrow> Err err
      | Inr rh \<Rightarrow>
          let root_accepted = env_accepted (verify_locally H ipa e);
              st0 = \<lparr>upstream_edges = length (upstream_envelopes e), max_depth_reached = 0, missing_refs = 0,
                     hash_mismatches = 0, invalid_nodes = 0, cycle_detected = False,
                     depth_limit_exceeded = False, nodes_limit_exceeded = False, stop_walk = False\<rparr>
          in case walk_provenance_refs (\<lambda>h. map_option (view_of H ipa to_vec) (resolve h)) opts 1
                    (map envelope_hash (canonical_upstream_refs (upstream_envelopes e))) [rh] [] st0 of
               Inl err \<Rightarrow> Err err
             | Inr (visited, st) \<Rightarrow>
                 Ok \<lparr>pd_root_hash = hex_encode rh, pd_root_accepted = root_accepted,
                     pd_visited_nodes = length visited + 1, pd_stats = st,
                     pd_accepted = (root_accepted \<and> missing_refs st = 0 \<and> hash_mismatches st = 0 \<and>
                       invalid_nodes st = 0 \<and> \<not> cycle_detected st \<and> \<not> depth_limit_exceeded st \<and>
                       \<not> nodes_limit_exceeded st)\<rparr>)"

definition verify_provenance_dag ::
  "(bytes \<Rightarrow> node_hash) \<Rightarrow> 'p ipa_env \<Rightarrow> (('j, 'att) EnvelopeHashInput \<Rightarrow> string + bytes) \<Rightarrow>
    ('j, 'att) ProofEnvelope \<Rightarrow> (node_hash \<Rightarrow> ('j, 'att) ProofEnvelope option) \<Rightarrow> nat \<Rightarrow>
    string + ProvenanceDagVerification" where
  "verify_provenance_dag H ipa to_vec e resolve depth =
     verify_provenance_dag_with_options H ipa to_vec e resolve (default_dag_options\<lparr>max_depth := depth\<rparr>)"

section \<open>What local verification shows\<close>

text \<open>Neither the value nor its key takes part in the check.\<close>

lemma verify_ignores_value: "verify_locally H ipa (e\<lparr>env_key := k, env_value := v\<rparr>) = verify_locally H ipa e"
  by (simp add: verify_locally_def Let_def)

lemma check_query_proof:
  assumes "query env db idx = Some (Some (v, p, rt))" "length (st_values (state db)) < 2 ^ 64"
    "backend db \<noteq> Kzg"
  shows "check_proof (env_sha256 env) (env_ipa env) rt p = (True, False)" "backend_matches (backend db) p"
proof -
  have q: "verify_query env db idx v p rt = Some True"
    using query_verifies [OF assms(1,2)] assms(3) by blast
  have r: "\<exists>vec. materialize (state db) = vec \<and> state_root_for env db vec = Some rt"
    using assms(1) by (auto simp: query_def Let_def split: if_splits option.splits VcBackend.splits sum.splits)
  show "check_proof (env_sha256 env) (env_ipa env) rt p = (True, False)"
  proof (cases "backend db")
    case Ipa
    then obtain vec where v: "p = QIpa (ipa_open vec idx)" "vec = materialize (state db)"
      using assms(1) by (auto simp: query_def Let_def split: if_splits option.splits)
    then show ?thesis
      using q Ipa r by (auto simp: check_proof_def verify_query_def ipa_verify_def Let_def ipa_open_def
          split: option.splits if_splits)
  next
    case BinaryMerkle
    then obtain vec where v: "p = QBinaryMerkle (bm_open (env_sha256 env) vec idx)" "vec = materialize (state db)"
      using assms(1) by (auto simp: query_def Let_def split: if_splits option.splits)
    then show ?thesis
      using q BinaryMerkle r
      by (auto simp: check_proof_def verify_query_def Let_def bm_verify_def bm_digest_def
          split: option.splits if_splits)
  qed (use assms(3) in simp)
  show "backend_matches (backend db) p"
    using assms(1,3)
    by (auto simp: query_def backend_matches_def Let_def split: if_splits option.splits VcBackend.splits)
qed

lemma from_query_accepted:
  assumes "from_query env now db key idx v = Some (Some e)" "length (st_values (state db)) < 2 ^ 64"
    "backend db \<noteq> Kzg"
  shows "env_accepted (verify_locally (env_sha256 env) (env_ipa env) e)"
proof -
  obtain raw p rt where q: "query env db idx = Some (Some (raw, p, rt))"
    and e: "env_version e = ENVELOPE_VERSION" "env_backend e = backend db" "env_proof e = p"
      "env_state_root e = rt" "upstream_envelopes e = []"
    using assms(1) by (auto simp: from_query_def split: option.splits)
  show ?thesis
    using check_query_proof [OF q assms(2,3)]
    by (simp add: verify_locally_def e validate_upstream_refs_def Let_def)
qed

section \<open>What an accepted walk shows\<close>

definition clean :: "DagWalkState \<Rightarrow> bool" where
  "clean st \<longleftrightarrow> missing_refs st = 0 \<and> hash_mismatches st = 0 \<and> invalid_nodes st = 0 \<and>
     \<not> cycle_detected st \<and> \<not> depth_limit_exceeded st \<and> \<not> nodes_limit_exceeded st"

text \<open>A node that is in order, and a set of such nodes that is closed and has no cycle.\<close>

definition good_node :: "(node_hash \<Rightarrow> node_view option) \<Rightarrow> node_hash \<Rightarrow> bool" where
  "good_node resolve h \<longleftrightarrow> (\<exists>e. resolve h = Some e \<and> nv_hash e = Ok h \<and> nv_accepted e)"

definition edges_of :: "(node_hash \<Rightarrow> node_view option) \<Rightarrow> node_hash \<Rightarrow> node_hash list" where
  "edges_of resolve h = (case resolve h of None \<Rightarrow> [] | Some e \<Rightarrow> nv_edges e)"

definition dag :: "(node_hash \<Rightarrow> node_view option) \<Rightarrow> node_hash set \<Rightarrow> bool" where
  "dag resolve F \<longleftrightarrow>
     (\<exists>rank :: node_hash \<Rightarrow> nat. \<forall>h \<in> F. good_node resolve h \<and>
        (\<forall>h' \<in> set (edges_of resolve h). h' \<in> F \<and> rank h' < rank h))"

lemma dag_insert:
  assumes "dag resolve F" "h \<notin> F" "good_node resolve h" "set (edges_of resolve h) \<subseteq> F"
  shows "dag resolve (insert h F)"
proof -
  obtain rank :: "node_hash \<Rightarrow> nat" where r: "\<And>x. x \<in> F \<Longrightarrow> good_node resolve x"
    "\<And>x y. x \<in> F \<Longrightarrow> y \<in> set (edges_of resolve x) \<Longrightarrow> y \<in> F \<and> rank y < rank x"
    using assms(1) unfolding dag_def by blast
  let ?m = "Suc (Max (insert 0 (rank ` set (edges_of resolve h))))"
  have top: "rank y < ?m" if "y \<in> set (edges_of resolve h)" for y
    using that by (simp add: less_Suc_eq_le)
  have "good_node resolve x \<and> (\<forall>y \<in> set (edges_of resolve x). y \<in> insert h F \<and> (rank(h := ?m)) y < (rank(h := ?m)) x)"
    if "x \<in> insert h F" for x
    using that r assms(2-4) top by (cases "x = h") auto
  then show ?thesis unfolding dag_def by blast
qed

text \<open>
  The invariant of the walk: as long as nothing was reported, the visited hashes off the
  current path form a closed set without cycles.
\<close>

lemma walk_ref_clean_cases:
  assumes "walk_provenance_ref resolve opts depth h path visited st = Ok (visited', st')" "clean st'"
    "stop_walk st \<longrightarrow> \<not> clean st"
  obtains (seen) "h \<in> set visited" "h \<notin> set path" "visited' = visited" "clean st" "\<not> stop_walk st'"
  | (descend) e st4 where "resolve h = Some e" "depth \<le> max_depth opts" "h \<notin> set path" "h \<notin> set visited" "\<not> stop_walk st4"
      "walk_provenance_refs resolve opts (Suc depth) (nv_edges e) (path @ [h]) (h # visited) st4 = Ok (visited', st')"
      "clean st4 \<Longrightarrow> clean st \<and> nv_hash e = Ok h \<and> nv_accepted e"
proof (cases "h \<in> set visited \<or> h \<in> set path \<or> stop_walk st \<or> max_depth opts < depth")
  case True
  then have "h \<in> set visited \<and> h \<notin> set path \<and> visited' = visited \<and> clean st \<and> \<not> stop_walk st'"
    using assms unfolding walk_provenance_ref.simps [of resolve opts depth h path visited st]
    by (auto simp: clean_def Let_def List.member_iff split: if_splits)
  then show ?thesis using seen by blast
next
  case False
  then obtain e actual where e: "resolve h = Some e" "nv_hash e = Ok actual" "\<not> (actual \<noteq> h \<and> fail_fast_on_hash_mismatch opts)"
    using assms unfolding walk_provenance_ref.simps [of resolve opts depth h path visited st]
    by (auto simp: clean_def Let_def List.member_iff split: if_splits option.splits sum.splits)
  let ?st1 = "st\<lparr>max_depth_reached := max (max_depth_reached st) depth\<rparr>"
  let ?st2 = "if actual \<noteq> h then ?st1\<lparr>hash_mismatches := hash_mismatches ?st1 + 1\<rparr> else ?st1"
  let ?st3 = "if \<not> nv_accepted e then ?st2\<lparr>invalid_nodes := invalid_nodes ?st2 + 1\<rparr> else ?st2"
  let ?st4 = "?st3\<lparr>upstream_edges := upstream_edges ?st3 + length (nv_edges e)\<rparr>"
  have "walk_provenance_refs resolve opts (Suc depth) (nv_edges e) (path @ [h]) (h # visited) ?st4 = Ok (visited', st')"
    using assms False e unfolding walk_provenance_ref.simps [of resolve opts depth h path visited st]
    by (auto simp: clean_def Let_def List.member_iff split: if_splits)
  moreover have "clean ?st4 \<Longrightarrow> clean st \<and> nv_hash e = Ok h \<and> nv_accepted e"
    using e(2) by (auto simp: clean_def split: if_splits)
  moreover have "\<not> stop_walk ?st4" "depth \<le> max_depth opts" using False by simp_all
  ultimately show ?thesis using descend e(1) False by blast
qed

definition walk_inv ::
  "(node_hash \<Rightarrow> node_view option) \<Rightarrow> node_hash list \<Rightarrow> node_hash set \<Rightarrow> node_hash list \<Rightarrow> DagWalkState \<Rightarrow>
    node_hash list \<Rightarrow> DagWalkState \<Rightarrow> bool" where
  "walk_inv resolve path hs visited st visited' st' \<longleftrightarrow>
     clean st \<and> \<not> stop_walk st' \<and> set visited \<subseteq> set visited' \<and> hs \<subseteq> set visited' - set path \<and>
     (dag resolve (set visited - set path) \<longrightarrow> dag resolve (set visited' - set path))"

lemma walk_ref_inv:
  assumes "walk_provenance_ref resolve opts depth h path visited st = Ok (visited', st')" "clean st'"
    "stop_walk st \<longrightarrow> \<not> clean st"
    "\<And>(e :: node_view) st4. depth \<le> max_depth opts \<Longrightarrow> \<not> stop_walk st4 \<Longrightarrow>
      walk_provenance_refs resolve opts (Suc depth) (nv_edges e) (path @ [h]) (h # visited) st4 = Ok (visited', st') \<Longrightarrow>
      walk_inv resolve (path @ [h]) (set (nv_edges e)) (h # visited) st4 visited' st'"
  shows "walk_inv resolve path {h} visited st visited' st'"
  using assms(1-3)
proof (cases rule: walk_ref_clean_cases)
  case seen
  then show ?thesis by (simp add: walk_inv_def)
next
  case (descend e st4)
  have i: "walk_inv resolve (path @ [h]) (set (nv_edges e)) (h # visited) st4 visited' st'"
    by (rule assms(4) [OF descend(2,5,6)])
  then have ok: "clean st" "nv_hash e = Ok h" "nv_accepted e" using descend(7) by (auto simp: walk_inv_def)
  have off: "set (h # visited) - set (path @ [h]) = set visited - set path"
    using descend(4) by auto
  have on: "set visited' - set path = insert h (set visited' - set (path @ [h]))"
    using i descend(3) by (auto simp: walk_inv_def)
  have "dag resolve (set visited' - set path)" if "dag resolve (set visited - set path)"
    unfolding on
  proof (rule dag_insert)
    show "dag resolve (set visited' - set (path @ [h]))" using i that off by (simp add: walk_inv_def)
    show "good_node resolve h" using ok descend(1) by (auto simp: good_node_def)
    show "set (edges_of resolve h) \<subseteq> set visited' - set (path @ [h])"
      using i descend(1) by (simp add: walk_inv_def edges_of_def)
  qed simp
  then show ?thesis using i ok descend(3) by (auto simp: walk_inv_def)
qed

lemma walk_refs_inv:
  assumes "walk_provenance_refs resolve opts depth hs path visited st = Ok (visited', st')" "clean st'"
    "stop_walk st \<longrightarrow> \<not> clean st"
  shows "walk_inv resolve path (set hs) visited st visited' st'"
  using assms
proof (induction "Suc (max_depth opts) - depth" arbitrary: depth hs path visited st visited' st' rule: less_induct)
  case less
  from less.prems show ?case
  proof (induction hs arbitrary: visited st)
    case Nil
    then show ?case by (auto simp: walk_inv_def)
  next
    case (Cons h hs)
    then have "\<not> stop_walk st" by auto
    then obtain v1 s1 where w: "walk_provenance_ref resolve opts depth h path visited st = Ok (v1, s1)"
      "walk_provenance_refs resolve opts depth hs path v1 s1 = Ok (visited', st')"
      using Cons.prems(1) by (auto split: sum.splits)
    have r: "walk_inv resolve path {h} visited st v1 s1" if c: "clean s1"
      using w(1) c
    proof (rule walk_ref_inv)
      fix e :: node_view and st4
      assume "depth \<le> max_depth opts" "\<not> stop_walk st4"
        "walk_provenance_refs resolve opts (Suc depth) (nv_edges e) (path @ [h]) (h # visited) st4 = Ok (v1, s1)"
      then show "walk_inv resolve (path @ [h]) (set (nv_edges e)) (h # visited) st4 v1 s1"
        using c by (intro less.hyps [of "Suc depth"]) auto
    qed (use \<open>\<not> stop_walk st\<close> in simp)
    then have "walk_inv resolve path (set hs) v1 s1 visited' st'"
      by (intro Cons.IH [OF w(2) Cons.prems(2)]) (auto simp: walk_inv_def)
    then show ?case using r by (auto simp: walk_inv_def)
  qed
qed

text \<open>The envelopes reached from a root through references.\<close>

inductive upstream :: "(node_hash \<Rightarrow> ('j, 'att) ProofEnvelope option) \<Rightarrow> ('j, 'att) ProofEnvelope \<Rightarrow> node_hash \<Rightarrow> bool"
  for resolve e0 where
  upstream_root: "r \<in> set (upstream_envelopes e0) \<Longrightarrow> upstream resolve e0 (envelope_hash r)"
| upstream_step: "upstream resolve e0 h \<Longrightarrow> resolve h = Some e \<Longrightarrow> r \<in> set (upstream_envelopes e) \<Longrightarrow>
    upstream resolve e0 (envelope_hash r)"

lemma set_canonical_refs [simp]: "set (canonical_upstream_refs rs) = set rs"
  by (simp add: canonical_upstream_refs_def)

lemma dag_upstream:
  assumes "dag (\<lambda>h. map_option (view_of H ipa to_vec) (resolve h)) F"
    "envelope_hash ` set (upstream_envelopes e0) \<subseteq> F" "upstream resolve e0 h"
  shows "h \<in> F"
  using assms(3)
proof induction
  case (upstream_root r)
  then show ?case using assms(2) by auto
next
  case (upstream_step h e r)
  then have "envelope_hash r \<in> set (edges_of (\<lambda>h. map_option (view_of H ipa to_vec) (resolve h)) h)"
    by (simp add: edges_of_def view_of_def)
  then show ?case using assms(1) upstream_step by (auto simp: dag_def)
qed

lemma accepted_walk_dag:
  assumes "verify_provenance_dag_with_options H ipa to_vec e resolve opts = Ok v" "pd_accepted v"
  obtains F rh where "provenance_hash H to_vec e = Ok rh" "rh \<notin> F" "env_accepted (verify_locally H ipa e)"
    "dag (\<lambda>h. map_option (view_of H ipa to_vec) (resolve h)) F"
    "envelope_hash ` set (upstream_envelopes e) \<subseteq> F"
proof -
  let ?view = "\<lambda>h. map_option (view_of H ipa to_vec) (resolve h)"
  let ?st0 = "\<lparr>upstream_edges = length (upstream_envelopes e), max_depth_reached = 0, missing_refs = 0,
    hash_mismatches = 0, invalid_nodes = 0, cycle_detected = False, depth_limit_exceeded = False,
    nodes_limit_exceeded = False, stop_walk = False\<rparr>"
  obtain rh visited st where w: "provenance_hash H to_vec e = Ok rh" "clean st"
    "walk_provenance_refs ?view opts 1 (map envelope_hash (canonical_upstream_refs (upstream_envelopes e))) [rh] [] ?st0
      = Ok (visited, st)" "env_accepted (verify_locally H ipa e)"
    using assms
    by (auto simp: verify_provenance_dag_with_options_def clean_def Let_def split: sum.splits)
  have "walk_inv ?view [rh] (set (map envelope_hash (canonical_upstream_refs (upstream_envelopes e)))) [] ?st0 visited st"
    by (rule walk_refs_inv [OF w(3,2)]) simp
  then have "dag ?view (set visited - {rh})" "envelope_hash ` set (upstream_envelopes e) \<subseteq> set visited - {rh}"
    by (auto simp: walk_inv_def dag_def)
  then show ?thesis using that [of rh "set visited - {rh}"] w(1,4) by simp
qed

text \<open>No envelope is upstream of itself.\<close>

lemma accepted_no_cycle:
  assumes "dag (\<lambda>h. map_option (view_of H ipa to_vec) (resolve h)) F" "h \<in> F" "resolve h = Some e"
    "upstream resolve e h'"
  shows "h' \<noteq> h \<and> h' \<in> F"
proof -
  let ?view = "\<lambda>h. map_option (view_of H ipa to_vec) (resolve h)"
  obtain rank :: "node_hash \<Rightarrow> nat" where r: "\<And>x y. x \<in> F \<Longrightarrow> y \<in> set (edges_of ?view x) \<Longrightarrow> y \<in> F \<and> rank y < rank x"
    using assms(1) unfolding dag_def by blast
  have edge: "q \<in> set (upstream_envelopes d) \<Longrightarrow> resolve x = Some d \<Longrightarrow> envelope_hash q \<in> set (edges_of ?view x)" for q d x
    by (simp add: edges_of_def view_of_def)
  have "h' \<in> F \<and> rank h' < rank h"
    using assms(4)
  proof induction
    case (upstream_root q)
    then show ?case using r assms(2) edge [OF upstream_root assms(3)] by blast
  next
    case (upstream_step x d q)
    then show ?case using r edge [OF upstream_step(3,2)] by fastforce
  qed
  then show ?thesis by auto
qed

end
