(* ===== verification/Chunks.thy ===== *)
theory Chunks
  imports Envelope Access "HOL-Library.Multiset"
begin

text \<open>
  The swarm's content-addressed chunks: \<^verbatim>\<open>src/swarm/types.rs\<close>, \<^verbatim>\<open>src/swarm/chunk_engine.rs\<close>,
  the manifests of \<^verbatim>\<open>src/swarm/manifest.rs\<close> and the exchange of \<^verbatim>\<open>src/swarm/bitswap.rs\<close>.

  BLAKE3 is a parameter, a function to 32 bytes; identifiers are its hexadecimal text.  The
  JSON text of messages is a parameter.  Peers are named by the text of their identifier.
\<close>

section \<open>Identifiers and chunks\<close>

type_synonym chunk_id = string
type_synonym manifest_id = string

definition is_ascii_hexdigit :: "char \<Rightarrow> bool" where
  "is_ascii_hexdigit c \<longleftrightarrow> code c \<in> {48..57} \<or> code c \<in> {65..70} \<or> code c \<in> {97..102}"

definition is_valid_hex_32 :: "string \<Rightarrow> bool" where
  "is_valid_hex_32 s \<longleftrightarrow> length s = 64 \<and> list_all is_ascii_hexdigit s"

definition chunk_id_new :: "string \<Rightarrow> string + chunk_id" where
  "chunk_id_new hex =
     (let v = to_ascii_lowercase hex
      in if \<not> is_valid_hex_32 v then Err ''chunk id must be 64 hex chars'' else Ok v)"

definition chunk_id_from_bytes :: "(bytes \<Rightarrow> bytes) \<Rightarrow> bytes \<Rightarrow> chunk_id" where
  "chunk_id_from_bytes B data = hex_encode (B data)"

definition manifest_id_new :: "string \<Rightarrow> string + manifest_id" where
  "manifest_id_new hex =
     (let v = to_ascii_lowercase hex
      in if \<not> is_valid_hex_32 v then Err ''manifest id must be 64 hex chars'' else Ok v)"

definition manifest_id_from_bytes :: "(bytes \<Rightarrow> bytes) \<Rightarrow> bytes \<Rightarrow> manifest_id" where
  "manifest_id_from_bytes B data = hex_encode (B data)"

datatype AssetType = BinaryAsset | TextAsset | Model | Dataset | ContainerLayer | OtherAsset

record Chunk =
  ck_id :: chunk_id
  ck_index :: u32
  ck_total :: u32
  ck_size :: nat
  ck_data :: bytes

definition chunk_new :: "(bytes \<Rightarrow> bytes) \<Rightarrow> u32 \<Rightarrow> u32 \<Rightarrow> bytes \<Rightarrow> Chunk" where
  "chunk_new B index tot data =
     \<lparr>ck_id = chunk_id_from_bytes B data, ck_index = index, ck_total = tot, ck_size = length data,
      ck_data = data\<rparr>"

record ChunkParams =
  chunk_size_bytes :: nat

definition DEFAULT_CHUNK_SIZE :: nat where
  "DEFAULT_CHUNK_SIZE = 256 * 1024"

section \<open>Cutting and joining\<close>

text \<open>\<^verbatim>\<open>slice::chunks\<close>, for a positive size.\<close>

function pieces :: "nat \<Rightarrow> 'a list \<Rightarrow> 'a list list" where
  "pieces n xs = (if xs = [] \<or> n = 0 then [] else take n xs # pieces n (drop n xs))"
  by pat_completeness auto
termination
  by (relation "measure (\<lambda>(n, xs). length xs)") auto

declare pieces.simps [simp del]

definition div_ceil :: "nat \<Rightarrow> nat \<Rightarrow> nat" where
  "div_ceil a b = (if a mod b > 0 then a div b + 1 else a div b)"

definition chunk_data :: "(bytes \<Rightarrow> bytes) \<Rightarrow> bytes \<Rightarrow> ChunkParams \<Rightarrow> Chunk list" where
  "chunk_data B data params =
     (if data = [] then [chunk_new B 0 1 []]
      else let n = max (chunk_size_bytes params) 1;
               tot = of_nat (div_ceil (length data) n)
           in map (\<lambda>(i, piece). chunk_new B (of_nat i) tot piece) (enumerate 0 (pieces n data)))"

definition verify_chunk :: "(bytes \<Rightarrow> bytes) \<Rightarrow> Chunk \<Rightarrow> bool" where
  "verify_chunk B c \<longleftrightarrow> ck_id c = chunk_id_from_bytes B (ck_data c) \<and> ck_size c = length (ck_data c)"

fun reassemble_loop :: "(bytes \<Rightarrow> bytes) \<Rightarrow> u32 \<Rightarrow> (nat \<times> Chunk) list \<Rightarrow> string + unit" where
  "reassemble_loop B tot [] = Ok ()"
| "reassemble_loop B tot ((expected, c) # rest) =
     (if \<not> verify_chunk B c then Err (''chunk '' @ dec (unat (ck_index c)) @ '' failed verification'')
      else if ck_index c \<noteq> of_nat expected then Err ''chunk ordering is incomplete''
      else if ck_total c \<noteq> tot then Err ''chunk set disagrees on total_chunks''
      else reassemble_loop B tot rest)"

definition reassemble_chunks :: "(bytes \<Rightarrow> bytes) \<Rightarrow> Chunk list \<Rightarrow> string + bytes" where
  "reassemble_chunks B cs =
     (if cs = [] then Ok []
      else let tot = ck_total (hd cs);
               ordered = sort_key ck_index cs
           in if length ordered \<noteq> unat tot then Err ''missing chunks for reassembly''
              else (case reassemble_loop B tot (enumerate 0 ordered) of
                      Inl e \<Rightarrow> Err e
                    | Inr _ \<Rightarrow> Ok (concat (map ck_data ordered))))"

section \<open>Manifests\<close>

record ('j, 'att) Manifest =
  man_id :: manifest_id
  man_root_hash :: string
  chunk_hashes :: "chunk_id list"
  total_size :: nat
  asset_type :: AssetType
  creator_did :: string
  man_created_at :: u64
  man_proof :: "('j, 'att) ProofEnvelope option"

record ManifestBuilder =
  mb_asset_type :: AssetType
  mb_creator_did :: string
  mb_params :: ChunkParams

record ManifestVerification =
  root_hash_valid :: bool
  man_proof_valid :: bool
  chunk_count :: nat
  man_accepted :: bool

definition compute_root_hash :: "(bytes \<Rightarrow> bytes) \<Rightarrow> chunk_id list \<Rightarrow> string" where
  "compute_root_hash B ids = hex_encode (B (concat (map (\<lambda>i. i @ ''|'') ids)))"

definition build_manifest ::
  "(bytes \<Rightarrow> bytes) \<Rightarrow> u64 \<Rightarrow> ManifestBuilder \<Rightarrow> Chunk list \<Rightarrow> string + ('j, 'att) Manifest" where
  "build_manifest B now b cs =
     (if cs = [] then Err ''manifest requires at least one chunk''
      else let max_chunk_size = max (chunk_size_bytes (mb_params b)) 1 in
        if list_ex (\<lambda>c. ck_size c > max_chunk_size) cs then Err ''chunk exceeds manifest chunk size policy''
        else let hashes = map ck_id cs;
                 rh = compute_root_hash B hashes
             in Ok \<lparr>man_id = manifest_id_from_bytes B rh, man_root_hash = rh, chunk_hashes = hashes,
                    total_size = sum_list (map ck_size cs), asset_type = mb_asset_type b,
                    creator_did = mb_creator_did b, man_created_at = now, man_proof = None\<rparr>)"

definition verify_manifest ::
  "(bytes \<Rightarrow> node_hash) \<Rightarrow> 'p ipa_env \<Rightarrow> (bytes \<Rightarrow> bytes) \<Rightarrow> ('j, 'att) Manifest \<Rightarrow> Chunk list \<Rightarrow>
    ManifestVerification" where
  "verify_manifest H ipa B m cs =
     (let ordered = sort_key ck_index cs;
          sequence_valid = (length ordered = length (chunk_hashes m) \<and>
            list_all (\<lambda>(expected, c). ck_index c = of_nat expected \<and> verify_chunk B c) (enumerate 0 ordered));
          hashes = map (\<lambda>c. chunk_id_from_bytes B (ck_data c)) ordered;
          rvalid = (sequence_valid \<and> hashes = chunk_hashes m \<and> compute_root_hash B hashes = man_root_hash m);
          pvalid = (case man_proof m of Some e \<Rightarrow> env_accepted (verify_locally H ipa e) | None \<Rightarrow> False)
      in \<lparr>root_hash_valid = rvalid, man_proof_valid = pvalid, chunk_count = length (chunk_hashes m),
          man_accepted = (rvalid \<and> (man_proof m = None \<or> pvalid))\<rparr>)"

definition man_db_key :: "('j, 'att) Manifest \<Rightarrow> string" where
  "man_db_key m = ''swarm/manifest/'' @ man_id m"

definition proof_db_key :: "('j, 'att) Manifest \<Rightarrow> string" where
  "proof_db_key m = ''swarm/manifest-proof/'' @ man_id m"

section \<open>Exchange\<close>

datatype BitswapMessage =
    Want "chunk_id list"
  | Have "chunk_id list"
  | Block chunk_id bytes

record BitswapRuntime =
  local_chunks :: "(chunk_id, Chunk) btree_map"
  peer_inventory :: "(string, chunk_id list) btree_map"
  peer_aliases :: "(string, bytes) btree_map"
  rt_grants :: GrantStore
  require_grants :: bool
  active_transfers :: nat

definition bitswap_default :: BitswapRuntime where
  "bitswap_default = \<lparr>local_chunks = [], peer_inventory = [], peer_aliases = [], rt_grants = grant_store_new,
     require_grants = False, active_transfers = 0\<rparr>"

definition MAX_BITSWAP_MSG_SIZE :: nat where
  "MAX_BITSWAP_MSG_SIZE = 4 * 1024 * 1024"

definition be32 :: "nat \<Rightarrow> bytes" where
  "be32 n = map char_of [n div 2 ^ 24 mod 256, n div 2 ^ 16 mod 256, n div 2 ^ 8 mod 256, n mod 256]"

definition be32_value :: "bytes \<Rightarrow> nat" where
  "be32_value bs = foldl (\<lambda>v c. v * 256 + of_char c) 0 bs"

text \<open>A stream is the bytes still to be read; \<^verbatim>\<open>read_exact\<close> fails when they run out.\<close>

definition read_message :: "(bytes \<Rightarrow> string + BitswapMessage) \<Rightarrow> bytes \<Rightarrow> string + BitswapMessage" where
  "read_message from_slice s =
     (if length s < 4 then Err ''unexpected end of file''
      else let len = be32_value (take 4 s) in
        if len > MAX_BITSWAP_MSG_SIZE then Err ''bitswap message exceeds size limit''
        else if length (drop 4 s) < len then Err ''unexpected end of file''
        else from_slice (take len (drop 4 s)))"

definition write_message :: "(BitswapMessage \<Rightarrow> string + bytes) \<Rightarrow> BitswapMessage \<Rightarrow> string + bytes" where
  "write_message to_vec msg =
     (case to_vec msg of
        Inl e \<Rightarrow> Err e
      | Inr raw \<Rightarrow>
          if length raw > MAX_BITSWAP_MSG_SIZE then Err ''bitswap message exceeds size limit''
          else Ok (be32 (length raw) @ raw))"

definition register_local_chunks :: "Chunk list \<Rightarrow> BitswapRuntime \<Rightarrow> BitswapRuntime" where
  "register_local_chunks cs rt =
     rt\<lparr>local_chunks := foldl (\<lambda>m c. bt_insert (ck_id c) c m) (local_chunks rt) cs\<rparr>"

definition set_grants :: "GrantStore \<Rightarrow> BitswapRuntime \<Rightarrow> BitswapRuntime" where
  "set_grants gs rt = rt\<lparr>rt_grants := gs\<rparr>"

definition set_require_grants :: "bool \<Rightarrow> BitswapRuntime \<Rightarrow> BitswapRuntime" where
  "set_require_grants b rt = rt\<lparr>require_grants := b\<rparr>"

definition map_peer_to_grantee :: "string \<Rightarrow> bytes \<Rightarrow> BitswapRuntime \<Rightarrow> BitswapRuntime" where
  "map_peer_to_grantee peer puf rt = rt\<lparr>peer_aliases := bt_insert peer puf (peer_aliases rt)\<rparr>"

definition rarest_first :: "BitswapRuntime \<Rightarrow> chunk_id list \<Rightarrow> chunk_id list" where
  "rarest_first rt wanted =
     map snd (sort_key (\<lambda>x. x)
       (map (\<lambda>i. (length (filter (\<lambda>inv. List.member inv i) (map snd (peer_inventory rt))), i)) wanted))"

definition peer_can_read :: "u64 \<Rightarrow> BitswapRuntime \<Rightarrow> string \<Rightarrow> chunk_id \<Rightarrow> bool" where
  "peer_can_read now rt peer i =
     (if list_all_grants (rt_grants rt) = [] then \<not> require_grants rt
      else (case bt_get (peer_aliases rt) peer of
              None \<Rightarrow> False
            | Some puf \<Rightarrow> can_read now (rt_grants rt) puf (''swarm/chunk/'' @ i)))"

text \<open>The counter of transfers goes up and down by one, saturating at the width of \<^verbatim>\<open>usize\<close>.\<close>

definition handle_request ::
  "(bytes \<Rightarrow> bytes) \<Rightarrow> u64 \<Rightarrow> BitswapRuntime \<Rightarrow> string \<Rightarrow> BitswapMessage \<Rightarrow> BitswapRuntime \<times> BitswapMessage" where
  "handle_request B now rt peer msg =
     (case msg of
        Want ids \<Rightarrow>
          (let allowed = filter (\<lambda>i. bt_contains (local_chunks rt) i) (filter (peer_can_read now rt peer) ids)
           in (rt\<lparr>active_transfers := min (2 ^ 64 - 1) (active_transfers rt + 1) - 1\<rparr>, Have allowed))
      | Have ids \<Rightarrow>
          (let entry = (case bt_get (peer_inventory rt) peer of Some s \<Rightarrow> s | None \<Rightarrow> []);
               entry' = foldl (\<lambda>s i. bs_insert i s) entry ids
           in (rt\<lparr>peer_inventory := bt_insert peer entry' (peer_inventory rt)\<rparr>, Have entry'))
      | Block i payload \<Rightarrow>
          if payload = [] then
            (rt, if peer_can_read now rt peer i then
                   (case bt_get (local_chunks rt) i of Some c \<Rightarrow> Block i (ck_data c) | None \<Rightarrow> Have [])
                 else Have [])
          else
            (let c = chunk_new B 0 1 payload
             in if ck_id c \<noteq> i then (rt, Have [])
                else (rt\<lparr>local_chunks := bt_insert i c (local_chunks rt)\<rparr>, Have [i])))"

section \<open>Cut data is joined again\<close>

lemma concat_pieces: "0 < n \<Longrightarrow> concat (pieces n xs) = xs"
  by (induction n xs rule: pieces.induct) (subst pieces.simps, auto)

lemma length_pieces:
  assumes "0 < n"
  shows "length (pieces n xs) = div_ceil (length xs) n"
  using assms
proof (induction n xs rule: pieces.induct)
  case (1 n xs)
  show ?case
  proof (cases "length xs \<le> n")
    case True
    then show ?thesis
      using 1(2) by (cases "xs = []"; cases "length xs = n")
        (simp_all add: pieces.simps [of n xs] pieces.simps [of n "[]"] div_ceil_def)
  next
    case False
    then have "length (pieces n xs) = Suc (div_ceil (length xs - n) n)"
      using 1 by (cases xs) (simp_all add: pieces.simps [of n xs] pieces.simps [of n "_ # _"])
    also have "\<dots> = div_ceil (length xs) n"
      using False 1(2) by (simp add: div_ceil_def le_div_geq le_mod_geq)
    finally show ?thesis .
  qed
qed

lemma piece_length: "p \<in> set (pieces n xs) \<Longrightarrow> length p \<le> n"
  by (induction n xs rule: pieces.induct) (subst (asm) (2) pieces.simps, auto split: if_splits)

lemma reassemble_loop_ok_iff:
  "reassemble_loop B tot cs = Ok () \<longleftrightarrow>
    (\<forall>(i, c) \<in> set cs. verify_chunk B c \<and> ck_index c = of_nat i \<and> ck_total c = tot)"
  by (induction B tot cs rule: reassemble_loop.induct) auto

lemma verify_chunk_new [simp]: "verify_chunk B (chunk_new B i n d)"
  by (simp add: verify_chunk_def chunk_new_def)

lemma enumerate_all_iff: "(\<forall>(i, c) \<in> set (enumerate 0 cs). P i c) \<longleftrightarrow> (\<forall>i < length cs. P i (cs ! i))"
  by (auto simp: in_set_enumerate_eq)

text \<open>Chunks that are numbered from zero are recovered by sorting them.\<close>

definition numbered :: "Chunk list \<Rightarrow> bool" where
  "numbered cs \<longleftrightarrow> length cs < 2 ^ 32 \<and> (\<forall>i < length cs. ck_index (cs ! i) = of_nat i)"

lemma of_nat_32_less: "i < j \<Longrightarrow> j < 2 ^ 32 \<Longrightarrow> (of_nat i :: u32) < of_nat j"
  by (simp add: word_less_nat_alt unat_of_nat)

lemma sort_numbered:
  assumes "numbered ds" "mset cs = mset ds"
  shows "sort_key ck_index cs = ds"
proof (rule sort_key_inj_key_eq [OF assms(2)])
  have lt: "ck_index (ds ! i) < ck_index (ds ! j)" if "i < j" "j < length ds" for i j
    using assms(1) that of_nat_32_less [of i j] by (simp add: numbered_def)
  then show "sorted (map ck_index ds)" by (auto simp: sorted_iff_nth_mono_less less_imp_le)
  have "inj_on ck_index (set ds)"
  proof (rule inj_onI)
    fix x y
    assume "x \<in> set ds" "y \<in> set ds" "ck_index x = ck_index y"
    then obtain i j where "i < length ds" "j < length ds" "x = ds ! i" "y = ds ! j" "ck_index (ds ! i) = ck_index (ds ! j)"
      by (auto simp: in_set_conv_nth)
    then show "x = y" using lt [of i j] lt [of j i] by (cases i j rule: linorder_cases) auto
  qed
  then show "inj_on ck_index (set cs)" using assms(2) by (metis mset_eq_setD)
qed

lemma reassemble_numbered:
  assumes "numbered ds" "ds \<noteq> []" "mset cs = mset ds"
    "\<forall>c \<in> set ds. verify_chunk B c \<and> ck_total c = of_nat (length ds)"
  shows "reassemble_chunks B cs = Ok (concat (map ck_data ds))"
proof -
  have s: "sort_key ck_index cs = ds" by (rule sort_numbered [OF assms(1,3)])
  have "cs \<noteq> []" "set cs = set ds" using assms(2,3) by (auto dest: mset_eq_setD)
  then have t: "ck_total (hd cs) = of_nat (length ds)" using assms(4) by (metis list.set_sel(1))
  have u: "unat (of_nat (length ds) :: u32) = length ds"
    using assms(1) by (simp add: numbered_def unat_of_nat)
  have "reassemble_loop B (of_nat (length ds)) (enumerate 0 ds) = Ok ()"
    unfolding reassemble_loop_ok_iff enumerate_all_iff
    using assms(1,4) by (simp add: numbered_def)
  then show ?thesis using \<open>cs \<noteq> []\<close> by (simp add: reassemble_chunks_def s t u Let_def)
qed

lemma chunk_data_nonempty:
  fixes data params
  defines "n \<equiv> max (chunk_size_bytes params) 1"
  assumes "data \<noteq> []" "div_ceil (length data) n < 2 ^ 32"
  shows "numbered (chunk_data B data params)" "chunk_data B data params \<noteq> []"
    "\<forall>c \<in> set (chunk_data B data params). verify_chunk B c \<and> ck_total c = of_nat (length (chunk_data B data params))"
    "concat (map ck_data (chunk_data B data params)) = data"
    "\<forall>c \<in> set (chunk_data B data params). ck_size c \<le> n"
proof -
  have n: "0 < n" by (simp add: n_def)
  let ?ps = "pieces n data"
  have c: "chunk_data B data params =
      map (\<lambda>(i, piece). chunk_new B (of_nat i) (of_nat (length ?ps)) piece) (enumerate 0 ?ps)"
    unfolding length_pieces [OF n] using assms(2) by (simp add: chunk_data_def n_def Let_def)
  have "ck_index (chunk_data B data params ! i) = of_nat i" if "i < length ?ps" for i
    using that by (simp add: c nth_enumerate_eq chunk_new_def)
  then show "numbered (chunk_data B data params)"
    using assms(3) length_pieces [OF n, of data] by (simp add: numbered_def c)
  have "?ps \<noteq> []" using assms(2) n by (simp add: pieces.simps [of n data])
  then show "chunk_data B data params \<noteq> []" by (cases ?ps) (simp_all add: c)
  show "\<forall>c \<in> set (chunk_data B data params). verify_chunk B c \<and> ck_total c = of_nat (length (chunk_data B data params))"
    unfolding c by (auto simp: chunk_new_def verify_chunk_def)
  have "map ck_data (chunk_data B data params) = ?ps"
    by (rule nth_equalityI) (simp_all add: c nth_enumerate_eq chunk_new_def)
  then show "concat (map ck_data (chunk_data B data params)) = data" using concat_pieces [OF n] by simp
  show "\<forall>c \<in> set (chunk_data B data params). ck_size c \<le> n"
    unfolding c using piece_length [of _ n data] by (auto simp: chunk_new_def in_set_enumerate_eq)
qed

lemma chunks_roundtrip:
  assumes "div_ceil (length data) (max (chunk_size_bytes params) 1) < 2 ^ 32"
    "mset cs = mset (chunk_data B data params)"
  shows "reassemble_chunks B cs = Ok data"
proof (cases "data = []")
  case True
  then have "mset cs = {#chunk_new B 0 1 []#}" using assms(2) by (simp add: chunk_data_def)
  then have "cs = [chunk_new B 0 1 []]" by simp
  then show ?thesis using True by (simp add: reassemble_chunks_def chunk_new_def verify_chunk_def enumerate_eq_zip)
next
  case False
  note d = chunk_data_nonempty [OF False assms(1), of B]
  show ?thesis using reassemble_numbered [OF d(1,2) assms(2) d(3)] d(4) by simp
qed

section \<open>Manifests bind contents\<close>

lemma concat_fixed_inject:
  assumes "\<forall>x \<in> set xs \<union> set ys. length x = n" "concat (map (\<lambda>x. x @ t) xs) = concat (map (\<lambda>x. x @ t) ys)" "t \<noteq> []"
  shows "xs = ys"
  using assms
proof (induction xs arbitrary: ys)
  case Nil
  then show ?case by (cases ys) auto
next
  case (Cons x xs)
  then show ?case by (cases ys) auto
qed

text \<open>The inputs that building and checking a manifest hash.\<close>

definition manifest_inputs :: "(bytes \<Rightarrow> bytes) \<Rightarrow> bytes list \<Rightarrow> bytes set" where
  "manifest_inputs B ds =
     insert (concat (map (\<lambda>d. chunk_id_from_bytes B d @ ''|'') ds)) (set ds)"

lemma root_hash_binds:
  assumes "compute_root_hash B (map (chunk_id_from_bytes B) ds) = compute_root_hash B (map (chunk_id_from_bytes B) es)"
    "inj_on B (manifest_inputs B ds \<union> manifest_inputs B es)" "\<forall>d. length (B d) = 32"
  shows "ds = es"
proof -
  have "concat (map (\<lambda>d. chunk_id_from_bytes B d @ ''|'') ds) = concat (map (\<lambda>d. chunk_id_from_bytes B d @ ''|'') es)"
    by (rule inj_onD [OF assms(2)]) (use assms(1) in \<open>simp_all add: compute_root_hash_def manifest_inputs_def o_def\<close>)
  then have "concat (map (\<lambda>x. x @ ''|'') (map (chunk_id_from_bytes B) ds)) =
      concat (map (\<lambda>x. x @ ''|'') (map (chunk_id_from_bytes B) es))" by (simp add: o_def)
  then have "map (chunk_id_from_bytes B) ds = map (chunk_id_from_bytes B) es"
    by (rule concat_fixed_inject [where n = 64, rotated]) (use assms(3) in \<open>auto simp: chunk_id_from_bytes_def\<close>)
  then have "map hex_encode (map B ds) = map hex_encode (map B es)"
    by (simp add: chunk_id_from_bytes_def [abs_def] comp_def)
  moreover have "inj hex_encode" by (rule injI) simp
  ultimately have "map B ds = map B es" using inj_map_eq_map by blast
  moreover have "inj_on B (set ds \<union> set es)"
    by (rule inj_on_subset [OF assms(2)]) (auto simp: manifest_inputs_def)
  ultimately show ?thesis using inj_on_map_eq_map by blast
qed

lemma verify_manifest_valid:
  assumes "root_hash_valid (verify_manifest H ipa B m cs)"
  shows "\<forall>c \<in> set cs. verify_chunk B c"
    "compute_root_hash B (map (chunk_id_from_bytes B) (map ck_data (sort_key ck_index cs))) = man_root_hash m"
    "\<forall>i < length cs. ck_index (sort_key ck_index cs ! i) = of_nat i"
proof -
  let ?o = "sort_key ck_index cs"
  have a: "\<forall>i < length ?o. ck_index (?o ! i) = of_nat i \<and> verify_chunk B (?o ! i)"
    using assms unfolding enumerate_all_iff [of ?o "\<lambda>i c. ck_index c = of_nat i \<and> verify_chunk B c", symmetric]
    by (simp add: verify_manifest_def list_all_iff Let_def)
  then show "\<forall>i < length cs. ck_index (?o ! i) = of_nat i" by simp
  show "\<forall>c \<in> set cs. verify_chunk B c"
    using a by (metis in_set_conv_nth set_sort)
  show "compute_root_hash B (map (chunk_id_from_bytes B) (map ck_data ?o)) = man_root_hash m"
    using assms by (auto simp: verify_manifest_def o_def Let_def)
qed

text \<open>A manifest made for some chunks accepts only chunks with the same contents.\<close>

lemma manifest_fixes_contents:
  assumes "build_manifest B now b ds = Ok m" "\<forall>d \<in> set ds. verify_chunk B d"
    "root_hash_valid (verify_manifest H ipa B m' cs)" "man_root_hash m' = man_root_hash m"
    "inj_on B (manifest_inputs B (map ck_data ds) \<union> manifest_inputs B (map ck_data (sort_key ck_index cs)))"
    "\<forall>d. length (B d) = 32"
  shows "map ck_data (sort_key ck_index cs) = map ck_data ds"
proof -
  have ids: "map ck_id ds = map (chunk_id_from_bytes B) (map ck_data ds)"
    using assms(2) by (simp add: verify_chunk_def)
  have "man_root_hash m = compute_root_hash B (map ck_id ds)"
    using assms(1) by (auto simp: build_manifest_def Let_def split: if_splits)
  then have "compute_root_hash B (map (chunk_id_from_bytes B) (map ck_data ds)) =
      compute_root_hash B (map (chunk_id_from_bytes B) (map ck_data (sort_key ck_index cs)))"
    unfolding ids [symmetric] using verify_manifest_valid(2) [OF assms(3)] assms(4) by simp
  from root_hash_binds [OF this assms(5,6)] show ?thesis by simp
qed

text \<open>Neither the identifier of a manifest nor its size or author is part of the check.\<close>

lemma manifest_id_unchecked:
  "verify_manifest H ipa B (m\<lparr>man_id := i, total_size := n, creator_did := c\<rparr>) cs = verify_manifest H ipa B m cs"
  by (simp add: verify_manifest_def Let_def)

lemma built_manifest_accepts:
  assumes "build_manifest B now b ds = Ok m" "numbered ds" "\<forall>d \<in> set ds. verify_chunk B d" "mset cs = mset ds"
  shows "man_accepted (verify_manifest H ipa B m cs)"
proof -
  have s: "sort_key ck_index cs = ds" by (rule sort_numbered [OF assms(2,4)])
  have ids: "map ck_id ds = map (\<lambda>c. chunk_id_from_bytes B (ck_data c)) ds"
    using assms(3) by (simp add: verify_chunk_def)
  have m: "chunk_hashes m = map ck_id ds" "man_root_hash m = compute_root_hash B (map ck_id ds)" "man_proof m = None"
    using assms(1) by (auto simp: build_manifest_def Let_def split: if_splits)
  have "\<forall>(i, c) \<in> set (enumerate 0 ds). ck_index c = of_nat i \<and> verify_chunk B c"
    unfolding enumerate_all_iff using assms(2,3) by (simp add: numbered_def)
  then show ?thesis
    by (simp add: verify_manifest_def s m ids list_all_iff Let_def)
qed

section \<open>The exchange keeps chunks authentic and private\<close>

lemma be32_value_be32: "n < 2 ^ 32 \<Longrightarrow> be32_value (be32 n) = n"
proof -
  assume "n < 2 ^ 32"
  then have a: "n div 2 ^ 24 mod 256 = n div 2 ^ 24" by (simp add: less_mult_imp_div_less)
  have b: "n div 2 ^ 24 * 256 + n div 2 ^ 16 mod 256 = n div 2 ^ 16"
    using div_mult_mod_eq [of "n div 2 ^ 16" 256] by (simp add: div_mult2_eq [symmetric])
  have c: "n div 2 ^ 16 * 256 + n div 2 ^ 8 mod 256 = n div 2 ^ 8"
    using div_mult_mod_eq [of "n div 2 ^ 8" 256] by (simp add: div_mult2_eq [symmetric])
  have d: "n div 2 ^ 8 * 256 + n mod 256 = n" using div_mult_mod_eq [of n 256] by simp
  have "be32_value (be32 n) =
      ((n div 2 ^ 24 mod 256 * 256 + n div 2 ^ 16 mod 256) * 256 + n div 2 ^ 8 mod 256) * 256 + n mod 256"
    by (simp add: be32_def be32_value_def)
  then show ?thesis unfolding a b c d .
qed

lemma message_roundtrip:
  assumes "write_message to_vec msg = Ok s" "\<And>raw. to_vec msg = Ok raw \<Longrightarrow> from_slice raw = Ok msg"
  shows "read_message from_slice s = Ok msg"
proof -
  obtain raw where raw: "to_vec msg = Ok raw" "length raw \<le> MAX_BITSWAP_MSG_SIZE" "s = be32 (length raw) @ raw"
    using assms(1) by (auto simp: write_message_def split: sum.splits if_splits)
  have "length (be32 n) = 4" for n by (simp add: be32_def)
  then show ?thesis
    using raw assms(2) be32_value_be32 [of "length raw"]
    by (simp add: read_message_def MAX_BITSWAP_MSG_SIZE_def Let_def)
qed

text \<open>Every stored chunk is filed under the hash of its contents.\<close>

definition filed :: "(bytes \<Rightarrow> bytes) \<Rightarrow> (chunk_id, Chunk) btree_map \<Rightarrow> bool" where
  "filed B m \<longleftrightarrow> (\<forall>i c. bt_get m i = Some c \<longrightarrow> ck_id c = i \<and> verify_chunk B c)"

definition authentic :: "(bytes \<Rightarrow> bytes) \<Rightarrow> BitswapRuntime \<Rightarrow> bool" where
  "authentic B rt \<longleftrightarrow> filed B (local_chunks rt)"

lemma filed_insert: "filed B m \<Longrightarrow> verify_chunk B c \<Longrightarrow> filed B (bt_insert (ck_id c) c m)"
  unfolding filed_def by simp

lemma authentic_default: "authentic B bitswap_default"
  by (simp add: authentic_def filed_def bitswap_default_def)

lemma authentic_register:
  assumes "authentic B rt" "\<forall>c \<in> set cs. verify_chunk B c"
  shows "authentic B (register_local_chunks cs rt)"
proof -
  have "filed B (foldl (\<lambda>m c. bt_insert (ck_id c) c m) m cs)" if "filed B m" for m
    using that assms(2) by (induction cs arbitrary: m) (auto intro: filed_insert)
  then show ?thesis using assms(1) by (simp add: authentic_def register_local_chunks_def)
qed

lemma authentic_handle:
  assumes "authentic B rt"
  shows "authentic B (fst (handle_request B now rt peer msg))"
proof (cases msg)
  case (Block i payload)
  have "filed B (bt_insert (ck_id (chunk_new B 0 1 payload)) (chunk_new B 0 1 payload) (local_chunks rt))"
    using assms by (intro filed_insert) (simp_all add: authentic_def)
  then show ?thesis
    using assms Block by (auto simp: handle_request_def authentic_def Let_def)
qed (use assms in \<open>simp_all add: handle_request_def authentic_def Let_def\<close>)

text \<open>What an answer tells about a chunk, the peer may read.\<close>

lemma answer_permitted:
  assumes "handle_request B now rt peer msg = (rt', answer)"
  shows "msg = Want ids \<Longrightarrow> answer = Have out \<Longrightarrow> i \<in> set out \<Longrightarrow>
      i \<in> set ids \<and> peer_can_read now rt peer i \<and> bt_get (local_chunks rt) i \<noteq> None"
    "answer = Block i d \<Longrightarrow> peer_can_read now rt peer i \<and>
      (\<exists>c. bt_get (local_chunks rt) i = Some c \<and> ck_data c = d)"
  using assms
  by (auto simp: handle_request_def bt_contains_def Let_def simp del: bt_contains_iff
      split: BitswapMessage.splits if_splits option.splits)

lemma revoked_peer_cannot_read:
  assumes "distinct (map grant_id (grants (rt_grants rt)))" "grants (rt_grants rt) \<noteq> []"
    "bt_get (peer_aliases rt) peer = Some puf"
    "\<forall>g \<in> set (grants (rt_grants rt)). grant_id g \<noteq> gid \<longrightarrow> grantee_puf g \<noteq> puf"
  shows "\<not> peer_can_read now (set_grants (fst (revoke_grant (rt_grants rt) gid)) rt) peer i"
proof -
  have "grants (fst (revoke_grant (rt_grants rt) gid)) \<noteq> []"
    using assms(2) revoke_first_ids [of gid "grants (rt_grants rt)"]
    by (metis Nil_is_map_conv grants_revoke)
  then show ?thesis
    using assms(3,4) read_check.check_revoked [OF assms(1)]
    by (auto simp: peer_can_read_def set_grants_def list_all_grants_def)
qed

section \<open>Runs of the exchange\<close>

text \<open>The operations of the runtime, and who may read after a sequence of them, told from the sequence alone.\<close>

datatype swarm_op =
    Register "Chunk list"
  | Grants GrantStore
  | RequireGrants bool
  | MapPeer string bytes
  | Request u64 string BitswapMessage

fun swarm_apply :: "(bytes \<Rightarrow> bytes) \<Rightarrow> BitswapRuntime \<Rightarrow> swarm_op \<Rightarrow> BitswapRuntime" where
  "swarm_apply B rt (Register cs) = register_local_chunks cs rt"
| "swarm_apply B rt (Grants gs) = set_grants gs rt"
| "swarm_apply B rt (RequireGrants b) = set_require_grants b rt"
| "swarm_apply B rt (MapPeer peer puf) = map_peer_to_grantee peer puf rt"
| "swarm_apply B rt (Request now peer msg) = fst (handle_request B now rt peer msg)"

definition swarm_run :: "(bytes \<Rightarrow> bytes) \<Rightarrow> swarm_op list \<Rightarrow> BitswapRuntime" where
  "swarm_run B ops = foldl (swarm_apply B) bitswap_default ops"

definition last_or :: "'a \<Rightarrow> 'a list \<Rightarrow> 'a" where
  "last_or d xs = (if xs = [] then d else last xs)"

definition grants_of :: "swarm_op list \<Rightarrow> AccessGrant list" where
  "grants_of ops = grants (last_or grant_store_new (List.map_filter (\<lambda>op. case op of Grants gs \<Rightarrow> Some gs | _ \<Rightarrow> None) ops))"

definition grants_required :: "swarm_op list \<Rightarrow> bool" where
  "grants_required ops = last_or False (List.map_filter (\<lambda>op. case op of RequireGrants b \<Rightarrow> Some b | _ \<Rightarrow> None) ops)"

definition grantee_of :: "swarm_op list \<Rightarrow> string \<Rightarrow> bytes option" where
  "grantee_of ops peer =
     last_or None (List.map_filter (\<lambda>op. case op of MapPeer p puf \<Rightarrow> if p = peer then Some (Some puf) else None | _ \<Rightarrow> None) ops)"

text \<open>A pattern is a key, or the beginning of keys followed by a star.\<close>

definition pattern_covers :: "string \<Rightarrow> string \<Rightarrow> bool" where
  "pattern_covers pat key \<longleftrightarrow> pat = key \<or> (\<exists>pre rest. pat = pre @ ''*'' \<and> key = pre @ rest)"

definition permitted :: "swarm_op list \<Rightarrow> u64 \<Rightarrow> string \<Rightarrow> chunk_id \<Rightarrow> bool" where
  "permitted ops now peer i \<longleftrightarrow>
     (grants_of ops = [] \<and> \<not> grants_required ops) \<or>
     (\<exists>puf g. grantee_of ops peer = Some puf \<and> g \<in> set (grants_of ops) \<and> grantee_puf g = puf \<and> \<not> revoked g \<and>
        (\<forall>t. expires_at g = Some t \<longrightarrow> now < t) \<and> perm_read (permissions g) \<and>
        pattern_covers (key_pattern g) (''swarm/chunk/'' @ i))"

lemma matches_pattern: "matches_key g key \<longleftrightarrow> pattern_covers (key_pattern g) key"
  by (simp add: matches_key_def key_pattern_matches_iff pattern_covers_def)

lemma active_iff: "is_active now g \<longleftrightarrow> \<not> revoked g \<and> (\<forall>t. expires_at g = Some t \<longrightarrow> now < t)"
  by (auto simp: is_active_def split: option.splits)

lemma last_or_snoc [simp]: "last_or d (xs @ [x]) = x"
  by (simp add: last_or_def)

lemma map_filter_snoc: "List.map_filter f (xs @ [x]) = List.map_filter f xs @ (case f x of Some y \<Rightarrow> [y] | None \<Rightarrow> [])"
  by (simp add: List.map_filter_def split: option.splits)

lemma handle_settings:
  "rt_grants (fst (handle_request B now rt peer msg)) = rt_grants rt"
  "require_grants (fst (handle_request B now rt peer msg)) = require_grants rt"
  "peer_aliases (fst (handle_request B now rt peer msg)) = peer_aliases rt"
  by (simp_all add: handle_request_def Let_def split: BitswapMessage.splits)

text \<open>The runtime holds the last setting of each kind.\<close>

lemma run_settings:
  "grants (rt_grants (swarm_run B ops)) = grants_of ops \<and> require_grants (swarm_run B ops) = grants_required ops \<and>
   bt_get (peer_aliases (swarm_run B ops)) = grantee_of ops"
proof (induction ops rule: rev_induct)
  case Nil
  show ?case
    by (simp add: swarm_run_def bitswap_default_def grants_of_def grants_required_def grantee_of_def last_or_def
        map_filter_simps fun_eq_iff)
next
  case (snoc op ops)
  have run: "swarm_run B (ops @ [op]) = swarm_apply B (swarm_run B ops) op" by (simp add: swarm_run_def)
  from snoc show ?case
    unfolding run
    by (cases op) (simp_all add: grants_of_def grants_required_def grantee_of_def map_filter_snoc fun_eq_iff
        set_grants_def set_require_grants_def map_peer_to_grantee_def register_local_chunks_def handle_settings)
qed

lemma can_read_iff_permitted: "peer_can_read now (swarm_run B ops) peer i \<longleftrightarrow> permitted ops now peer i"
  using run_settings [of B ops]
  by (auto simp: peer_can_read_def permitted_def list_all_grants_def can_read_def list_ex_iff active_iff matches_pattern
      split: option.splits)

lemma run_authentic:
  assumes "\<forall>cs. Register cs \<in> set ops \<longrightarrow> list_all (verify_chunk B) cs"
  shows "authentic B (swarm_run B ops)"
  using assms
proof (induction ops rule: rev_induct)
  case (snoc op ops)
  then have a: "authentic B (swarm_run B ops)" by simp
  have run: "swarm_run B (ops @ [op]) = swarm_apply B (swarm_run B ops) op" by (simp add: swarm_run_def)
  show ?case
    unfolding run
  proof (cases op)
    case (Register cs)
    then show "authentic B (swarm_apply B (swarm_run B ops) op)"
      using snoc.prems authentic_register [OF a] by (simp add: list_all_iff)
  next
    case (Request now peer msg)
    then show "authentic B (swarm_apply B (swarm_run B ops) op)" using authentic_handle [OF a] by simp
  qed (use a in \<open>simp_all add: authentic_def set_grants_def set_require_grants_def map_peer_to_grantee_def\<close>)
qed (simp add: swarm_run_def authentic_default)

end
