(* ===== verification/Work_Record.thy ===== *)
theory Work_Record
  imports Pcn_Proofs Chunks "HOL-Library.Product_Lexorder"
begin

text \<open>
  The store of work records, \<^verbatim>\<open>src/vcs/record.rs\<close>: records of file operations, kept as cells of the database
  under keys made of their hash.  JSON is a parameter: \<open>canon\<close> prints the hashed part of a record, \<open>enc\<close>
  and \<open>dec\<close> print and read a whole one.
\<close>

section \<open>Records\<close>

datatype FileOp =
    FileCreate string node_hash
  | FileModify string node_hash node_hash "bytes option"
  | FileDelete string node_hash
  | FileRename string string node_hash

record WorkRecord =
  wr_hash :: node_hash
  wr_parents :: "node_hash list"
  wr_author :: node_hash
  wr_timestamp :: u64
  wr_op :: FileOp
  wr_proof :: "u64 option"

fun op_paths :: "FileOp \<Rightarrow> string list" where
  "op_paths (FileCreate path _) = [path]"
| "op_paths (FileModify path _ _ _) = [path]"
| "op_paths (FileDelete path _) = [path]"
| "op_paths (FileRename old_path new_path _) = [old_path, new_path]"

section \<open>Hashes as text\<close>

definition bytes_hex :: "bytes \<Rightarrow> string" where
  "bytes_hex bs = concat (map (\<lambda>b. [hex_digit (code b div 16), hex_digit (code b mod 16)]) bs)"

definition hash_to_hex :: "node_hash \<Rightarrow> string" where
  "hash_to_hex h = bytes_hex h"

datatype HashError = BadHashLength nat | BadHexDigit char

fun parse_pairs :: "string \<Rightarrow> HashError + bytes" where
  "parse_pairs (a # b # s) =
     (case hex_nibble a of
        None \<Rightarrow> Err (BadHexDigit a)
      | Some hi \<Rightarrow>
          (case hex_nibble b of
             None \<Rightarrow> Err (BadHexDigit b)
           | Some lo \<Rightarrow>
               (case parse_pairs s of
                  Inl e \<Rightarrow> Err e
                | Inr bs \<Rightarrow> Ok (char_of_u8 (push_bit 4 hi OR lo) # bs))))"
| "parse_pairs _ = Ok []"

definition parse_hash_hex :: "string \<Rightarrow> HashError + node_hash" where
  "parse_hash_hex raw =
     (let s = strip_0x (trim raw)
      in if length s \<noteq> 64 then Err (BadHashLength (length s)) else parse_pairs s)"

section \<open>Input and output\<close>

datatype FileOpInput =
    CreateInput string string
  | ModifyInput string string string "bytes option"
  | DeleteInput string string
  | RenameInput string string string

record WorkRecordInput =
  wi_parents :: "string list"
  wi_author :: string
  wi_timestamp :: "u64 option"
  wi_op :: FileOpInput

fun op_try_from :: "FileOpInput \<Rightarrow> HashError + FileOp" where
  "op_try_from (CreateInput path h) =
     (case parse_hash_hex h of Inl e \<Rightarrow> Err e | Inr h \<Rightarrow> Ok (FileCreate path h))"
| "op_try_from (ModifyInput path old_h new_h patch) =
     (case parse_hash_hex old_h of
        Inl e \<Rightarrow> Err e
      | Inr h1 \<Rightarrow> (case parse_hash_hex new_h of Inl e \<Rightarrow> Err e | Inr h2 \<Rightarrow> Ok (FileModify path h1 h2 patch)))"
| "op_try_from (DeleteInput path h) =
     (case parse_hash_hex h of Inl e \<Rightarrow> Err e | Inr h \<Rightarrow> Ok (FileDelete path h))"
| "op_try_from (RenameInput old_path new_path h) =
     (case parse_hash_hex h of Inl e \<Rightarrow> Err e | Inr h \<Rightarrow> Ok (FileRename old_path new_path h))"

fun parse_hashes :: "string list \<Rightarrow> HashError + node_hash list" where
  "parse_hashes [] = Ok []"
| "parse_hashes (s # ss) =
     (case parse_hash_hex s of
        Inl e \<Rightarrow> Err e
      | Inr h \<Rightarrow> (case parse_hashes ss of Inl e \<Rightarrow> Err e | Inr hs \<Rightarrow> Ok (h # hs)))"

definition into_record :: "u64 \<Rightarrow> WorkRecordInput \<Rightarrow> HashError + WorkRecord" where
  "into_record now inp =
     (case parse_hashes (wi_parents inp) of
        Inl e \<Rightarrow> Err e
      | Inr ps \<Rightarrow>
          (case parse_hash_hex (wi_author inp) of
             Inl e \<Rightarrow> Err e
           | Inr author \<Rightarrow>
               (case op_try_from (wi_op inp) of
                  Inl e \<Rightarrow> Err e
                | Inr op \<Rightarrow>
                    Ok \<lparr>wr_hash = replicate 32 (CHR 0x00), wr_parents = ps, wr_author = author,
                        wr_timestamp = unwrap_or (wi_timestamp inp) now, wr_op = op, wr_proof = None\<rparr>)))"

record WorkRecordView =
  wv_hash :: string
  wv_parents :: "string list"
  wv_author :: string
  wv_timestamp :: u64
  wv_op :: FileOp
  wv_proof :: "u64 option"

definition record_view :: "WorkRecord \<Rightarrow> WorkRecordView" where
  "record_view r =
     \<lparr>wv_hash = hash_to_hex (wr_hash r), wv_parents = map hash_to_hex (wr_parents r),
      wv_author = hash_to_hex (wr_author r), wv_timestamp = wr_timestamp r, wv_op = wr_op r, wv_proof = wr_proof r\<rparr>"

section \<open>Keys and cells\<close>

definition record_prefix :: string where
  "record_prefix = ''abraxas:record:''"

definition record_len_key :: "string \<Rightarrow> string" where
  "record_len_key hex = record_prefix @ hex @ '':len''"

definition record_chunk_key :: "string \<Rightarrow> nat \<Rightarrow> string" where
  "record_chunk_key hex i = record_prefix @ hex @ '':chunk:'' @ dec i"

definition parse_record_len_key :: "string \<Rightarrow> node_hash option" where
  "parse_record_len_key key =
     (if \<not> starts_with key record_prefix \<or> \<not> ends_with key '':len'' then None
      else (case strip_suffix (drop (length record_prefix) key) '':len'' of
              None \<Rightarrow> None
            | Some s \<Rightarrow> (case parse_hash_hex (trim s) of Inl _ \<Rightarrow> None | Inr h \<Rightarrow> Some h)))"

definition author_index_key :: "string \<Rightarrow> u64 \<Rightarrow> string \<Rightarrow> string" where
  "author_index_key author ts hex = ''abraxas:idx:author:'' @ author @ '':'' @ show_u64 ts @ '':'' @ hex"

definition path_index_key :: "string \<Rightarrow> u64 \<Rightarrow> string \<Rightarrow> string" where
  "path_index_key path ts hex = ''abraxas:idx:path:'' @ path @ '':'' @ show_u64 ts @ '':'' @ hex"

definition timestamp_index_key :: "u64 \<Rightarrow> string \<Rightarrow> string" where
  "timestamp_index_key ts hex = ''abraxas:idx:ts:'' @ show_u64 ts @ '':'' @ hex"

definition pad8 :: "bytes \<Rightarrow> bytes" where
  "pad8 bs = bs @ replicate (8 - length bs) (CHR 0x00)"

definition u64_from_be_bytes :: "bytes \<Rightarrow> u64" where
  "u64_from_be_bytes bs = u64_from_le_bytes (rev bs)"

definition bytes_to_u64_chunks :: "bytes \<Rightarrow> u64 list" where
  "bytes_to_u64_chunks bs = map (\<lambda>c. u64_from_be_bytes (pad8 c)) (pieces 8 bs)"

definition u64_chunks_to_bytes :: "u64 list \<Rightarrow> bytes" where
  "u64_chunks_to_bytes cs = concat (map u64_to_be_bytes cs)"

section \<open>The store\<close>

definition record_hash ::
  "(bytes \<Rightarrow> node_hash) \<Rightarrow> (node_hash list \<times> node_hash \<times> u64 \<times> FileOp \<Rightarrow> bytes) \<Rightarrow> WorkRecord \<Rightarrow> node_hash" where
  "record_hash H canon r = H (canon (wr_parents r, wr_author r, wr_timestamp r, wr_op r))"

definition enumerated :: "'a list \<Rightarrow> (nat \<times> 'a) list" where
  "enumerated xs = zip [0..<length xs] xs"

definition record_writes :: "WorkRecord \<Rightarrow> bytes \<Rightarrow> (string \<times> u64) list" where
  "record_writes r payload =
     (let hex = hash_to_hex (wr_hash r); ts = wr_timestamp r
      in (record_len_key hex, of_nat (length payload)) #
         map (\<lambda>(i, c). (record_chunk_key hex i, c)) (enumerated (bytes_to_u64_chunks payload)) @
         [(author_index_key (hash_to_hex (wr_author r)) ts hex, 1), (timestamp_index_key ts hex, 1)] @
         map (\<lambda>p. (path_index_key (bytes_hex p) ts hex, 1)) (op_paths (wr_op r)))"

text \<open>The record as it is stored.\<close>

definition stamped ::
  "(bytes \<Rightarrow> node_hash) \<Rightarrow> (node_hash list \<times> node_hash \<times> u64 \<times> FileOp \<Rightarrow> bytes) \<Rightarrow> NucleusDb \<Rightarrow>
    WorkRecord \<Rightarrow> WorkRecord" where
  "stamped H canon db r =
     r\<lparr>wr_hash := record_hash H canon r, wr_proof := Some (of_nat (length (entries db)) + 1)\<rparr>"

record SubmitResult =
  sub_hash :: node_hash
  sub_proof :: u64
  sub_height :: u64
  sub_root :: node_hash

definition submit_record ::
  "('f::field, 'poly, 'srs, 'g, 'p) db_env \<Rightarrow> (node_hash list \<times> node_hash \<times> u64 \<times> FileOp \<Rightarrow> bytes) \<Rightarrow>
    (WorkRecord \<Rightarrow> bytes) \<Rightarrow> u64 \<Rightarrow> NucleusDb \<Rightarrow> WorkRecord \<Rightarrow> (NucleusDb \<times> (CommitError + SubmitResult)) option" where
  "submit_record env canon enc now db r =
     (let r1 = stamped (env_sha256 env) canon db r;
          (ws, db1) = put_keys db (record_writes r1 (enc r1))
      in case commit env now db1 \<lparr>writes = ws\<rparr> [] of
           None \<Rightarrow> None
         | Some (db2, Inl e) \<Rightarrow> Some (db2, Err e)
         | Some (db2, Inr entry) \<Rightarrow>
             Some (db2, Ok \<lparr>sub_hash = wr_hash r1, sub_proof = height entry, sub_height = height entry,
                            sub_root = state_root entry\<rparr>))"

definition read_value_by_key :: "NucleusDb \<Rightarrow> string \<Rightarrow> u64 option" where
  "read_value_by_key db key =
     (case keymap_get (keymap db) key of
        None \<Rightarrow> None
      | Some idx \<Rightarrow> if idx < length (st_values (state db)) then Some (st_values (state db) ! idx) else None)"

definition get_record :: "(bytes \<Rightarrow> WorkRecord option) \<Rightarrow> NucleusDb \<Rightarrow> node_hash \<Rightarrow> WorkRecord option" where
  "get_record dec_rec db h =
     (let hex = hash_to_hex h
      in case read_value_by_key db (record_len_key hex) of
           None \<Rightarrow> None
         | Some len \<Rightarrow>
             (case those (map (\<lambda>i. read_value_by_key db (record_chunk_key hex i)) [0..<div_ceil (unat len) 8]) of
                None \<Rightarrow> None
              | Some chunks \<Rightarrow>
                  (case dec_rec (take (unat len) (u64_chunks_to_bytes chunks)) of
                     None \<Rightarrow> None
                   | Some r \<Rightarrow> if wr_hash r = h then Some r else None)))"

record QueryFilter =
  qf_hash :: "node_hash option"
  qf_author :: "node_hash option"
  qf_path_prefix :: "string option"
  qf_start :: "u64 option"
  qf_end :: "u64 option"
  qf_limit :: "nat option"

definition matches_filter :: "WorkRecord \<Rightarrow> QueryFilter \<Rightarrow> bool" where
  "matches_filter r f =
     ((case qf_author f of None \<Rightarrow> True | Some a \<Rightarrow> wr_author r = a) \<and>
      (case qf_start f of None \<Rightarrow> True | Some s \<Rightarrow> \<not> wr_timestamp r < s) \<and>
      (case qf_end f of None \<Rightarrow> True | Some e \<Rightarrow> \<not> e < wr_timestamp r) \<and>
      (case qf_path_prefix f of None \<Rightarrow> True | Some p \<Rightarrow> list_ex (\<lambda>q. starts_with q p) (op_paths (wr_op r))))"

definition all_record_hashes :: "NucleusDb \<Rightarrow> node_hash list" where
  "all_record_hashes db =
     foldl (\<lambda>hs key. case parse_record_len_key key of None \<Rightarrow> hs | Some h \<Rightarrow> bs_insert h hs) []
       (map fst (all_keys (keymap db)))"

definition query_records :: "(bytes \<Rightarrow> WorkRecord option) \<Rightarrow> NucleusDb \<Rightarrow> QueryFilter \<Rightarrow> WorkRecord list" where
  "query_records dec_rec db f =
     (case qf_hash f of
        Some h \<Rightarrow> filter (\<lambda>r. matches_filter r f) (case get_record dec_rec db h of None \<Rightarrow> [] | Some r \<Rightarrow> [r])
      | None \<Rightarrow>
          let found = filter (\<lambda>r. matches_filter r f) (List.map_filter (get_record dec_rec db) (all_record_hashes db));
              sorted = sort_key (\<lambda>r. (wr_timestamp r, wr_hash r)) found
          in case qf_limit f of None \<Rightarrow> sorted | Some n \<Rightarrow> take n sorted)"

record StoreStatus =
  ss_count :: nat
  ss_latest_hash :: "node_hash option"
  ss_latest_timestamp :: "u64 option"
  ss_tree_size :: u64
  ss_root :: "node_hash option"
  ss_timestamp :: "u64 option"

definition latest_step ::
  "(bytes \<Rightarrow> WorkRecord option) \<Rightarrow> NucleusDb \<Rightarrow> (u64 \<times> node_hash) option \<Rightarrow> node_hash \<Rightarrow> (u64 \<times> node_hash) option" where
  "latest_step dec_rec db latest h =
     (case get_record dec_rec db h of
        None \<Rightarrow> latest
      | Some r \<Rightarrow>
          (case latest of
             None \<Rightarrow> Some (wr_timestamp r, h)
           | Some (ts, _) \<Rightarrow> if wr_timestamp r \<le> ts then latest else Some (wr_timestamp r, h)))"

definition store_status :: "(bytes \<Rightarrow> WorkRecord option) \<Rightarrow> NucleusDb \<Rightarrow> StoreStatus" where
  "store_status dec_rec db =
     (let hashes = all_record_hashes db; latest = foldl (latest_step dec_rec db) None hashes; head = current_sth db
      in \<lparr>ss_count = length hashes, ss_latest_hash = map_option snd latest, ss_latest_timestamp = map_option fst latest,
          ss_tree_size = (case head of None \<Rightarrow> 0 | Some s \<Rightarrow> tree_size s),
          ss_root = map_option root_hash head, ss_timestamp = map_option timestamp_unix_secs head\<rparr>)"


section \<open>Round trips\<close>

lemma bytes_hex_encode: "bytes_hex bs = hex_encode bs"
  by (simp add: bytes_hex_def hex_encode_def hex_byte_def [abs_def])

lemma hash_hex_simps [simp]:
  "length (hash_to_hex h) = 2 * length h" "hash_to_hex g = hash_to_hex h \<longleftrightarrow> g = h"
  by (simp_all add: hash_to_hex_def bytes_hex_encode)

lemma parse_pairs_hex: "hex_pairs s = Some bs \<Longrightarrow> parse_pairs s = Ok bs"
  by (induction s arbitrary: bs rule: hex_pairs.induct) (auto split: option.splits)

lemma trim_hash_hex: "trim (hash_to_hex h) = hash_to_hex h"
proof (rule trim_visible)
  show "\<forall>c \<in> set (hash_to_hex h). code c \<in> {33..127}"
    using hex_encode_chars by (fastforce simp: is_hex_char_def hash_to_hex_def bytes_hex_encode)
qed

lemma parse_hash_hex_print: "length h = 32 \<Longrightarrow> parse_hash_hex (hash_to_hex h) = Ok h"
  unfolding parse_hash_hex_def Let_def trim_hash_hex
  by (simp add: hash_to_hex_def bytes_hex_encode bytes_simps parse_pairs_hex)

lemma le_bytes_value: "le_bytes (length bs) (le_value bs) = bs"
  by (induction bs) auto

lemma le_value_less: "le_value bs < 256 ^ length bs"
proof (induction bs)
  case (Cons b bs)
  then show ?case
    using nat_of_char_less_256 [of b] unfolding le_value.simps list.size power_add power_Suc power_0 mult_1_right by linarith
qed simp

lemma be_roundtrip: "length bs = 8 \<Longrightarrow> u64_to_be_bytes (u64_from_be_bytes bs) = bs"
  using le_value_less [of "rev bs"] le_bytes_value [of "rev bs"]
  by (simp add: u64_to_be_bytes_def u64_from_be_bytes_def u64_to_le_bytes_def u64_from_le_bytes_def unat_of_nat)

lemma length_pad8: "length bs \<le> 8 \<Longrightarrow> length (pad8 bs) = 8"
  by (simp add: pad8_def)

lemma take_padded: "take (length xs) (concat (map pad8 (pieces 8 xs))) = xs"
proof (induction "8 :: nat" xs rule: pieces.induct)
  case (1 xs)
  show ?case
  proof (cases "length xs \<le> 8")
    case True
    then show ?thesis by (cases "xs = []") (simp_all add: pieces.simps [of 8 xs] pieces.simps [of 8 "[]"] pad8_def)
  next
    case False
    then have "pad8 (take 8 xs) = take 8 xs" by (simp add: pad8_def)
    then have "take (length xs) (concat (map pad8 (pieces 8 xs))) =
        take 8 xs @ take (length (drop 8 xs)) (concat (map pad8 (pieces 8 (drop 8 xs))))"
      using False by (subst pieces.simps) (auto simp: min_def)
    moreover have "xs \<noteq> []" using False by auto
    ultimately show ?thesis using 1 by simp
  qed
qed

lemma u64_chunks_roundtrip: "take (length xs) (u64_chunks_to_bytes (bytes_to_u64_chunks xs)) = xs"
proof -
  have "map (\<lambda>c. u64_to_be_bytes (u64_from_be_bytes (pad8 c))) (pieces 8 xs) = map pad8 (pieces 8 xs)"
    using piece_length [of _ 8 xs] by (intro map_cong) (simp_all add: be_roundtrip length_pad8)
  then show ?thesis
    unfolding u64_chunks_to_bytes_def bytes_to_u64_chunks_def map_map comp_def by (simp only: take_padded)
qed

lemma length_u64_chunks: "length (bytes_to_u64_chunks xs) = div_ceil (length xs) 8"
  by (simp add: bytes_to_u64_chunks_def length_pieces)

section \<open>Keys\<close>

definition index_key :: "string \<Rightarrow> bool" where
  "index_key k \<longleftrightarrow> starts_with k ''abraxas:idx:''"

lemma record_keys:
  "length a = length b \<Longrightarrow> record_len_key a = record_len_key b \<longleftrightarrow> a = b"
  "length a = length b \<Longrightarrow> record_chunk_key a i = record_chunk_key b j \<longleftrightarrow> a = b \<and> i = j"
  "length a = length b \<Longrightarrow> record_len_key a \<noteq> record_chunk_key b j"
  "length a = length b \<Longrightarrow> record_chunk_key b j \<noteq> record_len_key a"
  by (auto simp: record_len_key_def record_chunk_key_def)

lemma index_keys [simp]:
  "index_key (author_index_key a ts h)" "index_key (path_index_key a ts h)" "index_key (timestamp_index_key ts h)"
  "\<not> index_key (record_len_key h)" "\<not> index_key (record_chunk_key h i)"
  by (simp_all add: index_key_def starts_with_def author_index_key_def path_index_key_def timestamp_index_key_def
      record_len_key_def record_chunk_key_def record_prefix_def)

lemma writes_cases:
  assumes "(k, v) \<in> set (record_writes r payload)"
  obtains "k = record_len_key (hash_to_hex (wr_hash r))" "v = of_nat (length payload)"
  | i where "k = record_chunk_key (hash_to_hex (wr_hash r)) i" "i < length (bytes_to_u64_chunks payload)"
      "v = bytes_to_u64_chunks payload ! i"
  | "index_key k" "v = 1"
  using assms by (auto simp: record_writes_def Let_def enumerated_def set_zip)

lemma record_writes_single: "single_valued (set (record_writes r payload))"
proof (rule single_valuedI)
  fix k v v' assume k: "(k, v) \<in> set (record_writes r payload)" "(k, v') \<in> set (record_writes r payload)"
  from k(1) show "v = v'"
  proof (cases rule: writes_cases)
    case 1
    with k(2) show ?thesis by (cases rule: writes_cases) (auto simp: record_keys)
  next
    case (2 i)
    with k(2) show ?thesis by (cases rule: writes_cases) (auto simp: record_keys)
  next
    case 3
    with k(2) show ?thesis by (cases rule: writes_cases) auto
  qed
qed

lemma writes_record:
  "(record_len_key (hash_to_hex (wr_hash r)), of_nat (length payload)) \<in> set (record_writes r payload)"
  "i < length (bytes_to_u64_chunks payload) \<Longrightarrow>
    (record_chunk_key (hash_to_hex (wr_hash r)) i, bytes_to_u64_chunks payload ! i) \<in> set (record_writes r payload)"
proof -
  assume "i < length (bytes_to_u64_chunks payload)"
  then have "(i, bytes_to_u64_chunks payload ! i) \<in> set (enumerated (bytes_to_u64_chunks payload))"
    by (force simp: enumerated_def set_zip)
  then show "(record_chunk_key (hash_to_hex (wr_hash r)) i, bytes_to_u64_chunks payload ! i) \<in> set (record_writes r payload)"
    by (force simp: record_writes_def Let_def)
qed (simp add: record_writes_def Let_def)

lemma writes_other:
  assumes "length h = length (wr_hash r)" "h \<noteq> wr_hash r"
  shows "record_len_key (hash_to_hex h) \<notin> fst ` set (record_writes r payload)"
    "record_chunk_key (hash_to_hex h) i \<notin> fst ` set (record_writes r payload)"
  using assms by (auto elim!: writes_cases simp: record_keys dest: arg_cong [where f = index_key])


section \<open>What a submission leaves\<close>

lemma read_value_at: "read_value_by_key db k = value_at db k"
  by (simp add: read_value_by_key_def value_at_def)

lemma get_record_cong:
  assumes "value_at db (record_len_key (hash_to_hex h)) = value_at db' (record_len_key (hash_to_hex h))"
    "\<And>i. value_at db (record_chunk_key (hash_to_hex h) i) = value_at db' (record_chunk_key (hash_to_hex h) i)"
  shows "get_record dec_rec db h = get_record dec_rec db' h"
  by (simp only: get_record_def read_value_at Let_def assms)

text \<open>After its keys are put, a submission has committed its cells or has changed no cell.\<close>

lemma submit_cases:
  assumes "submit_record env canon enc now db r = Some (db2, res)" "keymap_inv (keymap db)" "covered db"
  obtains es where "es = record_writes (stamped (env_sha256 env) canon db r) (enc (stamped (env_sha256 env) canon db r))"
    "\<And>k. has_key db2 k \<longleftrightarrow> has_key db k \<or> k \<in> fst ` set es"
    "\<And>sub. res = Ok sub \<Longrightarrow> wrote db es db2"
    "wrote db es db2 \<or> (\<forall>k. k \<notin> fst ` set es \<longrightarrow> value_at db2 k = value_at db k)"
    "\<And>sub. res = Ok sub \<Longrightarrow> sub_hash sub = record_hash (env_sha256 env) canon r \<and>
       sub_proof sub = of_nat (length (entries db)) + 1"
proof -
  let ?r = "stamped (env_sha256 env) canon db r"
  let ?es = "record_writes ?r (enc ?r)"
  obtain ws db1 where p: "put_keys db ?es = (ws, db1)" by fastforce
  note f = put_keys_spec [OF p assms(2)]
  obtain r0 where c: "commit env now db1 \<lparr>writes = ws\<rparr> [] = Some (db2, r0)"
    using assms(1) p by (auto simp: submit_record_def Let_def split: option.splits sum.splits)
  have same: "state db1 = state db" "entries db1 = entries db" by (subst f(1), simp)+
  have km: "keymap db2 = keymap db1" by (rule commit_state(1) [OF c])
  have wrote: "wrote db ?es db2" if "state db2 = apply_delta (state db) \<lparr>writes = ws\<rparr>"
    using that p km assms(2,3) record_writes_single by (auto simp: wrote_def)
  have keep: "value_at db2 k = value_at db k" if "state db2 = state db" "k \<notin> fst ` set ?es" for k
  proof -
    have get: "keymap_get (keymap db2) k = keymap_get (keymap db) k"
      using f(3,4) that(2) unfolding km has_key_def by (metis not_None_eq)
    show ?thesis by (simp only: value_at_def that(1) get)
  qed
  show ?thesis
  proof (rule that [OF refl])
    show "has_key db2 k \<longleftrightarrow> has_key db k \<or> k \<in> fst ` set ?es" for k using f(3) km by (simp add: has_key_def)
    show "wrote db ?es db2 \<or> (\<forall>k. k \<notin> fst ` set ?es \<longrightarrow> value_at db2 k = value_at db k)"
      using commit_state(2) [OF c] same wrote keep by auto
    fix sub assume "res = Ok sub"
    then obtain e where e: "r0 = Ok e" "sub_hash sub = wr_hash ?r" "sub_proof sub = height e"
      using assms(1) p c by (auto simp: submit_record_def Let_def split: sum.splits)
    note ok = commit_ok [OF c [unfolded e(1)]]
    show "wrote db ?es db2" using wrote ok(1) same by simp
    show "sub_hash sub = record_hash (env_sha256 env) canon r \<and> sub_proof sub = of_nat (length (entries db)) + 1"
      using e ok(4) same by (simp add: stamped_def)
  qed
qed

lemma stamped_simps [simp]:
  "wr_hash (stamped H canon db r) = record_hash H canon r"
  "wr_proof (stamped H canon db r) = Some (of_nat (length (entries db)) + 1)"
  by (simp_all add: stamped_def)

lemma those_map_Some: "those (map Some xs) = Some xs"
  by (induction xs) simp_all

lemma get_record_written:
  assumes "wrote db (record_writes r payload) db2" "dec_rec payload = Some r" "length payload < 2 ^ 64"
  shows "get_record dec_rec db2 (wr_hash r) = Some r"
proof -
  note v = wrote_facts(4) [OF assms(1)]
  have len: "value_at db2 (record_len_key (hash_to_hex (wr_hash r))) = Some (of_nat (length payload))"
    using v writes_record(1) by blast
  have n: "unat (of_nat (length payload) :: u64) = length payload" by (rule unat_of_nat_64 [OF assms(3)])
  let ?cs = "bytes_to_u64_chunks payload"
  have "map (\<lambda>i. value_at db2 (record_chunk_key (hash_to_hex (wr_hash r)) i)) [0..<length ?cs] = map (\<lambda>i. Some (?cs ! i)) [0..<length ?cs]"
    using v writes_record(2) by (intro map_cong) auto
  also have "\<dots> = map Some (map ((!) ?cs) [0..<length ?cs])" by simp
  also have "\<dots> = map Some ?cs" by (simp only: map_nth)
  finally have "those (map (\<lambda>i. value_at db2 (record_chunk_key (hash_to_hex (wr_hash r)) i)) [0..<length ?cs]) = Some ?cs"
    by (simp add: those_map_Some)
  then show ?thesis
    using assms(2) by (simp add: get_record_def read_value_at len n Let_def u64_chunks_roundtrip flip: length_u64_chunks)
qed

section \<open>Listing and queries\<close>

lemma set_all_record_hashes: "set (all_record_hashes db) = {h. \<exists>k. has_key db k \<and> parse_record_len_key k = Some h}"
proof -
  have "set (foldl (\<lambda>hs key. case parse_record_len_key key of None \<Rightarrow> hs | Some h \<Rightarrow> bs_insert h hs) hs ks) =
      set hs \<union> {h. \<exists>k \<in> set ks. parse_record_len_key k = Some h}" for hs ks
    by (induction ks arbitrary: hs) (auto split: option.splits)
  then show ?thesis by (auto simp: all_record_hashes_def has_key_all)
qed

lemma parse_len_key: "length h = 32 \<Longrightarrow> parse_record_len_key (record_len_key (hash_to_hex h)) = Some h"
  by (simp add: parse_record_len_key_def record_len_key_def record_prefix_def starts_with_def ends_with_def strip_suffix_def
      trim_hash_hex parse_hash_hex_print)

lemma parse_chunk_key: "parse_record_len_key (record_chunk_key hex i) = None"
proof -
  have "last (dec i) \<noteq> CHR ''n''" using dec_digits [of "last (dec i)" i] by (auto simp: is_digit_def)
  then have "\<not> ends_with (record_chunk_key hex i) '':len''"
    by (cases "dec i" rule: rev_cases) (auto simp: ends_with_def starts_with_def record_chunk_key_def)
  then show ?thesis by (simp add: parse_record_len_key_def)
qed

lemma parse_index_key: "index_key k \<Longrightarrow> parse_record_len_key k = None"
proof -
  assume "index_key k"
  then obtain x where "k = ''abraxas:idx:'' @ x" by (metis index_key_def starts_with_def append_take_drop_id)
  then show ?thesis by (simp add: parse_record_len_key_def starts_with_def record_prefix_def)
qed

lemma listed_after:
  assumes "\<And>k. has_key db2 k \<longleftrightarrow> has_key db k \<or> k \<in> fst ` set (record_writes r payload)" "length (wr_hash r) = 32"
  shows "set (all_record_hashes db2) = insert (wr_hash r) (set (all_record_hashes db))"
proof -
  have "parse_record_len_key k = Some h \<Longrightarrow> k \<in> fst ` set (record_writes r payload) \<Longrightarrow> h = wr_hash r" for k h
    using assms(2) by (auto elim!: writes_cases simp: parse_chunk_key parse_index_key parse_len_key)
  moreover have "parse_record_len_key (record_len_key (hash_to_hex (wr_hash r))) = Some (wr_hash r)"
    "record_len_key (hash_to_hex (wr_hash r)) \<in> fst ` set (record_writes r payload)"
    using parse_len_key [OF assms(2)] writes_record(1) by force+
  ultimately show ?thesis unfolding set_all_record_hashes assms(1) by blast
qed

lemma query_finds:
  assumes "h \<in> set (all_record_hashes db)" "get_record dec_rec db h = Some r" "matches_filter r f"
    "qf_hash f = None" "qf_limit f = None"
  shows "r \<in> set (query_records dec_rec db f)"
  using assms by (force simp: query_records_def map_filter_def Let_def)

end
