(* ===== verification/Work_Merge.thy ===== *)
theory Work_Merge
  imports Work_Record
begin

text \<open>
  What is made of work records, \<^verbatim>\<open>src/vcs/agent.rs\<close>: the analysis of conflicts, the state of the files,
  its export into a worktree, and records from the status of a workspace.  The worktree maps the paths
  of the records to file bodies; the output of git and the contents of files are
  arguments.
\<close>

section \<open>Analysis\<close>

record PathConflict =
  pc_path :: string
  pc_left_hash :: node_hash
  pc_right_hash :: node_hash
  pc_left_timestamp :: u64
  pc_right_timestamp :: u64

record MergeSnapshot =
  ms_record_count :: nat
  ms_merged_count :: nat
  ms_conflict_count :: nat
  ms_head_hash :: "node_hash option"
  ms_conflicts :: "PathConflict list"

abbreviation record_key :: "WorkRecord \<Rightarrow> u64 \<times> node_hash" where
  "record_key r \<equiv> (wr_timestamp r, wr_hash r)"

type_synonym path_touches = "(string, u64 \<times> node_hash) btree_map"

definition touch_path :: "WorkRecord \<Rightarrow> path_touches \<times> PathConflict list \<Rightarrow> string \<Rightarrow> path_touches \<times> PathConflict list" where
  "touch_path r acc path =
     (let conflicts =
        (case bt_get (fst acc) path of
           None \<Rightarrow> snd acc
         | Some (prev_ts, prev_hash) \<Rightarrow>
             if prev_ts = wr_timestamp r \<and> prev_hash \<noteq> wr_hash r
             then snd acc @ [\<lparr>pc_path = path, pc_left_hash = prev_hash, pc_right_hash = wr_hash r,
                              pc_left_timestamp = prev_ts, pc_right_timestamp = wr_timestamp r\<rparr>]
             else snd acc)
      in (bt_insert path (record_key r) (fst acc), conflicts))"

definition head_step ::
  "(u64 \<times> node_hash) \<times> node_hash option \<Rightarrow> WorkRecord \<Rightarrow> (u64 \<times> node_hash) \<times> node_hash option" where
  "head_step acc r = (if fst acc < record_key r then (record_key r, Some (wr_hash r)) else acc)"

definition analyze_records :: "WorkRecord list \<Rightarrow> MergeSnapshot" where
  "analyze_records recs =
     (let ordered = sort_key record_key recs;
          conflicts = snd (foldl (\<lambda>acc r. foldl (touch_path r) acc (op_paths (wr_op r))) ([], []) ordered);
          head = snd (foldl head_step ((0, replicate 32 (CHR 0x00)), None) ordered)
      in \<lparr>ms_record_count = length recs, ms_merged_count = length recs - length conflicts,
          ms_conflict_count = length conflicts, ms_head_hash = head, ms_conflicts = conflicts\<rparr>)"

section \<open>The state of the files\<close>

type_synonym file_state = "(string, node_hash option) btree_map"

definition apply_record_to_state :: "file_state \<Rightarrow> WorkRecord \<Rightarrow> file_state" where
  "apply_record_to_state st r =
     (case wr_op r of
        FileCreate path h \<Rightarrow> bt_insert path (Some h) st
      | FileModify path _ h _ \<Rightarrow> bt_insert path (Some h) st
      | FileDelete path _ \<Rightarrow> bt_insert path None st
      | FileRename old_path new_path h \<Rightarrow> bt_insert new_path (Some h) (bt_insert old_path None st))"

definition materialize_state :: "WorkRecord list \<Rightarrow> file_state" where
  "materialize_state recs = foldl apply_record_to_state [] (sort_key record_key recs)"

record ExportStats =
  es_written :: nat
  es_deleted :: nat
  es_final :: nat

type_synonym worktree = "(string, string) btree_map"

definition file_body :: "string \<Rightarrow> node_hash \<Rightarrow> string" where
  "file_body path h =
     ''abraxas.materialized.v1'' @ CHR 0x0A # ''path='' @ path @ CHR 0x0A # ''content_hash='' @ hash_to_hex h @ [CHR 0x0A]"

text \<open>
  \<open>io\<close> gives the error of the file system for a path, the empty one for the worktree itself; the loop stops
  there.  A file has one path: two spellings of it are different keys.
\<close>

fun export_loop ::
  "(string \<Rightarrow> string option) \<Rightarrow> file_state \<Rightarrow> worktree \<Rightarrow> ExportStats \<Rightarrow> worktree \<times> (string + ExportStats)" where
  "export_loop io [] files stats = (files, Ok stats)"
| "export_loop io ((path, Some h) # st) files stats =
     (case io path of
        Some e \<Rightarrow> (files, Err e)
      | None \<Rightarrow>
          export_loop io st (bt_insert path (file_body path h) files)
            (stats\<lparr>es_written := es_written stats + 1, es_final := es_final stats + 1\<rparr>))"
| "export_loop io ((path, None) # st) files stats =
     (if bt_contains files path then
        (case io path of
           Some e \<Rightarrow> (files, Err e)
         | None \<Rightarrow> export_loop io st (bt_remove path files) (stats\<lparr>es_deleted := es_deleted stats + 1\<rparr>))
      else export_loop io st files stats)"

definition export_state_to_worktree ::
  "(string \<Rightarrow> string option) \<Rightarrow> WorkRecord list \<Rightarrow> worktree \<Rightarrow> worktree \<times> (string + ExportStats)" where
  "export_state_to_worktree io recs files =
     (case io [] of
        Some e \<Rightarrow> (files, Err e)
      | None \<Rightarrow> export_loop io (materialize_state recs) files \<lparr>es_written = 0, es_deleted = 0, es_final = 0\<rparr>)"

section \<open>Records from a workspace\<close>

text \<open>\<^verbatim>\<open>str::lines\<close>.\<close>

definition strip_cr :: "string \<Rightarrow> string" where
  "strip_cr s = unwrap_or (strip_suffix s [CHR 0x0D]) s"

fun text_lines :: "string \<Rightarrow> string list" where
  "text_lines [] = []"
| "text_lines (c # cs) =
     (if c = CHR 0x0A then [] # text_lines cs
      else (case text_lines cs of
              [] \<Rightarrow> [[c]]
            | l # ls \<Rightarrow> (c # l) # ls))"

definition git_status_porcelain :: "string + string \<Rightarrow> string + string list" where
  "git_status_porcelain out =
     (case out of
        Inl e \<Rightarrow> Err e
      | Inr stdout \<Rightarrow> Ok (filter (\<lambda>l. l \<noteq> []) (map (\<lambda>l. trim (strip_cr l)) (text_lines stdout))))"

definition hash_file_or_path :: "(bytes \<Rightarrow> node_hash) \<Rightarrow> (string \<Rightarrow> bytes option) \<Rightarrow> string \<Rightarrow> node_hash" where
  "hash_file_or_path H read path = H (unwrap_or (read path) path)"

text \<open>The part before the first arrow, and the rest after it.\<close>

fun split_arrow :: "string \<Rightarrow> string \<times> string option" where
  "split_arrow (a # b # s) =
     (if a = CHR ''-'' \<and> b = CHR ''>'' then ([], Some s)
      else (case split_arrow (b # s) of (p, rest) \<Rightarrow> (a # p, rest)))"
| "split_arrow s = (s, None)"

definition status_op :: "(bytes \<Rightarrow> node_hash) \<Rightarrow> (string \<Rightarrow> bytes option) \<Rightarrow> string \<Rightarrow> string \<Rightarrow> FileOp option" where
  "status_op H read status path =
     (if List.member status CHR ''A'' \<or> status = ''??'' then Some (FileCreate path (hash_file_or_path H read path))
      else if List.member status CHR ''M'' then
        Some (FileModify path (replicate 32 (CHR 0x00)) (hash_file_or_path H read path) None)
      else if List.member status CHR ''D'' then Some (FileDelete path (hash_file_or_path H read path))
      else if List.member status CHR ''R'' then
        (let (old_part, rest) = split_arrow path;
             new_path = (case rest of None \<Rightarrow> path | Some s \<Rightarrow> trim (fst (split_arrow s)))
         in Some (FileRename (trim old_part) new_path (hash_file_or_path H read new_path)))
      else None)"

text \<open>Slicing at a byte inside a character panics, which is \<open>None\<close>.\<close>

fun workspace_loop ::
  "(bytes \<Rightarrow> node_hash) \<Rightarrow> (node_hash list \<times> node_hash \<times> u64 \<times> FileOp \<Rightarrow> bytes) \<Rightarrow> (string \<Rightarrow> bytes option) \<Rightarrow>
    node_hash \<Rightarrow> u64 \<Rightarrow> string list \<Rightarrow> WorkRecord list option" where
  "workspace_loop H canon read author ts [] = Some []"
| "workspace_loop H canon read author ts (l # ls) =
     (if length l < 4 then workspace_loop H canon read author ts ls
      else if cont (l ! 2) \<or> cont (l ! 3) then None
      else (case status_op H read (take 2 l) (trim (drop 3 l)) of
              None \<Rightarrow> workspace_loop H canon read author ts ls
            | Some op \<Rightarrow>
                (let r = \<lparr>wr_hash = replicate 32 (CHR 0x00), wr_parents = [], wr_author = author, wr_timestamp = ts,
                          wr_op = op, wr_proof = None\<rparr>
                 in map_option ((#) (r\<lparr>wr_hash := record_hash H canon r\<rparr>)) (workspace_loop H canon read author ts ls))))"

definition work_records_from_workspace ::
  "(bytes \<Rightarrow> node_hash) \<Rightarrow> (node_hash list \<times> node_hash \<times> u64 \<times> FileOp \<Rightarrow> bytes) \<Rightarrow> (string \<Rightarrow> bytes option) \<Rightarrow>
    string + string \<Rightarrow> node_hash \<Rightarrow> u64 \<Rightarrow> (string + WorkRecord list) option" where
  "work_records_from_workspace H canon read out author ts =
     (case git_status_porcelain out of
        Inl e \<Rightarrow> Some (Err e)
      | Inr ls \<Rightarrow> map_option Ok (workspace_loop H canon read author ts ls))"


section \<open>The state does not depend on the order of the records\<close>

text \<open>Records with the same timestamp and hash carry the same operation: so it is unless hashes collide.\<close>

definition ops_determined :: "WorkRecord list \<Rightarrow> bool" where
  "ops_determined recs \<longleftrightarrow> (\<forall>r \<in> set recs. \<forall>r' \<in> set recs. record_key r = record_key r' \<longrightarrow> wr_op r = wr_op r')"

definition apply_op_to_state :: "file_state \<Rightarrow> FileOp \<Rightarrow> file_state" where
  "apply_op_to_state st op =
     (case op of
        FileCreate path h \<Rightarrow> bt_insert path (Some h) st
      | FileModify path _ h _ \<Rightarrow> bt_insert path (Some h) st
      | FileDelete path _ \<Rightarrow> bt_insert path None st
      | FileRename old_path new_path h \<Rightarrow> bt_insert new_path (Some h) (bt_insert old_path None st))"

lemma foldl_apply_ops: "foldl apply_record_to_state st rs = foldl apply_op_to_state st (map wr_op rs)"
  by (induction rs arbitrary: st) (simp_all add: apply_record_to_state_def apply_op_to_state_def)

lemma map_sort_key: "map f (sort_key f xs) = sort (map f xs)"
  by (rule properties_for_sort [symmetric]) simp_all

lemma sorted_ops:
  assumes "mset xs = mset ys" "ops_determined xs"
  shows "map wr_op (sort_key record_key xs) = map wr_op (sort_key record_key ys)"
proof -
  have set: "set ys = set xs" using mset_eq_setD [OF assms(1)] by simp
  define g where "g k = wr_op (SOME r. r \<in> set xs \<and> record_key r = k)" for k
  have g: "wr_op r = g (record_key r)" if "r \<in> set xs" for r
  proof -
    define z where "z = (SOME r'. r' \<in> set xs \<and> record_key r' = record_key r)"
    have "\<exists>r'. r' \<in> set xs \<and> record_key r' = record_key r" using that by blast
    then have z: "z \<in> set xs \<and> record_key z = record_key r" unfolding z_def by (rule someI_ex)
    have "wr_op z = wr_op r"
      by (rule assms(2) [unfolded ops_determined_def, rule_format]) (use z that in blast)+
    then show ?thesis by (simp only: g_def z_def)
  qed
  have "map wr_op (sort_key record_key zs) = map g (sort (map record_key zs))" if "set zs = set xs" for zs
  proof -
    have "map wr_op (sort_key record_key zs) = map g (map record_key (sort_key record_key zs))"
      unfolding map_map by (rule map_cong [OF refl]) (use g that in simp)
    then show ?thesis by (simp only: map_sort_key)
  qed
  moreover have "sort (map record_key xs) = sort (map record_key ys)"
    by (rule properties_for_sort) (simp_all add: assms(1))
  ultimately show ?thesis using set by simp
qed

lemma materialize_converges:
  assumes "mset xs = mset ys" "ops_determined xs"
  shows "materialize_state xs = materialize_state ys"
  unfolding materialize_state_def foldl_apply_ops by (simp only: sorted_ops [OF assms])

text \<open>What an operation makes of a path.\<close>

definition op_effect :: "FileOp \<Rightarrow> string \<Rightarrow> node_hash option option" where
  "op_effect op p =
     (case op of
        FileCreate path h \<Rightarrow> if p = path then Some (Some h) else None
      | FileModify path _ h _ \<Rightarrow> if p = path then Some (Some h) else None
      | FileDelete path _ \<Rightarrow> if p = path then Some None else None
      | FileRename old_path new_path h \<Rightarrow>
          if p = new_path then Some (Some h) else if p = old_path then Some None else None)"

lemma op_effect_touches: "op_effect op p \<noteq> None \<longleftrightarrow> p \<in> set (op_paths op)"
  by (cases op) (auto simp: op_effect_def)

lemma apply_op_get:
  assumes "bt_wf st"
  shows "bt_wf (apply_op_to_state st op)"
    "bt_get (apply_op_to_state st op) p = (case op_effect op p of None \<Rightarrow> bt_get st p | Some v \<Rightarrow> Some v)"
  using assms by (cases op; simp add: apply_op_to_state_def op_effect_def)+

lemma foldl_ops_get:
  assumes "bt_wf st"
  shows "bt_wf (foldl apply_op_to_state st ops) \<and> bt_get (foldl apply_op_to_state st ops) p =
    (case find (\<lambda>op. p \<in> set (op_paths op)) (rev ops) of
       None \<Rightarrow> bt_get st p | Some op \<Rightarrow> op_effect op p)"
proof (induction ops rule: rev_induct)
  case (snoc op ops)
  then have wf: "bt_wf (foldl apply_op_to_state st ops)" by simp
  show ?case
    using apply_op_get [OF wf, of op] snoc op_effect_touches [of op p] by (auto split: option.splits)
qed (simp add: assms)

text \<open>The last record that touches a path decides what it is.\<close>

lemma materialize_get:
  "bt_wf (materialize_state recs) \<and> bt_get (materialize_state recs) p =
    (case find (\<lambda>op. p \<in> set (op_paths op)) (rev (map wr_op (sort_key record_key recs))) of
       None \<Rightarrow> None | Some op \<Rightarrow> op_effect op p)"
proof -
  have "bt_get [] p = None" by (simp add: bt_get_def)
  then show ?thesis
    unfolding materialize_state_def foldl_apply_ops
    using foldl_ops_get [OF bt_wf_Nil, of "map wr_op (sort_key record_key recs)" p] by (auto split: option.split)
qed

section \<open>Export\<close>

lemma bt_get_Cons: "bt_get ((k, v) # m) p = (if p = k then Some v else bt_get m p)"
  by (simp add: bt_get_def)

lemma bt_wf_fresh: "bt_wf ((k, v) # m) \<Longrightarrow> bt_get m k = None"
  by (auto simp: bt_wf_Cons bt_get_def map_of_eq_None_iff)

lemma export_loop_get:
  assumes "export_loop io st files stats = (files', Ok stats')" "bt_wf st" "bt_wf files"
  shows "bt_wf files' \<and> bt_get files' p = (case bt_get st p of
      None \<Rightarrow> bt_get files p | Some None \<Rightarrow> None | Some (Some h) \<Rightarrow> Some (file_body p h))"
  using assms
proof (induction io st files stats rule: export_loop.induct)
  case (2 io path h st files stats)
  note fresh = bt_wf_fresh [OF "2.prems"(2)]
  have io: "io path = None" using "2.prems"(1) by (cases "io path") simp_all
  then show ?case
    using "2.IH" [OF io] "2.prems" fresh by (cases "p = path") (simp_all add: bt_get_Cons bt_wf_Cons split: option.split)
next
  case (3 io path st files stats)
  note fresh = bt_wf_fresh [OF "3.prems"(2)]
  show ?case
  proof (cases "bt_contains files path")
    case True
    with "3.prems"(1) have io: "io path = None" by (cases "io path") simp_all
    then show ?thesis
      using "3.IH"(1) [OF True io] "3.prems" fresh True by (cases "p = path") (simp_all add: bt_get_Cons bt_wf_Cons split: option.split)
  next
    case False
    then have "bt_get files path = None" by (simp add: bt_contains_def del: bt_contains_iff)
    then show ?thesis
      using "3.IH"(2) [OF False] "3.prems" fresh False by (cases "p = path") (simp_all add: bt_get_Cons bt_wf_Cons split: option.split)
  qed
qed (simp add: bt_get_def)

lemma export_loop_total: "\<exists>tree' stats'. export_loop (\<lambda>_. None) st tree stats = (tree', Ok stats')"
  by (induction "\<lambda>_ :: string. None :: string option" st tree stats rule: export_loop.induct) simp_all

lemma export_get:
  assumes "export_state_to_worktree io recs tree = (tree', Ok stats)" "bt_wf tree"
  shows "bt_get tree' p = (case bt_get (materialize_state recs) p of
      None \<Rightarrow> bt_get tree p | Some None \<Rightarrow> None | Some (Some h) \<Rightarrow> Some (file_body p h))"
  using export_loop_get [of io "materialize_state recs" tree _ tree' stats p] materialize_get [of recs] assms
  by (auto simp: export_state_to_worktree_def split: option.splits)

section \<open>Conflicts\<close>

text \<open>Two records of the same second that touch the same path.\<close>

definition clash :: "WorkRecord list \<Rightarrow> string \<Rightarrow> bool" where
  "clash recs p \<longleftrightarrow> (\<exists>r \<in> set recs. \<exists>r' \<in> set recs. p \<in> set (op_paths (wr_op r)) \<and> p \<in> set (op_paths (wr_op r')) \<and>
     wr_timestamp r = wr_timestamp r' \<and> wr_hash r \<noteq> wr_hash r')"

text \<open>The last record of \<open>recs\<close> that touches a path.\<close>

definition last_touch :: "WorkRecord list \<Rightarrow> string \<Rightarrow> (u64 \<times> node_hash) option" where
  "last_touch recs p = map_option record_key (find (\<lambda>r. p \<in> set (op_paths (wr_op r))) (rev recs))"

lemma touch_paths:
  assumes "foldl (touch_path r) (m, cs) ps = (m', cs')"
  shows "bt_get m' p = (if p \<in> set ps then Some (record_key r) else bt_get m p) \<and>
    pc_path ` set cs' = pc_path ` set cs \<union>
      {p \<in> set ps. \<exists>h. bt_get m p = Some (wr_timestamp r, h) \<and> h \<noteq> wr_hash r}"
  using assms
proof (induction ps arbitrary: m' cs' p rule: rev_induct)
  case (snoc q ps)
  obtain m1 cs1 where f: "foldl (touch_path r) (m, cs) ps = (m1, cs1)" by fastforce
  note IH = snoc.IH [OF f]
  have t: "touch_path r (m1, cs1) q = (m', cs')" using snoc.prems f by simp
  then have m': "m' = bt_insert q (record_key r) m1" by (simp add: touch_path_def Let_def)
  have cs': "pc_path ` set cs' = pc_path ` set cs1 \<union> {p. p = q \<and> (\<exists>h. bt_get m1 p = Some (wr_timestamp r, h) \<and> h \<noteq> wr_hash r)}"
    using t by (auto simp: touch_path_def Let_def split: option.splits if_splits)
  have "bt_get m1 q = (if q \<in> set ps then Some (record_key r) else bt_get m q)" using IH by blast
  moreover have "pc_path ` set cs1 = pc_path ` set cs \<union> {p \<in> set ps. \<exists>h. bt_get m p = Some (wr_timestamp r, h) \<and> h \<noteq> wr_hash r}"
    using IH by blast
  ultimately have "pc_path ` set cs' = pc_path ` set cs \<union>
      {p \<in> set (ps @ [q]). \<exists>h. bt_get m p = Some (wr_timestamp r, h) \<and> h \<noteq> wr_hash r}"
    unfolding cs' by (auto split: if_splits)
  moreover have "bt_get m' p = (if p \<in> set (ps @ [q]) then Some (record_key r) else bt_get m p)"
    using IH by (auto simp: m')
  ultimately show ?case by blast
qed simp

lemma last_touch_snoc:
  "last_touch (rs @ [r]) p = (if p \<in> set (op_paths (wr_op r)) then Some (record_key r) else last_touch rs p)"
  by (simp add: last_touch_def)

lemma last_touch_max:
  assumes "sorted (map record_key rs)" "last_touch rs p = Some k" "r \<in> set rs" "p \<in> set (op_paths (wr_op r))"
  shows "record_key r \<le> k"
  using assms
proof (induction rs rule: rev_induct)
  case (snoc x rs)
  then show ?case by (cases "r = x") (auto simp: last_touch_snoc sorted_append split: if_splits)
qed simp

lemma last_touch_mem:
  "last_touch rs p = Some k \<Longrightarrow> \<exists>r \<in> set rs. p \<in> set (op_paths (wr_op r)) \<and> record_key r = k"
  by (auto simp: last_touch_def find_Some_iff in_set_conv_nth) (metis diff_Suc_less length_greater_0_conv length_rev nth_mem rev_nth list.size(3) not_less_zero set_rev)

lemma last_touch_none: "last_touch rs p = None \<longleftrightarrow> (\<forall>r \<in> set rs. p \<notin> set (op_paths (wr_op r)))"
  by (auto simp: last_touch_def find_None_iff)

lemma clash_snoc:
  assumes "sorted (map record_key (rs @ [r]))"
  shows "clash (rs @ [r]) p \<longleftrightarrow> clash rs p \<or>
    p \<in> set (op_paths (wr_op r)) \<and> (\<exists>h. last_touch rs p = Some (wr_timestamp r, h) \<and> h \<noteq> wr_hash r)"
proof
  assume c: "clash (rs @ [r]) p"
  show "clash rs p \<or> p \<in> set (op_paths (wr_op r)) \<and> (\<exists>h. last_touch rs p = Some (wr_timestamp r, h) \<and> h \<noteq> wr_hash r)"
  proof (cases "clash rs p")
    case False
    from c obtain x y where xy: "x \<in> set (rs @ [r])" "y \<in> set (rs @ [r])" "p \<in> set (op_paths (wr_op x))"
      "p \<in> set (op_paths (wr_op y))" "wr_timestamp x = wr_timestamp y" "wr_hash x \<noteq> wr_hash y"
      unfolding clash_def by blast
    have "x \<notin> set rs \<or> y \<notin> set rs" using False xy unfolding clash_def by blast
    then have "x = r \<and> y \<in> set rs \<or> y = r \<and> x \<in> set rs" using xy by auto
    then obtain x where x: "x \<in> set rs" "p \<in> set (op_paths (wr_op x))" "p \<in> set (op_paths (wr_op r))"
      "wr_timestamp x = wr_timestamp r" "wr_hash x \<noteq> wr_hash r"
      using xy by metis
    then obtain k where k: "last_touch rs p = Some k" using last_touch_none by fastforce
    obtain y where y: "y \<in> set rs" "p \<in> set (op_paths (wr_op y))" "record_key y = k" using last_touch_mem [OF k] by blast
    have "record_key x \<le> k" using last_touch_max [OF _ k x(1,2)] assms by (simp add: sorted_append)
    moreover have "k \<le> record_key r" using assms y by (auto simp: sorted_append)
    ultimately have ts: "wr_timestamp y = wr_timestamp r" using x(4) y(3) by (auto simp: less_eq_prod_def)
    have "wr_hash y \<noteq> wr_hash r"
    proof
      assume "wr_hash y = wr_hash r"
      then have "clash rs p" unfolding clash_def using x(1,2,4,5) y(1,2) ts by (intro bexI [of _ x] bexI [of _ y]) auto
      with False show False ..
    qed
    with k y ts x(3) show ?thesis by auto
  qed simp
next
  assume "clash rs p \<or> p \<in> set (op_paths (wr_op r)) \<and> (\<exists>h. last_touch rs p = Some (wr_timestamp r, h) \<and> h \<noteq> wr_hash r)"
  then show "clash (rs @ [r]) p"
  proof
    assume "clash rs p" then show ?thesis unfolding clash_def by auto
  next
    assume "p \<in> set (op_paths (wr_op r)) \<and> (\<exists>h. last_touch rs p = Some (wr_timestamp r, h) \<and> h \<noteq> wr_hash r)"
    then obtain h y where "p \<in> set (op_paths (wr_op r))" "h \<noteq> wr_hash r" "y \<in> set rs" "p \<in> set (op_paths (wr_op y))"
      "record_key y = (wr_timestamp r, h)" using last_touch_mem by metis
    then show ?thesis unfolding clash_def by auto
  qed
qed

lemma analysis_loop:
  assumes "sorted (map record_key rs)"
    "foldl (\<lambda>acc r. foldl (touch_path r) acc (op_paths (wr_op r))) ([], []) rs = (m, cs)"
  shows "bt_get m p = last_touch rs p \<and> (p \<in> pc_path ` set cs \<longleftrightarrow> clash rs p)"
  using assms
proof (induction rs arbitrary: m cs p rule: rev_induct)
  case Nil
  then show ?case by (simp add: last_touch_def clash_def bt_get_def)
next
  case (snoc r rs)
  obtain m1 cs1 where f: "foldl (\<lambda>acc r. foldl (touch_path r) acc (op_paths (wr_op r))) ([], []) rs = (m1, cs1)" by fastforce
  have sorted: "sorted (map record_key rs)" using snoc.prems(1) by (simp add: sorted_append)
  note IH = snoc.IH [OF sorted f]
  have t: "foldl (touch_path r) (m1, cs1) (op_paths (wr_op r)) = (m, cs)" using snoc.prems(2) f by simp
  note tp = touch_paths [OF t]
  have "bt_get m p = last_touch (rs @ [r]) p" using tp [of p] IH [of p] by (simp add: last_touch_snoc)
  moreover have "p \<in> pc_path ` set cs \<longleftrightarrow> clash (rs @ [r]) p"
    unfolding clash_snoc [OF snoc.prems(1)] using tp [of p] IH [of p] by auto
  ultimately show ?case by blast
qed

lemma conflicts_iff: "p \<in> pc_path ` set (ms_conflicts (analyze_records recs)) \<longleftrightarrow> clash recs p"
proof -
  obtain m cs where f: "foldl (\<lambda>acc r. foldl (touch_path r) acc (op_paths (wr_op r))) ([], []) (sort_key record_key recs) = (m, cs)"
    by fastforce
  have "clash (sort_key record_key recs) p = clash recs p" by (simp add: clash_def)
  with analysis_loop [OF _ f, of p] f show ?thesis by (simp add: analyze_records_def Let_def)
qed

section \<open>A change that is not staged\<close>

lemma text_lines_one: "CHR 0x0A \<notin> set l \<Longrightarrow> l \<noteq> [] \<Longrightarrow> text_lines (l @ [CHR 0x0A]) = [l]"
proof (induction l)
  case (Cons c l)
  then show ?case by (cases "l = []") auto
qed simp

lemma ws_prefix_ascii: "\<forall>c \<in> set s. code c \<in> {32..126} \<Longrightarrow> ws_prefix s \<le> 1"
  by (cases s rule: ws_prefix.cases) (auto split: list.splits)

lemma ascii_end:
  assumes "\<forall>x \<in> set s. code x \<in> {32..126}" "s \<noteq> []" "33 \<le> code (last s)"
  shows "ws_suffix_rev (rev s) = 0" "strip_cr s = s"
proof -
  obtain t l where s: "s = t @ [l]" using assms(2) by (metis append_butlast_last_id)
  have "ws_prefix (rev (take k (rev s))) \<le> 1" for k
    using assms(1) by (intro ws_prefix_ascii) (auto dest: in_set_takeD)
  from this [of 2] this [of 3] have "ws_prefix (rev (take 2 (rev s))) \<noteq> 2" "ws_prefix (rev (take 3 (rev s))) \<noteq> 3" by linarith+
  moreover have "ws_prefix [l] = 0" using assms(3) assms(1) by (intro ws_prefix_visible) (auto simp: s)
  ultimately show "ws_suffix_rev (rev s) = 0" by (simp add: ws_suffix_rev_def s)
  show "strip_cr s = s"
    using assms(3) by (auto simp: strip_cr_def strip_suffix_def ends_with_def starts_with_def s unwrap_or_def)
qed

text \<open>The line is trimmed before its columns are read, which moves the path by one.\<close>

lemma unstaged_change:
  assumes "\<forall>x \<in> set (c # d # p). code x \<in> {33..126}"
  shows "\<exists>r. work_records_from_workspace H canon read (Ok ('' M '' @ (c # d # p) @ [CHR 0x0A])) author ts = Some (Ok [r]) \<and>
    wr_op r = FileModify (d # p) (replicate 32 (CHR 0x00)) (hash_file_or_path H read (d # p)) None"
proof -
  let ?p = "c # d # p"
  have end_vis: "33 \<le> code (last ?p)" using assms last_in_set [of ?p] by fastforce
  have asc: "\<forall>x \<in> set ('' M '' @ ?p). code x \<in> {32..126}" using assms by fastforce
  have nl: "CHR 0x0A \<notin> set ('' M '' @ ?p)" using assms by auto
  have "text_lines ('' M '' @ ?p @ [CHR 0x0A]) = ['' M '' @ ?p]" using text_lines_one [OF nl] by simp
  moreover have "strip_cr ('' M '' @ ?p) = '' M '' @ ?p" using asc end_vis by (intro ascii_end(2)) simp_all
  moreover have "trim ('' M '' @ ?p) = ''M '' @ ?p"
  proof -
    have "trimmed (''M '' @ ?p)"
      using asc end_vis ascii_end(1) [of "''M '' @ ?p"] by (simp add: trimmed_def)
    then have "trim (''M '' @ ?p) = ''M '' @ ?p" by (rule trim_trimmed)
    moreover have "trim (CHR '' '' # ''M '' @ ?p) = trim (''M '' @ ?p)"
      by (simp add: trim_def trim_start.simps [of "CHR '' '' # _"])
    ultimately show ?thesis by simp
  qed
  ultimately have ls: "git_status_porcelain (Ok ('' M '' @ ?p @ [CHR 0x0A])) = Ok [''M '' @ ?p]"
    by (simp add: git_status_porcelain_def)
  have "\<not> cont c" "\<not> cont d" using assms by auto
  moreover have "trim (d # p) = d # p" by (rule trim_visible) (use assms in fastforce)
  ultimately show ?thesis
    by (simp add: work_records_from_workspace_def ls [simplified] status_op_def Let_def)
qed

end
