(* ===== verification/Pid_Lock.thy ===== *)
theory Pid_Lock
  imports Work_Merge
begin

text \<open>
  The lock file of \<^verbatim>\<open>src/container/coordination.rs\<close> that processes take before they change a shared file: each
  operation of \<^verbatim>\<open>acquire_pid_lock\<close> and of its helpers on the file system is a step of its own, reading the lock and
  asking for its modification time too, and so is the removal when the guard is dropped, so that the steps of different
  processes interleave.  \<open>lw_alive\<close> is what \<^verbatim>\<open>pid_is_alive\<close> reports; it and the clock belong to the world.  Every
  created file has its own number, since a handle keeps writing to its file after the path was removed.
\<close>

section \<open>The lock file\<close>

text \<open>\<^verbatim>\<open>str::parse::<u32>\<close>.\<close>

definition parse_u32 :: "string \<Rightarrow> nat option" where
  "parse_u32 s =
     (let t = (case s of c # r \<Rightarrow> if c = CHR ''+'' then r else s | [] \<Rightarrow> s)
      in case parse_digits t of Some n \<Rightarrow> if n < 2 ^ 32 then Some n else None | None \<Rightarrow> None)"

definition strip_pid :: "string \<Rightarrow> string option" where
  "strip_pid l = (if starts_with l ''pid='' then Some (drop 4 l) else None)"

text \<open>The first line with the prefix decides, even if it does not hold a number.\<close>

definition lock_pid :: "string \<Rightarrow> nat option" where
  "lock_pid raw =
     (case List.map_filter strip_pid (map strip_cr (text_lines raw)) of
        [] \<Rightarrow> None
      | v # _ \<Rightarrow> parse_u32 (trim v))"

record lock_file =
  lf_inode :: nat
  lf_text :: string
  lf_modified :: nat

text \<open>A missing file has no modification time and is not stale; nor is one from the future.\<close>

definition stale_unparseable_lock :: "nat \<Rightarrow> nat \<Rightarrow> lock_file option \<Rightarrow> bool" where
  "stale_unparseable_lock now retry f =
     (case f of None \<Rightarrow> False | Some lf \<Rightarrow> now - lf_modified lf > retry * 4)"

text \<open>\<^verbatim>\<open>writeln!\<close> on an unbuffered file writes the pieces of its format one by one.\<close>

definition pid_pieces :: "nat \<Rightarrow> string list" where
  "pid_pieces pid = [''pid='', dec pid, [CHR 0x0A]]"

definition pid_line :: "nat \<Rightarrow> string" where
  "pid_line pid = concat (pid_pieces pid)"

section \<open>Processes\<close>

text \<open>
  Where a process is, with its deadline \<open>d\<close>: not at the lock; about to create the file; told that it exists and about to read
  it; about to ask for its modification time, having read at \<open>t\<close> a file without a number, or none; about to ask whether
  the process it names is alive; about to remove it as stale; about to look at the deadline and sleep; with file \<open>i\<close> open and these
  pieces to write; in possession of the lock; or returned with an error.
\<close>

datatype lock_pc =
    Away
  | Creating nat
  | Blocked nat
  | Statting nat nat
  | Checking nat nat
  | Removing nat
  | Waiting nat
  | Writing nat "string list"
  | Holding nat
  | GaveUp

record lock_world =
  lw_file :: "lock_file option"
  lw_next :: nat
  lw_now :: nat
  lw_alive :: "nat \<Rightarrow> bool"
  lw_pc :: "nat \<Rightarrow> lock_pc"

definition set_pc :: "nat \<Rightarrow> lock_pc \<Rightarrow> lock_world \<Rightarrow> lock_world" where
  "set_pc p pc w = w\<lparr>lw_pc := (lw_pc w)(p := pc)\<rparr>"

definition try_create :: "nat \<Rightarrow> nat \<Rightarrow> lock_world \<Rightarrow> lock_world" where
  "try_create p d w =
     (case lw_file w of
        Some _ \<Rightarrow> set_pc p (Blocked d) w
      | None \<Rightarrow>
          set_pc p (Writing (lw_next w) (pid_pieces p))
            (w\<lparr>lw_file := Some \<lparr>lf_inode = lw_next w, lf_text = [], lf_modified = lw_now w\<rparr>, lw_next := lw_next w + 1\<rparr>))"

definition write_piece :: "nat \<Rightarrow> nat \<Rightarrow> string list \<Rightarrow> lock_world \<Rightarrow> lock_world" where
  "write_piece p i todo w =
     (let put = (\<lambda>lf. if lf_inode lf = i then lf\<lparr>lf_text := lf_text lf @ hd todo, lf_modified := lw_now w\<rparr> else lf)
      in set_pc p (if tl todo = [] then Holding i else Writing i (tl todo))
           (w\<lparr>lw_file := map_option put (lw_file w)\<rparr>))"

definition read_lock :: "nat \<Rightarrow> nat \<Rightarrow> lock_world \<Rightarrow> lock_world" where
  "read_lock p d w =
     set_pc p
       (case lw_file w of
          None \<Rightarrow> Statting d (lw_now w)
        | Some lf \<Rightarrow>
            (case lock_pid (lf_text lf) of None \<Rightarrow> Statting d (lw_now w) | Some pid \<Rightarrow> Checking d pid)) w"

definition stat_lock :: "nat \<Rightarrow> nat \<Rightarrow> nat \<Rightarrow> lock_world \<Rightarrow> lock_world" where
  "stat_lock retry p d w =
     set_pc p (if stale_unparseable_lock (lw_now w) retry (lw_file w) then Removing d else Waiting d) w"

definition check_pid :: "nat \<Rightarrow> nat \<Rightarrow> nat \<Rightarrow> lock_world \<Rightarrow> lock_world" where
  "check_pid p d pid w = set_pc p (if lw_alive w pid then Waiting d else Removing d) w"

definition remove_stale :: "nat \<Rightarrow> nat \<Rightarrow> lock_world \<Rightarrow> lock_world" where
  "remove_stale p d w = set_pc p (Creating d) (w\<lparr>lw_file := None\<rparr>)"

definition retry_or_give_up :: "nat \<Rightarrow> nat \<Rightarrow> lock_world \<Rightarrow> lock_world" where
  "retry_or_give_up p d w = set_pc p (if lw_now w \<ge> d then GaveUp else Creating d) w"

text \<open>Dropping the guard removes whatever file is at the path.\<close>

definition release_lock :: "nat \<Rightarrow> lock_world \<Rightarrow> lock_world" where
  "release_lock p w = set_pc p Away (w\<lparr>lw_file := None\<rparr>)"

text \<open>The next operation of a process.\<close>

definition advance :: "nat \<Rightarrow> nat \<Rightarrow> lock_world \<Rightarrow> lock_world option" where
  "advance retry p w =
     (case lw_pc w p of
        Creating d \<Rightarrow> Some (try_create p d w)
      | Blocked d \<Rightarrow> Some (read_lock p d w)
      | Statting d _ \<Rightarrow> Some (stat_lock retry p d w)
      | Checking d pid \<Rightarrow> Some (check_pid p d pid w)
      | Removing d \<Rightarrow> Some (remove_stale p d w)
      | Waiting d \<Rightarrow> Some (retry_or_give_up p d w)
      | Writing i todo \<Rightarrow> Some (write_piece p i todo w)
      | _ \<Rightarrow> None)"

text \<open>
  What can happen: a process asks for the lock, takes its next operation, cannot open the file for another reason, fails
  to write to it (which it ignores), drops the guard or dies; time passes.
\<close>

datatype lock_event = Ask nat | Go nat | OpenFails nat | WriteFails nat | Drop nat | Die nat | Tick

fun lock_do :: "nat \<Rightarrow> nat \<Rightarrow> lock_event \<Rightarrow> lock_world \<Rightarrow> lock_world option" where
  "lock_do timeout retry (Ask p) w =
     (if lw_alive w p \<and> p < 2 ^ 31 \<and> lw_pc w p \<in> {Away, GaveUp} then Some (set_pc p (Creating (lw_now w + timeout)) w)
      else None)"
| "lock_do timeout retry (Go p) w = (if lw_alive w p then advance retry p w else None)"
| "lock_do timeout retry (OpenFails p) w =
     (case lw_pc w p of Creating d \<Rightarrow> if lw_alive w p then Some (set_pc p GaveUp w) else None | _ \<Rightarrow> None)"
| "lock_do timeout retry (WriteFails p) w =
     (case lw_pc w p of Writing i _ \<Rightarrow> if lw_alive w p then Some (set_pc p (Holding i) w) else None | _ \<Rightarrow> None)"
| "lock_do timeout retry (Drop p) w =
     (case lw_pc w p of Holding _ \<Rightarrow> if lw_alive w p then Some (release_lock p w) else None | _ \<Rightarrow> None)"
| "lock_do timeout retry (Die p) w =
     (if lw_alive w p then Some (set_pc p Away (w\<lparr>lw_alive := (lw_alive w)(p := False)\<rparr>)) else None)"
| "lock_do timeout retry Tick w = Some (w\<lparr>lw_now := lw_now w + 1\<rparr>)"

inductive lock_step :: "nat \<Rightarrow> nat \<Rightarrow> lock_world \<Rightarrow> lock_world \<Rightarrow> bool" for timeout retry where
  lock_event: "lock_do timeout retry a w = Some w' \<Longrightarrow> lock_step timeout retry w w'"

definition holds_pid_lock :: "lock_world \<Rightarrow> nat \<Rightarrow> bool" where
  "holds_pid_lock w p \<longleftrightarrow> lw_alive w p \<and> (\<exists>i. lw_pc w p = Holding i)"

text \<open>No lock file, and nobody at the lock.\<close>

definition lock_free :: "lock_world \<Rightarrow> bool" where
  "lock_free w \<longleftrightarrow> lw_file w = None \<and> (\<forall>p. lw_pc w p = Away)"

section \<open>What a process writes\<close>

lemma text_lines_open: "CHR 0x0A \<notin> set l \<Longrightarrow> l \<noteq> [] \<Longrightarrow> text_lines l = [l]"
proof (induction l)
  case (Cons c l)
  then show ?case by (cases "l = []") auto
qed simp

lemma lock_pid_number:
  assumes "p < 2 ^ 32" "tail = [] \<or> tail = [CHR 0x0A]"
  shows "lock_pid (''pid='' @ dec p @ tail) = Some p"
proof -
  have digits: "\<forall>c \<in> set (dec p). is_digit c" by (blast dest: dec_digits)
  then have vis: "\<forall>c \<in> set (''pid='' @ dec p). code c \<in> {33..126}" by (auto simp: is_digit_def)
  have nl: "CHR 0x0A \<notin> set (''pid='' @ dec p)" using vis by fastforce
  have "text_lines (''pid='' @ dec p @ tail) = [''pid='' @ dec p]"
    using assms(2) text_lines_one [OF nl] text_lines_open [OF nl] by (auto simp del: text_lines.simps)
  moreover have "strip_cr (''pid='' @ dec p) = ''pid='' @ dec p"
    using vis by (intro ascii_end(2)) (auto simp: last_in_set dest!: bspec)
  moreover have "trim (dec p) = dec p" using vis by (intro trim_visible) auto
  moreover have "parse_u32 (dec p) = Some p"
  proof -
    obtain c t where d: "dec p = c # t" by (cases "dec p") auto
    then show ?thesis using assms(1) dec_head_digit [OF d] parse_digits_dec [of p] by (simp add: parse_u32_def)
  qed
  ultimately show ?thesis by (simp add: lock_pid_def strip_pid_def map_filter_simps starts_with_def)
qed

lemma lock_pid_line: "p < 2 ^ 32 \<Longrightarrow> lock_pid (pid_line p) = Some p"
  using lock_pid_number [of p "[CHR 0x0A]"] by (simp add: pid_line_def pid_pieces_def)

text \<open>A line that is not finished names its process or none.\<close>

lemma lock_pid_partial:
  assumes "p < 2 ^ 32" "pid_pieces p = written @ rest"
  shows "lock_pid (concat written) \<in> {None, Some p}"
proof -
  have e: "lock_pid [] = None" "lock_pid ''pid='' = None" by code_simp+
  have "written = [] \<or> written = [''pid=''] \<or> written = [''pid='', dec p] \<or> written = pid_pieces p"
    using assms(2) by (auto simp: pid_pieces_def Cons_eq_append_conv)
  then show ?thesis
    using e lock_pid_number [OF assms(1), of "[]"] lock_pid_line [OF assms(1)]
    by (auto simp: pid_line_def)
qed

section \<open>Exclusion\<close>

text \<open>
  Owners write their number within four retries of their last write to the file, and whoever read a lock without a
  number asks for its time within four retries.
\<close>

definition prompt :: "nat \<Rightarrow> lock_world \<Rightarrow> bool" where
  "prompt retry w \<longleftrightarrow>
     (\<forall>p i todo lf. lw_pc w p = Writing i todo \<longrightarrow> lw_file w = Some lf \<longrightarrow> lw_now w - lf_modified lf \<le> retry * 4)"

definition swift :: "nat \<Rightarrow> lock_world \<Rightarrow> bool" where
  "swift retry w \<longleftrightarrow> (\<forall>p d t. lw_pc w p = Statting d t \<longrightarrow> lw_now w - t \<le> retry * 4)"

text \<open>Steps in which nobody dies, no write fails and owners are prompt.\<close>

inductive calm_step :: "nat \<Rightarrow> nat \<Rightarrow> lock_world \<Rightarrow> lock_world \<Rightarrow> bool" for timeout retry where
  calm: "lock_do timeout retry a w = Some w' \<Longrightarrow> (\<forall>p. a \<noteq> Die p \<and> a \<noteq> WriteFails p) \<Longrightarrow> prompt retry w' \<Longrightarrow>
    calm_step timeout retry w w'"

definition orderly_step :: "nat \<Rightarrow> nat \<Rightarrow> lock_world \<Rightarrow> lock_world \<Rightarrow> bool" where
  "orderly_step timeout retry w w' \<longleftrightarrow> calm_step timeout retry w w' \<and> swift retry w'"

fun owns :: "lock_pc \<Rightarrow> nat \<Rightarrow> bool" where
  "owns (Writing i _) j = (i = j)"
| "owns (Holding i) j = (i = j)"
| "owns _ _ = False"

definition owner_text :: "lock_world \<Rightarrow> lock_file \<Rightarrow> nat \<Rightarrow> bool" where
  "owner_text w lf p \<longleftrightarrow>
     (case lw_pc w p of
        Writing i todo \<Rightarrow> i = lf_inode lf \<and> todo \<noteq> [] \<and> (\<exists>written. pid_pieces p = written @ todo \<and> lf_text lf = concat written)
      | Holding i \<Rightarrow> i = lf_inode lf \<and> lf_text lf = pid_line p
      | _ \<Rightarrow> False)"

text \<open>What a process that is judging the lock has seen still holds.\<close>

definition judging :: "lock_world \<Rightarrow> nat \<Rightarrow> bool" where
  "judging w q \<longleftrightarrow>
     (case lw_pc w q of
        Removing _ \<Rightarrow> False
      | Statting _ t \<Rightarrow> t \<le> lw_now w \<and>
          (\<forall>lf. lw_file w = Some lf \<longrightarrow> lock_pid (lf_text lf) \<noteq> None \<longrightarrow> t \<le> lf_modified lf)
      | Checking _ pid \<Rightarrow> lw_alive w pid
      | _ \<Rightarrow> True)"

lemma judging_at:
  "judging (set_pc p pc w) p \<longleftrightarrow>
     (case pc of
        Removing _ \<Rightarrow> False
      | Statting _ t \<Rightarrow> t \<le> lw_now w \<and>
          (\<forall>lf. lw_file w = Some lf \<longrightarrow> lock_pid (lf_text lf) \<noteq> None \<longrightarrow> t \<le> lf_modified lf)
      | Checking _ pid \<Rightarrow> lw_alive w pid
      | _ \<Rightarrow> True)"
  by (simp add: judging_def set_pc_def split: lock_pc.splits)

definition lock_inv :: "lock_world \<Rightarrow> bool" where
  "lock_inv w \<longleftrightarrow>
     (\<forall>q. judging w q) \<and>
     (\<forall>p. lw_pc w p \<noteq> Away \<longrightarrow> lw_alive w p \<and> p < 2 ^ 31) \<and>
     (\<forall>lf. lw_file w = Some lf \<longrightarrow> (\<exists>p. owner_text w lf p)) \<and>
     (\<forall>p i. owns (lw_pc w p) i \<longrightarrow> map_option lf_inode (lw_file w) = Some i) \<and>
     (\<forall>p q i j. owns (lw_pc w p) i \<longrightarrow> owns (lw_pc w q) j \<longrightarrow> p = q)"

lemma lock_invD:
  assumes "lock_inv w"
  shows "judging w q" "lw_pc w p \<noteq> Away \<Longrightarrow> lw_alive w p" "lw_pc w p \<noteq> Away \<Longrightarrow> p < 2 ^ 31"
    "lw_file w = Some lf \<Longrightarrow> \<exists>p. owner_text w lf p"
    "owns (lw_pc w p) i \<Longrightarrow> map_option lf_inode (lw_file w) = Some i"
    "owns (lw_pc w p) i \<Longrightarrow> owns (lw_pc w q) j \<Longrightarrow> p = q"
  using assms unfolding lock_inv_def by blast+

lemma owner_owns: "owner_text w lf p \<Longrightarrow> owns (lw_pc w p) (lf_inode lf)"
  by (auto simp: owner_text_def split: lock_pc.splits)

text \<open>The number in the file, if there is one, is that of its owner, who is alive.\<close>

lemma owner_pid:
  assumes "lock_inv w" "lw_file w = Some lf" "lock_pid (lf_text lf) = Some pid"
  shows "lw_alive w pid"
proof -
  obtain p where p: "owner_text w lf p" using lock_invD(4) [OF assms(1,2)] by blast
  then have a: "lw_pc w p \<noteq> Away" by (auto simp: owner_text_def)
  then have "p < 2 ^ 32" using lock_invD(3) [OF assms(1)] by fastforce
  then have "lock_pid (lf_text lf) \<in> {None, Some p}"
    using p lock_pid_line [of p]
    by (auto simp: owner_text_def dest!: lock_pid_partial [OF \<open>p < 2 ^ 32\<close>] split: lock_pc.splits)
  with assms(3) a show ?thesis using lock_invD(2) [OF assms(1)] by auto
qed

text \<open>A lock without a number belongs to somebody who is still writing.\<close>

lemma owner_writing:
  assumes "lock_inv w" "lw_file w = Some lf" "lock_pid (lf_text lf) = None"
  shows "\<exists>p i todo. lw_pc w p = Writing i todo"
proof -
  obtain p where p: "owner_text w lf p" using lock_invD(4) [OF assms(1,2)] by blast
  then have "lw_pc w p \<noteq> Away" by (auto simp: owner_text_def)
  then have "p < 2 ^ 32" using lock_invD(3) [OF assms(1)] by fastforce
  with p lock_pid_line assms(3) show ?thesis by (auto simp: owner_text_def split: lock_pc.splits)
qed

lemma not_stale:
  assumes "lock_inv w" "prompt retry w" "swift retry w" "lw_pc w q = Statting d t"
  shows "\<not> stale_unparseable_lock (lw_now w) retry (lw_file w)"
proof (cases "lw_file w")
  case (Some lf)
  have "lw_now w - lf_modified lf \<le> retry * 4"
  proof (cases "lock_pid (lf_text lf)")
    case None
    then show ?thesis using owner_writing [OF assms(1) Some] assms(2) Some unfolding prompt_def by blast
  next
    case (Some pid)
    then have "t \<le> lf_modified lf"
      using lock_invD(1) [OF assms(1), of q] assms(4) \<open>lw_file w = Some lf\<close> by (auto simp: judging_def)
    moreover have "lw_now w - t \<le> retry * 4" using assms(3,4) unfolding swift_def by blast
    ultimately show ?thesis by linarith
  qed
  then show ?thesis using Some by (simp add: stale_unparseable_lock_def)
qed (simp add: stale_unparseable_lock_def)

text \<open>A process that does not own the lock moves without touching it.\<close>

lemma lock_inv_move:
  assumes inv: "lock_inv w" and p: "lw_alive w p" "p < 2 ^ 31"
    and pc: "\<And>i. \<not> owns (lw_pc w p) i" "\<And>i. \<not> owns pc i" "judging (set_pc p pc w) p"
  shows "lock_inv (set_pc p pc w)"
  unfolding lock_inv_def
proof (intro conjI)
  show "\<forall>q. judging (set_pc p pc w) q"
  proof
    fix q
    show "judging (set_pc p pc w) q"
      using pc(3) lock_invD(1) [OF inv, of q] by (cases "q = p") (auto simp: judging_def set_pc_def split: lock_pc.splits)
  qed
  show "\<forall>q. lw_pc (set_pc p pc w) q \<noteq> Away \<longrightarrow> lw_alive (set_pc p pc w) q \<and> q < 2 ^ 31"
    using lock_invD(2,3) [OF inv] p by (simp add: set_pc_def)
  show "\<forall>lf. lw_file (set_pc p pc w) = Some lf \<longrightarrow> (\<exists>q. owner_text (set_pc p pc w) lf q)"
  proof (intro allI impI)
    fix lf assume "lw_file (set_pc p pc w) = Some lf"
    then obtain q where q: "owner_text w lf q" using lock_invD(4) [OF inv, of lf] by (auto simp: set_pc_def)
    then have "q \<noteq> p" using pc(1) owner_owns by blast
    with q have "owner_text (set_pc p pc w) lf q" by (simp add: owner_text_def set_pc_def)
    then show "\<exists>q. owner_text (set_pc p pc w) lf q" ..
  qed
  show "\<forall>q i. owns (lw_pc (set_pc p pc w) q) i \<longrightarrow> map_option lf_inode (lw_file (set_pc p pc w)) = Some i"
    using lock_invD(5) [OF inv] pc(2) by (simp add: set_pc_def)
  show "\<forall>q r i j. owns (lw_pc (set_pc p pc w) q) i \<longrightarrow> owns (lw_pc (set_pc p pc w) r) j \<longrightarrow> q = r"
    using lock_invD(6) [OF inv] pc(2) by (auto simp: set_pc_def split: if_splits)
qed

lemma lock_inv_create:
  assumes inv: "lock_inv w" and p: "lw_pc w p = Creating d" and none: "lw_file w = None"
  shows "lock_inv (try_create p d w)"
proof -
  have own: "\<not> owns (lw_pc w q) i" for q i using lock_invD(5) [OF inv, of q i] none by auto
  have lock0: "lock_pid [] = None" by code_simp
  have "judging (try_create p d w) q" for q
    using lock_invD(1) [OF inv, of q] none lock0
    by (auto simp: judging_def try_create_def set_pc_def split: lock_pc.splits)
  moreover have "owner_text (try_create p d w) \<lparr>lf_inode = lw_next w, lf_text = [], lf_modified = lw_now w\<rparr> p"
    by (simp add: owner_text_def try_create_def none set_pc_def pid_pieces_def)
  ultimately show ?thesis
    unfolding lock_inv_def using own lock_invD(2,3) [OF inv] p none
    by (auto simp: try_create_def set_pc_def split: if_splits)
qed

lemma lock_inv_write:
  assumes inv: "lock_inv w" and p: "lw_pc w p = Writing i todo"
  shows "lock_inv (write_piece p i todo w)"
proof -
  have "owns (lw_pc w p) i" using p by simp
  note only = lock_invD(6) [OF inv this]
  obtain lf where lf: "lw_file w = Some lf" "lf_inode lf = i" using lock_invD(5) [OF inv \<open>owns (lw_pc w p) i\<close>] by auto
  have "owner_text w lf p" using lock_invD(4) [OF inv lf(1)] owner_owns only by blast
  then obtain written where written: "todo \<noteq> []" "pid_pieces p = written @ todo" "lf_text lf = concat written"
    using p by (auto simp: owner_text_def)
  define lf' where "lf' = lf\<lparr>lf_text := lf_text lf @ hd todo, lf_modified := lw_now w\<rparr>"
  let ?pc = "if tl todo = [] then Holding i else Writing i (tl todo)"
  have w': "lw_file (write_piece p i todo w) = Some lf'" "lw_pc (write_piece p i todo w) = (lw_pc w)(p := ?pc)"
    "lw_alive (write_piece p i todo w) = lw_alive w" "lw_now (write_piece p i todo w) = lw_now w"
    using lf by (simp_all add: write_piece_def set_pc_def lf'_def)
  have line: "lf_text lf' = concat (written @ [hd todo])" "pid_pieces p = (written @ [hd todo]) @ tl todo"
    using written by (simp_all add: lf'_def)
  then have owner: "owner_text (write_piece p i todo w) lf' p"
    using lf(2) unfolding owner_text_def w' by (auto simp: pid_line_def lf'_def simp del: concat_append)
  have p': "lw_alive w p" "p < 2 ^ 31" using lock_invD(2,3) [OF inv, of p] p by auto
  show ?thesis unfolding lock_inv_def
  proof (intro conjI)
    have "judging (write_piece p i todo w) q" for q
      using lock_invD(1) [OF inv, of q] unfolding judging_def w' by (auto simp: lf'_def split: lock_pc.splits)
    then show "\<forall>q. judging (write_piece p i todo w) q" ..
    show "\<forall>q. lw_pc (write_piece p i todo w) q \<noteq> Away \<longrightarrow> lw_alive (write_piece p i todo w) q \<and> q < 2 ^ 31"
      using lock_invD(2,3) [OF inv] p' by (simp add: w')
    show "\<forall>lf. lw_file (write_piece p i todo w) = Some lf \<longrightarrow> (\<exists>q. owner_text (write_piece p i todo w) lf q)"
      using owner by (auto simp: w')
    show "\<forall>q j. owns (lw_pc (write_piece p i todo w) q) j \<longrightarrow> map_option lf_inode (lw_file (write_piece p i todo w)) = Some j"
      using only lf(2) by (auto simp: w' lf'_def)
    show "\<forall>q r j k. owns (lw_pc (write_piece p i todo w) q) j \<longrightarrow> owns (lw_pc (write_piece p i todo w) r) k \<longrightarrow> q = r"
      using only by (auto simp: w')
  qed
qed

lemma lock_inv_release:
  assumes inv: "lock_inv w" and p: "lw_pc w p = Holding i"
  shows "lock_inv (release_lock p w)"
proof -
  have "owns (lw_pc w p) i" using p by simp
  note only = lock_invD(6) [OF inv this]
  have "judging (release_lock p w) q" for q
    using lock_invD(1) [OF inv, of q] by (auto simp: judging_def release_lock_def set_pc_def split: lock_pc.splits)
  then show ?thesis
    unfolding lock_inv_def using only lock_invD(2,3) [OF inv] by (auto simp: release_lock_def set_pc_def split: if_splits)
qed

lemma lock_inv_tick: "lock_inv w \<Longrightarrow> lock_inv (w\<lparr>lw_now := lw_now w + 1\<rparr>)"
  unfolding lock_inv_def judging_def owner_text_def by (auto split: lock_pc.splits) (metis le_Suc_eq)

text \<open>The operations of a process keep the invariant, if whoever judges the lock is in time.\<close>

lemma lock_inv_advance:
  assumes inv: "lock_inv w" and in_time: "prompt retry w" "swift retry w" and step: "advance retry p w = Some w'"
  shows "lock_inv w'"
proof -
  have "lw_pc w p \<noteq> Away" using step by (auto simp: advance_def)
  note p = lock_invD(2,3) [OF inv this]
  show ?thesis
  proof (cases "lw_pc w p")
    case (Creating d)
    then have w': "w' = try_create p d w" using step by (simp add: advance_def)
    show ?thesis
    proof (cases "lw_file w")
      case None
      then show ?thesis using lock_inv_create [OF inv Creating] w' by simp
    next
      case (Some lf)
      then have "w' = set_pc p (Blocked d) w" using w' by (simp add: try_create_def)
      then show ?thesis using Creating by (auto intro!: lock_inv_move [OF inv p] simp: judging_at)
    qed
  next
    case (Blocked d)
    have seen: "lock_pid (lf_text lf) = Some pid \<Longrightarrow> lw_file w = Some lf \<Longrightarrow> lw_alive w pid" for lf pid
      using owner_pid [OF inv] by blast
    have "w' = read_lock p d w" using step Blocked by (simp add: advance_def)
    then show ?thesis
      unfolding read_lock_def using Blocked seen
      by (auto intro!: lock_inv_move [OF inv p] simp: judging_at split: option.splits)
  next
    case (Statting d t)
    then have "w' = set_pc p (Waiting d) w"
      using step not_stale [OF inv in_time] by (simp add: advance_def stat_lock_def)
    then show ?thesis using Statting by (auto intro!: lock_inv_move [OF inv p] simp: judging_at)
  next
    case (Checking d pid)
    then have "lw_alive w pid" using lock_invD(1) [OF inv, of p] by (simp add: judging_def)
    then have "w' = set_pc p (Waiting d) w" using step Checking by (simp add: advance_def check_pid_def)
    then show ?thesis using Checking by (auto intro!: lock_inv_move [OF inv p] simp: judging_at)
  next
    case (Removing d)
    then show ?thesis using lock_invD(1) [OF inv, of p] by (simp add: judging_def)
  next
    case (Waiting d)
    then have "w' = set_pc p (if lw_now w \<ge> d then GaveUp else Creating d) w"
      using step by (simp add: advance_def retry_or_give_up_def)
    then show ?thesis using Waiting by (auto intro!: lock_inv_move [OF inv p] simp: judging_at)
  next
    case (Writing i todo)
    then show ?thesis using step lock_inv_write [OF inv Writing] by (simp add: advance_def)
  qed (use step in \<open>simp_all add: advance_def\<close>)
qed

lemma lock_inv_step:
  assumes inv: "lock_inv w" and in_time: "prompt retry w" "swift retry w" and step: "orderly_step timeout retry w w'"
  shows "lock_inv w'"
proof -
  obtain a where a: "lock_do timeout retry a w = Some w'" "\<And>p. a \<noteq> Die p \<and> a \<noteq> WriteFails p"
    using step by (auto simp: orderly_step_def elim!: calm_step.cases)
  show ?thesis
  proof (cases a)
    case (Ask p)
    then show ?thesis
      using a(1) by (auto intro!: lock_inv_move [OF inv] simp: judging_at split: if_splits)
  next
    case (Go p)
    then show ?thesis using a(1) lock_inv_advance [OF inv in_time] by (auto split: if_splits)
  next
    case (OpenFails p)
    then obtain d where p: "lw_pc w p = Creating d" "lw_alive w p" "w' = set_pc p GaveUp w"
      using a(1) by (auto split: lock_pc.splits if_splits)
    then have "p < 2 ^ 31" using lock_invD(3) [OF inv, of p] by simp
    with p show ?thesis by (auto intro!: lock_inv_move [OF inv] simp: judging_at)
  next
    case (Drop p)
    then show ?thesis using a(1) lock_inv_release [OF inv] by (auto split: lock_pc.splits if_splits)
  next
    case Tick
    then show ?thesis using a(1) lock_inv_tick [OF inv] by simp
  qed (use a(2) in auto)
qed

lemma lock_excludes:
  assumes "lock_free w" "(orderly_step timeout retry)\<^sup>*\<^sup>* w w'" "holds_pid_lock w' p" "holds_pid_lock w' q"
  shows "p = q"
proof -
  from assms(2) have "lock_inv w' \<and> prompt retry w' \<and> swift retry w'"
  proof (induction rule: rtranclp_induct)
    case base
    then show ?case
      using assms(1) by (auto simp: lock_free_def lock_inv_def judging_def prompt_def swift_def)
  next
    case (step y z)
    then have "lock_inv z" using lock_inv_step by blast
    moreover have "prompt retry z" "swift retry z" using step(2) by (auto simp: orderly_step_def elim: calm_step.cases)
    ultimately show ?case by blast
  qed
  moreover from assms(3,4) obtain i j where "owns (lw_pc w' p) i" "owns (lw_pc w' q) j" by (auto simp: holds_pid_lock_def)
  ultimately show ?thesis using lock_invD(6) by blast
qed

section \<open>Two owners\<close>

text \<open>A sequence of events, as far as it can happen.\<close>

fun lock_run :: "nat \<Rightarrow> nat \<Rightarrow> lock_event list \<Rightarrow> lock_world \<Rightarrow> lock_world option" where
  "lock_run timeout retry [] w = Some w"
| "lock_run timeout retry (a # as) w = Option.bind (lock_do timeout retry a w) (lock_run timeout retry as)"

lemma lock_run_steps: "lock_run timeout retry as w = Some w' \<Longrightarrow> (lock_step timeout retry)\<^sup>*\<^sup>* w w'"
proof (induction as arbitrary: w)
  case (Cons a as)
  then obtain w1 where w1: "lock_do timeout retry a w = Some w1" "lock_run timeout retry as w1 = Some w'"
    by (auto simp: bind_eq_Some_conv)
  show ?case using lock_step.intros [OF w1(1)] Cons.IH [OF w1(2)] by (rule converse_rtranclp_into_rtranclp)
qed simp

lemmas lock_steps = set_pc_def try_create_def write_piece_def read_lock_def stat_lock_def check_pid_def remove_stale_def
  retry_or_give_up_def advance_def pid_pieces_def Let_def

text \<open>
  Two processes that both find the lock of a dead one remove the file one after the other: the second removes the
  lock that the first has just taken.
\<close>

lemma stale_lock_admits_two:
  assumes f: "lw_file w = Some lf" "lock_pid (lf_text lf) = Some dead" "\<not> lw_alive w dead"
    and p: "lw_alive w p" "p < 2 ^ 31" "lw_pc w p = Away" and q: "lw_alive w q" "q < 2 ^ 31" "lw_pc w q = Away" and ne: "p \<noteq> q"
  shows "\<exists>w'. (lock_step timeout retry)\<^sup>*\<^sup>* w w' \<and> lw_alive w' = lw_alive w \<and> holds_pid_lock w' p \<and> holds_pid_lock w' q"
proof -
  let ?events = "[Ask p, Ask q, Go p, Go q, Go p, Go q, Go p, Go q, Go p, Go p, Go p, Go p, Go p, Go q, Go q, Go q, Go q, Go q]"
  obtain w' where w': "lock_run timeout retry ?events w = Some w'" "lw_alive w' = lw_alive w"
    "\<exists>i. lw_pc w' p = Holding i" "\<exists>i. lw_pc w' q = Holding i"
    using f p q ne by (simp add: lock_steps)
  then show ?thesis using lock_run_steps [OF w'(1)] p(1) q(1) by (auto simp: holds_pid_lock_def)
qed

text \<open>Events after each of which the world satisfies a condition, without deaths and failed writes.\<close>

fun guarded_run :: "(lock_world \<Rightarrow> bool) \<Rightarrow> nat \<Rightarrow> nat \<Rightarrow> lock_event list \<Rightarrow> lock_world \<Rightarrow> lock_world \<Rightarrow> bool" where
  "guarded_run P timeout retry [] w w' \<longleftrightarrow> w' = w"
| "guarded_run P timeout retry (a # as) w w' \<longleftrightarrow>
     (\<forall>p. a \<noteq> Die p \<and> a \<noteq> WriteFails p) \<and>
     (case lock_do timeout retry a w of None \<Rightarrow> False | Some w1 \<Rightarrow> P w1 \<and> guarded_run P timeout retry as w1 w')"

lemma calm_run_steps: "guarded_run (prompt retry) timeout retry as w w' \<Longrightarrow> (calm_step timeout retry)\<^sup>*\<^sup>* w w'"
proof (induction as arbitrary: w)
  case (Cons a as)
  then obtain w1 where "calm_step timeout retry w w1" "guarded_run (prompt retry) timeout retry as w1 w'"
    by (auto intro: calm_step.intros split: option.splits)
  then show ?case using Cons.IH by (meson converse_rtranclp_into_rtranclp)
qed simp

lemma orderly_run_steps:
  "guarded_run (\<lambda>w. prompt retry w \<and> swift retry w) timeout retry as w w' \<Longrightarrow> (orderly_step timeout retry)\<^sup>*\<^sup>* w w'"
proof (induction as arbitrary: w)
  case (Cons a as)
  then obtain w1 where "orderly_step timeout retry w w1"
    "guarded_run (\<lambda>w. prompt retry w \<and> swift retry w) timeout retry as w1 w'"
    by (auto simp: orderly_step_def intro: calm_step.intros split: option.splits)
  then show ?case using Cons.IH by (meson converse_rtranclp_into_rtranclp)
qed simp

text \<open>A process that is alone gets a free lock.\<close>

lemma free_lock_taken:
  assumes free: "lock_free w" and p: "lw_alive w p" "p < 2 ^ 31"
  shows "\<exists>w'. (orderly_step timeout retry)\<^sup>*\<^sup>* w w' \<and> holds_pid_lock w' p"
proof -
  have pcs: "lw_pc w = (\<lambda>_. Away)" and none: "lw_file w = None" using free by (auto simp: lock_free_def)
  define w1 where "w1 = w\<lparr>lw_file := Some \<lparr>lf_inode = lw_next w, lf_text = pid_line p, lf_modified = lw_now w\<rparr>,
    lw_next := lw_next w + 1, lw_pc := (\<lambda>_. Away)(p := Holding (lw_next w))\<rparr>"
  have "guarded_run (\<lambda>w. prompt retry w \<and> swift retry w) timeout retry [Ask p, Go p, Go p, Go p, Go p] w w1"
    unfolding w1_def using p by (auto simp: lock_steps pcs none prompt_def swift_def pid_line_def split: if_splits)
  then have "(orderly_step timeout retry)\<^sup>*\<^sup>* w w1" by (rule orderly_run_steps)
  moreover have "holds_pid_lock w1 p" using p by (simp add: holds_pid_lock_def w1_def)
  ultimately show ?thesis by blast
qed

lemma calm_ticks:
  assumes "\<And>p i todo. lw_pc w p \<noteq> Writing i todo"
  shows "(calm_step timeout retry)\<^sup>*\<^sup>* w (w\<lparr>lw_now := lw_now w + n\<rparr>)"
proof (induction n)
  case (Suc n)
  have "calm_step timeout retry (w\<lparr>lw_now := lw_now w + n\<rparr>) (w\<lparr>lw_now := lw_now w + Suc n\<rparr>)"
    by (rule calm_step.intros [of _ _ Tick]) (use assms in \<open>simp_all add: prompt_def\<close>)
  with Suc show ?case by (rule rtranclp.rtrancl_into_rtrancl)
qed simp

text \<open>
  Nobody dies, no write fails and every owner is prompt; but one process reads the lock while it is empty and asks for its
  modification time only after the owner has held it for more than four retries.  It removes the lock and takes it.
\<close>

lemma slow_judge_takes_lock:
  assumes free: "lock_free w" and p: "lw_alive w p" "p < 2 ^ 31" and q: "lw_alive w q" "q < 2 ^ 31" and ne: "p \<noteq> q"
  shows "\<exists>w'. (calm_step timeout retry)\<^sup>*\<^sup>* w w' \<and> lw_alive w' = lw_alive w \<and> holds_pid_lock w' p \<and> holds_pid_lock w' q"
proof -
  have pcs: "lw_pc w = (\<lambda>_. Away)" and none: "lw_file w = None" using free by (auto simp: lock_free_def)
  have e: "lock_pid [] = None" by code_simp
  let ?d = "lw_now w + timeout" and ?i = "lw_next w"
  let ?lf = "\<lparr>lf_inode = ?i, lf_text = pid_line p, lf_modified = lw_now w\<rparr>"
  define w1 where "w1 = w\<lparr>lw_file := Some ?lf, lw_next := ?i + 1, lw_pc := (\<lambda>_. Away)(p := Holding ?i, q := Statting ?d (lw_now w))\<rparr>"
  have "guarded_run (prompt retry) timeout retry [Ask p, Go p, Ask q, Go q, Go q, Go p, Go p, Go p] w w1"
    unfolding w1_def using p q ne
    by (auto simp: lock_steps pcs none e prompt_def pid_line_def fun_upd_twist split: if_splits)
  then have r1: "(calm_step timeout retry)\<^sup>*\<^sup>* w w1" by (rule calm_run_steps)
  define w2 where "w2 = w1\<lparr>lw_now := lw_now w1 + (retry * 4 + 1)\<rparr>"
  have r2: "(calm_step timeout retry)\<^sup>*\<^sup>* w1 w2"
    unfolding w2_def by (rule calm_ticks) (auto simp: w1_def)
  let ?lf' = "\<lparr>lf_inode = ?i + 1, lf_text = pid_line q, lf_modified = lw_now w2\<rparr>"
  define w3 where "w3 = w2\<lparr>lw_file := Some ?lf', lw_next := ?i + 2, lw_pc := (\<lambda>_. Away)(p := Holding ?i, q := Holding (?i + 1))\<rparr>"
  have "guarded_run (prompt retry) timeout retry [Go q, Go q, Go q, Go q, Go q, Go q] w2 w3"
    unfolding w3_def w2_def w1_def using p q ne
    by (auto simp: lock_steps prompt_def pid_line_def stale_unparseable_lock_def split: if_splits)
  then have "(calm_step timeout retry)\<^sup>*\<^sup>* w2 w3" by (rule calm_run_steps)
  with r1 r2 have "(calm_step timeout retry)\<^sup>*\<^sup>* w w3" by (meson rtranclp_trans)
  moreover have "lw_alive w3 = lw_alive w" "holds_pid_lock w3 p" "holds_pid_lock w3 q"
    using p q ne by (auto simp: holds_pid_lock_def w3_def w2_def w1_def)
  ultimately show ?thesis by blast
qed

end
