(* ===== verification/Agent_Lock.thy ===== *)
theory Agent_Lock
  imports Rust_Std Float64
begin

text \<open>
  The lock of a container and the calls that take and release it: \<^verbatim>\<open>src/container/agent_lock.rs\<close>,
  \<^verbatim>\<open>activate\<close> and \<^verbatim>\<open>deactivate\<close> of \<^verbatim>\<open>src/container/agent_hookup.rs\<close>, and the two tools of
  \<^verbatim>\<open>src/mcp/tools.rs\<close> that call them, one after another.  The lock file is the lock it holds; what building the hookup, starting the
  agent, the trace database and each access to the lock file report is in \<open>hookup_io\<close>.  A failed save leaves the
  file as it was, since it writes another file first and renames it.
\<close>

section \<open>The lock\<close>

datatype AgentHookupKind = HookCli string | HookApi string | HookLocalModel string

datatype ContainerAgentState =
    LockEmpty
  | LockLocked AgentHookupKind string u64 "string option"
  | LockDeinitializing AgentHookupKind string u64 "string option"

datatype ReusePolicy = Reusable | SingleUse

record StateTransition =
  tr_from :: string
  tr_to :: string
  tr_at :: u64
  tr_reason :: string

record ContainerAgentLock =
  lk_state :: ContainerAgentState
  lk_container :: string
  lk_reuse :: ReusePolicy
  lk_history :: "StateTransition list"

datatype LockError =
    LockBusy ContainerAgentState | NotLocked | NotDeinitializing | NotEmpty string | NoHookup | HookupIo string

fun state_label :: "ContainerAgentState \<Rightarrow> string" where
  "state_label LockEmpty = ''empty''"
| "state_label (LockLocked _ _ _ _) = ''locked''"
| "state_label (LockDeinitializing _ _ _ _) = ''deinitializing''"

definition lock_new :: "string \<Rightarrow> ContainerAgentLock" where
  "lock_new cid = \<lparr>lk_state = LockEmpty, lk_container = cid, lk_reuse = Reusable, lk_history = []\<rparr>"

text \<open>The file afterwards and the lock; a lock of another container is taken as it is.\<close>

definition load_or_create :: "string \<Rightarrow> ContainerAgentLock option \<Rightarrow> ContainerAgentLock" where
  "load_or_create cid file = (case file of Some lock \<Rightarrow> lock | None \<Rightarrow> lock_new cid)"

definition can_initialize :: "ContainerAgentLock \<Rightarrow> bool" where
  "can_initialize lock \<longleftrightarrow> lk_state lock = LockEmpty"

definition push_transition :: "u64 \<Rightarrow> ContainerAgentState \<Rightarrow> string \<Rightarrow> ContainerAgentLock \<Rightarrow> ContainerAgentLock" where
  "push_transition now st reason lock =
     lock\<lparr>lk_state := st,
          lk_history := lk_history lock @
            [\<lparr>tr_from = state_label (lk_state lock), tr_to = state_label st, tr_at = now, tr_reason = reason\<rparr>]\<rparr>"

definition initialize :: "u64 \<Rightarrow> AgentHookupKind \<Rightarrow> string \<Rightarrow> ContainerAgentLock \<Rightarrow> LockError + ContainerAgentLock" where
  "initialize now kind agent lock =
     (if \<not> can_initialize lock then Err (LockBusy (lk_state lock))
      else Ok (push_transition now (LockLocked kind agent now None) ''agent_initialized'' lock))"

definition attach_trace_session :: "string option \<Rightarrow> ContainerAgentLock \<Rightarrow> LockError + ContainerAgentLock" where
  "attach_trace_session sid lock =
     (case lk_state lock of
        LockLocked kind agent since _ \<Rightarrow> Ok (lock\<lparr>lk_state := LockLocked kind agent since sid\<rparr>)
      | _ \<Rightarrow> Err NotLocked)"

definition begin_deinitialize :: "u64 \<Rightarrow> ContainerAgentLock \<Rightarrow> LockError + ContainerAgentLock" where
  "begin_deinitialize now lock =
     (case lk_state lock of
        LockLocked kind agent _ sid \<Rightarrow>
          Ok (push_transition now (LockDeinitializing kind agent now sid) ''agent_deinitializing'' lock)
      | _ \<Rightarrow> Err NotLocked)"

definition complete_deinitialize :: "u64 \<Rightarrow> ContainerAgentLock \<Rightarrow> LockError + ContainerAgentLock" where
  "complete_deinitialize now lock =
     (case lk_state lock of
        LockDeinitializing _ _ _ _ \<Rightarrow> Ok (push_transition now LockEmpty ''agent_deinitialized'' lock)
      | _ \<Rightarrow> Err NotDeinitializing)"

definition locked_agent :: "ContainerAgentLock \<Rightarrow> (AgentHookupKind \<times> string) option" where
  "locked_agent lock =
     (case lk_state lock of
        LockLocked kind agent _ _ \<Rightarrow> Some (kind, agent)
      | LockDeinitializing kind agent _ _ \<Rightarrow> Some (kind, agent)
      | LockEmpty \<Rightarrow> None)"

section \<open>The hookup\<close>

record HookupRuntimeState =
  hr_agent :: "string option"
  hr_container :: "string option"
  hr_trace :: "string option"
  hr_last_trace :: "string option"
  hr_started :: "u64 option"
  hr_cost :: f64
  hr_input_tokens :: u64
  hr_output_tokens :: u64
  hr_active :: bool

definition runtime_default :: HookupRuntimeState where
  "runtime_default =
     \<lparr>hr_agent = None, hr_container = None, hr_trace = None, hr_last_trace = None, hr_started = None,
      hr_cost = 0, hr_input_tokens = 0, hr_output_tokens = 0, hr_active = False\<rparr>"

text \<open>
  What the calls report, in their order: building the hookup, loading the lock, starting the agent, opening a trace
  session, saving the lock, writing an event, ending the session, saving the released lock, loading it again.
\<close>

record hookup_io =
  io_build :: "string option"
  io_load :: "string option"
  io_launch :: "string option"
  io_session :: "string option"
  io_save :: "string option"
  io_event :: "string option"
  io_end :: "string option"
  io_save_released :: "string option"
  io_reload :: "string option"

text \<open>The file afterwards and the lock.\<close>

definition load_lock ::
  "string option \<Rightarrow> string \<Rightarrow> ContainerAgentLock option \<Rightarrow> ContainerAgentLock option \<times> (LockError + ContainerAgentLock)" where
  "load_lock err cid file =
     (case err of
        Some e \<Rightarrow> (file, Err (HookupIo e))
      | None \<Rightarrow> (Some (load_or_create cid file), Ok (load_or_create cid file)))"

definition save_lock ::
  "string option \<Rightarrow> ContainerAgentLock \<Rightarrow> ContainerAgentLock option \<Rightarrow> ContainerAgentLock option \<times> (LockError + unit)" where
  "save_lock err lock file = (case err of Some e \<Rightarrow> (file, Err (HookupIo e)) | None \<Rightarrow> (Some lock, Ok ()))"

text \<open>
  The three components of the result are the lock file, the runtime of the hookup and the
  outcome.
\<close>

definition activate ::
  "u64 \<Rightarrow> hookup_io \<Rightarrow> string \<Rightarrow> AgentHookupKind \<Rightarrow> string \<Rightarrow> ContainerAgentLock \<Rightarrow>
    ContainerAgentLock option \<Rightarrow> HookupRuntimeState \<Rightarrow>
    ContainerAgentLock option \<times> HookupRuntimeState \<times> (LockError + string)" where
  "activate now io sid kind agent lock file rt =
     (if hr_active rt then
        (file, rt, case hr_agent rt of
                     Some a \<Rightarrow> Ok a
                   | None \<Rightarrow> Err (HookupIo ''hookup runtime is active without an agent id''))
      else (case io_session io of
              Some e \<Rightarrow> (file, rt, Err (HookupIo e))
            | None \<Rightarrow>
                (case initialize now kind agent lock of
                   Inl e \<Rightarrow> (file, rt, Err e)
                 | Inr lock1 \<Rightarrow>
                     (case attach_trace_session (Some sid) lock1 of
                        Inl e \<Rightarrow> (file, rt, Err e)
                      | Inr lock2 \<Rightarrow>
                          (case save_lock (io_save io) lock2 file of
                             (file', Inl e) \<Rightarrow> (file', rt, Err e)
                           | (file', Inr _) \<Rightarrow>
                               (case io_event io of
                                  Some e \<Rightarrow> (file', rt, Err (HookupIo e))
                                | None \<Rightarrow>
                                    (file',
                                     rt\<lparr>hr_agent := Some agent, hr_container := Some (lk_container lock2),
                                        hr_trace := Some sid, hr_last_trace := Some sid, hr_started := Some now,
                                        hr_cost := 0, hr_input_tokens := 0, hr_output_tokens := 0, hr_active := True\<rparr>,
                                     Ok agent)))))))"

definition deactivate ::
  "u64 \<Rightarrow> hookup_io \<Rightarrow> string \<Rightarrow> ContainerAgentLock option \<Rightarrow> HookupRuntimeState \<Rightarrow>
    ContainerAgentLock option \<times> HookupRuntimeState \<times> (LockError + unit)" where
  "deactivate now io cid file rt =
     (case load_lock (io_load io) (unwrap_or (hr_container rt) cid) file of
        (file1, Inl e) \<Rightarrow> (file1, rt, Err e)
      | (file1, Inr lock) \<Rightarrow>
          (case begin_deinitialize now lock of
             Inl e \<Rightarrow> (file1, rt, Err e)
           | Inr lock1 \<Rightarrow>
               (case save_lock (io_save io) lock1 file1 of
                  (file2, Inl e) \<Rightarrow> (file2, rt, Err e)
                | (file2, Inr _) \<Rightarrow>
                    (case io_event io of
                       Some e \<Rightarrow> (file2, rt, Err (HookupIo e))
                     | None \<Rightarrow>
                         (case io_end io of
                            Some e \<Rightarrow> (file2, rt, Err (HookupIo e))
                          | None \<Rightarrow>
                              (case complete_deinitialize now lock1 of
                                 Inl e \<Rightarrow> (file2, rt, Err e)
                               | Inr lock2 \<Rightarrow>
                                   (case save_lock (io_save_released io) lock2 file2 of
                                      (file3, Inl e) \<Rightarrow> (file3, rt, Err e)
                                    | (file3, Inr _) \<Rightarrow>
                                        (file3,
                                         runtime_default\<lparr>hr_last_trace :=
                                           (case hr_trace rt of Some s \<Rightarrow> Some s | None \<Rightarrow> hr_last_trace rt)\<rparr>,
                                         Ok ()))))))))"

section \<open>The tools\<close>

text \<open>The lock file and the active hookup of the server.\<close>

record container =
  ct_file :: "ContainerAgentLock option"
  ct_active :: "HookupRuntimeState option"

record initialize_request =
  ir_kind :: AgentHookupKind
  ir_reuse :: "ReusePolicy option"

definition container_initialize ::
  "u64 \<Rightarrow> hookup_io \<Rightarrow> string \<Rightarrow> string \<Rightarrow> string \<Rightarrow> initialize_request \<Rightarrow> container \<Rightarrow>
    container \<times> (LockError + string)" where
  "container_initialize now io cid sid agent req c =
     (case io_build io of
        Some e \<Rightarrow> (c, Err (HookupIo e))
      | None \<Rightarrow>
          (case load_lock (io_load io) cid (ct_file c) of
             (file, Inl e) \<Rightarrow> (c\<lparr>ct_file := file\<rparr>, Err e)
           | (file, Inr loaded) \<Rightarrow>
               (let lock = loaded\<lparr>lk_reuse := unwrap_or (ir_reuse req) Reusable\<rparr>
                in if \<not> can_initialize lock then (c\<lparr>ct_file := file\<rparr>, Err (NotEmpty (lk_container lock)))
                   else (case io_launch io of
                           Some e \<Rightarrow> (c\<lparr>ct_file := file\<rparr>, Err (HookupIo e))
                         | None \<Rightarrow>
                             (case activate now io sid (ir_kind req) agent lock file runtime_default of
                                (file', rt, Inl e) \<Rightarrow> (c\<lparr>ct_file := file'\<rparr>, Err e)
                              | (file', rt, Inr a) \<Rightarrow> (c\<lparr>ct_file := file', ct_active := Some rt\<rparr>, Ok a))))))"

definition container_deinitialize :: "u64 \<Rightarrow> hookup_io \<Rightarrow> string \<Rightarrow> container \<Rightarrow> container \<times> (LockError + ReusePolicy)" where
  "container_deinitialize now io cid c =
     (case ct_active c of
        None \<Rightarrow> (c, Err NoHookup)
      | Some rt \<Rightarrow>
          (case deactivate now io cid (ct_file c) rt of
             (file', rt', Inl e) \<Rightarrow> (\<lparr>ct_file = file', ct_active = None\<rparr>, Err e)
           | (file', rt', Inr _) \<Rightarrow>
               (case load_lock (io_reload io) cid file' of
                  (file'', Inl e) \<Rightarrow> (\<lparr>ct_file = file'', ct_active = None\<rparr>, Err e)
                | (file'', Inr lock) \<Rightarrow> (\<lparr>ct_file = file'', ct_active = None\<rparr>, Ok (lk_reuse lock)))))"

text \<open>The server starts again; the file stays.\<close>

definition server_restart :: "container \<Rightarrow> container" where
  "server_restart c = c\<lparr>ct_active := None\<rparr>"

inductive container_step :: "container \<Rightarrow> container \<Rightarrow> bool" where
  step_initialize: "container_step c (fst (container_initialize now io cid sid agent req c))"
| step_deinitialize: "container_step c (fst (container_deinitialize now io cid c))"
| step_restart: "container_step c (server_restart c)"

definition container_new :: container where
  "container_new = \<lparr>ct_file = None, ct_active = None\<rparr>"

definition container_reachable :: "container \<Rightarrow> bool" where
  "container_reachable c \<longleftrightarrow> container_step\<^sup>*\<^sup>* container_new c"


section \<open>The history\<close>

text \<open>The life cycle: empty, locked, deinitializing, empty.\<close>

definition legal_transition :: "StateTransition \<Rightarrow> bool" where
  "legal_transition t \<longleftrightarrow>
     List.member [(''empty'', ''locked'', ''agent_initialized''), (''locked'', ''deinitializing'', ''agent_deinitializing''),
       (''deinitializing'', ''empty'', ''agent_deinitialized'')] (tr_from t, tr_to t, tr_reason t)"

fun life_cycle :: "string \<Rightarrow> StateTransition list \<Rightarrow> string \<Rightarrow> bool" where
  "life_cycle a [] b \<longleftrightarrow> a = b"
| "life_cycle a (t # ts) b \<longleftrightarrow> tr_from t = a \<and> legal_transition t \<and> life_cycle (tr_to t) ts b"

definition lock_ok :: "ContainerAgentLock \<Rightarrow> bool" where
  "lock_ok lock \<longleftrightarrow> life_cycle ''empty'' (lk_history lock) (state_label (lk_state lock))"

lemma life_cycle_snoc:
  "life_cycle a (ts @ [t]) b \<longleftrightarrow> life_cycle a ts (tr_from t) \<and> legal_transition t \<and> tr_to t = b"
  by (induction a ts "tr_from t" rule: life_cycle.induct) auto

lemma push_transition_ok:
  "lock_ok lock \<Longrightarrow>
    legal_transition \<lparr>tr_from = state_label (lk_state lock), tr_to = state_label st, tr_at = now, tr_reason = r\<rparr> \<Longrightarrow>
    lock_ok (push_transition now st r lock)"
  by (simp add: lock_ok_def push_transition_def life_cycle_snoc)

lemma lock_new_ok: "lock_ok (lock_new cid)"
  by (simp add: lock_ok_def lock_new_def)

lemma load_or_create_ok: "(\<And>lock. file = Some lock \<Longrightarrow> lock_ok lock) \<Longrightarrow> lock_ok (load_or_create cid file)"
  by (simp add: load_or_create_def lock_new_ok split: option.split)

lemma reuse_ok [simp]: "lock_ok (lock\<lparr>lk_reuse := p\<rparr>) = lock_ok lock"
  by (simp add: lock_ok_def)

lemma initialize_Ok:
  assumes "initialize now kind agent lock = Ok lock'"
  shows "lk_state lock = LockEmpty" "lk_state lock' = LockLocked kind agent now None" "lock_ok lock \<Longrightarrow> lock_ok lock'"
    "lk_container lock' = lk_container lock" "lk_reuse lock' = lk_reuse lock"
  using assms
  by (auto simp: initialize_def can_initialize_def legal_transition_def intro!: push_transition_ok split: if_splits)
    (simp_all add: push_transition_def)

lemma attach_Ok:
  assumes "attach_trace_session sid lock = Ok lock'" "lk_state lock = LockLocked kind agent since x"
  shows "lock' = lock\<lparr>lk_state := LockLocked kind agent since sid\<rparr>" "lock_ok lock \<Longrightarrow> lock_ok lock'"
  using assms by (auto simp: attach_trace_session_def lock_ok_def)

lemma begin_Ok:
  assumes "begin_deinitialize now lock = Ok lock'"
  shows "\<exists>kind agent since sid. lk_state lock = LockLocked kind agent since sid \<and>
      lk_state lock' = LockDeinitializing kind agent now sid"
    and "lock_ok lock \<Longrightarrow> lock_ok lock'" "lk_reuse lock' = lk_reuse lock"
  using assms
  by (auto simp: begin_deinitialize_def legal_transition_def intro!: push_transition_ok split: ContainerAgentState.splits)
    (simp_all add: push_transition_def)

lemma complete_Ok:
  assumes "complete_deinitialize now lock = Ok lock'"
  shows "lk_state lock' = LockEmpty" "lock_ok lock \<Longrightarrow> lock_ok lock'" "lk_reuse lock' = lk_reuse lock"
  using assms
  by (auto simp: complete_deinitialize_def legal_transition_def intro!: push_transition_ok split: ContainerAgentState.splits)
    (simp_all add: push_transition_def)

section \<open>Reachable containers\<close>

text \<open>An active hookup holds the lock, and the history is a walk round the life cycle.\<close>

definition holds_lock :: "container \<Rightarrow> bool" where
  "holds_lock c \<longleftrightarrow>
     (\<forall>lock. ct_file c = Some lock \<longrightarrow> lock_ok lock) \<and>
     (\<forall>rt. ct_active c = Some rt \<longrightarrow> hr_active rt \<and>
        (\<exists>lock kind agent since. ct_file c = Some lock \<and> lk_state lock = LockLocked kind agent since (hr_trace rt) \<and>
           hr_agent rt = Some agent))"

lemma locked_Ok:
  assumes "initialize now kind agent lock = Ok l1" "attach_trace_session sid l1 = Ok l2"
  shows "lk_state l2 = LockLocked kind agent now sid" "lock_ok lock \<Longrightarrow> lock_ok l2"
  using initialize_Ok(2,3) [OF assms(1)] attach_Ok [OF assms(2)] by auto

lemma activate_cases:
  assumes "activate now io sid kind agent lock file runtime_default = (file', rt, res)" "lock_ok lock"
    "\<And>l. file = Some l \<Longrightarrow> lock_ok l"
  shows "(\<forall>l. file' = Some l \<longrightarrow> lock_ok l)"
    and "res = Ok a \<Longrightarrow> a = agent \<and> hr_active rt \<and> hr_agent rt = Some agent \<and> hr_trace rt = Some sid \<and>
      (\<exists>l. file' = Some l \<and> lk_state l = LockLocked kind agent now (Some sid))"
proof -
  have "(\<forall>l. file' = Some l \<longrightarrow> lock_ok l) \<and> (res = Ok a \<longrightarrow> a = agent \<and> hr_active rt \<and> hr_agent rt = Some agent \<and>
      hr_trace rt = Some sid \<and> (\<exists>l. file' = Some l \<and> lk_state l = LockLocked kind agent now (Some sid)))" for a
    using assms locked_Ok
    by (auto simp: activate_def save_lock_def runtime_default_def split: option.splits sum.splits)
  then show "(\<forall>l. file' = Some l \<longrightarrow> lock_ok l)"
    and "res = Ok a \<Longrightarrow> a = agent \<and> hr_active rt \<and> hr_agent rt = Some agent \<and> hr_trace rt = Some sid \<and>
      (\<exists>l. file' = Some l \<and> lk_state l = LockLocked kind agent now (Some sid))" by blast+
qed


lemma load_ok:
  assumes "load_lock err cid file = (file', res)" "\<And>l. file = Some l \<Longrightarrow> lock_ok l"
  shows "file' = Some l \<Longrightarrow> lock_ok l" "res = Ok l \<Longrightarrow> lock_ok l \<and> file' = Some l"
  using assms load_or_create_ok [of "file" cid] by (auto simp: load_lock_def split: option.splits)

lemma save_ok:
  assumes "save_lock err lock file = (file', res)" "lock_ok lock" "\<And>l. file = Some l \<Longrightarrow> lock_ok l"
  shows "file' = Some l \<Longrightarrow> lock_ok l" "res = Ok () \<Longrightarrow> file' = Some lock"
  using assms by (auto simp: save_lock_def split: option.splits)

text \<open>However far a release gets, the file holds a lock with a proper history, and an empty one if it succeeds.\<close>

lemma deactivate_ok:
  assumes "deactivate now io cid file rt = (file', rt', res)" "\<And>l. file = Some l \<Longrightarrow> lock_ok l"
  shows "(\<forall>l. file' = Some l \<longrightarrow> lock_ok l) \<and> (res = Ok () \<longrightarrow> (\<exists>l. file' = Some l \<and> lk_state l = LockEmpty))"
proof -
  have "lock_ok (load_or_create d file)" for d using assms(2) by (rule load_or_create_ok)
  with assms begin_Ok(2) complete_Ok(1,2) show ?thesis
    by (auto simp: deactivate_def load_lock_def save_lock_def split: sum.splits option.splits)
qed

lemma initialize_step_holds:
  assumes "holds_lock c"
  shows "holds_lock (fst (container_initialize now io cid sid agent req c))"
proof -
  obtain f res where l: "load_lock (io_load io) cid (ct_file c) = (f, res)" by fastforce
  have lk: "f = Some lock \<Longrightarrow> lock_ok lock" "res = Ok lock \<Longrightarrow> lock_ok lock \<and> f = Some lock" for lock
    using load_ok [OF l, of lock] assms unfolding holds_lock_def by blast+
  have same: "f = ct_file c" if "ct_active c = Some rt" for rt
    using l that assms by (auto simp: holds_lock_def load_lock_def load_or_create_def split: option.splits)
  then have stays: "holds_lock (c\<lparr>ct_file := f\<rparr>)" using assms lk(1) by (auto simp: holds_lock_def)
  show ?thesis
  proof (cases "io_build io = None \<and> io_launch io = None \<and> (\<exists>lock. res = Ok lock \<and> lk_state lock = LockEmpty)")
    case False
    then have "fst (container_initialize now io cid sid agent req c) \<in> {c, c\<lparr>ct_file := f\<rparr>}"
      using l by (auto simp: container_initialize_def can_initialize_def Let_def split: option.splits sum.splits)
    with assms stays show ?thesis by auto
  next
    case True
    then obtain lock where lock: "res = Ok lock" "lk_state lock = LockEmpty" by blast
    then have none: "ct_active c = None"
      using assms same lk(2) by (cases "ct_active c") (auto simp: holds_lock_def)
    obtain file' rt res' where act: "activate now io sid (ir_kind req) agent
        (lock\<lparr>lk_reuse := unwrap_or (ir_reuse req) Reusable\<rparr>) f runtime_default = (file', rt, res')"
      by (metis prod_cases3)
    have "lock_ok lock" using lk(2) lock(1) by blast
    note a = activate_cases [OF act, simplified, OF this lk(1)]
    show ?thesis
      using True none a act l lock
      by (cases res') (auto simp: container_initialize_def can_initialize_def Let_def holds_lock_def)
  qed
qed

text \<open>Whatever fails, a release leaves no hookup, and an empty lock if it reports success.\<close>

lemma deinitialize_step:
  assumes "holds_lock c" "ct_active c = Some rt" "container_deinitialize now io cid c = (c', res)"
  shows "ct_active c' = None \<and> (\<forall>l. ct_file c' = Some l \<longrightarrow> lock_ok l) \<and>
    (\<forall>policy. res = Ok policy \<longrightarrow> (\<exists>l. ct_file c' = Some l \<and> lk_state l = LockEmpty \<and> lk_reuse l = policy))"
proof -
  obtain file' rt' r where d: "deactivate now io cid (ct_file c) rt = (file', rt', r)" by (metis prod_cases3)
  have ok: "(\<forall>l. file' = Some l \<longrightarrow> lock_ok l) \<and> (r = Ok () \<longrightarrow> (\<exists>l. file' = Some l \<and> lk_state l = LockEmpty))"
    using deactivate_ok [OF d] assms(1) by (simp add: holds_lock_def)
  then show ?thesis
    using assms(2,3) d
    by (cases r) (auto simp: container_deinitialize_def load_lock_def load_or_create_def split: option.splits)
qed

lemma deinitialize_step_holds:
  assumes "holds_lock c"
  shows "holds_lock (fst (container_deinitialize now io cid c))"
proof (cases "ct_active c")
  case (Some rt)
  then show ?thesis
    using deinitialize_step [OF assms Some, of now io cid] by (cases "container_deinitialize now io cid c") (simp add: holds_lock_def)
qed (use assms in \<open>simp add: container_deinitialize_def\<close>)

lemma reachable_holds: "container_reachable c \<Longrightarrow> holds_lock c"
  unfolding container_reachable_def
proof (induction rule: rtranclp_induct)
  case base
  show ?case by (simp add: container_new_def holds_lock_def)
next
  case (step c c')
  from step(2,3) show ?case
    by cases (simp_all add: initialize_step_holds deinitialize_step_holds, simp add: server_restart_def holds_lock_def)
qed

section \<open>Taking and releasing\<close>

definition io_fine :: "hookup_io \<Rightarrow> bool" where
  "io_fine io \<longleftrightarrow> io_build io = None \<and> io_load io = None \<and> io_launch io = None \<and> io_session io = None \<and> io_save io = None \<and>
     io_event io = None \<and> io_end io = None \<and> io_save_released io = None \<and> io_reload io = None"

lemma initialize_goes_through:
  assumes "io_fine io" "lk_state (load_or_create cid (ct_file c)) = LockEmpty"
  shows "\<exists>c'. container_initialize now io cid sid agent req c = (c', Ok agent) \<and>
    (\<exists>lock rt. ct_file c' = Some lock \<and> lk_state lock = LockLocked (ir_kind req) agent now (Some sid) \<and>
      lk_reuse lock = unwrap_or (ir_reuse req) Reusable \<and> ct_active c' = Some rt)"
  using assms
  by (simp add: container_initialize_def load_lock_def save_lock_def can_initialize_def io_fine_def activate_def
      initialize_def attach_trace_session_def push_transition_def runtime_default_def Let_def)

lemma deinitialize_goes_through:
  assumes "io_fine io" "container_reachable c" "ct_active c = Some rt"
  shows "\<exists>c' policy. container_deinitialize now io cid c = (c', Ok policy) \<and> ct_active c' = None \<and>
    (\<exists>lock. ct_file c' = Some lock \<and> lk_state lock = LockEmpty)"
proof -
  from reachable_holds [OF assms(2)] assms(3) obtain lock kind agent since where
    "ct_file c = Some lock" "lk_state lock = LockLocked kind agent since (hr_trace rt)"
    by (auto simp: holds_lock_def)
  with assms(1,3) show ?thesis
    by (simp add: container_deinitialize_def deactivate_def load_lock_def save_lock_def load_or_create_def
        begin_deinitialize_def complete_deinitialize_def push_transition_def io_fine_def)
qed

text \<open>A lock that is not empty and that no hookup of the server holds.\<close>

definition orphaned :: "container \<Rightarrow> bool" where
  "orphaned c \<longleftrightarrow> ct_active c = None \<and> (\<exists>lock. ct_file c = Some lock \<and> lk_state lock \<noteq> LockEmpty)"

lemma orphaned_initialize:
  "orphaned c \<Longrightarrow> \<exists>e. container_initialize now io cid sid agent req c = (c, Err e)"
  by (auto simp: orphaned_def container_initialize_def load_lock_def can_initialize_def load_or_create_def Let_def
      split: option.split)

lemma orphaned_deinitialize: "orphaned c \<Longrightarrow> container_deinitialize now io cid c = (c, Err NoHookup)"
  by (simp add: orphaned_def container_deinitialize_def)

lemma orphaned_step: "orphaned c \<Longrightarrow> container_step c c' \<Longrightarrow> c' = c"
  by (erule container_step.cases)
    (metis orphaned_initialize fst_conv, simp add: orphaned_deinitialize, simp add: server_restart_def orphaned_def)

lemma orphaned_forever: "container_step\<^sup>*\<^sup>* c c' \<Longrightarrow> orphaned c \<Longrightarrow> c' = c"
  by (induction rule: rtranclp_induct) (auto dest: orphaned_step)

end
