(* ===== verification/Subsidiary.thy ===== *)
theory Subsidiary
  imports Pid_Lock Agent_Lock Float64
begin

text \<open>
  The registry of the containers that an operator owns, \<^verbatim>\<open>src/orchestrator/subsidiary_registry.rs\<close>: a file that is
  read, changed and written back under the lock of \<open>Pid_Lock\<close>.  Reading a file gives a registry, nothing when
  it is missing, or an error; the clock and the random part of task ids are arguments.
\<close>

record SubsidiaryRecord =
  sb_session :: string
  sb_container :: string
  sb_peer :: string
  sb_lock_state :: string
  sb_kind :: "AgentHookupKind option"
  sb_provisioned_at :: u64
  sb_initialized_at :: "u64 option"
  sb_agent :: "string option"
  sb_trace :: "string option"
  sb_reuse :: "ReusePolicy option"

record SubsidiaryTaskRecord =
  st_task_id :: string
  st_session :: string
  st_operator :: string
  st_prompt :: string
  st_status :: string
  st_model :: "string option"
  st_result :: "string option"
  st_error :: "string option"
  st_trace :: "string option"
  st_input_tokens :: "u64 option"
  st_output_tokens :: "u64 option"
  st_cost :: "f64 option"
  st_created_at :: u64
  st_completed_at :: "u64 option"

record SubsidiaryRegistry =
  sg_container :: string
  sg_operator :: string
  sg_subsidiaries :: "SubsidiaryRecord list"
  sg_tasks :: "SubsidiaryTaskRecord list"

section \<open>Operations\<close>

definition subsidiary :: "SubsidiaryRegistry \<Rightarrow> string \<Rightarrow> SubsidiaryRecord option" where
  "subsidiary reg session = find (\<lambda>r. sb_session r = session) (sg_subsidiaries reg)"

text \<open>Changing the first record of a session, as \<^verbatim>\<open>subsidiary_mut\<close> finds it.\<close>

fun change_first :: "(SubsidiaryRecord \<Rightarrow> bool) \<Rightarrow> (SubsidiaryRecord \<Rightarrow> SubsidiaryRecord) \<Rightarrow> SubsidiaryRecord list \<Rightarrow> SubsidiaryRecord list" where
  "change_first P f [] = []"
| "change_first P f (r # rs) = (if P r then f r # rs else r # change_first P f rs)"

definition subsidiary_mut ::
  "string \<Rightarrow> (SubsidiaryRecord \<Rightarrow> SubsidiaryRecord) \<Rightarrow> SubsidiaryRegistry \<Rightarrow> SubsidiaryRegistry option" where
  "subsidiary_mut session f reg =
     (if subsidiary reg session = None then None
      else Some (reg\<lparr>sg_subsidiaries := change_first (\<lambda>r. sb_session r = session) f (sg_subsidiaries reg)\<rparr>))"

definition assert_owned :: "string \<Rightarrow> SubsidiaryRegistry \<Rightarrow> string + SubsidiaryRecord" where
  "assert_owned session reg =
     (case subsidiary reg session of
        None \<Rightarrow> Err (''operator `'' @ sg_operator reg @ ''` does not own subsidiary session `'' @ session @ ''`'')
      | Some r \<Rightarrow> Ok r)"

definition unknown_session :: "string \<Rightarrow> string" where
  "unknown_session session = ''unknown subsidiary session `'' @ session @ ''`''"

definition provisioned :: "u64 \<Rightarrow> string \<Rightarrow> string \<Rightarrow> string \<Rightarrow> SubsidiaryRecord" where
  "provisioned now session container peer =
     \<lparr>sb_session = session, sb_container = container, sb_peer = peer, sb_lock_state = ''empty'', sb_kind = None,
      sb_provisioned_at = now, sb_initialized_at = None, sb_agent = None, sb_trace = None, sb_reuse = None\<rparr>"

definition register_provision ::
  "u64 \<Rightarrow> string \<Rightarrow> string \<Rightarrow> string \<Rightarrow> SubsidiaryRegistry \<Rightarrow> SubsidiaryRegistry" where
  "register_provision now session container peer reg =
     (let r = provisioned now session container peer
      in case subsidiary_mut session (\<lambda>_. r) reg of
           Some reg' \<Rightarrow> reg'
         | None \<Rightarrow> reg\<lparr>sg_subsidiaries := sg_subsidiaries reg @ [r]\<rparr>)"

definition register_initialize ::
  "u64 \<Rightarrow> string \<Rightarrow> AgentHookupKind \<Rightarrow> string \<Rightarrow> string option \<Rightarrow> ReusePolicy \<Rightarrow> SubsidiaryRegistry \<Rightarrow> string + SubsidiaryRegistry" where
  "register_initialize now session kind agent trace reuse reg =
     (case subsidiary_mut session
             (\<lambda>r. r\<lparr>sb_lock_state := ''locked'', sb_kind := Some kind, sb_initialized_at := Some now, sb_agent := Some agent,
                    sb_trace := trace, sb_reuse := Some reuse\<rparr>) reg of
        None \<Rightarrow> Err (unknown_session session) | Some reg' \<Rightarrow> Ok reg')"

definition register_deinitialize :: "string \<Rightarrow> ReusePolicy \<Rightarrow> SubsidiaryRegistry \<Rightarrow> string + SubsidiaryRegistry" where
  "register_deinitialize session reuse reg =
     (case subsidiary_mut session
             (\<lambda>r. r\<lparr>sb_lock_state := ''empty'', sb_kind := None, sb_initialized_at := None, sb_agent := None, sb_trace := None,
                    sb_reuse := Some reuse\<rparr>) reg of
        None \<Rightarrow> Err (unknown_session session) | Some reg' \<Rightarrow> Ok reg')"

fun remove_first :: "(SubsidiaryRecord \<Rightarrow> bool) \<Rightarrow> SubsidiaryRecord list \<Rightarrow> SubsidiaryRecord list" where
  "remove_first P [] = []"
| "remove_first P (r # rs) = (if P r then rs else r # remove_first P rs)"

definition remove_subsidiary :: "string \<Rightarrow> SubsidiaryRegistry \<Rightarrow> string + SubsidiaryRegistry \<times> SubsidiaryRecord" where
  "remove_subsidiary session reg =
     (case subsidiary reg session of
        None \<Rightarrow> Err (unknown_session session)
      | Some r \<Rightarrow> Ok (reg\<lparr>sg_subsidiaries := remove_first (\<lambda>r. sb_session r = session) (sg_subsidiaries reg)\<rparr>, r))"

definition record_task ::
  "u64 \<Rightarrow> string \<Rightarrow> SubsidiaryTaskRecord \<Rightarrow> string \<Rightarrow> SubsidiaryRegistry \<Rightarrow> string + SubsidiaryRegistry \<times> SubsidiaryTaskRecord" where
  "record_task now rnd given session reg =
     (case assert_owned session reg of
        Inl e \<Rightarrow> Err e
      | Inr _ \<Rightarrow>
          (let task = given\<lparr>st_task_id := ''subtask-'' @ show_u64 now @ ''-'' @ take 8 rnd, st_session := session,
                            st_operator := sg_operator reg, st_created_at := now, st_completed_at := Some now\<rparr>
           in Ok (reg\<lparr>sg_tasks := sg_tasks reg @ [task]\<rparr>, task)))"

definition find_task :: "SubsidiaryRegistry \<Rightarrow> string \<Rightarrow> SubsidiaryTaskRecord option" where
  "find_task reg task_id = find (\<lambda>t. st_task_id t = task_id) (sg_tasks reg)"

section \<open>The file\<close>

type_synonym registry_file = "(string + SubsidiaryRegistry) option"

text \<open>Saving replaces the file as a whole; \<open>io\<close> is the error of the file system.\<close>

definition save_to_path :: "string option \<Rightarrow> SubsidiaryRegistry \<Rightarrow> registry_file \<Rightarrow> registry_file \<times> (string + unit)" where
  "save_to_path io reg disk = (case io of Some e \<Rightarrow> (disk, Err e) | None \<Rightarrow> (Some (Ok reg), Ok ()))"

definition load_or_create_at ::
  "string \<Rightarrow> string option \<Rightarrow> string \<Rightarrow> registry_file \<Rightarrow> registry_file \<times> (string + SubsidiaryRegistry)" where
  "load_or_create_at container_id io operator_id disk =
     (case disk of
        Some (Inl e) \<Rightarrow> (disk, Err e)
      | Some (Inr reg) \<Rightarrow>
          (disk,
           if sg_operator reg \<noteq> operator_id then
             Err (''subsidiary registry belongs to operator `'' @ sg_operator reg @ ''` not `'' @ operator_id @ ''`'')
           else if sg_container reg \<noteq> container_id then
             Err (''subsidiary registry belongs to container `'' @ sg_container reg @ ''` not `'' @ container_id @ ''`'')
           else Ok reg)
      | None \<Rightarrow>
          (let reg = \<lparr>sg_container = container_id, sg_operator = operator_id, sg_subsidiaries = [], sg_tasks = []\<rparr>
           in case save_to_path io reg disk of (disk', Inl e) \<Rightarrow> (disk', Err e) | (disk', Inr _) \<Rightarrow> (disk', Ok reg)))"

section \<open>One record per session\<close>

definition sessions_distinct :: "SubsidiaryRegistry \<Rightarrow> bool" where
  "sessions_distinct reg \<longleftrightarrow> distinct (map sb_session (sg_subsidiaries reg))"

lemma map_change_first: "(\<And>r. P r \<Longrightarrow> sb_session (f r) = sb_session r) \<Longrightarrow> map sb_session (change_first P f rs) = map sb_session rs"
  by (induction rs) auto

lemma find_change_first:
  "(\<And>r. sb_session r = s \<Longrightarrow> sb_session (f r) = s) \<Longrightarrow>
   find (\<lambda>r. sb_session r = s') (change_first (\<lambda>r. sb_session r = s) f rs) =
     (if s' = s then map_option f (find (\<lambda>r. sb_session r = s) rs) else find (\<lambda>r. sb_session r = s') rs)"
  by (induction rs) auto

lemma set_remove_first: "set (remove_first P rs) \<subseteq> set rs"
  by (induction rs) auto

lemma find_remove_first:
  "distinct (map sb_session rs) \<Longrightarrow> find (\<lambda>r. sb_session r = s') (remove_first (\<lambda>r. sb_session r = s) rs) =
     (if s' = s then None else find (\<lambda>r. sb_session r = s') rs)"
  by (induction rs) (auto simp: find_None_iff image_iff)

lemma distinct_remove_first: "distinct (map sb_session rs) \<Longrightarrow> distinct (map sb_session (remove_first P rs))"
  using set_remove_first by (induction rs) fastforce+

lemma find_snoc: "find P (xs @ [x]) = (case find P xs of None \<Rightarrow> if P x then Some x else None | Some y \<Rightarrow> Some y)"
  by (induction xs) auto

lemma provisioned_session [simp]: "sb_session (provisioned now s c p) = s"
  by (simp add: provisioned_def)

lemma provision_keeps_distinct: "sessions_distinct reg \<Longrightarrow> sessions_distinct (register_provision now s c p reg)"
  by (auto simp: register_provision_def subsidiary_mut_def sessions_distinct_def subsidiary_def Let_def map_change_first find_None_iff)

lemma provision_subsidiary:
  "subsidiary (register_provision now s c p reg) s' = (if s' = s then Some (provisioned now s c p) else subsidiary reg s')"
  by (auto simp: register_provision_def subsidiary_mut_def subsidiary_def Let_def find_change_first find_snoc split: option.split)

lemma remove_subsidiary_gone:
  assumes "sessions_distinct reg" "remove_subsidiary s reg = Ok (reg', r)"
  shows "sessions_distinct reg' \<and> subsidiary reg' s' = (if s' = s then None else subsidiary reg s')"
  using assms by (auto simp: remove_subsidiary_def sessions_distinct_def subsidiary_def find_remove_first distinct_remove_first
      split: option.splits)

text \<open>Two holders of the lock that read the same file: the second write loses what the first registered.\<close>

lemma interleaved_provision_lost:
  assumes "load_or_create_at cid None oid (Some (Ok reg)) = (disk, Ok reg1)" "subsidiary reg s = None" "s \<noteq> s'"
    and "save_to_path None (register_provision now s c p reg1) disk = (disk1, Ok ())"
    and "save_to_path None (register_provision now s' c' p' reg1) disk1 = (disk2, Ok ())"
    and "load_or_create_at cid None oid disk2 = (disk2, Ok final)"
  shows "subsidiary final s = None"
proof -
  have "reg1 = reg" using assms(1) by (auto simp: load_or_create_at_def split: if_splits)
  moreover have "final = register_provision now s' c' p' reg1"
    using assms(5,6) by (auto simp: load_or_create_at_def save_to_path_def split: if_splits)
  ultimately show ?thesis using provision_subsidiary [of now s' c' p' reg s] assms(2,3) by auto
qed

end
