(* ===== verification/Identity_Ledger.thy ===== *)
theory Identity_Ledger
  imports Hex Json
begin

text \<open>
  The identity ledger, \<^verbatim>\<open>src/halo/identity_ledger.rs\<close>, with the signing and verification of
  \<^verbatim>\<open>src/halo/pq.rs\<close> it rests on.

  The ledger file is the list of its entries; that a line is read back as it was written is
  the JSON crate's part.  Wallet files are what loading them gives.  SHA, ML-DSA, base64, the
  text of JSON values, the sealing of a seed under the wrap key and what storing a signature
  or a wallet reports are the parameters of \<open>ledger_env\<close>; environment variables are the
  fields of \<open>ledger_vars\<close>.
\<close>

section \<open>Entries\<close>

datatype IdentityLedgerKind =
    ProfileUpdated | DeviceUpdated | NetworkUpdated | AnonymousModeUpdated | SafetyTierApplied
  | WalletCreated | WalletImported | WalletUnlocked | WalletLocked | WalletDeleted
  | SocialTokenConnected | SocialTokenRevoked | SuperSecureUpdated | GenesisEntropyHarvested
  | IdentityAttested | AgentAddressBound

text \<open>The \<^verbatim>\<open>{:?}\<close> of a kind.\<close>

fun kind_debug :: "IdentityLedgerKind \<Rightarrow> string" where
  "kind_debug ProfileUpdated = ''ProfileUpdated''"
| "kind_debug DeviceUpdated = ''DeviceUpdated''"
| "kind_debug NetworkUpdated = ''NetworkUpdated''"
| "kind_debug AnonymousModeUpdated = ''AnonymousModeUpdated''"
| "kind_debug SafetyTierApplied = ''SafetyTierApplied''"
| "kind_debug WalletCreated = ''WalletCreated''"
| "kind_debug WalletImported = ''WalletImported''"
| "kind_debug WalletUnlocked = ''WalletUnlocked''"
| "kind_debug WalletLocked = ''WalletLocked''"
| "kind_debug WalletDeleted = ''WalletDeleted''"
| "kind_debug SocialTokenConnected = ''SocialTokenConnected''"
| "kind_debug SocialTokenRevoked = ''SocialTokenRevoked''"
| "kind_debug SuperSecureUpdated = ''SuperSecureUpdated''"
| "kind_debug GenesisEntropyHarvested = ''GenesisEntropyHarvested''"
| "kind_debug IdentityAttested = ''IdentityAttested''"
| "kind_debug AgentAddressBound = ''AgentAddressBound''"

record LedgerSignatureRef =
  lsr_algorithm :: string
  lsr_key_id :: string
  lsr_public_key_hex :: "string option"
  lsr_payload_hash :: string
  lsr_signature_hex :: string
  lsr_signature_digest :: string
  lsr_created_at :: u64
  lsr_hash_algorithm :: "string option"

record IdentityLedgerEntry =
  le_version :: u8
  le_seq :: u64
  le_timestamp :: u64
  le_kind :: IdentityLedgerKind
  le_provider :: "string option"
  le_token_ref :: "string option"
  le_expires_at :: "u64 option"
  le_status :: string
  le_payload :: json
  le_genesis_entropy :: "string option"
  le_prev_hash :: "string option"
  le_entry_hash :: string
  le_signature :: "LedgerSignatureRef option"
  le_hash_algorithm :: "string option"

record ledger_env =
  il_sha256 :: "bytes \<Rightarrow> bytes"
  il_sha512 :: "bytes \<Rightarrow> bytes"
  json_text :: "json \<Rightarrow> string"
  json_read :: "bytes \<Rightarrow> string + json"
  b64_encode :: "bytes \<Rightarrow> string"
  b64_decode :: "string \<Rightarrow> string + bytes"
  pq_public :: "bytes \<Rightarrow> bytes"
  pq_sign :: "bytes \<Rightarrow> bytes \<Rightarrow> bytes option"
  pq_encode :: "bytes \<Rightarrow> bytes"
  pq_decode :: "bytes \<Rightarrow> bytes option"
  pq_verify :: "bytes \<Rightarrow> bytes \<Rightarrow> bytes \<Rightarrow> bool"
  seed_seal :: "bytes \<Rightarrow> string + bytes"
  seed_unseal :: "bytes \<Rightarrow> string + bytes"
  save_error :: "string option"

abbreviation LEDGER_VERSION :: u8 where
  "LEDGER_VERSION \<equiv> 1"

abbreviation "HASH_DOMAIN \<equiv> ''agenthalo.identity.ledger.v1''"

definition ledger_hash_hex :: "ledger_env \<Rightarrow> HashAlgorithm \<Rightarrow> bytes \<Rightarrow> string" where
  "ledger_hash_hex env algo data = hash_hex (il_sha256 env) (il_sha512 env) algo data"

definition normalize_social_provider :: "string \<Rightarrow> string" where
  "normalize_social_provider p = map (\<lambda>c. if c = CHR '' '' then CHR ''_'' else c) (to_ascii_lowercase (trim p))"

definition social_token_ref_sha256 :: "ledger_env \<Rightarrow> string \<Rightarrow> string \<Rightarrow> string" where
  "social_token_ref_sha256 env provider token =
     ''sha256:'' @ hex_encode (il_sha256 env (''agenthalo.identity.social.token.v1:'' @
       normalize_social_provider provider @ '':'' @ trim token))"

text \<open>The fields before the genesis hash, which both texts share.\<close>

definition entry_fields :: "ledger_env \<Rightarrow> IdentityLedgerEntry \<Rightarrow> string" where
  "entry_fields env e =
     HASH_DOMAIN @ ''|v='' @ dec (unat (le_version e)) @ ''|seq='' @ dec (unat (le_seq e)) @
     ''|ts='' @ dec (unat (le_timestamp e)) @ ''|kind='' @ kind_debug (le_kind e) @
     ''|provider='' @ unwrap_or (le_provider e) [] @ ''|token_ref='' @ unwrap_or (le_token_ref e) [] @
     ''|expires_at='' @ (case le_expires_at e of None \<Rightarrow> [] | Some v \<Rightarrow> dec (unat v)) @
     ''|status='' @ le_status e @ ''|payload='' @ json_text env (le_payload e)"

definition entry_payload_for_hash :: "ledger_env \<Rightarrow> IdentityLedgerEntry \<Rightarrow> string" where
  "entry_payload_for_hash env e =
     entry_fields env e @ ''|genesis_entropy_sha256='' @ unwrap_or (le_genesis_entropy e) [] @
     ''|prev_hash='' @ unwrap_or (le_prev_hash e) []"

definition entry_payload_for_hash_legacy :: "ledger_env \<Rightarrow> IdentityLedgerEntry \<Rightarrow> string" where
  "entry_payload_for_hash_legacy env e =
     entry_fields env e @ ''|prev_hash='' @ unwrap_or (le_prev_hash e) []"

definition compute_entry_hash :: "ledger_env \<Rightarrow> IdentityLedgerEntry \<Rightarrow> string" where
  "compute_entry_hash env e =
     ledger_hash_hex env (hash_algorithm_from_field (le_hash_algorithm e)) (entry_payload_for_hash env e)"

definition compute_entry_hash_legacy :: "ledger_env \<Rightarrow> IdentityLedgerEntry \<Rightarrow> string" where
  "compute_entry_hash_legacy env e = ledger_hash_hex env Sha256 (entry_payload_for_hash_legacy env e)"

section \<open>Settings\<close>

record ledger_vars =
  var_allow_legacy_unsigned_genesis :: "string option"
  var_strict_genesis_signatures :: "string option"
  var_strict_ledger_signature_fields :: "string option"

definition var_in :: "string option \<Rightarrow> string list \<Rightarrow> bool" where
  "var_in v xs = (case v of None \<Rightarrow> False | Some s \<Rightarrow> List.member xs (to_ascii_lowercase (trim s)))"

definition strict_genesis_signature_enforcement :: "ledger_vars \<Rightarrow> bool" where
  "strict_genesis_signature_enforcement vars =
     (if var_in (var_allow_legacy_unsigned_genesis vars) [''1'', ''true'', ''yes''] then False
      else \<not> var_in (var_strict_genesis_signatures vars) [''0'', ''false'', ''no''])"

definition strict_ledger_signature_fields :: "ledger_vars \<Rightarrow> bool" where
  "strict_ledger_signature_fields vars =
     var_in (var_strict_ledger_signature_fields vars) [''1'', ''true'', ''yes'']"

section \<open>Signatures\<close>

datatype LedgerError =
    VersionMismatch nat | SequenceMismatch nat | PrevHashMismatch nat | EntryHashMismatch u64
  | UnsupportedAlgorithm u64 | PayloadHashMismatch u64 | SignatureDigestMismatch u64
  | MissingPublicKey string | KeyIdMismatch u64 | SignatureError u64 string | InvalidSignature u64
  | LegacyUnsignedGenesis u64 | GenesisUnsigned u64 | MalformedAnchor u64 | AnchorMismatch u64
  | AnchorMissing u64 | LegacyAnchorMissing u64 | LegacyAnchorMalformed u64 | GenesisSignerDrift u64
  | SignerDrift u64 | GenesisNeedsSignature | UnpinnedSigner string | NotWalletKind
  | GenesisAnchorMissing | GenesisAnchorMalformed | NoWallet string | MigrationSignFailed u64

definition entry_signature_payload :: "string \<Rightarrow> string" where
  "entry_signature_payload h = ''agenthalo.identity.ledger.entry_hash.v1:'' @ h"

definition compute_signature_digest_hex :: "ledger_env \<Rightarrow> HashAlgorithm \<Rightarrow> string \<Rightarrow> string \<Rightarrow> string \<Rightarrow> string" where
  "compute_signature_digest_hex env algo key_id payload_hash sig_hex =
     ledger_hash_hex env algo (''agenthalo.sign.pq.v1:'' @ key_id @ '':'' @ payload_hash @ '':'' @ sig_hex)"

definition key_id_for_public_key :: "ledger_env \<Rightarrow> string \<Rightarrow> string" where
  "key_id_for_public_key env pk = hex_encode (il_sha256 env (''agenthalo.pq.keyid.v1:'' @ pk))"

definition hex_decode_dynamic :: "string \<Rightarrow> string + bytes" where
  "hex_decode_dynamic s =
     (if s = [] \<or> odd (length s) then Err ''hex string must have even length''
      else (case hex_pairs s of None \<Rightarrow> Err ''invalid hex'' | Some out \<Rightarrow> Ok out))"

definition verify_detached_signature :: "ledger_env \<Rightarrow> bytes \<Rightarrow> string \<Rightarrow> string \<Rightarrow> string + bool" where
  "verify_detached_signature env payload pk_hex sig_hex =
     (case hex_decode_dynamic pk_hex of
        Inl e \<Rightarrow> Err e
      | Inr vk \<Rightarrow>
          (case hex_decode_dynamic sig_hex of
             Inl e \<Rightarrow> Err e
           | Inr sg \<Rightarrow>
               if length vk \<noteq> 1952 then Err ''invalid ML-DSA public key encoding''
               else if length sg \<noteq> 3309 then Err ''invalid ML-DSA signature encoding''
               else (case pq_decode env sg of
                       None \<Rightarrow> Err ''invalid ML-DSA signature payload''
                     | Some s \<Rightarrow> Ok (pq_verify env vk payload s))))"

text \<open>The key identity of a wallet: its key id and its public key.\<close>

type_synonym wallet_identity = "(string \<times> string) option"

definition resolve_signature_public_key ::
  "ledger_vars \<Rightarrow> LedgerSignatureRef \<Rightarrow> wallet_identity \<Rightarrow> LedgerError + string" where
  "resolve_signature_public_key vars sig wid =
     (let stated = (case lsr_public_key_hex sig of None \<Rightarrow> [] | Some pk \<Rightarrow> trim pk) in
      if stated \<noteq> [] then Ok stated
      else if strict_ledger_signature_fields vars then Err (MissingPublicKey (lsr_key_id sig))
      else (case wid of
              None \<Rightarrow> Err (MissingPublicKey (lsr_key_id sig))
            | Some (kid, pk) \<Rightarrow>
                if eq_ignore_ascii_case kid (lsr_key_id sig) then Ok pk
                else Err (MissingPublicKey (lsr_key_id sig))))"

definition verify_signature_ref ::
  "ledger_env \<Rightarrow> ledger_vars \<Rightarrow> IdentityLedgerEntry \<Rightarrow> LedgerSignatureRef \<Rightarrow> wallet_identity \<Rightarrow>
    LedgerError + string" where
  "verify_signature_ref env vars e sig wid =
     (if \<not> eq_ignore_ascii_case (lsr_algorithm sig) ''ml_dsa65'' then Err (UnsupportedAlgorithm (le_seq e))
      else
        let payload = entry_signature_payload (le_entry_hash e);
            algo = hash_algorithm_from_field (lsr_hash_algorithm sig)
        in if \<not> eq_ignore_ascii_case (lsr_payload_hash sig) (ledger_hash_hex env algo payload) then
             Err (PayloadHashMismatch (le_seq e))
           else if \<not> eq_ignore_ascii_case (lsr_signature_digest sig)
                       (compute_signature_digest_hex env algo (lsr_key_id sig) (lsr_payload_hash sig)
                          (lsr_signature_hex sig)) then
             Err (SignatureDigestMismatch (le_seq e))
           else (case resolve_signature_public_key vars sig wid of
                   Inl err \<Rightarrow> Err err
                 | Inr pk \<Rightarrow>
                     if \<not> eq_ignore_ascii_case (lsr_key_id sig) (key_id_for_public_key env pk) then
                       Err (KeyIdMismatch (le_seq e))
                     else (case verify_detached_signature env payload pk (lsr_signature_hex sig) of
                             Inl err \<Rightarrow> Err (SignatureError (le_seq e) err)
                           | Inr ok \<Rightarrow> if ok then Ok pk else Err (InvalidSignature (le_seq e)))))"

section \<open>The chain\<close>

definition payload_anchor :: "IdentityLedgerEntry \<Rightarrow> string option" where
  "payload_anchor e =
     (case json_get ''combined_entropy_sha256'' (le_payload e) of None \<Rightarrow> None | Some v \<Rightarrow> as_str v)"

definition malformed_anchor :: "string \<Rightarrow> bool" where
  "malformed_anchor a \<longleftrightarrow> \<not> starts_with a ''sha256:'' \<or> length a \<le> length ''sha256:''"

text \<open>The anchor of a completed genesis entry.\<close>

definition check_anchor :: "IdentityLedgerEntry \<Rightarrow> bool \<Rightarrow> LedgerError + unit" where
  "check_anchor e legacy =
     (case le_genesis_entropy e of
        Some anchor \<Rightarrow>
          if malformed_anchor anchor then Err (MalformedAnchor (le_seq e))
          else if unwrap_or (payload_anchor e) [] \<noteq> anchor then Err (AnchorMismatch (le_seq e))
          else Ok ()
      | None \<Rightarrow>
          if \<not> legacy then Err (AnchorMissing (le_seq e))
          else (case payload_anchor e of
                  None \<Rightarrow> Err (LegacyAnchorMissing (le_seq e))
                | Some anchor \<Rightarrow>
                    if malformed_anchor anchor then Err (LegacyAnchorMalformed (le_seq e)) else Ok ()))"

definition is_completed_genesis :: "IdentityLedgerEntry \<Rightarrow> bool" where
  "is_completed_genesis e \<longleftrightarrow>
     le_kind e = GenesisEntropyHarvested \<and> eq_ignore_ascii_case (le_status e) ''completed''"

text \<open>The checks on a genesis entry; the result is the pinned key after it.\<close>

definition check_genesis ::
  "ledger_vars \<Rightarrow> IdentityLedgerEntry \<Rightarrow> bool \<Rightarrow> string option \<Rightarrow> string option \<Rightarrow> LedgerError + string option" where
  "check_genesis vars e legacy signer pinned =
     (if le_kind e \<noteq> GenesisEntropyHarvested then Ok pinned
      else if le_signature e = None \<and> legacy \<and> strict_genesis_signature_enforcement vars then
        Err (LegacyUnsignedGenesis (le_seq e))
      else if le_signature e = None \<and> \<not> legacy then Err (GenesisUnsigned (le_seq e))
      else if \<not> eq_ignore_ascii_case (le_status e) ''completed'' then Ok pinned
      else (case check_anchor e legacy of
              Inl err \<Rightarrow> Err err
            | Inr _ \<Rightarrow>
                (case signer of
                   None \<Rightarrow> Ok pinned
                 | Some pk \<Rightarrow>
                     (case pinned of
                        None \<Rightarrow> Ok (Some pk)
                      | Some pin \<Rightarrow>
                          if eq_ignore_ascii_case pk pin then Ok pinned
                          else Err (GenesisSignerDrift (le_seq e))))))"

text \<open>The key that signed an entry, if it is signed.\<close>

definition entry_signer ::
  "ledger_env \<Rightarrow> ledger_vars \<Rightarrow> wallet_identity \<Rightarrow> IdentityLedgerEntry \<Rightarrow> LedgerError + string option" where
  "entry_signer env vars wid e =
     (case le_signature e of
        None \<Rightarrow> Ok None
      | Some sig \<Rightarrow> (case verify_signature_ref env vars e sig wid of Inl err \<Rightarrow> Err err | Inr pk \<Rightarrow> Ok (Some pk)))"

record chain_state =
  cs_index :: nat
  cs_pinned :: "string option"
  cs_last :: "string option"
  cs_expected :: u64

definition chain_start :: chain_state where
  "chain_start = \<lparr>cs_index = 0, cs_pinned = None, cs_last = None, cs_expected = 1\<rparr>"

text \<open>One pass of the loop.\<close>

definition chain_step ::
  "ledger_env \<Rightarrow> ledger_vars \<Rightarrow> wallet_identity \<Rightarrow> chain_state \<Rightarrow> IdentityLedgerEntry \<Rightarrow> LedgerError + chain_state" where
  "chain_step env vars wid cs e =
     (if le_version e \<noteq> LEDGER_VERSION then Err (VersionMismatch (cs_index cs + 1))
      else if le_seq e \<noteq> cs_expected cs then Err (SequenceMismatch (cs_index cs + 1))
      else if le_prev_hash e \<noteq> cs_last cs then Err (PrevHashMismatch (cs_index cs + 1))
      else
        let legacy = (compute_entry_hash_legacy env e = le_entry_hash e)
        in if compute_entry_hash env e \<noteq> le_entry_hash e \<and> \<not> legacy then Err (EntryHashMismatch (le_seq e))
           else (case entry_signer env vars wid e of
                   Inl err \<Rightarrow> Err err
                 | Inr signer \<Rightarrow>
                     (case check_genesis vars e legacy signer (cs_pinned cs) of
                        Inl err \<Rightarrow> Err err
                      | Inr pinned \<Rightarrow>
                          if (case (pinned, signer) of
                                (Some pin, Some pk) \<Rightarrow> \<not> eq_ignore_ascii_case pk pin
                              | _ \<Rightarrow> False)
                          then Err (SignerDrift (le_seq e))
                          else Ok \<lparr>cs_index = cs_index cs + 1, cs_pinned = pinned,
                                   cs_last = Some (le_entry_hash e),
                                   cs_expected = saturating_add (cs_expected cs) 1\<rparr>)))"

fun chain_loop ::
  "ledger_env \<Rightarrow> ledger_vars \<Rightarrow> wallet_identity \<Rightarrow> chain_state \<Rightarrow> IdentityLedgerEntry list \<Rightarrow>
    LedgerError + chain_state" where
  "chain_loop env vars wid cs [] = Ok cs"
| "chain_loop env vars wid cs (e # es) =
     (case chain_step env vars wid cs e of Inl err \<Rightarrow> Err err | Inr cs' \<Rightarrow> chain_loop env vars wid cs' es)"

section \<open>Wallets\<close>

record PqWallet =
  pw_version :: u8
  pw_algorithm :: string
  pw_key_id :: string
  pw_public_key_hex :: string
  pw_secret_seed_hex :: "string option"
  pw_encrypted_seed :: "bytes option"
  pw_created_at :: u64

text \<open>The two wallet files: what loading them gives, the second one under a key.\<close>

record wallet_files =
  wallet_v1 :: "(string + PqWallet) option"
  wallet_v2 :: "(bytes \<Rightarrow> string + PqWallet) option"

definition has_wallet :: "wallet_files \<Rightarrow> bool" where
  "has_wallet ws \<longleftrightarrow> wallet_v1 ws \<noteq> None \<or> wallet_v2 ws \<noteq> None"

definition wallet_key_identity :: "wallet_files \<Rightarrow> string + wallet_identity" where
  "wallet_key_identity ws =
     (case wallet_v1 ws of
        None \<Rightarrow>
          if wallet_v2 ws \<noteq> None then
            Err ''v2 wallet identity requires unlocked Sign scope key; use wallet_key_identity_v2''
          else Ok None
      | Some (Inl e) \<Rightarrow> Err e
      | Some (Inr w) \<Rightarrow> Ok (Some (pw_key_id w, pw_public_key_hex w)))"

definition wallet_key_identity_v2 :: "wallet_files \<Rightarrow> bytes \<Rightarrow> string + wallet_identity" where
  "wallet_key_identity_v2 ws key =
     (case wallet_v2 ws of
        None \<Rightarrow> Ok None
      | Some load \<Rightarrow>
          (case load key of Inl e \<Rightarrow> Err e | Inr w \<Rightarrow> Ok (Some (pw_key_id w, pw_public_key_hex w))))"

text \<open>\<^verbatim>\<open>.ok().flatten()\<close>.\<close>

definition ok_flatten :: "'e + 'a option \<Rightarrow> 'a option" where
  "ok_flatten r = (case r of Inl _ \<Rightarrow> None | Inr x \<Rightarrow> x)"

text \<open>The part that both signing functions share once they have the seed.\<close>

definition sign_with_seed ::
  "ledger_env \<Rightarrow> u64 \<Rightarrow> PqWallet \<Rightarrow> bytes \<Rightarrow> bytes \<Rightarrow> string + LedgerSignatureRef" where
  "sign_with_seed env now w seed payload =
     (case pq_sign env seed payload of
        None \<Rightarrow> Err ''ML-DSA signing failed''
      | Some sg \<Rightarrow>
          if \<not> pq_verify env (pq_public env seed) payload sg then Err ''ML-DSA self-verification failed''
          else
            let sig_hex = hex_encode (pq_encode env sg);
                payload_hash = ledger_hash_hex env Sha512 payload
            in case save_error env of
                 Some e \<Rightarrow> Err e
               | None \<Rightarrow>
                   Ok \<lparr>lsr_algorithm = ''ml_dsa65'', lsr_key_id = pw_key_id w,
                       lsr_public_key_hex = Some (pw_public_key_hex w), lsr_payload_hash = payload_hash,
                       lsr_signature_hex = sig_hex,
                       lsr_signature_digest =
                         compute_signature_digest_hex env Sha512 (pw_key_id w) payload_hash sig_hex,
                       lsr_created_at = now, lsr_hash_algorithm = Some (hash_algorithm_as_str Sha512)\<rparr>)"

definition hex_decode_exact :: "nat \<Rightarrow> string \<Rightarrow> string + bytes" where
  "hex_decode_exact n s =
     (if length s \<noteq> n * 2 then Err (''expected '' @ dec (n * 2) @ '' hex chars, got '' @ dec (length s))
      else (case hex_pairs s of None \<Rightarrow> Err ''invalid hex'' | Some out \<Rightarrow> Ok out))"

text \<open>
  A plain seed is sealed and the wallet rewritten on the way; what is read of it afterwards
  is the same seed, so the rewriting is left out.
\<close>

definition extract_wallet_seed_bytes :: "ledger_env \<Rightarrow> PqWallet \<Rightarrow> string + bytes" where
  "extract_wallet_seed_bytes env w =
     (case pw_encrypted_seed w of
        Some enc \<Rightarrow> seed_unseal env enc
      | None \<Rightarrow>
          (case pw_secret_seed_hex w of
             None \<Rightarrow> Err ''wallet missing encrypted_seed and legacy secret_seed_hex''
           | Some h \<Rightarrow>
               (case hex_decode_exact 32 h of
                  Inl e \<Rightarrow> Err e
                | Inr seed \<Rightarrow> (case seed_seal env seed of Inl e \<Rightarrow> Err e | Inr _ \<Rightarrow> Ok seed))))"

text \<open>The key pair of a legacy wallet must match its recorded public key; that of a new one need not.\<close>

definition keypair_from_wallet :: "ledger_env \<Rightarrow> PqWallet \<Rightarrow> string + bytes" where
  "keypair_from_wallet env w =
     (case extract_wallet_seed_bytes env w of
        Inl e \<Rightarrow> Err e
      | Inr seed \<Rightarrow>
          if length seed \<noteq> 32 then Err (''wallet seed must be 32 bytes, got '' @ dec (length seed))
          else if \<not> eq_ignore_ascii_case (hex_encode (pq_public env seed)) (pw_public_key_hex w) then
            Err ''wallet public key does not match stored seed''
          else Ok seed)"

definition keypair_from_wallet_v2 :: "PqWallet \<Rightarrow> string + bytes" where
  "keypair_from_wallet_v2 w =
     (case pw_secret_seed_hex w of
        None \<Rightarrow> Err ''v2 wallet missing secret_seed_hex''
      | Some h \<Rightarrow> hex_decode_exact 32 h)"

text \<open>\<open>seed\<close> is what the system's entropy source gives.\<close>

definition keygen_pq :: "ledger_env \<Rightarrow> u64 \<Rightarrow> bytes \<Rightarrow> bool \<Rightarrow> wallet_files \<Rightarrow> wallet_files \<times> (string + PqWallet)" where
  "keygen_pq env now seed force ws =
     (if has_wallet ws \<and> \<not> force then (ws, Err ''PQ wallet already exists (use --force to rotate)'')
      else
        let pk = hex_encode (pq_public env seed)
        in case seed_seal env seed of
             Inl e \<Rightarrow> (ws, Err e)
           | Inr enc \<Rightarrow>
               (case save_error env of
                  Some e \<Rightarrow> (ws, Err e)
                | None \<Rightarrow>
                    let w = \<lparr>pw_version = 1, pw_algorithm = ''ml_dsa65'',
                             pw_key_id = key_id_for_public_key env pk, pw_public_key_hex = pk,
                             pw_secret_seed_hex = None, pw_encrypted_seed = Some enc, pw_created_at = now\<rparr>
                    in (ws\<lparr>wallet_v1 := Some (Ok w)\<rparr>, Ok w)))"

definition sign_pq_payload :: "ledger_env \<Rightarrow> u64 \<Rightarrow> wallet_files \<Rightarrow> bytes \<Rightarrow> string + LedgerSignatureRef" where
  "sign_pq_payload env now ws payload =
     (case wallet_v1 ws of
        Some (Inl e) \<Rightarrow> Err e
      | Some (Inr w) \<Rightarrow>
          (case keypair_from_wallet env w of
             Inl e \<Rightarrow> Err e
           | Inr seed \<Rightarrow> sign_with_seed env now w seed payload)
      | None \<Rightarrow>
          if wallet_v2 ws \<noteq> None then
            Err ''v2 wallet requires unlocked Sign scope key; unlock crypto and retry''
          else Err ''no PQ wallet found. Run: agenthalo keygen --pq (or --force to rotate)'')"

definition sign_pq_payload_v2 :: "ledger_env \<Rightarrow> u64 \<Rightarrow> wallet_files \<Rightarrow> bytes \<Rightarrow> bytes \<Rightarrow> string + LedgerSignatureRef" where
  "sign_pq_payload_v2 env now ws key payload =
     (case wallet_v2 ws of
        None \<Rightarrow> Err ''read v2 wallet''
      | Some load \<Rightarrow>
          (case load key of
             Inl e \<Rightarrow> Err e
           | Inr w \<Rightarrow>
               (case keypair_from_wallet_v2 w of
                  Inl e \<Rightarrow> Err e
                | Inr seed \<Rightarrow> sign_with_seed env now w seed payload)))"

definition try_sign_entry_hash_with_key ::
  "ledger_env \<Rightarrow> u64 \<Rightarrow> wallet_files \<Rightarrow> bytes option \<Rightarrow> string \<Rightarrow> LedgerSignatureRef option" where
  "try_sign_entry_hash_with_key env now ws key h =
     (if \<not> has_wallet ws then None
      else
        let payload = entry_signature_payload h
        in case sign_pq_payload env now ws payload of
             Inr sig \<Rightarrow> Some sig
           | Inl _ \<Rightarrow>
               (case key of
                  None \<Rightarrow> None
                | Some k \<Rightarrow>
                    (case sign_pq_payload_v2 env now ws k payload of Inl _ \<Rightarrow> None | Inr sig \<Rightarrow> Some sig)))"

definition verify_chain ::
  "ledger_env \<Rightarrow> ledger_vars \<Rightarrow> wallet_files \<Rightarrow> IdentityLedgerEntry list \<Rightarrow> LedgerError + unit" where
  "verify_chain env vars ws es =
     (case chain_loop env vars (ok_flatten (wallet_key_identity ws)) chain_start es of
        Inl err \<Rightarrow> Err err
      | Inr _ \<Rightarrow> Ok ())"

section \<open>Appending\<close>

text \<open>
  The new entry is written before the extended chain is verified; the first component of the
  result is the file afterwards.
\<close>

definition append_entry_with_key ::
  "ledger_env \<Rightarrow> ledger_vars \<Rightarrow> wallet_files \<Rightarrow> u64 \<Rightarrow> IdentityLedgerEntry \<Rightarrow> bytes option \<Rightarrow>
    IdentityLedgerEntry list \<Rightarrow> IdentityLedgerEntry list \<times> (LedgerError + IdentityLedgerEntry)" where
  "append_entry_with_key env vars ws now entry key es =
     (case verify_chain env vars ws es of
        Inl err \<Rightarrow> (es, Err err)
      | Inr _ \<Rightarrow>
          let wid = (case ok_flatten (wallet_key_identity ws) of
                       Some i \<Rightarrow> Some i
                     | None \<Rightarrow> (case key of None \<Rightarrow> None | Some k \<Rightarrow> ok_flatten (wallet_key_identity_v2 ws k)));
              pinned = (case find (\<lambda>e. is_completed_genesis e \<and> le_signature e \<noteq> None) es of
                          None \<Rightarrow> None
                        | Some e \<Rightarrow>
                            (case le_signature e of
                               None \<Rightarrow> None
                             | Some sig \<Rightarrow>
                                 (case resolve_signature_public_key vars sig wid of Inl _ \<Rightarrow> None | Inr pk \<Rightarrow> Some pk)));
              e1 = entry\<lparr>le_seq := (if es = [] then 1 else saturating_add (le_seq (last es)) 1),
                         le_prev_hash := (if es = [] then None else Some (le_entry_hash (last es))),
                         le_hash_algorithm := Some (hash_algorithm_as_str Sha512)\<rparr>;
              h = compute_entry_hash env e1;
              e2 = e1\<lparr>le_entry_hash := h, le_signature := try_sign_entry_hash_with_key env now ws key h\<rparr>
          in if le_kind e2 = GenesisEntropyHarvested \<and> le_signature e2 = None then (es, Err GenesisNeedsSignature)
             else
               let pin_check =
                     (case (pinned, le_signature e2) of
                        (Some pin, Some sig) \<Rightarrow>
                          (case resolve_signature_public_key vars sig wid of
                             Inl err \<Rightarrow> Err err
                           | Inr pk \<Rightarrow>
                               if eq_ignore_ascii_case pk pin then Ok () else Err (UnpinnedSigner (lsr_key_id sig)))
                      | _ \<Rightarrow> Ok ())
               in case pin_check of
                    Inl err \<Rightarrow> (es, Err err)
                  | Inr _ \<Rightarrow>
                      (case verify_chain env vars ws (es @ [e2]) of
                         Inl err \<Rightarrow> (es @ [e2], Err err)
                       | Inr _ \<Rightarrow> (es @ [e2], Ok e2)))"

text \<open>What the operations below fill in of an entry.\<close>

definition new_entry :: "u64 \<Rightarrow> IdentityLedgerKind \<Rightarrow> string \<Rightarrow> json \<Rightarrow> IdentityLedgerEntry" where
  "new_entry now kind status payload =
     \<lparr>le_version = LEDGER_VERSION, le_seq = 0, le_timestamp = now, le_kind = kind, le_provider = None,
      le_token_ref = None, le_expires_at = None, le_status = status, le_payload = payload,
      le_genesis_entropy = None, le_prev_hash = None, le_entry_hash = [], le_signature = None,
      le_hash_algorithm = None\<rparr>"

type_synonym ledger_op =
  "IdentityLedgerEntry list \<Rightarrow> IdentityLedgerEntry list \<times> (LedgerError + IdentityLedgerEntry)"

definition append_entry ::
  "ledger_env \<Rightarrow> ledger_vars \<Rightarrow> wallet_files \<Rightarrow> u64 \<Rightarrow> IdentityLedgerEntry \<Rightarrow> ledger_op" where
  "append_entry env vars ws now entry = append_entry_with_key env vars ws now entry None"

definition append_social_connect ::
  "ledger_env \<Rightarrow> ledger_vars \<Rightarrow> wallet_files \<Rightarrow> u64 \<Rightarrow> string \<Rightarrow> string \<Rightarrow> u64 option \<Rightarrow> string \<Rightarrow> ledger_op" where
  "append_social_connect env vars ws now provider token expires source =
     (let p = normalize_social_provider provider
      in append_entry env vars ws now
           ((new_entry now SocialTokenConnected ''active''
              (json_object [(''source'', JString source),
                 (''token_ref'', JString ''stored_in_vault_or_external_secret_store'')]))
            \<lparr>le_provider := Some p, le_token_ref := Some (social_token_ref_sha256 env p token),
             le_expires_at := expires\<rparr>))"

definition append_social_revoke ::
  "ledger_env \<Rightarrow> ledger_vars \<Rightarrow> wallet_files \<Rightarrow> u64 \<Rightarrow> string \<Rightarrow> string option \<Rightarrow> ledger_op" where
  "append_social_revoke env vars ws now provider reason =
     append_entry env vars ws now
       ((new_entry now SocialTokenRevoked ''revoked''
          (json_object [(''reason'', JString (unwrap_or reason ''operator_requested''))]))
        \<lparr>le_provider := Some (normalize_social_provider provider)\<rparr>)"

definition enabled_text :: "bool \<Rightarrow> string" where
  "enabled_text b = (if b then ''enabled'' else ''disabled'')"

definition append_super_secure_update ::
  "ledger_env \<Rightarrow> ledger_vars \<Rightarrow> wallet_files \<Rightarrow> u64 \<Rightarrow> string \<Rightarrow> bool \<Rightarrow> json \<Rightarrow> ledger_op" where
  "append_super_secure_update env vars ws now option_key enabled metadata =
     append_entry env vars ws now (new_entry now SuperSecureUpdated (enabled_text enabled)
       (json_object [(''option'', JString option_key), (''enabled'', JBool enabled), (''metadata'', metadata)]))"

text \<open>The first two characters of a UTF-8 string.\<close>

definition char_width :: "char \<Rightarrow> nat" where
  "char_width c = (if code c < 0x80 then 1 else if code c < 0xE0 then 2 else if code c < 0xF0 then 3 else 4)"

fun take_chars :: "nat \<Rightarrow> string \<Rightarrow> string" where
  "take_chars 0 s = []"
| "take_chars (Suc n) [] = []"
| "take_chars (Suc n) (c # cs) =
     take (char_width c) (c # cs) @ take_chars n (drop (char_width c) (c # cs))"

definition nonblank :: "string option \<Rightarrow> bool" where
  "nonblank v = (case v of None \<Rightarrow> False | Some s \<Rightarrow> trim s \<noteq> [])"

definition append_profile_update ::
  "ledger_env \<Rightarrow> ledger_vars \<Rightarrow> wallet_files \<Rightarrow> u64 \<Rightarrow> string option \<Rightarrow> string option \<Rightarrow> bool \<Rightarrow> u64 \<Rightarrow> ledger_op" where
  "append_profile_update env vars ws now display_name avatar locked revision =
     append_entry env vars ws now (new_entry now ProfileUpdated ''updated''
       (json_object
         [(''display_name_set'', JBool (nonblank display_name)),
          (''display_name_preview'', json_opt_str (map_option (take_chars 2) display_name)),
          (''avatar_type'', json_opt_str avatar), (''name_locked'', JBool locked),
          (''name_revision'', JNumber revision)]))"

definition append_device_update ::
  "ledger_env \<Rightarrow> ledger_vars \<Rightarrow> wallet_files \<Rightarrow> u64 \<Rightarrow> bool \<Rightarrow> u32 \<Rightarrow> nat \<Rightarrow> bool \<Rightarrow> string option \<Rightarrow>
    string option \<Rightarrow> ledger_op" where
  "append_device_update env vars ws now enabled bits components browser puf tier =
     append_entry env vars ws now (new_entry now DeviceUpdated (enabled_text enabled)
       (json_object
         [(''enabled'', JBool enabled), (''entropy_bits'', JNumber (ucast bits)),
          (''component_count'', JNumber (of_nat components)), (''has_browser_fingerprint'', JBool browser),
          (''has_puf_binding'', JBool (nonblank puf)), (''puf_tier'', json_opt_str tier)]))"

definition append_network_update ::
  "ledger_env \<Rightarrow> ledger_vars \<Rightarrow> wallet_files \<Rightarrow> u64 \<Rightarrow> bool \<Rightarrow> bool \<Rightarrow> bool \<Rightarrow> bool \<Rightarrow> bool \<Rightarrow> nat \<Rightarrow> ledger_op" where
  "append_network_update env vars ws now local_ip public_ip mac local_hash public_hash macs =
     (let configured = (local_ip \<or> public_ip \<or> mac \<or> local_hash \<or> public_hash \<or> macs > 0)
      in append_entry env vars ws now
           (new_entry now NetworkUpdated (if configured then ''configured'' else ''cleared'')
             (json_object
               [(''share_local_ip'', JBool local_ip), (''share_public_ip'', JBool public_ip),
                (''share_mac'', JBool mac), (''local_ip_hash_present'', JBool local_hash),
                (''public_ip_hash_present'', JBool public_hash), (''mac_count'', JNumber (of_nat macs))])))"

definition append_anonymous_mode_update ::
  "ledger_env \<Rightarrow> ledger_vars \<Rightarrow> wallet_files \<Rightarrow> u64 \<Rightarrow> bool \<Rightarrow> bool \<Rightarrow> bool \<Rightarrow> ledger_op" where
  "append_anonymous_mode_update env vars ws now enabled device network =
     append_entry env vars ws now (new_entry now AnonymousModeUpdated (enabled_text enabled)
       (json_object [(''enabled'', JBool enabled), (''cleared_device'', JBool device),
          (''cleared_network'', JBool network)]))"

definition append_safety_tier_applied ::
  "ledger_env \<Rightarrow> ledger_vars \<Rightarrow> wallet_files \<Rightarrow> u64 \<Rightarrow> string \<Rightarrow> string \<Rightarrow> nat \<Rightarrow> ledger_op" where
  "append_safety_tier_applied env vars ws now tier by failures =
     append_entry env vars ws now (new_entry now SafetyTierApplied ''applied''
       (json_object [(''tier'', JString (to_ascii_lowercase (trim tier))), (''applied_by'', JString by),
          (''step_failures'', JNumber (of_nat failures))]))"

definition is_wallet_kind :: "IdentityLedgerKind \<Rightarrow> bool" where
  "is_wallet_kind k \<longleftrightarrow>
     List.member [WalletCreated, WalletImported, WalletUnlocked, WalletLocked, WalletDeleted] k"

definition append_wallet_event ::
  "ledger_env \<Rightarrow> ledger_vars \<Rightarrow> wallet_files \<Rightarrow> u64 \<Rightarrow> IdentityLedgerKind \<Rightarrow> string \<Rightarrow> json \<Rightarrow> ledger_op" where
  "append_wallet_event env vars ws now kind status payload es =
     (if \<not> is_wallet_kind kind then (es, Err NotWalletKind)
      else append_entry env vars ws now (new_entry now kind status payload) es)"

definition append_genesis_event_with_sign_key ::
  "ledger_env \<Rightarrow> ledger_vars \<Rightarrow> wallet_files \<Rightarrow> u64 \<Rightarrow> string \<Rightarrow> json \<Rightarrow> bytes option \<Rightarrow> ledger_op" where
  "append_genesis_event_with_sign_key env vars ws now status payload key es =
     (let st = to_ascii_lowercase (trim status);
          entry = new_entry now GenesisEntropyHarvested st payload
      in if st \<noteq> ''completed'' then append_entry_with_key env vars ws now entry key es
         else (case payload_anchor entry of
                 None \<Rightarrow> (es, Err GenesisAnchorMissing)
               | Some h \<Rightarrow>
                   if malformed_anchor h then (es, Err GenesisAnchorMalformed)
                   else append_entry_with_key env vars ws now (entry\<lparr>le_genesis_entropy := Some h\<rparr>) key es))"

definition append_attestation_event ::
  "ledger_env \<Rightarrow> ledger_vars \<Rightarrow> wallet_files \<Rightarrow> u64 \<Rightarrow> string \<Rightarrow> json \<Rightarrow> ledger_op" where
  "append_attestation_event env vars ws now status payload =
     (let entry = new_entry now IdentityAttested status payload
      in append_entry env vars ws now (entry\<lparr>le_genesis_entropy := payload_anchor entry\<rparr>))"

definition append_binding_event ::
  "ledger_env \<Rightarrow> ledger_vars \<Rightarrow> wallet_files \<Rightarrow> u64 \<Rightarrow> string \<Rightarrow> json \<Rightarrow> ledger_op" where
  "append_binding_event env vars ws now status payload =
     (let entry = new_entry now AgentAddressBound status payload
      in append_entry env vars ws now (entry\<lparr>le_genesis_entropy := payload_anchor entry\<rparr>))"

section \<open>Migration\<close>

definition migrate_entry ::
  "ledger_env \<Rightarrow> u64 \<Rightarrow> wallet_files \<Rightarrow> string \<times> string \<Rightarrow> IdentityLedgerEntry \<Rightarrow>
    LedgerError + IdentityLedgerEntry \<times> nat" where
  "migrate_entry env now ws wid e =
     (let signed =
        (if le_kind e = GenesisEntropyHarvested \<and> le_signature e = None then
           (case try_sign_entry_hash_with_key env now ws None (le_entry_hash e) of
              None \<Rightarrow> Err (MigrationSignFailed (le_seq e))
            | Some sig \<Rightarrow> Ok (e\<lparr>le_signature := Some sig\<rparr>, 1))
         else Ok (e, 0))
      in case signed of
           Inl err \<Rightarrow> Err err
         | Inr (e1, n) \<Rightarrow>
             (case le_signature e1 of
                None \<Rightarrow> Ok (e1, n)
              | Some sig \<Rightarrow>
                  if (case lsr_public_key_hex sig of None \<Rightarrow> True | Some pk \<Rightarrow> trim pk = []) \<and>
                     eq_ignore_ascii_case (lsr_key_id sig) (fst wid)
                  then Ok (e1\<lparr>le_signature := Some (sig\<lparr>lsr_public_key_hex := Some (snd wid)\<rparr>)\<rparr>, n + 1)
                  else Ok (e1, n)))"

fun migrate_loop ::
  "ledger_env \<Rightarrow> u64 \<Rightarrow> wallet_files \<Rightarrow> string \<times> string \<Rightarrow> IdentityLedgerEntry list \<Rightarrow>
    LedgerError + IdentityLedgerEntry list \<times> nat" where
  "migrate_loop env now ws wid [] = Ok ([], 0)"
| "migrate_loop env now ws wid (e # es) =
     (case migrate_entry env now ws wid e of
        Inl err \<Rightarrow> Err err
      | Inr (e', n) \<Rightarrow>
          (case migrate_loop env now ws wid es of
             Inl err \<Rightarrow> Err err
           | Inr (es', m) \<Rightarrow> Ok (e' # es', n + m)))"

definition migrate_legacy_signatures ::
  "ledger_env \<Rightarrow> ledger_vars \<Rightarrow> wallet_files \<Rightarrow> u64 \<Rightarrow> IdentityLedgerEntry list \<Rightarrow>
    IdentityLedgerEntry list \<times> (LedgerError + nat)" where
  "migrate_legacy_signatures env vars ws now es =
     (case wallet_key_identity ws of
        Inl e \<Rightarrow> (es, Err (NoWallet e))
      | Inr None \<Rightarrow> (es, Err (NoWallet ''migration requires an existing PQ wallet''))
      | Inr (Some wid) \<Rightarrow>
          if es = [] then (es, Ok 0)
          else (case migrate_loop env now ws wid es of
                  Inl err \<Rightarrow> (es, Err err)
                | Inr (es', changed) \<Rightarrow>
                    if changed = 0 then (es, Ok 0)
                    else (case verify_chain env vars ws es' of
                            Inl err \<Rightarrow> (es', Err err)
                          | Inr _ \<Rightarrow> (es', Ok changed))))"

section \<open>Reading\<close>

definition latest_head_hash ::
  "ledger_env \<Rightarrow> ledger_vars \<Rightarrow> wallet_files \<Rightarrow> IdentityLedgerEntry list \<Rightarrow> LedgerError + string option" where
  "latest_head_hash env vars ws es =
     (case verify_chain env vars ws es of
        Inl err \<Rightarrow> Err err
      | Inr _ \<Rightarrow> Ok (if es = [] then None else Some (le_entry_hash (last es))))"

definition latest_completed_genesis_hash ::
  "ledger_env \<Rightarrow> ledger_vars \<Rightarrow> wallet_files \<Rightarrow> IdentityLedgerEntry list \<Rightarrow> LedgerError + string option" where
  "latest_completed_genesis_hash env vars ws es =
     (case verify_chain env vars ws es of
        Inl err \<Rightarrow> Err err
      | Inr _ \<Rightarrow>
          Ok (case find is_completed_genesis (rev es) of None \<Rightarrow> None | Some e \<Rightarrow> le_genesis_entropy e))"

definition latest_genesis_event ::
  "ledger_env \<Rightarrow> ledger_vars \<Rightarrow> wallet_files \<Rightarrow> IdentityLedgerEntry list \<Rightarrow>
    LedgerError + IdentityLedgerEntry option" where
  "latest_genesis_event env vars ws es =
     (case verify_chain env vars ws es of
        Inl err \<Rightarrow> Err err
      | Inr _ \<Rightarrow> Ok (find (\<lambda>e. le_kind e = GenesisEntropyHarvested) (rev es)))"

definition latest_sovereign_binding_events ::
  "ledger_env \<Rightarrow> ledger_vars \<Rightarrow> wallet_files \<Rightarrow> IdentityLedgerEntry list \<Rightarrow>
    LedgerError + IdentityLedgerEntry option \<times> IdentityLedgerEntry option" where
  "latest_sovereign_binding_events env vars ws es =
     (case verify_chain env vars ws es of
        Inl err \<Rightarrow> Err err
      | Inr _ \<Rightarrow>
          Ok (find (\<lambda>e. le_kind e = IdentityAttested) (rev es),
              find (\<lambda>e. le_kind e = AgentAddressBound) (rev es)))"

record SocialProviderProjection =
  sp_provider :: string
  sp_active :: bool
  sp_expired :: bool
  sp_most_recent_seq :: "u64 option"
  sp_most_recent_at :: "u64 option"
  sp_expires_at :: "u64 option"
  sp_active_token_ref :: "string option"
  sp_last_status :: "string option"

record LedgerProjection =
  lp_providers :: "SocialProviderProjection list"
  lp_total_entries :: nat
  lp_head_hash :: "string option"
  lp_chain_valid :: bool
  lp_signed_entries :: nat
  lp_unsigned_entries :: nat
  lp_fully_signed :: bool

definition no_projection :: "string \<Rightarrow> SocialProviderProjection" where
  "no_projection p =
     \<lparr>sp_provider = p, sp_active = False, sp_expired = False, sp_most_recent_seq = None,
      sp_most_recent_at = None, sp_expires_at = None, sp_active_token_ref = None, sp_last_status = None\<rparr>"

definition project_entry :: "u64 \<Rightarrow> IdentityLedgerEntry \<Rightarrow> SocialProviderProjection \<Rightarrow> SocialProviderProjection" where
  "project_entry now e sp =
     (let sp = sp\<lparr>sp_most_recent_seq := Some (le_seq e), sp_most_recent_at := Some (le_timestamp e),
                  sp_last_status := Some (le_status e)\<rparr>
      in case le_kind e of
           SocialTokenConnected \<Rightarrow>
             let expired = (case le_expires_at e of None \<Rightarrow> False | Some t \<Rightarrow> t \<le> now)
             in sp\<lparr>sp_expired := expired, sp_active := \<not> expired, sp_expires_at := le_expires_at e,
                   sp_active_token_ref := (if expired then None else le_token_ref e)\<rparr>
         | SocialTokenRevoked \<Rightarrow>
             sp\<lparr>sp_active := False, sp_expires_at := None, sp_active_token_ref := None, sp_expired := False\<rparr>
         | _ \<Rightarrow> sp)"

definition project_step ::
  "u64 \<Rightarrow> IdentityLedgerEntry \<Rightarrow> (string \<times> SocialProviderProjection) list \<Rightarrow>
    (string \<times> SocialProviderProjection) list" where
  "project_step now e m =
     (case le_provider e of
        None \<Rightarrow> m
      | Some p \<Rightarrow> bt_insert p (project_entry now e (unwrap_or (bt_get m p) (no_projection p))) m)"

definition project_ledger_status ::
  "ledger_env \<Rightarrow> ledger_vars \<Rightarrow> wallet_files \<Rightarrow> u64 \<Rightarrow> IdentityLedgerEntry list \<Rightarrow> LedgerProjection" where
  "project_ledger_status env vars ws now es =
     (let signed = length (filter (\<lambda>e. le_signature e \<noteq> None) es);
          unsigned_n = length es - signed
      in \<lparr>lp_providers = map snd (fold (project_step now) es []),
          lp_total_entries = length es,
          lp_head_hash = (if es = [] then None else Some (le_entry_hash (last es))),
          lp_chain_valid = (verify_chain env vars ws es = Ok ()),
          lp_signed_entries = signed,
          lp_unsigned_entries = unsigned_n,
          lp_fully_signed = (es = [] \<or> unsigned_n = 0)\<rparr>)"

section \<open>OAuth state\<close>

datatype OAuthError =
    OAuthFormat | OAuthSignature | OAuthDecode string | OAuthParse string | OAuthNoProvider
  | OAuthProviderMismatch | OAuthNoNonce | OAuthNonceShort | OAuthNoExpiry | OAuthExpired

definition oauth_sig :: "ledger_env \<Rightarrow> string \<Rightarrow> string \<Rightarrow> string" where
  "oauth_sig env payload_b64 secret =
     hex_encode (il_sha256 env (''agenthalo.identity.oauth.v1:'' @ payload_b64 @ '':'' @ secret))"

definition oauth_state_nonce :: "bytes \<Rightarrow> string" where
  "oauth_state_nonce nonce = hex_encode nonce"

definition encode_oauth_state :: "ledger_env \<Rightarrow> bytes \<Rightarrow> string \<Rightarrow> u64 \<Rightarrow> string \<Rightarrow> string" where
  "encode_oauth_state env nonce provider expires_at secret =
     (let payload = json_object
            [(''provider'', JString (normalize_social_provider provider)),
             (''expires_at'', JNumber expires_at), (''nonce'', JString (oauth_state_nonce nonce))];
          payload_b64 = b64_encode env (json_text env payload)
      in payload_b64 @ ''.'' @ oauth_sig env payload_b64 secret)"

definition decode_oauth_state ::
  "ledger_env \<Rightarrow> string \<Rightarrow> string \<Rightarrow> u64 \<Rightarrow> string \<Rightarrow> OAuthError + unit" where
  "decode_oauth_state env raw expected_provider now secret =
     (case split_once CHR ''.'' raw of
        None \<Rightarrow> Err OAuthFormat
      | Some (payload_b64, sig) \<Rightarrow>
          if oauth_sig env payload_b64 secret \<noteq> sig then Err OAuthSignature
          else (case b64_decode env payload_b64 of
            Inl e \<Rightarrow> Err (OAuthDecode e)
          | Inr decoded \<Rightarrow>
              (case json_read env decoded of
                 Inl e \<Rightarrow> Err (OAuthParse e)
               | Inr val \<Rightarrow>
                   (case Option.bind (json_get ''provider'' val) as_str of
                      None \<Rightarrow> Err OAuthNoProvider
                    | Some provider \<Rightarrow>
                        if normalize_social_provider provider \<noteq> normalize_social_provider expected_provider
                        then Err OAuthProviderMismatch
                        else (case map_option trim (Option.bind (json_get ''nonce'' val) as_str) of
                          None \<Rightarrow> Err OAuthNoNonce
                        | Some nonce \<Rightarrow>
                            if nonce = [] then Err OAuthNoNonce
                            else if length nonce < 16 then Err OAuthNonceShort
                            else (case Option.bind (json_get ''expires_at'' val) as_u64 of
                              None \<Rightarrow> Err OAuthNoExpiry
                            | Some expires_at \<Rightarrow> if expires_at < now then Err OAuthExpired else Ok ()))))))"

end
