(* ===== verification/Identity_Ledger_Proofs.thy ===== *)
theory Identity_Ledger_Proofs
  imports Identity_Ledger
begin

text \<open>
  What the ledger promises: the chain check against a specification without a loop, what
  appending keeps, and what the head hash commits to.
\<close>

section \<open>The specification of an accepted chain\<close>

definition seq_at :: "nat \<Rightarrow> u64" where
  "seq_at i = (if i + 1 < 2 ^ 64 then of_nat (i + 1) else - 1)"

definition last_hash :: "IdentityLedgerEntry list \<Rightarrow> string option" where
  "last_hash es = (if es = [] then None else Some (le_entry_hash (last es)))"

definition signer_of :: "ledger_env \<Rightarrow> ledger_vars \<Rightarrow> wallet_identity \<Rightarrow> IdentityLedgerEntry \<Rightarrow> string option" where
  "signer_of env vars wid e = (case entry_signer env vars wid e of Inl _ \<Rightarrow> None | Inr s \<Rightarrow> s)"

definition legacy_entry :: "ledger_env \<Rightarrow> IdentityLedgerEntry \<Rightarrow> bool" where
  "legacy_entry env e \<longleftrightarrow> compute_entry_hash_legacy env e = le_entry_hash e"

definition entry_sound :: "ledger_env \<Rightarrow> ledger_vars \<Rightarrow> wallet_identity \<Rightarrow> IdentityLedgerEntry \<Rightarrow> bool" where
  "entry_sound env vars wid e \<longleftrightarrow>
     le_version e = LEDGER_VERSION \<and>
     (compute_entry_hash env e = le_entry_hash e \<or> legacy_entry env e) \<and>
     (\<forall>sig. le_signature e = Some sig \<longrightarrow> (\<exists>pk. verify_signature_ref env vars e sig wid = Ok pk)) \<and>
     (le_kind e = GenesisEntropyHarvested \<and> le_signature e = None \<longrightarrow>
        legacy_entry env e \<and> \<not> strict_genesis_signature_enforcement vars) \<and>
     (is_completed_genesis e \<longrightarrow> check_anchor e (legacy_entry env e) = Ok ())"

text \<open>No entry after a signed completed genesis is signed by another key.\<close>

definition one_signer :: "ledger_env \<Rightarrow> ledger_vars \<Rightarrow> wallet_identity \<Rightarrow> IdentityLedgerEntry list \<Rightarrow> bool" where
  "one_signer env vars wid es \<longleftrightarrow>
     (\<forall>i j a b. i \<le> j \<and> j < length es \<and> is_completed_genesis (es ! i) \<and>
        signer_of env vars wid (es ! i) = Some a \<and> signer_of env vars wid (es ! j) = Some b \<longrightarrow>
        eq_ignore_ascii_case b a)"

definition chain_spec :: "ledger_env \<Rightarrow> ledger_vars \<Rightarrow> wallet_identity \<Rightarrow> IdentityLedgerEntry list \<Rightarrow> bool" where
  "chain_spec env vars wid es \<longleftrightarrow>
     (\<forall>i < length es. entry_sound env vars wid (es ! i) \<and> le_seq (es ! i) = seq_at i \<and>
        le_prev_hash (es ! i) = last_hash (take i es)) \<and>
     one_signer env vars wid es"

text \<open>The state of the loop after a list of entries.\<close>

fun pinned_of :: "ledger_env \<Rightarrow> ledger_vars \<Rightarrow> wallet_identity \<Rightarrow> IdentityLedgerEntry list \<Rightarrow> string option" where
  "pinned_of env vars wid [] = None"
| "pinned_of env vars wid (e # es) =
     (if is_completed_genesis e \<and> signer_of env vars wid e \<noteq> None then signer_of env vars wid e
      else pinned_of env vars wid es)"

definition state_after :: "ledger_env \<Rightarrow> ledger_vars \<Rightarrow> wallet_identity \<Rightarrow> IdentityLedgerEntry list \<Rightarrow> chain_state" where
  "state_after env vars wid es =
     \<lparr>cs_index = length es, cs_pinned = pinned_of env vars wid es, cs_last = last_hash es,
      cs_expected = seq_at (length es)\<rparr>"

lemma saturating_seq_at: "saturating_add (seq_at i) 1 = seq_at (Suc i)"
proof (cases "i + 1 < 2 ^ 64")
  case True
  then have "unat (of_nat (Suc i) :: u64) = Suc i" by (intro unat_of_nat_64) simp
  with True show ?thesis by (simp add: saturating_add_def seq_at_def del: of_nat_Suc) simp
next
  case False
  then show ?thesis
    by (simp add: saturating_add_def seq_at_def unsigned_minus_1_eq_mask mask_eq_exp_minus_1)
qed

lemma pinned_of_snoc:
  "pinned_of env vars wid (es @ [e]) =
     (case pinned_of env vars wid es of
        Some p \<Rightarrow> Some p
      | None \<Rightarrow> if is_completed_genesis e then signer_of env vars wid e else None)"
  by (induction es) auto

lemma pinned_of_Some:
  "pinned_of env vars wid es = Some a \<Longrightarrow>
    \<exists>i < length es. is_completed_genesis (es ! i) \<and> signer_of env vars wid (es ! i) = Some a \<and>
      (\<forall>j < i. is_completed_genesis (es ! j) \<longrightarrow> signer_of env vars wid (es ! j) = None)"
proof (induction es)
  case (Cons e es)
  show ?case
  proof (cases "is_completed_genesis e \<and> signer_of env vars wid e \<noteq> None")
    case True
    with Cons.prems show ?thesis by (intro exI [of _ 0]) simp
  next
    case False
    with Cons obtain i where "i < length es" "is_completed_genesis (es ! i)"
      "signer_of env vars wid (es ! i) = Some a"
      "\<forall>j < i. is_completed_genesis (es ! j) \<longrightarrow> signer_of env vars wid (es ! j) = None" by auto
    with False show ?thesis by (intro exI [of _ "Suc i"]) (auto simp: less_Suc_eq_0_disj)
  qed
qed simp

lemma pinned_of_None:
  "pinned_of env vars wid es = None \<Longrightarrow> e \<in> set es \<Longrightarrow> is_completed_genesis e \<Longrightarrow> signer_of env vars wid e = None"
  by (induction es) (auto split: if_splits)

lemma last_hash_snoc [simp]: "last_hash (es @ [e]) = Some (le_entry_hash e)"
  by (simp add: last_hash_def)


lemma one_signer_snoc:
  "one_signer env vars wid (es @ [e]) \<longleftrightarrow>
     one_signer env vars wid es \<and>
     (\<forall>a b. pinned_of env vars wid (es @ [e]) = Some a \<longrightarrow> signer_of env vars wid e = Some b \<longrightarrow>
        eq_ignore_ascii_case b a)"
  (is "?L \<longleftrightarrow> ?A \<and> ?B")
proof (intro iffI conjI)
  assume L: ?L
  show ?A
    unfolding one_signer_def
  proof (intro allI impI, elim conjE)
    fix i j a b
    assume "i \<le> j" "j < length es" "is_completed_genesis (es ! i)"
      "signer_of env vars wid (es ! i) = Some a" "signer_of env vars wid (es ! j) = Some b"
    with L [unfolded one_signer_def, rule_format, of i j a b] show "eq_ignore_ascii_case b a"
      by (simp add: nth_append)
  qed
  show ?B
  proof (intro allI impI)
    fix a b
    assume "pinned_of env vars wid (es @ [e]) = Some a" and e: "signer_of env vars wid e = Some b"
    then obtain i where "i < length (es @ [e])" "is_completed_genesis ((es @ [e]) ! i)"
      "signer_of env vars wid ((es @ [e]) ! i) = Some a" using pinned_of_Some by blast
    with L [unfolded one_signer_def, rule_format, of i "length es" a b] e show "eq_ignore_ascii_case b a"
      by simp
  qed
next
  assume AB: "?A \<and> ?B"
  show ?L
    unfolding one_signer_def
  proof (intro allI impI, elim conjE)
    fix i j a b
    assume ij: "i \<le> j" "j < length (es @ [e])" and g: "is_completed_genesis ((es @ [e]) ! i)"
      and a: "signer_of env vars wid ((es @ [e]) ! i) = Some a"
      and b: "signer_of env vars wid ((es @ [e]) ! j) = Some b"
    show "eq_ignore_ascii_case b a"
    proof (cases "j < length es")
      case True
      with AB [THEN conjunct1, unfolded one_signer_def, rule_format, of i j a b] ij g a b show ?thesis
        by (simp add: nth_append)
    next
      case False
      with ij have j: "j = length es" by simp
      obtain p where p: "pinned_of env vars wid (es @ [e]) = Some p"
        using pinned_of_None [of env vars wid "es @ [e]" "(es @ [e]) ! i"] g a ij nth_mem [of i "es @ [e]"]
        by (cases "pinned_of env vars wid (es @ [e])") auto
      with AB b j have bp: "eq_ignore_ascii_case b p" by simp
      from pinned_of_Some [OF p] obtain k where k: "k < length (es @ [e])" "is_completed_genesis ((es @ [e]) ! k)"
        "signer_of env vars wid ((es @ [e]) ! k) = Some p"
        "\<forall>m < k. is_completed_genesis ((es @ [e]) ! m) \<longrightarrow> signer_of env vars wid ((es @ [e]) ! m) = None" by auto
      have "k \<le> i"
      proof (rule ccontr)
        assume "\<not> k \<le> i"
        with k(4) g have "signer_of env vars wid ((es @ [e]) ! i) = None" by simp
        with a show False by simp
      qed
      show ?thesis
      proof (cases "i < length es")
        case True
        with \<open>k \<le> i\<close> AB [THEN conjunct1, unfolded one_signer_def, rule_format, of k i p a] k g a
        have "eq_ignore_ascii_case a p" by (simp add: nth_append)
        with bp show ?thesis by (simp add: eq_ignore_ascii_case_def)
      next
        case False
        with ij j have "i = j" by simp
        with a b show ?thesis by simp
      qed
    qed
  qed
qed

lemma chain_spec_snoc:
  "chain_spec env vars wid (es @ [e]) \<longleftrightarrow>
     chain_spec env vars wid es \<and> entry_sound env vars wid e \<and> le_seq e = seq_at (length es) \<and>
     le_prev_hash e = last_hash es \<and>
     (\<forall>a b. pinned_of env vars wid (es @ [e]) = Some a \<longrightarrow> signer_of env vars wid e = Some b \<longrightarrow>
        eq_ignore_ascii_case b a)"
  unfolding chain_spec_def one_signer_snoc by (auto simp: nth_append less_Suc_eq)


section \<open>The loop meets the specification\<close>

lemma check_genesis_Ok:
  "check_genesis vars e legacy signer pinned = Ok p \<longleftrightarrow>
     (le_kind e = GenesisEntropyHarvested \<and> le_signature e = None \<longrightarrow>
        legacy \<and> \<not> strict_genesis_signature_enforcement vars) \<and>
     (is_completed_genesis e \<longrightarrow> check_anchor e legacy = Ok () \<and>
        (\<forall>a b. pinned = Some a \<longrightarrow> signer = Some b \<longrightarrow> eq_ignore_ascii_case b a)) \<and>
     p = (case pinned of Some a \<Rightarrow> Some a | None \<Rightarrow> if is_completed_genesis e then signer else None)"
  by (auto simp: check_genesis_def is_completed_genesis_def split: option.splits sum.splits if_splits)

lemma entry_signer_Ok:
  "(\<exists>s. entry_signer env vars wid e = Ok s) \<longleftrightarrow>
     (\<forall>sig. le_signature e = Some sig \<longrightarrow> (\<exists>pk. verify_signature_ref env vars e sig wid = Ok pk))"
  by (auto simp: entry_signer_def split: option.splits sum.splits)

lemma chain_step_Ok:
  "chain_step env vars wid (state_after env vars wid es) e = Ok cs \<longleftrightarrow>
     entry_sound env vars wid e \<and> le_seq e = seq_at (length es) \<and> le_prev_hash e = last_hash es \<and>
     (\<forall>a b. pinned_of env vars wid (es @ [e]) = Some a \<longrightarrow> signer_of env vars wid e = Some b \<longrightarrow>
        eq_ignore_ascii_case b a) \<and>
     cs = state_after env vars wid (es @ [e])"
proof (cases "entry_signer env vars wid e")
  case (Inl err)
  then have "\<not> entry_sound env vars wid e"
    using entry_signer_Ok [of env vars wid e] by (simp add: entry_sound_def)
  with Inl show ?thesis by (simp add: chain_step_def Let_def)
next
  case (Inr s)
  then have sig: "\<forall>sig. le_signature e = Some sig \<longrightarrow> (\<exists>pk. verify_signature_ref env vars e sig wid = Ok pk)"
    using entry_signer_Ok [of env vars wid e] by simp
  have s: "signer_of env vars wid e = s" using Inr by (simp add: signer_of_def)
  let ?pin = "case pinned_of env vars wid es of
    Some a \<Rightarrow> Some a | None \<Rightarrow> if is_completed_genesis e then s else None"
  have step: "chain_step env vars wid (state_after env vars wid es) e = Ok cs \<longleftrightarrow>
      le_version e = LEDGER_VERSION \<and> le_seq e = seq_at (length es) \<and> le_prev_hash e = last_hash es \<and>
      (compute_entry_hash env e = le_entry_hash e \<or> legacy_entry env e) \<and>
      (\<exists>p. check_genesis vars e (legacy_entry env e) s (pinned_of env vars wid es) = Ok p \<and>
        (\<forall>a b. p = Some a \<longrightarrow> s = Some b \<longrightarrow> eq_ignore_ascii_case b a) \<and>
        cs = \<lparr>cs_index = Suc (length es), cs_pinned = p, cs_last = Some (le_entry_hash e),
              cs_expected = seq_at (Suc (length es))\<rparr>)"
    unfolding chain_step_def Inr legacy_entry_def
    by (cases "check_genesis vars e (compute_entry_hash_legacy env e = le_entry_hash e) s (pinned_of env vars wid es)")
      (cases s; auto simp: state_after_def saturating_seq_at Let_def split: option.split_asm if_split_asm)+
  have "(\<forall>a b. pinned_of env vars wid es = Some a \<longrightarrow> s = Some b \<longrightarrow> eq_ignore_ascii_case b a)"
    if "\<forall>a b. ?pin = Some a \<longrightarrow> s = Some b \<longrightarrow> eq_ignore_ascii_case b a"
    using that by (auto split: option.splits)
  moreover have "state_after env vars wid (es @ [e]) =
      \<lparr>cs_index = Suc (length es), cs_pinned = ?pin, cs_last = Some (le_entry_hash e),
       cs_expected = seq_at (Suc (length es))\<rparr>"
    unfolding state_after_def pinned_of_snoc s by simp
  ultimately show ?thesis
    unfolding step check_genesis_Ok entry_sound_def pinned_of_snoc s using sig by auto
qed

lemma chain_loop_snoc:
  "chain_loop env vars wid cs (es @ [e]) =
     (case chain_loop env vars wid cs es of Inl err \<Rightarrow> Err err | Inr cs' \<Rightarrow> chain_step env vars wid cs' e)"
  by (induction es arbitrary: cs) (auto split: sum.splits)

lemma chain_loop_Ok:
  "chain_loop env vars wid chain_start es = Ok cs \<longleftrightarrow>
     chain_spec env vars wid es \<and> cs = state_after env vars wid es"
proof (induction es arbitrary: cs rule: rev_induct)
  case Nil
  show ?case
    by (auto simp: chain_start_def state_after_def last_hash_def seq_at_def chain_spec_def one_signer_def)
next
  case (snoc e es)
  show ?case
  proof (cases "chain_loop env vars wid chain_start es")
    case (Inl err)
    with snoc have "\<not> chain_spec env vars wid es" by auto
    with Inl show ?thesis by (simp add: chain_loop_snoc chain_spec_snoc)
  next
    case (Inr cs')
    with snoc [of cs'] have "chain_spec env vars wid es" "cs' = state_after env vars wid es" by simp_all
    with Inr show ?thesis by (auto simp: chain_loop_snoc chain_spec_snoc chain_step_Ok)
  qed
qed

lemma verify_chain_iff:
  "verify_chain env vars ws es = Ok () \<longleftrightarrow> chain_spec env vars (ok_flatten (wallet_key_identity ws)) es"
  using chain_loop_Ok [of env vars "ok_flatten (wallet_key_identity ws)" es]
  by (cases "chain_loop env vars (ok_flatten (wallet_key_identity ws)) chain_start es")
    (auto simp: verify_chain_def)


section \<open>Appending\<close>

lemma verify_chain_cases: "verify_chain env vars ws es = Ok () \<or> (\<exists>err. verify_chain env vars ws es = Err err)"
  by (cases "verify_chain env vars ws es") auto

text \<open>The entry that appending makes of the one it is given.\<close>

definition linked_entry :: "ledger_env \<Rightarrow> IdentityLedgerEntry list \<Rightarrow> IdentityLedgerEntry \<Rightarrow> IdentityLedgerEntry" where
  "linked_entry env es entry =
     (let e = entry\<lparr>le_seq := (if es = [] then 1 else saturating_add (le_seq (last es)) 1),
                    le_prev_hash := last_hash es,
                    le_hash_algorithm := Some (hash_algorithm_as_str Sha512)\<rparr>
      in e\<lparr>le_entry_hash := compute_entry_hash env e\<rparr>)"

definition signed_entry ::
  "ledger_env \<Rightarrow> u64 \<Rightarrow> wallet_files \<Rightarrow> bytes option \<Rightarrow> IdentityLedgerEntry list \<Rightarrow> IdentityLedgerEntry \<Rightarrow>
    IdentityLedgerEntry" where
  "signed_entry env now ws key es entry =
     (let e = linked_entry env es entry
      in e\<lparr>le_signature := try_sign_entry_hash_with_key env now ws key (le_entry_hash e)\<rparr>)"

lemma linked_entry_fields [simp]:
  "le_version (linked_entry env es entry) = le_version entry"
  "le_timestamp (linked_entry env es entry) = le_timestamp entry"
  "le_kind (linked_entry env es entry) = le_kind entry"
  "le_provider (linked_entry env es entry) = le_provider entry"
  "le_token_ref (linked_entry env es entry) = le_token_ref entry"
  "le_expires_at (linked_entry env es entry) = le_expires_at entry"
  "le_status (linked_entry env es entry) = le_status entry"
  "le_payload (linked_entry env es entry) = le_payload entry"
  "le_genesis_entropy (linked_entry env es entry) = le_genesis_entropy entry"
  "le_prev_hash (linked_entry env es entry) = last_hash es"
  "le_seq (linked_entry env es entry) = (if es = [] then 1 else saturating_add (le_seq (last es)) 1)"
  by (simp_all add: linked_entry_def Let_def)

lemma signed_entry_fields [simp]:
  "le_version (signed_entry env now ws key es entry) = le_version entry"
  "le_timestamp (signed_entry env now ws key es entry) = le_timestamp entry"
  "le_kind (signed_entry env now ws key es entry) = le_kind entry"
  "le_provider (signed_entry env now ws key es entry) = le_provider entry"
  "le_token_ref (signed_entry env now ws key es entry) = le_token_ref entry"
  "le_expires_at (signed_entry env now ws key es entry) = le_expires_at entry"
  "le_status (signed_entry env now ws key es entry) = le_status entry"
  "le_payload (signed_entry env now ws key es entry) = le_payload entry"
  "le_genesis_entropy (signed_entry env now ws key es entry) = le_genesis_entropy entry"
  "le_prev_hash (signed_entry env now ws key es entry) = last_hash es"
  "le_seq (signed_entry env now ws key es entry) = (if es = [] then 1 else saturating_add (le_seq (last es)) 1)"
  "le_entry_hash (signed_entry env now ws key es entry) = le_entry_hash (linked_entry env es entry)"
  by (simp_all add: signed_entry_def Let_def)

lemma compute_entry_hash_cong:
  "le_version e = le_version f \<Longrightarrow> le_seq e = le_seq f \<Longrightarrow> le_timestamp e = le_timestamp f \<Longrightarrow>
    le_kind e = le_kind f \<Longrightarrow> le_provider e = le_provider f \<Longrightarrow> le_token_ref e = le_token_ref f \<Longrightarrow>
    le_expires_at e = le_expires_at f \<Longrightarrow> le_status e = le_status f \<Longrightarrow> le_payload e = le_payload f \<Longrightarrow>
    le_genesis_entropy e = le_genesis_entropy f \<Longrightarrow> le_prev_hash e = le_prev_hash f \<Longrightarrow>
    le_hash_algorithm e = le_hash_algorithm f \<Longrightarrow> compute_entry_hash env e = compute_entry_hash env f"
  by (simp add: compute_entry_hash_def entry_payload_for_hash_def entry_fields_def)

lemma linked_entry_hash:
  "le_entry_hash (linked_entry env es entry) = compute_entry_hash env (linked_entry env es entry)"
proof -
  let ?e = "entry\<lparr>le_seq := (if es = [] then 1 else saturating_add (le_seq (last es)) 1),
                  le_prev_hash := last_hash es, le_hash_algorithm := Some (hash_algorithm_as_str Sha512)\<rparr>"
  have "compute_entry_hash env (linked_entry env es entry) = compute_entry_hash env ?e"
    by (rule compute_entry_hash_cong) (simp_all add: linked_entry_def Let_def)
  then show ?thesis by (simp add: linked_entry_def Let_def)
qed

lemma signed_entry_hash:
  "compute_entry_hash env (signed_entry env now ws key es entry) = le_entry_hash (linked_entry env es entry)"
  unfolding linked_entry_hash by (rule compute_entry_hash_cong) (simp_all add: signed_entry_def Let_def)

lemma append_cases:
  "append_entry_with_key env vars ws now entry key es \<in>
     {(es, Err err) | err. True} \<union>
     {(es @ [signed_entry env now ws key es entry], Err err) | err.
        verify_chain env vars ws (es @ [signed_entry env now ws key es entry]) = Err err} \<union>
     {(es @ [signed_entry env now ws key es entry], Ok (signed_entry env now ws key es entry)) | u :: unit.
        verify_chain env vars ws (es @ [signed_entry env now ws key es entry]) = Ok ()}"
  by (simp add: append_entry_with_key_def signed_entry_def linked_entry_def last_hash_def Let_def
      split: sum.split option.split)


lemma append_Ok:
  assumes "append_entry_with_key env vars ws now entry key es = (es', Ok e)"
  shows "es' = es @ [e]" "e = signed_entry env now ws key es entry" "verify_chain env vars ws es' = Ok ()"
    "verify_chain env vars ws es = Ok ()"
proof -
  show "es' = es @ [e]" "e = signed_entry env now ws key es entry" "verify_chain env vars ws es' = Ok ()"
    using append_cases [of env vars ws now entry key es] assms by auto
  show "verify_chain env vars ws es = Ok ()"
    using assms verify_chain_cases [of env vars ws es] by (auto simp: append_entry_with_key_def)
qed

lemma append_refused:
  "verify_chain env vars ws es = Err err \<Longrightarrow> append_entry_with_key env vars ws now entry key es = (es, Err err)"
  by (simp add: append_entry_with_key_def)

text \<open>An accepted chain gives the key that appending compares with.\<close>

lemma verify_signature_ref_key:
  "verify_signature_ref env vars e sig wid = Ok pk \<Longrightarrow> resolve_signature_public_key vars sig wid = Ok pk"
  by (auto simp: verify_signature_ref_def Let_def split: if_splits sum.splits)

lemma entry_sound_signer:
  assumes "entry_sound env vars wid e"
  shows "signer_of env vars wid e =
    (case le_signature e of
       None \<Rightarrow> None
     | Some sig \<Rightarrow> (case resolve_signature_public_key vars sig wid of Inl _ \<Rightarrow> None | Inr pk \<Rightarrow> Some pk))"
    and "(signer_of env vars wid e = None) \<longleftrightarrow> le_signature e = None"
proof -
  have "le_signature e = Some sig \<Longrightarrow> \<exists>pk. verify_signature_ref env vars e sig wid = Ok pk \<and>
      resolve_signature_public_key vars sig wid = Ok pk" for sig
    using assms verify_signature_ref_key unfolding entry_sound_def by blast
  then show "signer_of env vars wid e =
    (case le_signature e of
       None \<Rightarrow> None
     | Some sig \<Rightarrow> (case resolve_signature_public_key vars sig wid of Inl _ \<Rightarrow> None | Inr pk \<Rightarrow> Some pk))"
    and "(signer_of env vars wid e = None) \<longleftrightarrow> le_signature e = None"
    by (cases "le_signature e"; force simp: signer_of_def entry_signer_def)+
qed

lemma pinned_of_find:
  assumes "\<forall>e \<in> set es. entry_sound env vars wid e"
  shows "(case find (\<lambda>e. is_completed_genesis e \<and> le_signature e \<noteq> None) es of
      None \<Rightarrow> None
    | Some e \<Rightarrow>
        (case le_signature e of
           None \<Rightarrow> None
         | Some sig \<Rightarrow> (case resolve_signature_public_key vars sig wid of Inl _ \<Rightarrow> None | Inr pk \<Rightarrow> Some pk)))
    = pinned_of env vars wid es"
  using assms
proof (induction es)
  case (Cons e es)
  then have "entry_sound env vars wid e" by simp
  note e = entry_sound_signer [OF this]
  show ?case
  proof (cases "is_completed_genesis e \<and> le_signature e \<noteq> None")
    case True
    with e(2) have "pinned_of env vars wid (e # es) = signer_of env vars wid e" by simp
    with True e(1) show ?thesis by simp
  next
    case False
    with Cons e(2) show ?thesis by auto
  qed
qed simp

lemma chain_spec_sound: "chain_spec env vars wid es \<Longrightarrow> e \<in> set es \<Longrightarrow> entry_sound env vars wid e"
  by (auto simp: chain_spec_def in_set_conv_nth)

lemma chain_spec_next_seq:
  assumes "chain_spec env vars wid es"
  shows "(if es = [] then 1 else saturating_add (le_seq (last es)) 1) = seq_at (length es)"
proof (cases "es = []")
  case False
  with assms have "le_seq (last es) = seq_at (length es - 1)"
    by (simp add: chain_spec_def last_conv_nth)
  with False show ?thesis by (simp add: saturating_seq_at)
qed (simp add: seq_at_def)

section \<open>Signing\<close>

text \<open>
  What is relied on of ML-DSA and of the sealing of seeds: a signature made with a seed
  verifies under its public key, its encoding decodes to it, keys and signatures have their
  documented lengths, and a sealed seed is unsealed to itself.
\<close>

definition pq_scheme :: "ledger_env \<Rightarrow> bool" where
  "pq_scheme env \<longleftrightarrow>
     (\<forall>seed m. length seed = 32 \<longrightarrow>
        (\<exists>g. pq_sign env seed m = Some g \<and> pq_verify env (pq_public env seed) m g \<and>
          pq_decode env (pq_encode env g) = Some g \<and> length (pq_encode env g) = 3309)) \<and>
     (\<forall>seed. length (pq_public env seed) = 1952) \<and>
     (\<forall>seed enc. seed_seal env seed = Ok enc \<longrightarrow> seed_unseal env enc = Ok seed)"

lemma hex_decode_dynamic_encode: "bs \<noteq> [] \<Longrightarrow> hex_decode_dynamic (hex_encode bs) = Ok bs"
proof -
  assume "bs \<noteq> []"
  then have "hex_encode bs \<noteq> []" by (metis length_0_conv length_hex_encode mult_eq_0_iff zero_neq_numeral)
  then show ?thesis by (simp add: hex_decode_dynamic_def hex_pairs_encode)
qed

lemma trim_hex_encode [simp]: "trim (hex_encode bs) = hex_encode bs"
proof (rule trim_visible)
  show "\<forall>c \<in> set (hex_encode bs). code c \<in> {33..127}"
    using hex_encode_chars by (fastforce simp: is_hex_char_def)
qed

lemma hex_encode_nonempty [simp]: "hex_encode bs = [] \<longleftrightarrow> bs = []" "[] = hex_encode bs \<longleftrightarrow> bs = []"
  by (metis length_0_conv length_hex_encode mult_eq_0_iff zero_neq_numeral)+

text \<open>A wallet whose recorded key is the one of its seed.\<close>

definition wallet_of_seed :: "ledger_env \<Rightarrow> PqWallet \<Rightarrow> bytes \<Rightarrow> bool" where
  "wallet_of_seed env w seed \<longleftrightarrow>
     length seed = 32 \<and> pw_public_key_hex w = hex_encode (pq_public env seed) \<and>
     pw_key_id w = key_id_for_public_key env (pw_public_key_hex w)"

lemma sign_with_seed_verifies:
  assumes "pq_scheme env" "wallet_of_seed env w seed" "save_error env = None"
  obtains sig where
    "sign_with_seed env now w seed (entry_signature_payload h) = Ok sig"
    "lsr_public_key_hex sig = Some (pw_public_key_hex w)"
    "\<And>e vars wid. le_entry_hash e = h \<Longrightarrow> verify_signature_ref env vars e sig wid = Ok (pw_public_key_hex w)"
proof -
  let ?m = "entry_signature_payload h"
  from assms(1,2) obtain g where g: "pq_sign env seed ?m = Some g" "pq_verify env (pq_public env seed) ?m g"
    "pq_decode env (pq_encode env g) = Some g" "length (pq_encode env g) = 3309"
    unfolding pq_scheme_def wallet_of_seed_def by blast
  let ?sig = "\<lparr>lsr_algorithm = ''ml_dsa65'', lsr_key_id = pw_key_id w,
    lsr_public_key_hex = Some (pw_public_key_hex w), lsr_payload_hash = ledger_hash_hex env Sha512 ?m,
    lsr_signature_hex = hex_encode (pq_encode env g),
    lsr_signature_digest = compute_signature_digest_hex env Sha512 (pw_key_id w)
      (ledger_hash_hex env Sha512 ?m) (hex_encode (pq_encode env g)),
    lsr_created_at = now, lsr_hash_algorithm = Some (hash_algorithm_as_str Sha512)\<rparr>"
  have pk: "length (pq_public env seed) = 1952" using assms(1) by (simp add: pq_scheme_def)
  then have ne: "pq_public env seed \<noteq> []" "pq_encode env g \<noteq> []" using g(4) by auto
  have det: "verify_detached_signature env ?m (pw_public_key_hex w) (hex_encode (pq_encode env g)) = Ok True"
    using assms(2) ne pk g by (simp add: verify_detached_signature_def wallet_of_seed_def hex_decode_dynamic_encode)
  have "sign_with_seed env now w seed ?m = Ok ?sig"
    using g assms(3) by (simp add: sign_with_seed_def Let_def)
  moreover have "verify_signature_ref env vars e ?sig wid = Ok (pw_public_key_hex w)" if "le_entry_hash e = h" for e vars wid
  proof -
    have "resolve_signature_public_key vars ?sig wid = Ok (pw_public_key_hex w)"
      using assms(2) ne by (simp add: resolve_signature_public_key_def wallet_of_seed_def)
    then show ?thesis
      using assms(2) det that
      by (simp add: verify_signature_ref_def Let_def wallet_of_seed_def hash_algorithm_roundtrip
          del: hash_algorithm_as_str.simps)
  qed
  ultimately show ?thesis using that [of ?sig] by simp
qed


lemma keygen_wallet:
  assumes "keygen_pq env now seed force ws = (ws', Ok w)" "length seed = 32"
  shows "wallet_v1 ws' = Some (Ok w)" "wallet_of_seed env w seed" "save_error env = None"
    "\<exists>enc. pw_encrypted_seed w = Some enc \<and> seed_seal env seed = Ok enc"
  using assms
  by (auto simp: keygen_pq_def Let_def wallet_of_seed_def split: if_splits sum.splits option.splits)

lemma keypair_of_keygen:
  assumes "pq_scheme env" "wallet_of_seed env w seed" "pw_encrypted_seed w = Some enc" "seed_seal env seed = Ok enc"
  shows "keypair_from_wallet env w = Ok seed"
proof -
  have "extract_wallet_seed_bytes env w = Ok seed"
    using assms by (simp add: extract_wallet_seed_bytes_def pq_scheme_def)
  with assms(2) show ?thesis by (simp add: keypair_from_wallet_def wallet_of_seed_def)
qed

lemma wallet_signs:
  assumes "pq_scheme env" "wallet_v1 ws = Some (Ok w)" "keypair_from_wallet env w = Ok seed"
    "wallet_of_seed env w seed" "save_error env = None"
  obtains sig where
    "try_sign_entry_hash_with_key env now ws key h = Some sig"
    "lsr_public_key_hex sig = Some (pw_public_key_hex w)"
    "\<And>e vars wid. le_entry_hash e = h \<Longrightarrow> verify_signature_ref env vars e sig wid = Ok (pw_public_key_hex w)"
proof -
  from sign_with_seed_verifies [OF assms(1,4,5)] obtain sig where sig:
    "sign_with_seed env now w seed (entry_signature_payload h) = Ok sig"
    "lsr_public_key_hex sig = Some (pw_public_key_hex w)"
    "\<And>e vars wid. le_entry_hash e = h \<Longrightarrow> verify_signature_ref env vars e sig wid = Ok (pw_public_key_hex w)"
    by blast
  then have "try_sign_entry_hash_with_key env now ws key h = Some sig"
    using assms(2,3) by (simp add: try_sign_entry_hash_with_key_def has_wallet_def sign_pq_payload_def)
  with that sig show ?thesis by blast
qed

definition anchored :: "IdentityLedgerEntry \<Rightarrow> bool" where
  "anchored e \<longleftrightarrow>
     (case le_genesis_entropy e of None \<Rightarrow> False | Some a \<Rightarrow> \<not> malformed_anchor a \<and> payload_anchor e = Some a)"

lemma check_anchor_anchored: "anchored e \<Longrightarrow> check_anchor e legacy = Ok ()"
  by (auto simp: anchored_def check_anchor_def unwrap_or_def split: option.splits)

lemma append_goes_through:
  assumes pq: "pq_scheme env" and w: "wallet_v1 ws = Some (Ok w)" "keypair_from_wallet env w = Ok seed"
    "wallet_of_seed env w seed" "save_error env = None"
    and es: "verify_chain env vars ws es = Ok ()"
    and pin: "\<And>a. pinned_of env vars (Some (pw_key_id w, pw_public_key_hex w)) es = Some a \<Longrightarrow>
      eq_ignore_ascii_case (pw_public_key_hex w) a"
    and entry: "le_version entry = LEDGER_VERSION" "is_completed_genesis entry \<Longrightarrow> anchored entry"
  shows "append_entry_with_key env vars ws now entry key es =
      (es @ [signed_entry env now ws key es entry], Ok (signed_entry env now ws key es entry))"
    and "\<exists>sig. le_signature (signed_entry env now ws key es entry) = Some sig \<and>
      lsr_public_key_hex sig = Some (pw_public_key_hex w)"
proof -
  let ?wid = "Some (pw_key_id w, pw_public_key_hex w)"
  let ?e = "signed_entry env now ws key es entry"
  have wid: "ok_flatten (wallet_key_identity ws) = ?wid"
    using w(1) by (simp add: ok_flatten_def wallet_key_identity_def)
  from es have spec: "chain_spec env vars ?wid es" by (simp add: verify_chain_iff wid)
  from wallet_signs [OF pq w] obtain sig where sig:
    "try_sign_entry_hash_with_key env now ws key (le_entry_hash (linked_entry env es entry)) = Some sig"
    "lsr_public_key_hex sig = Some (pw_public_key_hex w)"
    "\<And>e vars wid. le_entry_hash e = le_entry_hash (linked_entry env es entry) \<Longrightarrow>
       verify_signature_ref env vars e sig wid = Ok (pw_public_key_hex w)" by blast
  have es_sig: "le_signature ?e = Some sig" using sig(1) by (simp add: signed_entry_def Let_def)
  have ver: "verify_signature_ref env vars ?e sig ?wid = Ok (pw_public_key_hex w)" by (rule sig(3)) simp
  then have signer: "signer_of env vars ?wid ?e = Some (pw_public_key_hex w)"
    by (simp add: signer_of_def entry_signer_def es_sig)
  have gen: "is_completed_genesis ?e = is_completed_genesis entry" "anchored ?e = anchored entry"
    by (simp_all add: is_completed_genesis_def anchored_def payload_anchor_def split: option.split)
  have "entry_sound env vars ?wid ?e"
    using entry es_sig ver gen check_anchor_anchored [of ?e]
    by (simp add: entry_sound_def signed_entry_hash)
  moreover have "eq_ignore_ascii_case (pw_public_key_hex w) a"
    if "pinned_of env vars ?wid (es @ [?e]) = Some a" for a
    using that pin [of a] signer by (auto simp: pinned_of_snoc split: option.splits if_splits)
  ultimately have "chain_spec env vars ?wid (es @ [?e])"
    using spec chain_spec_next_seq [OF spec] by (simp add: chain_spec_snoc signer)
  then have ok: "verify_chain env vars ws (es @ [?e]) = Ok ()" by (simp add: verify_chain_iff wid)
  have resolved: "resolve_signature_public_key vars sig ?wid = Ok (pw_public_key_hex w)"
    by (rule verify_signature_ref_key [OF ver])
  have pinned: "(case find (\<lambda>e. is_completed_genesis e \<and> le_signature e \<noteq> None) es of
      None \<Rightarrow> None
    | Some e \<Rightarrow>
        (case le_signature e of
           None \<Rightarrow> None
         | Some sig \<Rightarrow> (case resolve_signature_public_key vars sig ?wid of Inl _ \<Rightarrow> None | Inr pk \<Rightarrow> Some pk)))
    = pinned_of env vars ?wid es"
    using chain_spec_sound [OF spec] by (intro pinned_of_find) blast
  have e: "?e = (let e = entry\<lparr>le_seq := (if es = [] then 1 else saturating_add (le_seq (last es)) 1),
                    le_prev_hash := (if es = [] then None else Some (le_entry_hash (last es))),
                    le_hash_algorithm := Some (hash_algorithm_as_str Sha512)\<rparr>;
                    h = compute_entry_hash env e
      in e\<lparr>le_entry_hash := h, le_signature := try_sign_entry_hash_with_key env now ws key h\<rparr>)"
    by (simp add: signed_entry_def linked_entry_def last_hash_def Let_def)
  show "append_entry_with_key env vars ws now entry key es = (es @ [?e], Ok ?e)"
    using es_sig resolved pin
    by (simp only: append_entry_with_key_def es wid pinned sum.case option.case Let_def
        e [unfolded Let_def, symmetric]) (auto simp: ok split: option.split)
  show "\<exists>sig. le_signature ?e = Some sig \<and> lsr_public_key_hex sig = Some (pw_public_key_hex w)"
    using es_sig sig(2) by simp
qed


section \<open>What the head hash commits to\<close>

text \<open>The text whose hash an entry carries.\<close>

definition hashed_text :: "ledger_env \<Rightarrow> IdentityLedgerEntry \<Rightarrow> string" where
  "hashed_text env e =
     (if compute_entry_hash env e = le_entry_hash e then entry_payload_for_hash env e
      else entry_payload_for_hash_legacy env e)"

definition digest_lengths :: "ledger_env \<Rightarrow> bool" where
  "digest_lengths env \<longleftrightarrow> (\<forall>x. length (il_sha256 env x) = 32) \<and> (\<forall>x. length (il_sha512 env x) = 64)"

lemma field_end:
  fixes d :: char
  assumes "d \<notin> set a" "d \<notin> set b" "a @ d # x = b @ d # y"
  shows "a = b \<and> x = y"
proof -
  have "Some (a, x) = Some (b, y)"
    unfolding split_once_app [OF assms(1), symmetric] split_once_app [OF assms(2), symmetric]
    by (simp only: assms(3))
  then show ?thesis by simp
qed

lemma last_field:
  fixes d :: char
  assumes "d \<notin> set p" "d \<notin> set q" "x @ d # p = y @ d # q"
  shows "x = y \<and> p = q"
proof -
  have "rev p @ d # rev x = rev q @ d # rev y"
    using arg_cong [OF assms(3), of rev] by simp
  then have "rev p = rev q \<and> rev x = rev y" using assms(1,2) by (intro field_end) simp_all
  then show ?thesis by simp
qed

lemma bar_notin_dec [simp]: "CHR ''|'' \<notin> set (dec n)"
  using dec_digits by (fastforce simp: is_digit_def)

lemma bar_notin_hex [simp]: "CHR ''|'' \<notin> set (hex_encode bs)"
  using hex_encode_chars by (fastforce simp: is_hex_char_def)

lemma bar_notin_kind [simp]: "CHR ''|'' \<notin> set (kind_debug k)"
  by (cases k) simp_all

lemma kind_debug_inject [simp]: "kind_debug k = kind_debug l \<longleftrightarrow> k = l"
  by (cases k; cases l) simp_all

lemma entry_fields_inject:
  assumes "entry_fields env e @ r = entry_fields env f @ r'"
  shows "le_version e = le_version f \<and> le_seq e = le_seq f \<and> le_timestamp e = le_timestamp f \<and> le_kind e = le_kind f"
proof -
  define v where "v = (\<lambda>e :: IdentityLedgerEntry. dec (unat (le_version e)))"
  define s where "s = (\<lambda>e :: IdentityLedgerEntry. dec (unat (le_seq e)))"
  define t where "t = (\<lambda>e :: IdentityLedgerEntry. dec (unat (le_timestamp e)))"
  define k where "k = (\<lambda>e :: IdentityLedgerEntry. kind_debug (le_kind e))"
  define rest where "rest = (\<lambda>e :: IdentityLedgerEntry. ''provider='' @ unwrap_or (le_provider e) [] @ ''|token_ref='' @ unwrap_or (le_token_ref e) [] @
     ''|expires_at='' @ (case le_expires_at e of None \<Rightarrow> [] | Some v \<Rightarrow> dec (unat v)) @
     ''|status='' @ le_status e @ ''|payload='' @ json_text env (le_payload e))"
  have fields: "entry_fields env e = HASH_DOMAIN @ ''|v='' @ v e @ CHR ''|'' # ''seq='' @ s e @ CHR ''|'' # ''ts='' @ t e @
      CHR ''|'' # ''kind='' @ k e @ CHR ''|'' # rest e" for e
    by (simp add: entry_fields_def v_def s_def t_def k_def rest_def)
  have nb: "CHR ''|'' \<notin> set (v e)" "CHR ''|'' \<notin> set (s e)" "CHR ''|'' \<notin> set (t e)" "CHR ''|'' \<notin> set (k e)" for e
    by (simp_all add: v_def s_def t_def k_def)
  from assms have "v e @ CHR ''|'' # ''seq='' @ s e @ CHR ''|'' # ''ts='' @ t e @ CHR ''|'' # ''kind='' @ k e @ CHR ''|'' # rest e @ r
      = v f @ CHR ''|'' # ''seq='' @ s f @ CHR ''|'' # ''ts='' @ t f @ CHR ''|'' # ''kind='' @ k f @ CHR ''|'' # rest f @ r'"
    by (simp add: fields)
  from field_end [OF nb(1) nb(1) this] have v: "v e = v f"
    and 1: "s e @ CHR ''|'' # ''ts='' @ t e @ CHR ''|'' # ''kind='' @ k e @ CHR ''|'' # rest e @ r
      = s f @ CHR ''|'' # ''ts='' @ t f @ CHR ''|'' # ''kind='' @ k f @ CHR ''|'' # rest f @ r'" by simp_all
  from field_end [OF nb(2) nb(2) 1] have s: "s e = s f"
    and 2: "t e @ CHR ''|'' # ''kind='' @ k e @ CHR ''|'' # rest e @ r
      = t f @ CHR ''|'' # ''kind='' @ k f @ CHR ''|'' # rest f @ r'" by simp_all
  from field_end [OF nb(3) nb(3) 2] have t: "t e = t f"
    and 3: "k e @ CHR ''|'' # rest e @ r = k f @ CHR ''|'' # rest f @ r'" by simp_all
  from field_end [OF nb(4) nb(4) 3] have "k e = k f" by simp
  with v s t show ?thesis
    by (simp add: v_def s_def t_def k_def unsigned_word_eqI)
qed


lemma entry_hash_hex:
  assumes "entry_sound env vars wid e" "digest_lengths env"
  shows "\<exists>algo. le_entry_hash e = ledger_hash_hex env algo (hashed_text env e)"
    and "le_entry_hash e \<noteq> []" "CHR ''|'' \<notin> set (le_entry_hash e)"
proof -
  show *: "\<exists>algo. le_entry_hash e = ledger_hash_hex env algo (hashed_text env e)"
  proof (cases "compute_entry_hash env e = le_entry_hash e")
    case True
    then show ?thesis
      by (intro exI [of _ "hash_algorithm_from_field (le_hash_algorithm e)"])
        (simp add: hashed_text_def compute_entry_hash_def)
  next
    case False
    with assms(1) have "legacy_entry env e" by (simp add: entry_sound_def)
    with False show ?thesis
      by (intro exI [of _ Sha256]) (simp add: hashed_text_def compute_entry_hash_legacy_def legacy_entry_def)
  qed
  have "hash_bytes (il_sha256 env) (il_sha512 env) algo x \<noteq> []" for algo x
    using assms(2) by (cases algo) (auto simp: digest_lengths_def dest!: spec [of _ x])
  with * show "le_entry_hash e \<noteq> []" "CHR ''|'' \<notin> set (le_entry_hash e)"
    by (auto simp: ledger_hash_hex_def hash_hex_def)
qed

lemma last_hash_shape:
  assumes "\<forall>e \<in> set es. entry_sound env vars wid e" "digest_lengths env"
  shows "last_hash es \<noteq> Some []" "CHR ''|'' \<notin> set (unwrap_or (last_hash es) [])"
proof -
  have "es \<noteq> [] \<Longrightarrow> entry_sound env vars wid (last es)" using assms(1) by simp
  with entry_hash_hex [OF _ assms(2), of vars wid "last es"]
  show "last_hash es \<noteq> Some []" "CHR ''|'' \<notin> set (unwrap_or (last_hash es) [])"
    by (auto simp: last_hash_def unwrap_or_def)
qed

lemma hashed_text_prefix: "\<exists>r. hashed_text env e = entry_fields env e @ r"
  by (simp add: hashed_text_def entry_payload_for_hash_def entry_payload_for_hash_legacy_def)

lemma hashed_text_suffix:
  "\<exists>x. hashed_text env e = x @ CHR ''|'' # ''prev_hash='' @ unwrap_or (le_prev_hash e) []"
  by (auto simp: hashed_text_def entry_payload_for_hash_def entry_payload_for_hash_legacy_def intro: exI [of _ "_ @ _"])

lemma hashed_text_inject:
  assumes "hashed_text env e = hashed_text env f"
    "CHR ''|'' \<notin> set (unwrap_or (le_prev_hash e) [])" "CHR ''|'' \<notin> set (unwrap_or (le_prev_hash f) [])"
  shows "le_seq e = le_seq f \<and> le_timestamp e = le_timestamp f \<and> le_kind e = le_kind f \<and>
    unwrap_or (le_prev_hash e) [] = unwrap_or (le_prev_hash f) []"
proof -
  obtain x y where xy: "hashed_text env e = x @ CHR ''|'' # ''prev_hash='' @ unwrap_or (le_prev_hash e) []"
    "hashed_text env f = y @ CHR ''|'' # ''prev_hash='' @ unwrap_or (le_prev_hash f) []"
    using hashed_text_suffix by blast
  have "''prev_hash='' @ unwrap_or (le_prev_hash e) [] = ''prev_hash='' @ unwrap_or (le_prev_hash f) []"
    using last_field [of "CHR ''|''" "''prev_hash='' @ unwrap_or (le_prev_hash e) []"
        "''prev_hash='' @ unwrap_or (le_prev_hash f) []" x y] assms xy by simp
  moreover obtain r r' where "entry_fields env e @ r = entry_fields env f @ r'"
    using hashed_text_prefix assms(1) by metis
  ultimately show ?thesis using entry_fields_inject by fastforce
qed

definition same_history :: "ledger_env \<Rightarrow> IdentityLedgerEntry list \<Rightarrow> IdentityLedgerEntry list \<Rightarrow> bool" where
  "same_history env es fs \<longleftrightarrow>
     list_all2 (\<lambda>e f. hashed_text env e = hashed_text env f \<and> le_entry_hash e = le_entry_hash f \<and>
       le_seq e = le_seq f \<and> le_timestamp e = le_timestamp f \<and> le_kind e = le_kind f \<and>
       le_prev_hash e = le_prev_hash f) es fs"

lemma head_commits:
  assumes "chain_spec env vars wid es" "chain_spec env vars' wid' fs" "last_hash es = last_hash fs"
    "digest_lengths env"
    "\<And>e f. e \<in> set es \<Longrightarrow> f \<in> set fs \<Longrightarrow> le_entry_hash e = le_entry_hash f \<Longrightarrow> hashed_text env e = hashed_text env f"
  shows "same_history env es fs"
  using assms(1-3,5)
proof (induction es arbitrary: fs rule: rev_induct)
  case Nil
  then show ?case by (simp add: same_history_def last_hash_def split: if_splits)
next
  case (snoc e es)
  from snoc.prems(3) have "fs \<noteq> []" by (auto simp: last_hash_def)
  then obtain gs f where fs: "fs = gs @ [f]" by (metis rev_exhaust)
  have h: "le_entry_hash e = le_entry_hash f" using snoc.prems(3) by (simp add: fs)
  then have t: "hashed_text env e = hashed_text env f" using snoc.prems(4) fs by simp
  have es: "chain_spec env vars wid es" "le_prev_hash e = last_hash es" and
    gs: "chain_spec env vars' wid' gs" "le_prev_hash f = last_hash gs"
    using snoc.prems(1,2) by (simp_all add: fs chain_spec_snoc)
  have e: "last_hash es \<noteq> Some []" "CHR ''|'' \<notin> set (unwrap_or (last_hash es) [])"
    using chain_spec_sound [OF es(1)] last_hash_shape [OF _ assms(4)] by blast+
  have f: "last_hash gs \<noteq> Some []" "CHR ''|'' \<notin> set (unwrap_or (last_hash gs) [])"
    using chain_spec_sound [OF gs(1)] last_hash_shape [OF _ assms(4)] by blast+
  from hashed_text_inject [OF t] e(2) f(2) es(2) gs(2)
  have same: "le_seq e = le_seq f" "le_timestamp e = le_timestamp f" "le_kind e = le_kind f"
    "unwrap_or (last_hash es) [] = unwrap_or (last_hash gs) []" by simp_all
  with e(1) f(1) have l: "last_hash es = last_hash gs" by (auto simp: unwrap_or_def split: option.splits)
  then have "same_history env es gs" using snoc es gs fs by simp
  with h t same l es gs fs show ?case by (simp add: same_history_def list_all2_appendI)
qed


text \<open>The fields after the kind are not delimited: two entries can share their text.\<close>

lemma fields_ambiguous:
  "entry_fields env (e\<lparr>le_provider := Some (p @ ''|token_ref='' @ x), le_token_ref := Some t\<rparr>) =
     entry_fields env (e\<lparr>le_provider := Some p, le_token_ref := Some (x @ ''|token_ref='' @ t)\<rparr>)"
  by (simp add: entry_fields_def unwrap_or_def)

section \<open>The projection\<close>

definition token_event :: "string \<Rightarrow> IdentityLedgerEntry \<Rightarrow> bool" where
  "token_event p e \<longleftrightarrow> le_provider e = Some p \<and> (le_kind e = SocialTokenConnected \<or> le_kind e = SocialTokenRevoked)"

definition live_token :: "u64 \<Rightarrow> IdentityLedgerEntry \<Rightarrow> bool" where
  "live_token now e \<longleftrightarrow>
     le_kind e = SocialTokenConnected \<and> (case le_expires_at e of None \<Rightarrow> True | Some t \<Rightarrow> now < t)"

definition projects :: "u64 \<Rightarrow> string \<Rightarrow> IdentityLedgerEntry list \<Rightarrow> SocialProviderProjection \<Rightarrow> bool" where
  "projects now p es sp \<longleftrightarrow>
     sp_provider sp = p \<and>
     sp_active sp = (case find (token_event p) (rev es) of None \<Rightarrow> False | Some e \<Rightarrow> live_token now e) \<and>
     sp_active_token_ref sp =
       (case find (token_event p) (rev es) of
          None \<Rightarrow> None | Some e \<Rightarrow> if live_token now e then le_token_ref e else None) \<and>
     sp_most_recent_seq sp =
       map_option le_seq (find (\<lambda>e. le_provider e = Some p) (rev es))"

lemma project_entry_projects:
  assumes "projects now p es sp" "le_provider e = Some p"
  shows "projects now p (es @ [e]) (project_entry now e sp)"
  using assms
  by (cases "le_kind e")
    (auto simp: projects_def project_entry_def token_event_def live_token_def Let_def not_le
      split: option.split)

lemma projects_other: "le_provider e \<noteq> Some p \<Longrightarrow> projects now p (es @ [e]) sp = projects now p es sp"
  by (simp add: projects_def token_event_def)

lemma projects_none: "\<forall>e \<in> set es. le_provider e \<noteq> Some p \<Longrightarrow> projects now p es (no_projection p)"
proof -
  assume "\<forall>e \<in> set es. le_provider e \<noteq> Some p"
  then have "find (token_event p) (rev es) = None" "find (\<lambda>e. le_provider e = Some p) (rev es) = None"
    by (auto simp: find_None_iff token_event_def)
  then show ?thesis by (simp add: projects_def no_projection_def)
qed

lemma project_fold:
  "bt_wf (fold (project_step now) es [])"
  "set (bt_keys (fold (project_step now) es [])) = {p. \<exists>e \<in> set es. le_provider e = Some p}"
  "bt_get (fold (project_step now) es []) p = Some sp \<Longrightarrow> projects now p es sp"
proof (induction es arbitrary: p sp rule: rev_induct)
  case (snoc e es)
  let ?m = "fold (project_step now) es []"
  {
    case 1
    show ?case using snoc(1) by (simp add: project_step_def [of now e] split: option.split)
  next
    case 2
    show ?case using snoc(2) by (auto simp: project_step_def [of now e] bt_keys_def split: option.splits)
  next
    case 3
    show ?case
    proof (cases "le_provider e = Some p")
      case False
      with 3 have "bt_get ?m p = Some sp" by (auto simp: project_step_def [of now e] split: option.splits if_splits)
      with False snoc(3) show ?thesis by (simp add: projects_other)
    next
      case True
      with 3 have sp: "sp = project_entry now e (unwrap_or (bt_get ?m p) (no_projection p))"
        by (simp add: project_step_def [of now e])
      have "projects now p es (unwrap_or (bt_get ?m p) (no_projection p))"
      proof (cases "bt_get ?m p")
        case None
        then have "p \<notin> set (bt_keys ?m)" by (metis domIff dom_bt_get)
        with snoc(2) have "\<forall>e \<in> set es. le_provider e \<noteq> Some p" by auto
        with None show ?thesis by (simp add: unwrap_or_def projects_none)
      next
        case (Some x)
        with snoc(3) show ?thesis by (simp add: unwrap_or_def)
      qed
      with True sp show ?thesis by (simp add: project_entry_projects)
    qed
  }
qed (simp_all add: bt_keys_def)


section \<open>OAuth state\<close>

lemma normalize_idem [simp]: "normalize_social_provider (normalize_social_provider p) = normalize_social_provider p"
proof -
  let ?f = "\<lambda>c. if to_ascii_lower c = CHR '' '' then CHR ''_'' else to_ascii_lower c"
  have lower: "code (to_ascii_lower c) = (if code c \<in> {65..90} then code c + 32 else code c)" for c
    by (auto simp: to_ascii_lower_def)
  have f: "?f c = c \<or> code (?f c) \<in> {33..127}" for c
    using lower [of c] by (auto simp: to_ascii_lower_def)
  have n: "normalize_social_provider q = map ?f (trim q)" for q
    by (simp add: normalize_social_provider_def to_ascii_lowercase_def)
  have "trim (map ?f (trim p)) = map ?f (trim p)"
    by (rule trim_trimmed, rule trimmed_map [OF f trimmed_trim])
  moreover have "?f (?f c) = ?f c" for c
    using lower [of c] lower [of "to_ascii_lower c"] by (auto simp: to_ascii_lower_def)
  ultimately show ?thesis by (simp add: n del: if_image_distrib)
qed


text \<open>What is relied on of base64 and of the JSON crate.\<close>

definition text_codecs :: "ledger_env \<Rightarrow> bool" where
  "text_codecs env \<longleftrightarrow>
     (\<forall>x. b64_decode env (b64_encode env x) = Ok x) \<and> (\<forall>x. CHR ''.'' \<notin> set (b64_encode env x)) \<and>
     (\<forall>v. json_read env (json_text env v) = Ok v)"

lemma oauth_roundtrip:
  assumes "text_codecs env" "length nonce = 16"
  shows "decode_oauth_state env (encode_oauth_state env nonce provider expires_at secret) expected now secret =
    (if normalize_social_provider provider \<noteq> normalize_social_provider expected then Err OAuthProviderMismatch
     else if expires_at < now then Err OAuthExpired else Ok ())"
proof -
  define v where "v = json_object [(''provider'', JString (normalize_social_provider provider)),
    (''expires_at'', JNumber expires_at), (''nonce'', JString (oauth_state_nonce nonce))]"
  define p where "p = b64_encode env (json_text env v)"
  have enc: "encode_oauth_state env nonce provider expires_at secret = p @ CHR ''.'' # oauth_sig env p secret"
    by (simp add: encode_oauth_state_def Let_def p_def v_def)
  have split: "split_once CHR ''.'' (p @ CHR ''.'' # oauth_sig env p secret) = Some (p, oauth_sig env p secret)"
    using assms(1) by (intro split_once_app) (simp add: text_codecs_def p_def)
  have dec: "b64_decode env p = Ok (json_text env v)" "json_read env (json_text env v) = Ok v"
    using assms(1) by (simp_all add: text_codecs_def p_def)
  have get: "json_get ''provider'' v = Some (JString (normalize_social_provider provider))"
    "json_get ''expires_at'' v = Some (JNumber expires_at)"
    "json_get ''nonce'' v = Some (JString (oauth_state_nonce nonce))"
    by (simp_all add: v_def json_object_def bt_get_def)
  have nonce: "trim (oauth_state_nonce nonce) = oauth_state_nonce nonce" "length (oauth_state_nonce nonce) = 32"
    using assms(2) by (simp_all add: oauth_state_nonce_def)
  then have "oauth_state_nonce nonce \<noteq> []" by auto
  with nonce show ?thesis
    by (simp add: decode_oauth_state_def enc split dec get)
qed


section \<open>A small instance\<close>

text \<open>Constant digests and a scheme that accepts every signature, for the examples.\<close>

definition ledger_demo :: ledger_env where
  "ledger_demo =
     \<lparr>il_sha256 = \<lambda>x. replicate 32 CHR ''a'', il_sha512 = \<lambda>x. replicate 64 CHR ''b'',
      json_text = \<lambda>v. ''{}'', json_read = \<lambda>s. Ok JNull, b64_encode = \<lambda>s. s, b64_decode = \<lambda>s. Ok s,
      pq_public = \<lambda>s. replicate 1952 CHR ''k'', pq_sign = \<lambda>s m. Some [], pq_encode = \<lambda>g. replicate 3309 CHR ''s'',
      pq_decode = \<lambda>s. Some [], pq_verify = \<lambda>k m g. True, seed_seal = \<lambda>s. Ok s, seed_unseal = \<lambda>s. Ok s,
      save_error = None\<rparr>"

definition no_vars :: ledger_vars where
  "no_vars = \<lparr>var_allow_legacy_unsigned_genesis = None, var_strict_genesis_signatures = None,
     var_strict_ledger_signature_fields = None\<rparr>"

definition no_wallets :: wallet_files where
  "no_wallets = \<lparr>wallet_v1 = None, wallet_v2 = None\<rparr>"

lemma ledger_demo_laws [simp]: "pq_scheme ledger_demo" "digest_lengths ledger_demo" "save_error ledger_demo = None"
  by (simp_all add: pq_scheme_def digest_lengths_def ledger_demo_def)

lemma demo_keygen:
  obtains w where "keygen_pq ledger_demo 5 (replicate 32 CHR ''z'') False no_wallets =
    (no_wallets\<lparr>wallet_v1 := Some (Ok w)\<rparr>, Ok w)"
  by (simp add: keygen_pq_def no_wallets_def has_wallet_def Let_def ledger_demo_def)

lemma empty_chain [simp]: "verify_chain env vars ws [] = Ok ()"
  by (simp add: verify_chain_def)

end
