(* ===== verification/Task_Graph.thy ===== *)
theory Task_Graph
  imports Json Float64
begin

text \<open>
  Tasks and the graph of pipes between them: \<^verbatim>\<open>src/orchestrator/task.rs\<close> and
  \<^verbatim>\<open>src/orchestrator/task_graph.rs\<close>.  Reading and printing JSON are parameters.
\<close>

section \<open>Tasks\<close>

datatype TaskStatus = TaskPending | TaskRunning | TaskComplete | TaskFailed | TaskTimeout

record TaskUsage =
  input_tokens :: u64
  output_tokens :: u64
  estimated_cost_usd :: f64

definition no_usage :: TaskUsage where
  "no_usage = \<lparr>input_tokens = 0, output_tokens = 0, estimated_cost_usd = 0\<rparr>"

record Task =
  tk_id :: string
  tk_agent :: string
  tk_prompt :: string
  tk_status :: TaskStatus
  tk_answer :: "string option"
  tk_result :: "string option"
  tk_error :: "string option"
  tk_exit_code :: "u32 option"
  tk_usage :: TaskUsage
  tk_started_at :: "u64 option"
  tk_completed_at :: "u64 option"
  tk_trace_session :: "string option"

definition task_new :: "string \<Rightarrow> string \<Rightarrow> string \<Rightarrow> Task" where
  "task_new i agent prompt =
     \<lparr>tk_id = i, tk_agent = agent, tk_prompt = prompt, tk_status = TaskPending, tk_answer = None,
      tk_result = None, tk_error = None, tk_exit_code = None, tk_usage = no_usage,
      tk_started_at = None, tk_completed_at = None, tk_trace_session = None\<rparr>"

definition mark_running :: "u64 \<Rightarrow> Task \<Rightarrow> Task" where
  "mark_running now t = t\<lparr>tk_status := TaskRunning, tk_started_at := Some now\<rparr>"

definition mark_complete :: "u64 \<Rightarrow> string \<Rightarrow> u32 \<Rightarrow> TaskUsage \<Rightarrow> string option \<Rightarrow> Task \<Rightarrow> Task" where
  "mark_complete now result exit usage trace t =
     t\<lparr>tk_status := TaskComplete, tk_result := Some result, tk_error := None, tk_exit_code := Some exit,
       tk_usage := usage, tk_trace_session := trace, tk_completed_at := Some now\<rparr>"

definition mark_failed :: "u64 \<Rightarrow> string \<Rightarrow> u32 option \<Rightarrow> Task \<Rightarrow> Task" where
  "mark_failed now error exit t =
     t\<lparr>tk_status := TaskFailed, tk_error := Some error, tk_exit_code := exit, tk_completed_at := Some now\<rparr>"

definition mark_timeout :: "u64 \<Rightarrow> string \<Rightarrow> Task \<Rightarrow> Task" where
  "mark_timeout now error t =
     t\<lparr>tk_status := TaskTimeout, tk_error := Some error, tk_completed_at := Some now\<rparr>"

section \<open>Transforms\<close>

datatype PipeTransform =
    PipeIdentity | PipeAnswer | PipeExtract string | PipePrefix string | PipeSuffix string
  | PipeChain "PipeTransform list"

definition strip_prefix :: "string \<Rightarrow> string \<Rightarrow> string option" where
  "strip_prefix s p = (if starts_with s p then Some (drop (length p) s) else None)"

definition parse_transform :: "string option \<Rightarrow> string option \<Rightarrow> string + PipeTransform" where
  "parse_transform raw task_prefix =
     (let base = trim (unwrap_or raw ''identity'');
          first =
            (if base \<noteq> [] \<and> \<not> eq_ignore_ascii_case base ''identity'' then
               if eq_ignore_ascii_case base ''claude_answer'' \<or> eq_ignore_ascii_case base ''assistant_answer''
               then Ok PipeAnswer
               else (case strip_prefix base ''json_extract:'' of
                       Some path \<Rightarrow> Ok (PipeExtract (trim path))
                     | None \<Rightarrow>
                         (case strip_prefix base ''prefix:'' of
                            Some p \<Rightarrow> Ok (PipePrefix p)
                          | None \<Rightarrow>
                              (case strip_prefix base ''suffix:'' of
                                 Some p \<Rightarrow> Ok (PipeSuffix p)
                               | None \<Rightarrow> Err (''unknown pipe transform '' @ base))))
             else Ok PipeIdentity)
      in case first of
           Inl e \<Rightarrow> Err e
         | Inr t \<Rightarrow>
             (case task_prefix of
                Some p \<Rightarrow> if p = [] then Ok t else Ok (PipeChain [PipePrefix p, t])
              | None \<Rightarrow> Ok t))"

fun split_on :: "char \<Rightarrow> string \<Rightarrow> string list" where
  "split_on d [] = [[]]"
| "split_on d (c # cs) =
     (if c = d then [] # split_on d cs
      else (case split_on d cs of [] \<Rightarrow> [[c]] | p # ps \<Rightarrow> (c # p) # ps))"

fun json_index :: "nat \<Rightarrow> json \<Rightarrow> json option" where
  "json_index i (JArray vs) = (if i < length vs then Some (vs ! i) else None)"
| "json_index i _ = None"

text \<open>One part of a path: a field, or a field and an index in brackets.\<close>

definition json_step :: "string \<Rightarrow> json \<Rightarrow> json option" where
  "json_step part v =
     (if part = [] then Some v
      else (case split_once CHR ''['' part of
              None \<Rightarrow> json_get part v
            | Some (name, idx_raw) \<Rightarrow>
                (case json_get name v of
                   None \<Rightarrow> None
                 | Some w \<Rightarrow>
                     (case strip_suffix idx_raw '']'' of
                        None \<Rightarrow> None
                      | Some n \<Rightarrow>
                          (case parse_u64 n of None \<Rightarrow> None | Some i \<Rightarrow> json_index (unat i) w)))))"

fun json_walk :: "string list \<Rightarrow> json \<Rightarrow> json option" where
  "json_walk [] v = Some v"
| "json_walk (p # ps) v = (case json_step p v of None \<Rightarrow> None | Some w \<Rightarrow> json_walk ps w)"

definition json_extract :: "(string \<Rightarrow> json option) \<Rightarrow> (json \<Rightarrow> string) \<Rightarrow> string \<Rightarrow> string \<Rightarrow> string option" where
  "json_extract rd wr input path =
     (case rd input of
        None \<Rightarrow> None
      | Some v \<Rightarrow>
          (case json_walk (split_on CHR ''.'' (dropWhile (\<lambda>c. c = CHR ''.'') (trim path))) v of
             None \<Rightarrow> None
           | Some w \<Rightarrow> Some (case w of JString s \<Rightarrow> s | _ \<Rightarrow> wr w)))"

fun apply_with_answer ::
  "(string \<Rightarrow> json option) \<Rightarrow> (json \<Rightarrow> string) \<Rightarrow> PipeTransform \<Rightarrow> string \<Rightarrow> string option \<Rightarrow> string" where
  "apply_with_answer rd wr PipeIdentity input answer = input"
| "apply_with_answer rd wr PipeAnswer input answer =
     (case answer of None \<Rightarrow> input | Some a \<Rightarrow> if trim a = [] then input else trim a)"
| "apply_with_answer rd wr (PipeExtract path) input answer = unwrap_or (json_extract rd wr input path) input"
| "apply_with_answer rd wr (PipePrefix p) input answer = p @ input"
| "apply_with_answer rd wr (PipeSuffix p) input answer = input @ p"
| "apply_with_answer rd wr (PipeChain ts) input answer =
     foldl (\<lambda>acc t. apply_with_answer rd wr t acc answer) input ts"

section \<open>The graph\<close>

record TaskNode =
  tn_task_id :: string
  tn_agent_id :: string
  tn_status :: TaskStatus
  tn_depends_on :: "string list"

record TaskEdge =
  te_source :: string
  te_target :: string
  te_transform :: PipeTransform
  te_generated :: "string option"

record TaskGraph =
  tg_nodes :: "(string, TaskNode) btree_map"
  tg_edges :: "TaskEdge list"

datatype GraphError = EmptySource | EmptyTarget | UnknownSource string | EdgeCycle

definition graph_default :: TaskGraph where
  "graph_default = \<lparr>tg_nodes = [], tg_edges = []\<rparr>"

definition upsert_node :: "string \<Rightarrow> string \<Rightarrow> TaskStatus \<Rightarrow> TaskGraph \<Rightarrow> TaskGraph" where
  "upsert_node task agent status g =
     (let entry = unwrap_or (bt_get (tg_nodes g) task)
            \<lparr>tn_task_id = task, tn_agent_id = agent, tn_status = status, tn_depends_on = []\<rparr>
      in g\<lparr>tg_nodes := bt_insert task (entry\<lparr>tn_status := status\<rparr>) (tg_nodes g)\<rparr>)"

definition set_generated_task :: "string \<Rightarrow> string \<Rightarrow> string \<Rightarrow> TaskGraph \<Rightarrow> TaskGraph" where
  "set_generated_task src target task g =
     g\<lparr>tg_edges := map (\<lambda>e. if te_source e = src \<and> te_target e = target then e\<lparr>te_generated := Some task\<rparr> else e)
         (tg_edges g)\<rparr>"

definition outgoing_for :: "string \<Rightarrow> TaskGraph \<Rightarrow> TaskEdge list" where
  "outgoing_for src g = filter (\<lambda>e. te_source e = src) (tg_edges g)"

text \<open>The agents an agent pipes to; the sets of the source are sorted lists without duplicates.\<close>

definition add_arc ::
  "string \<Rightarrow> string \<Rightarrow> (string, string list) btree_map \<Rightarrow> (string, string list) btree_map" where
  "add_arc a b m = bt_insert a (bs_insert b (unwrap_or (bt_get m a) [])) m"

definition agent_arcs :: "TaskGraph \<Rightarrow> (string, string list) btree_map" where
  "agent_arcs g =
     foldl (\<lambda>m e. case bt_get (tg_nodes g) (te_source e) of
                    None \<Rightarrow> m | Some n \<Rightarrow> add_arc (tn_agent_id n) (te_target e) m) [] (tg_edges g)"

abbreviation arc_targets :: "(string, string list) btree_map \<Rightarrow> string \<Rightarrow> string list" where
  "arc_targets m a \<equiv> unwrap_or (bt_get m a) []"

text \<open>Depth-first search from the top of the stack; neighbours are pushed in order.\<close>

function search_loop :: "(string, string list) btree_map \<Rightarrow> string \<Rightarrow> string list \<Rightarrow> string set \<Rightarrow> bool" where
  "search_loop m goal [] seen = False"
| "search_loop m goal (a # stack) seen =
     (if a \<in> seen then search_loop m goal stack seen
      else if a = goal then True
      else search_loop m goal (rev (arc_targets m a) @ stack) (insert a seen))"
  by pat_completeness auto


definition all_targets :: "(string, string list) btree_map \<Rightarrow> string set" where
  "all_targets m = (\<Union>(k, bs) \<in> set m. set bs)"

lemma finite_all_targets [simp]: "finite (all_targets m)"
  by (auto simp: all_targets_def)

lemma arc_targets_all: "set (arc_targets m a) \<subseteq> all_targets m"
  by (cases "map_of m a") (auto simp: all_targets_def bt_get_def unwrap_or_def dest!: map_of_SomeD)

termination search_loop
proof (relation "measures [\<lambda>(m, goal, stack, seen). card ((all_targets m \<union> set stack) - seen),
    \<lambda>(m, goal, stack, seen). length stack]")
  fix m :: "(string, string list) btree_map" and goal a :: string and stack and seen :: "string set"
  {
    assume "a \<in> seen"
    then have "(all_targets m \<union> set (a # stack)) - seen = (all_targets m \<union> set stack) - seen" by auto
    then show "((m, goal, stack, seen), m, goal, a # stack, seen) \<in>
        measures [\<lambda>(m, goal, stack, seen). card ((all_targets m \<union> set stack) - seen),
          \<lambda>(m, goal, stack, seen). length stack]"
      by simp
  next
    assume a: "a \<notin> seen"
    have "(all_targets m \<union> set (rev (arc_targets m a) @ stack)) - insert a seen
        \<subset> (all_targets m \<union> set (a # stack)) - seen"
      using arc_targets_all [of m a] a by auto
    then have "card ((all_targets m \<union> set (rev (arc_targets m a) @ stack)) - insert a seen)
        < card ((all_targets m \<union> set (a # stack)) - seen)"
      by (intro psubset_card_mono) simp_all
    then show "((m, goal, rev (arc_targets m a) @ stack, insert a seen), m, goal, a # stack, seen) \<in>
        measures [\<lambda>(m, goal, stack, seen). card ((all_targets m \<union> set stack) - seen),
          \<lambda>(m, goal, stack, seen). length stack]"
      by simp
  }
qed simp

declare search_loop.simps [simp del]

definition agent_would_cycle :: "TaskGraph \<Rightarrow> string \<Rightarrow> string \<Rightarrow> bool" where
  "agent_would_cycle g src target =
     (src = target \<or> search_loop (add_arc src target (agent_arcs g)) src [target] {})"

definition add_edge :: "TaskEdge \<Rightarrow> TaskGraph \<Rightarrow> GraphError + TaskGraph" where
  "add_edge e g =
     (if trim (te_source e) = [] then Err EmptySource
      else if trim (te_target e) = [] then Err EmptyTarget
      else (case bt_get (tg_nodes g) (te_source e) of
              None \<Rightarrow> Err (UnknownSource (te_source e))
            | Some n \<Rightarrow>
                if tn_agent_id n = te_target e then Err EdgeCycle
                else if agent_would_cycle g (tn_agent_id n) (te_target e) then Err EdgeCycle
                else Ok (g\<lparr>tg_edges := tg_edges g @ [e]\<rparr>)))"

section \<open>The search decides reachability\<close>

definition arcs :: "(string, string list) btree_map \<Rightarrow> (string \<times> string) set" where
  "arcs m = {(a, b). b \<in> set (arc_targets m a)}"

text \<open>The pipes between agents.\<close>

definition agent_rel :: "TaskGraph \<Rightarrow> (string \<times> string) set" where
  "agent_rel g = {(tn_agent_id n, te_target e) | e n. e \<in> set (tg_edges g) \<and> bt_get (tg_nodes g) (te_source e) = Some n}"

lemma leaves_seen:
  assumes "(a, goal) \<in> R\<^sup>*" "a \<in> seen" "goal \<notin> seen" "\<And>x. x \<in> seen \<Longrightarrow> R `` {x} \<subseteq> seen \<union> S"
  shows "\<exists>y \<in> S. (y, goal) \<in> R\<^sup>*"
  using assms(1,2)
proof (induction rule: converse_rtrancl_induct)
  case base
  with assms(3) show ?case by simp
next
  case (step x y)
  from step(1,4) assms(4) [of x] have "y \<in> seen \<or> y \<in> S" by auto
  with step show ?case by blast
qed

lemma search_loop_iff:
  assumes "goal \<notin> seen" "\<And>x. x \<in> seen \<Longrightarrow> arcs m `` {x} \<subseteq> seen \<union> set stack"
  shows "search_loop m goal stack seen \<longleftrightarrow> (\<exists>x \<in> set stack. (x, goal) \<in> (arcs m)\<^sup>*)"
  using assms
proof (induction m goal stack seen rule: search_loop.induct)
  case (2 m goal a stack seen)
  show ?case
  proof (cases "a \<in> seen")
    case True
    have "search_loop m goal stack seen \<longleftrightarrow> (\<exists>x \<in> set stack. (x, goal) \<in> (arcs m)\<^sup>*)"
      by (rule "2.IH"(1) [OF True "2.prems"(1)]) (use "2.prems"(2) True in fastforce)
    moreover have "\<exists>y \<in> set stack. (y, goal) \<in> (arcs m)\<^sup>*" if "(a, goal) \<in> (arcs m)\<^sup>*"
      by (rule leaves_seen [OF that True "2.prems"(1)]) (use "2.prems"(2) True in fastforce)
    ultimately show ?thesis using True by (auto simp: search_loop.simps(2))
  next
    case new: False
    show ?thesis
    proof (cases "a = goal")
      case True
      with new show ?thesis by (auto simp: search_loop.simps(2))
    next
      case False
      have "search_loop m goal (rev (arc_targets m a) @ stack) (insert a seen) \<longleftrightarrow>
          (\<exists>x \<in> set (rev (arc_targets m a) @ stack). (x, goal) \<in> (arcs m)\<^sup>*)"
      proof (rule "2.IH"(2) [OF new False])
        show "goal \<notin> insert a seen" using False "2.prems"(1) by simp
        show "arcs m `` {x} \<subseteq> insert a seen \<union> set (rev (arc_targets m a) @ stack)" if "x \<in> insert a seen" for x
          using that "2.prems"(2) [of x] by (auto simp: arcs_def)
      qed
      moreover have "(\<exists>x \<in> set (arc_targets m a). (x, goal) \<in> (arcs m)\<^sup>*) \<longleftrightarrow> (a, goal) \<in> (arcs m)\<^sup>*"
      proof
        assume "(a, goal) \<in> (arcs m)\<^sup>*"
        with False show "\<exists>x \<in> set (arc_targets m a). (x, goal) \<in> (arcs m)\<^sup>*"
          by (auto simp: arcs_def elim: converse_rtranclE)
      qed (auto simp: arcs_def intro: converse_rtrancl_into_rtrancl)
      ultimately show ?thesis using new False by (auto simp: search_loop.simps(2))
    qed
  qed
qed (simp add: search_loop.simps(1))

lemma arcs_add_arc: "arcs (add_arc a b m) = insert (a, b) (arcs m)"
  by (auto simp: arcs_def add_arc_def unwrap_or_def split: option.splits if_splits)

lemma arcs_agent_arcs: "arcs (agent_arcs g) = agent_rel g"
proof -
  have "arcs (foldl (\<lambda>m e. case bt_get (tg_nodes g) (te_source e) of
        None \<Rightarrow> m | Some n \<Rightarrow> add_arc (tn_agent_id n) (te_target e) m) m es)
      = arcs m \<union> {(tn_agent_id n, te_target e) | e n. e \<in> set es \<and> bt_get (tg_nodes g) (te_source e) = Some n}"
    for m :: "(string, string list) btree_map" and es :: "TaskEdge list"
    by (induction es arbitrary: m) (auto simp: arcs_add_arc split: option.split)
  moreover have "arcs [] = {}" by (simp add: arcs_def unwrap_or_def)
  ultimately show ?thesis by (simp add: agent_arcs_def agent_rel_def)
qed

lemma rtrancl_insert_back: "(y, x) \<in> (insert (x, y) R)\<^sup>* \<longleftrightarrow> (y, x) \<in> R\<^sup>*"
  by (auto simp: rtrancl_insert)

lemma agent_would_cycle_iff: "agent_would_cycle g a b \<longleftrightarrow> (b, a) \<in> (agent_rel g)\<^sup>*"
proof -
  have "search_loop (add_arc a b (agent_arcs g)) a [b] {} \<longleftrightarrow> (b, a) \<in> (insert (a, b) (agent_rel g))\<^sup>*"
    using search_loop_iff [of a "{}" "add_arc a b (agent_arcs g)" "[b]"]
    by (simp add: arcs_add_arc arcs_agent_arcs)
  then show ?thesis by (auto simp: agent_would_cycle_def rtrancl_insert_back)
qed


section \<open>Graphs stay acyclic\<close>

definition sources_known :: "TaskGraph \<Rightarrow> bool" where
  "sources_known g \<longleftrightarrow> (\<forall>e \<in> set (tg_edges g). bt_get (tg_nodes g) (te_source e) \<noteq> None)"

definition graph_ok :: "TaskGraph \<Rightarrow> bool" where
  "graph_ok g \<longleftrightarrow> sources_known g \<and> acyclic (agent_rel g)"

lemma graph_default_ok: "graph_ok graph_default"
  by (simp add: graph_ok_def graph_default_def sources_known_def agent_rel_def acyclic_def)

text \<open>A node that is there keeps its agent; a new one is no edge's source.\<close>

lemma agent_of_upsert:
  "map_option tn_agent_id (bt_get (tg_nodes (upsert_node task agent status g)) t) =
     (if t = task \<and> bt_get (tg_nodes g) t = None then Some agent
      else map_option tn_agent_id (bt_get (tg_nodes g) t))"
  by (auto simp: upsert_node_def unwrap_or_def Let_def split: option.split)

lemma agent_rel_map:
  "agent_rel g = {(a, te_target e) | e a. e \<in> set (tg_edges g) \<and>
     map_option tn_agent_id (bt_get (tg_nodes g) (te_source e)) = Some a}"
  by (auto simp: agent_rel_def)

lemma upsert_node_ok:
  assumes "sources_known g"
  shows "agent_rel (upsert_node task agent status g) = agent_rel g"
    and "sources_known (upsert_node task agent status g)"
proof -
  have edges: "tg_edges (upsert_node task agent status g) = tg_edges g"
    by (simp add: upsert_node_def Let_def)
  have same: "map_option tn_agent_id (bt_get (tg_nodes (upsert_node task agent status g)) (te_source e)) =
      map_option tn_agent_id (bt_get (tg_nodes g) (te_source e))" if "e \<in> set (tg_edges g)" for e
    using that assms by (auto simp: agent_of_upsert sources_known_def)
  show "agent_rel (upsert_node task agent status g) = agent_rel g"
    unfolding agent_rel_map edges by (simp only: same cong: conj_cong)
  show "sources_known (upsert_node task agent status g)"
    unfolding sources_known_def edges
  proof
    fix e assume e: "e \<in> set (tg_edges g)"
    with assms have "bt_get (tg_nodes g) (te_source e) \<noteq> None" by (simp add: sources_known_def)
    with same [OF e] show "bt_get (tg_nodes (upsert_node task agent status g)) (te_source e) \<noteq> None"
      by (metis option.map_disc_iff)
  qed
qed

lemma set_generated_ok:
  "agent_rel (set_generated_task src target task g) = agent_rel g"
  "sources_known (set_generated_task src target task g) = sources_known g"
proof -
  define f where
    "f = (\<lambda>e :: TaskEdge. if te_source e = src \<and> te_target e = target then e\<lparr>te_generated := Some task\<rparr> else e)"
  have f: "te_source (f e) = te_source e" "te_target (f e) = te_target e" for e by (simp_all add: f_def)
  have g: "set_generated_task src target task g = g\<lparr>tg_edges := map f (tg_edges g)\<rparr>"
    by (simp add: set_generated_task_def f_def)
  show "agent_rel (set_generated_task src target task g) = agent_rel g"
  proof -
    have "agent_rel (set_generated_task src target task g) =
        {(tn_agent_id n, te_target (f e)) | e n. e \<in> set (tg_edges g) \<and> bt_get (tg_nodes g) (te_source (f e)) = Some n}"
      unfolding g agent_rel_def by auto
    then show ?thesis by (simp only: f agent_rel_def)
  qed
  show "sources_known (set_generated_task src target task g) = sources_known g"
    by (simp add: g sources_known_def f)
qed

lemma add_edge_Ok:
  assumes "add_edge e g = Ok g'"
  obtains n where "bt_get (tg_nodes g) (te_source e) = Some n" "g' = g\<lparr>tg_edges := tg_edges g @ [e]\<rparr>"
    "(te_target e, tn_agent_id n) \<notin> (agent_rel g)\<^sup>*"
  using assms by (auto simp: add_edge_def agent_would_cycle_iff split: if_splits option.splits)

lemma agent_rel_add:
  assumes "bt_get (tg_nodes g) (te_source e) = Some n"
  shows "agent_rel (g\<lparr>tg_edges := tg_edges g @ [e]\<rparr>) = insert (tn_agent_id n, te_target e) (agent_rel g)"
  using assms by (auto simp: agent_rel_def)

lemma add_edge_ok:
  assumes "add_edge e g = Ok g'" "graph_ok g"
  shows "graph_ok g'"
proof -
  from assms(1) obtain n where n: "bt_get (tg_nodes g) (te_source e) = Some n"
    and g': "g' = g\<lparr>tg_edges := tg_edges g @ [e]\<rparr>"
    and new: "(te_target e, tn_agent_id n) \<notin> (agent_rel g)\<^sup>*" by (rule add_edge_Ok)
  have "acyclic (agent_rel g')"
    unfolding g' agent_rel_add [OF n] using assms(2) new by (simp add: graph_ok_def acyclic_insert)
  with assms(2) n g' show ?thesis by (auto simp: graph_ok_def sources_known_def)
qed

text \<open>The edge is refused exactly when it would close a cycle, given that its ends are named.\<close>

lemma add_edge_iff:
  assumes "graph_ok g" "trim (te_source e) \<noteq> []" "trim (te_target e) \<noteq> []"
    "bt_get (tg_nodes g) (te_source e) = Some n"
  shows "add_edge e g = (if acyclic (agent_rel (g\<lparr>tg_edges := tg_edges g @ [e]\<rparr>))
    then Ok (g\<lparr>tg_edges := tg_edges g @ [e]\<rparr>) else Err EdgeCycle)"
  using assms
  by (auto simp: add_edge_def agent_would_cycle_iff agent_rel_add acyclic_insert graph_ok_def)

text \<open>The graphs the operations can make.\<close>

inductive graph_made :: "TaskGraph \<Rightarrow> bool" where
  made_default: "graph_made graph_default"
| made_upsert: "graph_made g \<Longrightarrow> graph_made (upsert_node task agent status g)"
| made_generated: "graph_made g \<Longrightarrow> graph_made (set_generated_task src target task g)"
| made_edge: "graph_made g \<Longrightarrow> add_edge e g = Ok g' \<Longrightarrow> graph_made g'"

lemma graph_made_ok: "graph_made g \<Longrightarrow> graph_ok g"
proof (induction rule: graph_made.induct)
  case made_default
  show ?case by (rule graph_default_ok)
next
  case (made_upsert g task agent status)
  then show ?case by (simp add: graph_ok_def upsert_node_ok)
next
  case (made_generated g src target task)
  then show ?case by (simp add: graph_ok_def set_generated_ok)
next
  case (made_edge g e g')
  then show ?case by (blast intro: add_edge_ok)
qed

end
