(* ===== verification/Orchestrator.thy ===== *)
theory Orchestrator
  imports Task_Graph "HOL-Library.Multiset"
begin

text \<open>
  The task part of \<^verbatim>\<open>src/orchestrator/mod.rs\<close>: creating, running, finishing, piping and pruning
  tasks.  The two maps are behind locks of their own, so a call is a sequence of jobs, each
  under one lock, and calls interleave between their jobs.  What the agent does with a task is
  the \<open>Outcome\<close> of its run; memory, traces and the agent pool do not touch the two maps.  \<^verbatim>\<open>prune_tasks\<close>,
  with which runs end, may happen at any time: every order of jobs in the code is an order of
  the model.
\<close>

record Orchestrator =
  or_tasks :: "(string, Task) btree_map"
  or_graph :: TaskGraph

record PipeRequest =
  pr_source :: string
  pr_target :: string
  pr_transform :: "string option"
  pr_prefix :: "string option"

text \<open>
  The pool refuses to start the task; or it ends, with an exit code, an output, the answer
  read from the answer file and the one found in the output; or collecting the output fails.
\<close>

datatype Outcome =
    StartRefused
  | Ended u32 string "string option" "string option" TaskUsage "string option"
  | OutputError string

abbreviation TASK_RETENTION_SECS :: u64 where
  "TASK_RETENTION_SECS \<equiv> 86400"

abbreviation MAX_TASKS_RETAINED :: nat where
  "MAX_TASKS_RETAINED \<equiv> 2000"

definition contains :: "string \<Rightarrow> string \<Rightarrow> bool" where
  "contains s p \<longleftrightarrow> List.member (map (\<lambda>n. take (length p) (drop n s)) [0..<Suc (length s)]) p"

text \<open>The record of a task after its run.\<close>

definition finished_task :: "u64 \<Rightarrow> Task \<Rightarrow> Outcome \<Rightarrow> Task" where
  "finished_task now t r =
     (case r of
        StartRefused \<Rightarrow> t
      | Ended exit out file_answer answer usage trace \<Rightarrow>
          if exit = 0 then
            (mark_complete now out exit usage trace t)
              \<lparr>tk_answer := (case file_answer of Some a \<Rightarrow> Some a | None \<Rightarrow> answer)\<rparr>
          else
            (mark_failed now (''task exited with code '' @ show_i64 (scast exit)) (Some exit) t)
              \<lparr>tk_result := Some out, tk_answer := answer\<rparr>
      | OutputError e \<Rightarrow>
          if contains (to_ascii_lowercase e) ''timeout'' then mark_timeout now e t else mark_failed now e None t)"

definition store_task :: "Task \<Rightarrow> Orchestrator \<Rightarrow> Orchestrator" where
  "store_task t orch = orch\<lparr>or_tasks := bt_insert (tk_id t) t (or_tasks orch)\<rparr>"

definition note_task :: "Task \<Rightarrow> Orchestrator \<Rightarrow> Orchestrator" where
  "note_task t orch = orch\<lparr>or_graph := upsert_node (tk_id t) (tk_agent t) (tk_status t) (or_graph orch)\<rparr>"

definition collect_followups ::
  "(string \<Rightarrow> json option) \<Rightarrow> (json \<Rightarrow> string) \<Rightarrow> TaskGraph \<Rightarrow> Task \<Rightarrow> (string \<times> string \<times> string) list" where
  "collect_followups rd wr g t =
     (if tk_status t \<noteq> TaskComplete then []
      else map (\<lambda>e. (tk_id t, te_target e,
             apply_with_answer rd wr (te_transform e) (unwrap_or (tk_result t) []) (tk_answer t)))
           (outgoing_for (tk_id t) g))"

text \<open>The jobs of the calls; a job names what its call carries from one lock to the next.\<close>

datatype job =
    Create string string
  | CreateScheduled string string
  | Note Task
  | Run string Outcome
  | MarkRunning Task
  | Finish Task Outcome
  | Followups Task
  | Followup string string string
  | PipeTask string string string
  | Generated string string string
  | Pipe PipeRequest
  | PipeEdge PipeRequest PipeTransform Task

text \<open>
  One job: the state after it, and the jobs its call does next.  \<open>i\<close> is the identifier of the
  task the job creates, if it creates one, and \<open>o_new\<close> the outcome of the run of that task, if the call
  awaits one.
\<close>

fun do_job ::
  "(string \<Rightarrow> json option) \<Rightarrow> (json \<Rightarrow> string) \<Rightarrow> u64 \<Rightarrow> string \<Rightarrow> Outcome \<Rightarrow> job \<Rightarrow> Orchestrator \<Rightarrow>
    Orchestrator \<times> job list" where
  "do_job rd wr now i o_new (Create agent prompt) orch =
     (let t = mark_running now (task_new i agent prompt) in (store_task t orch, [Note t]))"
| "do_job rd wr now i o_new (CreateScheduled agent prompt) orch =
     (let t = task_new i agent prompt in (store_task t orch, [Note t]))"
| "do_job rd wr now i o_new (Note t) orch = (note_task t orch, [])"
| "do_job rd wr now i o_new (Run task r) orch =
     (case bt_get (or_tasks orch) task of
        None \<Rightarrow> (orch, [])
      | Some t \<Rightarrow> (orch, (if tk_status t = TaskRunning then [] else [MarkRunning t]) @ [Finish t r]))"
| "do_job rd wr now i o_new (MarkRunning t) orch =
     (let t' = mark_running now t in (store_task t' orch, [Note t']))"
| "do_job rd wr now i o_new (Finish t r) orch =
     (if r = StartRefused then (orch, [])
      else
        let t' = finished_task now t r
        in (store_task t' orch, [Note t'] @ (case r of Ended _ _ _ _ _ _ \<Rightarrow> [Followups t'] | _ \<Rightarrow> [])))"
| "do_job rd wr now i o_new (Followups t) orch =
     (orch, map (\<lambda>(src, target, prompt). Followup src target prompt) (collect_followups rd wr (or_graph orch) t))"
| "do_job rd wr now i o_new (Followup src target prompt) orch =
     (let t = mark_running now (task_new i target prompt)
      in (store_task t orch, [Note t, Generated src target i, Run i o_new]))"
| "do_job rd wr now i o_new (PipeTask src target prompt) orch =
     (let t = mark_running now (task_new i target prompt)
      in (store_task t orch, [Note t, Run i o_new, Generated src target i]))"
| "do_job rd wr now i o_new (Generated src target task) orch =
     (orch\<lparr>or_graph := set_generated_task src target task (or_graph orch)\<rparr>, [])"
| "do_job rd wr now i o_new (Pipe req) orch =
     (case parse_transform (pr_transform req) (pr_prefix req) of
        Inl _ \<Rightarrow> (orch, [])
      | Inr tr \<Rightarrow>
          (case bt_get (or_tasks orch) (pr_source req) of
             None \<Rightarrow> (orch, [])
           | Some t \<Rightarrow> (orch, [PipeEdge req tr t])))"
| "do_job rd wr now i o_new (PipeEdge req tr t) orch =
     (case add_edge \<lparr>te_source = pr_source req, te_target = pr_target req, te_transform = tr, te_generated = None\<rparr>
             (or_graph orch) of
        Inl _ \<Rightarrow> (orch, [])
      | Inr g \<Rightarrow>
          (orch\<lparr>or_graph := g\<rparr>,
           if tk_status t = TaskComplete
           then [PipeTask (pr_source req) (pr_target req)
                   (apply_with_answer rd wr tr (unwrap_or (tk_result t) []) (tk_answer t))]
           else []))"

text \<open>\<^verbatim>\<open>prune_tasks\<close>: old finished tasks go, then the oldest until the rest fit.\<close>

definition task_age :: "Task \<Rightarrow> u64" where
  "task_age t = (case tk_completed_at t of Some x \<Rightarrow> x | None \<Rightarrow> unwrap_or (tk_started_at t) 0)"

fun drop_oldest :: "(string \<times> u64) list \<Rightarrow> nat \<Rightarrow> (string, Task) btree_map \<Rightarrow> (string, Task) btree_map" where
  "drop_oldest [] excess tasks = tasks"
| "drop_oldest ((i, ts) # ids) excess tasks =
     (if excess = 0 then tasks
      else if bt_contains tasks i then drop_oldest ids (excess - 1) (bt_remove i tasks)
      else drop_oldest ids excess tasks)"

definition prune_tasks :: "u64 \<Rightarrow> Orchestrator \<Rightarrow> Orchestrator" where
  "prune_tasks now orch =
     (let kept = filter (\<lambda>(i, t). case tk_completed_at t of
                           None \<Rightarrow> True | Some d \<Rightarrow> saturating_sub now d \<le> TASK_RETENTION_SECS) (or_tasks orch)
      in if length kept \<le> MAX_TASKS_RETAINED then orch\<lparr>or_tasks := kept\<rparr>
         else
           let ids = sort_key snd (map (\<lambda>(i, t). (i, task_age t)) kept)
           in orch\<lparr>or_tasks := drop_oldest ids (length kept - MAX_TASKS_RETAINED) kept\<rparr>)"

section \<open>Interleavings\<close>

text \<open>A system is the state and the jobs left of each call; any call may do its next job.\<close>

fun entry_job :: "job \<Rightarrow> bool" where
  "entry_job (Create _ _) = True"
| "entry_job (CreateScheduled _ _) = True"
| "entry_job (Run _ _) = True"
| "entry_job (Pipe _) = True"
| "entry_job _ = False"

type_synonym orch_system = "Orchestrator \<times> job list list"

inductive job_step ::
  "(string \<Rightarrow> json option) \<Rightarrow> (json \<Rightarrow> string) \<Rightarrow> orch_system \<Rightarrow> orch_system \<Rightarrow> bool"
  for rd wr where
  do_step: "k < length calls \<Longrightarrow> calls ! k = j # js \<Longrightarrow>
     bt_get (or_tasks orch) i = None \<Longrightarrow> bt_get (tg_nodes (or_graph orch)) i = None \<Longrightarrow>
     do_job rd wr now i o_new j orch = (orch', next_jobs) \<Longrightarrow>
     job_step rd wr (orch, calls) (orch', calls[k := next_jobs @ js])"

inductive orch_step ::
  "(string \<Rightarrow> json option) \<Rightarrow> (json \<Rightarrow> string) \<Rightarrow> orch_system \<Rightarrow> orch_system \<Rightarrow> bool"
  for rd wr where
  job_done: "job_step rd wr sys sys' \<Longrightarrow> orch_step rd wr sys sys'"
| call_new: "entry_job j \<Longrightarrow> orch_step rd wr (orch, calls) (orch, calls @ [[j]])"
| prune: "orch_step rd wr (orch, calls) (prune_tasks now orch, calls)"

lemmas call_step = job_done [OF do_step]

definition orch_empty :: Orchestrator where
  "orch_empty = \<lparr>or_tasks = [], or_graph = graph_default\<rparr>"

definition orch_reachable ::
  "(string \<Rightarrow> json option) \<Rightarrow> (json \<Rightarrow> string) \<Rightarrow> orch_system \<Rightarrow> bool" where
  "orch_reachable rd wr sys \<longleftrightarrow> (orch_step rd wr)\<^sup>*\<^sup>* (orch_empty, []) sys"

section \<open>What every interleaving keeps\<close>

lemma do_job_graph:
  assumes "graph_made (or_graph orch)" "do_job rd wr now i o_new j orch = (orch', js)"
  shows "graph_made (or_graph orch')"
proof (cases j)
  case (PipeEdge req tr t)
  with assms show ?thesis by (auto split: sum.splits intro: made_edge)
qed (use assms in \<open>auto simp: Let_def store_task_def note_task_def split: option.splits sum.splits if_splits
    intro: made_upsert made_generated\<close>)

lemma graph_prune [simp]: "or_graph (prune_tasks now orch) = or_graph orch"
  by (simp add: prune_tasks_def Let_def)

lemma drop_oldest_wf: "bt_wf tasks \<Longrightarrow> bt_wf (drop_oldest ids n tasks)"
  by (induction ids n tasks rule: drop_oldest.induct) auto

lemma do_job_tasks:
  assumes "bt_wf (or_tasks orch)" "do_job rd wr now i o_new j orch = (orch', js)"
  shows "bt_wf (or_tasks orch')"
  using assms
  by (cases j) (auto simp: Let_def store_task_def note_task_def split: option.splits sum.splits if_splits)

lemma filter_wf: "bt_wf m \<Longrightarrow> bt_wf (filter P m)"
  by (induction m) (auto simp: bt_wf_Cons)

lemma prune_wf: "bt_wf (or_tasks orch) \<Longrightarrow> bt_wf (or_tasks (prune_tasks now orch))"
  by (simp add: prune_tasks_def Let_def filter_wf drop_oldest_wf)

lemma orch_step_keeps:
  assumes "orch_step rd wr sys sys'" "graph_made (or_graph (fst sys))" "bt_wf (or_tasks (fst sys))"
  shows "graph_made (or_graph (fst sys')) \<and> bt_wf (or_tasks (fst sys'))"
  using assms by cases (auto elim!: job_step.cases intro: do_job_graph do_job_tasks prune_wf)

lemma orch_reachable_keeps:
  assumes "orch_reachable rd wr sys"
  shows "graph_made (or_graph (fst sys)) \<and> bt_wf (or_tasks (fst sys))"
  using assms unfolding orch_reachable_def
proof (induction rule: rtranclp_induct)
  case base
  show ?case by (simp add: orch_empty_def made_default)
next
  case (step sys sys')
  then show ?case by (blast dest: orch_step_keeps)
qed

section \<open>Pruning\<close>

lemma length_bt_remove: "k \<in> set (bt_keys m) \<Longrightarrow> length (bt_remove k m) = length m - 1"
proof (induction m rule: bt_remove.induct)
  case (2 k k' v' m)
  then have "k \<noteq> k' \<Longrightarrow> m \<noteq> []" by (auto simp: bt_keys_def)
  with 2 show ?case by (cases m) (auto simp: bt_keys_def)
qed (simp add: bt_keys_def)

lemma length_drop_oldest:
  assumes "bt_wf tasks" "distinct (map fst ids)" "set (map fst ids) \<subseteq> set (bt_keys tasks)" "excess \<le> length ids"
  shows "length (drop_oldest ids excess tasks) = length tasks - excess"
  using assms
proof (induction ids excess tasks rule: drop_oldest.induct)
  case (2 i ts ids excess tasks)
  show ?case
  proof (cases "excess = 0")
    case False
    have i: "i \<in> set (bt_keys tasks)" using "2.prems"(3) by simp
    have dom: "set (bt_keys (bt_remove i tasks)) = set (bt_keys tasks) - {i}"
      using "2.prems"(1) by (metis bt_get_remove dom_bt_get dom_fun_upd)
    have "length (drop_oldest ids (excess - 1) (bt_remove i tasks)) = length (bt_remove i tasks) - (excess - 1)"
    proof (rule "2.IH"(1) [OF False])
      show "bt_contains tasks i" using i by simp
      show "bt_wf (bt_remove i tasks)" using "2.prems"(1) by simp
      show "distinct (map fst ids)" "excess - 1 \<le> length ids" using "2.prems"(2,4) by simp_all
      show "set (map fst ids) \<subseteq> set (bt_keys (bt_remove i tasks))" using "2.prems"(2,3) dom by auto
    qed
    with False i show ?thesis by (simp add: length_bt_remove)
  qed simp
qed simp

lemma prune_bounded:
  assumes "bt_wf (or_tasks orch)"
  shows "length (or_tasks (prune_tasks now orch)) \<le> MAX_TASKS_RETAINED"
proof -
  define kept where "kept = filter (\<lambda>(i, t). case tk_completed_at t of
      None \<Rightarrow> True | Some d \<Rightarrow> saturating_sub now d \<le> TASK_RETENTION_SECS) (or_tasks orch)"
  define ids where "ids = sort_key snd (map (\<lambda>(i, t). (i, task_age t)) kept)"
  have wf: "bt_wf kept" using assms by (simp add: kept_def filter_wf)
  have keys: "set (map fst ids) = set (bt_keys kept)"
    by (force simp: ids_def bt_keys_def)
  moreover have "distinct (bt_keys kept)" using bt_sorted_keys [OF wf] by (simp add: strict_sorted_iff)
  ultimately have "distinct (map fst ids)"
    using distinct_card [of "bt_keys kept"] by (intro card_distinct) (simp add: ids_def)
  have "length ids = length kept" by (simp add: ids_def)
  then have "length (drop_oldest ids (length kept - MAX_TASKS_RETAINED) kept) = length kept - (length kept - MAX_TASKS_RETAINED)"
    using keys \<open>distinct (map fst ids)\<close> by (intro length_drop_oldest [OF wf]) simp_all
  then show ?thesis
    by (simp add: prune_tasks_def Let_def flip: kept_def ids_def)
qed


section \<open>A pipe and the end of its source\<close>

definition agent_tasks :: "string \<Rightarrow> Orchestrator \<Rightarrow> string set" where
  "agent_tasks a orch = {i. \<exists>t. bt_get (or_tasks orch) i = Some t \<and> tk_agent t = a}"

lemma agent_tasks_store:
  "agent_tasks a (store_task t orch) =
     (if tk_agent t = a then insert (tk_id t) (agent_tasks a orch) else agent_tasks a orch - {tk_id t})"
  by (auto simp: agent_tasks_def store_task_def)

lemma agent_tasks_graph [simp]:
  "agent_tasks a (note_task t orch) = agent_tasks a orch"
  "agent_tasks a (orch\<lparr>or_graph := g\<rparr>) = agent_tasks a orch"
  by (simp_all add: agent_tasks_def note_task_def)

lemma fresh_id:
  obtains i where "bt_get (or_tasks orch) i = None" "bt_get (tg_nodes (or_graph orch)) i = None"
proof -
  have "infinite (UNIV :: string set)" by (rule infinite_UNIV_listI)
  moreover have "finite (dom (bt_get (or_tasks orch)) \<union> dom (bt_get (tg_nodes (or_graph orch))))" by simp
  ultimately obtain i where "i \<notin> dom (bt_get (or_tasks orch)) \<union> dom (bt_get (tg_nodes (or_graph orch)))"
    using ex_new_if_finite by blast
  then show ?thesis using that by (auto simp: domIff simp del: dom_bt_get)
qed

lemma call_at:
  assumes "k < length calls" "\<And>i. do_job rd wr now i StartRefused j orch = (orch', n)"
    "(orch_step rd wr)\<^sup>*\<^sup>* (orch', calls[k := n @ js]) z"
  shows "(orch_step rd wr)\<^sup>*\<^sup>* (orch, calls[k := j # js]) z"
proof -
  obtain i where "bt_get (or_tasks orch) i = None" "bt_get (tg_nodes (or_graph orch)) i = None" by (rule fresh_id)
  then have "orch_step rd wr (orch, calls[k := j # js]) (orch', calls[k := j # js, k := n @ js])"
    using assms(1,2) by (intro call_step [where j = j and js = js and now = now and o_new = StartRefused and i = i]) simp_all
  with assms(3) show ?thesis by (simp add: converse_rtranclp_into_rtranclp)
qed

lemma call_one:
  assumes "\<And>i. do_job rd wr now i StartRefused j orch = (orch', n)" "(orch_step rd wr)\<^sup>*\<^sup>* (orch', [n @ js, c]) z"
  shows "(orch_step rd wr)\<^sup>*\<^sup>* (orch, [j # js, c]) z"
  using call_at [of 0 "[[], c]", OF _ assms(1)] assms(2) by simp

lemma call_two:
  assumes "\<And>i. do_job rd wr now i StartRefused j orch = (orch', n)" "(orch_step rd wr)\<^sup>*\<^sup>* (orch', [c, n @ js]) z"
  shows "(orch_step rd wr)\<^sup>*\<^sup>* (orch, [c, j # js]) z"
  using call_at [of 1 "[c, []]", OF _ assms(1)] assms(2) by simp

text \<open>A generated task is created, its run is refused, and its agent has one more task.\<close>

lemma call_create:
  assumes k: "k < length calls" and j: "j = Followup s a p \<or> j = PipeTask s a p"
  shows "\<exists>orch' i. (orch_step rd wr)\<^sup>*\<^sup>* (orch, calls[k := j # js]) (orch', calls[k := js]) \<and>
    i \<notin> agent_tasks a orch \<and> agent_tasks a orch' = insert i (agent_tasks a orch)"
proof -
  obtain i where i: "bt_get (or_tasks orch) i = None" "bt_get (tg_nodes (or_graph orch)) i = None" by (rule fresh_id)
  let ?t = "mark_running 0 (task_new i a p)"
  let ?o1 = "store_task ?t orch"
  let ?o2 = "note_task ?t ?o1"
  let ?o3 = "?o2\<lparr>or_graph := set_generated_task s a i (or_graph ?o2)\<rparr>"
  let ?go = "[Generated s a i, Run i StartRefused]"
  have t: "tk_id ?t = i" "tk_agent ?t = a" "tk_status ?t = TaskRunning" by (simp_all add: mark_running_def task_new_def)
  have get: "bt_get (or_tasks ?o2) i = Some ?t" by (simp add: note_task_def store_task_def t)
  note at = call_at [OF k, where now = 0 and js = "w @ js" for w, simplified]
  have gen: "(orch_step rd wr)\<^sup>*\<^sup>* (?o3, calls[k := w @ js]) z \<Longrightarrow>
      (orch_step rd wr)\<^sup>*\<^sup>* (?o2, calls[k := Generated s a i # w @ js]) z" for w z
    by (rule at [where n = "[]"]) simp_all
  have run: "bt_get (or_tasks orch'') i = Some ?t \<Longrightarrow> (orch_step rd wr)\<^sup>*\<^sup>* (orch'', calls[k := w @ js]) z \<Longrightarrow>
      (orch_step rd wr)\<^sup>*\<^sup>* (orch'', calls[k := Run i StartRefused # w @ js]) z" for orch'' w z
    by (rule at [where n = "[Finish ?t StartRefused]"], simp add: t) (simp, rule at [where n = "[]"], simp_all)
  have rest: "(orch_step rd wr)\<^sup>*\<^sup>* (?o2, calls[k := Generated s a i # Run i StartRefused # js]) (?o3, calls[k := js])"
    "(orch_step rd wr)\<^sup>*\<^sup>* (?o2, calls[k := Run i StartRefused # Generated s a i # js]) (?o3, calls[k := js])"
    using gen [of "[Run i StartRefused]"] run [of ?o3 "[]"] run [of ?o2 "[Generated s a i]"] gen [of "[]"] get by simp_all
  obtain ws where ws: "(orch_step rd wr)\<^sup>*\<^sup>* (?o2, calls[k := ws @ js]) (?o3, calls[k := js])"
    "do_job rd wr 0 i StartRefused j orch = (?o1, Note ?t # ws)"
    using j
  proof
    assume "j = Followup s a p"
    with rest(1) show thesis by (intro that [of "[Generated s a i, Run i StartRefused]"]) (simp_all add: Let_def)
  next
    assume "j = PipeTask s a p"
    with rest(2) show thesis by (intro that [of "[Run i StartRefused, Generated s a i]"]) (simp_all add: Let_def)
  qed
  have "orch_step rd wr (orch, calls[k := j # js]) (?o1, calls[k := j # js, k := (Note ?t # ws) @ js])"
    using i k ws(2) by (intro call_step [where j = j and js = js and i = i and now = 0 and o_new = StartRefused]) simp_all
  moreover have "(orch_step rd wr)\<^sup>*\<^sup>* (?o1, calls[k := Note ?t # ws @ js]) (?o3, calls[k := js])"
    by (rule at [where n = "[]"]) (use ws in simp_all)
  ultimately have "(orch_step rd wr)\<^sup>*\<^sup>* (orch, calls[k := j # js]) (?o3, calls[k := js])"
    by (simp add: converse_rtranclp_into_rtranclp)
  moreover have "agent_tasks a ?o3 = insert i (agent_tasks a orch)" by (simp add: agent_tasks_store t)
  moreover have "i \<notin> agent_tasks a orch" using i by (simp add: agent_tasks_def)
  ultimately show ?thesis by blast
qed

lemma add_edge_upsert:
  assumes "sources_known g" "add_edge e g = Ok g'"
  shows "add_edge e (upsert_node task agent status g) =
    Ok ((upsert_node task agent status g)\<lparr>tg_edges := tg_edges g @ [e]\<rparr>)"
proof -
  have edges: "tg_edges (upsert_node task agent status g) = tg_edges g" by (simp add: upsert_node_def Let_def)
  from assms(2) obtain n where n: "bt_get (tg_nodes g) (te_source e) = Some n" by (rule add_edge_Ok)
  then obtain n' where n': "bt_get (tg_nodes (upsert_node task agent status g)) (te_source e) = Some n'"
    "tn_agent_id n' = tn_agent_id n"
    using agent_of_upsert [of task agent status g "te_source e"] by (auto split: if_splits)
  with assms n show ?thesis
    by (simp add: add_edge_def agent_would_cycle_iff upsert_node_ok edges split: if_splits)
qed


text \<open>The state in which a pipe meets a task that is still running.\<close>

definition pipe_pending :: "PipeRequest \<Rightarrow> PipeTransform \<Rightarrow> Task \<Rightarrow> Orchestrator \<Rightarrow> bool" where
  "pipe_pending req tr t orch \<longleftrightarrow>
     graph_made (or_graph orch) \<and> bt_get (or_tasks orch) (pr_source req) = Some t \<and> tk_id t = pr_source req \<and>
     tk_status t = TaskRunning \<and> parse_transform (pr_transform req) (pr_prefix req) = Ok tr \<and>
     agent_tasks (pr_target req) orch = {} \<and> outgoing_for (pr_source req) (or_graph orch) = [] \<and>
     (\<exists>g. add_edge \<lparr>te_source = pr_source req, te_target = pr_target req, te_transform = tr, te_generated = None\<rparr>
        (or_graph orch) = Ok g)"

lemma finished_ended:
  "tk_status (finished_task now t (Ended 0 out fa a u tr)) = TaskComplete"
  "tk_id (finished_task now t r) = tk_id t" "tk_agent (finished_task now t r) = tk_agent t"
  by (auto simp: finished_task_def mark_complete_def mark_failed_def mark_timeout_def split: Outcome.splits)

lemma pipe_pending_agent: "pipe_pending req tr t orch \<Longrightarrow> tk_agent t \<noteq> pr_target req"
  by (auto simp: pipe_pending_def agent_tasks_def)

lemma agent_tasks_finish:
  assumes "pipe_pending req tr t orch" "r \<noteq> StartRefused"
  shows "agent_tasks (pr_target req) (store_task (finished_task now t r) orch) = {}"
  using assms pipe_pending_agent [OF assms(1)]
  by (simp add: agent_tasks_store finished_ended pipe_pending_def)

lemma pipe_lost:
  assumes "pipe_pending req tr t orch"
  shows "\<exists>orch'. (orch_step rd wr)\<^sup>*\<^sup>* (orch, [[Pipe req], [Run (pr_source req) (Ended 0 out fa a u ts)]]) (orch', [[], []]) \<and>
    agent_tasks (pr_target req) orch' = {} \<and>
    (\<exists>t'. bt_get (or_tasks orch') (pr_source req) = Some t' \<and> tk_status t' = TaskComplete) \<and>
    outgoing_for (pr_source req) (or_graph orch') \<noteq> []"
proof -
  let ?r = "Ended 0 out fa a u ts" and ?s = "pr_source req"
  let ?t = "finished_task 0 t ?r"
  let ?e = "\<lparr>te_source = ?s, te_target = pr_target req, te_transform = tr, te_generated = None\<rparr>"
  note p = assms [unfolded pipe_pending_def]
  let ?o1 = "store_task ?t orch"
  let ?o2 = "note_task ?t ?o1"
  obtain g where "add_edge ?e (or_graph orch) = Ok g" using p by blast
  with p have edge: "add_edge ?e (or_graph ?o2) = Ok ((or_graph ?o2)\<lparr>tg_edges := tg_edges (or_graph orch) @ [?e]\<rparr>)"
    by (simp add: note_task_def store_task_def add_edge_upsert graph_made_ok [unfolded graph_ok_def])
  let ?o3 = "?o2\<lparr>or_graph := (or_graph ?o2)\<lparr>tg_edges := tg_edges (or_graph orch) @ [?e]\<rparr>\<rparr>"
  have none: "collect_followups rd wr (or_graph ?o2) ?t = []"
    using p by (simp add: collect_followups_def outgoing_for_def finished_ended note_task_def store_task_def
        upsert_node_def Let_def)
  have "(orch_step rd wr)\<^sup>*\<^sup>* (orch, [[Pipe req], [Run ?s ?r]]) (?o3, [[], []])"
    apply (rule call_one [where now = 0 and orch' = orch and n = "[PipeEdge req tr t]"])
    subgoal using p by simp
    apply (rule call_two [where now = 0 and orch' = orch and n = "[Finish t ?r]"])
    subgoal using p by simp
    apply (simp only: append_Nil2 append_Cons append_Nil)
    apply (rule call_two [where now = 0 and orch' = ?o1 and n = "[Note ?t, Followups ?t]"])
    subgoal by (simp add: Let_def)
    apply (simp only: append_Nil2 append_Cons append_Nil)
    apply (rule call_two [where now = 0 and orch' = ?o2 and n = "[]"])
    subgoal by simp
    apply (simp only: append_Nil2 append_Cons append_Nil)
    apply (rule call_two [where now = 0 and orch' = ?o2 and n = "[]"])
    subgoal using none by simp
    apply (simp only: append_Nil2 append_Cons append_Nil)
    apply (rule call_one [where now = 0 and orch' = ?o3 and n = "[]"])
    subgoal using edge p by simp
    by simp
  moreover have "agent_tasks (pr_target req) ?o3 = {}" using agent_tasks_finish [OF assms, of ?r 0] by simp
  moreover have "bt_get (or_tasks ?o3) ?s = Some ?t"
    using p by (simp add: note_task_def store_task_def finished_ended)
  moreover have "outgoing_for ?s (or_graph ?o3) \<noteq> []" by (simp add: outgoing_for_def)
  ultimately show ?thesis using finished_ended(1) by metis
qed

lemma pipe_twice:
  assumes "pipe_pending req tr t orch"
  shows "\<exists>orch' i j. (orch_step rd wr)\<^sup>*\<^sup>* (orch, [[Pipe req], [Run (pr_source req) (Ended 0 out fa a u ts)]]) (orch', [[], []]) \<and>
    agent_tasks (pr_target req) orch' = {i, j} \<and> i \<noteq> j"
proof -
  let ?r = "Ended 0 out fa a u ts" and ?s = "pr_source req" and ?a = "pr_target req"
  let ?t = "finished_task 0 t ?r"
  let ?e = "\<lparr>te_source = ?s, te_target = ?a, te_transform = tr, te_generated = None\<rparr>"
  let ?p = "apply_with_answer rd wr tr (unwrap_or (tk_result ?t) []) (tk_answer ?t)"
  note p = assms [unfolded pipe_pending_def]
  let ?o1 = "store_task ?t orch"
  obtain g where g: "add_edge ?e (or_graph orch) = Ok g" using p by blast
  have edges: "tg_edges g = tg_edges (or_graph orch) @ [?e]" by (rule add_edge_Ok [OF g]) simp
  let ?o2 = "?o1\<lparr>or_graph := g\<rparr>"
  let ?o3 = "note_task ?t ?o2"
  have one: "collect_followups rd wr (or_graph ?o3) ?t = [(?s, ?a, ?p)]"
    using p edges by (simp add: collect_followups_def outgoing_for_def finished_ended note_task_def upsert_node_def Let_def)
  have first: "(orch_step rd wr)\<^sup>*\<^sup>* (?o3, [[PipeTask ?s ?a ?p], [Followup ?s ?a ?p]]) z \<Longrightarrow>
      (orch_step rd wr)\<^sup>*\<^sup>* (orch, [[Pipe req], [Run ?s ?r]]) z" for z
    apply (rule call_two [where now = 0 and orch' = orch and n = "[Finish t ?r]"])
    subgoal using p by simp
    apply (simp only: append_Nil2 append_Cons append_Nil)
    apply (rule call_two [where now = 0 and orch' = ?o1 and n = "[Note ?t, Followups ?t]"])
    subgoal by (simp add: Let_def)
    apply (simp only: append_Nil2 append_Cons append_Nil)
    apply (rule call_one [where now = 0 and orch' = ?o1 and n = "[PipeEdge req tr ?t]"])
    subgoal using p by (simp add: store_task_def finished_ended)
    apply (simp only: append_Nil2 append_Cons append_Nil)
    apply (rule call_one [where now = 0 and orch' = ?o2 and n = "[PipeTask ?s ?a ?p]"])
    subgoal using g by (simp add: store_task_def finished_ended)
    apply (simp only: append_Nil2 append_Cons append_Nil)
    apply (rule call_two [where now = 0 and orch' = ?o3 and n = "[]"])
    subgoal by simp
    apply (simp only: append_Nil2 append_Cons append_Nil)
    apply (rule call_two [where now = 0 and orch' = ?o3 and n = "[Followup ?s ?a ?p]"])
    subgoal using one by simp
    by simp
  have none: "agent_tasks ?a ?o3 = {}" using agent_tasks_finish [OF assms, of ?r 0] by simp
  obtain o4 i where 4: "(orch_step rd wr)\<^sup>*\<^sup>* (?o3, [[PipeTask ?s ?a ?p], [Followup ?s ?a ?p]]) (o4, [[], [Followup ?s ?a ?p]])"
    "agent_tasks ?a o4 = {i}"
    using call_create [of 0 "[[], [Followup ?s ?a ?p]]" "PipeTask ?s ?a ?p" ?s ?a ?p rd wr ?o3 "[]"] none by auto
  obtain o5 j where 5: "(orch_step rd wr)\<^sup>*\<^sup>* (o4, [[], [Followup ?s ?a ?p]]) (o5, [[], []])"
    "j \<notin> agent_tasks ?a o4" "agent_tasks ?a o5 = insert j (agent_tasks ?a o4)"
    using call_create [of 1 "[[], []]" "Followup ?s ?a ?p" ?s ?a ?p rd wr o4 "[]"] by auto
  from first [OF rtranclp_trans [OF 4(1) 5(1)]] 4(2) 5(2,3) show ?thesis by (metis singletonI)
qed

end
