(* ===== verification/Orchestrator_Ends.thy ===== *)
theory Orchestrator_Ends
  imports Orchestrator
begin

text \<open>
  Every call of the orchestrator ends.  A run may generate tasks and run them, and these may
  generate more; but a task that has just been created starts no pipe, and only a pipe call makes it
  start one.  So the pipe calls left, and then the multiset of what the jobs can still cause,
  go down with every job.
\<close>

section \<open>What a job can still cause\<close>

definition starts_pipe :: "TaskGraph \<Rightarrow> string \<Rightarrow> bool" where
  "starts_pipe g i \<longleftrightarrow> outgoing_for i g \<noteq> []"

fun job_rank :: "TaskGraph \<Rightarrow> job \<Rightarrow> nat" where
  "job_rank g (Note _) = 0"
| "job_rank g (Generated _ _ _) = 0"
| "job_rank g (Create _ _) = 1"
| "job_rank g (CreateScheduled _ _) = 1"
| "job_rank g (MarkRunning _) = 1"
| "job_rank g (Followups t) = (if starts_pipe g (tk_id t) then 5 else 1)"
| "job_rank g (Finish t _) = (if starts_pipe g (tk_id t) then 6 else 2)"
| "job_rank g (Run i _) = (if starts_pipe g i then 7 else 3)"
| "job_rank g (Followup _ _ _) = 4"
| "job_rank g (PipeTask _ _ _) = 4"
| "job_rank g (PipeEdge _ _ _) = 8"
| "job_rank g (Pipe _) = 9"

definition pipe_jobs :: "job list \<Rightarrow> nat" where
  "pipe_jobs js = length (filter (\<lambda>j. 8 \<le> job_rank graph_default j) js)"

definition job_ranks :: "TaskGraph \<Rightarrow> job list \<Rightarrow> nat multiset" where
  "job_ranks g js = image_mset (job_rank g) (mset js)"

text \<open>A task is kept under its own identifier.\<close>

definition tasks_named :: "Orchestrator \<Rightarrow> bool" where
  "tasks_named orch \<longleftrightarrow> (\<forall>i t. bt_get (or_tasks orch) i = Some t \<longrightarrow> tk_id t = i)"

definition orch_ok :: "Orchestrator \<Rightarrow> bool" where
  "orch_ok orch \<longleftrightarrow> graph_made (or_graph orch) \<and> bt_wf (or_tasks orch) \<and> tasks_named orch"

lemma starts_pipe_iff: "starts_pipe g i \<longleftrightarrow> i \<in> te_source ` set (tg_edges g)"
  by (auto simp: starts_pipe_def outgoing_for_def filter_empty_conv)

lemma starts_pipe_upsert: "starts_pipe (upsert_node task agent status g) = starts_pipe g"
  by (simp add: fun_eq_iff starts_pipe_iff upsert_node_def Let_def)

lemma starts_pipe_generated: "starts_pipe (set_generated_task src target task g) = starts_pipe g"
proof -
  have "map te_source (tg_edges (set_generated_task src target task g)) = map te_source (tg_edges g)"
    by (simp add: set_generated_task_def)
  then show ?thesis by (simp only: fun_eq_iff starts_pipe_iff simp_thms flip: set_map)
qed

lemma pipe_rank: "8 \<le> job_rank g j \<longleftrightarrow> 8 \<le> job_rank g' j"
  by (cases j) auto

lemma fresh_starts_no_pipe: "graph_made g \<Longrightarrow> bt_get (tg_nodes g) i = None \<Longrightarrow> \<not> starts_pipe g i"
  using graph_made_ok [of g] by (fastforce simp: starts_pipe_iff graph_ok_def sources_known_def)

lemma do_job_sources:
  assumes "do_job rd wr now i o_new j orch = (orch', js)" "\<not> (\<exists>req tr t. j = PipeEdge req tr t)"
  shows "starts_pipe (or_graph orch') = starts_pipe (or_graph orch)"
  using assms
  by (cases j) (auto simp: starts_pipe_upsert starts_pipe_generated store_task_def note_task_def Let_def
      split: option.splits sum.splits if_splits)

lemma job_rank_cong: "starts_pipe g = starts_pipe g' \<Longrightarrow> job_rank g j = job_rank g' j"
  by (cases j) auto

text \<open>A job that adds no edge is followed by jobs that can cause less.\<close>

lemma do_job_rank:
  assumes "do_job rd wr now i o_new j orch = (orch', js)" "\<not> (\<exists>req tr t. j = PipeEdge req tr t)" "orch_ok orch"
    "bt_get (tg_nodes (or_graph orch)) i = None" "j' \<in> set js"
  shows "job_rank (or_graph orch') j' < job_rank (or_graph orch) j"
proof -
  have new: "\<not> starts_pipe (or_graph orch) i" using assms(3,4) by (simp add: fresh_starts_no_pipe orch_ok_def)
  have same: "job_rank (or_graph orch') j' = job_rank (or_graph orch) j'"
    by (rule job_rank_cong [OF do_job_sources [OF assms(1,2)]])
  show ?thesis
    unfolding same using assms new
    by (cases j) (auto simp: collect_followups_def starts_pipe_def finished_ended orch_ok_def tasks_named_def Let_def
        split: option.splits sum.splits if_splits Outcome.splits)
qed

lemma do_job_pipes:
  assumes "do_job rd wr now i o_new j orch = (orch', js)"
  shows "pipe_jobs js \<le> pipe_jobs [j]" "j = PipeEdge req tr t \<Longrightarrow> pipe_jobs js < pipe_jobs [j]"
  using assms
  by (cases j; auto simp: pipe_jobs_def collect_followups_def Let_def filter_map o_def
      split: option.splits sum.splits if_splits Outcome.splits)+

section \<open>Steps go down\<close>

definition job_order :: "((nat \<times> nat multiset) \<times> nat \<times> nat multiset) set" where
  "job_order = less_than <*lex*> mult1 less_than"

definition work_left :: "orch_system \<Rightarrow> nat \<times> nat multiset" where
  "work_left sys = (pipe_jobs (concat (snd sys)), job_ranks (or_graph (fst sys)) (concat (snd sys)))"

lemma wf_job_order: "wf job_order"
  by (simp add: job_order_def wf_mult1 wf_lex_prod)

lemma concat_update:
  assumes "k < length calls" "calls ! k = j # js"
  shows "mset (concat (calls[k := ns @ js])) = mset ns + mset (concat (calls[k := js]))"
    "mset (concat calls) = add_mset j (mset (concat (calls[k := js])))"
proof -
  have c: "calls = take k calls @ (j # js) # drop (Suc k) calls" using id_take_nth_drop [OF assms(1)] assms(2) by simp
  show "mset (concat (calls[k := ns @ js])) = mset ns + mset (concat (calls[k := js]))"
    using assms(1) by (simp add: upd_conv_take_nth_drop)
  have "mset (concat calls) = mset (concat (take k calls @ (j # js) # drop (Suc k) calls))" using c by simp
  then show "mset (concat calls) = add_mset j (mset (concat (calls[k := js])))"
    using assms(1) by (simp add: upd_conv_take_nth_drop)
qed

lemma pipe_jobs_mset: "pipe_jobs js = size (filter_mset (\<lambda>j. 8 \<le> job_rank graph_default j) (mset js))"
  by (metis pipe_jobs_def mset_filter size_mset)

lemma job_step_decreases:
  assumes "job_step rd wr sys sys'" "orch_ok (fst sys)"
  shows "(work_left sys', work_left sys) \<in> job_order"
  using assms(1)
proof cases
  case (do_step k calls j js orch i now o_new orch' ns)
  let ?rest = "mset (concat (calls[k := js]))"
  note u = concat_update(1) [OF do_step(3,4), of ns] concat_update(2) [OF do_step(3,4)]
  have pipes: "fst (work_left sys') = pipe_jobs ns + size (filter_mset (\<lambda>j. 8 \<le> job_rank graph_default j) ?rest)"
    "fst (work_left sys) = pipe_jobs [j] + size (filter_mset (\<lambda>j. 8 \<le> job_rank graph_default j) ?rest)"
    using do_step(1,2) u by (simp_all add: work_left_def pipe_jobs_mset)
  show ?thesis
  proof (cases "\<exists>req tr t. j = PipeEdge req tr t")
    case True
    then have "pipe_jobs ns < pipe_jobs [j]" using do_job_pipes(2) [OF do_step(7)] by blast
    with pipes show ?thesis by (auto simp: job_order_def in_lex_prod prod_eq_iff work_left_def)
  next
    case False
    have le: "pipe_jobs ns \<le> pipe_jobs [j]" by (rule do_job_pipes(1) [OF do_step(7)])
    have same: "job_rank (or_graph orch') = job_rank (or_graph orch)"
      using job_rank_cong [OF do_job_sources [OF do_step(7) False]] by (simp add: fun_eq_iff)
    have less: "(b, job_rank (or_graph orch) j) \<in> less_than" if "b \<in># image_mset (job_rank (or_graph orch)) (mset ns)" for b
      using do_job_rank [OF do_step(7) False _ do_step(6)] assms(2) do_step(1) that by (auto simp: same)
    have "(job_ranks (or_graph orch') (concat (calls[k := ns @ js])), job_ranks (or_graph orch) (concat calls)) \<in> mult1 less_than"
      unfolding job_ranks_def u same
      by (rule mult1I [where a = "job_rank (or_graph orch) j" and ?M0.0 = "image_mset (job_rank (or_graph orch)) ?rest"])
        (simp, simp add: union_commute, rule less)
    with le pipes do_step(1,2) show ?thesis by (auto simp: job_order_def in_lex_prod work_left_def)
  qed
qed

section \<open>No call runs for ever\<close>

lemma named_store: "tasks_named orch \<Longrightarrow> tasks_named (store_task t orch)"
  by (auto simp: tasks_named_def store_task_def)

lemma named_graph [simp]:
  "tasks_named (orch\<lparr>or_graph := g\<rparr>) = tasks_named orch" "tasks_named (note_task t orch) = tasks_named orch"
  by (simp_all add: tasks_named_def note_task_def)

lemma do_job_ok:
  assumes "do_job rd wr now i o_new j orch = (orch', js)" "orch_ok orch"
  shows "orch_ok orch'"
proof -
  have "tasks_named orch'"
    using assms by (cases j) (auto simp: orch_ok_def Let_def intro: named_store split: option.splits sum.splits if_splits)
  with assms show ?thesis by (auto simp: orch_ok_def intro: do_job_graph do_job_tasks)
qed

lemma drop_oldest_sub: "set (drop_oldest ids n tasks) \<subseteq> set tasks"
proof (induction ids n tasks rule: drop_oldest.induct)
  case (2 i ts ids n tasks)
  have "set (bt_remove i tasks) \<subseteq> set tasks" by (induction i tasks rule: bt_remove.induct) auto
  with 2 show ?case by auto
qed simp

lemma prune_sub: "set (or_tasks (prune_tasks now orch)) \<subseteq> set (or_tasks orch)"
  using subset_trans [OF drop_oldest_sub filter_is_subset]
  by (auto simp: prune_tasks_def Let_def simp del: set_filter)

lemma prune_ok: "orch_ok orch \<Longrightarrow> orch_ok (prune_tasks now orch)"
proof -
  assume ok: "orch_ok orch"
  then have wf: "bt_wf (or_tasks orch)" "bt_wf (or_tasks (prune_tasks now orch))" by (simp_all add: orch_ok_def prune_wf)
  have "bt_get (or_tasks orch) i = Some t" if "bt_get (or_tasks (prune_tasks now orch)) i = Some t" for i t
    using that prune_sub [of now orch] wf map_of_SomeD [of "or_tasks (prune_tasks now orch)" i t]
    by (auto simp: bt_get_def bt_wf_def strict_sorted_iff intro!: map_of_is_SomeI)
  with ok show ?thesis by (auto simp: orch_ok_def tasks_named_def prune_wf)
qed

lemma orch_step_ok: "orch_step rd wr sys sys' \<Longrightarrow> orch_ok (fst sys) \<Longrightarrow> orch_ok (fst sys')"
  by (erule orch_step.cases) (auto elim!: job_step.cases intro: do_job_ok prune_ok)

lemma orch_reachable_ok: "orch_reachable rd wr sys \<Longrightarrow> orch_ok (fst sys)"
  unfolding orch_reachable_def
  by (induction rule: rtranclp_induct)
    (auto simp: orch_ok_def orch_empty_def made_default tasks_named_def bt_get_def dest: orch_step_ok [unfolded orch_ok_def tasks_named_def])

text \<open>A job, after any number of prunings.\<close>

inductive work_step ::
  "(string \<Rightarrow> json option) \<Rightarrow> (json \<Rightarrow> string) \<Rightarrow> orch_system \<Rightarrow> orch_system \<Rightarrow> bool"
  for rd wr where
  work_job: "job_step rd wr sys sys' \<Longrightarrow> work_step rd wr sys sys'"
| work_prune: "work_step rd wr (prune_tasks now orch, calls) sys' \<Longrightarrow> work_step rd wr (orch, calls) sys'"

lemma work_step_decreases:
  assumes "work_step rd wr sys sys'" "orch_ok (fst sys)"
  shows "(work_left sys', work_left sys) \<in> job_order \<and> orch_ok (fst sys')"
  using assms
proof (induction rule: work_step.induct)
  case (work_job sys sys')
  then show ?case using job_step_decreases orch_step_ok [OF job_done] by blast
next
  case (work_prune now orch calls sys')
  then show ?case by (simp add: prune_ok work_left_def)
qed

lemma no_endless_work:
  assumes "orch_ok (fst (f 0))" "\<And>n. work_step rd wr (f n) (f (Suc n))"
  shows False
proof -
  have ok: "orch_ok (fst (f n))" for n
    by (induction n) (use assms work_step_decreases in blast)+
  have "\<forall>n. (work_left (f (Suc n)), work_left (f n)) \<in> job_order"
    using work_step_decreases [OF assms(2) ok] by blast
  then have "\<exists>w. \<forall>n. (w (Suc n), w n) \<in> job_order" by (rule exI [of _ "\<lambda>n. work_left (f n)"])
  then show False using wf_job_order unfolding wf_iff_no_infinite_down_chain by blast
qed

text \<open>Work that is left can be done.\<close>

lemma job_left_steps:
  assumes "js \<in> set calls" "js \<noteq> []"
  shows "\<exists>sys'. job_step rd wr (orch, calls) sys'"
proof -
  obtain k where k: "k < length calls" "calls ! k = js" using assms(1) by (auto simp: in_set_conv_nth)
  obtain j js' where js: "js = j # js'" using assms(2) by (cases js) auto
  obtain i where i: "bt_get (or_tasks orch) i = None" "bt_get (tg_nodes (or_graph orch)) i = None" by (rule fresh_id)
  obtain orch' ns where "do_job rd wr 0 i StartRefused j orch = (orch', ns)" by fastforce
  from do_step [OF k(1) _ i this, of js'] k js show ?thesis by auto
qed

lemma calls_come_to_end:
  assumes "orch_ok (fst sys)"
  shows "\<exists>orch'. (job_step rd wr)\<^sup>*\<^sup>* sys (orch', map (\<lambda>_. []) (snd sys))"
  using assms
proof (induction "work_left sys" arbitrary: sys rule: wf_induct_rule [OF wf_job_order])
  case (1 sys)
  obtain orch calls where sys: "sys = (orch, calls)" by (cases sys)
  show ?case
  proof (cases "\<exists>js \<in> set calls. js \<noteq> []")
    case True
    then obtain sys' where s: "job_step rd wr sys sys'" using job_left_steps sys by blast
    then have len: "map (\<lambda>_. []) (snd sys') = map (\<lambda>_. []) (snd sys)"
      by cases (simp add: map_replicate_const)
    from s 1 obtain orch' where "(job_step rd wr)\<^sup>*\<^sup>* sys' (orch', map (\<lambda>_. []) (snd sys'))"
      using job_step_decreases orch_step_ok [OF job_done] by blast
    with s show ?thesis unfolding len by (blast intro: converse_rtranclp_into_rtranclp)
  next
    case False
    then have "map (\<lambda>_. []) calls = calls" by (intro map_idI) auto
    with sys show ?thesis by auto
  qed
qed

end
