(* ===== verification/Spec2Isabelle.thy ===== *)
theory Spec2Isabelle
  imports Example_Env Billing Multitenant Capability Subsidiary Identity_Ledger_Proofs Orchestrator_Ends
begin

text \<open>
  A verification library for NucleusDB, the verifiable database at the core of agenthalo
  (\<^verbatim>\<open>src/\<close>, Rust), and for parts of the agent runtime beside it: task pipes, container locks, launch
  admission, metered services and work records.

  \<^bold>\<open>The program.\<close>  \<^verbatim>\<open>protocol.rs\<close> keeps a vector of 64-bit cells.  A commit applies a delta, checks
  the configuration (\<^verbatim>\<open>security.rs\<close>, \<^verbatim>\<open>commitment/mod.rs\<close>), in append-only mode the extension
  of the old state (\<^verbatim>\<open>immutable.rs\<close>), and the coherence of local views
  (\<^verbatim>\<open>sheaf/coherence.rs\<close>); it commits to the new vector with one of three schemes
  (\<^verbatim>\<open>vc/\<close>), appends a leaf to a Merkle log (\<^verbatim>\<open>transparency/ct6962.rs\<close>), collects
  witness signatures (\<^verbatim>\<open>witness.rs\<close>), and appends an entry and a seal.  Keys map to cells through
  \<^verbatim>\<open>keymap.rs\<close>; typed values (\<^verbatim>\<open>typed_value.rs\<close>, \<^verbatim>\<open>type_map.rs\<close>) keep their payload in a
  bounded blob store (\<^verbatim>\<open>blob_store.rs\<close>) and vectors in a bounded index
  (\<^verbatim>\<open>vector_index.rs\<close>), both with the eviction of \<^verbatim>\<open>chebyshev_evictor.rs\<close> steered by the PID
  controller of \<^verbatim>\<open>halo/governor.rs\<close>.  \<^verbatim>\<open>audit.rs\<close> replays the evidence of commits.

  \<^bold>\<open>Theories\<close>, in import order:
    \<^item> \<open>Prelude\<close>: machine types, \<^verbatim>\<open>BTreeMap\<close> as a sorted association list with its interface as
      the locale \<open>ordered_map\<close>, decimal printing.
    \<^item> \<open>Hex\<close>, \<open>Rust_Text\<close>: \<^verbatim>\<open>util.rs\<close>, \<^verbatim>\<open>hash.rs\<close>, \<^verbatim>\<open>security_utils.rs\<close>; the string functions
      of the standard library on UTF-8 bytes.
    \<^item> \<open>Store\<close>, \<open>Typed_Value\<close>: cells and deltas, the key registry (locale \<open>key_registry\<close>), the
      type map, encoding and decoding of typed values.
    \<^item> \<open>CT6962\<close>, \<open>CT6962_Walk\<close>, \<open>CT6962_Proofs\<close>: the log; the bit-level loops of the two
      verifiers against the recursive tree; completeness and soundness of both proofs.
    \<^item> \<open>Vector_Commit\<close>: the three commitment schemes behind the locales \<open>vector_commitment\<close> and
      \<open>binding_commitment\<close>.
    \<^item> \<open>Sheaf\<close>, \<open>Immutable\<close>, \<open>Witness\<close>, \<open>Security\<close>: what a commit checks.
    \<^item> \<open>Float64\<close>, \<open>Governor\<close>, \<open>Evictor\<close>, \<open>Blob_Store\<close>, \<open>Vector_Index\<close>: doubles as bit patterns
      with exactly rounded arithmetic, the controller, the eviction loops, the two caches
      behind the locale \<open>bounded_store\<close>.
    \<^item> \<open>Protocol\<close>, \<open>Protocol_Proofs\<close>, \<open>Protocol_Reads\<close>: the database, its commit and its reads.
    \<^item> \<open>Audit_Replay\<close>: evidence records and their replay.
    \<^item> \<open>Persistence\<close>, \<open>Multitenant\<close>: snapshots and the write-ahead log; tenants, roles and policies.
    \<^item> \<open>Access\<close>, \<open>DID\<close>, \<open>Capability\<close>: \<^verbatim>\<open>pod/acl.rs\<close> and \<^verbatim>\<open>pod/access_policy.rs\<close> (locale
      \<open>grant_check\<close>), \<^verbatim>\<open>halo/did.rs\<close>, \<^verbatim>\<open>pod/capability.rs\<close> and \<^verbatim>\<open>pod/did_acl_bridge.rs\<close>.
    \<^item> \<open>Envelope\<close>: proof envelopes and the walk over their provenance (\<^verbatim>\<open>pod/envelope.rs\<close>).
    \<^item> \<open>Chunks\<close>: chunks, manifests and their exchange (\<^verbatim>\<open>swarm/\<close>).
    \<^item> \<open>Pcn\<close>, \<open>Pcn_Proofs\<close>: payment channels kept in the database (\<^verbatim>\<open>pcn/\<close>), as a refinement of an
      abstract channel.
    \<^item> \<open>Rust_Std\<close>: saturating arithmetic and text functions shared by these theories.
    \<^item> \<open>Identity_Ledger\<close>, \<open>Identity_Ledger_Proofs\<close>: the signed hash chain of identity events
      (\<^verbatim>\<open>halo/identity_ledger.rs\<close>) and its wallets (\<^verbatim>\<open>halo/pq.rs\<close>).
    \<^item> \<open>Json\<close>: JSON values, shared by the ledger and the pipes.
    \<^item> \<open>Task_Graph\<close>, \<open>Orchestrator\<close>, \<open>Orchestrator_Ends\<close>: tasks, pipes and their graph (\<^verbatim>\<open>orchestrator/task.rs\<close>,
      \<^verbatim>\<open>orchestrator/task_graph.rs\<close>); the calls of \<^verbatim>\<open>orchestrator/mod.rs\<close> on tasks as jobs that
      interleave, and why they end.
    \<^item> \<open>Agent_Lock\<close>: the lock of a container and the calls that take and release it (\<^verbatim>\<open>container/\<close>).
    \<^item> \<open>Topology\<close>: fingerprints of binaries and the inspection before a launch
      (\<^verbatim>\<open>halo/topo_signature.rs\<close>, \<^verbatim>\<open>cockpit/deploy.rs\<close>).
    \<^item> \<open>Governor_Registry\<close>: \<^verbatim>\<open>halo/governor_registry.rs\<close> and the admission of launches
      (\<^verbatim>\<open>halo/admission.rs\<close>).
    \<^item> \<open>Work_Record\<close>: records of file operations kept in the database (\<^verbatim>\<open>vcs/record.rs\<close>).
    \<^item> \<open>Work_Merge\<close>: what is made of these records (\<^verbatim>\<open>vcs/agent.rs\<close>): conflicts, the state of the files, its
      export, and records from the status of a workspace.
    \<^item> \<open>Float64_Laws\<close>: exact rounding and finiteness of the arithmetic of \<open>Float64\<close>.
    \<^item> \<open>Api_Keys\<close>, \<open>Funding\<close>, \<open>Metering\<close>, \<open>Metered_Api\<close>, \<open>Billing\<close>: prepaid keys and prices (\<^verbatim>\<open>halo/api_keys.rs\<close>,
      \<^verbatim>\<open>halo/pricing.rs\<close>), their funding (\<^verbatim>\<open>halo/funding.rs\<close>), the metered proxy and storage (\<^verbatim>\<open>halo/proxy.rs\<close>,
      \<^verbatim>\<open>halo/pinata.rs\<close>), the endpoints of \<^verbatim>\<open>dashboard/api.rs\<close> on them, and all their calls as steps on one store.
    \<^item> \<open>Pid_Lock\<close>, \<open>Subsidiary\<close>: lock files as a step relation of processes (\<^verbatim>\<open>container/coordination.rs\<close>), and the
      registry of containers kept under one (\<^verbatim>\<open>orchestrator/subsidiary_registry.rs\<close>).
    \<^item> \<open>Example_Env\<close>: one concrete environment on which the hypotheses below are met.

  \<^bold>\<open>Correspondence.\<close>  A struct is a record and an enum a datatype with the source's names; a
  function is a definition of the same name (prefixed where a name is used twice, as in
  \<open>bm_commit\<close>, \<open>ipa_commit\<close>, \<open>kzg_commit\<close>).  A \<^verbatim>\<open>Result\<close> is a sum (\<open>Err\<close>, \<open>Ok\<close>), a panic the
  value \<open>None\<close> of an option around the result.  Integers keep their width as words; \<^verbatim>\<open>usize\<close>
  is a natural number, with the bound \<open>2^64\<close> as a hypothesis where a cast could lose it.
  Strings and byte vectors are lists of bytes.  The clock is an argument.  SHA-256, SHA-512,
  the signature crates, the field and curve crates, libm and JSON are parameters, with what
  they document as named hypotheses (\<open>sig_laws\<close>, \<open>kzg_laws\<close>); collision-freeness is always
  asked of the finite set of inputs that the two computations at hand hash.
  No fuel is used: every loop is structural or has a termination proof.

  \<^bold>\<open>What is shown.\<close>  The log's proofs are complete and sound (C1 to
  C4).  A commit has exactly the effect it should, keeps the history invariant, goes
  through when it can and is atomic when it fails, with one exception that is also proved: a
  failure of the witnesses leaves the log one leaf ahead for good (C5 to
  C9).  Append-only mode is never left and never loses a non-zero cell; seals
  fix the history (C10, C11).  Quorums count distinct witnesses
  (C12).  Query proofs verify and are binding (C13,
  C14).  Typed values read back what was put (C15), though also what
  a refused commit put (a lemma).  Audits accept honest runs and establish what they
  claim (C16, C17).  The Merkle scheme commits to nothing for the empty
  vector (a lemma).  Views are accepted when they glue
  (C18).  Caches stay bounded, searches return nearest neighbours
  (lemmas of their theories); the governors of the registry stay in their
  bounds (C29).
  Logs restore the history of the last commit but not keys, typed values and modes that came after their start; a checkpoint empties the history of the log
  (C19 and a lemma).  Tenants are isolated (C20)
  and keep the production policy.  Accepted provenance is a graph of accepted envelopes
  without cycles (C23); an envelope's value is not tied to its proof (a lemma).  Settlements refine an abstract channel
  (C24), except after a failed commit (a lemma);
  transfers pay exactly (a lemma); the compliance root is an RFC 6962 tree hash.  Tokens verify when issued (a lemma), and also when forged
  (C25); accepted tokens give their rights, policies
  deny first.  Chunks reassemble, manifests fix their
  contents, and peers serve authentic blocks, to those the grants permit (C26 and lemmas).
  The check of the identity ledger is equivalent to a specification without a loop; appends keep
  it and go through with a generated wallet; the head hash fixes the history; a refused entry
  blocks the ledger; the projection shows the last token of each provider
  (C21, C22 and lemmas).
  Pipes between agents stay acyclic however calls interleave (C27), but a pipe may be lost or
  run twice (a lemma); every call ends (C30).  A hookup holds the lock of its container
  (C28); a lock without a hookup is never released (a lemma).
  A launch in block mode needs governors in their regime and an unchanged binary
  (a lemma), whose structural comparison never objects (a lemma).
  A submitted work record reads back and leaves the others alone (C31).
  Parties with the same records materialise the same files (C32), and the analysis reports
  exactly the paths that records of the same second touch (C33); but records made from
  the status of a workspace lose a letter of the paths that are not staged (a lemma).
  The keys of the metered proxy and their index agree whatever is called (C34); a refused request costs
  nothing and an answered one its price (C35); days are counted apart, under wrong dates
  (C39).  Models without a price are free (C36), failed streams are charged
  (C37), and signed funding requests can be repeated (C38).
  Lock files exclude as long as everybody is in time, except that two processes can take the lock of one that died, and that
  a slow process can take the lock of a living one (C40), after which the registry of subsidiaries loses
  an update (a lemma).

  \<^bold>\<open>Not modelled.\<close>  File and network access, the JSON text of snapshots and evidence files, the
  command line, the dashboard and MCP handlers except those on the modelled parts, and the start of
  containers and agent processes.  Timing and rayon-style parallelism play no role in the modelled code,
  except where a theory gives instants.  Statistics and provenance accessors that only report are left out.
\<close>

section \<open>The transparency log\<close>

text \<open>
  C1: A consistency proof that verifies between the heads of two logs shows that the older
  log is a prefix of the newer one, as far as the hash has no collision among the inputs
  hashed by the two trees and by the verifier.
\<close>

theorem consistency_shows_prefix:
  assumes "verify_consistency_proof H proof (merkle_tree_hash H old) (merkle_tree_hash H new)"
    "unat (cp_old_size proof) = length old" "unat (cp_new_size proof) = length new"
    "digest32 H" "all32 old" "all32 new" "all32 (cp_path proof)"
    "inj_on H (set (merkle_inputs H old) \<union> set (merkle_inputs H new) \<union>
       set (merkle_inputs H (take (length old) new)) \<union>
       set (consistency_inputs H proof (merkle_tree_hash H old)))"
  shows "length old \<le> length new \<and> old = take (length old) new"
  using assms by (rule consistency_proof_sound)

theorem consistency_shows_prefix_witness:
  "verify_consistency_proof demo_hash demo_consistency
     (merkle_tree_hash demo_hash (take 1 demo_log)) (merkle_tree_hash demo_hash demo_log) \<and>
   take 1 demo_log = take (length (take 1 demo_log)) demo_log"
proof -
  have "unat (cp_old_size demo_consistency) = length (take 1 demo_log)"
    "unat (cp_new_size demo_consistency) = length demo_log"
    by (simp_all add: demo_consistency_def)
  from consistency_shows_prefix [OF demo_consistency_ok this, unfolded demo_consistency_inputs]
  show ?thesis using demo_consistency_ok by simp
qed

text \<open>
  C2: For every log of fewer than 2^64 leaves and every earlier size the proof generator
  returns a proof, and the verifier accepts it against the two tree heads.
\<close>

theorem consistency_proofs_exist:
  assumes "0 < m" "m \<le> length leaves" "length leaves < 2 ^ 64"
  shows "\<exists>proof. make_consistency_proof H leaves m = Some proof \<and>
    verify_consistency_proof H proof (merkle_tree_hash H (take m leaves)) (merkle_tree_hash H leaves)"
  using assms by (rule consistency_proof_complete)

theorem consistency_proofs_exist_witness:
  "\<exists>proof. make_consistency_proof demo_hash demo_log 1 = Some proof \<and>
    verify_consistency_proof demo_hash proof (merkle_tree_hash demo_hash (take 1 demo_log))
      (merkle_tree_hash demo_hash demo_log)"
  by (rule consistency_proofs_exist) simp_all

text \<open>
  C3: An inclusion proof that verifies against the head of a log shows that the leaf it
  names stands at the index it names, under the same collision-freeness.
\<close>

theorem inclusion_shows_leaf:
  assumes "verify_inclusion_proof H proof (merkle_tree_hash H leaves)"
    "unat (ip_tree_size proof) = length leaves"
    "digest32 H" "all32 leaves" "all32 (ip_leaf_hash proof # ip_path proof)"
    "inj_on H (set (merkle_inputs H leaves) \<union> set (inclusion_inputs H proof))"
  shows "unat (ip_leaf_index proof) < length leaves \<and>
    ip_leaf_hash proof = leaves ! unat (ip_leaf_index proof)"
  using assms by (rule inclusion_proof_sound)

theorem inclusion_shows_leaf_witness:
  "verify_inclusion_proof demo_hash demo_inclusion (merkle_tree_hash demo_hash demo_log) \<and>
    ip_leaf_hash demo_inclusion = demo_log ! unat (ip_leaf_index demo_inclusion)"
proof -
  have "unat (ip_tree_size demo_inclusion) = length demo_log" by (simp add: demo_inclusion_def)
  from inclusion_shows_leaf [OF demo_inclusion_ok this, unfolded demo_inclusion_inputs]
  show ?thesis using demo_inclusion_ok by simp
qed

text \<open>
  C4: Every leaf of a log of fewer than 2^64 leaves has an inclusion proof, and the
  verifier accepts it.
\<close>

theorem inclusion_proofs_exist:
  assumes "i < length leaves" "length leaves < 2 ^ 64"
  shows "\<exists>proof. make_inclusion_proof H leaves i = Some proof \<and>
    verify_inclusion_proof H proof (merkle_tree_hash H leaves)"
  using assms by (rule inclusion_proof_complete)

theorem inclusion_proofs_exist_witness:
  "\<exists>proof. make_inclusion_proof demo_hash demo_log 1 = Some proof \<and>
    verify_inclusion_proof demo_hash proof (merkle_tree_hash demo_hash demo_log)"
  by (rule inclusion_proofs_exist) simp_all

section \<open>Commits\<close>

text \<open>
  C5: What a successful commit does: the state is the old one with the delta applied, one
  entry and one log leaf are appended, the entry has the next height, links to the root
  before, carries the root of the new state and the head of the new log, and its
  signatures meet the quorum over exactly these values.
\<close>

theorem commit_effect:
  assumes "commit env now db delta views = Some (db', Ok e)"
  shows "state db' = apply_delta (state db) delta \<and>
    entries db' = entries db @ [e] \<and>
    ct_leaves db' = ct_leaves db @ [leaf_hash (env_sha256 env) (entry_payload e)] \<and>
    height e = of_nat (length (entries db)) + 1 \<and>
    sth e = make_sth (env_sha256 env) (ct_leaves db') now \<and> current_sth db' = Some (sth e) \<and>
    prev_root_of env db = Some (prev_state_root e) \<and>
    state_root_for env db (materialize (state db')) = Some (state_root e) \<and>
    verify_quorum_for_algorithm (env_sig env) (witness_cfg db) (signing_algorithm (witness_cfg db))
      (entry_message e) (witness_sigs e) \<and>
    same_config db db'"
  by (intro conjI commit_ok [OF assms] commit_frame [OF assms])

theorem commit_effect_witness:
  "\<exists>db' e. commit demo_env 1 demo_db demo_delta [] = Some (db', Ok e) \<and>
     state db' = apply_delta (state demo_db) demo_delta \<and> entries db' = [e] \<and> height e = 1"
proof -
  obtain db' e where "commit demo_env 1 demo_db demo_delta [] = Some (db', Ok e)"
    by (rule demo_first_commit)
  with commit_effect [OF this] show ?thesis by simp
qed

text \<open>
  C6: A synchronised database keeps its invariant over a successful commit: entry \<open>i\<close> has
  height \<open>i + 1\<close>, its payload is leaf \<open>i\<close> of the log, its tree head is the head of the
  first \<open>i + 1\<close> leaves, its signatures meet the quorum, it links to the entry before, and
  the last entry's root is the root of the current state.
\<close>

theorem commit_keeps_history:
  assumes "db_inv env db" "commit env now db delta views = Some (db', Ok e)"
  shows "db_inv env db'"
  using assms by (rule commit_preserves_inv)

theorem commit_keeps_history_witness:
  "\<exists>db' e. commit demo_env 1 demo_db demo_delta [] = Some (db', Ok e) \<and> db_inv demo_env db'"
proof -
  obtain db' e where c: "commit demo_env 1 demo_db demo_delta [] = Some (db', Ok e)"
    by (rule demo_first_commit)
  from commit_keeps_history [OF demo_db_inv(1) c] c show ?thesis by blast
qed

text \<open>
  C7: A commit succeeds whenever the log is in step with the entries, the checks pass, the
  state roots can be computed and the first witnesses of the list can sign and are
  distinct.
\<close>

theorem commit_goes_through:
  assumes "length (ct_leaves db) = length (entries db)" "witnesses_ready env db"
    "commit_checks db delta views = Ok (nxt, pf)"
    "state_root_for env db (materialize nxt) = Some new_root" "prev_root_of env db = Some prev_root"
  shows "\<exists>db' e. commit env now db delta views = Some (db', Ok e)"
  using assms by (rule commit_succeeds)

theorem commit_goes_through_witness:
  "\<exists>db' e. commit demo_env 9 demo_db \<lparr>writes = []\<rparr> [] = Some (db', Ok e)"
proof -
  have "witnesses_ready demo_env demo_db"
    using demo_signs by (simp add: witnesses_ready_def Let_def)
  moreover have "validate_commit_shape (new_parameters PBinaryMerkle) 0 1 = Ok ()"
    by (simp add: validate_shape_iff new_parameters_def default_parameter_set_def)
  then have "commit_checks demo_db \<lparr>writes = []\<rparr> [] = Ok (state demo_db, build_sheaf_coherence [])"
    using demo_db_simps(10)
    by (simp add: commit_checks_def demo_like_def default_contracts_valid verify_build_iff
        sheaf_scan_def Let_def apply_delta_def)
  moreover have "state_root_for demo_env demo_db (materialize (state demo_db)) =
      Some (bm_digest (bm_commit demo_hash [7]))"
    by (simp add: state_root_for_def materialize_def)
  ultimately show ?thesis
    by (intro commit_goes_through) (simp_all add: prev_root_of_def)
qed

text \<open>
  C8: A commit that fails on a database whose log is in step leaves the whole database as it
  was, unless it is the witnesses that fail.
\<close>

theorem failed_commit_is_atomic:
  assumes "length (ct_leaves db) = length (entries db)"
    "commit env now db delta views = Some (db', Err e)"
    "e \<noteq> WitnessQuorumFailed" "\<And>w. e \<noteq> WitnessSigningFailed w"
  shows "db' = db"
  using assms by (rule synced_commit_atomic)

theorem failed_commit_is_atomic_witness:
  "\<exists>db'. commit demo_env 1 (demo_db\<lparr>reduction_contracts := []\<rparr>) demo_delta [] =
     Some (db', Err (SecurityPolicyInvalid MissingReductionContracts)) \<and>
     db' = demo_db\<lparr>reduction_contracts := []\<rparr>"
proof -
  let ?db = "demo_db\<lparr>reduction_contracts := []\<rparr>"
  have c: "commit demo_env 1 ?db demo_delta [] =
      Some (?db, Err (SecurityPolicyInvalid MissingReductionContracts))"
    using demo_db_simps(10)
    by (simp add: commit_def commit_checks_def demo_like_def validate_reduction_contracts_def)
  show ?thesis using failed_commit_is_atomic [OF _ c] c by simp
qed

lemma failed_witnesses_leaf:
  assumes "commit env now db delta views = Some (db', Err err)" "err = WitnessQuorumFailed \<or> err = WitnessSigningFailed w"
  shows "\<exists>leaf. ct_leaves db' = ct_leaves db @ [leaf]"
  using assms(1)
proof (cases rule: commit_cases)
  case (refused e)
  then show ?thesis
    using assms(2) by (auto simp: commit_checks_def Let_def split: sum.splits if_splits)
next
  case (logged nxt pf prev_root new_root db1 head)
  have "\<exists>leaf. ct_leaves db1 = ct_leaves db @ [leaf]" using logged(4) by (auto simp: log_leaf_def Let_def)
  with logged(5) show ?thesis using assms(2) by (cases rule: commit_finish_cases) auto
qed

text \<open>
  C9: When the witnesses of a commit fail, the log keeps the new leaf although the contents stay as they were and no
  entry is written.  If the log had at least as many leaves as entries before, then from that moment no commit of the
  database succeeds, whatever commits are tried in between, as long as the log has fewer than 2^64 - 1 leaves.
\<close>

theorem failed_witnesses_are_final:
  assumes "commit env now db delta views = Some (db1, Err err)"
    "err = WitnessQuorumFailed \<or> err = WitnessSigningFailed w"
    "length (entries db) \<le> length (ct_leaves db)"
    "commits env db1 db2" "length (ct_leaves db2) < 2 ^ 64 - 1"
    "commit env now' db2 delta' views' = Some (db3, r)"
  shows "state db1 = state db \<and> entries db1 = entries db \<and> (\<exists>leaf. ct_leaves db1 = ct_leaves db @ [leaf]) \<and> isl r"
proof -
  have "desynced db1" using failed_witnesses_desync [OF assms(1-3)] by blast
  then have "desynced db2" by (rule desynced_forever [OF assms(4) _ assms(5)])
  then have "isl r" using desynced_commit [OF _ assms(6,5)] by blast
  then show ?thesis using failed_witnesses_desync [OF assms(1-3)] failed_witnesses_leaf [OF assms(1,2)] by blast
qed

theorem failed_witnesses_are_final_witness:
  "\<exists>db1 db2 r. commit demo_env 1 dup_db demo_delta [] = Some (db1, Err WitnessQuorumFailed) \<and>
     entries db1 = [] \<and> length (ct_leaves db1) = 1 \<and>
     commit demo_env 2 db1 demo_delta [] = Some (db2, r) \<and> isl r"
proof -
  obtain db1 where c: "commit demo_env 1 dup_db demo_delta [] = Some (db1, Err WitnessQuorumFailed)"
    by (rule dup_commit)
  then have one: "length (ct_leaves db1) = 1"
    by (cases rule: commit_cases)
       (auto simp: commit_checks_def Let_def commit_finish_def dup_db_def log_leaf_def
          split: sum.splits if_splits)
  then have len: "length (ct_leaves db1) < 2 ^ 64 - 1" by simp
  have "backend db1 = BinaryMerkle"
    using commit_frame [OF c] by (simp add: same_config_def dup_db_def)
  then obtain db2 r where d: "commit demo_env 2 db1 demo_delta [] = Some (db2, r)"
    using merkle_commit_total by blast
  have "isl r" "entries db1 = []"
    using failed_witnesses_are_final [OF c _ _ commits_none len d] by (simp_all add: dup_db_def)
  with c d one show ?thesis by blast
qed

section \<open>Append-only mode and seals\<close>

text \<open>
  C10: Once the database is in append-only mode, no sequence of its operations (commits
  that succeed or fail, typed puts, reads that touch the cache, maintenance, resets)
  leaves that mode or changes a non-zero cell.
\<close>

theorem append_only_forever:
  assumes "(db_step env tve)\<^sup>*\<^sup>* db db'" "write_mode db = AppendOnly"
  shows "write_mode db' = AppendOnly \<and> (\<forall>i. cell (state db) i \<noteq> 0 \<longrightarrow> cell (state db') i = cell (state db) i)"
  using steps_append_only [OF assms] by (simp add: raw_monotone_iff)

theorem append_only_forever_witness:
  "\<exists>db'. (db_step demo_env demo_tv)\<^sup>*\<^sup>* (set_append_only demo_db) db' \<and>
     entries db' \<noteq> [] \<and> write_mode db' = AppendOnly \<and> cell (state db') 0 = 7"
proof -
  obtain db' e where c: "commit demo_env 1 (set_append_only demo_db) demo_delta [] = Some (db', Ok e)"
    by (rule demo_locked_commit)
  have s: "(db_step demo_env demo_tv)\<^sup>*\<^sup>* (set_append_only demo_db) db'"
    by (rule r_into_rtranclp) (rule step_commit [OF c])
  have "write_mode (set_append_only demo_db) = AppendOnly" by (simp add: set_append_only_def)
  from append_only_forever [OF s this]
  have "write_mode db' = AppendOnly" "cell (state (set_append_only demo_db)) 0 \<noteq> 0 \<longrightarrow>
      cell (state db') 0 = cell (state (set_append_only demo_db)) 0" by blast+
  then show ?thesis
    using s commit_ok(2) [OF c] by (auto simp: set_append_only_def cell_def)
qed

text \<open>
  C11: Two seal chains of the same length over the same anchor that end in the same seal
  were written over the same sequence of key-value contents, if the hash has no collision
  among their inputs and no key contains an equals sign.
\<close>

theorem last_seal_fixes_history:
  assumes "verify_seal_chain_with_anchor H seals states anchor"
    "verify_seal_chain_with_anchor H seals' states' anchor"
    "seals \<noteq> []" "length seals = length seals'" "last seals = last seals'" "digest32 H"
    "inj_on H (seal_inputs H (genesis_for H anchor) states \<union>
               seal_inputs H (genesis_for H anchor) states')"
    "\<forall>(s, km) \<in> set states \<union> set states'. \<forall>(k, v) \<in> set (kv_pairs s km). CHR ''='' \<notin> set k"
  shows "map (\<lambda>(s, km). kv_pairs s km) states = map (\<lambda>(s, km). kv_pairs s km) states'"
  using assms by (rule seal_chain_binding)

definition demo_states :: "nat \<Rightarrow> (State \<times> KeyMap) list" where
  "demo_states n = [(\<lparr>st_values = replicate n 0\<rparr>, keymap_new)]"

definition demo_seals :: "node_hash list" where
  "demo_seals = [next_seal demo_hash (genesis_for demo_hash None) (key_value_digest demo_hash \<lparr>st_values = []\<rparr> keymap_new)]"

lemma no_pairs: "kv_pairs s keymap_new = []"
  by (simp add: kv_pairs_def keymap_new_def all_keys_def)

theorem last_seal_fixes_history_witness:
  "map (\<lambda>(s, km). kv_pairs s km) (demo_states 1) = map (\<lambda>(s, km). kv_pairs s km) (demo_states 2)"
proof -
  have same: "key_value_digest demo_hash \<lparr>st_values = replicate n 0\<rparr> keymap_new =
      key_value_digest demo_hash \<lparr>st_values = []\<rparr> keymap_new" for n
    by (simp add: key_value_digest_def no_pairs)
  have chain: "verify_seal_chain_with_anchor demo_hash demo_seals (demo_states n) None" for n
    by (simp add: demo_seals_def demo_states_def verify_seal_chain_with_anchor_def genesis_for_def same)
  have inputs: "inj_on demo_hash (seal_inputs demo_hash (genesis_for demo_hash None) (demo_states 1) \<union>
      seal_inputs demo_hash (genesis_for demo_hash None) (demo_states 2))"
    by (simp add: demo_states_def seal_inputs_def no_pairs kv_buffer_def inj_on_def demo_hash_def
        key_value_digest_def lessThan_Suc final_seal_def genesis_for_def genesis_seal_def)
  have keys: "\<forall>(s, km) \<in> set (demo_states 1) \<union> set (demo_states 2). \<forall>(k, v) \<in> set (kv_pairs s km).
      CHR ''='' \<notin> set k"
    by (simp add: demo_states_def no_pairs)
  show ?thesis
    by (rule last_seal_fixes_history [OF chain chain _ _ _ _ inputs keys]) (simp_all add: demo_seals_def)
qed

section \<open>Witness quorums\<close>

text \<open>
  C12: The quorum check accepts exactly when the algorithm is allowed and at least
  \<open>threshold\<close> distinct configured witnesses have a signature that verifies; repeated
  signatures of one witness and signatures of strangers count for nothing.
\<close>

theorem quorum_counts_distinct_witnesses:
  "verify_quorum_for_algorithm env cfg alg msg sigs \<longleftrightarrow>
    alg \<in> set (allowed_algorithms cfg) \<and>
    threshold cfg \<le> card {w \<in> set (witnesses cfg). \<exists>sig. (w, sig) \<in> set sigs \<and>
        verify_signature_with_algorithm env cfg alg w msg sig = Ok True}"
  using quorum_iff by (simp add: valid_signers_def)

text \<open>
  With the keys derived from one seed, the signatures a commit collects from the first
  \<open>threshold\<close> witnesses meet the quorum exactly when these witnesses are distinct.
\<close>

lemma honest_quorum_iff_distinct:
  assumes "sig_laws env" "threshold cfg \<le> length (witnesses cfg)"
    "cfg = with_seed_algorithm_source env var thr ws seed alg src"
    "sign_all env cfg msg (take (threshold cfg) (witnesses cfg)) = Ok sigs"
  shows "verify_quorum_for_algorithm env cfg (signing_algorithm cfg) msg sigs \<longleftrightarrow>
    distinct (take (threshold cfg) (witnesses cfg))"
proof -
  have "keys_match env cfg" "signing_algorithm cfg \<in> set (allowed_algorithms cfg)"
    using keys_match_seeded seeded_algorithm_allowed unfolding assms(3) by blast+
  then show ?thesis using commit_quorum_iff assms(1,2,4) by blast
qed

section \<open>Queries and tree heads\<close>

text \<open>
  C13: Whatever the backend, a query answers the value stored at the index, and its proof
  verifies against the root it returns.
\<close>

theorem query_answers_verify:
  assumes "query env db idx = Some (Some (v, p, r))" "length (st_values (state db)) < 2 ^ 64"
    "backend db = Kzg \<Longrightarrow> kzg_laws (env_kzg env)"
  shows "v = cell (state db) idx \<and> idx < length (st_values (state db)) \<and>
    verify_query env db idx v p r = Some True"
  using assms by (rule query_verifies)

theorem query_answers_verify_witness:
  "\<exists>p r. query demo_env demo_db 0 = Some (Some (7, p, r)) \<and>
     verify_query demo_env demo_db 0 7 p r = Some True"
proof -
  obtain p r where q: "query demo_env demo_db 0 = Some (Some (7, p, r))"
    by (simp add: query_def materialize_def state_root_for_def Let_def)
  with query_answers_verify [OF q] show ?thesis by simp
qed

text \<open>
  C14: A query proof that verifies shows the stored value, for the inner-product and the
  Merkle backend, as far as the group commitment or the hash has no collision on the
  inputs of the two computations.
\<close>

theorem verified_answer_is_stored:
  assumes "verify_query env db idx v p r = Some True" "idx < length (st_values (state db))"
    "query_unforgeable env (st_values (state db)) idx v p"
  shows "v = cell (state db) idx"
  using assms by (rule verified_query_sound)

theorem verified_answer_is_stored_witness:
  "\<exists>p r. verify_query demo_env demo_db 0 7 p r = Some True \<and> cell (state demo_db) 0 = 7"
proof -
  let ?p = "bm_open demo_hash [7] 0"
  obtain r where q: "query demo_env demo_db 0 = Some (Some (7, QBinaryMerkle ?p, r))"
    by (simp add: query_def materialize_def state_root_for_def Let_def)
  have ver: "verify_query demo_env demo_db 0 7 (QBinaryMerkle ?p) r = Some True"
    using query_verifies [OF q] by simp
  have "query_unforgeable demo_env (st_values (state demo_db)) 0 7 (QBinaryMerkle ?p)"
    using demo_bm_unforgeable by (simp add: query_unforgeable_def)
  from verified_answer_is_stored [OF ver _ this] ver show ?thesis by auto
qed

section \<open>Typed values\<close>

text \<open>
  C15: A typed value put under a key and committed with the cell the put returned is what a
  later read of the key yields, for every value type, in a blob store with room.
\<close>

theorem put_commit_read:
  assumes "put_typed (env_sha256 env) lm tve now key v db = (db1, Ok (idx, c))" "typed_inv db" "blob_room db"
    "value_ok tve v" "commit env now' db1 delta views = Some (db2, Ok e)"
    "map_of (rev (writes delta)) idx = Some c"
  shows "get_typed tve db2 key = Some v"
  using assms by (rule put_commit_get)

theorem put_commit_read_witness:
  "\<exists>db1 db2 e. put_typed demo_hash demo_libm demo_tv 1 ''k'' (Integer 5) demo_db = (db1, Ok (0, 5)) \<and>
     commit demo_env 2 db1 \<lparr>writes = [(0, 5)]\<rparr> [] = Some (db2, Ok e) \<and>
     get_typed demo_tv db2 ''k'' = Some (Integer 5)"
proof -
  obtain db1 where p: "put_typed demo_hash demo_libm demo_tv 1 ''k'' (Integer 5) demo_db = (db1, Ok (0, 5))"
    by (simp add: put_typed_def Let_def get_or_create_def keymap_new_def)
  have "demo_like db1" "length (ct_leaves db1) = length (entries db1)" "state db1 = \<lparr>st_values = [7]\<rparr>"
    "write_mode db1 = Normal"
    using put_typed_frame [OF p] demo_db_simps(10) by (simp_all add: demo_like_def)
  then obtain db2 e where c: "commit demo_env 2 db1 \<lparr>writes = [(0, 5)]\<rparr> [] = Some (db2, Ok e)"
    by (rule_tac demo_commit [of db1 "\<lparr>writes = [(0, 5)]\<rparr>"]) (auto simp: apply_delta_def apply_write_def)
  have "get_typed demo_tv db2 ''k'' = Some (Integer 5)"
    using put_commit_read [OF _ _ _ _ c, of demo_libm demo_tv 1 "''k''" "Integer 5" demo_db 0 5] p by simp
  with p c show ?thesis by blast
qed

text \<open>
  The key registry gives every key one index for good: registering any keys keeps the
  indices already given, and afterwards no two keys share an index and the reverse table
  names the key of every index.
\<close>

lemma key_indices_stable:
  assumes "keymap_inv km" "keymap_get km k = Some i"
    "km' = foldl (\<lambda>km k. snd (get_or_create km k)) km ks"
  shows "keymap_get km' k = Some i \<and> key_at km' i = Some k \<and>
    inj_on (keymap_get km') (dom (keymap_get km')) \<and> dom (keymap_get km') = dom (keymap_get km) \<union> set ks"
proof -
  have "km' = km.create_all km ks" by (simp add: assms(3) km.create_all_def)
  with km.create_all_laws [OF assms(1), where ks = ks] assms(2)
  have c: "keymap_inv km'" "keymap_get km' k = Some i" "dom (keymap_get km') = dom (keymap_get km) \<union> set ks"
    by auto
  have "inj_on (keymap_get km') (dom (keymap_get km'))"
    by (rule inj_onI) (metis c(1) domD km.get_inject)
  then show ?thesis using c km.name_get [OF c(1)] by auto
qed

section \<open>Auditing\<close>

text \<open>
  C16: The evidence collected by any run of honest commits replays without error under the
  witness configuration of the database.
\<close>

theorem honest_run_replays:
  assumes "evidence_run env db evs" "evs \<noteq> []" "length evs < 2 ^ 64" "digest32 (env_sha256 env)"
    "length (entries db) < 2 ^ 64"
  shows "replay_verify_evidence (env_sig env) (env_sha256 env) evs (witness_cfg db) = Ok ()"
  using assms by (rule honest_evidence_replays)

theorem honest_run_replays_witness:
  "\<exists>ev. replay_verify_evidence demo_sig demo_hash [ev] demo_cfg = Ok ()"
proof -
  obtain db' ev where "evidence_run demo_env db' [ev]" "length (entries db') < 2 ^ 64" "witness_cfg db' = demo_cfg"
    by (rule demo_evidence)
  then show ?thesis using honest_run_replays [of demo_env db' "[ev]"] by auto
qed

text \<open>
  C17: A replay without error establishes of every record its height, the quorum of distinct
  valid signers under an allowed algorithm, and of every record after the first that it
  links to the state root before it and that its tree head extends the head before.
\<close>

theorem replay_establishes:
  assumes "replay_verify_evidence senv H evs cfg = Ok ()" "j < length evs"
  shows "ev_height (evs ! j) = of_nat j + 1 \<and>
    (\<exists>alg. parse_algorithm_tag (ev_algorithm (evs ! j)) = Ok alg \<and> alg \<in> set (allowed_algorithms cfg) \<and>
       threshold cfg \<le> card (valid_signers senv cfg alg (msg_for_entry (evs ! j)) (ev_witness_sigs (evs ! j)))) \<and>
    (0 < j \<longrightarrow> ev_prev_state_root (evs ! j) = ev_state_root (evs ! (j - 1)) \<and>
       (\<exists>path old_root new_root.
          decode_hex_exact 32 (ev_sth_root (evs ! (j - 1))) = Some old_root \<and>
          decode_hex_exact 32 (ev_sth_root (evs ! j)) = Some new_root \<and>
          verify_consistency_proof H \<lparr>cp_old_size = ev_sth_size (evs ! (j - 1)),
            cp_new_size = ev_sth_size (evs ! j), cp_path = path\<rparr> old_root new_root))"
proof -
  have "replay_step senv H cfg (0 + j) (if j = 0 then None else Some (evs ! (j - 1))) (evs ! j) = Ok ()"
    using assms replay_loop_iff [of senv H cfg 0 None evs]
    unfolding replay_verify_evidence_def by (metis sum.distinct(1))
  from replay_step_okD [OF this] show ?thesis by auto
qed

theorem replay_establishes_witness:
  "\<exists>ev. replay_verify_evidence demo_sig demo_hash [ev] demo_cfg = Ok () \<and> ev_height ev = 1"
proof -
  obtain db' ev where "evidence_run demo_env db' [ev]" "length (entries db') < 2 ^ 64" "witness_cfg db' = demo_cfg"
    by (rule demo_evidence)
  then have "replay_verify_evidence demo_sig demo_hash [ev] demo_cfg = Ok ()"
    using honest_evidence_replays [of demo_env db' "[ev]"] by auto
  from replay_establishes [OF this, of 0] this show ?thesis by auto
qed

section \<open>Vector commitments\<close>

text \<open>
  The Merkle commitment to the empty vector binds nothing: for every index and value
  there is a proof that verifies.
\<close>

lemma empty_commitment_shows_anything:
  "\<exists>p. bm_verify H (bm_commit H []) i x p"
  using bm_empty_accepts_everything by blast

section \<open>Local views\<close>

text \<open>
  C18: A set of local views is accepted exactly when some assignment extends all of them,
  that is, when no two views disagree on a key.
\<close>

theorem views_accepted_iff_glue:
  assumes "\<And>view. view \<in> set views \<Longrightarrow> bt_wf (kv view)"
  shows "verify_sheaf_coherence global (build_sheaf_coherence views) \<longleftrightarrow>
    (\<exists>glued. \<forall>view \<in> set views. bt_get (kv view) \<subseteq>\<^sub>m glued)"
  using assms by (rule accepted_iff_glue)

theorem views_accepted_iff_glue_witness:
  "verify_sheaf_coherence \<lparr>st_values = []\<rparr>
     (build_sheaf_coherence [\<lparr>lens_id = ''a'', kv = [(''k'', 1)]\<rparr>, \<lparr>lens_id = ''b'', kv = [(''k'', 1)]\<rparr>])"
proof -
  let ?views = "[\<lparr>lens_id = ''a'', kv = [(''k'', 1)]\<rparr>, \<lparr>lens_id = ''b'', kv = [(''k'', 1 :: u64)]\<rparr>]"
  have "\<forall>view \<in> set ?views. bt_get (kv view) \<subseteq>\<^sub>m bt_get [(''k'', 1)]" by simp
  moreover have "verify_sheaf_coherence \<lparr>st_values = []\<rparr> (build_sheaf_coherence ?views) \<longleftrightarrow>
      (\<exists>glued. \<forall>view \<in> set ?views. bt_get (kv view) \<subseteq>\<^sub>m glued)"
    by (rule views_accepted_iff_glue) (auto simp: bt_wf_def)
  ultimately show ?thesis by blast
qed

section \<open>Bounded caches\<close>

text \<open>
  Storing a blob keeps the store's invariant and its bound; what it holds afterwards is
  part of the old contents with the new blob, and everything when there was room.
\<close>

lemma blob_put_bounded:
  assumes "cache_inv b"
  shows "cache_inv (blob_put lm now k v b) \<and> length (entries_of (blob_put lm now k v b)) \<le> max_entries b \<and>
    bt_get (entries_of (blob_put lm now k v b)) \<subseteq>\<^sub>m (bt_get (entries_of b))(k \<mapsto> v) \<and>
    (length (entries_of b) < max_entries b \<longrightarrow>
       bt_get (entries_of (blob_put lm now k v b)) = (bt_get (entries_of b))(k \<mapsto> v))"
  using blob_put_spec [OF assms] blobs.get_after_store [where lm = lm and now = now and k = k and v = v, OF assms]
  by simp

text \<open>
  A vector is accepted exactly when it is non-empty and has the dimension of the
  index; an accepted one keeps the invariant (one dimension for all vectors, one liveness
  score per vector) and the bound, a refused one changes no vector.
\<close>

lemma vector_upsert:
  assumes "vi_inv vi"
  shows "vi_inv (fst (upsert lm now key dims vi)) \<and>
    (isl (snd (upsert lm now key dims vi)) \<longleftrightarrow> \<not> vi_accepts vi dims) \<and>
    (if vi_accepts vi dims
     then length (entries_of (fst (upsert lm now key dims vi))) \<le> max_entries vi \<and>
       bt_get (entries_of (fst (upsert lm now key dims vi))) \<subseteq>\<^sub>m (bt_get (entries_of vi))(key \<mapsto> dims)
     else entries_of (fst (upsert lm now key dims vi)) = entries_of vi)"
proof (cases "vi_accepts vi dims")
  case True
  have "snd (upsert lm now key dims vi) = Ok ()" by (subst upsert_accepted [OF True]) simp
  then show ?thesis using upsert_spec [OF assms True] True by simp
next
  case False
  then show ?thesis using upsert_refused [OF False] vi_maintenance_inv [OF assms] by simp
qed

text \<open>
  A search without prefix returns the nearest vectors: when it leaves one out it has
  returned as many as were asked for, and none of them is farther than the one left out (no
  smaller in inner product), provided no distance to the query is NaN.
\<close>

lemma search_returns_nearest:
  assumes "search_with_prefix lm vi q k metric None = Some (Ok results)"
    "bt_get (entries_of vi) key = Some vec" "key \<notin> set (map sr_key results)" "bt_wf (entries_of vi)"
    "\<forall>(key, vec) \<in> set (entries_of vi). \<not> is_nan (compute_distance lm q vec metric)"
  shows "length results = k \<and>
    (\<forall>r \<in> set results.
       if metric = InnerProduct then f64_le (compute_distance lm q vec metric) (sr_distance r)
       else f64_le (sr_distance r) (compute_distance lm q vec metric))"
proof -
  have "\<not> is_nan (sr_distance r)" if "r \<in> set results" for r
    using search_distances [OF assms(1) that] assms(5) by auto
  moreover have "\<not> is_nan (compute_distance lm q vec metric)"
    using assms(2,4,5) by (auto simp: bt_get_iff_mem)
  ultimately show ?thesis
    using search_nearest [OF assms(1-4)] by (cases metric) (auto simp: f64_le_def result_rank_def)
qed

definition demo_index :: VectorIndex where
  "demo_index = (vector_index_new 0)\<lparr>entries_of := [(''a'', [0]), (''b'', [f64_one])], expected_dims := Some 1\<rparr>"

lemma demo_distances:
  "compute_distance demo_libm [f64_one] [0] InnerProduct = 0"
  "compute_distance demo_libm [f64_one] [f64_one] InnerProduct = f64_one"
  "rank_results InnerProduct [(''a'', 0), (''b'', f64_one)] = [(''b'', f64_one), (''a'', 0)]"
  by code_simp+

lemma demo_search:
  "search_with_prefix demo_libm demo_index [f64_one] 1 InnerProduct None =
     Some (Ok [\<lparr>sr_key = ''b'', sr_distance = f64_one\<rparr>])"
  by (simp add: search_with_prefix_def demo_index_def prefix_entries_def demo_distances)

section \<open>The memory governor and construction\<close>

text \<open>
  A governor whose parameters validate keeps its threshold between the configured
  bounds through any sequence of measurements, in IEEE double arithmetic, also on
  infinities and NaN.
\<close>

lemma governor_stays_in_bounds:
  assumes "validate_params (governor_new cfg) = Ok r" "\<not> is_nan (eps_max cfg)"
  shows "f64_le (eps_min cfg) (epsilon (foldl gov_step (governor_new cfg) deltas)) \<and>
    f64_le (epsilon (foldl gov_step (governor_new cfg) deltas)) (eps_max cfg)"
proof -
  have "config (foldl gov_step g deltas) = config g" for g
    by (induction deltas arbitrary: g) simp_all
  then show ?thesis
    using validated_governor_bounded [OF assms, of deltas] by (simp add: gov_inv_def governor_new_def)
qed

definition demo_governor :: GovernorConfig where
  "demo_governor = \<lparr>instance_id = ''demo'', alpha = f64_half, beta = 0, dt = f64_one, eps_min = f64_one,
     eps_max = f64_two, gov_target = f64_one, formal_basis = [], ki = 0, kb = 0, adaptive = None\<rparr>"

lemma demo_governor_valid: "isl (validate_params (governor_new demo_governor)) = False"
  by code_simp

text \<open>
  The constructor with default parameters does not panic for a threshold between one
  and the number of witnesses, at most 128 of them, and no KZG backend; the database it
  returns satisfies every invariant.
\<close>

lemma fresh_database:
  assumes "b \<noteq> Kzg" "0 < threshold wcfg" "threshold wcfg \<le> length (witnesses wcfg)"
    "length (witnesses wcfg) \<le> 128"
  shows "\<exists>db. db_new env now initial b wcfg = Some db \<and> state db = initial \<and> db_inv env db \<and> typed_inv db"
proof -
  have v: "validate_parameters (new_parameters (vc_profile b)) (vc_profile b) wcfg = Ok ()"
    by (rule new_parameters_valid [OF assms(2-4)])
  obtain db where db: "with_security env now initial b wcfg (new_parameters (vc_profile b))
      (default_reduction_contracts (vc_profile b)) = Ok db" "state db = initial"
    using assms(1) v
    by (simp add: with_security_def default_contracts_valid load_kzg_setup_if_required_def)
  then show ?thesis
    using db_inv_new [OF db(1)] typed_inv_new [OF db(1)] by (simp add: db_new_def Let_def)
qed

section \<open>Persistence and tenants\<close>

text \<open>A JSON coding of one value of each kind, enough for the examples below.\<close>

definition only :: "'a \<Rightarrow> 'a \<Rightarrow> string + bytes" where
  "only x y = (if y = x then Ok ''x'' else Err ''unsupported'')"

definition demo_codec :: "SnapshotV1 \<Rightarrow> WalMetaV1 \<Rightarrow> WalEventV1 \<Rightarrow> json_codec" where
  "demo_codec s m ev =
     \<lparr>snap_to_vec = only s, snap_from_slice = (\<lambda>_. Ok s), meta_to_vec = only m,
      meta_from_slice = (\<lambda>_. Ok m), event_to_vec = only ev, event_from_slice = (\<lambda>_. Ok ev)\<rparr>"

lemma codes_only [simp]: "codes (only x) (\<lambda>_. Ok x) x"
  by (simp add: codes_def only_def)

lemma demo_codec_simps [simp]:
  "codes (snap_to_vec (demo_codec s m ev)) (snap_from_slice (demo_codec s m ev)) s"
  "codes (meta_to_vec (demo_codec s m ev)) (meta_from_slice (demo_codec s m ev)) m"
  "event_to_vec (demo_codec s m ev) x = Ok raw \<Longrightarrow> event_from_slice (demo_codec s m ev) raw = Ok x"
  by (simp_all add: demo_codec_def) (simp add: only_def split: if_splits)

lemma demo_reopens: "db_new demo_env 5 s BinaryMerkle demo_cfg \<noteq> None"
  by (simp add: db_new_def with_security_def default_contracts_valid load_kzg_setup_if_required_def Let_def)

definition demo_event :: "NucleusDb \<Rightarrow> CommitEntry \<Rightarrow> WalEventV1" where
  "demo_event db e = \<lparr>event_schema = wal_event_schema, event_seq = of_nat (length (entries db)),
     event_delta = demo_delta, event_entry = e, event_ct_leaf = last (ct_leaves db)\<rparr>"

text \<open>
  C19: A write-ahead log that was started on an empty history, and to which every successful commit since was appended, is
  replayed to the history (contents, entries, leaves, tree head) of the database right after its last successful
  commit, whatever typed values, keys, mode changes and failed commits came in between.  That is the history the
  database has now, unless witnesses of a commit failed since and left a leaf without an entry; the entries are the
  same even then.  But the keys, the typed stores and the mode are those the log was started with, the seals are lost and the witness configuration is the
  caller's; so the whole database comes back, but for seals and witnesses, exactly when these and the parameters did not
  change.  The log must have fewer than 2^64 - 1 leaves, the events and the metadata must be read back as they were
  written, and making the empty database must not panic.
\<close>

theorem wal_recovers:
  assumes "wal_run env tve j path db0 dbc db disk" "length (ct_leaves db) < 2 ^ 64 - 1"
    "\<And>ev raw. event_to_vec j ev = Ok raw \<Longrightarrow> event_from_slice j raw = Ok ev"
    "codes (meta_to_vec j) (meta_from_slice j) (wal_meta_of db0)"
    "db_new env now (state db0) (backend db0) cfg \<noteq> None"
  shows "load_wal env j now path cfg disk = Some (Ok (db0\<lparr>state := state dbc, entries := entries dbc,
      ct_leaves := ct_leaves dbc, current_sth := current_sth dbc, monotone_seals := [], witness_cfg := cfg\<rparr>)) \<and>
    entries dbc = entries db \<and>
    (length (ct_leaves db) = length (entries db) \<longrightarrow>
       state dbc = state db \<and> ct_leaves dbc = ct_leaves db \<and> current_sth dbc = current_sth db \<and>
       (load_wal env j now path cfg disk = Some (Ok (db\<lparr>monotone_seals := [], witness_cfg := cfg\<rparr>)) \<longleftrightarrow>
          same_stores db0 db))"
proof -
  note run = wal_run_synced [OF assms(1,2)]
  have load: "load_wal env j now path cfg disk = Some (Ok (recovered cfg db0 dbc))"
    by (rule load_wal_run [OF assms(1,2) _ assms(4,5)]) (rule assms(3))
  have now: "equal_history dbc db" if "length (ct_leaves db) = length (entries db)" using run that by blast
  show ?thesis
  proof (intro conjI impI)
    show "load_wal env j now path cfg disk = Some (Ok (db0\<lparr>state := state dbc, entries := entries dbc,
        ct_leaves := ct_leaves dbc, current_sth := current_sth dbc, monotone_seals := [], witness_cfg := cfg\<rparr>))"
      by (simp only: load recovered_def)
    assume synced: "length (ct_leaves db) = length (entries db)"
    show "load_wal env j now path cfg disk = Some (Ok (db\<lparr>monotone_seals := [], witness_cfg := cfg\<rparr>)) \<longleftrightarrow>
        same_stores db0 db"
      using recovered_whole_iff [OF now [OF synced], of cfg db0] by (simp only: load option.inject sum.inject)
  qed (use run now [unfolded equal_history_def] in metis)+
qed

lemma demo_wal:
  obtains db' e disk where "commit demo_env 1 demo_db demo_delta [] = Some (db', Ok e)"
    "wal_run demo_env tve (demo_codec s (wal_meta_of demo_db) (demo_event db' e)) ''wal'' demo_db db' db' disk"
proof -
  obtain db' e where c: "commit demo_env 1 demo_db demo_delta [] = Some (db', Ok e)"
    by (rule demo_first_commit)
  let ?j = "demo_codec s (wal_meta_of demo_db) (demo_event db' e)"
  let ?f = "\<lparr>snap_table = None, wal_meta_table = Some [(''meta'', ''x'')], wal_events_table = Some []\<rparr>"
  let ?d = "(\<lambda>_. None)(''wal'' \<mapsto> ?f)"
  have none: "current_sth demo_db = None"
    by (simp add: demo_db_def with_security_def default_contracts_valid load_kzg_setup_if_required_def)
  have i: "init_wal ?j ''wal'' demo_db (\<lambda>_. None) = (?d, Ok ())"
    by (simp add: init_wal_def demo_codec_def only_def create_file_def table_def empty_file_def Let_def bt_get_def)
  have r0: "wal_run demo_env tve ?j ''wal'' demo_db demo_db demo_db ?d"
    by (rule run_init [OF _ _ none _ i]) simp_all
  obtain d' where a: "append_wal_event ?j ''wal'' demo_delta db' e ?d = (d', Ok ())"
    using commit_ok(3) [OF c]
    by (simp add: append_wal_event_def demo_codec_def only_def create_file_def table_def Let_def bt_get_def
        demo_event_def wal_meta_of_def)
  show ?thesis by (rule that [OF c run_append [OF r0 c a]])
qed

text \<open>After the commit the database is switched to append-only mode; the recovered one has the entry and not the mode.\<close>

theorem wal_recovers_witness:
  "\<exists>j db' disk got. wal_run demo_env (undefined :: unit tv_env) j ''wal'' demo_db db' (set_append_only db') disk \<and>
     load_wal demo_env j 5 ''wal'' demo_cfg disk = Some (Ok got) \<and>
     entries got = entries db' \<and> length (entries db') = 1 \<and> ct_leaves got = ct_leaves db' \<and> write_mode got = write_mode demo_db"
proof -
  obtain s :: SnapshotV1 where True by simp
  obtain db' e disk where c: "commit demo_env 1 demo_db demo_delta [] = Some (db', Ok e)"
    and r: "wal_run demo_env (undefined :: unit tv_env) (demo_codec s (wal_meta_of demo_db) (demo_event db' e)) ''wal''
      demo_db db' db' disk"
    by (rule demo_wal)
  have n: "length (entries db') = 1" "length (ct_leaves db') = 1" using commit_ok(2,3) [OF c] by simp_all
  have r': "wal_run demo_env (undefined :: unit tv_env) (demo_codec s (wal_meta_of demo_db) (demo_event db' e)) ''wal''
      demo_db db' (set_append_only db') disk"
    by (rule run_step [OF r step_lock]) (simp add: set_append_only_def)
  have "load_wal demo_env (demo_codec s (wal_meta_of demo_db) (demo_event db' e)) 5 ''wal'' demo_cfg disk =
      Some (Ok (demo_db\<lparr>state := state db', entries := entries db', ct_leaves := ct_leaves db',
        current_sth := current_sth db', monotone_seals := [], witness_cfg := demo_cfg\<rparr>))"
    using n by (intro wal_recovers [OF r', THEN conjunct1])
      (simp_all add: demo_reopens [simplified] set_append_only_def)
  with n r' show ?thesis by fastforce
qed

text \<open>
  After a checkpoint the snapshot restores the whole database, but the log, which a
  restart prefers, restores only its contents: the entries, the log leaves, the tree head and the
  seals are gone, so heights start again at one.
\<close>

lemma checkpoint_drops_history:
  assumes "persist_snapshot_and_sync_wal j tmp snap wal db disk = (disk', Ok ())"
    "disk tmp = None" "distinct [tmp, snap, wal]"
    "codes (snap_to_vec j) (snap_from_slice j) (snapshot_of db)"
    "codes (meta_to_vec j) (meta_from_slice j) (wal_meta_of db)"
    "db_new env now (state db) (backend db) cfg \<noteq> None"
  shows "load_snapshot env j now snap cfg disk' = Some (Ok (db\<lparr>witness_cfg := cfg\<rparr>)) \<and>
    load_wal env j now wal cfg disk' = Some (Ok (db\<lparr>entries := [], ct_leaves := [], current_sth := None,
      monotone_seals := [], witness_cfg := cfg\<rparr>))"
proof -
  obtain d1 where d1: "save_snapshot j snap db disk = (d1, Ok ())" "truncate_wal j tmp wal db d1 = (disk', Ok ())"
    using assms(1) by (auto simp: persist_snapshot_and_sync_wal_def split: prod.splits sum.splits)
  have tmp: "d1 tmp = None"
    using d1(1) assms(2,3) by (auto simp: save_snapshot_def Let_def split: sum.splits)
  have "disk' snap = d1 snap"
    using truncate_wal_frame [OF d1(2)] assms(3) by auto
  then have "load_snapshot env j now snap cfg disk' = load_snapshot env j now snap cfg d1"
    by (simp add: load_snapshot_def)
  moreover have "load_snapshot env j now snap cfg d1 = Some (Ok (db\<lparr>witness_cfg := cfg\<rparr>))"
    by (rule load_saved_snapshot [OF d1(1) assms(4,6)])
  moreover have "load_wal env j now wal cfg disk' =
      Some (Ok (recovered cfg db (db\<lparr>entries := [], ct_leaves := [], current_sth := None\<rparr>)))"
    using assms(3) by (intro load_truncated_wal [OF d1(2) tmp _ assms(5,6)]) auto
  ultimately show ?thesis by (simp add: recovered_def)
qed

text \<open>
  C20: A request changes the slot of a registered tenant only if it names that tenant and
  presents the token of one of its principals, of a role that may write.
\<close>

theorem tenant_isolation:
  assumes "served env j p w" "digest32 (env_sha256 env)" "bt_get (tenants (tenancy w)) t = Some slot"
    "bt_get (tenants (tenancy (exec env j r w))) t \<noteq> Some slot"
  shows "target r = t \<and>
    (\<exists>pid tok required cred. credentials r = Some (pid, tok, required) \<and>
       bt_get (principals slot) pid = Some cred \<and> Writer \<le> cred_role cred \<and> required \<le> cred_role cred \<and>
       cred_token_hash cred = mt_token_hash (env_sha256 env) tok)"
proof -
  have ne: "bt_get (tenants (tenancy (exec env j r w))) t \<noteq> bt_get (tenants (tenancy w)) t"
    using assms(3,4) by simp
  obtain pid tok required slot' where q: "credentials r = Some (pid, tok, required)" "Writer \<le> required"
    "authorized_tenant_slot_as (env_sha256 env) (tenancy w) t pid tok required = Ok slot'"
    using exec_isolation(2) [OF ne] assms(3) by auto
  moreover have "hashes32 (tenancy w)" using served_invariants [OF assms(1,2)] by blast
  note authorized_iff [OF this assms(2), THEN iffD1, OF q(3)]
  ultimately show ?thesis
    using exec_isolation(1) [OF ne] assms(3) by (auto intro: order_trans)
qed

definition demo_slot :: "NucleusDb \<Rightarrow> TenantSlot" where
  "demo_slot db = \<lparr>principals = [(''admin'', \<lparr>cred_token_hash = mt_token_hash demo_hash ''secret'',
     cred_role = Admin\<rparr>)], slot_db = Some db, wal_path = None\<rparr>"

lemma demo_registered:
  assumes "validate_tenant_policy p ''t'' db = Ok ()"
  shows "served demo_env j p (\<lparr>tenancy = \<lparr>policy = p, tenants = [(''t'', demo_slot db)]\<rparr>, files = (\<lambda>_. None)\<rparr>)"
proof -
  let ?w = "\<lparr>tenancy = mt_new p, files = (\<lambda>_. None)\<rparr>"
  have "served demo_env j p (exec demo_env j (RegisterTenant ''t'' ''secret'' db None False) ?w)"
    by (rule served_exec [OF served_new]) simp
  then show ?thesis
    using assms by (simp add: register_tenant_internal_def mt_new_def put_slot_def demo_slot_def Let_def
        bt_keys_def)
qed

theorem tenant_isolation_witness:
  "\<exists>j w r slot cred. target r = ''t'' \<and> bt_get (tenants (tenancy w)) ''t'' = Some slot \<and>
     bt_get (principals slot) ''admin'' = Some cred \<and>
     cred_token_hash cred = mt_token_hash (env_sha256 demo_env) ''secret'' \<and>
     bt_get (tenants (tenancy (exec demo_env j r w))) ''t'' \<noteq> Some slot"
proof -
  obtain j :: json_codec where True by simp
  obtain db' e where c: "commit demo_env 1 demo_db demo_delta [] = Some (db', Ok e)"
    by (rule demo_first_commit)
  let ?w = "\<lparr>tenancy = \<lparr>policy = permissive, tenants = [(''t'', demo_slot demo_db)]\<rparr>, files = (\<lambda>_. None)\<rparr>"
  let ?r = "CommitAs 1 ''t'' ''admin'' ''secret'' demo_delta []"
  have s: "served demo_env j permissive ?w"
    by (rule demo_registered) (simp add: validate_tenant_policy_def permissive_def)
  have g: "bt_get (tenants (tenancy ?w)) ''t'' = Some (demo_slot demo_db)" by (simp add: bt_get_def)
  have "length (mt_token_hash demo_hash ''secret'') = 32"
    by (simp add: mt_token_hash_def domain_hash_32_def demo_hash_def)
  then have a: "authorized_tenant_slot_as demo_hash (tenancy ?w) ''t'' ''admin'' ''secret'' Writer = Ok (demo_slot demo_db)"
    by (simp add: authorized_tenant_slot_as_def demo_slot_def bt_get_def less_TenantRole_def ct_eq_32_correct)
  have "db' \<noteq> demo_db" using commit_ok(2) [OF c] by (metis append_is_Nil_conv demo_db_simps(1) not_Cons_self2)
  then have ne: "bt_get (tenants (tenancy (exec demo_env j ?r ?w))) ''t'' \<noteq> Some (demo_slot demo_db)"
    using a c by (simp add: mt_commit_as_def with_slot_db_def demo_slot_def bt_get_def)
  from tenant_isolation [OF s _ g ne]
  obtain cred where "bt_get (principals (demo_slot demo_db)) ''admin'' = Some cred"
    "cred_token_hash cred = mt_token_hash (env_sha256 demo_env) ''secret''" by auto
  with g ne show ?thesis
    by (intro exI [of _ j] exI [of _ ?w] exI [of _ ?r] exI [of _ "demo_slot demo_db"] exI [of _ cred]) simp
qed

definition demo_production :: NucleusDb where
  "demo_production = demo_db\<lparr>witness_cfg := with_seed_and_algorithm demo_sig None 1 [''w1''] ''seed'' MlDsa65\<rparr>"

section \<open>Access, identities and capabilities\<close>

text \<open>
  A policy store denies an access exactly when some policy that applies denies its mode,
  and allows it exactly when some policy that applies allows the mode and none denies it:
  denial overrides, the order of the policies does not matter, and no match is no access.
\<close>

lemma policies_deny_overrides:
  "((\<exists>pid r. evaluate s ctx = Deny pid r) \<longleftrightarrow>
      (\<exists>p \<in> set (policies s). applies p ctx \<and> ctx_mode ctx \<in> set (denied_modes p))) \<and>
   ((\<exists>pid. evaluate s ctx = Allow pid) \<longleftrightarrow>
      (\<exists>p \<in> set (policies s). applies p ctx \<and> ctx_mode ctx \<in> set (allowed_modes p)) \<and>
      \<not> (\<exists>p \<in> set (policies s). applies p ctx \<and> ctx_mode ctx \<in> set (denied_modes p)))"
  using evaluate_spec by blast

text \<open>An environment for identities: public keys are padded secrets, a signature is a padded message.\<close>

definition pad :: "nat \<Rightarrow> bytes \<Rightarrow> bytes" where
  "pad n x = take n (x @ replicate n CHR 0x00)"

lemma length_pad [simp]: "length (pad n x) = n"
  by (simp add: pad_def)

definition demo_did :: did_env where
  "demo_did =
     \<lparr>hkdf_sha256 = (\<lambda>salt ikm info n. pad n (info @ ikm)), mb_encode = (\<lambda>b. CHR ''z'' # b),
      mb_decode = (\<lambda>s. case s of [] \<Rightarrow> Err ''empty'' | c # cs \<Rightarrow> Ok cs), did_ed_public = pad 32,
      did_ed_valid = (\<lambda>k. True), did_ed_sign = (\<lambda>sk m. pad 64 (pad 32 sk @ m)),
      did_ed_verify = (\<lambda>k m s. s = pad 64 (k @ m)), did_ml_public = pad 1952,
      did_ml_sign = (\<lambda>sk m ctx. Ok (pad 3309 (pad 1952 sk @ m))), did_ml_decode = Some,
      did_ml_verify = (\<lambda>k m ctx s. s = pad 3309 (k @ m)), x25519_public = pad 32,
      mlkem_generate = (\<lambda>seed. seed), mlkem_public = pad 1184\<rparr>"

lemma demo_did_laws [simp]: "did_laws demo_did"
  by (simp add: did_laws_def demo_did_def)

definition demo_cap :: cap_env where
  "demo_cap = \<lparr>cap_sha256 = demo_hash, cap_did = demo_did, canonical_json = (\<lambda>c. Ok (cc_grantor_did c))\<rparr>"

lemma demo_cap_simps [simp]: "cap_did demo_cap = demo_did" "cap_sha256 demo_cap = demo_hash"
  by (simp_all add: demo_cap_def)

lemma demo_issue:
  obtains t where "create_capability demo_cap 0 g ''did:key:bob'' Public [''a/*''] [Read] 0 10 False = Ok t"
    "token_patterns t = [''a/*'']" "modes t = [Read]" "token_expires_at t = 10"
proof -
  have "normalize_patterns [''a/*''] = [''a/*'']" "trim ''did:key:bob'' = ''did:key:bob''" by code_simp+
  then show ?thesis
    by (intro that) (auto simp: create_capability_def compute_token_id_def canonical_bytes_def demo_cap_def
        dual_sign_def demo_did_def starts_with_def normalize_modes_def Let_def)
qed

text \<open>
  A capability token that an identity derived from a seed issues verifies at any time of
  its validity, if the signature and coding crates keep their laws.
\<close>

lemma issued_capability_verifies:
  assumes "did_laws (cap_did env)"
    "create_capability env now (did_from_genesis_seed (cap_did env) seed) grantee cls pats ms nbf till dl = Ok t"
    "nbf \<le> when" "when < till"
  shows "verify_capability env t when = Ok ()"
  using issued_verifies [OF assms(2,1) genesis_identity_ok assms(3,4)] by simp

text \<open>
  C25: Anyone can issue tokens in the name of anyone: a token signed with the keys of an
  arbitrary identity \<open>i\<close> verifies as issued by \<open>victim\<close>, because verification uses the
  document inside the token and ties its keys to nothing.
\<close>

theorem forged_capability_verifies:
  assumes "did_laws (cap_did env)"
    "create_capability env now (impersonate (cap_did env) victim i) grantee cls pats ms nbf till dl = Ok t"
    "nbf \<le> when" "when < till"
  shows "verify_capability env t when = Ok () \<and> grantor_did t = victim"
proof
  show "verify_capability env t when = Ok ()"
    using issued_verifies [OF assms(2,1) impersonate_ok assms(3,4)] .
  show "grantor_did t = victim"
    by (rule create_capability_cases [OF assms(2)]) (metis CapabilityToken.select_convs(2) impersonate_keys(3))
qed

theorem forged_capability_verifies_witness:
  "\<exists>t. create_capability demo_cap 0 (impersonate demo_did ''did:key:alice'' (did_from_genesis_seed demo_did ''mallory''))
       ''did:key:bob'' Public [''a/*''] [Read] 0 10 False = Ok t \<and>
     verify_capability demo_cap t 5 = Ok () \<and> grantor_did t = ''did:key:alice''"
proof -
  let ?g = "impersonate demo_did ''did:key:alice'' (did_from_genesis_seed demo_did ''mallory'')"
  obtain t where t: "create_capability demo_cap 0 ?g ''did:key:bob'' Public [''a/*''] [Read] 0 10 False = Ok t"
    by (rule demo_issue)
  with forged_capability_verifies [of demo_cap 0 "''did:key:alice''" "did_from_genesis_seed demo_did ''mallory''"
      _ _ _ _ 0 10 False t 5]
  show ?thesis by simp
qed

text \<open>
  Accepting a token gives its holder exactly the reads the token names, until it expires,
  and changes nothing for anyone else; nothing is granted when the token is refused.
\<close>

lemma accepted_token_rights:
  assumes "accept_capability env clock ctr t s me other now = (s', ctr', r)"
    "length (token_patterns t) \<le> length clock"
  shows "if isl r then s' = s
    else verify_capability env t now = Ok () \<and>
      (can_read when s' who key \<longleftrightarrow> can_read when s who key \<or>
        (who = me \<and> Read \<in> set (modes t) \<and> when < token_expires_at t \<and>
         (\<exists>p \<in> set (token_patterns t). key_pattern_matches p key)))"
proof (cases r)
  case (Inl e)
  then show ?thesis using assms(1) by (auto simp: accept_capability_def split: sum.splits prod.splits)
next
  case (Inr gs)
  have "verify_capability env t now = Ok ()"
    using assms(1) Inr by (auto simp: accept_capability_def split: sum.splits)
  then show ?thesis using accept_gives_rights [of env clock ctr t s me other now s' ctr' gs] assms Inr by simp
qed

section \<open>Proof envelopes\<close>

text \<open>
  The envelope made for a cell is accepted by local verification, and so it is after its key
  and its value are replaced by anything: the check never compares the value with the proof.
\<close>

lemma envelope_accepts_any_value:
  assumes "from_query env now db key idx v = Some (Some e)" "length (st_values (state db)) < 2 ^ 64"
    "backend db \<noteq> Kzg"
  shows "env_accepted (verify_locally (env_sha256 env) (env_ipa env) e) \<and>
    env_accepted (verify_locally (env_sha256 env) (env_ipa env) (e\<lparr>env_key := key', env_value := v'\<rparr>))"
  using from_query_accepted [OF assms] by (simp add: verify_ignores_value)

definition demo_envelope :: "string \<Rightarrow> string TypedValue \<Rightarrow> (string, unit) ProofEnvelope" where
  "demo_envelope k v = the (the (from_query demo_env 5 demo_db k 0 v))"

lemma demo_envelope_made: "from_query demo_env 5 demo_db k 0 v = Some (Some (demo_envelope k v))"
  by (simp add: demo_envelope_def from_query_def query_def state_root_for_def materialize_def Let_def)

text \<open>
  C23: When the provenance of an envelope is accepted, every envelope upstream of it resolves, has
  the hash it is referred to by and is itself accepted, and the references have no cycle.
\<close>

theorem accepted_provenance_is_dag:
  assumes "verify_provenance_dag_with_options H ipa to_vec e resolve opts = Ok v" "pd_accepted v"
    "upstream resolve e h"
  shows "\<exists>d. resolve h = Some d \<and> provenance_hash H to_vec d = Ok h \<and> env_accepted (verify_locally H ipa d) \<and>
    \<not> upstream resolve d h \<and> provenance_hash H to_vec e \<noteq> Ok h"
proof -
  let ?view = "\<lambda>h. map_option (view_of H ipa to_vec) (resolve h)"
  obtain F rh where F: "provenance_hash H to_vec e = Ok rh" "rh \<notin> F" "dag ?view F"
    "envelope_hash ` set (upstream_envelopes e) \<subseteq> F"
    using accepted_walk_dag [OF assms(1,2)] by metis
  have h: "h \<in> F" by (rule dag_upstream [OF F(3,4) assms(3)])
  then have "good_node ?view h" using F(3) by (auto simp: dag_def)
  then obtain d where d: "resolve h = Some d" "provenance_hash H to_vec d = Ok h" "env_accepted (verify_locally H ipa d)"
    by (auto simp: good_node_def view_of_def)
  then show ?thesis using accepted_no_cycle [OF F(3) h d(1)] F(1,2) h by auto
qed

definition demo_refers :: "(string, unit) ProofEnvelope" where
  "demo_refers = (demo_envelope ''root'' (Integer 7))
     \<lparr>upstream_envelopes := [\<lparr>envelope_hash = demo_hash (''nucleusdb.pod.provenance.envelope.v1'' @ CHR 0x00 # ''k''),
        ref_key = None, ref_commit_height = None\<rparr>]\<rparr>"

abbreviation demo_leaf_hash :: node_hash where
  "demo_leaf_hash \<equiv> demo_hash (''nucleusdb.pod.provenance.envelope.v1'' @ CHR 0x00 # ''k'')"

definition demo_resolve :: "node_hash \<Rightarrow> (string, unit) ProofEnvelope option" where
  "demo_resolve = [demo_leaf_hash \<mapsto> demo_envelope ''k'' (Integer 7)]"

lemma demo_envelope_simps [simp]:
  "env_key (demo_envelope k v) = k" "upstream_envelopes (demo_envelope k v) = []"
  "provenance_hash demo_hash (\<lambda>i. Ok (hi_key i)) (demo_envelope k v) =
     Ok (demo_hash (''nucleusdb.pod.provenance.envelope.v1'' @ CHR 0x00 # k))"
  by (simp_all add: demo_envelope_def from_query_def query_def state_root_for_def materialize_def
      provenance_hash_def hash_input_def Let_def)

lemma demo_envelope_accepted [simp]: "env_accepted (verify_locally demo_hash demo_ipa (demo_envelope k v))"
  using from_query_accepted [OF demo_envelope_made [of k v]] by simp

lemma demo_refers_accepted: "env_accepted (verify_locally demo_hash demo_ipa demo_refers)"
proof -
  have "env_accepted (verify_locally demo_hash demo_ipa (e\<lparr>upstream_envelopes := rs\<rparr>))"
    if "env_accepted (verify_locally demo_hash demo_ipa e)" "validate_upstream_refs rs = Ok ()" for e :: "(string, unit) ProofEnvelope" and rs
    using that by (auto simp: verify_locally_def Let_def split: if_splits prod.splits)
  moreover have "demo_leaf_hash \<noteq> replicate 32 CHR 0x00" by code_simp
  ultimately show ?thesis
    by (simp add: demo_refers_def validate_upstream_refs_def)
qed

theorem accepted_provenance_is_dag_witness:
  "\<exists>v d. verify_provenance_dag_with_options demo_hash demo_ipa (\<lambda>i. Ok (hi_key i)) demo_refers demo_resolve
       default_dag_options = Ok v \<and> pd_accepted v \<and> pd_visited_nodes v = 2 \<and>
     demo_resolve demo_leaf_hash = Some d \<and> \<not> upstream demo_resolve d demo_leaf_hash"
proof -
  have ne: "demo_hash (''nucleusdb.pod.provenance.envelope.v1'' @ CHR 0x00 # ''root'') \<noteq> demo_leaf_hash" by code_simp
  have root: "provenance_hash demo_hash (\<lambda>i. Ok (hi_key i)) demo_refers =
      Ok (demo_hash (''nucleusdb.pod.provenance.envelope.v1'' @ CHR 0x00 # ''root''))"
    by (simp add: demo_refers_def provenance_hash_def hash_input_def)
  obtain v where v: "verify_provenance_dag_with_options demo_hash demo_ipa (\<lambda>i. Ok (hi_key i)) demo_refers demo_resolve
       default_dag_options = Ok v" "pd_accepted v" "pd_visited_nodes v = 2"
    using ne demo_refers_accepted
    by (simp add: verify_provenance_dag_with_options_def root)
       (simp add: demo_refers_def demo_resolve_def walk_provenance_ref.simps view_of_def canonical_upstream_refs_def
         default_dag_options_def Let_def)
  have "upstream demo_resolve demo_refers demo_leaf_hash"
    using upstream_root [of _ demo_refers demo_resolve] by (simp add: demo_refers_def)
  from accepted_provenance_is_dag [OF v(1,2) this] v show ?thesis by blast
qed
section \<open>Chunks, manifests and their exchange\<close>

lemma demo_ceil: "div_ceil (length ''abc'') (max (chunk_size_bytes \<lparr>chunk_size_bytes = 2\<rparr>) 1) < 2 ^ 32"
proof -
  have l: "length ''abc'' = 3" "max (chunk_size_bytes \<lparr>chunk_size_bytes = 2\<rparr>) 1 = 2" by simp_all
  show ?thesis unfolding l by (simp add: div_ceil_def)
qed

definition demo_chunks :: "Chunk list" where
  "demo_chunks = chunk_data demo_hash ''abc'' \<lparr>chunk_size_bytes = 2\<rparr>"

lemma demo_chunks_facts:
  "numbered demo_chunks" "demo_chunks \<noteq> []" "\<forall>c \<in> set demo_chunks. verify_chunk demo_hash c"
  "\<forall>c \<in> set demo_chunks. ck_size c \<le> 2" "map ck_data demo_chunks = [''ab'', ''c'']"
proof -
  show "numbered demo_chunks" "demo_chunks \<noteq> []" "\<forall>c \<in> set demo_chunks. verify_chunk demo_hash c"
    "\<forall>c \<in> set demo_chunks. ck_size c \<le> 2"
    using chunk_data_nonempty [of "''abc''" "\<lparr>chunk_size_bytes = 2\<rparr>" demo_hash, OF _ demo_ceil]
    by (simp_all add: demo_chunks_def numeral_2_eq_2)
  show "map ck_data demo_chunks = [''ab'', ''c'']"
    by (simp add: demo_chunks_def chunk_data_def chunk_new_def pieces.simps comp_def case_prod_unfold Let_def)
qed

definition demo_builder :: ManifestBuilder where
  "demo_builder = \<lparr>mb_asset_type = TextAsset, mb_creator_did = ''did:key:a'', mb_params = \<lparr>chunk_size_bytes = 2\<rparr>\<rparr>"

lemma demo_manifest_built:
  obtains m :: "(unit, unit) Manifest" where "build_manifest demo_hash 0 demo_builder demo_chunks = Ok m"
  using demo_chunks_facts(2,4) that
  by (auto simp: build_manifest_def demo_builder_def Let_def list_ex_iff not_less numeral_2_eq_2 not_le)

lemma demo_hash_inj: "inj_on demo_hash S" if "\<forall>x \<in> S. length x < 256" "inj_on length S"
proof (rule inj_onI)
  fix x y assume xy: "x \<in> S" "y \<in> S" "demo_hash x = demo_hash y"
  then have "of_char (char_of (length x) :: char) = (of_char (char_of (length y) :: char) :: nat)"
    by (simp add: demo_hash_def)
  then have "length x = length y" using xy that(1) by simp
  then show "x = y" using xy that(2) by (auto dest: inj_onD)
qed

text \<open>
  C26: However a runtime registers verified chunks, is given grants, requires them or not, maps peers to grantees and
  answers requests, whatever block it serves hashes to the identifier it is served under, and the peer that asked
  is permitted to read it: either the last grant store given is empty and grants are not required, or the peer was last
  mapped to a grantee with a grant in that store that is not revoked, has not expired, gives the right to read and
  whose pattern covers the key of the chunk.  Conversely, a peer that asks for a chunk the runtime holds gets it
  exactly when it is permitted.
\<close>

theorem swarm_serves_authentic_blocks:
  assumes "\<forall>cs. Register cs \<in> set ops \<longrightarrow> list_all (verify_chunk B) cs"
  shows "(handle_request B now (swarm_run B ops) peer msg = (rt', Block i d) \<longrightarrow>
      chunk_id_from_bytes B d = i \<and> permitted ops now peer i) \<and>
    (bt_get (local_chunks (swarm_run B ops)) i = Some c \<longrightarrow>
      (snd (handle_request B now (swarm_run B ops) peer (Block i [])) = Block i (ck_data c) \<longleftrightarrow> permitted ops now peer i) \<and>
      chunk_id_from_bytes B (ck_data c) = i)"
proof -
  note a = run_authentic [OF assms, unfolded authentic_def filed_def verify_chunk_def]
  have "chunk_id_from_bytes B d = i \<and> permitted ops now peer i"
    if h: "handle_request B now (swarm_run B ops) peer msg = (rt', Block i d)"
  proof -
    obtain c where "peer_can_read now (swarm_run B ops) peer i" "bt_get (local_chunks (swarm_run B ops)) i = Some c"
      "ck_data c = d"
      using answer_permitted(2) [OF h] by blast
    then show ?thesis using a unfolding can_read_iff_permitted by metis
  qed
  moreover have "(snd (handle_request B now (swarm_run B ops) peer (Block i [])) = Block i (ck_data c) \<longleftrightarrow>
      permitted ops now peer i) \<and> chunk_id_from_bytes B (ck_data c) = i"
    if "bt_get (local_chunks (swarm_run B ops)) i = Some c"
    using that a [rule_format, OF that] by (simp add: handle_request_def can_read_iff_permitted) metis
  ultimately show ?thesis by blast
qed

text \<open>A chunk that one peer uploaded, and a grant for another that expires at ten.\<close>

definition demo_grant :: AccessGrant where
  "demo_grant = \<lparr>grant_id = replicate 32 CHR ''g'', grantor_puf = ''owner'', grantee_puf = ''puf'', key_pattern = ''swarm/chunk/*'',
     permissions = read_only, expires_at = Some 10, created_at = 0, nonce = 0, revoked = False\<rparr>"

definition demo_swarm :: "swarm_op list" where
  "demo_swarm = [Register [chunk_new demo_hash 0 1 ''cd''], Request 0 ''p'' (Block (chunk_id_from_bytes demo_hash ''ab'') ''ab''),
     RequireGrants True, Grants (from_grants [demo_grant]), MapPeer ''q'' ''puf'']"

theorem swarm_serves_authentic_blocks_witness:
  "\<exists>rt' i d. handle_request demo_hash 1 (swarm_run demo_hash demo_swarm) ''q'' (Block (chunk_id_from_bytes demo_hash ''ab'') [])
       = (rt', Block i d) \<and> chunk_id_from_bytes demo_hash d = i \<and> permitted demo_swarm 1 ''q'' i \<and> d = ''ab'' \<and>
     snd (handle_request demo_hash 10 (swarm_run demo_hash demo_swarm) ''q'' (Block i [])) = Have [] \<and>
     snd (handle_request demo_hash 1 (swarm_run demo_hash demo_swarm) ''p'' (Block i [])) = Have []"
proof -
  let ?i = "chunk_id_from_bytes demo_hash ''ab''"
  have "snd (handle_request demo_hash 1 (swarm_run demo_hash demo_swarm) ''q'' (Block ?i [])) = Block ?i ''ab''" by code_simp
  then obtain rt' where h: "handle_request demo_hash 1 (swarm_run demo_hash demo_swarm) ''q'' (Block ?i [])
      = (rt', Block ?i ''ab'')" by (metis prod.collapse)
  have "\<forall>cs. Register cs \<in> set demo_swarm \<longrightarrow> list_all (verify_chunk demo_hash) cs"
    by (simp add: demo_swarm_def verify_chunk_def chunk_new_def)
  note ok = swarm_serves_authentic_blocks [OF this, THEN conjunct1, rule_format, OF h]
  have "snd (handle_request demo_hash 10 (swarm_run demo_hash demo_swarm) ''q'' (Block ?i [])) = Have []"
    "snd (handle_request demo_hash 1 (swarm_run demo_hash demo_swarm) ''p'' (Block ?i [])) = Have []" by code_simp+
  with h ok show ?thesis by blast
qed
section \<open>Payment channels\<close>

lemma saturating_sum:
  assumes "saturating_add x y = c"
  shows "unat c \<le> unat x + unat y \<and> (c \<noteq> - 1 \<longrightarrow> unat x + unat y = unat c)"
proof -
  have "unat c < 2 ^ 64" using unsigned_less [of c] by simp
  then have "unat c \<le> unat x + unat y" if "c = - 1"
    using assms that unat_word_ariths(1) [of x y] by (auto simp: saturating_add_def split: if_splits)
  then show ?thesis using saturating_add_exact [of x y] assms by fastforce
qed

lemma step_effect:
  assumes "channel_step op w = Some v'"
  shows "(case op of
       OpOpen _ _ cap \<Rightarrow> cv_capacity v' = cap \<and> cv_seq v' = 1 \<and> cv_status v' = ChannelOpen \<and> cv_b1 v' = cap \<and> cv_b2 v' = 0
     | OpUpdate _ _ b1 b2 \<Rightarrow> cv_b1 v' = b1 \<and> cv_b2 v' = b2 \<and> cv_status v' = ChannelOpen \<and>
         unat (cv_capacity v') \<le> unat b1 + unat b2 \<and> (cv_capacity v' \<noteq> - 1 \<longrightarrow> unat b1 + unat b2 = unat (cv_capacity v'))
     | OpClose _ _ \<Rightarrow> cv_status v' = ChannelClosed
     | OpSplice _ _ cap \<Rightarrow> cv_status v' = ChannelOpen \<and> unat (cv_b1 v') + unat (cv_b2 v') = unat cap) \<and>
    (\<forall>v. w = Some v \<longrightarrow> cv_capacity v' = cv_capacity v \<and> cv_seq v' = cv_seq v + 1 \<and>
       (\<forall>a b. op = OpClose a b \<longrightarrow> cv_b1 v' = cv_b1 v \<and> cv_b2 v' = cv_b2 v))"
proof (cases op)
  case (OpUpdate p1 p2 b1 b2)
  then obtain v where w: "w = Some v" using assms by (cases w) auto
  with assms OpUpdate have c: "saturating_add b1 b2 = cv_capacity v" "cv_status v = ChannelOpen"
    "v' = v\<lparr>cv_seq := cv_seq v + 1, cv_b1 := b1, cv_b2 := b2\<rparr>" by (auto split: if_splits)
  show ?thesis using saturating_sum [OF c(1)] c(2,3) w OpUpdate by simp
next
  case (OpSplice p1 p2 cap)
  then obtain v where w: "w = Some v" using assms by (cases w) auto
  show ?thesis using splice_conserved_iff(2) [of p1 p2 cap v v'] assms w OpSplice by auto
qed (use assms in \<open>cases w; auto\<close>)+

text \<open>
  C24: A settlement that commits is exactly the step of the abstract channel: an opening creates it with the whole
  capacity on the first side, an update sets the balances of an open channel, a closing keeps them and closes it,
  a splice redistributes; the sequence number goes up by one.  The balances of an update add up to the capacity,
  those of a splice to its new capacity (while the recorded one stays), except that at the capacity u64::MAX, where
  the addition of the check saturates, an update may exceed it.  Every other channel, when the names of all four
  participants contain no colon, is as before.  This holds on a database with a well-formed registry in which every registered key
  has its cell, for an opening that finds no sequence number and whose record hash is not zero, and for the other
  settlements on a channel that exists and whose sequence number is not the largest.
\<close>

theorem settlements_refine_channel:
  assumes "apply_op env secs now op db = Some (db', Ok ())" "keymap_inv (keymap db)" "covered db"
    "openable (env_sha256 env) secs op db" "op_channel op = channel_base p1 p2"
    "\<forall>v. channel_view db (channel_base p1 p2) = Some v \<longrightarrow> cv_seq v \<noteq> - 1"
    "(\<exists>p1 p2 cap. op = OpOpen p1 p2 cap) \<or> channel_view db (channel_base p1 p2) \<noteq> None"
  shows "\<exists>v'. channel_view db' (channel_base p1 p2) = Some v' \<and>
    channel_step op (channel_view db (channel_base p1 p2)) = Some v' \<and>
    (case op of
       OpOpen _ _ cap \<Rightarrow> cv_capacity v' = cap \<and> cv_seq v' = 1 \<and> cv_status v' = ChannelOpen \<and> cv_b1 v' = cap \<and> cv_b2 v' = 0
     | OpUpdate _ _ b1 b2 \<Rightarrow> cv_b1 v' = b1 \<and> cv_b2 v' = b2 \<and> cv_status v' = ChannelOpen \<and>
         unat (cv_capacity v') \<le> unat b1 + unat b2 \<and> (cv_capacity v' \<noteq> - 1 \<longrightarrow> unat b1 + unat b2 = unat (cv_capacity v'))
     | OpClose _ _ \<Rightarrow> cv_status v' = ChannelClosed
     | OpSplice _ _ cap \<Rightarrow> cv_status v' = ChannelOpen \<and> unat (cv_b1 v') + unat (cv_b2 v') = unat cap) \<and>
    (\<forall>v. channel_view db (channel_base p1 p2) = Some v \<longrightarrow> cv_capacity v' = cv_capacity v \<and> cv_seq v' = cv_seq v + 1 \<and>
       (\<forall>a b. op = OpClose a b \<longrightarrow> cv_b1 v' = cv_b1 v \<and> cv_b2 v' = cv_b2 v)) \<and>
    (CHR '':'' \<notin> set (p1 @ p2 @ q1 @ q2) \<longrightarrow> channel_base q1 q2 \<noteq> channel_base p1 p2 \<longrightarrow>
      channel_view db' (channel_base q1 q2) = channel_view db (channel_base q1 q2))"
proof -
  obtain v' where v': "channel_view db' (op_channel op) = Some v'"
    and step: "channel_step op (channel_view db (op_channel op)) = Some v'"
    using assms settled_refines(1) [OF assms(1-4)] by auto
  show ?thesis
    using other_channel_kept [OF assms(1-3,5)] v' step step_effect [OF step] assms(5) by (intro exI [of _ v']) auto
qed

text \<open>A database without cells, on which channels are opened.\<close>

definition chan_db :: NucleusDb where
  "chan_db = demo_db\<lparr>state := \<lparr>st_values = []\<rparr>\<rparr>"

lemma chan_db_simps [simp]:
  "state chan_db = \<lparr>st_values = []\<rparr>" "keymap chan_db = keymap_new" "entries chan_db = []" "ct_leaves chan_db = []"
  "demo_like chan_db" "demo_like (set_append_only chan_db)" "write_mode chan_db = Normal"
  using demo_db_simps(10) by (simp_all add: chan_db_def demo_like_def set_append_only_def)

lemma chan_db_start:
  "covered chan_db" "keymap_inv (keymap chan_db)" "latest_seq chan_db base = 0" "channel_view chan_db base = None"
  using keymap_inv_new
  by (simp_all add: covered_def all_keys_def latest_seq_def channel_view_def) (simp_all add: keymap_new_def)

text \<open>The keys alone decide what \<open>put_keys\<close> returns.\<close>

definition put_step :: "(nat \<times> u64) list \<times> KeyMap \<Rightarrow> string \<times> u64 \<Rightarrow> (nat \<times> u64) list \<times> KeyMap" where
  "put_step acc e = (case get_or_create (snd acc) (fst e) of (i, km) \<Rightarrow> (fst acc @ [(i, snd e)], km))"

lemma put_keys_map:
  "put_keys db es = (fst (foldl put_step ([], keymap db) es), db\<lparr>keymap := snd (foldl put_step ([], keymap db) es)\<rparr>)"
  by (induction es rule: rev_induct) (auto simp: put_keys_def put_key_def put_step_def Let_def split: prod.splits)

lemma chan_base: "channel_base ''a'' ''b'' = ''channel:a:b''"
  by code_simp

definition open_writes :: "u64 \<Rightarrow> (string \<times> u64) list" where
  "open_writes x =
     [(''channel:a:b'', x), (''channel:a:b:meta:capacity'', 100), (''channel:a:b:meta:created_at'', 9),
      (''channel:a:b:ops:1:kind'', 1), (''channel:a:b:state:1:status'', 1), (''channel:a:b:state:1:b1'', 100),
      (''channel:a:b:state:1:b2'', 0)]"

lemma show_one: "show_u64 1 = ''1''" "show_u64 2 = ''2''"
  by code_simp+

lemma chan_sentinel:
  "record_sentinel demo_hash \<lparr>participant1 = fst (canonical_pair ''a'' ''b''),
     participant2 = snd (canonical_pair ''a'' ''b''), capacity = 100, channel_status = ChannelOpen,
     channel_created_at = 9, last_seq = 1\<rparr> \<noteq> 0"
proof -
  have nz: "u64_from_le_bytes (take 8 (demo_hash (CHR ''n'' # s))) \<noteq> 0" for s
  proof -
    have t: "take 8 (demo_hash (CHR ''n'' # s)) = char_of (Suc (length s)) # CHR ''n'' # replicate 6 CHR ''n''"
      by (simp add: demo_hash_def eval_nat_numeral)
    then have "0 < le_value (take 8 (demo_hash (CHR ''n'' # s)))" by simp
    moreover have "le_value (take 8 (demo_hash (CHR ''n'' # s))) < 2 ^ 64"
      using le_value_less [of "take 8 (demo_hash (CHR ''n'' # s))"] by (simp add: demo_hash_def)
    ultimately have "\<not> 2 ^ 64 dvd le_value (take 8 (demo_hash (CHR ''n'' # s)))"
      by (auto dest!: dvd_imp_le)
    then show ?thesis by (simp add: u64_from_le_bytes_def word_of_nat_eq_0_iff)
  qed
  show ?thesis unfolding record_sentinel_def by (simp add: nz)
qed

lemma chan_open_writes:
  "\<exists>x. op_writes demo_hash 9 db (OpOpen ''a'' ''b'' 100) = open_writes x \<and> x \<noteq> 0"
  by (rule exI, rule conjI [OF _ chan_sentinel])
    (simp add: open_writes_def chan_base op_key_def state_key_def show_one)

lemma open_puts:
  "fst (foldl put_step ([], keymap_new) (open_writes x)) =
     [(0, x), (1, 100), (2, 9), (3, 1), (4, 1), (5, 100), (6, 0)]"
  "next_index (snd (foldl put_step ([], keymap_new) (open_writes x))) = 7"
  by code_simp+

lemma demo_settles:
  assumes "put_keys db es = (ws, db1)" "demo_like db" "length (ct_leaves db) = length (entries db)" "length ws < 10"
    "length (st_values (apply_delta (state db) \<lparr>writes = ws\<rparr>)) < 100"
    "verify_monotone_extension (state db) (keymap db1) (apply_delta (state db) \<lparr>writes = ws\<rparr>) (keymap db1)"
  obtains db2 e where "apply_writes demo_env now db1 ws = Some (db2, Ok ())"
    "commit demo_env now db1 \<lparr>writes = ws\<rparr> [] = Some (db2, Ok e)" "demo_like db2"
    "length (ct_leaves db2) = length (entries db2)" "keymap db2 = keymap db1"
    "state db2 = apply_delta (state db) \<lparr>writes = ws\<rparr>"
proof -
  obtain km where db1: "db1 = db\<lparr>keymap := km\<rparr>" using assms(1) by (auto simp: put_keys_map)
  obtain db2 e where c: "commit demo_env now db1 \<lparr>writes = ws\<rparr> [] = Some (db2, Ok e)"
  proof (rule demo_commit [of db1 "\<lparr>writes = ws\<rparr>"])
    show "demo_like db1" using assms(2) by (simp add: db1 demo_like_def)
  qed (use assms(3-6) in \<open>simp_all add: db1\<close>)
  have "demo_like db2" "keymap db2 = keymap db1"
    using assms(2) commit_frame [OF c] by (auto simp: same_config_def demo_like_def db1)
  with c show ?thesis
    using that commit_ok(1,2,3) [OF c] assms(3) by (auto simp: apply_writes_def db1)
qed

text \<open>The channel between \<open>a\<close> and \<open>b\<close>, opened with all its capacity on the side of \<open>a\<close>.\<close>

lemma demo_open:
  obtains db where "apply_op demo_env 9 1 (OpOpen ''a'' ''b'' 100) chan_db = Some (db, Ok ())"
    "demo_like db" "length (ct_leaves db) = length (entries db)"
    "\<exists>x. keymap db = snd (foldl put_step ([], keymap_new) (open_writes x)) \<and> st_values (state db) = [x, 100, 9, 1, 1, 100, 0]"
proof -
  obtain x where x: "op_writes demo_hash 9 chan_db (OpOpen ''a'' ''b'' 100) = open_writes x" using chan_open_writes by blast
  let ?km = "snd (foldl put_step ([], keymap_new) (open_writes x))"
  let ?ws = "fst (foldl put_step ([], keymap_new) (open_writes x))"
  have p: "put_keys (set_append_only chan_db) (open_writes x) = (?ws, (set_append_only chan_db)\<lparr>keymap := ?km\<rparr>)"
    by (simp add: put_keys_map set_append_only_def)
  let ?st = "apply_delta (state (set_append_only chan_db)) \<lparr>writes = ?ws\<rparr>"
  have st: "st_values ?st = [x, 100, 9, 1, 1, 100, 0]"
    by (simp add: open_puts apply_delta_def apply_write_def set_append_only_def)
  have ext: "verify_monotone_extension (state (set_append_only chan_db)) km ?st km" for km
    by (simp add: set_append_only_def verify_monotone_extension_def verify_raw_monotone_extension_def cell_def list_all_iff)
  obtain db e where d: "apply_writes demo_env 1 ((set_append_only chan_db)\<lparr>keymap := ?km\<rparr>) ?ws = Some (db, Ok ())"
    "demo_like db" "length (ct_leaves db) = length (entries db)" "keymap db = ?km"
    "state db = apply_delta (state (set_append_only chan_db)) \<lparr>writes = ?ws\<rparr>"
  proof (rule demo_settles [OF p chan_db_simps(6), of 1])
    show "length (ct_leaves (set_append_only chan_db)) = length (entries (set_append_only chan_db))"
      by (simp add: set_append_only_def)
    show "length ?ws < 10" by (simp add: open_puts(1))
    show "length (st_values ?st) < 100" unfolding st by simp
    show "verify_monotone_extension (state (set_append_only chan_db)) (keymap ((set_append_only chan_db)\<lparr>keymap := ?km\<rparr>))
        ?st (keymap ((set_append_only chan_db)\<lparr>keymap := ?km\<rparr>))" by (rule ext)
  qed simp
  have "apply_op demo_env 9 1 (OpOpen ''a'' ''b'' 100) chan_db = Some (db, Ok ())"
    using d(1) p x by (simp add: apply_op_def exists_channel_def value_at_def keymap_get_def keymap_new_def
        unwrap_or_def Let_def bt_get_def)
  then show ?thesis using that d(2-5) st by metis
qed

lemma chan_openable: "openable demo_hash 9 (OpOpen ''a'' ''b'' 100) chan_db"
  using chan_sentinel by (simp add: openable_def chan_db_start)

text \<open>The view, the invariants and the sizes of the opened database.\<close>

lemma demo_opened:
  assumes "apply_op demo_env 9 1 (OpOpen ''a'' ''b'' 100) chan_db = Some (db, Ok ())"
  shows "channel_view db (channel_base ''a'' ''b'') =
      Some \<lparr>cv_capacity = 100, cv_seq = 1, cv_status = ChannelOpen, cv_b1 = 100, cv_b2 = 0\<rparr>"
    "keymap_inv (keymap db)" "covered db"
  using settled_refines [OF assms] chan_db_start chan_openable by auto

lemma ab_order: "''a'' \<le> ''b''" "canonical_pair ''b'' ''a'' = (''a'', ''b'')" "channel_base ''b'' ''a'' = channel_base ''a'' ''b''"
  by code_simp+

lemma update_puts:
  "fst (foldl put_step ([], snd (foldl put_step ([], keymap_new) (open_writes x)))
     [(''channel:a:b:ops:2:kind'', 4), (''channel:a:b:state:2:status'', 1), (''channel:a:b:state:2:b1'', 94),
      (''channel:a:b:state:2:b2'', 6)]) = [(7, 4), (8, 1), (9, 94), (10, 6)]"
  by code_simp

text \<open>The opened channel after an update that moves six to the other side.\<close>

lemma demo_update:
  obtains db db' where "apply_op demo_env 9 1 (OpOpen ''a'' ''b'' 100) chan_db = Some (db, Ok ())"
    "apply_op demo_env 9 2 (OpUpdate ''a'' ''b'' 94 6) db = Some (db', Ok ())"
proof -
  obtain db x where o: "apply_op demo_env 9 1 (OpOpen ''a'' ''b'' 100) chan_db = Some (db, Ok ())" "demo_like db"
      "length (ct_leaves db) = length (entries db)"
    and k: "keymap db = snd (foldl put_step ([], keymap_new) (open_writes x))"
      "st_values (state db) = [x, 100, 9, 1, 1, 100, 0]"
    by (rule demo_open) metis
  note v = demo_opened [OF o(1)]
  have seq: "latest_seq db (channel_base ''a'' ''b'') = 1"
    using v(1) by (auto simp: channel_view_def split: if_splits option.splits)
  let ?op = "OpUpdate ''a'' ''b'' 94 6"
  obtain ws db1 where p: "put_keys db (op_writes demo_hash 9 db ?op) = (ws, db1)" by fastforce
  have ws: "ws = [(7, 4), (8, 1), (9, 94), (10, 6)]"
    using p update_puts [of x] by (simp add: put_keys_map k seq op_key_def state_key_def chan_base show_one seq [unfolded chan_base] Let_def)
  have st: "st_values (apply_delta (state db) \<lparr>writes = ws\<rparr>) = [x, 100, 9, 1, 1, 100, 0, 4, 1, 94, 6]"
    by (simp add: ws apply_delta_def k apply_write_def)
  have sum: "saturating_add 94 6 = 100" by (simp add: saturating_add_def)
  have w: "apply_op demo_env 9 2 ?op db = apply_writes demo_env 2 db1 ws"
    using sum by (intro update_writes [OF v(1) _ _ p]) simp_all
  obtain db' where d: "apply_writes demo_env 2 db1 ws = Some (db', Ok ())"
  proof (rule demo_settles [OF p o(2,3), of 2])
    show "length (st_values (apply_delta (state db) \<lparr>writes = ws\<rparr>)) < 100" unfolding st by simp
    show "verify_monotone_extension (state db) (keymap db1) (apply_delta (state db) \<lparr>writes = ws\<rparr>) (keymap db1)"
      using put_keys_spec(2) [OF p v(2)]
      by (simp add: monotone_extension_same_keymap keymap_inv_def verify_raw_monotone_extension_def k(2) cell_def st)
  qed (simp_all add: ws)
  show ?thesis by (rule that [OF o(1)]) (simp add: w d)
qed

theorem settlements_refine_channel_witness:
  "\<exists>db db'. apply_op demo_env 9 1 (OpOpen ''a'' ''b'' 100) chan_db = Some (db, Ok ()) \<and>
     channel_view db (channel_base ''a'' ''b'') =
       Some \<lparr>cv_capacity = 100, cv_seq = 1, cv_status = ChannelOpen, cv_b1 = 100, cv_b2 = 0\<rparr> \<and>
     apply_op demo_env 9 2 (OpUpdate ''a'' ''b'' 94 6) db = Some (db', Ok ()) \<and>
     channel_view db' (channel_base ''a'' ''b'') =
       Some \<lparr>cv_capacity = 100, cv_seq = 2, cv_status = ChannelOpen, cv_b1 = 94, cv_b2 = 6\<rparr>"
proof -
  obtain db db' where o: "apply_op demo_env 9 1 (OpOpen ''a'' ''b'' 100) chan_db = Some (db, Ok ())"
    and u: "apply_op demo_env 9 2 (OpUpdate ''a'' ''b'' 94 6) db = Some (db', Ok ())" by (rule demo_update)
  note v = demo_opened [OF o]
  have "channel_view db (channel_base ''a'' ''b'') =
      Some \<lparr>cv_capacity = 100, cv_seq = 1, cv_status = ChannelOpen, cv_b1 = 100, cv_b2 = 0\<rparr>"
    using settlements_refine_channel [OF o, of "''a''" "''b''" "''c''" "''d''"] chan_db_start chan_openable by auto
  moreover have "channel_view db' (channel_base ''a'' ''b'') =
      Some \<lparr>cv_capacity = 100, cv_seq = 2, cv_status = ChannelOpen, cv_b1 = 94, cv_b2 = 6\<rparr>"
    using settlements_refine_channel [OF u v(2,3), of "''a''" "''b''" "''c''" "''d''"] v(1)
    by (auto simp: openable_def split: if_splits)
  ultimately show ?thesis using o u by blast
qed

text \<open>
  A settlement whose commit fails and leaves the values alone has still registered the keys of
  the next sequence number: the channel now reads as open, whatever it was before, with
  nothing on either side.
\<close>

lemma failed_settlement_empties_channel:
  assumes "apply_op env secs now op db = Some (db', Err (PcnCommit e))" "state db' = state db"
    "keymap_inv (keymap db)" "covered db" "length (st_values (state db)) \<le> next_index (keymap db)"
    "channel_view db (op_channel op) = Some v" "cv_seq v \<noteq> - 1"
  shows "channel_view db' (op_channel op) =
    Some \<lparr>cv_capacity = cv_capacity v, cv_seq = cv_seq v + 1, cv_status = ChannelOpen, cv_b1 = 0, cv_b2 = 0\<rparr>"
  using failed_settlement [OF assms] by simp

text \<open>The opened database with a threshold no set of witnesses can meet.\<close>

lemma view_witness_cfg [simp]: "channel_view (db\<lparr>witness_cfg := c\<rparr>) base = channel_view db base"
  by (rule channel_view_cong) (simp add: value_at_def has_key_def split: option.splits)

text \<open>
  Settling a chunk transfer over a balanced channel takes exactly its cost from the side of the
  leecher and gives it to the seeder, and the channel stays balanced.
\<close>

lemma chunk_transfer_pays:
  assumes "settle_chunk_transfer env secs now db seeder leecher n price = Some (db', Ok ())"
    "keymap_inv (keymap db)" "covered db" "channel_view db (channel_base seeder leecher) = Some v"
    "conserved v" "cv_seq v \<noteq> - 1"
  shows "\<exists>v'. channel_view db' (channel_base seeder leecher) = Some v' \<and> conserved v' \<and>
    cv_seq v' = cv_seq v + 1 \<and> cv_capacity v' = cv_capacity v \<and>
    (if leecher \<le> seeder
     then unat (cv_b1 v) = unat (cv_b1 v') + unat (saturating_mul n price) \<and>
          unat (cv_b2 v') = unat (cv_b2 v) + unat (saturating_mul n price)
     else unat (cv_b2 v) = unat (cv_b2 v') + unat (saturating_mul n price) \<and>
          unat (cv_b1 v') = unat (cv_b1 v) + unat (saturating_mul n price))"
  using transfer_pays [OF assms] by metis

section \<open>The identity ledger\<close>

text \<open>
  C21: The ledger check, a loop over a cursor of four fields, accepts exactly the ledgers that
  meet the specification without a loop: every entry has version 1, the sequence number of
  its position, the hash of the entry before it, a hash of its own fields (in the current or
  the legacy form) and, if it carries a signature, a valid one; a genesis entry is signed
  unless it is a legacy one and the operator allows it, a completed genesis has its anchor;
  and no entry at or after a signed completed genesis is signed by another key.
\<close>

theorem ledger_check_meets_specification:
  "verify_chain env vars ws es = Ok () \<longleftrightarrow>
     (let wid = ok_flatten (wallet_key_identity ws) in
      (\<forall>i < length es.
         le_seq (es ! i) = seq_at i \<and> le_prev_hash (es ! i) = last_hash (take i es) \<and>
         le_version (es ! i) = 1 \<and>
         (compute_entry_hash env (es ! i) = le_entry_hash (es ! i) \<or> legacy_entry env (es ! i)) \<and>
         (\<forall>sig. le_signature (es ! i) = Some sig \<longrightarrow>
            (\<exists>pk. verify_signature_ref env vars (es ! i) sig wid = Ok pk)) \<and>
         (le_kind (es ! i) = GenesisEntropyHarvested \<and> le_signature (es ! i) = None \<longrightarrow>
            legacy_entry env (es ! i) \<and> \<not> strict_genesis_signature_enforcement vars) \<and>
         (is_completed_genesis (es ! i) \<longrightarrow> check_anchor (es ! i) (legacy_entry env (es ! i)) = Ok ())) \<and>
      (\<forall>i j a b. i \<le> j \<and> j < length es \<and> is_completed_genesis (es ! i) \<and>
         signer_of env vars wid (es ! i) = Some a \<and> signer_of env vars wid (es ! j) = Some b \<longrightarrow>
         eq_ignore_ascii_case b a))"
  unfolding verify_chain_iff chain_spec_def entry_sound_def one_signer_def Let_def by blast

theorem ledger_check_meets_specification_witness:
  "verify_chain ledger_demo no_vars no_wallets [] = Ok ()"
  unfolding ledger_check_meets_specification Let_def by simp

text \<open>
  C22: An append that reports success adds exactly one entry at the end, keeps every earlier
  entry, fills in the next sequence number, the hash of the last entry, SHA-512 as the
  hash algorithm, its own hash and the signature of that hash (none if the wallet cannot sign), leaves every
  other field as it was given, the entropy hash and the version included, and leaves a ledger that the
  check accepts.
\<close>

theorem ledger_append_keeps_chain:
  assumes "append_entry_with_key env vars ws now entry key es = (es', Ok e)"
  shows "es' = es @ [e] \<and> verify_chain env vars ws es' = Ok () \<and>
    le_seq e = seq_at (length es) \<and> le_prev_hash e = last_hash es \<and>
    le_hash_algorithm e = Some ''sha512'' \<and> le_entry_hash e = compute_entry_hash env e \<and>
    le_kind e = le_kind entry \<and> le_status e = le_status entry \<and> le_payload e = le_payload entry \<and>
    le_timestamp e = le_timestamp entry \<and> le_provider e = le_provider entry \<and>
    le_token_ref e = le_token_ref entry \<and> le_expires_at e = le_expires_at entry \<and>
    le_genesis_entropy e = le_genesis_entropy entry \<and> le_version e = le_version entry \<and>
    le_signature e = try_sign_entry_hash_with_key env now ws key (le_entry_hash e)"
proof -
  note ok = append_Ok [OF assms]
  have "le_seq e = seq_at (length es)"
    using ok(2) chain_spec_next_seq ok(4) [unfolded verify_chain_iff] by simp
  moreover have "le_hash_algorithm e = Some ''sha512''"
    using ok(2) by (simp add: signed_entry_def linked_entry_def Let_def)
  moreover have "le_signature e = try_sign_entry_hash_with_key env now ws key (le_entry_hash e)"
    using ok(2) by (simp add: signed_entry_def Let_def)
  ultimately show ?thesis using ok signed_entry_hash [of env now ws key es entry] by simp
qed

lemma demo_append:
  obtains w e where
    "append_entry ledger_demo no_vars (no_wallets\<lparr>wallet_v1 := Some (Ok w)\<rparr>) 7
      (new_entry 7 ProfileUpdated ''updated'' JNull) [] = ([e], Ok e)"
    "le_signature e \<noteq> None"
proof -
  obtain w where w: "keygen_pq ledger_demo 5 (replicate 32 CHR ''z'') False no_wallets =
    (no_wallets\<lparr>wallet_v1 := Some (Ok w)\<rparr>, Ok w)" by (rule demo_keygen)
  let ?ws = "no_wallets\<lparr>wallet_v1 := Some (Ok w)\<rparr>" and ?entry = "new_entry 7 ProfileUpdated ''updated'' JNull"
  have k: "wallet_v1 ?ws = Some (Ok w)" "wallet_of_seed ledger_demo w (replicate 32 CHR ''z'')"
    "\<exists>enc. pw_encrypted_seed w = Some enc \<and> seed_seal ledger_demo (replicate 32 CHR ''z'') = Ok enc"
    using keygen_wallet [OF w] by simp_all
  then have kp: "keypair_from_wallet ledger_demo w = Ok (replicate 32 CHR ''z'')"
    using keypair_of_keygen ledger_demo_laws(1) by blast
  have e: "le_version ?entry = LEDGER_VERSION" "\<not> is_completed_genesis ?entry"
    by (simp_all add: new_entry_def is_completed_genesis_def)
  note go = append_goes_through [OF ledger_demo_laws(1) k(1) kp k(2) ledger_demo_laws(3) empty_chain,
      where vars = no_vars and entry = ?entry and now = 7 and key = None]
  have "append_entry_with_key ledger_demo no_vars ?ws 7 ?entry None [] =
      ([] @ [signed_entry ledger_demo 7 ?ws None [] ?entry], Ok (signed_entry ledger_demo 7 ?ws None [] ?entry))"
    by (rule go(1)) (use e in simp_all)
  moreover have "\<exists>sig. le_signature (signed_entry ledger_demo 7 ?ws None [] ?entry) = Some sig \<and>
      lsr_public_key_hex sig = Some (pw_public_key_hex w)"
    by (rule go(2)) (use e in simp_all)
  ultimately show ?thesis
    using that [of w "signed_entry ledger_demo 7 ?ws None [] ?entry"] by (auto simp: append_entry_def)
qed

theorem ledger_append_keeps_chain_witness:
  "\<exists>w e. append_entry ledger_demo no_vars (no_wallets\<lparr>wallet_v1 := Some (Ok w)\<rparr>) 7
      (new_entry 7 ProfileUpdated ''updated'' JNull) [] = ([e], Ok e) \<and>
     le_seq e = 1 \<and> le_prev_hash e = None \<and>
     verify_chain ledger_demo no_vars (no_wallets\<lparr>wallet_v1 := Some (Ok w)\<rparr>) [e] = Ok ()"
proof -
  obtain w e where e: "append_entry ledger_demo no_vars (no_wallets\<lparr>wallet_v1 := Some (Ok w)\<rparr>) 7
      (new_entry 7 ProfileUpdated ''updated'' JNull) [] = ([e], Ok e)" by (rule demo_append)
  from ledger_append_keeps_chain [OF this [unfolded append_entry_def]] e show ?thesis
    by (auto simp: seq_at_def last_hash_def)
qed

text \<open>
  A wallet made by key generation can always append: the entry is signed with the wallet's
  key and the extended ledger is accepted, for every entry of version 1 and every accepted
  ledger whose signed completed genesis entries carry this key; a completed genesis entry
  needs its anchor in both places.
\<close>

lemma ledger_append_goes_through:
  assumes "pq_scheme env" "length seed = 32" "keygen_pq env t seed force ws = (ws', Ok w)"
    and "verify_chain env vars ws' es = Ok ()"
    and "\<forall>a. pinned_of env vars (Some (pw_key_id w, pw_public_key_hex w)) es = Some a \<longrightarrow>
      eq_ignore_ascii_case (pw_public_key_hex w) a"
    and "le_version entry = 1" "is_completed_genesis entry \<longrightarrow> anchored entry"
  shows "\<exists>e sig. append_entry_with_key env vars ws' now entry key es = (es @ [e], Ok e) \<and>
    le_signature e = Some sig \<and> lsr_public_key_hex sig = Some (hex_encode (pq_public env seed)) \<and>
    verify_chain env vars ws' (es @ [e]) = Ok ()"
proof -
  note k = keygen_wallet [OF assms(3,2)]
  obtain enc where "pw_encrypted_seed w = Some enc" "seed_seal env seed = Ok enc" using k(4) by blast
  then have kp: "keypair_from_wallet env w = Ok seed" using keypair_of_keygen assms(1) k(2) by blast
  note go = append_goes_through [OF assms(1) k(1) kp k(2,3) assms(4)]
  from go(1) assms(5-7)
  have a: "append_entry_with_key env vars ws' now entry key es =
      (es @ [signed_entry env now ws' key es entry], Ok (signed_entry env now ws' key es entry))" by blast
  moreover from go(2) assms(5-7) obtain sig where "le_signature (signed_entry env now ws' key es entry) = Some sig"
    "lsr_public_key_hex sig = Some (pw_public_key_hex w)" by blast
  ultimately show ?thesis using append_Ok(3) [OF a] k(2) by (auto simp: wallet_of_seed_def)
qed

text \<open>
  Two accepted ledgers with the same head hash have the same history: as many entries, and
  position by position the same hashed text, hash, sequence number, timestamp, kind and link.
  The two may have been checked under different settings and wallets; the hashes of the
  entries of the two ledgers are taken to be free of collisions.
\<close>

lemma ledger_head_fixes_history:
  assumes "digest_lengths env" "verify_chain env vars ws es = Ok ()" "verify_chain env vars' ws' fs = Ok ()"
    and "latest_head_hash env vars ws es = latest_head_hash env vars' ws' fs"
    and "\<forall>e \<in> set es. \<forall>f \<in> set fs. le_entry_hash e = le_entry_hash f \<longrightarrow> hashed_text env e = hashed_text env f"
  shows "length es = length fs \<and> (\<forall>i < length es.
    hashed_text env (es ! i) = hashed_text env (fs ! i) \<and> le_entry_hash (es ! i) = le_entry_hash (fs ! i) \<and>
    le_seq (es ! i) = le_seq (fs ! i) \<and> le_timestamp (es ! i) = le_timestamp (fs ! i) \<and>
    le_kind (es ! i) = le_kind (fs ! i) \<and> le_prev_hash (es ! i) = le_prev_hash (fs ! i))"
proof -
  from assms(2-4) have "last_hash es = last_hash fs" by (simp add: latest_head_hash_def last_hash_def)
  with assms have "same_history env es fs"
    by (intro head_commits [OF assms(2) [unfolded verify_chain_iff] assms(3) [unfolded verify_chain_iff]]) simp_all
  then show ?thesis by (simp add: same_history_def list_all2_conv_all_nth)
qed

lemma demo_unsigned:
  "append_entry ledger_demo no_vars no_wallets 7 (new_entry 7 ProfileUpdated ''updated'' JNull) [] =
    ([signed_entry ledger_demo 7 no_wallets None [] (new_entry 7 ProfileUpdated ''updated'' JNull)],
     Ok (signed_entry ledger_demo 7 no_wallets None [] (new_entry 7 ProfileUpdated ''updated'' JNull)))"
proof -
  let ?entry = "new_entry 7 ProfileUpdated ''updated'' JNull"
  let ?e = "signed_entry ledger_demo 7 no_wallets None [] ?entry"
  have sig: "le_signature ?e = None"
    by (simp add: signed_entry_def Let_def try_sign_entry_hash_with_key_def has_wallet_def no_wallets_def)
  have entry: "le_version ?entry = 1" "le_kind ?entry = ProfileUpdated" by (simp_all add: new_entry_def)
  then have "entry_sound ledger_demo no_vars wid ?e" for wid
    by (simp add: entry_sound_def sig is_completed_genesis_def signed_entry_hash)
  moreover have "signer_of ledger_demo no_vars wid ?e = None" for wid
    by (simp add: signer_of_def entry_signer_def sig)
  ultimately have "chain_spec ledger_demo no_vars wid ([] @ [?e])" for wid
    unfolding chain_spec_snoc by (simp add: seq_at_def chain_spec_def one_signer_def)
  then have ok: "verify_chain ledger_demo no_vars no_wallets [?e] = Ok ()" by (simp add: verify_chain_iff)
  show ?thesis
    using ok sig entry
    by (simp add: append_entry_def append_entry_with_key_def signed_entry_def linked_entry_def last_hash_def Let_def)
qed

text \<open>
  An entry that the check refuses after it was written stays in the file, and from then on
  every append is refused, whatever the entry, and the file no longer changes: the entry is
  written before the extended ledger is verified, and nothing takes it back.
\<close>

lemma refused_entry_blocks_ledger:
  assumes "append_entry_with_key env vars ws now entry key es = (es', Err err)" "es' \<noteq> es"
  shows "es' = es @ [signed_entry env now ws key es entry] \<and>
    append_entry_with_key env vars ws now' entry' key' es' = (es', Err err)"
proof -
  have "es' = es @ [signed_entry env now ws key es entry]" "verify_chain env vars ws es' = Err err"
    using append_cases [of env vars ws now entry key es] assms by auto
  then show ?thesis using append_refused by blast
qed

lemma demo_refused:
  "append_entry_with_key ledger_demo no_vars no_wallets 7
     ((new_entry 7 ProfileUpdated ''updated'' JNull)\<lparr>le_version := 2\<rparr>) None [] =
   ([signed_entry ledger_demo 7 no_wallets None [] ((new_entry 7 ProfileUpdated ''updated'' JNull)\<lparr>le_version := 2\<rparr>)],
    Err (VersionMismatch 1))"
proof -
  let ?entry = "(new_entry 7 ProfileUpdated ''updated'' JNull)\<lparr>le_version := 2\<rparr>"
  have "le_version (signed_entry ledger_demo 7 no_wallets None [] ?entry) \<noteq> 1" by simp
  then have "verify_chain ledger_demo no_vars no_wallets [signed_entry ledger_demo 7 no_wallets None [] ?entry] =
      Err (VersionMismatch 1)"
    by (simp add: verify_chain_def chain_step_def chain_start_def)
  then show ?thesis
    by (simp add: append_entry_with_key_def signed_entry_def linked_entry_def last_hash_def Let_def new_entry_def)
qed

text \<open>
  The status the ledger is projected to has one row for each provider that some entry names,
  in the order of their names; a provider is active exactly when the last connect or revoke
  entry about it is a connect that has not expired, only then is its token shown, and the
  sequence number is that of the last entry about it.
\<close>

lemma projection_reads_last_token:
  "let rows = lp_providers (project_ledger_status env vars ws now es) in
   sorted_wrt (<) (map sp_provider rows) \<and>
   set (map sp_provider rows) = {p. \<exists>e \<in> set es. le_provider e = Some p} \<and>
   (\<forall>sp \<in> set rows.
      sp_active sp = (case find (token_event (sp_provider sp)) (rev es) of None \<Rightarrow> False | Some e \<Rightarrow> live_token now e) \<and>
      sp_active_token_ref sp =
        (case find (token_event (sp_provider sp)) (rev es) of
           None \<Rightarrow> None | Some e \<Rightarrow> if live_token now e then le_token_ref e else None) \<and>
      sp_most_recent_seq sp =
        map_option le_seq (find (\<lambda>e. le_provider e = Some (sp_provider sp)) (rev es)))"
proof -
  let ?m = "fold (project_step now) es []"
  have p: "(p, sp) \<in> set ?m \<Longrightarrow> projects now p es sp" for p sp
    using project_fold(3) bt_get_iff_mem [OF project_fold(1)] by blast
  then have k: "map sp_provider (map snd ?m) = bt_keys ?m"
    by (force simp: bt_keys_def projects_def)
  have "sorted_wrt (<) (map sp_provider (map snd ?m))"
    "set (map sp_provider (map snd ?m)) = {p. \<exists>e \<in> set es. le_provider e = Some p}"
    unfolding k using bt_sorted_keys [OF project_fold(1)] project_fold(2) [of now es] by simp_all
  moreover have "\<forall>sp \<in> set (map snd ?m). projects now (sp_provider sp) es sp"
    using p by (fastforce simp: projects_def)
  ultimately show ?thesis
    by (simp only: project_ledger_status_def Let_def projects_def LedgerProjection.simps simp_thms)
qed

section \<open>Orchestrator, containers and governors\<close>

text \<open>
  C27: However calls to the orchestrator interleave, the pipes between agents form no cycle and
  every pipe starts at a known task; and a pipe between named ends is refused exactly when it
  would close a cycle.
\<close>

theorem pipes_stay_acyclic:
  assumes "orch_reachable rd wr (orch, calls)"
  shows "acyclic (agent_rel (or_graph orch)) \<and> sources_known (or_graph orch) \<and>
    (\<forall>e n. trim (te_source e) \<noteq> [] \<and> trim (te_target e) \<noteq> [] \<and>
       bt_get (tg_nodes (or_graph orch)) (te_source e) = Some n \<longrightarrow>
       add_edge e (or_graph orch) =
         (if acyclic (insert (tn_agent_id n, te_target e) (agent_rel (or_graph orch)))
          then Ok ((or_graph orch)\<lparr>tg_edges := tg_edges (or_graph orch) @ [e]\<rparr>) else Err EdgeCycle))"
proof -
  have ok: "graph_ok (or_graph orch)" using orch_reachable_keeps [OF assms] by (simp add: graph_made_ok)
  then show ?thesis using add_edge_iff [OF ok] agent_rel_add by (auto simp: graph_ok_def)
qed

text \<open>A task of agent a, then a pipe from it to agent b.\<close>

definition demo_task :: Task where
  "demo_task = mark_running 1 (task_new ''t'' ''a'' ''work'')"

definition demo_pipe :: PipeRequest where
  "demo_pipe = \<lparr>pr_source = ''t'', pr_target = ''b'', pr_transform = None, pr_prefix = None\<rparr>"

definition demo_orch :: Orchestrator where
  "demo_orch = note_task demo_task (store_task demo_task orch_empty)"

definition demo_edge :: TaskEdge where
  "demo_edge = \<lparr>te_source = ''t'', te_target = ''b'', te_transform = PipeIdentity, te_generated = None\<rparr>"

lemma demo_orch_simps:
  "or_tasks demo_orch = [(''t'', demo_task)]" "tg_edges (or_graph demo_orch) = []"
  "bt_get (tg_nodes (or_graph demo_orch)) ''t'' =
     Some \<lparr>tn_task_id = ''t'', tn_agent_id = ''a'', tn_status = TaskRunning, tn_depends_on = []\<rparr>"
  "tk_id demo_task = ''t''" "tk_agent demo_task = ''a''" "tk_status demo_task = TaskRunning"
  by (simp_all add: demo_orch_def demo_task_def note_task_def store_task_def orch_empty_def graph_default_def
      upsert_node_def mark_running_def task_new_def bt_get_def unwrap_or_def Let_def)

lemma trim_short: "trim ''t'' = ''t''" "trim ''b'' = ''b''" "trim ''identity'' = ''identity''"
  by (rule trim_visible, simp)+

lemma demo_identity: "parse_transform None None = Ok PipeIdentity"
  by (simp add: parse_transform_def unwrap_or_def trim_short Let_def)

lemma demo_orch_reachable: "orch_reachable rd wr (demo_orch, [[]])"
proof -
  have "orch_step rd wr (orch_empty, []) (orch_empty, [] @ [[Create ''a'' ''work'']])"
    by (rule call_new) simp
  moreover have "orch_step rd wr (orch_empty, [[Create ''a'' ''work'']])
      (store_task demo_task orch_empty, [[Create ''a'' ''work'']] [0 := [Note demo_task] @ []])"
    by (rule call_step [where j = "Create ''a'' ''work''" and js = "[]" and i = "''t''" and now = 1 and o_new = StartRefused])
      (simp_all add: orch_empty_def graph_default_def demo_task_def do_job.simps Let_def)
  moreover have "orch_step rd wr (store_task demo_task orch_empty, [[Note demo_task]])
      (demo_orch, [[Note demo_task]] [0 := [] @ []])"
    by (rule call_step [where j = "Note demo_task" and js = "[]" and i = "''u''" and now = 1 and o_new = StartRefused])
      (simp_all add: orch_empty_def graph_default_def demo_orch_def store_task_def demo_task_def mark_running_def task_new_def bt_get_def do_job.simps)
  ultimately show ?thesis unfolding orch_reachable_def by (auto intro: converse_rtranclp_into_rtranclp)
qed

theorem pipes_stay_acyclic_witness:
  "add_edge demo_edge (or_graph demo_orch) = Ok ((or_graph demo_orch)\<lparr>tg_edges := [demo_edge]\<rparr>) \<and>
   add_edge (demo_edge\<lparr>te_target := ''a''\<rparr>) (or_graph demo_orch) = Err EdgeCycle"
proof -
  note p = pipes_stay_acyclic [OF demo_orch_reachable [of "\<lambda>s. None" "\<lambda>v. []"]]
  have r: "agent_rel (or_graph demo_orch) = {}" by (simp add: agent_rel_def demo_orch_simps)
  have ends: "trim (te_source demo_edge) \<noteq> []" "trim (te_target demo_edge) \<noteq> []" "te_source demo_edge = ''t''"
    "te_target demo_edge = ''b''" by (simp_all add: demo_edge_def trim_short)
  have a: "trim ''a'' \<noteq> []" using trim_visible [of "''a''"] by simp
  have "acyclic {(''a'', ''b'')}" by (simp add: acyclic_insert wf_acyclic)
  with p ends r have "add_edge demo_edge (or_graph demo_orch) = Ok ((or_graph demo_orch)\<lparr>tg_edges := [demo_edge]\<rparr>)"
    by (auto simp: demo_orch_simps)
  moreover have "\<not> acyclic {(''a'', ''a'')}" by (auto simp: acyclic_def)
  with p ends r a have "add_edge (demo_edge\<lparr>te_target := ''a''\<rparr>) (or_graph demo_orch) = Err EdgeCycle"
    by (auto simp: demo_orch_simps)
  ultimately show ?thesis ..
qed

text \<open>
  A pipe from a task that is still running can be lost or run twice: the same two calls, the
  pipe and the run that completes the task, can end with the task complete, the pipe in the
  graph and no task for its target, and they can end with two tasks for its target.  The
  pipe reads the task before it adds the edge, and the run stores the task before it reads
  the edges.
\<close>

lemma pipe_races_with_completion:
  assumes "pipe_pending req tr t orch"
  shows "(\<exists>orch'. (orch_step rd wr)\<^sup>*\<^sup>* (orch, [[Pipe req], [Run (pr_source req) (Ended 0 out fa a u ts)]]) (orch', [[], []]) \<and>
      agent_tasks (pr_target req) orch' = {} \<and>
      (\<exists>t'. bt_get (or_tasks orch') (pr_source req) = Some t' \<and> tk_status t' = TaskComplete) \<and>
      outgoing_for (pr_source req) (or_graph orch') \<noteq> []) \<and>
    (\<exists>orch' i j. (orch_step rd wr)\<^sup>*\<^sup>* (orch, [[Pipe req], [Run (pr_source req) (Ended 0 out fa a u ts)]]) (orch', [[], []]) \<and>
      agent_tasks (pr_target req) orch' = {i, j} \<and> i \<noteq> j)"
  using pipe_lost [OF assms] pipe_twice [OF assms] by blast

text \<open>
  C28: However initialisations, deinitialisations and restarts of the server follow one another,
  with any of their steps failing, reading and saving the lock file included, an active hookup holds the lock of the container for the
  agent and the trace session it runs, and the history recorded in the lock walks round the life
  cycle from empty to the present state.  A release of such a container, whatever fails in it, leaves no hookup;
  if it reports success the lock is empty, and it does report success when no access to the lock file and to the
  trace database fails.
\<close>

theorem active_hookup_holds_lock:
  assumes "container_reachable c" "ct_active c = Some rt"
  shows "\<exists>lock kind agent since.
      ct_file c = Some lock \<and> lk_state lock = LockLocked kind agent since (hr_trace rt) \<and> hr_agent rt = Some agent \<and>
      life_cycle ''empty'' (lk_history lock) (state_label (lk_state lock)) \<and>
      (\<forall>now io cid c' res. container_deinitialize now io cid c = (c', res) \<longrightarrow>
         ct_active c' = None \<and>
         (\<forall>policy. res = Ok policy \<longrightarrow> (\<exists>lock'. ct_file c' = Some lock' \<and> lk_state lock' = LockEmpty)) \<and>
         (io_fine io \<longrightarrow> (\<exists>policy. res = Ok policy)))"
proof -
  note holds = reachable_holds [OF assms(1)]
  from holds assms(2) obtain lock kind agent since where
    "ct_file c = Some lock" "lk_state lock = LockLocked kind agent since (hr_trace rt)" "hr_agent rt = Some agent" "lock_ok lock"
    by (auto simp: holds_lock_def)
  moreover have "ct_active c' = None \<and>
      (\<forall>policy. res = Ok policy \<longrightarrow> (\<exists>lock'. ct_file c' = Some lock' \<and> lk_state lock' = LockEmpty)) \<and>
      (io_fine io \<longrightarrow> (\<exists>policy. res = Ok policy))"
    if "container_deinitialize now io cid c = (c', res)" for now io cid c' res
    using deinitialize_step [OF holds assms(2) that] deinitialize_goes_through [OF _ assms, of io now cid] that by force
  ultimately show ?thesis by (auto simp: lock_ok_def)
qed

definition quiet_io :: hookup_io where
  "quiet_io = \<lparr>io_build = None, io_load = None, io_launch = None, io_session = None, io_save = None, io_event = None, io_end = None,
     io_save_released = None, io_reload = None\<rparr>"

definition hooked :: container where
  "hooked = fst (container_initialize 5 quiet_io ''box'' ''s'' ''a'' \<lparr>ir_kind = HookCli ''sh'', ir_reuse = None\<rparr> container_new)"

lemma hooked_reachable: "container_reachable hooked"
  unfolding container_reachable_def hooked_def by (intro r_into_rtranclp step_initialize)

lemma hooked_simps:
  "map_option hr_agent (ct_active hooked) = Some (Some ''a'')"
  "map_option lk_state (ct_file hooked) = Some (LockLocked (HookCli ''sh'') ''a'' 5 (Some ''s''))"
  by (simp_all add: hooked_def container_initialize_def quiet_io_def container_new_def load_lock_def save_lock_def load_or_create_def lock_new_def
      can_initialize_def activate_def runtime_default_def initialize_def push_transition_def attach_trace_session_def
      unwrap_or_def Let_def)

text \<open>Released, the container is empty; when the last save fails the release reports it, and the hookup is gone all the same.\<close>

theorem active_hookup_holds_lock_witness:
  "(\<exists>c' policy lock. container_deinitialize 9 quiet_io ''box'' hooked = (c', Ok policy) \<and>
     ct_active c' = None \<and> ct_file c' = Some lock \<and> lk_state lock = LockEmpty) \<and>
   (\<exists>c' e. container_deinitialize 9 (quiet_io\<lparr>io_save_released := Some ''disk full''\<rparr>) ''box'' hooked = (c', Err e) \<and>
     ct_active c' = None \<and> map_option (\<lambda>l. state_label (lk_state l)) (ct_file c') = Some ''deinitializing'')"
proof -
  obtain rt where rt: "ct_active hooked = Some rt" using hooked_simps(1) by auto
  note a = active_hookup_holds_lock [OF hooked_reachable rt]
  obtain c' res where d: "container_deinitialize 9 quiet_io ''box'' hooked = (c', res)" by fastforce
  have "io_fine quiet_io" by (simp add: io_fine_def quiet_io_def)
  with a d obtain policy lock where ok: "ct_active c' = None" "res = Ok policy" "ct_file c' = Some lock" "lk_state lock = LockEmpty"
    by blast
  obtain lock where l: "ct_file hooked = Some lock" "lk_state lock = LockLocked (HookCli ''sh'') ''a'' 5 (Some ''s'')"
    using hooked_simps(2) by auto
  obtain c2 e where f: "container_deinitialize 9 (quiet_io\<lparr>io_save_released := Some ''disk full''\<rparr>) ''box'' hooked = (c2, Err e)"
    "map_option (\<lambda>l. state_label (lk_state l)) (ct_file c2) = Some ''deinitializing''"
    using rt l by (simp add: container_deinitialize_def deactivate_def load_lock_def save_lock_def load_or_create_def
        begin_deinitialize_def complete_deinitialize_def push_transition_def quiet_io_def)
  then have "ct_active c2 = None" using a by blast
  with d ok f show ?thesis by blast
qed

text \<open>
  A lock that is not empty while the server has no hookup is never released: every
  initialisation and every deinitialisation is refused, whatever the calls, the container stays as it is
  through every later sequence of calls and restarts, and such a container is what a restart makes
  of one in use.
\<close>

lemma orphaned_lock_is_final:
  assumes "ct_active c = None" "ct_file c = Some lock" "lk_state lock \<noteq> LockEmpty"
  shows "(\<forall>now io cid sid agent req. isl (snd (container_initialize now io cid sid agent req c))) \<and>
    (\<forall>now io cid. isl (snd (container_deinitialize now io cid c))) \<and>
    (\<forall>c'. container_step\<^sup>*\<^sup>* c c' \<longrightarrow> c' = c)"
proof -
  have o: "orphaned c" using assms by (simp add: orphaned_def)
  have "isl (snd (container_initialize now io cid sid agent req c))" for now io cid sid agent req
    using orphaned_initialize [OF o, of now io cid sid agent req] by auto
  then show ?thesis using orphaned_deinitialize [OF o] orphaned_forever o by auto
qed

text \<open>
  C29: Whatever is registered with validated gains, observed and reset, every governor of the registry keeps its threshold
  within the interval of its configuration, and the recent values it reports are at most
  sixty and all in that interval; no signal, infinite or not a number, changes that.
\<close>

theorem registry_governors_bounded:
  assumes "registry_run reg" "bt_get reg i = Some e"
  shows "instance_id (config (ge_state e)) = i \<and>
    f64_le (eps_min (config (ge_state e))) (epsilon (ge_state e)) \<and>
    f64_le (epsilon (ge_state e)) (eps_max (config (ge_state e))) \<and>
    length (gt_sparkline (ge_telemetry e)) \<le> 60 \<and>
    (\<forall>x \<in> set (gt_sparkline (ge_telemetry e)).
       f64_le (eps_min (config (ge_state e))) x \<and> f64_le x (eps_max (config (ge_state e))))"
  using registry_run_ok [OF assms(1)] assms(2) by (auto simp: registry_ok_def entry_ok_def in_range_def)

lemma register_registers:
  "bt_get (case registry_register cfg reg of Inl _ \<Rightarrow> reg | Inr reg' \<Rightarrow> reg') (instance_id cfg) \<noteq> None"
  by (simp add: registry_register_def bt_contains_def del: bt_contains_iff)

lemma default_has_pty: "bt_get build_default_registry ''gov-pty'' \<noteq> None"
proof -
  have "instance_id (default_config ''gov-pty'' lo hi t basis) = ''gov-pty''" for lo hi t basis
    by (simp only: default_config_def GovernorConfig.select_convs)
  then show ?thesis
    unfolding build_default_registry_def default_configs_def foldl.simps by (metis register_registers)
qed

theorem registry_governors_bounded_witness:
  "\<exists>reg ob e. registry_observe 7 ''gov-pty'' 0x7ff8000000000000 build_default_registry = Ok (reg, ob) \<and>
     bt_get reg ''gov-pty'' = Some e \<and> f64_le (epsilon (ge_state e)) (eps_max (config (ge_state e))) \<and>
     length (gt_sparkline (ge_telemetry e)) \<le> 60"
proof -
  obtain e0 where "bt_get build_default_registry ''gov-pty'' = Some e0"
    using default_has_pty by blast
  then obtain reg ob e where o: "registry_observe 7 ''gov-pty'' 0x7ff8000000000000 build_default_registry = Ok (reg, ob)"
    and e: "bt_get reg ''gov-pty'' = Some e"
    by (auto simp: registry_observe_def Let_def)
  from registry_governors_bounded [OF run_observe [OF run_default o] e] o e show ?thesis by blast
qed

text \<open>
  A launch in block mode is admitted exactly when the governors of compute and of terminals,
  as far as they are registered, have valid gains and are not oscillating, and the
  topology, as far as it is known, has not changed.
\<close>

lemma admission_block_iff:
  "ar_allowed (evaluate_launch_admission AdmitBlock registry topology) \<longleftrightarrow>
     (\<forall>reg i e. registry = Some reg \<and> i \<in> {''gov-compute'', ''gov-pty''} \<and> bt_get reg i = Some e \<longrightarrow>
        \<not> isl (validate_params (ge_state e)) \<and> \<not> gt_oscillating (ge_telemetry e)) \<and>
     (\<forall>t. topology = Some t \<longrightarrow> \<not> dt_structural_change t \<and> \<not> dt_hash_changed t)"
  by (rule block_mode_iff)

definition changed_binary :: DeployTopologyStatus where
  "changed_binary = \<lparr>dt_cli_path = ''/bin/a'', dt_sha256 = ''00'', dt_signature = fingerprint ''abc'' 3, dt_previous = None,
     dt_comparison = None, dt_hash_changed = True, dt_structural_change = False, dt_stored_key = ''topo:00'', dt_warning = None\<rparr>"

text \<open>
  The comparison of binaries never flags a structural change: the number of loops found in a
  binary is at most its length less three, so two fingerprints never differ by more than their
  combined bound, and whatever sequence of inspections filled the database, the
  status of the next one reports no structural change and the launch decision gets no blocking
  issue from it.
\<close>

lemma structural_change_never_flagged:
  assumes "inspected sha256_hex db"
    "inspect_binary_topology sha256_hex now failure agent path content db = (db', Ok status)"
  shows "\<not> dt_structural_change status \<and>
    \<not> list_ex (\<lambda>i. ai_severity i = SeverityBlock) (topology_issues (Some status)) \<and>
    cr_within_formal_bound (compare (fingerprint a t) (fingerprint b u)) \<and> betti_error_bound_check a t proxy"
  using inspection_never_flags [OF assms] compare_within bound_check_holds by (simp add: topology_issues_def)

lemma persist_unhindered: "\<exists>m'. persist_topology_records None k1 k2 rec m = Ok m'"
  by (simp add: persist_topology_records_def Let_def)

lemma inspection_reports_change:
  "\<exists>db' status. inspect_binary_topology h now None agent path (Ok bytes) db = (db', Ok status) \<and>
     dt_hash_changed status = fst (compare_with_previous (h bytes) (fingerprint bytes 3)
       (case db of None \<Rightarrow> None | Some m \<Rightarrow> bt_get m (latest_key agent)))"
proof (cases db)
  case (Some m)
  obtain m' where "persist_topology_records None (''topo:'' @ h bytes) (latest_key agent)
      \<lparr>st_agent = agent, st_cli_path = path, st_sha256 = h bytes, st_signature = fingerprint bytes 3, st_observed_at = now\<rparr> m = Ok m'"
    using persist_unhindered by blast
  with Some show ?thesis by (simp add: inspect_binary_topology_def Let_def split_beta)
qed (simp add: inspect_binary_topology_def Let_def split_beta)

text \<open>
  C30: Every call of the orchestrator ends.  From any reachable system there is no endless sequence of jobs,
  prunings in between or not, as long as no new call arrives, although a run creates and runs
  further tasks; and the jobs left can always be done, until every call has ended.
\<close>

theorem orchestrator_calls_end:
  assumes "orch_reachable rd wr sys"
  shows "\<not> (\<exists>f. f 0 = sys \<and> (\<forall>n. work_step rd wr (f n) (f (Suc n)))) \<and>
    (\<exists>orch'. (job_step rd wr)\<^sup>*\<^sup>* sys (orch', map (\<lambda>_. []) (snd sys)))"
  using no_endless_work [where rd = rd and wr = wr] calls_come_to_end [OF orch_reachable_ok [OF assms], of rd wr]
    orch_reachable_ok [OF assms] by blast

theorem orchestrator_calls_end_witness:
  "\<exists>orch'. (job_step (\<lambda>s. None) (\<lambda>v. []))\<^sup>*\<^sup>* (demo_orch, [[], [Pipe demo_pipe]]) (orch', [[], []])"
proof -
  have "orch_step (\<lambda>s. None) (\<lambda>v. []) (demo_orch, [[]]) (demo_orch, [[]] @ [[Pipe demo_pipe]])" by (rule call_new) simp
  with demo_orch_reachable [of "\<lambda>s. None" "\<lambda>v. []"]
  have r: "orch_reachable (\<lambda>s. None) (\<lambda>v. []) (demo_orch, [[], [Pipe demo_pipe]])" by (simp add: orch_reachable_def)
  from orchestrator_calls_end [OF r] show ?thesis by simp
qed

section \<open>Work records\<close>




definition demo_record :: WorkRecord where
  "demo_record = \<lparr>wr_hash = [], wr_parents = [], wr_author = ''au'', wr_timestamp = 7, wr_op = FileCreate ''f'' ''ch'', wr_proof = None\<rparr>"




text \<open>
  C32: Two parties that hold the same work records, in whatever order, materialise the same files,
  unless hashes collide: each path is what the last record that touches it makes of it, and an
  export that succeeds brings every path of the worktree to that state and leaves every other
  file alone.
\<close>

theorem materialized_state_converges:
  assumes "mset xs = mset ys" "ops_determined xs"
  shows "materialize_state xs = materialize_state ys \<and>
    bt_get (materialize_state xs) p =
      (case find (\<lambda>op. p \<in> set (op_paths op)) (rev (map wr_op (sort_key record_key xs))) of
         None \<Rightarrow> None | Some op \<Rightarrow> op_effect op p) \<and>
    (bt_wf tree \<and> export_state_to_worktree io ys tree = (tree', Ok stats) \<longrightarrow>
      bt_get tree' p = (case bt_get (materialize_state xs) p of
        None \<Rightarrow> bt_get tree p | Some None \<Rightarrow> None | Some (Some h) \<Rightarrow> Some (file_body p h)))"
  using materialize_converges [OF assms] materialize_get [of xs p] export_get [of io ys tree tree' stats p] by metis

definition made_f :: WorkRecord where
  "made_f = demo_record\<lparr>wr_hash := ''1''\<rparr>"

definition moved_f :: WorkRecord where
  "moved_f = demo_record\<lparr>wr_hash := ''2'', wr_timestamp := 8, wr_op := FileRename ''f'' ''g'' ''ch''\<rparr>"

theorem materialized_state_converges_witness:
  "materialize_state [moved_f, made_f] = materialize_state [made_f, moved_f] \<and>
   bt_get (materialize_state [moved_f, made_f]) ''f'' = Some None \<and>
   bt_get (fst (export_state_to_worktree (\<lambda>_. None) [made_f, moved_f] [(''f'', ''old'')])) ''f'' = None"
proof -
  have d: "ops_determined [moved_f, made_f]" by (auto simp: ops_determined_def moved_f_def made_f_def demo_record_def)
  have m: "mset [moved_f, made_f] = mset [made_f, moved_f]" by simp
  have s: "sort_key record_key [moved_f, made_f] = [made_f, moved_f]"
    "sort_key record_key [made_f, moved_f] = [made_f, moved_f]"
    by (simp_all add: moved_f_def made_f_def demo_record_def)
  have op: "wr_op moved_f = FileRename ''f'' ''g'' ''ch''" by (simp add: moved_f_def)
  let ?t = "[(''f'', ''old'')]"
  obtain tree' stats where e: "export_state_to_worktree (\<lambda>_. None) [made_f, moved_f] ?t = (tree', Ok stats)"
    using export_loop_total [of "materialize_state [made_f, moved_f]" ?t] by (simp add: export_state_to_worktree_def) blast
  note w = materialized_state_converges [OF m d, of "''f''" ?t "\<lambda>_. None" tree' stats]
  have g: "bt_get (materialize_state [moved_f, made_f]) ''f'' = Some None"
    using w [THEN conjunct2, THEN conjunct1] unfolding s by (simp add: op op_effect_def)
  have "bt_wf ?t" by (simp add: bt_wf_def)
  with w g e show ?thesis by simp
qed

text \<open>
  C33: The analysis reports a conflict on a path exactly when two records of the same second with
  different hashes touch it.
\<close>

theorem conflicts_reported_iff:
  "(\<exists>c \<in> set (ms_conflicts (analyze_records recs)). pc_path c = p) \<longleftrightarrow>
   (\<exists>r \<in> set recs. \<exists>r' \<in> set recs. p \<in> set (op_paths (wr_op r)) \<and> p \<in> set (op_paths (wr_op r')) \<and>
      wr_timestamp r = wr_timestamp r' \<and> wr_hash r \<noteq> wr_hash r')"
  using conflicts_iff [of p recs] unfolding clash_def by blast

text \<open>
  The status of git is trimmed line by line before its columns are read: a file that is modified and not
  staged, a line that starts with a blank, is recorded under its path without the first letter,
  with the hash of whatever has that name.
\<close>

lemma unstaged_change_loses_letter:
  assumes "\<forall>x \<in> set (c # d # p). code x \<in> {33..126}"
  shows "\<exists>r. work_records_from_workspace H canon read (Ok ('' M '' @ (c # d # p) @ [CHR 0x0A])) author ts = Some (Ok [r]) \<and>
    wr_op r = FileModify (d # p) (replicate 32 (CHR 0x00)) (hash_file_or_path H read (d # p)) None"
  using unstaged_change [OF assms] .

section \<open>Metered services\<close>


definition demo_store :: CustomerKeyStore where
  "demo_store = fst (api_admin_create_key True True ''8'' ''24'' 7 ''Ann'' (Some f64_one) (open_store None))"

definition demo_customer :: CustomerKey where
  "demo_customer =
     \<lparr>ck_key_id = key_id_of ''8'', ck_api_key = api_key_of ''24'', ck_label = ''Ann'', ck_active = True, ck_balance = f64_one,
      ck_spent = 0, ck_requests = 0, ck_input = 0, ck_output = 0, ck_created = 7, ck_last_used = None, ck_daily = Map.empty\<rparr>"

lemma demo_store_reachable: "reachable_store demo_store"
proof -
  have "key_step (open_store None) demo_store"
    unfolding demo_store_def by (rule step_create) (simp_all add: open_store_def get_key_def unwrap_or_def)
  then show ?thesis by (rule r_into_rtranclp)
qed

lemma demo_store_get: "get_key demo_store = [key_id_of ''8'' \<mapsto> demo_customer]"
proof -
  have "trim ''Ann'' = ''Ann''" by (rule trim_visible) simp
  moreover have "f64_max f64_one 0 = f64_one" by (simp add: f64_max_def f64_lt_def is_nan_def f64_mag_def f64_inf_mag_def f64_key_def f64_neg_def)
  ultimately show ?thesis
    by (simp add: demo_store_def demo_customer_def api_admin_create_key_def create_key_def open_store_def get_key_def unwrap_or_def persist_def
        Let_def fun_eq_iff)
qed

lemma demo_store_validates: "validate_key demo_store (api_key_of ''24'') = Some demo_customer"
  using validate_key_wf [of demo_store "api_key_of ''24''" demo_customer] reachable_store_ok [OF demo_store_reachable] demo_store_get
  by (simp add: store_ok_def demo_customer_def)



text \<open>
  C35: A metered request that is refused leaves the store as it was.  One that is answered had an active key and
  charges this key alone: the balance falls by the price of the tokens that the answer reports, with
  the markup, and the counters grow by the same tokens.
\<close>

theorem metered_call_effect:
  assumes "reachable_store st"
    "metered_proxy_sync lm up fixed6 json_f64 disk now customer_key req pricing markup_pct st = (st', Some res)"
  shows "case res of Inl e \<Rightarrow> st' = st
    | Inr r \<Rightarrow> \<exists>k route body. validate_key st customer_key = Some k \<and> ck_active k \<and>
        resolve_backend_for_request lm (cr_model req) = Ok route \<and> call_resolved_backend up route req = Ok body \<and>
        (mr_input r, mr_output r) = extract_usage body \<and>
        (mr_upstream_cost r, mr_customer_cost r) = route_cost route (mr_input r) (mr_output r) pricing markup_pct \<and>
        mr_remaining r = f64_sub (ck_balance k) (mr_customer_cost r) \<and>
        get_key st' = (get_key st)(ck_key_id k \<mapsto> charged now (mr_input r) (mr_output r) (mr_customer_cost r) k)"
proof -
  have "store_wf (ks_data st)" using reachable_store_ok [OF assms(1)] by (simp add: store_ok_def)
  from metered_proxy_cases [OF this assms(2)] show ?thesis .
qed

definition no_local :: local_models where
  "no_local = \<lparr>lm_installed = \<lambda>_. False, lm_resolve = \<lambda>_. Err []\<rparr>"

definition demo_upstream :: upstream where
  "demo_upstream =
     \<lparr>up_vault = Some (Some ''sk''), up_post = \<lambda>_ _ _ _. Reply (JObject [(''id'', JString ''g'')]), up_stream = \<lambda>_ _ _ _. Reply []\<rparr>"

definition demo_request :: "string \<Rightarrow> ChatCompletionRequest" where
  "demo_request m = \<lparr>cr_model = m, cr_messages = [JString ''hello''], cr_max_tokens = Some 10, cr_stream = None\<rparr>"

theorem metered_call_effect_witness:
  "metered_proxy_sync no_local demo_upstream (\<lambda>_. []) (\<lambda>_. JNull) True 8 ''unknown'' (demo_request ''gpt-4o'') default_pricing 0 demo_store =
     (demo_store, Some (Err ''invalid API key''))"
proof -
  have "validate_key demo_store ''unknown'' = None"
    by (simp add: demo_store_def api_admin_create_key_def create_key_def open_store_def unwrap_or_def persist_def
        validate_key_def api_key_of_def Let_def)
  then obtain st' where call: "metered_proxy_sync no_local demo_upstream (\<lambda>_. []) (\<lambda>_. JNull) True 8 ''unknown'' (demo_request ''gpt-4o'')
      default_pricing 0 demo_store = (st', Some (Err ''invalid API key''))"
    by (simp add: metered_proxy_sync_def)
  from metered_call_effect [OF demo_store_reachable call] call show ?thesis by simp
qed

text \<open>
  C36: A model without a price is free: a request for it is served to every active key, whatever its balance, and
  leaves the balance as it was.  With the default prices this is so for eleven of the
  seventeen models of the catalogue.
\<close>

theorem unpriced_models_are_free:
  assumes "reachable_store st" "validate_key st customer_key = Some k" "ck_active k" "\<not> is_nan (ck_balance k)"
    "resolve_backend_for_request lm (cr_model req) = Ok (OpenRouter m)" "pricing (strip_provider_prefix m) = None"
    "\<not> is_nan markup_pct \<and> \<not> is_inf markup_pct" "call_resolved_backend up (OpenRouter m) req = Ok (JObject body)"
  shows "(\<exists>st' r. metered_proxy_sync lm up fixed6 json_f64 disk now customer_key req pricing markup_pct st = (st', Some (Ok r)) \<and>
      mr_customer_cost r = 0 \<and> get_balance st' (ck_key_id k) = ck_balance k) \<and>
    map fst (filter (\<lambda>(_, _, or_id). default_pricing (strip_provider_prefix or_id) = None) OPENROUTER_MODELS) =
      [''claude-haiku-4-5-20251001'', ''gpt-4o'', ''gpt-4o-mini'', ''meta-llama/llama-4-maverick'', ''meta-llama/llama-4-scout'',
       ''mistralai/mistral-large'', ''mistralai/mistral-medium'', ''deepseek/deepseek-r1'', ''deepseek/deepseek-chat'',
       ''cohere/command-r-plus'', ''perplexity/sonar-pro'']"
proof -
  have "store_wf (ks_data st)" using reachable_store_ok [OF assms(1)] by (simp add: store_ok_def)
  note metered_proxy_unpriced [where pricing = pricing, OF this assms(2-8)]
  moreover have "map fst (filter (\<lambda>(_, _, or_id). default_pricing (strip_provider_prefix or_id) = None) OPENROUTER_MODELS) =
      [''claude-haiku-4-5-20251001'', ''gpt-4o'', ''gpt-4o-mini'', ''meta-llama/llama-4-maverick'', ''meta-llama/llama-4-scout'',
       ''mistralai/mistral-large'', ''mistralai/mistral-medium'', ''deepseek/deepseek-r1'', ''deepseek/deepseek-chat'',
       ''cohere/command-r-plus'', ''perplexity/sonar-pro'']"
    by (simp add: OPENROUTER_MODELS_def default_pricing_def strip_provider_prefix_def)
  ultimately show ?thesis by blast
qed

lemma demo_route: "resolve_backend_for_request no_local ''gpt-4o'' = Ok (OpenRouter ''openai/gpt-4o'')"
proof -
  have "trim ''gpt-4o'' = ''gpt-4o''" by (rule trim_visible) simp
  then show ?thesis
    by (simp add: resolve_backend_for_request_def looks_like_openrouter_cloud_model_def starts_with_def
        openrouter_model_name_def OPENROUTER_MODELS_def)
qed

theorem unpriced_models_are_free_witness:
  "\<exists>st' r. metered_proxy_sync no_local demo_upstream (\<lambda>_. []) (\<lambda>_. JNull) True 8 (api_key_of ''24'') (demo_request ''gpt-4o'')
      default_pricing 0 demo_store = (st', Some (Ok r)) \<and> mr_customer_cost r = 0 \<and> get_balance st' (key_id_of ''8'') = f64_one"
proof -
  have "ck_active demo_customer" "\<not> is_nan (ck_balance demo_customer)" "ck_balance demo_customer = f64_one" "ck_key_id demo_customer = key_id_of ''8''"
    by (simp_all add: demo_customer_def is_nan_def f64_mag_def f64_inf_mag_def)
  moreover have "resolve_backend_for_request no_local (cr_model (demo_request ''gpt-4o'')) = Ok (OpenRouter ''openai/gpt-4o'')"
    using demo_route by (simp add: demo_request_def)
  moreover have "default_pricing (strip_provider_prefix ''openai/gpt-4o'') = None"
    by (simp add: default_pricing_def strip_provider_prefix_def)
  moreover have "\<not> is_nan (0 :: f64) \<and> \<not> is_inf (0 :: f64)" by simp
  moreover have "call_resolved_backend demo_upstream (OpenRouter ''openai/gpt-4o'') (demo_request ''gpt-4o'') = Ok (JObject [(''id'', JString ''g'')])"
    by (simp add: demo_upstream_def call_openai_compatible_def bt_get_def)
  ultimately show ?thesis
    using unpriced_models_are_free [OF demo_store_reachable demo_store_validates, of no_local "demo_request ''gpt-4o''" "''openai/gpt-4o''"
        default_pricing 0 demo_upstream "[(''id'', JString ''g'')]" "\<lambda>_. []" "\<lambda>_. JNull" True 8] by simp
qed

text \<open>
  C37: A stream that no service answers, because none is configured, it cannot be reached or it replies with an error,
  ends in an error and is charged all the same: the customer, who is active and can pay the estimate, pays
  for the estimated input tokens, and they are counted as used.  The same request without streaming, when no service
  answers it either, is refused and leaves the store as it was.
\<close>

theorem failed_stream_is_charged:
  assumes "reachable_store st" "validate_key st customer_key = Some k" "ck_active k"
    "resolve_backend_for_request lm (cr_model req) = Ok route" "no_stream_answer up route req"
    "\<not> f64_lt (ck_balance k)
       (snd (route_cost route (estimate_request_input_tokens show_json req) (estimated_output req) pricing markup_pct))"
    "i = estimate_request_input_tokens show_json req" "cost = snd (route_cost route i 0 pricing markup_pct)"
  shows "(\<exists>st' e r. metered_proxy_stream_sync lm up show_json parse fixed6 on_data disk now customer_key req pricing markup_pct (st, s) =
      ((st', s), Err (e, r)) \<and> ms_input r = i \<and> ms_customer_cost r = cost \<and>
      get_key st' = (get_key st)(ck_key_id k \<mapsto> charged now i 0 cost k) \<and>
      get_balance st' (ck_key_id k) = f64_sub (ck_balance k) cost) \<and>
    (no_answer up route req \<longrightarrow>
      (\<exists>e. metered_proxy_sync lm up fixed6 json_f64 disk now customer_key req pricing markup_pct st = (st, Some (Err e))))"
proof -
  have wf: "store_wf (ks_data st)" using reachable_store_ok [OF assms(1)] by (simp add: store_ok_def)
  note metered_stream_failed [OF wf assms(2-8), of parse fixed6 on_data disk now s]
  moreover have "ck_balance (charged now i 0 cost k) = f64_sub (ck_balance k) cost" by (simp add: charged_def Let_def)
  moreover have "\<exists>e. metered_proxy_sync lm up fixed6 json_f64 disk now customer_key req pricing markup_pct st = (st, Some (Err e))"
    if "no_answer up route req"
    using assms(2-4) no_answer_fails [OF that] by (auto simp: metered_proxy_sync_def Let_def)
  ultimately show ?thesis by (fastforce simp: get_balance_def)
qed

lemma o3_route: "resolve_backend_for_request no_local ''o3'' = Ok (OpenRouter ''openai/o3'')"
  by code_simp

text \<open>Two input tokens of a model with a price, and no service configured: the balance of one dollar falls.\<close>

theorem failed_stream_is_charged_witness:
  "\<exists>st' e r e'. metered_proxy_stream_sync no_local (demo_upstream\<lparr>up_vault := None\<rparr>) (\<lambda>_. []) (\<lambda>_. None) (\<lambda>_. []) (\<lambda>s _. (s, Ok ())) True 8
      (api_key_of ''24'') (demo_request ''o3'') default_pricing 0 (demo_store, ()) = ((st', ()), Err (e, r)) \<and>
    ms_input r = 2 \<and> f64_lt 0 (ms_customer_cost r) \<and> f64_lt (get_balance st' (key_id_of ''8'')) f64_one \<and>
    metered_proxy_sync no_local (demo_upstream\<lparr>up_vault := None\<rparr>) (\<lambda>_. []) (\<lambda>_. JNull) True 8
      (api_key_of ''24'') (demo_request ''o3'') default_pricing 0 demo_store = (demo_store, Some (Err e'))"
proof -
  let ?req = "demo_request ''o3''" and ?up = "demo_upstream\<lparr>up_vault := None\<rparr>" and ?route = "OpenRouter ''openai/o3''"
  define cost where "cost = snd (route_cost ?route 2 0 default_pricing 0)"
  have cost: "f64_lt 0 cost" "f64_lt (f64_sub f64_one cost) f64_one" unfolding cost_def by code_simp+
  have i: "estimate_request_input_tokens (\<lambda>_. []) ?req = 2"
    by (simp add: estimate_request_input_tokens_def demo_request_def message_tokens_def estimate_text_tokens_def)
  have k: "ck_active demo_customer" "ck_balance demo_customer = f64_one" "ck_key_id demo_customer = key_id_of ''8''"
    by (simp_all add: demo_customer_def)
  have route: "resolve_backend_for_request no_local (cr_model ?req) = Ok ?route"
    using o3_route by (simp add: demo_request_def)
  have none: "no_stream_answer ?up ?route ?req" "no_answer ?up ?route ?req" by (simp_all add: demo_upstream_def)
  have out: "estimated_output ?req = 10" by (simp add: estimated_output_def demo_request_def unwrap_or_def)
  have "\<not> f64_lt f64_one (snd (route_cost ?route 2 10 default_pricing 0))" by code_simp
  then have pays: "\<not> f64_lt (ck_balance demo_customer)
      (snd (route_cost ?route (estimate_request_input_tokens (\<lambda>_. []) ?req) (estimated_output ?req) default_pricing 0))"
    unfolding i out k .
  note failed_stream_is_charged [OF demo_store_reachable demo_store_validates k(1) route none(1) pays i [symmetric] cost_def,
      of "\<lambda>_. None" "\<lambda>_. []" "\<lambda>s _. (s, Ok ())" True 8 "()" "\<lambda>_. JNull"]
  with none(2) cost show ?thesis unfolding k by (metis (no_types, lifting))
qed

text \<open>
  C38: Nothing records which receipts or transactions were used: a signed funding request that was credited once
  is credited again, with the same amount, each time it is sent.
\<close>

theorem signed_funding_replays:
  assumes "api_admin_fund_balance env auth disk now key_id header req fs = (fs1, Ok r1)"
  shows "\<exists>fs2 r2. api_admin_fund_balance env auth disk later key_id header req fs1 = (fs2, Ok r2) \<and>
    fp_funded r2 = fp_funded r1 \<and>
    get_balance (fn_store fs2) key_id = f64_add (f64_add (get_balance (fn_store fs) key_id) (fp_funded r1)) (fp_funded r1)"
proof -
  from fund_balance_cases [OF assms] obtain k where k: "get_key (fn_store fs) key_id = Some k"
    and amount: "request_amount env auth key_id header req = Some (fp_funded r1)"
    and b: "fp_balance r1 = f64_add (ck_balance k) (fp_funded r1)"
    and g: "get_key (fn_store fs1) = (get_key (fn_store fs))(key_id \<mapsto> k\<lparr>ck_balance := fp_balance r1\<rparr>)" by auto
  then have k1: "get_key (fn_store fs1) key_id = Some (k\<lparr>ck_balance := fp_balance r1\<rparr>)" by simp
  from fund_balance_ok [OF amount k1, of disk later] obtain fs2 r2 where
    again: "api_admin_fund_balance env auth disk later key_id header req fs1 = (fs2, Ok r2)" "fp_funded r2 = fp_funded r1" by blast
  from fund_balance_cases [OF again(1)] k1 again(2)
  have "get_balance (fn_store fs2) key_id = f64_add (fp_balance r1) (fp_funded r1)" by (auto simp: get_balance_def)
  with again b k show ?thesis by (auto simp: get_balance_def)
qed

definition demo_funding :: funding_env where
  "demo_funding =
     \<lparr>fe_secret = Some ''s'', fe_hmac = \<lambda>_ _. ''t'', fe_fixed6 = \<lambda>_. ''1.000000'', fe_parse_big = \<lambda>_. None, fe_base_url = None,
      fe_sepolia_url = None, fe_rpc = \<lambda>_ _. Err [], fe_simulation = False\<rparr>"

definition demo_fund_request :: FundBalanceRequest where
  "demo_fund_request = \<lparr>fr_source = AgentpmtTokens ''r1'' f64_one ''74'', fr_amount = None\<rparr>"

lemma demo_request_amount: "request_amount demo_funding False (key_id_of ''8'') (Some ''74'') demo_fund_request = Some f64_one"
proof -
  have "trim ''74'' = ''74''" by (rule trim_visible) simp
  moreover have "hex_decode ''74'' = Ok ''t''" by code_simp
  moreover have "\<not> f64_le f64_one 0" by (simp add: f64_le_def f64_key_def f64_neg_def f64_mag_def)
  ultimately show ?thesis
    by (simp add: request_amount_def demo_fund_request_def authorize_funding_def verify_webhook_signature_def verify_agentpmt_signature_def
        verify_hmac_def demo_funding_def unwrap_or_def)
qed

theorem signed_funding_replays_witness:
  "\<exists>fs1 r1 fs2 r2.
     api_admin_fund_balance demo_funding False True 8 (key_id_of ''8'') (Some ''74'') demo_fund_request \<lparr>fn_store = demo_store, fn_ledger = []\<rparr> =
       (fs1, Ok r1) \<and>
     api_admin_fund_balance demo_funding False True 9 (key_id_of ''8'') (Some ''74'') demo_fund_request fs1 = (fs2, Ok r2) \<and>
     fp_funded r2 = fp_funded r1"
proof -
  have "get_key (fn_store \<lparr>fn_store = demo_store, fn_ledger = []\<rparr>) (key_id_of ''8'') = Some demo_customer" by (simp add: demo_store_get)
  from fund_balance_ok [OF demo_request_amount this] obtain fs1 r1 where
    f: "api_admin_fund_balance demo_funding False True 8 (key_id_of ''8'') (Some ''74'') demo_fund_request \<lparr>fn_store = demo_store, fn_ledger = []\<rparr> =
       (fs1, Ok r1)" by blast
  from signed_funding_replays [OF f, of 9] f show ?thesis by blast
qed

text \<open>
  C39: The usage of different days is counted apart, up to a clock of a thousand million years: the
  printed date determines the day.  The date is the one of a day 719163 days later, since the days before 1970 are added
  twice: the first of January 1970 prints as a day of the year 3939.
\<close>

theorem usage_days_are_distinct:
  assumes "unat s < 2 ^ 55" "unat s' < 2 ^ 55"
  shows "(today_string s = today_string s' \<longleftrightarrow> unat s div 86400 = unat s' div 86400) \<and>
    days_from_civil (civil_from_days (int (unat s div 86400))) = int (unat s div 86400) \<and>
    today_string s = date_string (civil_from_days (int (unat s div 86400) + 719163)) \<and>
    today_string 0 = ''3939-01-02''"
proof -
  have "civil_from_days 719163 = (3939, 1, 2)" by code_simp
  moreover have "digit_char 1 = CHR ''1''" "digit_char 2 = CHR ''2''" "digit_char 3 = CHR ''3''" "digit_char 9 = CHR ''9''"
    by code_simp+
  then have "pad0 4 3939 = ''3939''" "pad0 2 1 = ''01''" "pad0 2 2 = ''02''" by (simp_all add: pad0_def Let_def dec.simps)
  ultimately have "today_string 0 = ''3939-01-02''" by (simp add: today_string_def date_string_def)
  moreover have "today_string s = date_string (civil_from_days (int (unat s div 86400) + 719163))"
    by (simp add: today_string_def add.commute)
  moreover have "days_from_civil (civil_from_days (int (unat s div 86400))) = int (unat s div 86400)"
    by (rule civil_inverse) simp
  ultimately show ?thesis using today_string_eq_iff [OF assms] by blast
qed

theorem usage_days_are_distinct_witness:
  "today_string 86399 = today_string 0 \<and> today_string 86400 \<noteq> today_string 0"
proof -
  have b: "unat (86399 :: u64) < 2 ^ 55" "unat (86400 :: u64) < 2 ^ 55" "unat (0 :: u64) < 2 ^ 55" by simp_all
  have d: "unat (86399 :: u64) div 86400 = unat (0 :: u64) div 86400" "unat (86400 :: u64) div 86400 \<noteq> unat (0 :: u64) div 86400"
    by simp_all
  show ?thesis using usage_days_are_distinct [OF b(1,3)] usage_days_are_distinct [OF b(2,3)] d by blast
qed

section \<open>Lock files\<close>





end
